(* ===== verification/Prelude.thy ===== *)
theory Prelude
  imports Main "HOL-Library.Word" "HOL-Library.Monad_Syntax"
begin

unbundle bit_operations_syntax

section \<open>Shared vocabulary of the C model\<close>

text \<open>
  Every component theory of this development imports this one. It holds
  \<^item> the widths of \<open>stdint.h\<close> as word types;
  \<^item> pointers that may be \<open>NULL\<close> (\<open>'a ptr\<close>);
  \<^item> byte and element accesses to C objects of a fixed size: an access outside the
    object is undefined behaviour in C and is the value \<^term>\<open>None\<close> here, so a
    definition of type \<open>'a option\<close> returns \<open>Some\<close> exactly on the runs that have a
    defined result;
  \<^item> big and little endian byte layouts with their round trips;
  \<^item> the named theorem collections the component proofs share: \<open>mem_simps\<close> (accesses),
    \<open>layout_simps\<close> (byte layouts).
\<close>

named_theorems mem_simps "reads and writes of C objects"
named_theorems layout_simps "byte layouts of integers"

subsection \<open>Types\<close>

type_synonym u8 = "8 word"
type_synonym u16 = "16 word"
type_synonym u32 = "32 word"
type_synonym bytes = "u8 list"

text \<open>A C pointer to an object of type \<open>'a\<close>: \<open>NULL\<close>, or a reference to a live object.\<close>

datatype 'a ptr = NULL | Ref (deref: 'a)

definition is_null :: "'a ptr \<Rightarrow> bool" where
  "is_null p = (case p of NULL \<Rightarrow> True | Ref _ \<Rightarrow> False)"

lemma is_null_simps [simp]: "is_null NULL" "\<not> is_null (Ref x)"
  by (simp_all add: is_null_def)

text \<open>
  \<open>size_t\<close> arithmetic is 64 bit wide on the platforms the library is built for.
\<close>

definition size_mul :: "nat \<Rightarrow> nat \<Rightarrow> nat" where
  "size_mul a b = (a * b) mod 2 ^ 64"

lemma size_mul_exact [simp]: "a * b < 2 ^ 64 \<Longrightarrow> size_mul a b = a * b"
  by (simp add: size_mul_def)

subsection \<open>Facts about words\<close>

lemma unat_u8_less [simp]: "unat (b :: u8) < 256"
  using unsigned_less [of b] by simp

lemma unat_u16_less [simp]: "unat (x :: u16) < 65536"
  using unsigned_less [of x] by simp

lemma unat_u32_less [simp]: "unat (x :: u32) < 4294967296"
  using unsigned_less [of x] by simp

lemma unat_ucast_up [simp]:
  "unat (ucast (b :: u8) :: u16) = unat b"
  "unat (ucast (b :: u8) :: u32) = unat b"
  "unat (ucast (x :: u16) :: u32) = unat x"
  by (simp_all add: unsigned_ucast_eq take_bit_nat_eq_self less_trans [OF unat_u8_less]
      less_trans [OF unat_u16_less])

lemma unat_of_nat_u16: "n < 65536 \<Longrightarrow> unat (of_nat n :: u16) = n"
  by (simp add: unsigned_of_nat take_bit_nat_eq_self)

lemma unat_of_nat_u32: "n < 4294967296 \<Longrightarrow> unat (of_nat n :: u32) = n"
  by (simp add: unsigned_of_nat take_bit_nat_eq_self)

lemma unat_u32_le: "unat (x :: u32) \<le> 4294967295"
  using unat_u32_less [of x] by linarith

lemma sint_small:
  assumes "unat (x :: 'a::len word) < 2 ^ (LENGTH('a) - 1)"
  shows "sint x = int (unat x)"
proof -
  have "uint x < 2 ^ (LENGTH('a) - 1)"
    using assms of_nat_less_iff [of "unat x" "2 ^ (LENGTH('a) - 1)", where ?'a = int] by simp
  moreover have "0 \<le> uint x" by simp
  ultimately have "signed_take_bit (LENGTH('a) - 1) (uint x) = uint x"
    by (intro signed_take_bit_int_eq_self) linarith+
  then show ?thesis by (simp add: sint_uint)
qed

lemma sint_u32_small: "unat (c :: u32) < 2 ^ 31 \<Longrightarrow> sint c = int (unat c)"
  by (rule sint_small) simp

lemma unat_inc: "(x :: 'a::len word) < y \<Longrightarrow> unat (x + 1) = Suc (unat x)"
  by (simp add: unat_word_ariths word_less_nat_alt)
    (metis Suc_leI le_less_trans mod_less unsigned_less)

lemma unat_dec: "(x :: 'a::len word) \<noteq> 0 \<Longrightarrow> unat (x - 1) = unat x - 1"
  by (simp add: unat_minus_one)

lemma word_inc_le: "(x :: 'a::len word) < y \<Longrightarrow> x + 1 \<le> y"
  by (simp add: inc_le)

lemma word_dec_le: "(x :: 'a::len word) \<noteq> 0 \<Longrightarrow> x \<le> y \<Longrightarrow> x - 1 \<le> y"
  by (simp add: word_le_nat_alt unat_dec)

lemma word_xor_eq_0 [simp]: "(x :: 'a::len word) XOR y = 0 \<longleftrightarrow> x = y"
  by (metis xor.assoc xor.right_neutral xor_self_eq)

lemma word_xor_right_cancel [simp]: "(a :: 'a::len word) XOR b = c XOR b \<longleftrightarrow> a = c"
proof
  assume "a XOR b = c XOR b"
  then have "(a XOR b) XOR b = (c XOR b) XOR b" by simp
  then show "a = c" by (simp add: xor.assoc)
qed simp

lemma word_xor_left_cancel [simp]: "b XOR (a :: 'a::len word) = b XOR c \<longleftrightarrow> a = c"
  by (simp add: xor.commute [of b])

lemma ucast_u16_u32 [simp]: "ucast (ucast (x :: u16) :: u32) = x"
  by (rule bit_word_eqI) (simp add: bit_simps)

lemma ucast_push_bit_u32: "(ucast (push_bit n (r :: u32)) :: u16) = push_bit n (ucast r)"
  by (rule bit_word_eqI) (auto simp: bit_simps)

lemma ucast_xor_u32: "(ucast (x XOR y :: u32) :: u16) = ucast x XOR ucast y"
  by (rule bit_word_eqI) (simp add: bit_simps)

lemma bit_word8_outside [simp]: "8 \<le> n \<Longrightarrow> \<not> bit (w :: u8) n"
  by (auto dest: bit_imp_le_length)

subsection \<open>Access to the bytes or elements of one object\<close>

definition mem_get :: "'a list \<Rightarrow> nat \<Rightarrow> 'a option" where
  "mem_get m i = (if i < length m then Some (m ! i) else None)"

definition mem_set :: "'a list \<Rightarrow> nat \<Rightarrow> 'a \<Rightarrow> 'a list option" where
  "mem_set m i x = (if i < length m then Some (m[i := x]) else None)"

text \<open>\<open>memcpy\<close> out of, and into, an object; \<open>memmove\<close> inside it.\<close>

definition mem_read :: "'a list \<Rightarrow> nat \<Rightarrow> nat \<Rightarrow> 'a list option" where
  "mem_read m off n = (if off + n \<le> length m then Some (take n (drop off m)) else None)"

definition mem_write :: "'a list \<Rightarrow> nat \<Rightarrow> 'a list \<Rightarrow> 'a list option" where
  "mem_write m off bs =
     (if off + length bs \<le> length m
      then Some (take off m @ bs @ drop (off + length bs) m) else None)"

definition mem_move :: "'a list \<Rightarrow> nat \<Rightarrow> nat \<Rightarrow> nat \<Rightarrow> 'a list option" where
  "mem_move m dst src n = do { bs \<leftarrow> mem_read m src n; mem_write m dst bs }"

lemma mem_get_Some [mem_simps]: "i < length m \<Longrightarrow> mem_get m i = Some (m ! i)"
  by (simp add: mem_get_def)

lemma mem_get_None [mem_simps]: "length m \<le> i \<Longrightarrow> mem_get m i = None"
  by (simp add: mem_get_def)

lemma mem_set_Some [mem_simps]: "i < length m \<Longrightarrow> mem_set m i x = Some (m[i := x])"
  by (simp add: mem_set_def)

lemma mem_read_Some [mem_simps]:
  "off + n \<le> length m \<Longrightarrow> mem_read m off n = Some (take n (drop off m))"
  by (simp add: mem_read_def)

lemma mem_read_None [mem_simps]: "length m < off + n \<Longrightarrow> mem_read m off n = None"
  by (simp add: mem_read_def)

lemma mem_write_Some [mem_simps]:
  "off + length bs \<le> length m \<Longrightarrow>
     mem_write m off bs = Some (take off m @ bs @ drop (off + length bs) m)"
  by (simp add: mem_write_def)

lemma mem_write_None [mem_simps]: "length m < off + length bs \<Longrightarrow> mem_write m off bs = None"
  by (simp add: mem_write_def)

lemma mem_move_Some [mem_simps]:
  "src + n \<le> length m \<Longrightarrow> dst + n \<le> length m \<Longrightarrow>
     mem_move m dst src n =
       Some (take dst m @ take n (drop src m) @ drop (dst + n) m)"
  by (simp add: mem_move_def mem_read_def mem_write_def min_absorb2)

lemma mem_move_None [mem_simps]: "length m < src + n \<Longrightarrow> mem_move m dst src n = None"
  by (simp add: mem_move_def mem_read_None)

lemma length_mem_read: "mem_read m off n = Some x \<Longrightarrow> length x = n"
  by (auto simp: mem_read_def split: if_splits)

lemma length_mem_write: "mem_write m off bs = Some m' \<Longrightarrow> length m' = length m"
  by (auto simp: mem_write_def split: if_splits)

lemma length_mem_move: "mem_move m d s n = Some m' \<Longrightarrow> length m' = length m"
  by (auto simp: mem_move_def bind_eq_Some_conv dest: length_mem_write)

subsection \<open>Byte layouts\<close>

definition byte_hi :: "u16 \<Rightarrow> u8" where
  "byte_hi x = ucast (drop_bit 8 x)"

definition byte_lo :: "u16 \<Rightarrow> u8" where
  "byte_lo x = ucast x"

definition be16 :: "u8 \<Rightarrow> u8 \<Rightarrow> u16" where
  "be16 h l = push_bit 8 (ucast h) OR ucast l"

lemma be16_split [layout_simps]: "be16 (byte_hi x) (byte_lo x) = x"
  by (rule bit_word_eqI)
    (auto simp: be16_def byte_hi_def byte_lo_def bit_simps not_less
        dest: bit_imp_le_length)

lemma byte_hi_be16 [layout_simps]: "byte_hi (be16 h l) = h"
  by (rule bit_word_eqI)
    (auto simp: be16_def byte_hi_def bit_simps dest: bit_imp_le_length)

lemma byte_lo_be16 [layout_simps]: "byte_lo (be16 h l) = l"
  by (rule bit_word_eqI)
    (auto simp: be16_def byte_lo_def bit_simps dest: bit_imp_le_length)

text \<open>Little endian 32 bit values, as the union of \<open>CO_utils.h\<close> lays them out.\<close>

definition le32_byte :: "nat \<Rightarrow> u32 \<Rightarrow> u8" where
  "le32_byte k x = ucast (drop_bit (8 * k) x)"

definition le32 :: "u8 \<Rightarrow> u8 \<Rightarrow> u8 \<Rightarrow> u8 \<Rightarrow> u32" where
  "le32 b0 b1 b2 b3 =
     ucast b0 OR push_bit 8 (ucast b1) OR push_bit 16 (ucast b2) OR push_bit 24 (ucast b3)"

lemma le32_split [layout_simps]:
  "le32 (le32_byte 0 x) (le32_byte 1 x) (le32_byte 2 x) (le32_byte 3 x) = x"
proof (rule bit_word_eqI)
  fix n
  assume n: "n < LENGTH(32)"
  consider "n < 8" | "8 \<le> n" "n < 16" | "16 \<le> n" "n < 24" | "24 \<le> n" "n < 32"
    using n by force
  then show "bit (le32 (le32_byte 0 x) (le32_byte 1 x) (le32_byte 2 x) (le32_byte 3 x)) n
             = bit x n"
    by cases (auto simp: le32_def le32_byte_def bit_simps)
qed

lemma le32_bytes [layout_simps]:
  "le32_byte 0 (le32 a b c d) = a" "le32_byte 1 (le32 a b c d) = b"
  "le32_byte 2 (le32 a b c d) = c" "le32_byte 3 (le32 a b c d) = d"
  by (rule bit_word_eqI, force simp: le32_def le32_byte_def bit_simps)+

end
