(* ===== verification/Timer.thy ===== *)
theory Timer
  imports Prelude
begin

section \<open>Elapsed timers\<close>

text \<open>
  Models \<^verbatim>\<open>utils/code_c/timing/elapsed_timer.h\<close>: a duration and the time it runs from, both
  \<open>int64_t\<close> milliseconds. The clock of the operating system is a parameter \<open>tick\<close> on a world
  \<open>'w\<close>: a reading gives the time and the world after it. The components include the header
  under the name \<^verbatim>\<open>sm_elapsed_timer.h\<close>.
\<close>

type_synonym 'w clock = "'w \<Rightarrow> int \<times> 'w"

record elapsed_timer =
  et_duration :: int
  et_start_time :: int

definition elapsed_timer_reset :: "'w clock \<Rightarrow> elapsed_timer \<Rightarrow> 'w \<Rightarrow> elapsed_timer \<times> 'w" where
  "elapsed_timer_reset tick t w = (case tick w of (now, w) \<Rightarrow> (t\<lparr>et_start_time := now\<rparr>, w))"

definition elapsed_timer_resetz :: "'w clock \<Rightarrow> elapsed_timer \<Rightarrow> int \<Rightarrow> 'w \<Rightarrow> elapsed_timer \<times> 'w" where
  "elapsed_timer_resetz tick t duration w =
     (case tick w of (now, w) \<Rightarrow> (t\<lparr>et_duration := duration, et_start_time := now\<rparr>, w))"

definition elapsed_timer_pass :: "elapsed_timer \<Rightarrow> elapsed_timer" where
  "elapsed_timer_pass t = t\<lparr>et_duration := 0\<rparr>"

definition elapsed_timer_get_remain :: "'w clock \<Rightarrow> elapsed_timer \<Rightarrow> 'w \<Rightarrow> int \<times> 'w" where
  "elapsed_timer_get_remain tick t w =
     (case tick w of (now, w) \<Rightarrow>
        let passed_time = now - et_start_time t in
        if et_duration t \<le> passed_time then (0, w) else (et_duration t - passed_time, w))"

text \<open>A timer reads 0 at a world when its duration has passed there.\<close>

definition timer_expired :: "'w clock \<Rightarrow> elapsed_timer \<Rightarrow> 'w \<Rightarrow> bool" where
  "timer_expired tick t w \<longleftrightarrow> et_duration t \<le> fst (tick w) - et_start_time t"

lemma get_remain_0 [simp]: "fst (elapsed_timer_get_remain tick t w) = 0 \<longleftrightarrow> timer_expired tick t w"
  by (auto simp: elapsed_timer_get_remain_def timer_expired_def Let_def split: prod.split)

lemma get_remain_world [simp]: "snd (elapsed_timer_get_remain tick t w) = snd (tick w)"
  by (simp add: elapsed_timer_get_remain_def Let_def split: prod.split)

end
