(* ===== verification/Crc.thy ===== *)
theory Crc
  imports Prelude
begin

section \<open>Cyclic redundancy checks\<close>

text \<open>
  Models \<^verbatim>\<open>utils/code_c/algorithms/sm_crc.c\<close> (CRC-8, CRC-16 and CRC-32 in the
  configuration of \<^verbatim>\<open>sm_crc.h\<close>, and the 16 bit table generator) and
  \<^verbatim>\<open>common/upgrade/loader/libs/canopen/CO_CRC.c\<close>. The lemmas show that the table driven
  CRC-16 is the bitwise one, that a message followed by its CRC has residue 0, and that the
  CRC-16 tells any two messages apart that differ in two neighbouring bytes only. The
  locale \<open>residue_check\<close> is the interface the framing layer relies on.
\<close>

subsection \<open>CRC-16: the table, its generator, the two configurations of the routine\<close>

definition CRC_16_POLYNOMIAL :: u32 where "CRC_16_POLYNOMIAL = 0x1021"
definition CRC_16_INIT_VALUE :: u32 where "CRC_16_INIT_VALUE = 0xFFFF"
definition CRC_16_XOR_VALUE :: u32 where "CRC_16_XOR_VALUE = 0x0000"

definition crc_16_buypass_lut :: "u16 list" where
  "crc_16_buypass_lut =
    [0x0000, 0x1021, 0x2042, 0x3063, 0x4084, 0x50a5, 0x60c6, 0x70e7,
     0x8108, 0x9129, 0xa14a, 0xb16b, 0xc18c, 0xd1ad, 0xe1ce, 0xf1ef,
     0x1231, 0x0210, 0x3273, 0x2252, 0x52b5, 0x4294, 0x72f7, 0x62d6,
     0x9339, 0x8318, 0xb37b, 0xa35a, 0xd3bd, 0xc39c, 0xf3ff, 0xe3de,
     0x2462, 0x3443, 0x0420, 0x1401, 0x64e6, 0x74c7, 0x44a4, 0x5485,
     0xa56a, 0xb54b, 0x8528, 0x9509, 0xe5ee, 0xf5cf, 0xc5ac, 0xd58d,
     0x3653, 0x2672, 0x1611, 0x0630, 0x76d7, 0x66f6, 0x5695, 0x46b4,
     0xb75b, 0xa77a, 0x9719, 0x8738, 0xf7df, 0xe7fe, 0xd79d, 0xc7bc,
     0x48c4, 0x58e5, 0x6886, 0x78a7, 0x0840, 0x1861, 0x2802, 0x3823,
     0xc9cc, 0xd9ed, 0xe98e, 0xf9af, 0x8948, 0x9969, 0xa90a, 0xb92b,
     0x5af5, 0x4ad4, 0x7ab7, 0x6a96, 0x1a71, 0x0a50, 0x3a33, 0x2a12,
     0xdbfd, 0xcbdc, 0xfbbf, 0xeb9e, 0x9b79, 0x8b58, 0xbb3b, 0xab1a,
     0x6ca6, 0x7c87, 0x4ce4, 0x5cc5, 0x2c22, 0x3c03, 0x0c60, 0x1c41,
     0xedae, 0xfd8f, 0xcdec, 0xddcd, 0xad2a, 0xbd0b, 0x8d68, 0x9d49,
     0x7e97, 0x6eb6, 0x5ed5, 0x4ef4, 0x3e13, 0x2e32, 0x1e51, 0x0e70,
     0xff9f, 0xefbe, 0xdfdd, 0xcffc, 0xbf1b, 0xaf3a, 0x9f59, 0x8f78,
     0x9188, 0x81a9, 0xb1ca, 0xa1eb, 0xd10c, 0xc12d, 0xf14e, 0xe16f,
     0x1080, 0x00a1, 0x30c2, 0x20e3, 0x5004, 0x4025, 0x7046, 0x6067,
     0x83b9, 0x9398, 0xa3fb, 0xb3da, 0xc33d, 0xd31c, 0xe37f, 0xf35e,
     0x02b1, 0x1290, 0x22f3, 0x32d2, 0x4235, 0x5214, 0x6277, 0x7256,
     0xb5ea, 0xa5cb, 0x95a8, 0x8589, 0xf56e, 0xe54f, 0xd52c, 0xc50d,
     0x34e2, 0x24c3, 0x14a0, 0x0481, 0x7466, 0x6447, 0x5424, 0x4405,
     0xa7db, 0xb7fa, 0x8799, 0x97b8, 0xe75f, 0xf77e, 0xc71d, 0xd73c,
     0x26d3, 0x36f2, 0x0691, 0x16b0, 0x6657, 0x7676, 0x4615, 0x5634,
     0xd94c, 0xc96d, 0xf90e, 0xe92f, 0x99c8, 0x89e9, 0xb98a, 0xa9ab,
     0x5844, 0x4865, 0x7806, 0x6827, 0x18c0, 0x08e1, 0x3882, 0x28a3,
     0xcb7d, 0xdb5c, 0xeb3f, 0xfb1e, 0x8bf9, 0x9bd8, 0xabbb, 0xbb9a,
     0x4a75, 0x5a54, 0x6a37, 0x7a16, 0x0af1, 0x1ad0, 0x2ab3, 0x3a92,
     0xfd2e, 0xed0f, 0xdd6c, 0xcd4d, 0xbdaa, 0xad8b, 0x9de8, 0x8dc9,
     0x7c26, 0x6c07, 0x5c64, 0x4c45, 0x3ca2, 0x2c83, 0x1ce0, 0x0cc1,
     0xef1f, 0xff3e, 0xcf5d, 0xdf7c, 0xaf9b, 0xbfba, 0x8fd9, 0x9ff8,
     0x6e17, 0x7e36, 0x4e55, 0x5e74, 0x2e93, 0x3eb2, 0x0ed1, 0x1ef0]"

text \<open>One pass of the inner loop of \<open>CRC_CalculateCRC16Table\<close>, and the whole table.\<close>

definition crc16_table_bit :: "u16 \<Rightarrow> u16" where
  "crc16_table_bit result =
     (let xor_flag = result AND 0x8000;
          result = push_bit 1 result
      in if xor_flag \<noteq> 0 then result XOR ucast CRC_16_POLYNOMIAL else result)"

definition CRC_CalculateCRC16Table :: "u16 list" where
  "CRC_CalculateCRC16Table =
     map (\<lambda>i. (crc16_table_bit ^^ 8) (push_bit 8 (of_nat i))) [0..<256]"

text \<open>
  The table driven loop body (\<open>CRC_16_MODE == TABLE\<close>, the configured mode). The state is a
  \<open>uint32_t\<close> that every assignment cuts to 16 bits.
\<close>

definition crc16_table_step :: "u32 \<Rightarrow> u8 \<Rightarrow> u32" where
  "crc16_table_step retVal b =
     ucast (ucast (push_bit 8 retVal XOR
       ucast (crc_16_buypass_lut ! unat (drop_bit 8 retVal XOR ucast b))) :: u16)"

definition sm_CRC_CalculateCRC16 :: "bytes ptr \<Rightarrow> u32 \<Rightarrow> u16 option" where
  "sm_CRC_CalculateCRC16 Buffer Length =
     (case Buffer of
        NULL \<Rightarrow> Some 0
      | Ref bs \<Rightarrow> do {
          d \<leftarrow> mem_read bs 0 (unat Length);
          Some (ucast (foldl crc16_table_step CRC_16_INIT_VALUE d XOR CRC_16_XOR_VALUE)) })"

text \<open>
  The bitwise loop body of the same routine (\<open>CRC_16_MODE == RUNTTIME\<close>): the 32 bit state
  is not cut, only its lower half reaches the result.
\<close>

definition crc16_runtime_bit :: "u32 \<Rightarrow> u32" where
  "crc16_runtime_bit retVal =
     (if retVal AND push_bit 15 1 \<noteq> 0 then push_bit 1 retVal XOR CRC_16_POLYNOMIAL
      else push_bit 1 retVal)"

definition crc16_runtime_step :: "u32 \<Rightarrow> u8 \<Rightarrow> u32" where
  "crc16_runtime_step retVal b =
     (crc16_runtime_bit ^^ 8) (retVal XOR push_bit 8 (ucast b))"

definition sm_CRC_CalculateCRC16_runtime :: "bytes ptr \<Rightarrow> u32 \<Rightarrow> u16 option" where
  "sm_CRC_CalculateCRC16_runtime Buffer Length =
     (case Buffer of
        NULL \<Rightarrow> Some 0
      | Ref bs \<Rightarrow> do {
          d \<leftarrow> mem_read bs 0 (unat Length);
          Some (ucast (foldl crc16_runtime_step CRC_16_INIT_VALUE d XOR CRC_16_XOR_VALUE)) })"

text \<open>\<open>CO_CRC_CalculateCRC16\<close> of the CANopen library keeps the state in a \<open>uint16_t\<close>.\<close>

definition co_crc16_step :: "u16 \<Rightarrow> u8 \<Rightarrow> u16" where
  "co_crc16_step retVal b =
     push_bit 8 retVal XOR crc_16_buypass_lut ! unat (drop_bit 8 retVal XOR ucast b)"

definition CO_CRC_CalculateCRC16 :: "bytes ptr \<Rightarrow> u32 \<Rightarrow> u16 option" where
  "CO_CRC_CalculateCRC16 Buffer Length =
     (case Buffer of
        NULL \<Rightarrow> Some 0
      | Ref bs \<Rightarrow> do {
          d \<leftarrow> mem_read bs 0 (unat Length);
          Some (foldl co_crc16_step (ucast CRC_16_INIT_VALUE) d XOR ucast CRC_16_XOR_VALUE) })"

text \<open>The specification: the polynomial division, one message bit at a time.\<close>

definition crc16_step :: "u16 \<Rightarrow> u8 \<Rightarrow> u16" where
  "crc16_step r b = (crc16_table_bit ^^ 8) (r XOR push_bit 8 (ucast b))"

definition crc16 :: "bytes \<Rightarrow> u16" where
  "crc16 bs = foldl crc16_step 0xFFFF bs"

definition crc16_trailer :: "u16 \<Rightarrow> bytes" where
  "crc16_trailer c = [byte_hi c, byte_lo c]"

subsection \<open>The table is correct and the routines agree\<close>

lemma funpow_8: "(f ^^ 8) x = f (f (f (f (f (f (f (f x)))))))"
  by (simp add: numeral_eq_Suc)

lemma and_0x8000_iff [simp]: "(r :: u16) AND 0x8000 = 0 \<longleftrightarrow> \<not> bit r 15"
proof -
  have "r AND 0x8000 = r AND push_bit 15 1" by simp
  then show ?thesis by (metis bit_iff_and_push_bit_not_eq_0)
qed

lemma crc16_table_bit_eq:
  "crc16_table_bit r = (if bit r 15 then push_bit 1 r XOR 0x1021 else push_bit 1 r)"
  by (simp add: crc16_table_bit_def CRC_16_POLYNOMIAL_def)

lemma crc16_bit_xor:
  "crc16_table_bit (x XOR y) = crc16_table_bit x XOR crc16_table_bit y"
  by (rule bit_word_eqI)
     (auto simp: crc16_table_bit_eq bit_xor_iff bit_push_bit_iff)

lemma crc16_bits_xor:
  "(crc16_table_bit ^^ n) (x XOR y) = (crc16_table_bit ^^ n) x XOR (crc16_table_bit ^^ n) y"
  by (induction n) (simp_all add: crc16_bit_xor)

lemma crc16_bits_byte:
  "n \<le> 8 \<Longrightarrow> (crc16_table_bit ^^ n) (ucast (b :: u8)) = push_bit n (ucast b)"
proof (induction n)
  case 0
  show ?case by simp
next
  case (Suc n)
  then have "\<not> bit (push_bit n (ucast b) :: u16) 15"
    by (simp add: bit_push_bit_iff bit_ucast_iff)
  with Suc show ?case by (simp add: crc16_table_bit_eq)
qed

lemma crc16_bit_0_iff: "crc16_table_bit r = 0 \<longleftrightarrow> r = 0"
proof
  assume eq: "crc16_table_bit r = 0"
  have nb: "\<not> bit r 15"
  proof
    assume "bit r 15"
    with eq have "push_bit 1 r XOR 0x1021 = 0" by (simp add: crc16_table_bit_eq)
    then have "bit (push_bit 1 r XOR (0x1021 :: u16)) 0 = bit (0::u16) 0" by simp
    moreover have "\<not> bit (push_bit 1 r) 0" by (simp only: bit_push_bit_iff) simp
    ultimately show False by (simp only: bit_xor_iff) simp
  qed
  with eq have z: "push_bit 1 r = 0" by (simp add: crc16_table_bit_eq)
  show "r = 0"
  proof (rule bit_word_eqI)
    fix n assume "n < LENGTH(16)"
    then consider "n = 15" | "n < 15" by fastforce
    then show "bit r n = bit (0::u16) n"
    proof cases
      case 2
      have "bit (push_bit 1 r) (Suc n) = bit r n"
        using 2 by (simp only: bit_push_bit_iff) simp
      with z show ?thesis by simp
    qed (simp add: nb)
  qed
qed (simp add: crc16_table_bit_eq)

lemma crc16_bits_0_iff: "(crc16_table_bit ^^ n) r = 0 \<longleftrightarrow> r = 0"
  by (induction n) (simp_all add: crc16_bit_0_iff)

lemma crc16_bits_inj: "(crc16_table_bit ^^ n) x = (crc16_table_bit ^^ n) y \<longleftrightarrow> x = y"
  using crc16_bits_0_iff [of n "x XOR y"] by (simp add: crc16_bits_xor)

lemma be16_xor: "be16 h l = push_bit 8 (ucast h) XOR ucast l"
  by (rule bit_word_eqI) (auto simp: be16_def bit_simps)

text \<open>Eight division steps consume one byte: the upper byte selects a table entry.\<close>

lemma crc16_bits_be16:
  "(crc16_table_bit ^^ 8) (be16 h l)
     = (crc16_table_bit ^^ 8) (push_bit 8 (ucast h)) XOR push_bit 8 (ucast l)"
  by (simp only: be16_xor crc16_bits_xor crc16_bits_byte order_refl)

lemma crc16_step_be16:
  "crc16_step (be16 h l) b
     = (crc16_table_bit ^^ 8) (push_bit 8 (ucast (h XOR b))) XOR push_bit 8 (ucast l)"
proof -
  have "be16 h l XOR push_bit 8 (ucast b) = be16 (h XOR b) l"
    by (rule bit_word_eqI) (auto simp: be16_def bit_simps)
  then show ?thesis by (simp only: crc16_step_def crc16_bits_be16)
qed

lemma upt_256: "[0..<256] = 0 # 1 # [2..<256]"
  by (simp add: upt_conv_Cons)

text \<open>The constant table is the one \<open>CRC_CalculateCRC16Table\<close> would generate.\<close>

lemma crc16_table_generated: "CRC_CalculateCRC16Table = crc_16_buypass_lut"
  unfolding CRC_CalculateCRC16Table_def upt_256
  apply simp
  apply (simp only: funpow_8)
  apply (simp add: crc_16_buypass_lut_def crc16_table_bit_def CRC_16_POLYNOMIAL_def)
  done

lemma crc_lut_nth:
  "i < 256 \<Longrightarrow> crc_16_buypass_lut ! i = (crc16_table_bit ^^ 8) (push_bit 8 (of_nat i))"
  by (simp flip: crc16_table_generated add: CRC_CalculateCRC16Table_def)

lemma crc16_table_step_eq: "crc16_table_step (ucast r) b = ucast (crc16_step r b)"
proof -
  define h l where "h = byte_hi r" and "l = byte_lo r"
  have r: "r = be16 h l" by (simp add: h_def l_def layout_simps)
  have idx: "drop_bit 8 (ucast r :: u32) XOR ucast b = ucast (h XOR b)"
    by (rule bit_word_eqI) (auto simp: h_def byte_hi_def bit_simps dest: bit_imp_le_length)
  have lut: "crc_16_buypass_lut ! unat (ucast (h XOR b) :: u32)
     = (crc16_table_bit ^^ 8) (push_bit 8 (ucast (h XOR b)))"
    by (simp add: crc_lut_nth)
  have cut: "ucast (push_bit 8 (ucast r) XOR ucast t :: u32) = t XOR push_bit 8 (ucast l)"
    for t :: u16
    by (rule bit_word_eqI) (auto simp: r be16_def bit_simps)
  have "crc16_step r b
     = (crc16_table_bit ^^ 8) (push_bit 8 (ucast (h XOR b))) XOR push_bit 8 (ucast l)"
    by (subst r) (rule crc16_step_be16)
  then show ?thesis by (simp only: crc16_table_step_def idx lut cut)
qed

lemma foldl_table_step: "foldl crc16_table_step (ucast r) bs = ucast (foldl crc16_step r bs)"
  by (induction bs arbitrary: r) (simp_all add: crc16_table_step_eq)

lemma bit_ucast_iff_u16: "bit (ucast (r :: u32) :: u16) 15 = bit r 15"
  by (simp add: bit_simps)

lemma crc16_runtime_bit_ucast: "ucast (crc16_runtime_bit r) = crc16_table_bit (ucast r)"
proof -
  have "r AND push_bit 15 1 \<noteq> 0 \<longleftrightarrow> bit (ucast r :: u16) 15"
    by (metis bit_iff_and_push_bit_not_eq_0 bit_ucast_iff_u16)
  then show ?thesis
    by (simp only: crc16_runtime_bit_def crc16_table_bit_eq CRC_16_POLYNOMIAL_def
        ucast_push_bit_u32 ucast_xor_u32 split: if_split) simp
qed

lemma crc16_runtime_bits_ucast:
  "ucast ((crc16_runtime_bit ^^ n) r) = (crc16_table_bit ^^ n) (ucast r)"
  by (induction n) (simp_all add: crc16_runtime_bit_ucast)

lemma crc16_runtime_step_ucast: "ucast (crc16_runtime_step r b) = crc16_step (ucast r) b"
proof -
  have "ucast (r XOR push_bit 8 (ucast b)) = ucast r XOR push_bit 8 (ucast b :: u16)"
    by (rule bit_word_eqI) (auto simp: bit_simps)
  then show ?thesis
    by (simp add: crc16_runtime_step_def crc16_step_def crc16_runtime_bits_ucast)
qed

lemma foldl_runtime_step:
  "ucast (foldl crc16_runtime_step r bs) = foldl crc16_step (ucast r) bs"
  by (induction bs arbitrary: r) (simp_all add: crc16_runtime_step_ucast)

lemma co_crc16_step_eq: "co_crc16_step r b = crc16_step r b"
proof -
  define h l where "h = byte_hi r" and "l = byte_lo r"
  have r: "r = be16 h l" by (simp add: h_def l_def layout_simps)
  have idx: "drop_bit 8 r XOR ucast b = ucast (h XOR b)"
    by (rule bit_word_eqI) (auto simp: h_def byte_hi_def bit_simps dest: bit_imp_le_length)
  have lut: "crc_16_buypass_lut ! unat (ucast (h XOR b) :: u16)
     = (crc16_table_bit ^^ 8) (push_bit 8 (ucast (h XOR b)))"
    by (simp add: crc_lut_nth)
  have cut: "push_bit 8 r XOR t = t XOR push_bit 8 (ucast l)" for t
    by (rule bit_word_eqI) (auto simp: r be16_def bit_simps)
  have "crc16_step r b
     = (crc16_table_bit ^^ 8) (push_bit 8 (ucast (h XOR b))) XOR push_bit 8 (ucast l)"
    by (subst r) (rule crc16_step_be16)
  then show ?thesis by (simp only: co_crc16_step_def idx lut cut)
qed

text \<open>All three routines compute \<^const>\<open>crc16\<close>.\<close>

lemma sm_crc16_eq:
  "sm_CRC_CalculateCRC16 (Ref bs) n =
     (if unat n \<le> length bs then Some (crc16 (take (unat n) bs)) else None)"
  by (simp add: sm_CRC_CalculateCRC16_def mem_read_def CRC_16_XOR_VALUE_def
      CRC_16_INIT_VALUE_def crc16_def foldl_table_step [of "0xFFFF", simplified])

lemma sm_crc16_runtime_eq:
  "sm_CRC_CalculateCRC16_runtime (Ref bs) n =
     (if unat n \<le> length bs then Some (crc16 (take (unat n) bs)) else None)"
  by (simp add: sm_CRC_CalculateCRC16_runtime_def mem_read_def CRC_16_XOR_VALUE_def
      CRC_16_INIT_VALUE_def crc16_def foldl_runtime_step)

lemma CO_crc16_eq:
  "CO_CRC_CalculateCRC16 (Ref bs) n =
     (if unat n \<le> length bs then Some (crc16 (take (unat n) bs)) else None)"
proof -
  have "co_crc16_step = crc16_step" by (intro ext) (rule co_crc16_step_eq)
  then show ?thesis
    by (simp add: CO_CRC_CalculateCRC16_def mem_read_def CRC_16_XOR_VALUE_def
        CRC_16_INIT_VALUE_def crc16_def)
qed

subsection \<open>Residue and error detection\<close>

lemma crc16_append: "crc16 (xs @ ys) = foldl crc16_step (crc16 xs) ys"
  by (simp add: crc16_def)

lemma crc16_step_two:
  "crc16_step (crc16_step r a) b = (crc16_table_bit ^^ 16) (r XOR be16 a b)"
proof -
  let ?g = "crc16_table_bit ^^ 8"
  have "crc16_step (crc16_step r a) b = ?g (?g (r XOR push_bit 8 (ucast a)) XOR push_bit 8 (ucast b))"
    by (simp add: crc16_step_def)
  also have "push_bit 8 (ucast b) = ?g (ucast b)"
    by (simp add: crc16_bits_byte)
  also have "?g (?g (r XOR push_bit 8 (ucast a)) XOR ?g (ucast b)) = ?g (?g (r XOR be16 a b))"
    by (simp only: be16_xor crc16_bits_xor xor.assoc)
  also have "\<dots> = (crc16_table_bit ^^ 16) (r XOR be16 a b)"
    by (simp flip: funpow_add [unfolded comp_def, THEN fun_cong])
  finally show ?thesis .
qed

lemma crc16_trailer_residue: "crc16 (m @ crc16_trailer (crc16 m)) = 0"
  by (simp add: crc16_append crc16_trailer_def crc16_step_two layout_simps crc16_bits_0_iff)

lemma crc16_step_inj: "crc16_step r a = crc16_step s a \<longleftrightarrow> r = s"
  by (simp add: crc16_step_def crc16_bits_inj)

lemma foldl_crc16_inj: "foldl crc16_step r ys = foldl crc16_step s ys \<longleftrightarrow> r = s"
  by (induction ys arbitrary: r s) (simp_all add: crc16_step_inj)

lemma be16_inj [simp]: "be16 a b = be16 c d \<longleftrightarrow> a = c \<and> b = d"
  by (metis byte_hi_be16 byte_lo_be16)

lemma crc16_burst:
  "crc16 (xs @ [a, b] @ ys) = crc16 (xs @ [c, d] @ ys) \<longleftrightarrow> a = c \<and> b = d"
proof -
  have "crc16 (xs @ [a, b] @ ys) = crc16 (xs @ [c, d] @ ys)
    \<longleftrightarrow> crc16 xs XOR be16 a b = crc16 xs XOR be16 c d"
    by (simp add: crc16_append crc16_step_two foldl_crc16_inj crc16_bits_inj)
  also have "\<dots> \<longleftrightarrow> be16 a b = be16 c d"
    by simp
  finally show ?thesis by simp
qed


subsection \<open>CRC-8 and CRC-32, bit order reversal\<close>

definition CRC_8_POLYNOMIAL :: u8 where "CRC_8_POLYNOMIAL = 0x1D"
definition CRC_8_INIT_VALUE :: u8 where "CRC_8_INIT_VALUE = 0xFF"
definition CRC_8_XOR_VALUE :: u8 where "CRC_8_XOR_VALUE = 0xFF"
definition CRC_32_POLYNOMIAL :: u32 where "CRC_32_POLYNOMIAL = 0x04C11DB7"
definition CRC_32_INIT_VALUE :: u32 where "CRC_32_INIT_VALUE = 0xFFFFFFFF"
definition CRC_32_XOR_VALUE :: u32 where "CRC_32_XOR_VALUE = 0xFFFFFFFF"

definition crc8_bit :: "u8 \<Rightarrow> u8" where
  "crc8_bit retVal =
     (if retVal AND push_bit 7 1 \<noteq> 0 then push_bit 1 retVal XOR CRC_8_POLYNOMIAL
      else push_bit 1 retVal)"

definition crc8_step :: "u8 \<Rightarrow> u8 \<Rightarrow> u8" where
  "crc8_step retVal b = (crc8_bit ^^ 8) (retVal XOR b)"

definition sm_CRC_CalculateCRC8 :: "bytes ptr \<Rightarrow> u16 \<Rightarrow> u8 option" where
  "sm_CRC_CalculateCRC8 Buffer Length =
     (case Buffer of
        NULL \<Rightarrow> Some 0
      | Ref bs \<Rightarrow> do {
          d \<leftarrow> mem_read bs 0 (unat Length);
          Some (foldl crc8_step CRC_8_INIT_VALUE d XOR CRC_8_XOR_VALUE) })"

definition CRC_ReverseBitOrder8 :: "u8 \<Rightarrow> u8" where
  "CRC_ReverseBitOrder8 v0 =
     (let v1 = drop_bit 4 (v0 AND 0xF0) OR push_bit 4 (v0 AND 0x0F);
          v2 = drop_bit 2 (v1 AND 0xCC) OR push_bit 2 (v1 AND 0x33)
      in drop_bit 1 (v2 AND 0xAA) OR push_bit 1 (v2 AND 0x55))"

text \<open>The loop \<open>for (i = 31; value; ) \<dots>\<close>: it runs until no set bit is left.\<close>

function crc_reverse32_loop :: "u32 \<Rightarrow> u8 \<Rightarrow> u32 \<Rightarrow> u32" where
  "crc_reverse32_loop value i reversed =
     (if value = 0 then reversed
      else crc_reverse32_loop (drop_bit 1 value) (i - 1)
             (reversed OR push_bit (unat i) (value AND 1)))"
  by pat_completeness auto
termination
proof (relation "measure (\<lambda>(v, i, r). unat v)", goal_cases)
  case (2 v i r)
  then have "0 < unat v" by (simp add: unat_gt_0)
  moreover have "unat (drop_bit 1 v) = unat v div 2"
    by (simp add: unat_drop_bit_eq drop_bit_Suc unat_div)
  ultimately show ?case by simp
qed simp

declare crc_reverse32_loop.simps [simp del]

definition CRC_ReverseBitOrder32 :: "u32 \<Rightarrow> u32" where
  "CRC_ReverseBitOrder32 v = crc_reverse32_loop v 31 0"

definition crc32_bit :: "u32 \<Rightarrow> u32" where
  "crc32_bit retVal =
     (if retVal AND push_bit 31 1 \<noteq> 0 then push_bit 1 retVal XOR CRC_32_POLYNOMIAL
      else push_bit 1 retVal)"

definition crc32_step :: "u32 \<Rightarrow> u8 \<Rightarrow> u32" where
  "crc32_step retVal b =
     (crc32_bit ^^ 8) (retVal XOR push_bit 24 (ucast (CRC_ReverseBitOrder8 b)))"

definition sm_CRC_CalculateCRC32 :: "bytes ptr \<Rightarrow> u32 \<Rightarrow> u32 option" where
  "sm_CRC_CalculateCRC32 Buffer Length =
     (case Buffer of
        NULL \<Rightarrow> Some (CRC_ReverseBitOrder32 0)
      | Ref bs \<Rightarrow> do {
          d \<leftarrow> mem_read bs 0 (unat Length);
          Some (CRC_ReverseBitOrder32
                  (foldl crc32_step CRC_32_INIT_VALUE d XOR CRC_32_XOR_VALUE)) })"

lemma CRC_ReverseBitOrder8_eq: "CRC_ReverseBitOrder8 v = word_reverse v"
proof (rule bit_word_eqI)
  fix n assume "n < LENGTH(8)"
  then consider "n = 0" | "n = 1" | "n = 2" | "n = 3" | "n = 4" | "n = 5" | "n = 6" | "n = 7"
    by fastforce
  then show "bit (CRC_ReverseBitOrder8 v) n = bit (word_reverse v) n"
    by cases (simp_all only: CRC_ReverseBitOrder8_def Let_def bit_or_iff bit_and_iff
        bit_drop_bit_eq comp_def bit_push_bit_iff bit_word_reverse_iff, simp_all)
qed

lemma crc_reverse32_loop_bit:
  assumes "k \<le> 32" "\<And>m. 32 - k \<le> m \<Longrightarrow> \<not> bit v m" "k < 32 \<Longrightarrow> i = of_nat (31 - k)"
  shows "bit (crc_reverse32_loop v i r) n
           \<longleftrightarrow> bit r n \<or> (n + k < 32 \<and> bit v (31 - k - n))"
  using assms
proof (induction v i r arbitrary: k rule: crc_reverse32_loop.induct)
  case (1 v i r)
  show ?case
  proof (cases "v = 0")
    case True
    then show ?thesis by (simp add: crc_reverse32_loop.simps)
  next
    case False
    have k: "k < 32"
    proof (rule ccontr)
      assume "\<not> k < 32"
      with "1.prems" have "\<not> bit v m" for m by simp
      with False show False by (simp add: bit_eq_iff)
    qed
    let ?r = "r OR push_bit (unat i) (v AND 1)"
    have i: "unat i = 31 - k"
      using "1.prems"(3) [OF k] by (simp add: unat_of_nat)
    have i': "i - 1 = of_nat (31 - Suc k)" if "Suc k < 32"
      using that "1.prems"(3) [OF k] by (simp add: of_nat_diff)
    have "bit (crc_reverse32_loop v i r) n = bit (crc_reverse32_loop (drop_bit 1 v) (i - 1) ?r) n"
      using False by (subst crc_reverse32_loop.simps) simp
    also have "\<dots> \<longleftrightarrow> bit ?r n \<or> (n + Suc k < 32 \<and> bit (drop_bit 1 v) (31 - Suc k - n))"
    proof (rule "1.IH" [OF False _ _ i'])
      show "Suc k \<le> 32" using k by simp
      fix m assume "32 - Suc k \<le> m"
      then show "\<not> bit (drop_bit 1 v) m"
        using "1.prems"(2) [of "Suc m"] k by (simp add: bit_simps)
    qed
    also have "\<dots> \<longleftrightarrow> bit r n \<or> (n + k < 32 \<and> bit v (31 - k - n))"
    proof -
      consider "n + k < 31" | "n + k = 31" | "31 < n + k" by linarith
      then show ?thesis
      proof cases
        case 1
        then have "Suc (31 - Suc k - n) = 31 - k - n" by simp
        with 1 show ?thesis by (auto simp: bit_simps i)
      next
        case 2
        then have e: "\<not> n + Suc k < 32" "n + k < 32" "31 - k - n = 0" "n < 32" by simp_all
        from i 2 have "unat i = n" by simp
        with e(4) have "bit ?r n \<longleftrightarrow> bit r n \<or> bit v 0" by (auto simp: bit_simps)
        with e show ?thesis by simp
      next
        case 3
        then have e: "\<not> n \<le> 31 - k" "\<not> n + k < 32" "\<not> n + Suc k < 32" using k by auto
        then have "bit ?r n \<longleftrightarrow> bit r n" by (auto simp: bit_simps i)
        with e show ?thesis by simp
      qed
    qed
    finally show ?thesis .
  qed
qed

lemma CRC_ReverseBitOrder32_eq: "CRC_ReverseBitOrder32 v = word_reverse v"
proof (rule bit_word_eqI)
  fix n assume "n < LENGTH(32)"
  moreover have "\<not> bit v m" if "32 - 0 \<le> m" for m
    using that by (auto dest: bit_imp_le_length)
  ultimately show "bit (CRC_ReverseBitOrder32 v) n = bit (word_reverse v) n"
    by (simp add: CRC_ReverseBitOrder32_def crc_reverse32_loop_bit [where k = 0] bit_simps)
qed


text \<open>
  The specification of CRC-32 is its usual reflected form: the message enters at the low
  end and the register shifts right, with the mirrored polynomial.
\<close>

definition crc32_reflected_bit :: "u32 \<Rightarrow> u32" where
  "crc32_reflected_bit r =
     (if bit r 0 then drop_bit 1 r XOR 0xEDB88320 else drop_bit 1 r)"

definition crc32_reflected_step :: "u32 \<Rightarrow> u8 \<Rightarrow> u32" where
  "crc32_reflected_step r b = (crc32_reflected_bit ^^ 8) (r XOR ucast b)"

definition crc32 :: "bytes \<Rightarrow> u32" where
  "crc32 bs = NOT (foldl crc32_reflected_step 0xFFFFFFFF bs)"

lemma word_reverse_xor: "word_reverse (x XOR y :: u32) = word_reverse x XOR word_reverse y"
  by (rule bit_word_eqI) (simp add: bit_simps)

lemma word_reverse_push: "word_reverse (push_bit n (x :: u32)) = drop_bit n (word_reverse x)"
  by (rule bit_word_eqI) (auto simp: bit_simps ac_simps dest: bit_imp_le_length)

lemma crc32_poly_reverse: "word_reverse (0x04C11DB7 :: u32) = 0xEDB88320"
  by (simp add: word_reverse_def upt_conv_Cons)

lemma crc32_bit_reverse: "word_reverse (crc32_bit r) = crc32_reflected_bit (word_reverse r)"
proof -
  have "r AND push_bit 31 1 \<noteq> 0 \<longleftrightarrow> bit (word_reverse r) 0"
    by (simp only: bit_iff_and_push_bit_not_eq_0 [symmetric] bit_word_reverse_iff) simp
  then show ?thesis
    by (simp only: crc32_bit_def crc32_reflected_bit_def CRC_32_POLYNOMIAL_def
        word_reverse_push word_reverse_xor crc32_poly_reverse split: if_split) simp
qed

lemma crc32_bits_reverse:
  "word_reverse ((crc32_bit ^^ n) r) = (crc32_reflected_bit ^^ n) (word_reverse r)"
  by (induction n) (simp_all add: crc32_bit_reverse)

lemma crc32_step_reverse:
  "word_reverse (crc32_step r b) = crc32_reflected_step (word_reverse r) b"
proof -
  have "word_reverse (push_bit 24 (ucast (word_reverse b))) = (ucast b :: u32)"
  proof (rule bit_word_eqI)
    fix n assume "n < LENGTH(32)"
    then consider "n < 8" | "8 \<le> n" "n < 32" by fastforce
    then show "bit (word_reverse (push_bit 24 (ucast (word_reverse b)) :: u32)) n
        = bit (ucast b :: u32) n"
      by cases (auto simp: bit_simps)
  qed
  then show ?thesis
    by (simp add: crc32_step_def crc32_reflected_step_def crc32_bits_reverse word_reverse_xor
        CRC_ReverseBitOrder8_eq)
qed

lemma foldl_crc32_reverse:
  "word_reverse (foldl crc32_step r bs) = foldl crc32_reflected_step (word_reverse r) bs"
  by (induction bs arbitrary: r) (simp_all add: crc32_step_reverse)

lemma sm_crc32_eq:
  "sm_CRC_CalculateCRC32 (Ref bs) n =
     (if unat n \<le> length bs then Some (crc32 (take (unat n) bs)) else None)"
proof -
  have m1: "(0xFFFFFFFF :: u32) = - 1" by simp
  have ff: "word_reverse (0xFFFFFFFF :: u32) = 0xFFFFFFFF"
    unfolding m1 by (rule bit_word_eqI) (auto simp: bit_simps)
  have "NOT x = x XOR 0xFFFFFFFF" for x :: u32
    unfolding m1 by (rule bit_word_eqI) (auto simp: bit_simps)
  then show ?thesis
    by (simp add: sm_CRC_CalculateCRC32_def mem_read_def CRC_32_XOR_VALUE_def crc32_def ff
        CRC_32_INIT_VALUE_def CRC_ReverseBitOrder32_eq word_reverse_xor foldl_crc32_reverse)
qed

lemma sm_crc8_eq:
  "sm_CRC_CalculateCRC8 (Ref bs) n =
     (if unat n \<le> length bs
      then Some (foldl crc8_step 0xFF (take (unat n) bs) XOR 0xFF) else None)"
  by (simp add: sm_CRC_CalculateCRC8_def mem_read_def CRC_8_INIT_VALUE_def CRC_8_XOR_VALUE_def)


subsection \<open>The interface a framing layer relies on\<close>

text \<open>
  A check function whose value, appended to the message, makes the whole check to 0, and
  that separates messages differing in two neighbouring bytes.
\<close>

locale residue_check =
  fixes check :: "bytes \<Rightarrow> u16"
  assumes residue: "check (m @ crc16_trailer (check m)) = 0"
    and burst: "check (xs @ [a, b] @ ys) = check (xs @ [c, d] @ ys) \<longleftrightarrow> a = c \<and> b = d"
begin

lemma sealed_accepted: "s = m @ crc16_trailer (check m) \<Longrightarrow> check s = 0"
  by (simp add: residue)

lemma corrupted_rejected:
  assumes "m @ crc16_trailer (check m) = xs @ [a, b] @ ys" and "(c, d) \<noteq> (a, b)"
  shows "check (xs @ [c, d] @ ys) \<noteq> 0"
proof -
  have "check (xs @ [a, b] @ ys) = 0"
    using residue [of m] assms(1) by simp
  moreover have "check (xs @ [c, d] @ ys) \<noteq> check (xs @ [a, b] @ ys)"
    using assms(2) burst [of xs c d ys a b] by simp
  ultimately show ?thesis by simp
qed

end

interpretation crc16: residue_check crc16
  by unfold_locales (rule crc16_trailer_residue, rule crc16_burst)

subsection \<open>Properties\<close>

text \<open>C30: The 256-entry constant table of \<^verbatim>\<open>sm_crc.c\<close> is exactly the one the generator routine
  computes, and the three CRC-16 routines of the repository (table driven with a 32 bit
  state, bitwise, and the CANopen library's with a 16 bit state) return the same value for
  every buffer and length, including the NULL buffer and a length beyond the buffer.\<close>

theorem crc16_configurations_agree:
  "CRC_CalculateCRC16Table = crc_16_buypass_lut
   \<and> sm_CRC_CalculateCRC16 Buffer Length = sm_CRC_CalculateCRC16_runtime Buffer Length
   \<and> sm_CRC_CalculateCRC16 Buffer Length = CO_CRC_CalculateCRC16 Buffer Length"
proof (cases Buffer)
  case NULL
  then show ?thesis
    by (simp add: crc16_table_generated sm_CRC_CalculateCRC16_def
        sm_CRC_CalculateCRC16_runtime_def CO_CRC_CalculateCRC16_def)
next
  case (Ref bs)
  then show ?thesis
    by (simp add: crc16_table_generated sm_crc16_eq sm_crc16_runtime_eq CO_crc16_eq)
qed

text \<open>C39: A message followed by the two bytes of its own CRC-16, high byte first, checks to
  zero; and once any two neighbouring bytes of such a sealed message are changed, anywhere
  and in any way, the check is a different value.\<close>

theorem crc16_seals_messages:
  assumes "length m < 2 ^ 32 - 2" and "sm_CRC_CalculateCRC16 (Ref m) (of_nat (length m)) = Some c"
    and "m @ crc16_trailer c = xs @ [a, b] @ ys"
  shows "sm_CRC_CalculateCRC16 (Ref (xs @ [a', b'] @ ys)) (of_nat (length m + 2)) = Some 0
     \<longleftrightarrow> a' = a \<and> b' = b"
proof -
  have len: "length (xs @ [a', b'] @ ys) = length m + 2"
    using arg_cong [OF assms(3), of length] by (simp add: crc16_trailer_def)
  have un: "unat (of_nat (length m + 2) :: u32) = length m + 2"
    "unat (of_nat (length m) :: u32) = length m"
    using assms(1) by (rule_tac [!] unat_of_nat_u32) simp_all
  with assms(2) have c: "c = crc16 m" by (simp add: sm_crc16_eq)
  have "sm_CRC_CalculateCRC16 (Ref (xs @ [a', b'] @ ys)) (of_nat (length m + 2))
      = Some (crc16 (xs @ [a', b'] @ ys))"
    using len by (simp only: sm_crc16_eq un take_all order_refl if_True)
  then show ?thesis
    using crc16.sealed_accepted [of "xs @ [a, b] @ ys" m]
      crc16.corrupted_rejected [of m xs a b ys a' b'] assms(3) c by auto
qed

theorem crc16_seals_messages_witness:
  "\<exists>c. sm_CRC_CalculateCRC16 (Ref [1, 2]) 2 = Some c \<and>
     (\<forall>a b. sm_CRC_CalculateCRC16 (Ref ([1] @ [a, b] @ [byte_lo c])) 4 = Some 0
        \<longleftrightarrow> a = 2 \<and> b = byte_hi c)"
proof -
  have "sm_CRC_CalculateCRC16 (Ref [1, 2]) 2 = Some (crc16 [1, 2])" by (simp add: sm_crc16_eq)
  then show ?thesis
    using crc16_seals_messages [of "[1, 2]" "crc16 [1, 2]" "[1]" 2 "byte_hi (crc16 [1, 2])"
        "[byte_lo (crc16 [1, 2])]"]
    by (simp add: crc16_trailer_def)
qed

text \<open>C38: The CRC-32 routine, which mirrors every byte and runs a left shifting register,
  computes the usual reflected CRC-32 (mirrored polynomial, right shifting register, all-ones
  start and final complement) of the first \<open>Length\<close> bytes, is undefined exactly when the
  length exceeds the buffer, and is 0 for the NULL buffer.\<close>

theorem crc32_is_reflected_crc:
  "sm_CRC_CalculateCRC32 Buffer Length =
     (case Buffer of
        NULL \<Rightarrow> Some 0
      | Ref bs \<Rightarrow> if unat Length \<le> length bs then Some (crc32 (take (unat Length) bs)) else None)"
proof (cases Buffer)
  case NULL
  have "word_reverse (0 :: u32) = 0" by (rule bit_word_eqI) (simp add: bit_simps)
  with NULL show ?thesis by (simp add: sm_CRC_CalculateCRC32_def CRC_ReverseBitOrder32_eq)
next
  case (Ref bs)
  then show ?thesis by (simp add: sm_crc32_eq)
qed

end
