(* ===== verification/Host.thy ===== *)
theory Host
  imports Crc
begin

section \<open>The framed host protocol\<close>

text \<open>
  Models \<^verbatim>\<open>libs/host/sm_host.c\<close> with the constants of \<^verbatim>\<open>sm_host.h\<close>. A frame is

    \<open>0xAA, length (2 bytes, big endian), address, command, data \<dots>, CRC-16 (2 bytes), 0x55\<close>

  where the length counts everything between the length field and the stop byte. The two
  transport callbacks and the command callback are function pointers; each is a function on
  a world \<open>'w\<close> that holds whatever they change (the wire, the application, the clock). A
  callback does not modify the host object itself. A \<open>void*\<close> argument is an address,
  a natural number. \<open>int32_t\<close> indices never become negative and are natural numbers.
  An access outside an array, or a call through a \<open>NULL\<close> function pointer, is \<^term>\<open>None\<close>.
\<close>

subsection \<open>State\<close>

abbreviation SM_PROTO_START_BYTE :: u8 where "SM_PROTO_START_BYTE \<equiv> 0xAA"
abbreviation SM_PROTO_STOP_BYTE :: u8 where "SM_PROTO_STOP_BYTE \<equiv> 0x55"
abbreviation SM_HOST_MAX_BUFFER :: nat where "SM_HOST_MAX_BUFFER \<equiv> 4096"
abbreviation SM_HOST_MAX_COMMUNICATION_BUFFER_SIZE :: nat where
  "SM_HOST_MAX_COMMUNICATION_BUFFER_SIZE \<equiv> 256"
abbreviation SM_HOST_MAX_ADDR :: u8 where "SM_HOST_MAX_ADDR \<equiv> 0x7F"
abbreviation SM_HOST_ADDR_DEFAULT :: u8 where "SM_HOST_ADDR_DEFAULT \<equiv> 0x01"
abbreviation SM_HOST_ASYNC_MODE :: u8 where "SM_HOST_ASYNC_MODE \<equiv> 0"
abbreviation SM_HOST_SYNC_MODE :: u8 where "SM_HOST_SYNC_MODE \<equiv> 1"
abbreviation SM_HOST_TIMEOUT_IF_DEFAULT :: int where "SM_HOST_TIMEOUT_IF_DEFAULT \<equiv> 1000"

type_synonym 'w sm_host_send_if = "bytes \<Rightarrow> int \<Rightarrow> nat \<Rightarrow> 'w \<Rightarrow> int \<times> 'w"

text \<open>The receive callback returns its status and the bytes it stored at its buffer.\<close>

type_synonym 'w sm_host_recv_if = "int \<Rightarrow> int \<Rightarrow> nat \<Rightarrow> 'w \<Rightarrow> int \<times> bytes \<times> 'w"

text \<open>The command callback gets the command, the data, and its argument.\<close>

type_synonym 'w sm_host_cmd_callback = "int \<Rightarrow> bytes \<Rightarrow> nat \<Rightarrow> 'w \<Rightarrow> int \<times> 'w"

record 'w sm_host =
  h_mode :: u8
  h_addr :: u8
  h_buffer :: bytes
  h_buffer_index :: nat
  h_process_index :: nat
  h_packet :: bytes
  h_packet_index :: nat
  h_send_if :: "'w sm_host_send_if ptr"
  h_recv_if :: "'w sm_host_recv_if ptr"
  h_arg_if :: nat
  h_cmd_callback :: "'w sm_host_cmd_callback ptr"
  h_cmd_arg :: nat

definition clear_buffers :: "'w sm_host \<Rightarrow> 'w sm_host" where
  "clear_buffers h = h\<lparr>h_buffer := replicate SM_HOST_MAX_BUFFER 0,
     h_packet := replicate SM_HOST_MAX_BUFFER 0,
     h_buffer_index := 0, h_packet_index := 0, h_process_index := 0\<rparr>"

text \<open>
  \<open>sm_host_create\<close>; the argument \<open>mem\<close> is what \<open>malloc\<close> returned, an object of
  arbitrary contents or \<open>NULL\<close>. \<open>sm_host_create_default\<close> works on the static object.
\<close>

definition sm_host_create_default ::
  "'w sm_host \<Rightarrow> u8 \<Rightarrow> u8 \<Rightarrow> 'w sm_host_send_if ptr \<Rightarrow> 'w sm_host_recv_if ptr \<Rightarrow> nat \<Rightarrow> 'w sm_host" where
  "sm_host_create_default g mode addr send recv if_arg =
     (clear_buffers
        (g\<lparr>h_addr := (if SM_HOST_MAX_ADDR < addr then SM_HOST_ADDR_DEFAULT else addr),
           h_mode := mode, h_send_if := send, h_recv_if := recv, h_arg_if := if_arg\<rparr>))
     \<lparr>h_cmd_callback := NULL, h_cmd_arg := 0\<rparr>"

definition sm_host_create ::
  "'w sm_host ptr \<Rightarrow> u8 \<Rightarrow> u8 \<Rightarrow> 'w sm_host_send_if ptr \<Rightarrow> 'w sm_host_recv_if ptr \<Rightarrow> nat
     \<Rightarrow> 'w sm_host ptr" where
  "sm_host_create mem mode addr send recv if_arg =
     (case mem of
        NULL \<Rightarrow> NULL
      | Ref h \<Rightarrow> Ref ((clear_buffers
          (h\<lparr>h_addr := (if SM_HOST_MAX_ADDR < addr then SM_HOST_ADDR_DEFAULT else addr),
             h_mode := mode, h_send_if := send, h_recv_if := recv, h_arg_if := if_arg\<rparr>))
          \<lparr>h_cmd_callback := NULL, h_cmd_arg := 0\<rparr>))"

definition sm_host_destroy :: "'w sm_host ptr \<Rightarrow> int \<times> 'w sm_host ptr" where
  "sm_host_destroy p =
     (case p of
        NULL \<Rightarrow> (-1, NULL)
      | Ref h \<Rightarrow> (0, Ref ((clear_buffers (h\<lparr>h_cmd_arg := 0, h_cmd_callback := NULL\<rparr>))
          \<lparr>h_send_if := NULL, h_recv_if := NULL, h_arg_if := 0\<rparr>)))"

definition sm_host_set_addr :: "'w sm_host ptr \<Rightarrow> u8 \<Rightarrow> int \<times> 'w sm_host ptr" where
  "sm_host_set_addr p addr =
     (case p of NULL \<Rightarrow> (-1, NULL) | Ref h \<Rightarrow> (0, Ref (h\<lparr>h_addr := addr\<rparr>)))"

definition sm_host_reg_handle ::
  "'w sm_host ptr \<Rightarrow> 'w sm_host_cmd_callback ptr \<Rightarrow> nat \<Rightarrow> int \<times> 'w sm_host ptr" where
  "sm_host_reg_handle p callback arg =
     (case p of
        NULL \<Rightarrow> (-1, NULL)
      | Ref h \<Rightarrow> if is_null callback then (-1, Ref h)
                 else (0, Ref (h\<lparr>h_cmd_callback := callback, h_cmd_arg := arg\<rparr>)))"

definition sm_host_set_host_if ::
  "'w sm_host ptr \<Rightarrow> 'w sm_host_send_if ptr \<Rightarrow> 'w sm_host_recv_if ptr \<Rightarrow> nat
     \<Rightarrow> int \<times> 'w sm_host ptr" where
  "sm_host_set_host_if p send recv arg =
     (case p of
        NULL \<Rightarrow> (-1, NULL)
      | Ref h \<Rightarrow> (0, Ref (h\<lparr>h_send_if := send, h_recv_if := recv, h_arg_if := arg\<rparr>)))"

definition sm_host_set_mode :: "'w sm_host ptr \<Rightarrow> u8 \<Rightarrow> int \<times> 'w sm_host ptr" where
  "sm_host_set_mode p mode =
     (case p of NULL \<Rightarrow> (-1, NULL) | Ref h \<Rightarrow> (0, Ref (h\<lparr>h_mode := mode\<rparr>)))"

definition sm_host_get_mode :: "'w sm_host ptr \<Rightarrow> int" where
  "sm_host_get_mode p = (case p of NULL \<Rightarrow> -1 | Ref h \<Rightarrow> uint (h_mode h))"

subsection \<open>Sending\<close>

text \<open>
  \<open>packet[len++] = b\<close> on the local array of \<open>SM_HOST_MAX_BUFFER\<close> bytes, of which
  the model keeps the \<open>len\<close> bytes written so far.
\<close>

definition packet_puts :: "bytes \<Rightarrow> bytes \<Rightarrow> bytes option" where
  "packet_puts packet bs =
     (if length packet + length bs \<le> SM_HOST_MAX_BUFFER then Some (packet @ bs) else None)"

definition length_field :: "int \<Rightarrow> bytes" where
  "length_field data_len = [word_of_int (drop_bit 8 data_len), word_of_int data_len]"

text \<open>The bytes from the CRC on, and the call of the transport.\<close>

definition send_packet :: "'w sm_host \<Rightarrow> bytes \<Rightarrow> 'w \<Rightarrow> (int \<times> 'w) option" where
  "send_packet h packet w = do {
     crc \<leftarrow> sm_CRC_CalculateCRC16 (Ref packet) (of_nat (length packet));
     packet \<leftarrow> packet_puts packet [byte_hi crc, byte_lo crc];
     packet \<leftarrow> packet_puts packet [SM_PROTO_STOP_BYTE];
     (case h_send_if h of
        NULL \<Rightarrow> None
      | Ref send \<Rightarrow>
          (case send packet SM_HOST_TIMEOUT_IF_DEFAULT (h_arg_if h) w of (ret, w) \<Rightarrow>
             if ret \<le> 0 then Some (-1, w) else Some (int (length packet), w))) }"

definition sm_host_send_cmd ::
  "'w sm_host ptr \<Rightarrow> int \<Rightarrow> bytes \<Rightarrow> int \<Rightarrow> 'w \<Rightarrow> (int \<times> 'w) option" where
  "sm_host_send_cmd p cmd data len w =
     (let data_len = len + 1 + 2 + 1 in
      case p of
        NULL \<Rightarrow> Some (-1, w)
      | Ref h \<Rightarrow> do {
          packet \<leftarrow> packet_puts [] [SM_PROTO_START_BYTE];
          packet \<leftarrow> packet_puts packet (length_field data_len);
          packet \<leftarrow> packet_puts packet [h_addr h];
          packet \<leftarrow> packet_puts packet [word_of_int cmd];
          d \<leftarrow> mem_read data 0 (nat len);
          packet \<leftarrow> packet_puts packet d;
          send_packet h packet w })"

definition sm_host_send_response ::
  "'w sm_host ptr \<Rightarrow> int \<Rightarrow> int \<Rightarrow> bytes \<Rightarrow> int \<Rightarrow> 'w \<Rightarrow> (int \<times> 'w) option" where
  "sm_host_send_response p cmd ret data len w =
     (let data_len = len + 1 + 2 + 1 + 1 in
      case p of
        NULL \<Rightarrow> Some (-1, w)
      | Ref h \<Rightarrow> do {
          packet \<leftarrow> packet_puts [] [SM_PROTO_START_BYTE];
          packet \<leftarrow> packet_puts packet (length_field data_len);
          packet \<leftarrow> packet_puts packet [h_addr h];
          packet \<leftarrow> packet_puts packet [word_of_int cmd];
          packet \<leftarrow> packet_puts packet [word_of_int ret];
          d \<leftarrow> mem_read data 0 (nat len);
          packet \<leftarrow> packet_puts packet d;
          send_packet h packet w })"

subsection \<open>Receiving\<close>

text \<open>An index that has been incremented starts again at 0 when it reaches the end.\<close>

definition wrap_index :: "nat \<Rightarrow> nat" where
  "wrap_index i = (if SM_HOST_MAX_BUFFER \<le> i then 0 else i)"

definition put_buffer :: "'w sm_host \<Rightarrow> u8 \<Rightarrow> 'w sm_host option" where
  "put_buffer h b = do {
     buf \<leftarrow> mem_set (h_buffer h) (h_buffer_index h) b;
     Some (h\<lparr>h_buffer := buf, h_buffer_index := wrap_index (h_buffer_index h + 1)\<rparr>) }"

fun sm_host_feed_loop :: "'w sm_host \<Rightarrow> bytes \<Rightarrow> 'w sm_host option" where
  "sm_host_feed_loop h [] = Some h"
| "sm_host_feed_loop h (b # bs) = do { h \<leftarrow> put_buffer h b; sm_host_feed_loop h bs }"

definition sm_host_asyn_feed :: "bytes \<Rightarrow> int \<Rightarrow> 'w sm_host ptr \<Rightarrow> (int \<times> 'w sm_host ptr) option" where
  "sm_host_asyn_feed data len p =
     (case p of
        NULL \<Rightarrow> Some (-1, NULL)
      | Ref h \<Rightarrow> do {
          d \<leftarrow> mem_read data 0 (nat len);
          h \<leftarrow> sm_host_feed_loop h d;
          Some (0, Ref h) })"

definition reset_indices :: "'w sm_host \<Rightarrow> 'w sm_host" where
  "reset_indices h = h\<lparr>h_buffer_index := 0, h_process_index := 0, h_packet_index := 0\<rparr>"

text \<open>The first part of \<open>sm_host_process\<close>: in synchronous mode poll one byte.\<close>

definition poll_byte :: "'w sm_host \<Rightarrow> 'w \<Rightarrow> ('w sm_host \<times> 'w) option" where
  "poll_byte h w =
     (case h_recv_if h of
        NULL \<Rightarrow> Some (h, w)
      | Ref recv \<Rightarrow>
          if h_mode h = SM_HOST_SYNC_MODE then
            (case recv 1 0 (h_arg_if h) w of (ret, bs, w) \<Rightarrow>
               if 0 < ret then do { b \<leftarrow> mem_get bs 0; h \<leftarrow> put_buffer h b; Some (h, w) }
               else Some (h, w))
          else Some (h, w))"

text \<open>The branch for a stop byte at packet index 7 or later.\<close>

definition handle_stop :: "'w sm_host \<Rightarrow> 'w \<Rightarrow> (int \<times> 'w sm_host \<times> 'w) option" where
  "handle_stop h w = do {
     hi \<leftarrow> mem_get (h_packet h) 1;
     lo \<leftarrow> mem_get (h_packet h) 2;
     let buffer_len = unat hi * 256 + unat lo + 3;
     let index = h_packet_index h;
     if SM_HOST_MAX_COMMUNICATION_BUFFER_SIZE \<le> buffer_len then Some (-1, reset_indices h, w)
     else if buffer_len < index then Some (-1, reset_indices h, w)
     else if index = buffer_len then do {
       a \<leftarrow> mem_get (h_packet h) 3;
       if a \<noteq> h_addr h then Some (-1, h\<lparr>h_packet_index := 0\<rparr>, w)
       else do {
         crc \<leftarrow> sm_CRC_CalculateCRC16 (Ref (h_packet h)) (of_nat index);
         w \<leftarrow> (case h_cmd_callback h of
                 NULL \<Rightarrow> Some w
               | Ref callback \<Rightarrow>
                   if crc = 0 then do {
                     cmd \<leftarrow> mem_get (h_packet h) 4;
                     d \<leftarrow> mem_read (h_packet h) 5 (index - 7);
                     Some (snd (callback (uint cmd) d (h_cmd_arg h) w)) }
                   else Some w);
         Some (1, h\<lparr>h_packet_index := 0\<rparr>, w) } }
     else Some (0, h\<lparr>h_packet_index := wrap_index (index + 1)\<rparr>, w) }"

definition process_byte :: "'w sm_host \<Rightarrow> 'w \<Rightarrow> (int \<times> 'w sm_host \<times> 'w) option" where
  "process_byte h w = do {
     b \<leftarrow> mem_get (h_buffer h) (h_process_index h);
     packet \<leftarrow> mem_set (h_packet h) (h_packet_index h) b;
     let h = h\<lparr>h_packet := packet, h_process_index := wrap_index (h_process_index h + 1)\<rparr>;
     let index = h_packet_index h;
     if b = SM_PROTO_STOP_BYTE \<and> 7 \<le> index then handle_stop h w
     else if (b = SM_PROTO_START_BYTE \<and> index = 0) \<or> 0 < index
       then Some (0, h\<lparr>h_packet_index := wrap_index (index + 1)\<rparr>, w)
     else Some (0, h, w) }"

definition sm_host_process :: "'w sm_host ptr \<Rightarrow> 'w \<Rightarrow> (int \<times> 'w sm_host ptr \<times> 'w) option" where
  "sm_host_process p w =
     (case p of
        NULL \<Rightarrow> Some (-1, NULL, w)
      | Ref h \<Rightarrow> do {
          (h, w) \<leftarrow> poll_byte h w;
          if h_buffer_index h \<noteq> h_process_index h then do {
            (ret, h, w) \<leftarrow> process_byte h w;
            Some (ret, Ref h, w) }
          else Some (0, Ref h, w) })"

text \<open>
  \<open>sm_host_send_cmd_sync\<close>. The clock is a function \<open>tick\<close> of the world; the deadline is
  cut to a \<open>uint32_t\<close>, the clock it is compared with is not. The polling loop may run
  forever when the clock stands still, so it is a partial function: \<^term>\<open>None\<close> also
  stands for not returning.
\<close>

partial_function (option) sync_poll ::
  "('w \<Rightarrow> int \<times> 'w) \<Rightarrow> int \<Rightarrow> int \<Rightarrow> 'w sm_host ptr \<Rightarrow> 'w \<Rightarrow> (int \<times> 'w sm_host ptr \<times> 'w) option" where
  "sync_poll tick poll_timeout ret p w =
     (case tick w of (now, w) \<Rightarrow>
        if now \<le> poll_timeout then
          Option.bind (sm_host_process p w) (\<lambda>(ret, p, w).
            if ret = 1 then Some (ret, p, w)
            else sync_poll tick poll_timeout ret p w)
        else Some (ret, p, w))"

definition sm_host_send_cmd_sync ::
  "('w \<Rightarrow> int \<times> 'w) \<Rightarrow> 'w sm_host ptr \<Rightarrow> int \<Rightarrow> bytes \<Rightarrow> int \<Rightarrow> int
     \<Rightarrow> 'w sm_host_cmd_callback ptr \<Rightarrow> nat \<Rightarrow> 'w \<Rightarrow> (int \<times> 'w sm_host ptr \<times> 'w) option" where
  "sm_host_send_cmd_sync tick p cmd data len timeout callback arg w =
     (case p of
        NULL \<Rightarrow> Some (-1, NULL, w)
      | Ref h \<Rightarrow>
        if is_null (h_recv_if h) then Some (-1, Ref h, w)
        else
          let current_mode = h_mode h; current_callback = h_cmd_callback h;
              current_arg = h_cmd_arg h;
              h = h\<lparr>h_mode := SM_HOST_SYNC_MODE, h_cmd_callback := callback, h_cmd_arg := arg\<rparr>
          in do {
            (sent, w) \<leftarrow> sm_host_send_cmd (Ref h) cmd data len w;
            if sent \<le> 0 then Some (-1, Ref h, w)
            else
              (case tick w of (now, w) \<Rightarrow>
                 let poll_timeout = (now + timeout) mod 2 ^ 32 in
                 do {
                   (ret, p, w) \<leftarrow> sync_poll tick poll_timeout (-1) (Ref h) w;
                   (case p of
                      NULL \<Rightarrow> None
                    | Ref h \<Rightarrow> Some (ret,
                        Ref (reset_indices (h\<lparr>h_cmd_callback := current_callback,
                               h_cmd_arg := current_arg, h_mode := current_mode\<rparr>)), w)) }) })"


subsection \<open>Well-formed hosts and the ring buffer of received bytes\<close>

definition host_wf :: "'w sm_host \<Rightarrow> bool" where
  "host_wf h \<longleftrightarrow> length (h_buffer h) = SM_HOST_MAX_BUFFER \<and> length (h_packet h) = SM_HOST_MAX_BUFFER
     \<and> h_buffer_index h < SM_HOST_MAX_BUFFER \<and> h_process_index h < SM_HOST_MAX_BUFFER
     \<and> h_packet_index h < SM_HOST_MAX_BUFFER"

text \<open>How many bytes have been fed and not yet processed, and which.\<close>

definition pending :: "'w sm_host \<Rightarrow> nat" where
  "pending h = (h_buffer_index h + SM_HOST_MAX_BUFFER - h_process_index h) mod SM_HOST_MAX_BUFFER"

definition unread :: "'w sm_host \<Rightarrow> bytes" where
  "unread h = map (\<lambda>k. h_buffer h ! ((h_process_index h + k) mod SM_HOST_MAX_BUFFER)) [0..<pending h]"

lemma length_unread [simp]: "length (unread h) = pending h"
  by (simp add: unread_def)

lemma wrap_index_less [simp]: "wrap_index i < SM_HOST_MAX_BUFFER"
  by (simp add: wrap_index_def)

lemma wrap_index_mod: "i < SM_HOST_MAX_BUFFER \<Longrightarrow> wrap_index (Suc i) = Suc i mod SM_HOST_MAX_BUFFER"
  by (auto simp: wrap_index_def mod_Suc)

lemma pending_0_iff: "host_wf h \<Longrightarrow> pending h = 0 \<longleftrightarrow> h_buffer_index h = h_process_index h"
  unfolding host_wf_def pending_def by (auto simp: mod_if)

lemma buffer_index_pending:
  "host_wf h \<Longrightarrow> (h_process_index h + pending h) mod SM_HOST_MAX_BUFFER = h_buffer_index h"
  unfolding host_wf_def pending_def by (auto simp: mod_if)

definition ring_put :: "'w sm_host \<Rightarrow> u8 \<Rightarrow> 'w sm_host" where
  "ring_put h b = h\<lparr>h_buffer := (h_buffer h)[h_buffer_index h := b],
     h_buffer_index := wrap_index (h_buffer_index h + 1)\<rparr>"

lemma put_buffer_eq: "host_wf h \<Longrightarrow> put_buffer h b = Some (ring_put h b)"
  by (simp add: put_buffer_def ring_put_def host_wf_def mem_simps)

lemma host_wf_ring_put [simp]: "host_wf h \<Longrightarrow> host_wf (ring_put h b)"
  by (simp add: host_wf_def ring_put_def)

lemma ring_put_sel [simp]:
  "h_buffer (ring_put h b) = (h_buffer h)[h_buffer_index h := b]"
  "h_packet (ring_put h b) = h_packet h" "h_packet_index (ring_put h b) = h_packet_index h"
  "h_process_index (ring_put h b) = h_process_index h" "h_addr (ring_put h b) = h_addr h"
  "h_mode (ring_put h b) = h_mode h" "h_recv_if (ring_put h b) = h_recv_if h"
  "h_cmd_callback (ring_put h b) = h_cmd_callback h" "h_cmd_arg (ring_put h b) = h_cmd_arg h"
  by (simp_all add: ring_put_def)

lemma pending_ring_put:
  assumes "host_wf h" "pending h < SM_HOST_MAX_BUFFER - 1"
  shows "pending (ring_put h b) = pending h + 1"
  using assms unfolding host_wf_def pending_def ring_put_def wrap_index_def
  by (auto simp: mod_if split: if_splits)

lemma ring_position:
  assumes "p < N" "k < N" "l < N" "(p + k) mod N = (p + l) mod N"
  shows "k = (l :: nat)"
proof -
  have "(p + i) mod N = (if p + i < N then p + i else p + i - N)" if "i < N" for i
    using assms(1) that by (simp add: mod_if)
  with assms show ?thesis by (auto split: if_splits)
qed

lemma unread_ring_put:
  assumes wf: "host_wf h" and room: "pending h < SM_HOST_MAX_BUFFER - 1"
  shows "unread (ring_put h b) = unread h @ [b]"
proof (rule nth_equalityI)
  show "length (unread (ring_put h b)) = length (unread h @ [b])"
    by (simp add: pending_ring_put [OF wf room])
  fix k assume "k < length (unread (ring_put h b))"
  then have k: "k \<le> pending h" by (simp add: pending_ring_put [OF wf room])
  let ?j = "(h_process_index h + k) mod SM_HOST_MAX_BUFFER"
  have len: "?j < length (h_buffer h)" using wf by (simp add: host_wf_def)
  have lhs: "unread (ring_put h b) ! k = (h_buffer h)[h_buffer_index h := b] ! ?j"
    using k by (simp add: unread_def pending_ring_put [OF wf room] del: upt_Suc)
  show "unread (ring_put h b) ! k = (unread h @ [b]) ! k"
  proof (cases "k = pending h")
    case True
    then have "?j = h_buffer_index h" using buffer_index_pending [OF wf] by simp
    with len True lhs show ?thesis by (simp add: nth_append)
  next
    case False
    with k have k': "k < pending h" by simp
    have "?j \<noteq> h_buffer_index h"
      using buffer_index_pending [OF wf] k' room wf
        ring_position [of "h_process_index h" SM_HOST_MAX_BUFFER k "pending h"]
      by (auto simp: host_wf_def)
    with k' show ?thesis by (simp add: lhs nth_append) (simp add: unread_def)
  qed
qed

definition ring_take :: "'w sm_host \<Rightarrow> 'w sm_host" where
  "ring_take h = h\<lparr>h_process_index := wrap_index (h_process_index h + 1)\<rparr>"

lemma unread_Cons:
  assumes wf: "host_wf h" and u: "unread h = b # bs"
  shows "h_buffer h ! h_process_index h = b" "unread (ring_take h) = bs"
    "h_buffer_index h \<noteq> h_process_index h"
proof -
  have p: "0 < pending h" using arg_cong [OF u, of length] by simp
  then show ne: "h_buffer_index h \<noteq> h_process_index h"
    using pending_0_iff [OF wf] by simp
  have "unread h ! 0 = b" using u by simp
  then show "h_buffer h ! h_process_index h = b"
    using p wf by (simp add: unread_def host_wf_def)
  have pt: "pending (ring_take h) = pending h - 1"
    using wf p unfolding host_wf_def pending_def ring_take_def wrap_index_def
    by (auto simp: mod_if split: if_splits)
  have "unread (ring_take h) = tl (unread h)"
  proof (rule nth_equalityI)
    show "length (unread (ring_take h)) = length (tl (unread h))" by (simp add: pt)
    fix k assume "k < length (unread (ring_take h))"
    then have k: "Suc k < pending h" by (simp add: pt less_diff_conv)
    have "h_process_index h < SM_HOST_MAX_BUFFER" using wf by (simp add: host_wf_def)
    then have "(wrap_index (h_process_index h + 1) + k) mod SM_HOST_MAX_BUFFER
        = (h_process_index h + Suc k) mod SM_HOST_MAX_BUFFER"
      by (simp add: wrap_index_mod mod_add_left_eq)
    with k show "unread (ring_take h) ! k = tl (unread h) ! k"
      by (simp add: unread_def pt nth_tl) (simp add: ring_take_def)
  qed
  then show "unread (ring_take h) = bs" by (simp add: u)
qed

lemma feed_loop_unread:
  assumes "host_wf h" "pending h + length bs < SM_HOST_MAX_BUFFER"
  shows "\<exists>h'. sm_host_feed_loop h bs = Some h' \<and> host_wf h' \<and> unread h' = unread h @ bs
     \<and> h_packet h' = h_packet h \<and> h_packet_index h' = h_packet_index h \<and> h_addr h' = h_addr h
     \<and> h_mode h' = h_mode h \<and> h_recv_if h' = h_recv_if h
     \<and> h_cmd_callback h' = h_cmd_callback h \<and> h_cmd_arg h' = h_cmd_arg h"
  using assms
proof (induction bs arbitrary: h)
  case Nil
  then show ?case by simp
next
  case (Cons b bs)
  from Cons.prems have "pending h < SM_HOST_MAX_BUFFER - 1" by simp
  with Cons.prems(1) have p: "pending (ring_put h b) = pending h + 1"
    and u: "unread (ring_put h b) = unread h @ [b]"
    by (rule pending_ring_put, rule unread_ring_put)
  from Cons.prems p have "host_wf (ring_put h b)"
    "pending (ring_put h b) + length bs < SM_HOST_MAX_BUFFER" by simp_all
  from Cons.IH [OF this] Cons.prems(1) u show ?case
    by (auto simp: put_buffer_eq)
qed


subsection \<open>Frames\<close>

text \<open>The specification of a frame over any check function with residue 0.\<close>

definition host_header :: "u8 \<Rightarrow> int \<Rightarrow> bytes \<Rightarrow> bytes" where
  "host_header addr cmd data =
     SM_PROTO_START_BYTE # length_field (int (length data) + 4) @ [addr, word_of_int cmd] @ data"

definition host_frame :: "(bytes \<Rightarrow> u16) \<Rightarrow> u8 \<Rightarrow> int \<Rightarrow> bytes \<Rightarrow> bytes" where
  "host_frame check addr cmd data =
     host_header addr cmd data @ crc16_trailer (check (host_header addr cmd data))
       @ [SM_PROTO_STOP_BYTE]"

lemma length_host_header [simp]: "length (host_header addr cmd data) = length data + 5"
  by (simp add: host_header_def length_field_def)

lemma length_host_frame [simp]: "length (host_frame check addr cmd data) = length data + 8"
  by (simp add: host_frame_def crc16_trailer_def)

lemma host_frame_nth [simp]:
  "host_frame check addr cmd data ! 0 = SM_PROTO_START_BYTE"
  "host_frame check addr cmd data ! Suc 0 = word_of_int (drop_bit 8 (int (length data) + 4))"
  "host_frame check addr cmd data ! 2 = word_of_int (int (length data) + 4)"
  "host_frame check addr cmd data ! 3 = addr"
  "host_frame check addr cmd data ! 4 = word_of_int cmd"
  "host_frame check addr cmd data ! (length data + 7) = SM_PROTO_STOP_BYTE"
  by (simp_all add: host_frame_def host_header_def length_field_def crc16_trailer_def
      nth_append nth_Cons' numeral_eq_Suc)

lemma host_frame_data: "take (length data) (drop 5 (host_frame check addr cmd data)) = data"
  by (simp add: host_frame_def host_header_def length_field_def)

lemma length_field_value:
  assumes "x < 65536"
  shows "unat (word_of_int (drop_bit 8 (int x)) :: u8) * 256 + unat (word_of_int (int x) :: u8) = x"
proof -
  have "x div 256 < 256" using assms by simp
  then have "unat (word_of_int (drop_bit 8 (int x)) :: u8) = x div 256"
    by (simp add: drop_bit_eq_div unsigned_of_int nat_take_bit_eq take_bit_eq_mod
        zdiv_int [symmetric] flip: of_nat_mod)
  moreover have "unat (word_of_int (int x) :: u8) = x mod 256"
    by (simp add: unsigned_of_nat take_bit_eq_mod)
  ultimately show ?thesis by simp
qed

context residue_check
begin

lemma frame_check: "check (take (length data + 7) (host_frame check addr cmd data)) = 0"
  using residue [of "host_header addr cmd data"]
  by (simp add: host_frame_def crc16_trailer_def)

end

lemma packet_puts_Some: "length p + length bs \<le> SM_HOST_MAX_BUFFER \<Longrightarrow> packet_puts p bs = Some (p @ bs)"
  by (simp add: packet_puts_def)

lemma send_packet_eq:
  assumes "h_send_if h = Ref send" and "length m + 3 \<le> SM_HOST_MAX_BUFFER"
  shows "send_packet h m w =
     (let F = m @ crc16_trailer (crc16 m) @ [SM_PROTO_STOP_BYTE] in
      case send F SM_HOST_TIMEOUT_IF_DEFAULT (h_arg_if h) w of (ret, w') \<Rightarrow>
        Some (if ret \<le> 0 then -1 else int (length F), w'))"
proof -
  have "unat (of_nat (length m) :: u32) = length m"
    using assms(2) by (simp add: unsigned_of_nat take_bit_nat_eq_self)
  with assms show ?thesis
    by (simp add: send_packet_def sm_crc16_eq packet_puts_Some crc16_trailer_def Let_def
        split: prod.split)
qed

lemma send_cmd_eq:
  assumes "h_send_if h = Ref send" and "length data + 8 \<le> SM_HOST_MAX_BUFFER"
  shows "sm_host_send_cmd (Ref h) cmd data (int (length data)) w =
     (let F = host_frame crc16 (h_addr h) cmd data in
      case send F SM_HOST_TIMEOUT_IF_DEFAULT (h_arg_if h) w of (ret, w') \<Rightarrow>
        Some (if ret \<le> 0 then -1 else int (length F), w'))"
  using assms
  by (simp add: sm_host_send_cmd_def packet_puts_Some length_field_def mem_simps
      send_packet_eq [OF assms(1)] host_frame_def host_header_def Let_def add.commute
      split: prod.split)

lemma send_response_eq:
  assumes "h_send_if h = Ref send" and "length data + 9 \<le> SM_HOST_MAX_BUFFER"
  shows "sm_host_send_response (Ref h) cmd ret data (int (length data)) w =
     (let F = host_frame crc16 (h_addr h) cmd (word_of_int ret # data) in
      case send F SM_HOST_TIMEOUT_IF_DEFAULT (h_arg_if h) w of (r, w') \<Rightarrow>
        Some (if r \<le> 0 then -1 else int (length F), w'))"
  using assms
  by (simp add: sm_host_send_response_def packet_puts_Some length_field_def mem_simps
      send_packet_eq [OF assms(1)] host_frame_def host_header_def Let_def add.commute
      split: prod.split)


subsection \<open>The receiver consumes a frame\<close>

definition poll_quiet :: "'w sm_host \<Rightarrow> bool" where
  "poll_quiet h \<longleftrightarrow> h_mode h \<noteq> SM_HOST_SYNC_MODE \<or> h_recv_if h = NULL"

lemma poll_byte_quiet: "poll_quiet h \<Longrightarrow> poll_byte h w = Some (h, w)"
  by (auto simp: poll_quiet_def poll_byte_def split: ptr.split)

text \<open>The host after one byte \<open>b\<close> has moved from the ring buffer to the packet.\<close>

definition move_byte :: "'w sm_host \<Rightarrow> u8 \<Rightarrow> 'w sm_host" where
  "move_byte h b = h\<lparr>h_packet := (h_packet h)[h_packet_index h := b],
     h_process_index := wrap_index (h_process_index h + 1)\<rparr>"

lemma process_byte_eq:
  assumes "host_wf h" and "unread h = b # bs"
  shows "process_byte h w =
     (let h' = move_byte h b; index = h_packet_index h in
      if b = SM_PROTO_STOP_BYTE \<and> 7 \<le> index then handle_stop h' w
      else if (b = SM_PROTO_START_BYTE \<and> index = 0) \<or> 0 < index
        then Some (0, h'\<lparr>h_packet_index := wrap_index (index + 1)\<rparr>, w)
      else Some (0, h', w))"
  using assms unread_Cons [OF assms]
  by (simp add: process_byte_def move_byte_def ring_take_def host_wf_def mem_simps Let_def)

lemma process_eq:
  assumes "host_wf h" and "poll_quiet h" and "unread h = b # bs"
  shows "sm_host_process (Ref h) w =
     map_option (\<lambda>(r, h', w'). (r, Ref h', w')) (process_byte h w)"
  using unread_Cons(3) [OF assms(1,3)]
  by (simp add: sm_host_process_def poll_byte_quiet [OF assms(2)])
     (auto split: bind_split option.split)

lemma unread_update [simp]:
  "unread (h\<lparr>h_packet := p\<rparr>) = unread h" "unread (h\<lparr>h_packet_index := i\<rparr>) = unread h"
  by (simp_all add: unread_def pending_def)

lemma move_byte_sel [simp]:
  "h_packet (move_byte h b) = (h_packet h)[h_packet_index h := b]"
  "h_packet_index (move_byte h b) = h_packet_index h" "h_addr (move_byte h b) = h_addr h"
  "h_mode (move_byte h b) = h_mode h" "h_recv_if (move_byte h b) = h_recv_if h"
  "h_cmd_callback (move_byte h b) = h_cmd_callback h" "h_cmd_arg (move_byte h b) = h_cmd_arg h"
  by (simp_all add: move_byte_def ring_take_def)

lemma host_wf_move_byte [simp]: "host_wf h \<Longrightarrow> host_wf (move_byte h b)"
  by (simp add: host_wf_def move_byte_def ring_take_def)

lemma unread_move_byte: "host_wf h \<Longrightarrow> unread h = b # bs \<Longrightarrow> unread (move_byte h b) = bs"
  using unread_Cons(2) [of h b bs]
  by (simp add: unread_def pending_def ring_take_def move_byte_def)

text \<open>The first \<open>k\<close> bytes of \<open>F\<close> are in the packet buffer.\<close>

definition received :: "'w sm_host \<Rightarrow> bytes \<Rightarrow> nat \<Rightarrow> bool" where
  "received h F k \<longleftrightarrow> host_wf h \<and> h_packet_index h = k \<and> take k (h_packet h) = take k F"

lemma received_nth: "received h F k \<Longrightarrow> i < k \<Longrightarrow> h_packet h ! i = F ! i"
  unfolding received_def by (metis nth_take)

lemma take_Suc_update:
  "k < length xs \<Longrightarrow> k < length ys \<Longrightarrow> take k xs = take k ys \<Longrightarrow>
     take (Suc k) (xs[k := ys ! k]) = take (Suc k) ys"
  by (simp add: take_Suc_conv_app_nth)

text \<open>A byte of the frame before the last one is stored.\<close>

lemma parse_step:
  assumes rec: "received h F k" and u: "unread h = F ! k # bs"
    and F: "F ! 0 = SM_PROTO_START_BYTE" "unat (F ! 1) * 256 + unat (F ! 2) + 3 = n"
      "length F = n + 1" "n < SM_HOST_MAX_COMMUNICATION_BUFFER_SIZE" "k < n"
  shows "process_byte h w = Some (0, (move_byte h (F ! k))\<lparr>h_packet_index := k + 1\<rparr>, w)"
proof -
  have wf: "host_wf h" and idx: "h_packet_index h = k" using rec by (simp_all add: received_def)
  have wi: "wrap_index (k + 1) = k + 1" using F by (simp add: wrap_index_def)
  show ?thesis
  proof (cases "F ! k = SM_PROTO_STOP_BYTE \<and> 7 \<le> k")
    case True
    then have "h_packet (move_byte h (F ! k)) ! 1 = F ! 1" "h_packet (move_byte h (F ! k)) ! 2 = F ! 2"
      using received_nth [OF rec, of 1] received_nth [OF rec, of 2] by (simp_all add: idx)
    moreover have "length (h_packet h) = SM_HOST_MAX_BUFFER" using wf by (simp add: host_wf_def)
    ultimately have "handle_stop (move_byte h (F ! k)) w =
        Some (0, (move_byte h (F ! k))\<lparr>h_packet_index := k + 1\<rparr>, w)"
      using F wi by (simp add: handle_stop_def mem_simps idx Let_def)
    with True show ?thesis by (simp add: process_byte_eq [OF wf u] Let_def idx)
  next
    case False
    with F(1) show ?thesis
      by (auto simp: process_byte_eq [OF wf u] Let_def idx wi [simplified])
  qed
qed

lemma received_step:
  assumes "received h F k" "k < length F" "length F \<le> SM_HOST_MAX_BUFFER" "k + 1 < SM_HOST_MAX_BUFFER"
  shows "received ((move_byte h (F ! k))\<lparr>h_packet_index := k + 1\<rparr>) F (k + 1)"
  using assms take_Suc_update [of k "h_packet h" F]
  by (simp add: received_def host_wf_def move_byte_def ring_take_def)


text \<open>What the receiver makes of a complete packet of last index \<open>n\<close>: return value and world.\<close>

definition verdict :: "'w sm_host \<Rightarrow> bytes \<Rightarrow> nat \<Rightarrow> 'w \<Rightarrow> int \<times> 'w" where
  "verdict h F n w =
     (if F ! 3 \<noteq> h_addr h then (-1, w)
      else (1, case h_cmd_callback h of
                 NULL \<Rightarrow> w
               | Ref callback \<Rightarrow>
                   if crc16 (take n F) = 0
                   then snd (callback (uint (F ! 4)) (take (n - 7) (drop 5 F)) (h_cmd_arg h) w)
                   else w))"

text \<open>The layout of a packet that the receiver takes as one frame.\<close>

definition framed :: "bytes \<Rightarrow> nat \<Rightarrow> bool" where
  "framed F n \<longleftrightarrow> length F = n + 1 \<and> 7 \<le> n \<and> n < SM_HOST_MAX_COMMUNICATION_BUFFER_SIZE
     \<and> F ! 0 = SM_PROTO_START_BYTE \<and> F ! n = SM_PROTO_STOP_BYTE
     \<and> unat (F ! 1) * 256 + unat (F ! 2) + 3 = n"

lemma parse_last:
  assumes rec: "received h F n" and u: "unread h = F ! n # bs" and F: "framed F n"
  shows "process_byte h w =
     (case verdict h F n w of (r, w') \<Rightarrow>
        Some (r, (move_byte h (F ! n))\<lparr>h_packet_index := 0\<rparr>, w'))"
proof -
  let ?P = "h_packet (move_byte h (F ! n))"
  have wf: "host_wf h" and idx: "h_packet_index h = n" using rec by (simp_all add: received_def)
  have len: "length (h_packet h) = SM_HOST_MAX_BUFFER" using wf by (simp add: host_wf_def)
  have tk: "take n ?P = take n F" using rec by (simp add: received_def)
  have nth: "?P ! i = F ! i" if "i < n" for i
    using tk that by (metis nth_take)
  have dr: "take (n - 7) (drop 5 ?P) = take (n - 7) (drop 5 F)"
  proof -
    have "take (n - 7) (drop 5 xs) = take (n - 7) (drop 5 (take n xs))" for xs :: bytes
      using F by (simp add: framed_def drop_take min_def)
    then show ?thesis using tk by metis
  qed
  have rd: "mem_read ((h_packet h)[n := SM_PROTO_STOP_BYTE]) 5 (n - 7)
      = Some (take (n - 7) (drop 5 F))"
  proof -
    have "5 + (n - 7) \<le> SM_HOST_MAX_BUFFER" using F unfolding framed_def by linarith
    with dr F len show ?thesis by (simp add: mem_read_def framed_def idx)
  qed
  have un: "unat (of_nat n :: u32) = n"
    using F by (simp add: framed_def unsigned_of_nat take_bit_nat_eq_self)
  have "handle_stop (move_byte h (F ! n)) w =
     (case verdict h F n w of (r, w') \<Rightarrow>
        Some (r, (move_byte h (F ! n))\<lparr>h_packet_index := 0\<rparr>, w'))"
    using F nth [of 1] nth [of 2] nth [of 3] nth [of 4] tk rd un
    by (simp add: handle_stop_def verdict_def framed_def mem_simps sm_crc16_eq len idx Let_def
        split: ptr.split)
  with F show ?thesis
    by (simp add: process_byte_eq [OF wf u] Let_def idx framed_def)
qed

fun process_times ::
  "nat \<Rightarrow> 'w sm_host ptr \<Rightarrow> 'w \<Rightarrow> (int list \<times> 'w sm_host ptr \<times> 'w) option" where
  "process_times 0 p w = Some ([], p, w)"
| "process_times (Suc n) p w = do {
     (r, p, w) \<leftarrow> sm_host_process p w;
     (rs, p, w) \<leftarrow> process_times n p w;
     Some (r # rs, p, w) }"

lemma process_times_step:
  "sm_host_process p w = Some (r, p', w') \<Longrightarrow> process_times n p' w' = Some (rs, q, v) \<Longrightarrow>
     process_times (Suc n) p w = Some (r # rs, q, v)"
  by simp

text \<open>The parts of the host that consuming bytes leaves as they are.\<close>

definition same_interface :: "'w sm_host \<Rightarrow> 'w sm_host \<Rightarrow> bool" where
  "same_interface h h' \<longleftrightarrow> h_addr h' = h_addr h \<and> h_mode h' = h_mode h \<and> h_recv_if h' = h_recv_if h
     \<and> h_cmd_callback h' = h_cmd_callback h \<and> h_cmd_arg h' = h_cmd_arg h"

lemma deliver_frame:
  assumes "received h F k" "k \<le> n" "unread h = drop k F @ rest" "poll_quiet h" "framed F n"
  shows "\<exists>h'. process_times (Suc (n - k)) (Ref h) w
      = Some (replicate (n - k) 0 @ [fst (verdict h F n w)], Ref h', snd (verdict h F n w))
     \<and> host_wf h' \<and> h_packet_index h' = 0 \<and> unread h' = rest \<and> same_interface h h'"
  using assms
proof (induction "n - k" arbitrary: h k)
  case 0
  then have k: "k = n" by simp
  have lenF: "length F = n + 1" using 0 by (simp add: framed_def)
  with 0 k have u: "unread h = F ! n # rest" by (simp add: Cons_nth_drop_Suc [symmetric])
  have wf: "host_wf h" using 0 by (simp add: received_def)
  have "process_byte h w =
     (case verdict h F n w of (r, w') \<Rightarrow>
        Some (r, (move_byte h (F ! n))\<lparr>h_packet_index := 0\<rparr>, w'))"
    using 0 k by (intro parse_last [OF _ u]) simp_all
  then have "process_times (Suc (n - k)) (Ref h) w = Some ([fst (verdict h F n w)],
      Ref ((move_byte h (F ! n))\<lparr>h_packet_index := 0\<rparr>), snd (verdict h F n w))"
    using k by (simp add: process_eq [OF wf \<open>poll_quiet h\<close> u] split: prod.split)
  moreover have "host_wf ((move_byte h (F ! n))\<lparr>h_packet_index := 0\<rparr>)"
    using wf by (simp add: host_wf_def move_byte_def)
  ultimately show ?case
    using k unread_move_byte [OF wf u] by (auto simp: same_interface_def)
next
  case (Suc m)
  then have k: "k < n" by simp
  have fr: "length F = n + 1" "n < 256" using Suc.prems by (simp_all add: framed_def)
  have u: "unread h = F ! k # (drop (Suc k) F @ rest)"
    using Suc.prems k fr by (simp add: Cons_nth_drop_Suc [symmetric])
  have wf: "host_wf h" using Suc.prems by (simp add: received_def)
  let ?h = "(move_byte h (F ! k))\<lparr>h_packet_index := k + 1\<rparr>"
  have pb: "process_byte h w = Some (0, ?h, w)"
    using Suc.prems(5) k by (intro parse_step [OF Suc.prems(1) u]) (auto simp: framed_def)
  have "received ?h F (k + 1)"
    using Suc.prems(1) k fr by (intro received_step) simp_all
  moreover have "unread ?h = drop (k + 1) F @ rest" using unread_move_byte [OF wf u] by simp
  moreover have "poll_quiet ?h" using Suc.prems(4) by (simp add: poll_quiet_def)
  moreover have "m = n - (k + 1)" "k + 1 \<le> n" using Suc.hyps(2) by simp_all
  ultimately obtain h' where h': "process_times (Suc (n - (k + 1))) (Ref ?h) w
      = Some (replicate (n - (k + 1)) 0 @ [fst (verdict ?h F n w)], Ref h', snd (verdict ?h F n w))"
    "host_wf h'" "h_packet_index h' = 0" "unread h' = rest" "same_interface ?h h'"
    using Suc.hyps(1) [of "k + 1" ?h] Suc.prems(5) by blast
  have v: "verdict ?h F n w = verdict h F n w" by (simp add: verdict_def split: ptr.split)
  have "n - k = Suc (n - (k + 1))" using k by simp
  with h' v have "process_times (Suc (n - k)) (Ref h) w
      = Some (replicate (n - k) 0 @ [fst (verdict h F n w)], Ref h', snd (verdict h F n w))"
    using process_times_step [OF _ h'(1), of "Ref h" w 0]
    by (simp add: process_eq [OF wf \<open>poll_quiet h\<close> u] pb del: process_times.simps)
  with h' show ?case by (auto simp: same_interface_def)
qed

lemma host_frame_framed:
  "length data \<le> 248 \<Longrightarrow> framed (host_frame check addr cmd data) (length data + 7)"
  using length_field_value [of "length data + 4"] by (simp add: framed_def)

subsection \<open>Memory safety\<close>

lemma host_wf_update [simp]:
  "host_wf h \<Longrightarrow> i < SM_HOST_MAX_BUFFER \<Longrightarrow> host_wf (h\<lparr>h_packet_index := i\<rparr>)"
  "host_wf h \<Longrightarrow> host_wf (reset_indices h)"
  by (simp_all add: host_wf_def reset_indices_def)

text \<open>A receive callback that reports a byte has stored it.\<close>

definition recv_stores :: "'w sm_host \<Rightarrow> bool" where
  "recv_stores h \<longleftrightarrow> (case h_recv_if h of
     NULL \<Rightarrow> True
   | Ref recv \<Rightarrow> (\<forall>w. 0 < fst (recv 1 0 (h_arg_if h) w) \<longrightarrow> fst (snd (recv 1 0 (h_arg_if h) w)) \<noteq> []))"

lemma poll_byte_total:
  assumes "host_wf h" "recv_stores h"
  shows "\<exists>h' w'. poll_byte h w = Some (h', w') \<and> host_wf h'"
proof (cases "h_recv_if h")
  case NULL
  with assms show ?thesis by (simp add: poll_byte_def)
next
  case (Ref recv)
  obtain ret bs w' where r: "recv 1 0 (h_arg_if h) w = (ret, bs, w')" by (cases "recv 1 0 (h_arg_if h) w")
  have "bs \<noteq> []" if "0 < ret" using assms(2) Ref r that by (auto simp: recv_stores_def dest!: spec [of _ w])
  with assms(1) Ref r show ?thesis
    by (auto simp: poll_byte_def put_buffer_eq mem_get_def)
qed

lemma handle_stop_total:
  assumes "host_wf h"
  shows "\<exists>r h' w'. handle_stop h w = Some (r, h', w') \<and> host_wf h'"
proof -
  have len: "length (h_packet h) = SM_HOST_MAX_BUFFER" "h_packet_index h < SM_HOST_MAX_BUFFER"
    using assms by (simp_all add: host_wf_def)
  have "unat (of_nat (h_packet_index h) :: u32) = h_packet_index h"
    using len(2) by (simp add: unsigned_of_nat take_bit_nat_eq_self)
  with len obtain c where crc: "sm_CRC_CalculateCRC16 (Ref (h_packet h)) (of_nat (h_packet_index h)) = Some c"
    by (simp add: sm_crc16_eq)
  obtain d where d: "mem_read (h_packet h) 5 (h_packet_index h - 7) = Some d"
    using len by (simp add: mem_simps)
  define n where "n = unat (h_packet h ! Suc 0) * 256 + unat (h_packet h ! 2) + 3"
  show ?thesis
    using len assms crc d
    by (cases "h_cmd_callback h") (auto simp: handle_stop_def mem_simps Let_def n_def [symmetric])
qed

lemma process_byte_total:
  assumes "host_wf h" "h_buffer_index h \<noteq> h_process_index h"
  shows "\<exists>r h' w'. process_byte h w = Some (r, h', w') \<and> host_wf h'"
proof -
  have "pending h \<noteq> 0" using assms pending_0_iff by blast
  then have "unread h \<noteq> []" by (metis length_0_conv length_unread)
  then obtain b bs where u: "unread h = b # bs" by (cases "unread h") auto
  have wf: "host_wf (move_byte h b)" using assms(1) by simp
  show ?thesis
    using handle_stop_total [OF wf] wf by (auto simp: process_byte_eq [OF assms(1) u] Let_def)
qed

lemma process_total:
  assumes "host_wf h" "recv_stores h"
  shows "\<exists>r h' w'. sm_host_process (Ref h) w = Some (r, Ref h', w') \<and> host_wf h'"
proof -
  obtain h1 w1 where p: "poll_byte h w = Some (h1, w1)" "host_wf h1"
    using poll_byte_total [OF assms] by blast
  then show ?thesis
    using process_byte_total [OF p(2), of w1] by (auto simp: sm_host_process_def)
qed

lemma feed_loop_total: "host_wf h \<Longrightarrow> \<exists>h'. sm_host_feed_loop h bs = Some h' \<and> host_wf h'"
  by (induction bs arbitrary: h) (auto simp: put_buffer_eq)

lemma feed_loop_wf: "sm_host_feed_loop h bs = Some h' \<Longrightarrow> host_wf h \<Longrightarrow> host_wf h'"
  by (metis feed_loop_total option.inject)

text \<open>A property of the world that the host's receive and command callbacks keep.\<close>

definition callbacks_keep :: "('w \<Rightarrow> bool) \<Rightarrow> 'w sm_host \<Rightarrow> bool" where
  "callbacks_keep I h \<longleftrightarrow>
     (\<forall>recv w. h_recv_if h = Ref recv \<longrightarrow> I w \<longrightarrow> I (snd (snd (recv 1 0 (h_arg_if h) w))))
     \<and> (\<forall>cb cmd d w. h_cmd_callback h = Ref cb \<longrightarrow> I w \<longrightarrow> I (snd (cb cmd d (h_cmd_arg h) w)))"

lemma poll_byte_keeps:
  assumes "poll_byte h w = Some (h', w')"
  shows "same_interface h h' \<and> h_arg_if h' = h_arg_if h \<and> (callbacks_keep I h \<longrightarrow> I w \<longrightarrow> I w')"
  using assms
  by (fastforce simp: poll_byte_def put_buffer_def same_interface_def callbacks_keep_def
      bind_eq_Some_conv split: ptr.splits if_splits prod.splits)

lemma handle_stop_keeps:
  assumes "handle_stop h w = Some (r, h', w')"
  shows "same_interface h h' \<and> h_arg_if h' = h_arg_if h \<and> (callbacks_keep I h \<longrightarrow> I w \<longrightarrow> I w')"
  using assms
  by (cases "h_cmd_callback h") (auto simp: handle_stop_def reset_indices_def same_interface_def callbacks_keep_def Let_def
      bind_eq_Some_conv split: if_splits prod.splits)

lemma process_byte_keeps:
  assumes "process_byte h w = Some (r, h', w')"
  shows "same_interface h h' \<and> h_arg_if h' = h_arg_if h \<and> (callbacks_keep I h \<longrightarrow> I w \<longrightarrow> I w')"
  using assms
  by (auto simp: process_byte_def same_interface_def callbacks_keep_def Let_def bind_eq_Some_conv
      split: if_splits dest!: handle_stop_keeps [where I = I])

lemma process_keeps:
  assumes "sm_host_process (Ref h) w = Some (r, Ref h', w')"
  shows "same_interface h h' \<and> h_arg_if h' = h_arg_if h \<and> (callbacks_keep I h \<longrightarrow> I w \<longrightarrow> I w')"
proof -
  obtain h1 w1 where p: "poll_byte h w = Some (h1, w1)"
    and q: "(h1, w1) = (h', w') \<or> process_byte h1 w1 = Some (r, h', w')"
    using assms by (auto simp: sm_host_process_def bind_eq_Some_conv split: if_splits)
  from poll_byte_keeps [OF p, of I] q show ?thesis
    by (auto simp: same_interface_def callbacks_keep_def
        dest!: process_byte_keeps [where I = I])
qed

lemma recv_stores_keeps:
  "same_interface h h' \<Longrightarrow> h_arg_if h' = h_arg_if h \<Longrightarrow> recv_stores h' = recv_stores h"
  by (cases "h_recv_if h") (simp_all add: recv_stores_def same_interface_def)

text \<open>A synchronous exchange keeps a host well formed.\<close>

lemma sync_poll_wf:
  assumes "sync_poll tick deadline ret p w = Some y"
  shows "\<forall>h. p = Ref h \<longrightarrow> host_wf h \<longrightarrow> recv_stores h \<longrightarrow> (\<exists>h'. fst (snd y) = Ref h' \<and> host_wf h')"
proof (rule sync_poll.raw_induct [where P = "\<lambda>tick deadline ret p w y. \<forall>h. p = Ref h \<longrightarrow> host_wf h \<longrightarrow> recv_stores h
      \<longrightarrow> (\<exists>h'. fst (snd y) = Ref h' \<and> host_wf h')", OF _ assms], intro allI impI)
  fix poll tick deadline ret p w y h
  assume IH: "\<And>tick deadline ret p w y. poll tick deadline ret p w = Some y \<Longrightarrow>
      \<forall>h. p = Ref h \<longrightarrow> host_wf h \<longrightarrow> recv_stores h \<longrightarrow> (\<exists>h'. fst (snd y) = Ref h' \<and> host_wf h')"
    and eq: "(case tick w of (now, w) \<Rightarrow>
        if now \<le> deadline then
          Option.bind (sm_host_process p w) (\<lambda>(ret, p, w).
            if ret = 1 then Some (ret, p, w) else poll tick deadline ret p w)
        else Some (ret, p, w)) = Some y"
    and p: "p = Ref h" and wf: "host_wf h" "recv_stores h"
  obtain now w1 where t: "tick w = (now, w1)" by fastforce
  obtain r h' w' where q: "sm_host_process (Ref h) w1 = Some (r, Ref h', w')" "host_wf h'"
    using process_total [OF wf] by blast
  have "recv_stores h'"
    using wf(2) process_keeps [OF q(1)] recv_stores_keeps [of h h'] by blast
  then show "\<exists>h'. fst (snd y) = Ref h' \<and> host_wf h'"
    using eq IH p t q wf(1) by (auto split: if_splits)
qed

lemma send_cmd_sync_wf:
  assumes "sm_host_send_cmd_sync tick (Ref h) cmd data len timeout callback arg w = Some (r, Ref h', w')"
    and "host_wf h" "recv_stores h"
  shows "host_wf h'"
proof -
  let ?h = "h\<lparr>h_mode := SM_HOST_SYNC_MODE, h_cmd_callback := callback, h_cmd_arg := arg\<rparr>"
  have h: "host_wf ?h" "recv_stores ?h"
    using assms(2,3) by (simp_all add: host_wf_def) (cases "h_recv_if h"; simp add: recv_stores_def)
  show ?thesis
  proof (cases "h_recv_if h")
    case NULL
    then show ?thesis using assms(1,2) by (simp add: sm_host_send_cmd_sync_def)
  next
    case (Ref recv)
    obtain sent v now u where s: "sm_host_send_cmd (Ref ?h) cmd data len w = Some (sent, v)" "tick v = (now, u)"
      using assms(1) Ref by (cases "sm_host_send_cmd (Ref ?h) cmd data len w") (fastforce simp: sm_host_send_cmd_sync_def Let_def)+
    show ?thesis
    proof (cases "sent \<le> 0")
      case True
      then show ?thesis using assms(1) h(1) s Ref by (auto simp: sm_host_send_cmd_sync_def Let_def)
    next
      case False
      then obtain x q z where q: "sync_poll tick ((now + timeout) mod 2 ^ 32) (-1) (Ref ?h) u = Some (x, q, z)"
        using assms(1) s Ref by (auto simp: sm_host_send_cmd_sync_def Let_def bind_eq_Some_conv)
      then obtain g where "q = Ref g" "host_wf g" using sync_poll_wf [OF q] h by auto
      then show ?thesis
        using assms(1) s Ref False q by (auto simp: sm_host_send_cmd_sync_def Let_def host_wf_def reset_indices_def)
    qed
  qed
qed

text \<open>The host objects that the public operations can produce.\<close>

inductive host_reachable :: "'w sm_host \<Rightarrow> bool" where
  create: "host_reachable (sm_host_create_default g mode addr send recv arg)"
| feed: "host_reachable h \<Longrightarrow> sm_host_asyn_feed data len (Ref h) = Some (r, Ref h') \<Longrightarrow> host_reachable h'"
| process: "host_reachable h \<Longrightarrow> recv_stores h \<Longrightarrow>
     sm_host_process (Ref h) w = Some (r, Ref h', w') \<Longrightarrow> host_reachable h'"
| set_addr: "host_reachable h \<Longrightarrow> sm_host_set_addr (Ref h) addr = (r, Ref h') \<Longrightarrow> host_reachable h'"
| set_mode: "host_reachable h \<Longrightarrow> sm_host_set_mode (Ref h) mode = (r, Ref h') \<Longrightarrow> host_reachable h'"
| reg_handle: "host_reachable h \<Longrightarrow> sm_host_reg_handle (Ref h) callback arg = (r, Ref h')
     \<Longrightarrow> host_reachable h'"
| set_host_if: "host_reachable h \<Longrightarrow> sm_host_set_host_if (Ref h) send recv arg = (r, Ref h')
     \<Longrightarrow> host_reachable h'"
| send_sync: "host_reachable h \<Longrightarrow> recv_stores h \<Longrightarrow>
     sm_host_send_cmd_sync tick (Ref h) cmd data len timeout callback arg w = Some (r, Ref h', w') \<Longrightarrow> host_reachable h'"
| destroy: "host_reachable h \<Longrightarrow> sm_host_destroy (Ref h) = (r, Ref h') \<Longrightarrow> host_reachable h'"

lemma host_reachable_wf: "host_reachable h \<Longrightarrow> host_wf h"
proof (induction rule: host_reachable.induct)
  case (feed h data len r h')
  then show ?case by (auto simp: sm_host_asyn_feed_def bind_eq_Some_conv intro: feed_loop_wf)
next
  case (process h w r h' w')
  then show ?case using process_total [of h w] by auto
next
  case (send_sync h tick cmd data len timeout callback arg w r h' w')
  show ?case by (rule send_cmd_sync_wf [OF send_sync.hyps(3) send_sync.IH send_sync.hyps(2)])
next
  case (reg_handle h callback arg r h')
  then show ?case by (cases callback) (auto simp: sm_host_reg_handle_def host_wf_def)
qed (auto simp: host_wf_def sm_host_create_default_def clear_buffers_def sm_host_set_addr_def
    sm_host_set_mode_def sm_host_set_host_if_def sm_host_destroy_def)

subsection \<open>Properties\<close>

definition host_idle :: "'w sm_host \<Rightarrow> bool" where
  "host_idle h \<longleftrightarrow> host_wf h \<and> pending h = 0 \<and> h_packet_index h = 0 \<and> poll_quiet h"

lemma feed_and_process:
  assumes idle: "host_idle rx" and F: "framed F n"
  shows "\<exists>rx1 rx2. sm_host_asyn_feed F (int (length F)) (Ref rx) = Some (0, Ref rx1)
     \<and> process_times (length F) (Ref rx1) v
         = Some (replicate n 0 @ [fst (verdict rx F n v)], Ref rx2, snd (verdict rx F n v))
     \<and> host_idle rx2 \<and> same_interface rx rx2"
proof -
  have wf: "host_wf rx" "pending rx = 0" "h_packet_index rx = 0" "poll_quiet rx"
    using idle by (simp_all add: host_idle_def)
  have len: "length F = Suc n" "n < 256" using F by (simp_all add: framed_def)
  obtain rx1 where rx1: "sm_host_feed_loop rx F = Some rx1" "host_wf rx1"
    "unread rx1 = unread rx @ F" "h_packet rx1 = h_packet rx" "h_packet_index rx1 = h_packet_index rx"
    "same_interface rx rx1"
    using feed_loop_unread [OF wf(1), of F] wf(2) len by (auto simp: same_interface_def)
  have "unread rx = []" using wf(2) by (metis length_0_conv length_unread)
  moreover have "received rx1 F 0" using rx1 wf by (simp add: received_def)
  moreover have "poll_quiet rx1" using rx1(6) wf(4) by (simp add: poll_quiet_def same_interface_def)
  ultimately obtain rx2 where rx2: "process_times (Suc n) (Ref rx1) v
      = Some (replicate n 0 @ [fst (verdict rx1 F n v)], Ref rx2, snd (verdict rx1 F n v))"
    "host_wf rx2" "h_packet_index rx2 = 0" "unread rx2 = []" "same_interface rx1 rx2"
    using deliver_frame [of rx1 F 0 n "[]" v] rx1(3) F by auto
  have "verdict rx1 F n v = verdict rx F n v"
    using rx1(6) by (simp add: verdict_def same_interface_def split: ptr.split)
  moreover have "pending rx2 = 0" using rx2(4) by (metis length_unread list.size(3))
  moreover have "same_interface rx rx2" using rx1(6) rx2(5) by (simp add: same_interface_def)
  moreover have "poll_quiet rx2"
    using \<open>same_interface rx rx2\<close> wf(4) by (simp add: poll_quiet_def same_interface_def)
  ultimately show ?thesis
    using rx1(1) rx2 len by (simp add: sm_host_asyn_feed_def mem_simps host_idle_def)
qed

lemma verdict_frame:
  assumes "h_addr h = addr" "h_cmd_callback h = Ref callback"
  shows "verdict h (host_frame crc16 addr cmd data) (length data + 7) v
     = (1, snd (callback (cmd mod 256) data (h_cmd_arg h) v))"
  using assms crc16.frame_check [of data addr cmd]
  by (simp add: verdict_def host_frame_data uint_word_of_int)

text \<open>C7: End to end delivery of a command. Let the receiver have an empty ring buffer, no
  partial packet, a registered callback and the address of the sender, and let its \<open>sm_host_process\<close> not poll the
  transport itself (it is in asynchronous mode or has no receive callback). Then the bytes \<open>sm_host_send_cmd\<close> hands to
  the transport of the sender, fed and then processed byte by byte, make \<open>sm_host_process\<close> return 0 until the stop byte
  and then 1, and call the registered callback exactly once with the low byte of the command and the data that were sent
  (up to 248 data bytes); the receiver is idle again, with its address, mode and callbacks unchanged. The sender returns
  the length of the frame, or -1 when the transport reports a failure.\<close>

theorem host_command_delivered:
  assumes "host_idle rx" and "h_cmd_callback rx = Ref callback" and "h_addr rx = h_addr tx"
    and "h_send_if tx = Ref send" and "length data \<le> 248"
  shows "\<exists>F rx1 rx2.
     sm_host_send_cmd (Ref tx) cmd data (int (length data)) w =
       (case send F SM_HOST_TIMEOUT_IF_DEFAULT (h_arg_if tx) w of (ret, w') \<Rightarrow>
          Some (if ret \<le> 0 then -1 else int (length F), w'))
     \<and> sm_host_asyn_feed F (int (length F)) (Ref rx) = Some (0, Ref rx1)
     \<and> process_times (length F) (Ref rx1) v
         = Some (replicate (length data + 7) 0 @ [1], Ref rx2, snd (callback (cmd mod 256) data (h_cmd_arg rx) v))
     \<and> host_idle rx2 \<and> same_interface rx rx2"
proof -
  let ?F = "host_frame crc16 (h_addr tx) cmd data"
  have "framed ?F (length data + 7)" using assms(5) by (rule host_frame_framed)
  from feed_and_process [OF assms(1) this, of v]
  show ?thesis
    using assms verdict_frame [OF assms(3,2), of cmd data v]
      send_cmd_eq [OF assms(4), of data cmd w]
    by (intro exI [of _ ?F]) (simp add: Let_def)
qed

lemma host_idle_created:
  "mode \<noteq> SM_HOST_SYNC_MODE \<or> recv = NULL \<Longrightarrow>
     host_idle ((sm_host_create_default g mode addr send recv arg)\<lparr>h_cmd_callback := cb, h_cmd_arg := a\<rparr>)"
  by (auto simp: host_idle_def host_wf_def poll_quiet_def sm_host_create_default_def clear_buffers_def
      pending_def)

text \<open>A host whose world records the transport's frames and the callback's invocations.\<close>

definition recorder :: "(bytes list \<times> (int \<times> bytes) list) sm_host" where
  "recorder = (sm_host_create_default undefined SM_HOST_ASYNC_MODE 5
       (Ref (\<lambda>F _ _ (wire, calls). (1, F # wire, calls))) NULL 0)
     \<lparr>h_cmd_callback := Ref (\<lambda>cmd d _ (wire, calls). (0, wire, (cmd, d) # calls)), h_cmd_arg := 0\<rparr>"

lemma host_idle_recorder [simp]: "host_idle recorder"
  unfolding recorder_def by (rule host_idle_created) simp

lemma recorder_sel [simp]:
  "h_addr recorder = 5" "h_cmd_arg recorder = 0" "h_arg_if recorder = 0"
  "h_cmd_callback recorder = Ref (\<lambda>cmd d _ (wire, calls). (0, wire, (cmd, d) # calls))"
  "h_send_if recorder = Ref (\<lambda>F _ _ (wire, calls). (1, F # wire, calls))"
  by (simp_all add: recorder_def sm_host_create_default_def clear_buffers_def)

theorem host_command_delivered_witness:
  "\<exists>F rx1 rx2.
     sm_host_send_cmd (Ref recorder) 7 [1, 0x55] 2 ([], []) = Some (int (length F), [F], [])
     \<and> sm_host_asyn_feed F (int (length F)) (Ref recorder) = Some (0, Ref rx1)
     \<and> process_times (length F) (Ref rx1) ([], [])
         = Some (replicate 9 0 @ [1], Ref rx2, [], [(7, [1, 0x55])])"
  using host_command_delivered [of recorder "\<lambda>cmd d _ (wire, calls). (0, wire, (cmd, d) # calls)"
      recorder "\<lambda>F _ _ (wire, calls). (1, F # wire, calls)" "[1, 0x55]" 7 "([], [])" "([], [])"]
  by auto

text \<open>C24: End to end delivery of a response, to a receiver as for a command: idle, with a registered callback, the
  address of the sender, and no polling of the transport in \<open>sm_host_process\<close>. The frame that \<open>sm_host_send_response\<close> hands
  to the transport, fed and processed byte by byte, calls the callback exactly once, with the low byte of the command and,
  as data, the low byte of the return code followed by the response data (up to 247 bytes); \<open>sm_host_process\<close> returns 0
  until the stop byte and then 1, and the receiver is idle again.\<close>

theorem host_response_delivered:
  assumes "host_idle rx" and "h_cmd_callback rx = Ref callback" and "h_addr rx = h_addr tx"
    and "h_send_if tx = Ref send" and "length data \<le> 247"
  shows "\<exists>F rx1 rx2.
     sm_host_send_response (Ref tx) cmd ret data (int (length data)) w =
       (case send F SM_HOST_TIMEOUT_IF_DEFAULT (h_arg_if tx) w of (r, w') \<Rightarrow>
          Some (if r \<le> 0 then -1 else int (length F), w'))
     \<and> sm_host_asyn_feed F (int (length F)) (Ref rx) = Some (0, Ref rx1)
     \<and> process_times (length F) (Ref rx1) v
         = Some (replicate (length data + 8) 0 @ [1], Ref rx2,
             snd (callback (cmd mod 256) (word_of_int ret # data) (h_cmd_arg rx) v))
     \<and> host_idle rx2 \<and> same_interface rx rx2"
proof -
  let ?d = "word_of_int ret # data" and ?F = "host_frame crc16 (h_addr tx) cmd (word_of_int ret # data)"
  have "framed ?F (length ?d + 7)" using assms(5) by (intro host_frame_framed) simp
  from feed_and_process [OF assms(1) this, of v]
  show ?thesis
    using assms verdict_frame [OF assms(3,2), of cmd ?d v] send_response_eq [OF assms(4), of data cmd ret w]
    by (intro exI [of _ ?F]) (simp add: Let_def add.commute [of 8])
qed

theorem host_response_delivered_witness:
  "\<exists>F rx1 rx2.
     sm_host_send_response (Ref recorder) 7 (-1) [3] 1 ([], []) = Some (int (length F), [F], [])
     \<and> sm_host_asyn_feed F (int (length F)) (Ref recorder) = Some (0, Ref rx1)
     \<and> process_times (length F) (Ref rx1) ([], [])
         = Some (replicate 9 0 @ [1], Ref rx2, [], [(7, [0xFF, 3])])"
  using host_response_delivered [of recorder "\<lambda>cmd d _ (wire, calls). (0, wire, (cmd, d) # calls)"
      recorder "\<lambda>F _ _ (wire, calls). (1, F # wire, calls)" "[3]" 7 "-1" "([], [])" "([], [])"]
  by auto

lemma take_update2: "i + 1 < n \<Longrightarrow> n \<le> length F \<Longrightarrow>
   take n (F[i := x, i + 1 := y]) = take i (take n F) @ [x, y] @ drop (i + 2) (take n F)"
  by (rule nth_equalityI) (auto simp: nth_append nth_list_update nth_Cons' min_def
      Suc_diff_Suc numeral_2_eq_2 split: if_splits)



lemma host_reachable_recorder: "host_reachable recorder"
proof -
  have "sm_host_reg_handle (Ref (sm_host_create_default undefined SM_HOST_ASYNC_MODE 5
       (Ref (\<lambda>F _ _ (wire, calls). (1, F # wire, calls))) NULL 0))
     (Ref (\<lambda>cmd d _ (wire, calls). (0, wire, (cmd, d) # calls))) 0 = (0, Ref recorder)"
    by (simp add: sm_host_reg_handle_def recorder_def)
  then show ?thesis by (rule host_reachable.reg_handle [OF host_reachable.create])
qed

text \<open>C28: Receiving and sending keep within the buffers of a host object. From every state
  that creation, configuration, feeding, processing and synchronous exchanges can reach (feeding more than the ring
  holds included), for a host whose receive callback, if it has one, stores the byte that it reports:
  processing is defined and returns -1, 0 or 1, feeding any bytes is defined, both lead to reachable states
  again, and with a transport, sending a command of up to 4088 or a response of up to 4087 data bytes is defined.\<close>

theorem host_memory_safe:
  assumes "host_reachable h" and "recv_stores h"
  shows "(\<exists>r h' w'. sm_host_process (Ref h) w = Some (r, Ref h', w') \<and> host_reachable h'
       \<and> r \<in> {-1, 0, 1})
     \<and> (\<exists>h'. sm_host_asyn_feed data (int (length data)) (Ref h) = Some (0, Ref h') \<and> host_reachable h')
     \<and> (h_send_if h \<noteq> NULL \<and> length data \<le> 4088 \<longrightarrow>
          (\<exists>r w'. sm_host_send_cmd (Ref h) cmd data (int (length data)) w = Some (r, w')))
     \<and> (h_send_if h \<noteq> NULL \<and> length data \<le> 4087 \<longrightarrow>
          (\<exists>r w'. sm_host_send_response (Ref h) cmd ret data (int (length data)) w = Some (r, w')))"
proof (intro conjI impI)
  have wf: "host_wf h" using assms(1) by (rule host_reachable_wf)
  obtain r h' w' where p: "sm_host_process (Ref h) w = Some (r, Ref h', w')"
    using process_total [OF wf assms(2)] by blast
  have "r \<in> {-1, 0, 1}"
    using p by (auto simp: sm_host_process_def process_byte_def handle_stop_def Let_def
        bind_eq_Some_conv split: if_splits)
  with p host_reachable.process [OF assms p]
  show "\<exists>r h' w'. sm_host_process (Ref h) w = Some (r, Ref h', w') \<and> host_reachable h' \<and> r \<in> {-1, 0, 1}"
    by blast
  obtain h2 where "sm_host_feed_loop h data = Some h2"
    using feed_loop_total [OF wf] by blast
  then have f: "sm_host_asyn_feed data (int (length data)) (Ref h) = Some (0, Ref h2)"
    by (simp add: sm_host_asyn_feed_def mem_simps)
  with host_reachable.feed [OF assms(1) f]
  show "\<exists>h'. sm_host_asyn_feed data (int (length data)) (Ref h) = Some (0, Ref h') \<and> host_reachable h'"
    by blast
next
  assume c: "h_send_if h \<noteq> NULL \<and> length data \<le> 4088"
  then obtain send where "h_send_if h = Ref send" by (cases "h_send_if h") simp_all
  from send_cmd_eq [OF this, of data cmd w] c
  show "\<exists>r w'. sm_host_send_cmd (Ref h) cmd data (int (length data)) w = Some (r, w')"
    by (simp add: Let_def prod.case_eq_if)
next
  assume c: "h_send_if h \<noteq> NULL \<and> length data \<le> 4087"
  then obtain send where "h_send_if h = Ref send" by (cases "h_send_if h") simp_all
  from send_response_eq [OF this, of data cmd ret w] c
  show "\<exists>r w'. sm_host_send_response (Ref h) cmd ret data (int (length data)) w = Some (r, w')"
    by (simp add: Let_def prod.case_eq_if)
qed

theorem host_memory_safe_witness:
  "\<exists>r h' w'. sm_host_process (Ref recorder) ([], []) = Some (r, Ref h', w') \<and> host_reachable h'"
proof -
  have "recv_stores recorder"
    by (simp add: recv_stores_def recorder_def sm_host_create_default_def clear_buffers_def)
  from host_memory_safe [OF host_reachable_recorder this, of "([], [])"] show ?thesis by blast
qed

subsection \<open>The synchronous exchange\<close>

text \<open>A millisecond clock: it counts \<open>rate\<close> steps of the real time \<open>real\<close> as one millisecond, and every reading takes
  some real time. Consecutive readings may be equal. No callback sets the time back.\<close>

definition clock_runs :: "('w \<Rightarrow> int \<times> 'w) \<Rightarrow> int \<Rightarrow> ('w \<Rightarrow> int) \<Rightarrow> 'w sm_host \<Rightarrow> bool" where
  "clock_runs tick rate real h \<longleftrightarrow> 0 < rate
     \<and> (\<forall>w. fst (tick w) = real w div rate \<and> real w < real (snd (tick w)))
     \<and> (\<forall>t. callbacks_keep (\<lambda>w. t \<le> real w) h)"

lemma sync_poll_returns:
  assumes "host_wf h" "recv_stores h" "clock_runs tick rate real h"
  shows "\<exists>r h' w'. sync_poll tick deadline ret (Ref h) w = Some (r, Ref h', w')"
  using assms
proof (induction "nat ((deadline + 1) * rate - real w)" arbitrary: h w ret rule: less_induct)
  case less
  obtain w1 where t: "tick w = (real w div rate, w1)" "real w < real w1" and rate: "0 < rate"
    using less.prems(3) unfolding clock_runs_def by (metis prod.collapse)
  show ?case
  proof (cases "real w div rate \<le> deadline")
    case False
    with t show ?thesis by (subst sync_poll.simps) simp
  next
    case True
    obtain r h' w' where p: "sm_host_process (Ref h) w1 = Some (r, Ref h', w')" "host_wf h'"
      using process_total [OF less.prems(1,2)] by blast
    have k: "same_interface h h'" "h_arg_if h' = h_arg_if h" "real w1 \<le> real w'"
      using process_keeps [OF p(1), of "\<lambda>w. real w1 \<le> real w"] less.prems(3)
      by (auto simp: clock_runs_def)
    have "real w < (real w div rate + 1) * rate"
      using div_mult_mod_eq [of "real w" rate] pos_mod_bound [OF rate, of "real w"] by (simp only: distrib_right mult_1)
    also have "\<dots> \<le> (deadline + 1) * rate" using True rate by (intro mult_right_mono) simp_all
    finally have "nat ((deadline + 1) * rate - real w') < nat ((deadline + 1) * rate - real w)"
      using t(2) k(3) by simp
    moreover have "recv_stores h'" using less.prems(2) k recv_stores_keeps [of h h'] by blast
    moreover have "clock_runs tick rate real h'"
      using less.prems(3) k by (simp add: clock_runs_def callbacks_keep_def same_interface_def)
    ultimately have "\<exists>r h'' w''. sync_poll tick deadline r' (Ref h') w' = Some (r, Ref h'', w'')" for r'
      using less.hyps [OF _ p(2)] by blast
    with True t p show ?thesis by (subst sync_poll.simps) auto
  qed
qed

lemma reset_same [simp]:
  "reset_indices (h\<lparr>h_mode := m, h_cmd_callback := c, h_cmd_arg := a,
     h_cmd_callback := h_cmd_callback h, h_cmd_arg := h_cmd_arg h, h_mode := h_mode h\<rparr>) = reset_indices h"
  by (simp add: reset_indices_def)

text \<open>A host whose transport answers every send with \<open>s\<close> and never receives; its world is a clock.\<close>

definition silent_host :: "int \<Rightarrow> int sm_host" where
  "silent_host s = sm_host_create_default undefined SM_HOST_ASYNC_MODE 5
     (Ref (\<lambda>_ _ _ t. (s, t))) (Ref (\<lambda>_ _ _ t. (0, [], t))) 0"

lemma silent_host_sel [simp]:
  "h_recv_if (silent_host s) = Ref (\<lambda>_ _ _ t. (0, [], t))" "h_arg_if (silent_host s) = 0"
  "h_send_if (silent_host s) = Ref (\<lambda>_ _ _ t. (s, t))" "recv_stores (silent_host s)"
  by (simp_all add: silent_host_def sm_host_create_default_def clear_buffers_def recv_stores_def)

text \<open>C40: The synchronous exchange returns. Let a reachable host have a transport and a receive callback that
  stores the byte it reports, let the clock count milliseconds of a real time that every reading takes some of and no
  callback sets back, and let the command have at most 4088 data bytes, so that its packet fits the local array. Then
  \<open>sm_host_send_cmd_sync\<close> returns a value, whatever the timeout and whatever bytes arrive.\<close>

theorem host_sync_returns:
  assumes "host_reachable h" and "recv_stores h" and "h_recv_if h \<noteq> NULL" and "h_send_if h = Ref send"
    and "clock_runs tick rate real (h\<lparr>h_cmd_callback := callback, h_cmd_arg := arg\<rparr>)"
    and "length data \<le> 4088"
  shows "\<exists>r h' w'. sm_host_send_cmd_sync tick (Ref h) cmd data (int (length data)) timeout callback arg w
     = Some (r, Ref h', w')"
proof -
  let ?h = "h\<lparr>h_mode := SM_HOST_SYNC_MODE, h_cmd_callback := callback, h_cmd_arg := arg\<rparr>"
  have wf: "host_wf ?h" using host_reachable_wf [OF assms(1)] by (simp add: host_wf_def)
  have "recv_stores ?h" using assms(2) by (cases "h_recv_if h") (simp_all add: recv_stores_def)
  moreover have "clock_runs tick rate real ?h"
    using assms(5) by (simp add: clock_runs_def callbacks_keep_def)
  ultimately have poll: "\<exists>r h' w'. sync_poll tick t (-1) (Ref ?h) w = Some (r, Ref h', w')" for t w
    using wf by (intro sync_poll_returns)
  have nn: "\<not> is_null (h_recv_if h)" using assms(3) by (cases "h_recv_if h") simp_all
  obtain s v where s: "sm_host_send_cmd (Ref ?h) cmd data (int (length data)) w = Some (s, v)"
    using send_cmd_eq [of ?h send data cmd w] assms(4,6) by (auto simp: Let_def prod.case_eq_if)
  obtain now u where t: "tick v = (now, u)" by fastforce
  obtain r h' w' where "sync_poll tick ((now + timeout) mod 2 ^ 32) (-1) (Ref ?h) u = Some (r, Ref h', w')"
    using poll by blast
  with nn s t show ?thesis by (simp add: sm_host_send_cmd_sync_def Let_def)
qed

theorem host_sync_returns_witness:
  "\<exists>r h' w'. sm_host_send_cmd_sync (\<lambda>t. (t div 50, t + 1)) (Ref (silent_host 1)) 7 [1] 1 100 NULL 0 5
     = Some (r, Ref h', w')"
proof -
  have "host_reachable (silent_host 1)" unfolding silent_host_def by (rule host_reachable.create)
  moreover have "clock_runs (\<lambda>t. (t div 50, t + 1)) 50 id ((silent_host 1)\<lparr>h_cmd_callback := NULL, h_cmd_arg := 0\<rparr>)"
    by (simp add: clock_runs_def callbacks_keep_def)
  ultimately show ?thesis
    using host_sync_returns [where h = "silent_host 1" and tick = "\<lambda>t. (t div 50, t + 1)" and rate = 50 and real = id
        and callback = NULL and arg = 0 and data = "[1]" and timeout = 100 and w = 5 and cmd = 7] by simp
qed

text \<open> When the transport refuses the request, \<open>sm_host_send_cmd_sync\<close> returns -1 and leaves
  the host in synchronous mode with the caller's temporary callback and argument installed:
  the early return skips the code that restores them.\<close>

theorem host_sync_send_failure_leaks:
  assumes "h_recv_if h \<noteq> NULL" and "h_send_if h = Ref send" and "length data \<le> 4088"
    and "\<forall>F. fst (send F SM_HOST_TIMEOUT_IF_DEFAULT (h_arg_if h) w) \<le> 0"
  shows "\<exists>w'. sm_host_send_cmd_sync tick (Ref h) cmd data (int (length data)) timeout callback arg w
     = Some (-1, Ref (h\<lparr>h_mode := SM_HOST_SYNC_MODE, h_cmd_callback := callback, h_cmd_arg := arg\<rparr>), w')"
proof -
  let ?h = "h\<lparr>h_mode := SM_HOST_SYNC_MODE, h_cmd_callback := callback, h_cmd_arg := arg\<rparr>"
  let ?F = "host_frame crc16 (h_addr h) cmd data"
  have nn: "\<not> is_null (h_recv_if h)" using assms(1) by (cases "h_recv_if h") simp_all
  obtain s v where "send ?F SM_HOST_TIMEOUT_IF_DEFAULT (h_arg_if h) w = (s, v)" "s \<le> 0"
    using assms(4) by (metis prod.collapse)
  then have "sm_host_send_cmd (Ref ?h) cmd data (int (length data)) w = Some (-1, v)"
    using send_cmd_eq [of ?h send data cmd w] assms(2,3) by simp
  with nn show ?thesis by (simp add: sm_host_send_cmd_sync_def Let_def)
qed

theorem host_sync_send_failure_leaks_witness:
  "\<exists>w'. sm_host_send_cmd_sync (\<lambda>t. (t, t + 1)) (Ref (silent_host 0)) 7 [] 0 100 NULL 3 9
     = Some (-1, Ref ((silent_host 0)\<lparr>h_mode := SM_HOST_SYNC_MODE, h_cmd_callback := NULL,
         h_cmd_arg := 3\<rparr>), w')"
  using host_sync_send_failure_leaks [where h = "silent_host 0" and data = "[]" and w = 9 and arg = 3
      and callback = NULL and tick = "\<lambda>t. (t, t + 1)" and cmd = 7 and timeout = 100] by simp

text \<open> Once the tick count is past 32 bits (after about 50 days in milliseconds), the deadline,
  which is kept in a \<open>uint32_t\<close>, lies in the past for every timeout: the request is sent, the
  transport is never polled for the reply, and the call returns -1.\<close>

theorem host_sync_deadline_wraps:
  assumes "h_recv_if h \<noteq> NULL" and "h_send_if h = Ref send" and "length data \<le> 4088"
    and "\<forall>F. 0 < fst (send F SM_HOST_TIMEOUT_IF_DEFAULT (h_arg_if h) w)"
    and "\<forall>w. 2 ^ 32 \<le> fst (tick w)"
  shows "\<exists>F. sm_host_send_cmd_sync tick (Ref h) cmd data (int (length data)) timeout callback arg w
     = Some (-1, Ref (reset_indices h),
         snd (tick (snd (tick (snd (send F SM_HOST_TIMEOUT_IF_DEFAULT (h_arg_if h) w))))))"
proof -
  let ?h = "h\<lparr>h_mode := SM_HOST_SYNC_MODE, h_cmd_callback := callback, h_cmd_arg := arg\<rparr>"
  let ?F = "host_frame crc16 (h_addr h) cmd data"
  have nn: "\<not> is_null (h_recv_if h)" using assms(1) by (cases "h_recv_if h") simp_all
  have poll: "sync_poll tick (x mod 2 ^ 32) ret (Ref g) v = Some (ret, Ref g, snd (tick v))" for x ret g v
  proof -
    have "x mod 2 ^ 32 < 2 ^ 32" by simp
    then have "x mod 2 ^ 32 < fst (tick v)" using assms(5) by (meson less_le_trans)
    then show ?thesis by (subst sync_poll.simps) (simp add: prod.case_eq_if)
  qed
  obtain s v where sv: "send ?F SM_HOST_TIMEOUT_IF_DEFAULT (h_arg_if h) w = (s, v)" "0 < s"
    using assms(4) by (metis prod.collapse)
  then have "sm_host_send_cmd (Ref ?h) cmd data (int (length data)) w = Some (int (length ?F), v)"
    using send_cmd_eq [of ?h send data cmd w] assms(2,3) by simp
  with nn poll sv show ?thesis
    by (intro exI [of _ ?F])
      (simp add: sm_host_send_cmd_sync_def Let_def prod.case_eq_if host_frame_def)
qed

theorem host_sync_deadline_wraps_witness:
  "sm_host_send_cmd_sync (\<lambda>t. (4294967296, t)) (Ref (silent_host 1)) 7 [] 0 60000 NULL 0 9
     = Some (-1, Ref (reset_indices (silent_host 1)), 9)"
  using host_sync_deadline_wraps [where h = "silent_host 1" and data = "[]" and w = 9 and arg = 0
      and callback = NULL and tick = "\<lambda>t. (4294967296, t)" and cmd = 7 and timeout = 60000] by simp

end
