(* ===== verification/Items.thy ===== *)
theory Items
  imports Prelude
begin

section \<open>Items of a fixed size in one block of memory\<close>

text \<open>
  The queue, the stack and the vector keep items of \<open>item_size\<close> bytes one after the other
  in one allocated block. This theory holds the abstraction from the block to the list of
  items, and what the container operations do to it; and the interface
  \<open>bounded_container\<close> with its two refinements (first in first out, last in first out)
  that the containers promise to their callers. The models of the containers interpret it.
\<close>

subsection \<open>From a block to its items\<close>

primrec items :: "nat \<Rightarrow> nat \<Rightarrow> bytes \<Rightarrow> bytes list" where
  "items sz 0 m = []"
| "items sz (Suc n) m = take sz m # items sz n (drop sz m)"

lemma items_numeral [simp]:
  "items sz (numeral k) m = take sz m # items sz (pred_numeral k) (drop sz m)"
  by (simp add: numeral_eq_Suc)

lemma length_items [simp]: "length (items sz n m) = n"
  by (induction n arbitrary: m) simp_all

lemma items_snoc: "items sz (Suc k) m = items sz k m @ [take sz (drop (k * sz) m)]"
proof (induction k arbitrary: m)
  case (Suc k)
  have "items sz (Suc (Suc k)) m = take sz m # items sz (Suc k) (drop sz m)" by simp
  also have "\<dots> = take sz m # items sz k (drop sz m) @ [take sz (drop (k * sz) (drop sz m))]"
    by (simp only: Suc.IH)
  finally show ?case by (simp add: add.commute)
qed simp

lemma items_size: "n * sz \<le> length m \<Longrightarrow> x \<in> set (items sz n m) \<Longrightarrow> length x = sz"
proof (induction n arbitrary: m)
  case (Suc n)
  then have "n * sz \<le> length (drop sz m)" by simp
  with Suc show ?case by (auto simp del: length_drop)
qed simp

lemma concat_items: "concat (items sz n m) = take (n * sz) m"
  by (induction n arbitrary: m) (simp_all add: take_add)

lemma length_concat_items: "\<forall>x \<in> set xs. length x = sz \<Longrightarrow> length (concat xs) = length xs * sz"
  by (induction xs) simp_all

lemma items_concat: "\<forall>x \<in> set xs. length x = sz \<Longrightarrow> items sz (length xs) (concat xs @ r) = xs"
  by (induction xs) simp_all

lemma items_concatI: "\<forall>x \<in> set xs. length x = sz \<Longrightarrow> n = length xs \<Longrightarrow> items sz n (concat xs @ r) = xs"
  by (simp add: items_concat)

lemma block_cases:
  assumes "n * sz \<le> length m"
  obtains xs r where "m = concat xs @ r" "length xs = n" "\<forall>x \<in> set xs. length x = sz"
    "items sz n m = xs" "length (concat xs) = n * sz"
proof
  let ?xs = "items sz n m"
  show "m = concat ?xs @ drop (n * sz) m" by (simp add: concat_items)
  show "length ?xs = n" "items sz n m = ?xs" by simp_all
  show size: "\<forall>x \<in> set ?xs. length x = sz" using assms items_size by blast
  show "length (concat ?xs) = n * sz" using length_concat_items [OF size] by simp
qed

lemma items_take: "n \<le> k \<Longrightarrow> items sz n (take (k * sz) m) = items sz n m"
proof (induction n arbitrary: m k)
  case (Suc n)
  then obtain l where "k = Suc l" "n \<le> l" by (cases k) auto
  with Suc.IH [of l "drop sz m"] show ?case by (simp add: drop_take min_def add.commute)
qed simp

lemma items_append_write:
  assumes "Suc n * sz \<le> length m" "length x = sz"
  shows "\<exists>m'. mem_write m (n * sz) x = Some m' \<and> items sz (Suc n) m' = items sz n m @ [x]
     \<and> length m' = length m"
proof -
  have "n * sz \<le> length m" using assms(1) by simp
  then obtain xs r where m: "m = concat xs @ r" "length xs = n" "\<forall>x \<in> set xs. length x = sz"
    "items sz n m = xs" "length (concat xs) = n * sz" by (rule block_cases)
  then have w: "mem_write m (n * sz) x = Some (concat (xs @ [x]) @ drop sz r)"
    using assms by (simp add: mem_simps)
  have "items sz (Suc n) (concat (xs @ [x]) @ drop sz r) = xs @ [x]"
    using m assms(2) by (intro items_concatI) auto
  with w m(4) length_mem_write [OF w] show ?thesis by blast
qed

lemma items_nth_read:
  assumes "i < n" "n * sz \<le> length m"
  shows "mem_read m (i * sz) sz = Some (items sz n m ! i)"
proof -
  obtain xs r where m: "m = concat xs @ r" "length xs = n" "\<forall>x \<in> set xs. length x = sz"
    "items sz n m = xs" "length (concat xs) = n * sz" using assms(2) by (rule block_cases)
  then have "xs = take i xs @ xs ! i # drop (Suc i) xs" using assms(1) by (simp add: id_take_nth_drop)
  then have md: "m = concat (take i xs) @ xs ! i @ concat (drop (Suc i) xs) @ r"
    using m(1) by (metis append.assoc concat.simps(2) concat_append)
  have "length (concat (take i xs)) = i * sz" "length (xs ! i) = sz"
    using m(2,3) assms(1) length_concat_items [of "take i xs" sz] by (auto dest: in_set_takeD)
  then have "take sz (drop (i * sz) m) = xs ! i" by (subst md) simp
  moreover have "i * sz + sz \<le> length m"
    using assms mult_le_mono1 [of "Suc i" n sz] by (simp add: add.commute)
  ultimately show ?thesis by (simp add: mem_read_def m(4))
qed

text \<open>Removing item \<open>i\<close> by moving the items behind it one place down.\<close>

definition without :: "nat \<Rightarrow> 'a list \<Rightarrow> 'a list" where
  "without i xs = take i xs @ drop (Suc i) xs"

lemma length_without: "i < length xs \<Longrightarrow> length (without i xs) = length xs - 1"
  by (simp add: without_def)

lemma items_remove_move:
  assumes "i < n" "n * sz \<le> length m"
  shows "\<exists>m'. mem_move m (i * sz) (i * sz + sz) ((n - i - 1) * sz) = Some m'
     \<and> items sz (n - 1) m' = without i (items sz n m) \<and> length m' = length m"
proof -
  obtain xs r where m: "m = concat xs @ r" "length xs = n" "\<forall>x \<in> set xs. length x = sz"
    "items sz n m = xs" "length (concat xs) = n * sz" using assms(2) by (rule block_cases)
  let ?a = "take i xs" and ?y = "xs ! i" and ?b = "drop (Suc i) xs"
  have "xs = ?a @ ?y # ?b" using assms(1) m(2) by (simp add: id_take_nth_drop)
  then have md: "m = concat ?a @ ?y @ concat ?b @ r"
    using m(1) by (metis append.assoc concat.simps(2) concat_append)
  have la: "length (concat ?a) = i * sz" "length ?y = sz" "length (concat ?b) = (n - i - 1) * sz"
    using m(2,3) assms(1) length_concat_items [of ?a sz] length_concat_items [of ?b sz]
    by (auto dest: in_set_takeD in_set_dropD)
  then have mv: "mem_move m (i * sz) (i * sz + sz) ((n - i - 1) * sz)
      = Some (concat (?a @ ?b) @ drop (i * sz + (n - i - 1) * sz) m)"
    unfolding md by (subst mem_move_Some) simp_all
  have "items sz (n - 1) (concat (?a @ ?b) @ drop (i * sz + (n - i - 1) * sz) m) = ?a @ ?b"
    using m(2,3) assms(1) by (intro items_concatI) (auto dest: in_set_takeD in_set_dropD)
  with mv m(4) length_mem_move [OF mv] show ?thesis by (metis without_def)
qed

subsection \<open>The container interface\<close>

text \<open>
  A container of at most \<open>cap\<close> items of \<open>size\<close> bytes. \<open>push\<close> and \<open>take_out\<close> return the status
  of the call, and \<open>take_out\<close> also the item it copied out; \<^term>\<open>None\<close> is a memory fault.
\<close>

locale bounded_container =
  fixes wf :: "'s \<Rightarrow> bool" and content :: "'s \<Rightarrow> bytes list" and cap size :: "'s \<Rightarrow> nat"
    and push :: "bytes \<Rightarrow> 's \<Rightarrow> (int \<times> 's) option"
  assumes push_room: "wf s \<Longrightarrow> length x = size s \<Longrightarrow> length (content s) < cap s \<Longrightarrow>
      \<exists>s'. push x s = Some (0, s') \<and> wf s' \<and> content s' = content s @ [x]
         \<and> cap s' = cap s \<and> size s' = size s"
    and push_full: "wf s \<Longrightarrow> cap s \<le> length (content s) \<Longrightarrow> push x s = Some (-1, s)"
    and bounded: "wf s \<Longrightarrow> length (content s) \<le> cap s"
begin

fun push_all :: "bytes list \<Rightarrow> 's \<Rightarrow> 's option" where
  "push_all [] s = Some s"
| "push_all (x # xs) s = do {
     (r, s) \<leftarrow> push x s;
     if r = 0 then push_all xs s else None }"

lemma push_all_content:
  assumes "wf s" "\<forall>x \<in> set xs. length x = size s" "length (content s) + length xs \<le> cap s"
  shows "\<exists>s'. push_all xs s = Some s' \<and> wf s' \<and> content s' = content s @ xs
     \<and> cap s' = cap s \<and> size s' = size s"
  using assms
proof (induction xs arbitrary: s)
  case (Cons x xs)
  then obtain s1 where s1: "push x s = Some (0, s1)" "wf s1" "content s1 = content s @ [x]"
    "cap s1 = cap s" "size s1 = size s"
    using push_room [of s x] by auto
  with Cons.IH [of s1] Cons.prems show ?case by auto
qed simp

end

locale fifo_container = bounded_container wf content cap size push
  for wf :: "'s \<Rightarrow> bool" and content cap size push +
  fixes take_out :: "'s \<Rightarrow> (int \<times> bytes \<times> 's) option"
  assumes take_front: "wf s \<Longrightarrow> content s = x # xs \<Longrightarrow>
      \<exists>s'. take_out s = Some (0, x, s') \<and> wf s' \<and> content s' = xs \<and> cap s' = cap s \<and> size s' = size s"
begin

fun drain :: "nat \<Rightarrow> 's \<Rightarrow> (bytes list \<times> 's) option" where
  "drain 0 s = Some ([], s)"
| "drain (Suc n) s = do {
     (r, x, s) \<leftarrow> take_out s;
     (xs, s) \<leftarrow> drain n s;
     Some (x # xs, s) }"

lemma drain_content:
  "wf s \<Longrightarrow> \<exists>s'. drain (length (content s)) s = Some (content s, s') \<and> wf s' \<and> content s' = []"
proof (induction "content s" arbitrary: s)
  case (Cons x xs)
  then obtain s1 where s1: "take_out s = Some (0, x, s1)" "wf s1" "content s1 = xs"
    using take_front [of s x xs] by auto
  moreover have "content s = x # xs" using Cons.hyps(2) by simp
  ultimately show ?case using Cons.hyps(1) [of s1] by auto
qed auto

lemma fifo_order:
  assumes "wf s" "content s = []" "\<forall>x \<in> set xs. length x = size s" "length xs \<le> cap s"
  shows "\<exists>s1 s2. push_all xs s = Some s1 \<and> drain (length xs) s1 = Some (xs, s2) \<and> content s2 = []"
  using push_all_content [of s xs] assms drain_content by fastforce

end

locale lifo_container = bounded_container wf content cap size push
  for wf :: "'s \<Rightarrow> bool" and content cap size push +
  fixes take_out :: "'s \<Rightarrow> (int \<times> bytes \<times> 's) option"
  assumes take_top: "wf s \<Longrightarrow> content s = xs @ [x] \<Longrightarrow>
      \<exists>s'. take_out s = Some (0, x, s') \<and> wf s' \<and> content s' = xs \<and> cap s' = cap s \<and> size s' = size s"
begin

fun drain :: "nat \<Rightarrow> 's \<Rightarrow> (bytes list \<times> 's) option" where
  "drain 0 s = Some ([], s)"
| "drain (Suc n) s = do {
     (r, x, s) \<leftarrow> take_out s;
     (xs, s) \<leftarrow> drain n s;
     Some (x # xs, s) }"

lemma drain_content:
  "wf s \<Longrightarrow> \<exists>s'. drain (length (content s)) s = Some (rev (content s), s') \<and> wf s' \<and> content s' = []"
proof (induction "content s" arbitrary: s rule: rev_induct)
  case (snoc x xs)
  then obtain s1 where s1: "take_out s = Some (0, x, s1)" "wf s1" "content s1 = xs"
    using take_top [of s xs x] by auto
  moreover have "content s = xs @ [x]" using snoc.hyps(2) by simp
  ultimately show ?case using snoc.hyps(1) [of s1] by auto
qed auto

lemma lifo_order:
  assumes "wf s" "content s = []" "\<forall>x \<in> set xs. length x = size s" "length xs \<le> cap s"
  shows "\<exists>s1 s2. push_all xs s = Some s1 \<and> drain (length xs) s1 = Some (rev xs, s2) \<and> content s2 = []"
  using push_all_content [of s xs] assms drain_content by fastforce

end

end
