(* ===== verification/Queue.thy ===== *)
theory Queue
  imports Items
begin

section \<open>The queue\<close>

text \<open>
  Models \<^verbatim>\<open>utils/code_c/containers/sm_queue.c\<close>. \<open>malloc\<close> is a parameter: whether the
  structure could be allocated, and the block (of arbitrary contents) it returns for a
  size, or \<open>NULL\<close>. An item is the object \<open>_item\<close> points to; a pointer into the queue's block
  is its offset. The destructor, which the source names \<open>sm_vector_destroy\<close> although
  \<^verbatim>\<open>sm_vector.c\<close> defines a function of that name, frees both blocks.
\<close>

record sm_queue =
  q_memory :: bytes
  q_item_size :: nat
  q_max_capacity :: u32
  q_item_count :: u32

definition sm_queue_create :: "bool \<Rightarrow> (nat \<Rightarrow> bytes ptr) \<Rightarrow> u32 \<Rightarrow> nat \<Rightarrow> sm_queue ptr" where
  "sm_queue_create struct_ok malloc capacity item_size =
     (if \<not> struct_ok then NULL
      else case malloc (size_mul (unat capacity) item_size) of
             NULL \<Rightarrow> NULL
           | Ref m \<Rightarrow> Ref \<lparr>q_memory = m, q_item_size = item_size, q_max_capacity = capacity, q_item_count = 0\<rparr>)"

definition sm_queue_push_back :: "sm_queue ptr \<Rightarrow> bytes \<Rightarrow> (int \<times> sm_queue ptr) option" where
  "sm_queue_push_back p item =
     (case p of
        NULL \<Rightarrow> Some (-1, NULL)
      | Ref q \<Rightarrow>
          if q_max_capacity q \<le> q_item_count q then Some (-1, Ref q)
          else do {
            x \<leftarrow> mem_read item 0 (q_item_size q);
            m \<leftarrow> mem_write (q_memory q) (size_mul (unat (q_item_count q)) (q_item_size q)) x;
            Some (0, Ref (q\<lparr>q_memory := m, q_item_count := q_item_count q + 1\<rparr>)) })"

definition sm_queue_get_size :: "sm_queue ptr \<Rightarrow> int" where
  "sm_queue_get_size p = (case p of NULL \<Rightarrow> -1 | Ref q \<Rightarrow> sint (q_item_count q))"

definition sm_queue_get_font :: "sm_queue ptr \<Rightarrow> nat ptr" where
  "sm_queue_get_font p =
     (case p of NULL \<Rightarrow> NULL | Ref q \<Rightarrow> if q_item_size q = 0 then NULL else Ref 0)"

text \<open>Forming a pointer beyond the end of the block is undefined.\<close>

definition sm_queue_get_back :: "sm_queue ptr \<Rightarrow> nat ptr option" where
  "sm_queue_get_back p =
     (case p of
        NULL \<Rightarrow> Some NULL
      | Ref q \<Rightarrow>
          if q_item_size q = 0 then Some NULL
          else
            let off = size_mul (unat (q_item_count q - 1)) (q_item_size q)
            in if off \<le> length (q_memory q) then Some (Ref off) else None)"

definition sm_queue_pop :: "sm_queue ptr \<Rightarrow> bytes ptr \<Rightarrow> (int \<times> sm_queue ptr \<times> bytes ptr) option" where
  "sm_queue_pop p buff =
     (case (p, buff) of
        (Ref q, Ref b) \<Rightarrow>
          if q_item_size q = 0 then Some (-1, p, buff)
          else do {
            x \<leftarrow> mem_read (q_memory q) 0 (q_item_size q);
            b \<leftarrow> mem_write b 0 x;
            let count = q_item_count q - 1;
            m \<leftarrow> mem_move (q_memory q) 0 (q_item_size q) (size_mul (unat count) (q_item_size q));
            Some (0, Ref (q\<lparr>q_memory := m, q_item_count := count\<rparr>), Ref b) }
      | _ \<Rightarrow> Some (-1, p, buff))"

definition sm_queue_destroy :: "sm_queue ptr \<Rightarrow> int" where
  "sm_queue_destroy p = (case p of NULL \<Rightarrow> -1 | Ref _ \<Rightarrow> 0)"

subsection \<open>The queue as a list of items\<close>

definition queue_wf :: "sm_queue \<Rightarrow> bool" where
  "queue_wf q \<longleftrightarrow> 0 < q_item_size q \<and> q_item_count q \<le> q_max_capacity q
     \<and> unat (q_max_capacity q) * q_item_size q < 2 ^ 64
     \<and> length (q_memory q) = unat (q_max_capacity q) * q_item_size q"

definition queue_items :: "sm_queue \<Rightarrow> bytes list" where
  "queue_items q = items (q_item_size q) (unat (q_item_count q)) (q_memory q)"

lemma length_queue_items [simp]: "length (queue_items q) = unat (q_item_count q)"
  by (simp add: queue_items_def)

lemma queue_fits:
  assumes "queue_wf q" "n \<le> unat (q_max_capacity q)"
  shows "size_mul n (q_item_size q) = n * q_item_size q" "n * q_item_size q \<le> length (q_memory q)"
proof -
  have "n * q_item_size q \<le> unat (q_max_capacity q) * q_item_size q"
    using assms(2) by (rule mult_le_mono1)
  moreover from this have "n * q_item_size q < 2 ^ 64"
    using assms(1) unfolding queue_wf_def by linarith
  ultimately show "size_mul n (q_item_size q) = n * q_item_size q"
    "n * q_item_size q \<le> length (q_memory q)"
    using assms(1) by (simp_all add: queue_wf_def)
qed

lemma queue_push_room:
  assumes wf: "queue_wf q" and x: "length x = q_item_size q" and room: "q_item_count q < q_max_capacity q"
  shows "\<exists>q'. sm_queue_push_back (Ref q) x = Some (0, Ref q') \<and> queue_wf q'
     \<and> queue_items q' = queue_items q @ [x]
     \<and> q_max_capacity q' = q_max_capacity q \<and> q_item_size q' = q_item_size q"
proof -
  let ?n = "unat (q_item_count q)"
  have n: "Suc ?n \<le> unat (q_max_capacity q)" using room by (simp add: word_less_nat_alt)
  have un: "unat (q_item_count q + 1) = Suc ?n"
    using room by (rule unat_inc)
  obtain m' where m': "mem_write (q_memory q) (?n * q_item_size q) x = Some m'"
    "items (q_item_size q) (Suc ?n) m' = items (q_item_size q) ?n (q_memory q) @ [x]"
    "length m' = length (q_memory q)"
    using items_append_write [OF queue_fits(2) [OF wf n] x] by blast
  have "q_item_count q + 1 \<le> q_max_capacity q" using n by (simp add: word_le_nat_alt un)
  with m' wf x room un show ?thesis
    using queue_fits(1) [OF wf, of ?n] n
    by (auto simp: sm_queue_push_back_def queue_wf_def queue_items_def mem_simps not_le)
qed

lemma queue_pop_front:
  assumes wf: "queue_wf q" and items: "queue_items q = x # xs" and b: "length b = q_item_size q"
  shows "\<exists>q'. sm_queue_pop (Ref q) (Ref b) = Some (0, Ref q', Ref x) \<and> queue_wf q' \<and> queue_items q' = xs
     \<and> q_max_capacity q' = q_max_capacity q \<and> q_item_size q' = q_item_size q"
proof -
  let ?n = "unat (q_item_count q)"
  have pos: "0 < ?n" using arg_cong [OF items, of length] by simp
  then have ne: "q_item_count q \<noteq> 0" by (simp add: unat_gt_0)
  then have un: "unat (q_item_count q - 1) = ?n - 1" by (simp add: unat_minus_one)
  have cap: "?n \<le> unat (q_max_capacity q)" using wf by (simp add: queue_wf_def word_le_nat_alt)
  have rd: "mem_read (q_memory q) 0 (q_item_size q) = Some x"
    using items_nth_read [OF pos queue_fits(2) [OF wf cap]] items by (simp add: queue_items_def)
  then have lx: "length x = q_item_size q" by (auto simp: mem_read_def split: if_splits)
  obtain m' where m': "mem_move (q_memory q) 0 (q_item_size q) ((?n - 1) * q_item_size q) = Some m'"
    "items (q_item_size q) (?n - 1) m' = xs" "length m' = length (q_memory q)"
    using items_remove_move [OF pos queue_fits(2) [OF wf cap]] items
    by (auto simp: queue_items_def without_def)
  have le: "q_item_count q - 1 \<le> q_max_capacity q"
    using cap by (simp add: word_le_nat_alt un)
  have "size_mul (?n - 1) (q_item_size q) = (?n - 1) * q_item_size q"
    using queue_fits(1) [OF wf, of "?n - 1"] cap by simp
  with rd m' wf un lx b le show ?thesis
    by (auto simp: sm_queue_pop_def queue_wf_def queue_items_def mem_write_def Let_def)
qed

text \<open>The operations on a queue object, as the container interface has them.\<close>

definition queue_push :: "bytes \<Rightarrow> sm_queue \<Rightarrow> (int \<times> sm_queue) option" where
  "queue_push x q = map_option (\<lambda>(r, p). (r, deref p)) (sm_queue_push_back (Ref q) x)"

definition queue_take :: "sm_queue \<Rightarrow> (int \<times> bytes \<times> sm_queue) option" where
  "queue_take q = map_option (\<lambda>(r, p, b). (r, deref b, deref p))
     (sm_queue_pop (Ref q) (Ref (replicate (q_item_size q) 0)))"

interpretation sq: fifo_container queue_wf queue_items "\<lambda>q. unat (q_max_capacity q)" q_item_size
  queue_push queue_take
proof unfold_locales
  fix q and x :: bytes assume "queue_wf q" "length x = q_item_size q" "length (queue_items q) < unat (q_max_capacity q)"
  then show "\<exists>q'. queue_push x q = Some (0, q') \<and> queue_wf q' \<and> queue_items q' = queue_items q @ [x]
      \<and> unat (q_max_capacity q') = unat (q_max_capacity q) \<and> q_item_size q' = q_item_size q"
    using queue_push_room [of q x] by (auto simp: queue_push_def word_less_nat_alt)
next
  fix q and x :: bytes assume "queue_wf q" "unat (q_max_capacity q) \<le> length (queue_items q)"
  then show "queue_push x q = Some (-1, q)"
    by (simp add: queue_push_def sm_queue_push_back_def word_le_nat_alt)
next
  fix q assume "queue_wf q"
  then show "length (queue_items q) \<le> unat (q_max_capacity q)"
    by (simp add: queue_wf_def word_le_nat_alt)
next
  fix q x xs assume "queue_wf q" "queue_items q = x # xs"
  then show "\<exists>q'. queue_take q = Some (0, x, q') \<and> queue_wf q' \<and> queue_items q' = xs
      \<and> unat (q_max_capacity q') = unat (q_max_capacity q) \<and> q_item_size q' = q_item_size q"
    using queue_pop_front [of q x xs "replicate (q_item_size q) 0"] by (auto simp: queue_take_def)
qed

subsection \<open>Properties\<close>

text \<open> The queue is first in, first out. A queue created with a capacity and a non-zero item
  size whose product fits in \<open>size_t\<close>, given memory by \<open>malloc\<close>, takes any items of that size up to
  the capacity, and popping as many times returns the same items in the order they were pushed.\<close>

theorem queue_first_in_first_out:
  assumes "\<forall>n m. malloc n = Ref m \<longrightarrow> length m = n" and "sm_queue_create True malloc capacity item_size = Ref q"
    and "0 < item_size" and "unat capacity * item_size < 2 ^ 64"
    and "\<forall>x \<in> set xs. length x = item_size" and "length xs \<le> unat capacity"
  shows "\<exists>q1 q2. sq.push_all xs q = Some q1 \<and> sq.drain (length xs) q1 = Some (xs, q2)
     \<and> sm_queue_get_size (Ref q2) = 0"
proof -
  have q: "queue_wf q" "queue_items q = []" "q_item_size q = item_size" "q_max_capacity q = capacity"
    using assms(1-4)
    by (auto simp: sm_queue_create_def queue_wf_def queue_items_def split: ptr.splits)
  then obtain q1 q2 where r: "sq.push_all xs q = Some q1" "sq.drain (length xs) q1 = Some (xs, q2)"
    "queue_items q2 = []"
    using sq.fifo_order [of q xs] assms(5,6) by auto
  have "unat (q_item_count q2) = 0" using r(3) by (metis length_queue_items list.size(3))
  then have "sm_queue_get_size (Ref q2) = 0" by (simp add: sm_queue_get_size_def unat_eq_zero)
  with r show ?thesis by blast
qed

theorem queue_first_in_first_out_witness:
  "\<exists>q q1 q2. sm_queue_create True (\<lambda>n. Ref (replicate n 7)) 3 2 = Ref q
     \<and> sq.push_all [[1, 2], [3, 4]] q = Some q1 \<and> sq.drain 2 q1 = Some ([[1, 2], [3, 4]], q2)"
  using queue_first_in_first_out [of "\<lambda>n. Ref (replicate n 7)" 3 2 _ "[[1, 2], [3, 4]]"]
  by (auto simp: sm_queue_create_def simp del: sq.drain.simps sq.push_all.simps simp flip: numeral_2_eq_2)

text \<open>C32: Every queue operation on a well-formed queue does what the list of its items says:
  a push appends when there is room and otherwise changes nothing and returns -1; a pop of a
  non-empty queue copies the first item out and keeps the rest in order; both keep the queue
  well formed.\<close>

theorem queue_refines_list:
  assumes "queue_wf q" and "length x = q_item_size q" and "length b = q_item_size q"
  shows "(\<exists>q'. sm_queue_push_back (Ref q) x =
        Some (if length (queue_items q) < unat (q_max_capacity q) then 0 else -1, Ref q') \<and> queue_wf q'
        \<and> queue_items q' = (if length (queue_items q) < unat (q_max_capacity q)
                              then queue_items q @ [x] else queue_items q))
     \<and> (queue_items q \<noteq> [] \<longrightarrow>
        (\<exists>q'. sm_queue_pop (Ref q) (Ref b) = Some (0, Ref q', Ref (hd (queue_items q)))
           \<and> queue_wf q' \<and> queue_items q' = tl (queue_items q)))"
proof -
  have "\<exists>q'. sm_queue_pop (Ref q) (Ref b) = Some (0, Ref q', Ref (hd (queue_items q)))
      \<and> queue_wf q' \<and> queue_items q' = tl (queue_items q)" if "queue_items q \<noteq> []"
    using queue_pop_front [OF assms(1) _ assms(3), of "hd (queue_items q)" "tl (queue_items q)"] that by auto
  then show ?thesis
    using queue_push_room [OF assms(1,2)] assms(1)
    by (cases "q_item_count q < q_max_capacity q")
      (auto simp: word_less_nat_alt sm_queue_push_back_def word_le_nat_alt)
qed

theorem queue_refines_list_witness:
  "\<exists>q'. sm_queue_pop (Ref \<lparr>q_memory = [1, 2, 3], q_item_size = 1, q_max_capacity = 3, q_item_count = 2\<rparr>)
      (Ref [0]) = Some (0, Ref q', Ref [1]) \<and> queue_items q' = [[2]]"
  using queue_refines_list [of "\<lparr>q_memory = [1, 2, 3], q_item_size = 1, q_max_capacity = 3, q_item_count = 2\<rparr>"
      "[9]" "[0]"]
  by (auto simp: queue_wf_def queue_items_def)

text \<open> Popping an empty queue is not rejected: on every well-formed empty queue with a valid
  buffer, the item counter wraps to \<open>2 ^ 32 - 1\<close> and the following move reads beyond the block.\<close>

theorem queue_pop_empty_out_of_bounds:
  assumes "queue_wf q" and "queue_items q = []" and "length b = q_item_size q"
    and "q_item_size q < 2 ^ 32"
  shows "sm_queue_pop (Ref q) (Ref b) = None"
proof -
  have "unat (q_item_count q) = 0" using assms(2) by (metis length_queue_items list.size(3))
  then have count: "unat (q_item_count q - 1) = 2 ^ 32 - 1"
    by (simp add: unat_eq_zero unsigned_minus_1_eq_mask mask_eq_exp_minus_1)
  have "unat (q_max_capacity q) \<le> 2 ^ 32 - 1"
    using unat_u32_le [of "q_max_capacity q"] by simp
  then have "length (q_memory q) \<le> (2 ^ 32 - 1) * q_item_size q"
    using assms(1) unfolding queue_wf_def by (metis mult_le_mono1)
  moreover have "size_mul (2 ^ 32 - 1) (q_item_size q) = (2 ^ 32 - 1) * q_item_size q"
    using assms(4) by (intro size_mul_exact) simp
  moreover have "0 < q_item_size q" using assms(1) by (simp add: queue_wf_def)
  ultimately show ?thesis
    using count assms(3) by (simp add: sm_queue_pop_def Let_def mem_simps mem_write_def bind_eq_None_conv)
qed

theorem queue_pop_empty_out_of_bounds_witness:
  "sm_queue_pop (Ref \<lparr>q_memory = [1, 2], q_item_size = 1, q_max_capacity = 2, q_item_count = 0\<rparr>) (Ref [0]) = None"
  using queue_pop_empty_out_of_bounds [of "\<lparr>q_memory = [1, 2], q_item_size = 1, q_max_capacity = 2, q_item_count = 0\<rparr>" "[0]"]
  by (simp add: queue_wf_def queue_items_def)

end
