(* ===== verification/Stack.thy ===== *)
theory Stack
  imports Items
begin

section \<open>The stack\<close>

text \<open>
  Models \<^verbatim>\<open>utils/code_c/containers/sm_stack.c\<close>. \<open>calloc\<close> and \<open>malloc\<close> are parameters. The
  counter is an \<open>int32_t\<close>, read as signed by the pop and as unsigned by the push.
\<close>

record sm_stack =
  st_item :: "bytes ptr"
  st_item_size :: nat
  st_length :: u32
  st_count :: u32

text \<open>
  \<open>sm_stack_init\<close>: the caller's stack pointer is passed by value. With \<open>NULL\<close> the function
  initialises an object that only its local variable refers to, so the caller still holds
  \<open>NULL\<close>; \<open>struct_ok\<close> says whether that \<open>malloc\<close> succeeded (it is not checked).
\<close>

definition sm_stack_init :: "bool \<Rightarrow> (nat \<Rightarrow> nat \<Rightarrow> bytes ptr) \<Rightarrow> sm_stack ptr \<Rightarrow> u32 \<Rightarrow> nat
    \<Rightarrow> sm_stack ptr option" where
  "sm_stack_init struct_ok calloc p len item_size =
     (case p of
        NULL \<Rightarrow> if struct_ok then Some NULL else None
      | Ref s \<Rightarrow> Some (Ref (s\<lparr>st_length := len, st_item_size := item_size,
          st_item := calloc (unat len) item_size, st_count := 0\<rparr>)))"

definition sm_stack_push :: "sm_stack ptr \<Rightarrow> bytes \<Rightarrow> (int \<times> sm_stack ptr) option" where
  "sm_stack_push p item =
     (case p of
        NULL \<Rightarrow> Some (-1, NULL)
      | Ref s \<Rightarrow>
          if st_length s \<le> st_count s then Some (-1, Ref s)
          else (case st_item s of
                  NULL \<Rightarrow> None
                | Ref m \<Rightarrow> do {
                    x \<leftarrow> mem_read item 0 (st_item_size s);
                    m \<leftarrow> mem_write m (size_mul (unat (st_count s)) (st_item_size s)) x;
                    Some (0, Ref (s\<lparr>st_item := Ref m, st_count := st_count s + 1\<rparr>)) }))"

definition sm_stack_pop :: "sm_stack ptr \<Rightarrow> bytes \<Rightarrow> (int \<times> sm_stack ptr \<times> bytes) option" where
  "sm_stack_pop p item =
     (case p of
        NULL \<Rightarrow> Some (-1, NULL, item)
      | Ref s \<Rightarrow>
          if sint (st_count s) \<le> 0 then Some (-1, Ref s, item)
          else (case st_item s of
                  NULL \<Rightarrow> None
                | Ref m \<Rightarrow> do {
                    x \<leftarrow> mem_read m (size_mul (unat (st_count s - 1)) (st_item_size s)) (st_item_size s);
                    item \<leftarrow> mem_write item 0 x;
                    Some (0, Ref (s\<lparr>st_count := st_count s - 1\<rparr>), item) }))"

definition sm_stack_deinit :: "sm_stack ptr \<Rightarrow> int" where
  "sm_stack_deinit p = (case p of NULL \<Rightarrow> -1 | Ref _ \<Rightarrow> 0)"

subsection \<open>The stack as a list of items, the top last\<close>

definition stack_wf :: "sm_stack \<Rightarrow> bool" where
  "stack_wf s \<longleftrightarrow> st_count s \<le> st_length s \<and> unat (st_length s) < 2 ^ 31
     \<and> unat (st_length s) * st_item_size s < 2 ^ 64
     \<and> (case st_item s of NULL \<Rightarrow> False | Ref m \<Rightarrow> length m = unat (st_length s) * st_item_size s)"

definition stack_items :: "sm_stack \<Rightarrow> bytes list" where
  "stack_items s = (case st_item s of NULL \<Rightarrow> [] | Ref m \<Rightarrow> items (st_item_size s) (unat (st_count s)) m)"

lemma stack_cases:
  assumes "stack_wf s"
  obtains m where "st_item s = Ref m" "length m = unat (st_length s) * st_item_size s"
    "stack_items s = items (st_item_size s) (unat (st_count s)) m"
    "length (stack_items s) = unat (st_count s)"
    "unat (st_count s) \<le> unat (st_length s)" "unat (st_length s) < 2 ^ 31"
    "\<And>n. n \<le> unat (st_length s) \<Longrightarrow> size_mul n (st_item_size s) = n * st_item_size s
       \<and> n * st_item_size s \<le> length m"
proof -
  obtain m where m: "st_item s = Ref m" "length m = unat (st_length s) * st_item_size s"
    using assms by (auto simp: stack_wf_def split: ptr.splits)
  moreover have "size_mul n (st_item_size s) = n * st_item_size s \<and> n * st_item_size s \<le> length m"
    if "n \<le> unat (st_length s)" for n
  proof -
    have le: "n * st_item_size s \<le> unat (st_length s) * st_item_size s" using that by (rule mult_le_mono1)
    moreover from this have "n * st_item_size s < 2 ^ 64"
      using assms unfolding stack_wf_def by linarith
    ultimately show ?thesis using m by simp
  qed
  ultimately show thesis
    using assms by (intro that) (auto simp: stack_wf_def stack_items_def word_le_nat_alt)
qed

lemma stack_push_room:
  assumes wf: "stack_wf s" and x: "length x = st_item_size s" and room: "st_count s < st_length s"
  shows "\<exists>s'. sm_stack_push (Ref s) x = Some (0, Ref s') \<and> stack_wf s'
     \<and> stack_items s' = stack_items s @ [x]
     \<and> st_length s' = st_length s \<and> st_item_size s' = st_item_size s"
proof -
  obtain m where m: "st_item s = Ref m" "length m = unat (st_length s) * st_item_size s"
    "stack_items s = items (st_item_size s) (unat (st_count s)) m"
    "\<And>n. n \<le> unat (st_length s) \<Longrightarrow> size_mul n (st_item_size s) = n * st_item_size s
       \<and> n * st_item_size s \<le> length m"
    using wf by (rule stack_cases) blast
  have un: "unat (st_count s + 1) = Suc (unat (st_count s))" using room by (rule unat_inc)
  have n: "Suc (unat (st_count s)) \<le> unat (st_length s)" using room by (simp add: word_less_nat_alt)
  then have "Suc (unat (st_count s)) * st_item_size s \<le> length m" using m(4) by blast
  then obtain m' where m': "mem_write m (unat (st_count s) * st_item_size s) x = Some m'"
    "items (st_item_size s) (Suc (unat (st_count s))) m' = stack_items s @ [x]" "length m' = length m"
    using items_append_write [OF _ x] unfolding m(3) by blast
  have "size_mul (unat (st_count s)) (st_item_size s) = unat (st_count s) * st_item_size s"
    using m(4) n by simp
  with m' m(1,2) wf x room un word_inc_le [OF room] show ?thesis
    by (auto simp: sm_stack_push_def stack_wf_def stack_items_def mem_simps not_le)
qed

lemma stack_pop_top:
  assumes wf: "stack_wf s" and items: "stack_items s = xs @ [x]" and b: "length b = st_item_size s"
  shows "\<exists>s'. sm_stack_pop (Ref s) b = Some (0, Ref s', x) \<and> stack_wf s' \<and> stack_items s' = xs
     \<and> st_length s' = st_length s \<and> st_item_size s' = st_item_size s"
proof -
  obtain m where m: "st_item s = Ref m" "length m = unat (st_length s) * st_item_size s"
    "stack_items s = items (st_item_size s) (unat (st_count s)) m"
    "length (stack_items s) = unat (st_count s)"
    "unat (st_count s) \<le> unat (st_length s)" "unat (st_length s) < 2 ^ 31"
    "\<And>n. n \<le> unat (st_length s) \<Longrightarrow> size_mul n (st_item_size s) = n * st_item_size s
       \<and> n * st_item_size s \<le> length m"
    using wf by (rule stack_cases) blast
  define n where "n = length xs"
  have n: "unat (st_count s) = Suc n" using items m(4) by (simp add: n_def)
  then have ne: "st_count s \<noteq> 0" by auto
  then have un: "unat (st_count s - 1) = n" using n by (simp add: unat_dec)
  have "mem_read m (n * st_item_size s) (st_item_size s) = Some (stack_items s ! n)"
  proof -
    have "n < unat (st_count s)" using n by simp
    from items_nth_read [OF this conjunct2 [OF m(7) [OF m(5)]]] show ?thesis unfolding m(3) .
  qed
  then have rd: "mem_read m (n * st_item_size s) (st_item_size s) = Some x"
    by (simp add: items n_def)
  then have lx: "length x = st_item_size s" by (auto simp: mem_read_def split: if_splits)
  have sz: "size_mul n (st_item_size s) = n * st_item_size s" using m(5,7) n by simp
  have fst: "items (st_item_size s) n m = xs"
  proof -
    from items_snoc [of "st_item_size s" n m]
    have "items (st_item_size s) n m @ [take (st_item_size s) (drop (n * st_item_size s) m)] = xs @ [x]"
      using items unfolding m(3) n by (rule trans [OF sym])
    then show ?thesis by simp
  qed
  have "sint (st_count s) = int (Suc n)" using sint_u32_small [of "st_count s"] m(5,6) n by simp
  moreover have "st_count s - 1 \<le> st_length s" using m(5) n by (simp add: word_le_nat_alt un)
  ultimately show ?thesis
    using m(1,2) wf un lx b rd sz fst
    by (auto simp: sm_stack_pop_def stack_wf_def stack_items_def mem_write_def)
qed

definition stack_push :: "bytes \<Rightarrow> sm_stack \<Rightarrow> (int \<times> sm_stack) option" where
  "stack_push x s = map_option (\<lambda>(r, p). (r, deref p)) (sm_stack_push (Ref s) x)"

definition stack_take :: "sm_stack \<Rightarrow> (int \<times> bytes \<times> sm_stack) option" where
  "stack_take s = map_option (\<lambda>(r, p, b). (r, b, deref p))
     (sm_stack_pop (Ref s) (replicate (st_item_size s) 0))"

interpretation stk: lifo_container stack_wf stack_items "\<lambda>s. unat (st_length s)" st_item_size
  stack_push stack_take
proof unfold_locales
  fix s and x :: bytes
  assume wf: "stack_wf s" "length x = st_item_size s" and less: "length (stack_items s) < unat (st_length s)"
  have "length (stack_items s) = unat (st_count s)" using wf(1) by (rule stack_cases)
  then have "st_count s < st_length s" using less by (simp add: word_less_nat_alt)
  then show "\<exists>s'. stack_push x s = Some (0, s') \<and> stack_wf s' \<and> stack_items s' = stack_items s @ [x]
      \<and> unat (st_length s') = unat (st_length s) \<and> st_item_size s' = st_item_size s"
    using stack_push_room [OF wf] by (auto simp: stack_push_def)
next
  fix s and x :: bytes
  assume wf: "stack_wf s" and full: "unat (st_length s) \<le> length (stack_items s)"
  have "length (stack_items s) = unat (st_count s)" using wf by (rule stack_cases)
  then show "stack_push x s = Some (-1, s)"
    using full by (simp add: stack_push_def sm_stack_push_def word_le_nat_alt)
next
  fix s assume wf: "stack_wf s"
  have "length (stack_items s) = unat (st_count s)" using wf by (rule stack_cases)
  moreover have "unat (st_count s) \<le> unat (st_length s)" using wf by (rule stack_cases)
  ultimately show "length (stack_items s) \<le> unat (st_length s)" by simp
next
  fix s x xs assume "stack_wf s" "stack_items s = xs @ [x]"
  then show "\<exists>s'. stack_take s = Some (0, x, s') \<and> stack_wf s' \<and> stack_items s' = xs
      \<and> unat (st_length s') = unat (st_length s) \<and> st_item_size s' = st_item_size s"
    using stack_pop_top [of s xs x "replicate (st_item_size s) 0"] by (auto simp: stack_take_def)
qed

subsection \<open>Properties\<close>

text \<open> The stack is last in, first out. A stack initialised for fewer than \<open>2 ^ 31\<close> items on
  memory from \<open>calloc\<close> takes any items of its size up to that number, and popping as many times
  returns them in reverse order; a further pop is refused with -1 and leaves the stack as it is.\<close>

theorem stack_last_in_first_out:
  assumes "calloc (unat len) item_size = Ref m" and "length m = unat len * item_size"
    and "unat len < 2 ^ 31" and "unat len * item_size < 2 ^ 64"
    and "\<forall>x \<in> set xs. length x = item_size" and "length xs \<le> unat len"
  shows "\<exists>s1 s2 s3. sm_stack_init ok calloc (Ref s) len item_size = Some (Ref s1)
     \<and> stk.push_all xs s1 = Some s2 \<and> stk.drain (length xs) s2 = Some (rev xs, s3)
     \<and> sm_stack_pop (Ref s3) b = Some (-1, Ref s3, b)"
proof -
  obtain s1 where s1: "sm_stack_init ok calloc (Ref s) len item_size = Some (Ref s1)"
    and wf: "stack_wf s1" "stack_items s1 = []" "st_item_size s1 = item_size" "st_length s1 = len"
    using assms(1-4) by (auto simp: sm_stack_init_def stack_wf_def stack_items_def)
  then obtain s2 where s2: "stk.push_all xs s1 = Some s2" "stack_wf s2" "stack_items s2 = xs"
    using stk.push_all_content [of s1 xs] assms(5,6) by auto
  then obtain s3 where s3: "stk.drain (length xs) s2 = Some (rev xs, s3)" "stack_wf s3" "stack_items s3 = []"
    using stk.drain_content [of s2] by auto
  have "length (stack_items s3) = unat (st_count s3)" using s3(2) by (rule stack_cases)
  then have "st_count s3 = 0" using s3(3) by (simp add: unat_eq_zero)
  then have "sm_stack_pop (Ref s3) b = Some (-1, Ref s3, b)" by (simp add: sm_stack_pop_def)
  with s1 s2(1) s3(1) show ?thesis by blast
qed

theorem stack_last_in_first_out_witness:
  "\<exists>s1 s2 s3. sm_stack_init True (\<lambda>n k. Ref (replicate (n * k) 0))
       (Ref \<lparr>st_item = NULL, st_item_size = 0, st_length = 0, st_count = 0\<rparr>) 2 1 = Some (Ref s1)
     \<and> stk.push_all [[4], [5]] s1 = Some s2 \<and> stk.drain 2 s2 = Some ([[5], [4]], s3)
     \<and> sm_stack_pop (Ref s3) [0] = Some (-1, Ref s3, [0])"
  using stack_last_in_first_out [of "\<lambda>n k. Ref (replicate (n * k) 0)" 2 1 _ "[[4], [5]]" True
      "\<lparr>st_item = NULL, st_item_size = 0, st_length = 0, st_count = 0\<rparr>" "[0]"]
  by (simp del: stk.drain.simps stk.push_all.simps flip: numeral_2_eq_2)

end
