(* ===== verification/Vector.thy ===== *)
theory Vector
  imports Items
begin

section \<open>The vector\<close>

text \<open>
  Models \<^verbatim>\<open>utils/code_c/containers/sm_vector.c\<close>. A pointer to an item of the vector is its
  offset in the block; pointers outside the block are not represented, and computing one is
  \<^term>\<open>None\<close>.
\<close>

record sm_vector =
  v_memory :: bytes
  v_item_size :: nat
  v_max_capacity :: u32
  v_item_count :: u32

definition sm_vector_create :: "bool \<Rightarrow> (nat \<Rightarrow> bytes ptr) \<Rightarrow> u32 \<Rightarrow> nat \<Rightarrow> sm_vector ptr" where
  "sm_vector_create struct_ok malloc capacity item_size =
     (if \<not> struct_ok then NULL
      else case malloc (size_mul (unat capacity) item_size) of
             NULL \<Rightarrow> NULL
           | Ref m \<Rightarrow> Ref \<lparr>v_memory = m, v_item_size = item_size, v_max_capacity = capacity, v_item_count = 0\<rparr>)"

text \<open>The offset of the item at a 32 bit index, a \<open>size_t\<close> product.\<close>

definition v_offset :: "sm_vector \<Rightarrow> u32 \<Rightarrow> nat" where
  "v_offset v i = size_mul (unat i) (v_item_size v)"

definition sm_vector_push_back :: "sm_vector ptr \<Rightarrow> bytes \<Rightarrow> (int \<times> sm_vector ptr) option" where
  "sm_vector_push_back p item =
     (case p of
        NULL \<Rightarrow> Some (-1, NULL)
      | Ref v \<Rightarrow>
          if v_max_capacity v \<le> v_item_count v then Some (-1, Ref v)
          else do {
            x \<leftarrow> mem_read item 0 (v_item_size v);
            m \<leftarrow> mem_write (v_memory v) (v_offset v (v_item_count v)) x;
            Some (0, Ref (v\<lparr>v_memory := m, v_item_count := v_item_count v + 1\<rparr>)) })"

definition sm_vector_get_size :: "sm_vector ptr \<Rightarrow> int" where
  "sm_vector_get_size p = (case p of NULL \<Rightarrow> -1 | Ref v \<Rightarrow> sint (v_item_count v))"

definition sm_vector_is_full :: "sm_vector ptr \<Rightarrow> bool" where
  "sm_vector_is_full p = (case p of NULL \<Rightarrow> True | Ref v \<Rightarrow> v_max_capacity v \<le> v_item_count v)"

definition sm_vector_copy_item :: "sm_vector ptr \<Rightarrow> u32 \<Rightarrow> bytes \<Rightarrow> (int \<times> bytes) option" where
  "sm_vector_copy_item p index buff =
     (case p of
        NULL \<Rightarrow> Some (-1, buff)
      | Ref v \<Rightarrow>
          if v_item_size v = 0 then Some (-1, buff)
          else if v_item_count v \<le> index then Some (-1, buff)
          else do {
            x \<leftarrow> mem_read (v_memory v) (v_offset v index) (v_item_size v);
            buff \<leftarrow> mem_write buff 0 x;
            Some (0, buff) })"

definition sm_vector_get_item :: "sm_vector ptr \<Rightarrow> u32 \<Rightarrow> nat ptr" where
  "sm_vector_get_item p index =
     (case p of
        NULL \<Rightarrow> NULL
      | Ref v \<Rightarrow>
          if v_item_size v = 0 then NULL
          else if v_item_count v \<le> index then NULL
          else Ref (v_offset v index))"

definition sm_vector_copy_front :: "sm_vector ptr \<Rightarrow> bytes ptr \<Rightarrow> (int \<times> bytes ptr) option" where
  "sm_vector_copy_front p buff =
     (case (p, buff) of
        (Ref v, Ref b) \<Rightarrow>
          if v_item_size v = 0 then Some (-1, buff)
          else do {
            x \<leftarrow> mem_read (v_memory v) 0 (v_item_size v);
            b \<leftarrow> mem_write b 0 x;
            Some (0, Ref b) }
      | _ \<Rightarrow> Some (-1, buff))"

definition sm_vector_copy_last :: "sm_vector ptr \<Rightarrow> bytes ptr \<Rightarrow> (int \<times> bytes ptr) option" where
  "sm_vector_copy_last p buff =
     (case (p, buff) of
        (Ref v, Ref b) \<Rightarrow>
          if v_item_size v = 0 then Some (-1, buff)
          else do {
            x \<leftarrow> mem_read (v_memory v) (v_offset v (v_item_count v - 1)) (v_item_size v);
            b \<leftarrow> mem_write b 0 x;
            Some (0, Ref b) }
      | _ \<Rightarrow> Some (-1, buff))"

definition sm_vector_erase_item_by_index :: "sm_vector ptr \<Rightarrow> u32 \<Rightarrow> (int \<times> sm_vector ptr) option" where
  "sm_vector_erase_item_by_index p index =
     (case p of
        NULL \<Rightarrow> Some (-1, NULL)
      | Ref v \<Rightarrow>
          if v_item_count v \<le> index then Some (-1, Ref v)
          else if v_item_size v = 0 then Some (-1, Ref v)
          else if index = v_item_count v - 1 then Some (0, Ref (v\<lparr>v_item_count := v_item_count v - 1\<rparr>))
          else do {
            let erase_pos = v_offset v index;
            m \<leftarrow> mem_move (v_memory v) erase_pos (erase_pos + v_item_size v)
                   (size_mul (unat (v_item_count v - index - 1)) (v_item_size v));
            Some (0, Ref (v\<lparr>v_memory := m, v_item_count := v_item_count v - 1\<rparr>)) })"

definition sm_vector_erase_item :: "sm_vector ptr \<Rightarrow> nat ptr \<Rightarrow> (int \<times> sm_vector ptr) option" where
  "sm_vector_erase_item p item =
     (case (p, item) of
        (Ref v, Ref off) \<Rightarrow>
          let last = v_offset v (v_item_count v - 1) in
          if length (v_memory v) < last then None
          else if last < off then Some (-1, p)
          else if off = last then Some (0, Ref (v\<lparr>v_item_count := v_item_count v - 1\<rparr>))
          else do {
            m \<leftarrow> mem_move (v_memory v) off (off + v_item_size v) (last - off);
            Some (0, Ref (v\<lparr>v_memory := m, v_item_count := v_item_count v - 1\<rparr>)) }
      | _ \<Rightarrow> Some (-1, p))"

definition sm_vector_destroy :: "sm_vector ptr \<Rightarrow> int" where
  "sm_vector_destroy p = (case p of NULL \<Rightarrow> -1 | Ref _ \<Rightarrow> 0)"

subsection \<open>The vector as a list of items\<close>

definition vector_wf :: "sm_vector \<Rightarrow> bool" where
  "vector_wf v \<longleftrightarrow> 0 < v_item_size v \<and> v_item_count v \<le> v_max_capacity v
     \<and> unat (v_max_capacity v) * v_item_size v < 2 ^ 64
     \<and> length (v_memory v) = unat (v_max_capacity v) * v_item_size v"

definition vector_items :: "sm_vector \<Rightarrow> bytes list" where
  "vector_items v = items (v_item_size v) (unat (v_item_count v)) (v_memory v)"

lemma length_vector_items [simp]: "length (vector_items v) = unat (v_item_count v)"
  by (simp add: vector_items_def)

lemma vector_fits:
  assumes "vector_wf v" "n \<le> unat (v_max_capacity v)"
  shows "size_mul n (v_item_size v) = n * v_item_size v" "n * v_item_size v \<le> length (v_memory v)"
proof -
  have "n * v_item_size v \<le> unat (v_max_capacity v) * v_item_size v"
    using assms(2) by (rule mult_le_mono1)
  moreover from this have "n * v_item_size v < 2 ^ 64"
    using assms(1) unfolding vector_wf_def by linarith
  ultimately show "size_mul n (v_item_size v) = n * v_item_size v"
    "n * v_item_size v \<le> length (v_memory v)"
    using assms(1) by (simp_all add: vector_wf_def)
qed

lemma vector_count_le: "vector_wf v \<Longrightarrow> unat (v_item_count v) \<le> unat (v_max_capacity v)"
  by (simp add: vector_wf_def word_le_nat_alt)

lemma vector_offset:
  assumes "vector_wf v" "i \<le> v_item_count v"
  shows "v_offset v i = unat i * v_item_size v"
  using vector_fits(1) [OF assms(1), of "unat i"] vector_count_le [OF assms(1)] assms(2)
  by (simp add: v_offset_def word_le_nat_alt)

lemma vector_push_room:
  assumes wf: "vector_wf v" and x: "length x = v_item_size v" and room: "v_item_count v < v_max_capacity v"
  shows "\<exists>v'. sm_vector_push_back (Ref v) x = Some (0, Ref v') \<and> vector_wf v'
     \<and> vector_items v' = vector_items v @ [x]
     \<and> v_max_capacity v' = v_max_capacity v \<and> v_item_size v' = v_item_size v"
proof -
  let ?n = "unat (v_item_count v)"
  have "Suc ?n \<le> unat (v_max_capacity v)" using room by (simp add: word_less_nat_alt)
  then obtain m' where m': "mem_write (v_memory v) (?n * v_item_size v) x = Some m'"
    "items (v_item_size v) (Suc ?n) m' = items (v_item_size v) ?n (v_memory v) @ [x]"
    "length m' = length (v_memory v)"
    using items_append_write [OF vector_fits(2) [OF wf] x] by blast
  with wf x room unat_inc [OF room] word_inc_le [OF room] vector_offset [OF wf order_refl] show ?thesis
    by (auto simp: sm_vector_push_back_def vector_wf_def vector_items_def mem_simps not_le)
qed

lemma vector_read:
  assumes "vector_wf v" "i < v_item_count v"
  shows "mem_read (v_memory v) (v_offset v i) (v_item_size v) = Some (vector_items v ! unat i)"
    "length (vector_items v ! unat i) = v_item_size v"
proof -
  have fits: "unat (v_item_count v) * v_item_size v \<le> length (v_memory v)"
    using vector_fits(2) [OF assms(1) vector_count_le [OF assms(1)]] .
  have i: "unat i < unat (v_item_count v)" using assms(2) by (simp add: word_less_nat_alt)
  show rd: "mem_read (v_memory v) (v_offset v i) (v_item_size v) = Some (vector_items v ! unat i)"
    using items_nth_read [OF i fits] vector_offset [OF assms(1), of i] assms(2)
    by (simp add: vector_items_def)
  then show "length (vector_items v ! unat i) = v_item_size v"
    by (rule length_mem_read)
qed

lemma vector_remove:
  assumes wf: "vector_wf v" and i: "i < v_item_count v"
  shows "\<exists>m'. mem_move (v_memory v) (v_offset v i) (v_offset v i + v_item_size v)
         ((unat (v_item_count v) - unat i - 1) * v_item_size v) = Some m'
     \<and> vector_wf (v\<lparr>v_memory := m', v_item_count := v_item_count v - 1\<rparr>)
     \<and> vector_items (v\<lparr>v_memory := m', v_item_count := v_item_count v - 1\<rparr>)
         = without (unat i) (vector_items v)"
proof -
  let ?n = "unat (v_item_count v)"
  have lt: "unat i < ?n" using i by (simp add: word_less_nat_alt)
  have ne: "v_item_count v \<noteq> 0" using lt by auto
  obtain m' where "mem_move (v_memory v) (unat i * v_item_size v) (unat i * v_item_size v + v_item_size v)
      ((?n - unat i - 1) * v_item_size v) = Some m'"
    "items (v_item_size v) (?n - 1) m' = without (unat i) (vector_items v)" "length m' = length (v_memory v)"
    using items_remove_move [OF lt vector_fits(2) [OF wf vector_count_le [OF wf]]]
    unfolding vector_items_def by blast
  with wf i ne word_dec_le [OF ne, of "v_max_capacity v"] vector_offset [OF wf, of i] show ?thesis
    by (auto simp: vector_wf_def vector_items_def unat_dec)
qed

lemma vector_drop_last:
  assumes wf: "vector_wf v" and ne: "v_item_count v \<noteq> 0"
  shows "vector_wf (v\<lparr>v_item_count := v_item_count v - 1\<rparr>)"
    "vector_items (v\<lparr>v_item_count := v_item_count v - 1\<rparr>) = without (unat (v_item_count v) - 1) (vector_items v)"
proof -
  show "vector_wf (v\<lparr>v_item_count := v_item_count v - 1\<rparr>)"
    using wf word_dec_le [OF ne, of "v_max_capacity v"] by (simp add: vector_wf_def)
  obtain n where n: "unat (v_item_count v) = Suc n" using ne by (metis not0_implies_Suc unat_eq_zero)
  then show "vector_items (v\<lparr>v_item_count := v_item_count v - 1\<rparr>) = without (unat (v_item_count v) - 1) (vector_items v)"
    using items_snoc [of "v_item_size v" n "v_memory v"]
    by (simp add: vector_items_def unat_dec ne without_def del: items.simps)
qed

lemma vector_erase_index:
  assumes wf: "vector_wf v" and i: "i < v_item_count v"
  shows "\<exists>v'. sm_vector_erase_item_by_index (Ref v) i = Some (0, Ref v') \<and> vector_wf v'
     \<and> vector_items v' = without (unat i) (vector_items v)"
proof (cases "i = v_item_count v - 1")
  case True
  moreover have ne: "v_item_count v \<noteq> 0" using i by auto
  moreover have "unat i = unat (v_item_count v) - 1" using True ne by (simp add: unat_dec)
  ultimately show ?thesis
    using vector_drop_last [OF wf ne] wf i
    by (auto simp: sm_vector_erase_item_by_index_def vector_wf_def not_le)
next
  case False
  have lt: "unat i < unat (v_item_count v)" using i by (simp add: word_less_nat_alt)
  have ne: "v_item_count v - i \<noteq> 0" using i by auto
  have d: "unat (v_item_count v - i) = unat (v_item_count v) - unat i"
    using i by (simp add: unat_sub)
  have un: "unat (v_item_count v - i - 1) = unat (v_item_count v) - unat i - 1"
    using d by (simp add: unat_dec [OF ne])
  have "size_mul (unat (v_item_count v) - unat i - 1) (v_item_size v)
      = (unat (v_item_count v) - unat i - 1) * v_item_size v"
    using vector_fits(1) [OF wf, of "unat (v_item_count v) - unat i - 1"] vector_count_le [OF wf] by simp
  with vector_remove [OF wf i] un wf i False show ?thesis
    by (auto simp: sm_vector_erase_item_by_index_def vector_wf_def not_le Let_def)
qed

text \<open>Erasing by pointer is erasing by index.\<close>

lemma vector_erase_pointer:
  assumes wf: "vector_wf v" and i: "i < v_item_count v"
  shows "\<exists>v'. sm_vector_erase_item (Ref v) (sm_vector_get_item (Ref v) i) = Some (0, Ref v') \<and> vector_wf v'
     \<and> vector_items v' = without (unat i) (vector_items v)"
proof -
  let ?n = "unat (v_item_count v)" and ?sz = "v_item_size v"
  have lt: "unat i < ?n" using i by (simp add: word_less_nat_alt)
  have ne: "v_item_count v \<noteq> 0" using lt by auto
  have sz: "0 < ?sz" using wf by (simp add: vector_wf_def)
  have off: "v_offset v i = unat i * ?sz" using vector_offset [OF wf, of i] i by simp
  have last: "v_offset v (v_item_count v - 1) = (?n - 1) * ?sz"
    using vector_offset [OF wf, of "v_item_count v - 1"] word_dec_le [OF ne order_refl] by (simp add: unat_dec [OF ne])
  have "(?n - 1) * ?sz \<le> length (v_memory v)"
    using vector_fits(2) [OF wf, of "?n - 1"] vector_count_le [OF wf] by simp
  moreover have "\<not> (?n - 1) * ?sz < unat i * ?sz"
  proof -
    have "unat i \<le> ?n - 1" using lt by linarith
    then have "unat i * ?sz \<le> (?n - 1) * ?sz" by (rule mult_le_mono1)
    then show ?thesis by (rule leD)
  qed
  moreover have "(?n - 1) * ?sz - unat i * ?sz = (?n - unat i - 1) * ?sz"
    by (simp add: diff_mult_distrib)
  moreover have "unat i * ?sz = (?n - 1) * ?sz \<longleftrightarrow> unat i = ?n - 1" using sz by simp
  ultimately show ?thesis
    using vector_remove [OF wf i] vector_drop_last [OF wf ne] sz i off last
    by (cases "unat i = ?n - 1") (auto simp: sm_vector_erase_item_def sm_vector_get_item_def Let_def not_le)
qed

definition vector_push :: "bytes \<Rightarrow> sm_vector \<Rightarrow> (int \<times> sm_vector) option" where
  "vector_push x v = map_option (\<lambda>(r, p). (r, deref p)) (sm_vector_push_back (Ref v) x)"

interpretation vec: bounded_container vector_wf vector_items "\<lambda>v. unat (v_max_capacity v)" v_item_size vector_push
proof unfold_locales
  fix v and x :: bytes assume "vector_wf v" "length x = v_item_size v"
    "length (vector_items v) < unat (v_max_capacity v)"
  then show "\<exists>v'. vector_push x v = Some (0, v') \<and> vector_wf v' \<and> vector_items v' = vector_items v @ [x]
      \<and> unat (v_max_capacity v') = unat (v_max_capacity v) \<and> v_item_size v' = v_item_size v"
    using vector_push_room [of v x] by (auto simp: vector_push_def word_less_nat_alt)
next
  fix v and x :: bytes assume "vector_wf v" "unat (v_max_capacity v) \<le> length (vector_items v)"
  then show "vector_push x v = Some (-1, v)"
    by (simp add: vector_push_def sm_vector_push_back_def word_le_nat_alt)
next
  fix v assume "vector_wf v"
  then show "length (vector_items v) \<le> unat (v_max_capacity v)" by (simp add: vector_count_le)
qed

subsection \<open>Properties\<close>

text \<open>C33: The vector is an indexed list. Pushing a list of items that fits makes item \<open>i\<close> readable
  at index \<open>i\<close>; erasing an item, by index or through the pointer \<open>sm_vector_get_item\<close> returned,
  removes exactly that item and keeps the others in order.\<close>

theorem vector_is_indexed_list:
  assumes "vector_wf v" and "vector_items v = []" and "\<forall>x \<in> set xs. length x = v_item_size v"
    and "length xs \<le> unat (v_max_capacity v)" and "unat i < length xs" and "length b = v_item_size v"
  shows "\<exists>v1 v2 v3. vec.push_all xs v = Some v1
     \<and> sm_vector_copy_item (Ref v1) i b = Some (0, xs ! unat i)
     \<and> sm_vector_erase_item_by_index (Ref v1) i = Some (0, Ref v2)
     \<and> vector_items v2 = take (unat i) xs @ drop (Suc (unat i)) xs
     \<and> sm_vector_erase_item (Ref v1) (sm_vector_get_item (Ref v1) i) = Some (0, Ref v3)
     \<and> vector_items v3 = vector_items v2"
proof -
  obtain v1 where v1: "vec.push_all xs v = Some v1" "vector_wf v1" "vector_items v1 = xs"
    using vec.push_all_content [OF assms(1), of xs] assms(2-4) by auto
  have i: "i < v_item_count v1"
    using assms(5) v1(3) by (metis length_vector_items word_less_nat_alt)
  have sz: "0 < v_item_size v1" using v1(2) by (simp add: vector_wf_def)
  have "v_item_size v1 = length b"
    using vector_read(2) [OF v1(2) i] v1(3) assms(3,5,6) by (metis nth_mem)
  then have "sm_vector_copy_item (Ref v1) i b = Some (0, xs ! unat i)"
    using vector_read [OF v1(2) i] sz i v1(3)
    by (simp add: sm_vector_copy_item_def mem_write_def not_le)
  with v1 vector_erase_index [OF v1(2) i] vector_erase_pointer [OF v1(2) i] show ?thesis
    by (auto simp: without_def)
qed

theorem vector_is_indexed_list_witness:
  "\<exists>v1 v2. vec.push_all [[1], [2], [3]] \<lparr>v_memory = [0, 0, 0, 0], v_item_size = 1, v_max_capacity = 4, v_item_count = 0\<rparr> = Some v1
     \<and> sm_vector_copy_item (Ref v1) 1 [0] = Some (0, [2])
     \<and> sm_vector_erase_item_by_index (Ref v1) 1 = Some (0, Ref v2) \<and> vector_items v2 = [[1], [3]]"
  using vector_is_indexed_list
    [of "\<lparr>v_memory = [0, 0, 0, 0], v_item_size = 1, v_max_capacity = 4, v_item_count = 0\<rparr>" "[[1], [2], [3]]" 1 "[0]"]
  by (auto simp: vector_wf_def vector_items_def simp del: vec.push_all.simps)

text \<open> Reading the last item of an empty vector is not rejected: the index \<open>item_count - 1\<close>
  wraps to \<open>2 ^ 32 - 1\<close> and the copy reads beyond the block.\<close>

theorem vector_copy_last_empty_out_of_bounds:
  assumes "vector_wf v" and "vector_items v = []" and "v_item_size v < 2 ^ 32"
  shows "sm_vector_copy_last (Ref v) (Ref b) = None"
proof -
  have "unat (v_item_count v) = 0" using assms(2) by (metis length_vector_items list.size(3))
  then have count: "unat (v_item_count v - 1) = 2 ^ 32 - 1"
    by (simp add: unat_eq_zero unsigned_minus_1_eq_mask mask_eq_exp_minus_1)
  have "unat (v_max_capacity v) \<le> 2 ^ 32 - 1"
    using unat_u32_le [of "v_max_capacity v"] by simp
  then have "length (v_memory v) \<le> (2 ^ 32 - 1) * v_item_size v"
    using assms(1) unfolding vector_wf_def by (metis mult_le_mono1)
  moreover have "size_mul (2 ^ 32 - 1) (v_item_size v) = (2 ^ 32 - 1) * v_item_size v"
    using assms(3) by (intro size_mul_exact) simp
  moreover have "0 < v_item_size v" using assms(1) by (simp add: vector_wf_def)
  ultimately show ?thesis using count by (simp add: sm_vector_copy_last_def v_offset_def mem_simps)
qed

theorem vector_copy_last_empty_out_of_bounds_witness:
  "sm_vector_copy_last (Ref \<lparr>v_memory = [1, 2], v_item_size = 1, v_max_capacity = 2, v_item_count = 0\<rparr>) (Ref [0]) = None"
  using vector_copy_last_empty_out_of_bounds [of "\<lparr>v_memory = [1, 2], v_item_size = 1, v_max_capacity = 2, v_item_count = 0\<rparr>" "[0]"]
  by (simp add: vector_wf_def vector_items_def)

end
