(* ===== verification/Link_List.thy ===== *)
theory Link_List
  imports Prelude "HOL-Library.Multiset"
begin

section \<open>The linked list\<close>

text \<open>
  Models \<^verbatim>\<open>utils/code_c/containers/v_link_list.c\<close> over an explicit heap of nodes: a map
  from addresses to nodes, so that a freed node is an address outside the domain and reading
  it is \<^term>\<open>None\<close>. A node's value block is owned by the node and is kept in it.
  \<open>malloc\<close> of a node is a parameter that picks an address of the heap or returns \<open>NULL\<close>; the
  allocation of a value and of the swap buffer is a truth value. Loops that follow \<open>next\<close>
  pointers are partial functions, since a cyclic chain is never left.
\<close>

record link_node =
  n_value :: bytes
  n_next :: "nat ptr"

type_synonym node_heap = "nat \<Rightarrow> link_node option"

record v_link_list =
  l_first :: "nat ptr"
  l_item_size :: nat
  l_cur_size :: nat

definition v_link_list_init :: "nat \<Rightarrow> v_link_list" where
  "v_link_list_init item_size = \<lparr>l_first = NULL, l_item_size = item_size, l_cur_size = 0\<rparr>"

definition v_link_list_create :: "bool \<Rightarrow> nat \<Rightarrow> v_link_list ptr" where
  "v_link_list_create struct_ok item_size =
     (if struct_ok then Ref (v_link_list_init item_size) else NULL)"

text \<open>\<open>swap_link_node\<close>; a swap of a node with itself copies its block onto itself.\<close>

definition swap_link_node :: "node_heap \<Rightarrow> nat ptr \<Rightarrow> nat ptr \<Rightarrow> nat \<Rightarrow> (int \<times> node_heap) option" where
  "swap_link_node H p q n =
     (case (p, q) of
        (Ref a, Ref b) \<Rightarrow> do {
          na \<leftarrow> H a;
          temp \<leftarrow> mem_read (n_value na) 0 n;
          nb \<leftarrow> H b;
          vb \<leftarrow> mem_read (n_value nb) 0 n;
          va \<leftarrow> mem_write (n_value na) 0 vb;
          let H = H(a \<mapsto> na\<lparr>n_value := va\<rparr>);
          nb \<leftarrow> H b;
          vb \<leftarrow> mem_write (n_value nb) 0 temp;
          Some (0, H(b \<mapsto> nb\<lparr>n_value := vb\<rparr>)) }
      | _ \<Rightarrow> Some (-1, H))"

fun get_link_node_loop :: "node_heap \<Rightarrow> nat \<Rightarrow> nat ptr \<Rightarrow> nat ptr option" where
  "get_link_node_loop H 0 p = Some p"
| "get_link_node_loop H (Suc k) p =
     (case p of
        NULL \<Rightarrow> None
      | Ref a \<Rightarrow> do {
          nd \<leftarrow> H a;
          if is_null (n_next nd) then Some NULL else get_link_node_loop H k (n_next nd) })"

definition v_link_list_get_link_node :: "node_heap \<Rightarrow> v_link_list ptr \<Rightarrow> nat \<Rightarrow> nat ptr option" where
  "v_link_list_get_link_node H this index =
     (case this of
        NULL \<Rightarrow> Some NULL
      | Ref l \<Rightarrow> do {
          node \<leftarrow> get_link_node_loop H index (l_first l);
          (case node of NULL \<Rightarrow> Some NULL | Ref a \<Rightarrow> do { nd \<leftarrow> H a; Some node }) })"

text \<open>The walk to the last node, from a node that is not \<open>NULL\<close>.\<close>

partial_function (option) last_node :: "node_heap \<Rightarrow> nat \<Rightarrow> nat option" where
  "last_node H a = Option.bind (H a) (\<lambda>nd.
     (case n_next nd of NULL \<Rightarrow> Some a | Ref b \<Rightarrow> last_node H b))"

definition new_node :: "(node_heap \<Rightarrow> nat ptr) \<Rightarrow> bool \<Rightarrow> node_heap \<Rightarrow> nat ptr" where
  "new_node malloc value_ok H = (case malloc H of NULL \<Rightarrow> NULL | Ref a \<Rightarrow> if value_ok then Ref a else NULL)"

definition v_link_list_push_back ::
  "(node_heap \<Rightarrow> nat ptr) \<Rightarrow> bool \<Rightarrow> node_heap \<Rightarrow> v_link_list ptr \<Rightarrow> bytes
     \<Rightarrow> (int \<times> node_heap \<times> v_link_list ptr) option" where
  "v_link_list_push_back malloc value_ok H this item =
     (case this of
        NULL \<Rightarrow> Some (-1, H, this)
      | Ref l \<Rightarrow>
          (case new_node malloc value_ok H of
             NULL \<Rightarrow> Some (-1, H, this)
           | Ref a \<Rightarrow> do {
               v \<leftarrow> mem_read item 0 (l_item_size l);
               let H = H(a \<mapsto> \<lparr>n_value = v, n_next = NULL\<rparr>);
               (case l_first l of
                  NULL \<Rightarrow> Some (0, H, Ref (l\<lparr>l_first := Ref a\<rparr>))
                | Ref f \<Rightarrow> do {
                    z \<leftarrow> last_node H f;
                    nz \<leftarrow> H z;
                    Some (0, H(z \<mapsto> nz\<lparr>n_next := Ref a\<rparr>), this) }) }))"

definition v_link_list_push_font ::
  "(node_heap \<Rightarrow> nat ptr) \<Rightarrow> bool \<Rightarrow> node_heap \<Rightarrow> v_link_list ptr \<Rightarrow> bytes
     \<Rightarrow> (int \<times> node_heap \<times> v_link_list ptr) option" where
  "v_link_list_push_font malloc value_ok H this item =
     (case this of
        NULL \<Rightarrow> Some (-1, H, this)
      | Ref l \<Rightarrow>
          (case new_node malloc value_ok H of
             NULL \<Rightarrow> Some (-1, H, this)
           | Ref a \<Rightarrow> do {
               v \<leftarrow> mem_read item 0 (l_item_size l);
               Some (0, H(a \<mapsto> \<lparr>n_value = v, n_next = l_first l\<rparr>), Ref (l\<lparr>l_first := Ref a\<rparr>)) }))"

partial_function (option) count_nodes :: "node_heap \<Rightarrow> nat \<Rightarrow> nat ptr \<Rightarrow> nat option" where
  "count_nodes H n p =
     (case p of
        NULL \<Rightarrow> Some n
      | Ref a \<Rightarrow> Option.bind (H a) (\<lambda>nd.
          if is_null (n_next nd) then Some (n + 1) else count_nodes H (n + 1) (n_next nd)))"

definition v_link_list_get_size :: "node_heap \<Rightarrow> v_link_list ptr \<Rightarrow> int option" where
  "v_link_list_get_size H this =
     (case this of NULL \<Rightarrow> Some (-1) | Ref l \<Rightarrow> map_option int (count_nodes H 0 (l_first l)))"

text \<open>The pointers to values that the accessors return are given as the values themselves.\<close>

definition v_link_list_get_item :: "node_heap \<Rightarrow> v_link_list ptr \<Rightarrow> nat \<Rightarrow> bytes ptr option" where
  "v_link_list_get_item H this index =
     (if is_null this then Some NULL
      else do {
        node \<leftarrow> v_link_list_get_link_node H this index;
        (case node of NULL \<Rightarrow> Some NULL | Ref a \<Rightarrow> map_option (\<lambda>nd. Ref (n_value nd)) (H a)) })"

definition v_link_list_get_last :: "node_heap \<Rightarrow> v_link_list ptr \<Rightarrow> bytes ptr option" where
  "v_link_list_get_last H this =
     (case this of
        NULL \<Rightarrow> Some NULL
      | Ref l \<Rightarrow>
          (case l_first l of
             NULL \<Rightarrow> Some NULL
           | Ref f \<Rightarrow> do { z \<leftarrow> last_node H f; nz \<leftarrow> H z; Some (Ref (n_value nz)) }))"

definition v_link_list_get_first :: "node_heap \<Rightarrow> v_link_list ptr \<Rightarrow> bytes ptr option" where
  "v_link_list_get_first H this =
     (case this of
        NULL \<Rightarrow> Some NULL
      | Ref l \<Rightarrow>
          (case l_first l of
             NULL \<Rightarrow> Some NULL
           | Ref f \<Rightarrow> map_option (\<lambda>nd. Ref (n_value nd)) (H f)))"

text \<open>Unlinking and freeing a node, as both removal functions do it.\<close>

definition free_node :: "node_heap \<Rightarrow> nat ptr \<Rightarrow> nat \<Rightarrow> node_heap option" where
  "free_node H pre a = do {
     nd \<leftarrow> H a;
     (case pre of
        NULL \<Rightarrow> Some (H(a := None))
      | Ref b \<Rightarrow> do { nb \<leftarrow> H b; Some ((H(b \<mapsto> nb\<lparr>n_next := n_next nd\<rparr>))(a := None)) }) }"

partial_function (option) remove_item_loop ::
  "nat \<Rightarrow> bytes \<Rightarrow> node_heap \<Rightarrow> nat ptr \<Rightarrow> nat ptr \<Rightarrow> (int \<times> node_heap) option" where
  "remove_item_loop n item H pre p =
     (case p of
        NULL \<Rightarrow> Some (-1, H)
      | Ref a \<Rightarrow>
          Option.bind (H a) (\<lambda>nd.
          Option.bind (mem_read (n_value nd) 0 n) (\<lambda>v.
          Option.bind (mem_read item 0 n) (\<lambda>x.
            if v = x then Option.bind (free_node H pre a) (\<lambda>H. Some (0, H))
            else if is_null (n_next nd) then Some (-1, H)
            else remove_item_loop n item H p (n_next nd)))))"

definition v_link_list_remove_item :: "node_heap \<Rightarrow> v_link_list ptr \<Rightarrow> bytes \<Rightarrow> (int \<times> node_heap) option" where
  "v_link_list_remove_item H this item =
     (case this of
        NULL \<Rightarrow> Some (-1, H)
      | Ref l \<Rightarrow> remove_item_loop (l_item_size l) item H NULL (l_first l))"

fun remove_at_loop :: "node_heap \<Rightarrow> nat \<Rightarrow> nat ptr \<Rightarrow> nat ptr \<Rightarrow> (nat ptr \<times> nat ptr) option" where
  "remove_at_loop H 0 pre p = Some (pre, p)"
| "remove_at_loop H (Suc k) pre p =
     (case p of
        NULL \<Rightarrow> None
      | Ref a \<Rightarrow> do {
          nd \<leftarrow> H a;
          if is_null (n_next nd) then Some (p, NULL) else remove_at_loop H k p (n_next nd) })"

definition v_link_list_remove_item_at :: "node_heap \<Rightarrow> v_link_list ptr \<Rightarrow> nat \<Rightarrow> (int \<times> node_heap) option" where
  "v_link_list_remove_item_at H this index =
     (case this of
        NULL \<Rightarrow> Some (-1, H)
      | Ref l \<Rightarrow> do {
          (pre, node) \<leftarrow> remove_at_loop H index NULL (l_first l);
          (case node of
             NULL \<Rightarrow> Some (-1, H)
           | Ref a \<Rightarrow> do { H \<leftarrow> free_node H pre a; Some (0, H) }) })"

text \<open>The \<open>for\<close> loops of the last three functions run over index lists.\<close>

definition reverse_step :: "v_link_list ptr \<Rightarrow> nat \<Rightarrow> nat \<Rightarrow> nat \<Rightarrow> node_heap \<Rightarrow> node_heap option" where
  "reverse_step this n max_node i H = do {
     node_first \<leftarrow> v_link_list_get_link_node H this i;
     node_last \<leftarrow> v_link_list_get_link_node H this (max_node - i);
     map_option snd (swap_link_node H node_first node_last n) }"

fun for_each :: "('i \<Rightarrow> 's \<Rightarrow> 's option) \<Rightarrow> 'i list \<Rightarrow> 's \<Rightarrow> 's option" where
  "for_each f [] s = Some s"
| "for_each f (i # is) s = do { s \<leftarrow> f i s; for_each f is s }"

definition v_link_list_reverse :: "node_heap \<Rightarrow> v_link_list ptr \<Rightarrow> (int \<times> node_heap) option" where
  "v_link_list_reverse H this =
     (case this of
        NULL \<Rightarrow> Some (-1, H)
      | Ref l \<Rightarrow> do {
          size \<leftarrow> v_link_list_get_size H this;
          let max_node = size - 1;
          if max_node \<le> 0 then Some (-1, H)
          else do {
            H \<leftarrow> for_each (reverse_step this (l_item_size l) (nat max_node)) [0..<nat max_node div 2 + 1] H;
            Some (0, H) } })"

text \<open>
  The body of the two sorting functions; \<open>out_of_order\<close> is the test on the comparison's
  result (\<open>> 0\<close> or \<open>< 0\<close>).
\<close>

definition sort_step ::
  "(bytes \<Rightarrow> bytes \<Rightarrow> bool) \<Rightarrow> v_link_list ptr \<Rightarrow> nat \<Rightarrow> nat ptr \<Rightarrow> nat \<Rightarrow> node_heap \<Rightarrow> node_heap option" where
  "sort_step out_of_order this n node_last j H = do {
     node_first \<leftarrow> v_link_list_get_link_node H this j;
     (case (node_first, node_last) of
        (Ref a, Ref b) \<Rightarrow> do {
          na \<leftarrow> H a;
          nb \<leftarrow> H b;
          if out_of_order (n_value na) (n_value nb)
          then map_option snd (swap_link_node H node_first node_last n)
          else Some H }
      | _ \<Rightarrow> None) }"

definition sort_round ::
  "(bytes \<Rightarrow> bytes \<Rightarrow> bool) \<Rightarrow> v_link_list ptr \<Rightarrow> nat \<Rightarrow> nat \<Rightarrow> node_heap \<Rightarrow> node_heap option" where
  "sort_round out_of_order this n i H = do {
     node_last \<leftarrow> v_link_list_get_link_node H this i;
     for_each (sort_step out_of_order this n node_last) [0..<i + 1] H }"

definition sort_list ::
  "(bytes \<Rightarrow> bytes \<Rightarrow> bool) \<Rightarrow> node_heap \<Rightarrow> v_link_list ptr \<Rightarrow> (int \<times> node_heap) option" where
  "sort_list out_of_order H this =
     (case this of
        NULL \<Rightarrow> Some (-1, H)
      | Ref l \<Rightarrow> do {
          size \<leftarrow> v_link_list_get_size H this;
          let max_node = size - 1;
          if max_node \<le> 0 then Some (-1, H)
          else do {
            H \<leftarrow> for_each (sort_round out_of_order this (l_item_size l)) (rev [0..<nat max_node + 1]) H;
            Some (0, H) } })"

definition v_link_list_sort_asc ::
  "node_heap \<Rightarrow> v_link_list ptr \<Rightarrow> (bytes \<Rightarrow> bytes \<Rightarrow> int) \<Rightarrow> (int \<times> node_heap) option" where
  "v_link_list_sort_asc H this cmp = sort_list (\<lambda>x y. 0 < cmp x y) H this"

definition v_link_list_sort_desc ::
  "node_heap \<Rightarrow> v_link_list ptr \<Rightarrow> (bytes \<Rightarrow> bytes \<Rightarrow> int) \<Rightarrow> (int \<times> node_heap) option" where
  "v_link_list_sort_desc H this cmp = sort_list (\<lambda>x y. cmp x y < 0) H this"

subsection \<open>Chains of nodes\<close>

primrec path :: "node_heap \<Rightarrow> nat ptr \<Rightarrow> nat list \<Rightarrow> nat ptr \<Rightarrow> bool" where
  "path H p [] q \<longleftrightarrow> p = q"
| "path H p (a # as) q \<longleftrightarrow> p = Ref a \<and> (\<exists>nd. H a = Some nd \<and> path H (n_next nd) as q)"

abbreviation chain :: "node_heap \<Rightarrow> nat ptr \<Rightarrow> nat list \<Rightarrow> bool" where
  "chain H p as \<equiv> path H p as NULL"

text \<open>The list holds the values \<open>vs\<close>, each of the item size, in the nodes \<open>as\<close>.\<close>

definition linked :: "node_heap \<Rightarrow> v_link_list \<Rightarrow> nat list \<Rightarrow> bytes list \<Rightarrow> bool" where
  "linked H l as vs \<longleftrightarrow> chain H (l_first l) as \<and> distinct as
     \<and> vs = map (\<lambda>a. n_value (the (H a))) as \<and> (\<forall>v \<in> set vs. length v = l_item_size l)"

lemma path_append [simp]: "path H p (as @ bs) q \<longleftrightarrow> (\<exists>r. path H p as r \<and> path H r bs q)"
  by (induction as arbitrary: p) auto

lemma path_upd [simp]: "a \<notin> set as \<Longrightarrow> path (H(a := x)) p as q = path H p as q"
  by (induction as arbitrary: p) auto

lemma path_same_next:
  "H a = Some nd \<Longrightarrow> path (H(a \<mapsto> nd\<lparr>n_value := v\<rparr>)) p as q = path H p as q"
  by (induction as arbitrary: p) auto

lemma path_nth: "path H p as q \<Longrightarrow> k < length as \<Longrightarrow> \<exists>nd. H (as ! k) = Some nd"
  by (induction as arbitrary: p k) (auto simp: nth_Cons split: nat.split)

lemma path_live: "path H p as q \<Longrightarrow> a \<in> set as \<Longrightarrow> \<exists>nd. H a = Some nd"
  by (metis path_nth in_set_conv_nth)

lemma get_link_node_loop_chain:
  "chain H p as \<Longrightarrow> as \<noteq> [] \<or> k = 0 \<Longrightarrow>
     get_link_node_loop H k p = Some (if k < length as then Ref (as ! k) else NULL)"
proof (induction as arbitrary: p k)
  case (Cons a as)
  then obtain nd where nd: "p = Ref a" "H a = Some nd" "chain H (n_next nd) as" by auto
  show ?case
  proof (cases k)
    case (Suc j)
    show ?thesis
    proof (cases as)
      case Nil
      with nd Suc show ?thesis by simp
    next
      case (Cons b bs)
      then have "\<not> is_null (n_next nd)" using nd(3) by auto
      with nd Suc Cons Cons.IH [OF nd(3), of j] show ?thesis by simp
    qed
  qed (use nd in simp)
qed simp

lemma get_link_node_linked:
  assumes "linked H l as vs" "as \<noteq> []"
  shows "v_link_list_get_link_node H (Ref l) k = Some (if k < length as then Ref (as ! k) else NULL)"
  using assms get_link_node_loop_chain [of H "l_first l" as k] path_nth [of H "l_first l" as NULL k]
  by (auto simp: v_link_list_get_link_node_def linked_def)

lemma last_node_chain: "chain H (Ref a) as \<Longrightarrow> last_node H a = Some (last as)"
proof (induction as arbitrary: a)
  case (Cons b bs)
  then obtain nd where nd: "a = b" "H b = Some nd" "chain H (n_next nd) bs" by auto
  with Cons.IH show ?case
    by (cases bs; subst last_node.simps) auto
qed simp

lemma count_nodes_chain: "chain H p as \<Longrightarrow> count_nodes H n p = Some (n + length as)"
proof (induction as arbitrary: p n)
  case Nil
  then show ?case by (simp add: count_nodes.simps)
next
  case (Cons a as)
  then obtain nd where nd: "p = Ref a" "H a = Some nd" "chain H (n_next nd) as" by auto
  then have "is_null (n_next nd) \<longleftrightarrow> as = []" by (cases as) auto
  with nd Cons.IH [OF nd(3), of "n + 1"] show ?case
    by (subst count_nodes.simps) auto
qed

lemma get_size_linked: "linked H l as vs \<Longrightarrow> v_link_list_get_size H (Ref l) = Some (int (length vs))"
  using count_nodes_chain [of H "l_first l" as 0] by (auto simp: v_link_list_get_size_def linked_def)

lemma linked_value: "linked H l as vs \<Longrightarrow> k < length as \<Longrightarrow>
    \<exists>nd. H (as ! k) = Some nd \<and> n_value nd = vs ! k \<and> length (vs ! k) = l_item_size l"
proof -
  assume l: "linked H l as vs" and k: "k < length as"
  then obtain nd where "H (as ! k) = Some nd"
    using path_nth [of H "l_first l" as NULL k] by (auto simp: linked_def)
  moreover from l k have "length (vs ! k) = l_item_size l"
    unfolding linked_def by (metis length_map nth_mem)
  ultimately show ?thesis using l k by (auto simp: linked_def)
qed

lemma get_item_linked:
  assumes "linked H l as vs" "vs \<noteq> []"
  shows "v_link_list_get_item H (Ref l) k = Some (if k < length vs then Ref (vs ! k) else NULL)"
proof -
  have "as \<noteq> []" "length vs = length as" using assms by (auto simp: linked_def)
  with get_link_node_linked [OF assms(1), of k] linked_value [OF assms(1), of k] show ?thesis
    by (auto simp: v_link_list_get_item_def)
qed

text \<open>On the empty list, an index other than the first reads through \<open>NULL\<close>.\<close>

lemma get_item_any:
  assumes "linked H l as vs"
  shows "v_link_list_get_item H (Ref l) k
     = (if vs = [] \<and> 0 < k then None else Some (if k < length vs then Ref (vs ! k) else NULL))"
proof (cases "vs = []")
  case True
  then have "l_first l = NULL" using assms by (auto simp: linked_def)
  then show ?thesis
    using True by (cases k) (simp_all add: v_link_list_get_item_def v_link_list_get_link_node_def)
qed (simp add: get_item_linked [OF assms])

lemma push_back_linked:
  assumes l: "linked H l as vs" and fresh: "malloc H = Ref a" "H a = None" and x: "length x = l_item_size l"
  shows "\<exists>H' l'. v_link_list_push_back malloc True H (Ref l) x = Some (0, H', Ref l')
     \<and> linked H' l' (as @ [a]) (vs @ [x]) \<and> l_item_size l' = l_item_size l"
proof (cases as rule: rev_cases)
  case Nil
  with assms show ?thesis
    by (auto simp: v_link_list_push_back_def new_node_def linked_def mem_read_def)
next
  case (snoc bs z)
  have ch: "path H (l_first l) bs (Ref z)" and dist: "distinct bs" "z \<notin> set bs"
    using l snoc by (auto simp: linked_def)
  obtain nz where nz: "H z = Some nz" "n_next nz = NULL" using l snoc by (auto simp: linked_def)
  have live: "\<forall>b \<in> set as. H b \<noteq> None" using l path_live by (fastforce simp: linked_def)
  then have a: "a \<notin> set as" using fresh(2) by blast
  obtain f where f: "l_first l = Ref f" using ch by (cases bs) auto
  let ?H = "(H(a \<mapsto> \<lparr>n_value = x, n_next = NULL\<rparr>))(z \<mapsto> nz\<lparr>n_next := Ref a\<rparr>)"
  have "chain (H(a \<mapsto> \<lparr>n_value = x, n_next = NULL\<rparr>)) (Ref f) as"
    using l a f by (simp add: linked_def)
  then have "last_node (H(a \<mapsto> \<lparr>n_value = x, n_next = NULL\<rparr>)) f = Some z"
    using last_node_chain snoc by fastforce
  then have "v_link_list_push_back malloc True H (Ref l) x = Some (0, ?H, Ref l)"
    using fresh x f nz a snoc by (auto simp: v_link_list_push_back_def new_node_def mem_read_def Let_def)
  moreover have "linked ?H l (as @ [a]) (vs @ [x])"
    using l a snoc ch dist nz x by (auto simp: linked_def)
  ultimately show ?thesis by blast
qed

lemma push_font_linked:
  assumes l: "linked H l as vs" and fresh: "malloc H = Ref a" "H a = None" and x: "length x = l_item_size l"
  shows "\<exists>H' l'. v_link_list_push_font malloc True H (Ref l) x = Some (0, H', Ref l')
     \<and> linked H' l' (a # as) (x # vs) \<and> l_item_size l' = l_item_size l"
proof -
  have "a \<notin> set as" using l fresh(2) path_live by (fastforce simp: linked_def)
  with assms show ?thesis
    by (auto simp: v_link_list_push_font_def new_node_def linked_def mem_read_def)
qed

subsection \<open>Removing a node\<close>

lemma remove_at_loop_chain:
  "path H p (bs @ a # cs) NULL \<Longrightarrow> remove_at_loop H (length bs) pre p
     = Some (if bs = [] then pre else Ref (last bs), Ref a)"
proof (induction bs arbitrary: p pre)
  case (Cons b bs)
  then obtain nd where nd: "p = Ref b" "H b = Some nd" "path H (n_next nd) (bs @ a # cs) NULL" by auto
  then have "\<not> is_null (n_next nd)" by (cases bs) auto
  with nd Cons.IH [OF nd(3), of p] show ?case by auto
qed simp

lemma remove_item_at_linked:
  assumes l: "linked H l as vs" and k: "0 < k" "k < length vs"
  shows "\<exists>H'. v_link_list_remove_item_at H (Ref l) k = Some (0, H')
     \<and> linked H' l (take k as @ drop (Suc k) as) (take k vs @ drop (Suc k) vs)"
proof -
  have kl: "k < length as" using l k by (auto simp: linked_def)
  then obtain bs cs where sp: "as = bs @ as ! k # cs" "length bs = k" "bs = take k as" "cs = drop (Suc k) as"
    using id_take_nth_drop by fastforce
  define a where "a = as ! k"
  have "bs \<noteq> []" using sp(2) k(1) by auto
  then obtain ds z where ds: "bs = ds @ [z]" by (cases bs rule: rev_cases) auto
  have as: "as = ds @ z # a # cs" using sp(1) ds by (simp add: a_def)
  have ch: "chain H (l_first l) (bs @ a # cs)" using l sp(1) by (simp add: linked_def a_def)
  obtain nz na where n: "H z = Some nz" "n_next nz = Ref a" "H a = Some na" "chain H (n_next na) cs"
    "path H (l_first l) ds (Ref z)"
    using ch ds by auto
  have dist: "z \<notin> set ds" "z \<noteq> a" "z \<notin> set cs" "a \<notin> set ds" "a \<notin> set cs" "distinct ds" "distinct cs"
    "set ds \<inter> set cs = {}"
    using l as by (auto simp: linked_def)
  let ?H = "(H(z \<mapsto> nz\<lparr>n_next := n_next na\<rparr>))(a := None)"
  have "v_link_list_remove_item_at H (Ref l) k = Some (0, ?H)"
    using remove_at_loop_chain [OF ch, of NULL] sp(2) ds n dist(2)
    by (auto simp: v_link_list_remove_item_at_def free_node_def)
  moreover have "linked ?H l (bs @ cs) (take k vs @ drop (Suc k) vs)"
  proof -
    have "chain ?H (l_first l) (bs @ cs)" using ds n dist by simp
    moreover have "distinct (bs @ cs)" using ds dist by simp
    moreover have "take k vs @ drop (Suc k) vs = map (\<lambda>a. n_value (the (H a))) (bs @ cs)"
      unfolding sp(3,4) using l by (simp add: linked_def take_map drop_map)
    moreover have "map (\<lambda>a. n_value (the (H a))) (bs @ cs) = map (\<lambda>a. n_value (the (?H a))) (bs @ cs)"
      using ds n(1) dist by auto
    moreover have "\<forall>v \<in> set (take k vs @ drop (Suc k) vs). length v = l_item_size l"
      using l by (auto simp: linked_def dest: in_set_takeD in_set_dropD)
    ultimately show ?thesis unfolding linked_def by simp
  qed
  ultimately show ?thesis using sp(3,4) by auto
qed

lemma remove_at_loop_outside:
  "chain H p as \<Longrightarrow> as \<noteq> [] \<Longrightarrow> length as \<le> k \<Longrightarrow> \<exists>pre'. remove_at_loop H k pre p = Some (pre', NULL)"
proof (induction as arbitrary: p k pre)
  case (Cons a as)
  then obtain nd j where nd: "p = Ref a" "H a = Some nd" "chain H (n_next nd) as" "k = Suc j"
    by (cases k) auto
  then have "is_null (n_next nd) \<longleftrightarrow> as = []" by (cases as) auto
  then show ?case using nd Cons.prems(3) Cons.IH [OF nd(3), of j p] by auto
qed simp

lemma remove_item_at_outside:
  assumes "linked H l as vs" "0 < k" "length vs \<le> k"
  shows "v_link_list_remove_item_at H (Ref l) k = (if vs = [] then None else Some (-1, H))"
proof (cases "vs = []")
  case True
  then have "l_first l = NULL" using assms(1) by (auto simp: linked_def)
  then show ?thesis using True assms(2) by (cases k) (simp_all add: v_link_list_remove_item_at_def)
next
  case False
  have "chain H (l_first l) as" "as \<noteq> []" "length as \<le> k" using assms(1,3) False by (auto simp: linked_def)
  from remove_at_loop_outside [OF this, of NULL] show ?thesis
    using False by (auto simp: v_link_list_remove_item_at_def)
qed

subsection \<open>Swaps, reversal and sorting on the list of values\<close>

definition swap_at :: "nat \<Rightarrow> nat \<Rightarrow> 'a list \<Rightarrow> 'a list" where
  "swap_at i j vs = vs[i := vs ! j, j := vs ! i]"

lemma length_swap_at [simp]: "length (swap_at i j vs) = length vs"
  by (simp add: swap_at_def)

lemma mset_swap_at: "i < length vs \<Longrightarrow> j < length vs \<Longrightarrow> mset (swap_at i j vs) = mset vs"
  by (cases "i = j") (simp_all add: swap_at_def mset_swap)

lemma linked_set_value:
  assumes l: "linked H l as vs" and k: "k < length as" "H (as ! k) = Some nd" and v: "length v = l_item_size l"
  shows "linked (H(as ! k \<mapsto> nd\<lparr>n_value := v\<rparr>)) l as (vs[k := v])"
proof -
  have "map (\<lambda>a. n_value (the ((H(as ! k \<mapsto> nd\<lparr>n_value := v\<rparr>)) a))) as
      = (map (\<lambda>a. n_value (the (H a))) as)[k := v]"
    using l k by (intro nth_equalityI) (auto simp: linked_def nth_list_update nth_eq_iff_index_eq)
  with assms show ?thesis
    by (auto simp: linked_def path_same_next dest: set_update_subset_insert [THEN subsetD])
qed

lemma swap_linked:
  assumes l: "linked H l as vs" and i: "i < length as" "j < length as"
  shows "\<exists>H'. swap_link_node H (Ref (as ! i)) (Ref (as ! j)) (l_item_size l) = Some (0, H')
     \<and> linked H' l as (swap_at i j vs)"
proof -
  obtain na nb where n: "H (as ! i) = Some na" "n_value na = vs ! i" "length (vs ! i) = l_item_size l"
    "H (as ! j) = Some nb" "n_value nb = vs ! j" "length (vs ! j) = l_item_size l"
    using linked_value [OF l i(1)] linked_value [OF l i(2)] by blast
  let ?H = "H(as ! i \<mapsto> na\<lparr>n_value := vs ! j\<rparr>)"
  have l1: "linked ?H l as (vs[i := vs ! j])" using linked_set_value [OF l i(1) n(1,6)] .
  obtain nb' where nb': "?H (as ! j) = Some nb'" "length (n_value nb') = l_item_size l"
    using linked_value [OF l1 i(2)] by auto
  have "linked (?H(as ! j \<mapsto> nb'\<lparr>n_value := vs ! i\<rparr>)) l as (swap_at i j vs)"
    unfolding swap_at_def by (rule linked_set_value [OF l1 i(2) nb'(1) n(3)])
  moreover have "swap_link_node H (Ref (as ! i)) (Ref (as ! j)) (l_item_size l)
      = Some (0, ?H(as ! j \<mapsto> nb'\<lparr>n_value := vs ! i\<rparr>))"
    using n nb' by (simp add: swap_link_node_def mem_read_def mem_write_def Let_def)
  ultimately show ?thesis by blast
qed

lemma for_each_fold:
  assumes "\<And>i s t. i \<in> set is \<Longrightarrow> R s t \<Longrightarrow> \<exists>s'. f i s = Some s' \<and> R s' (g i t)" and "R s t"
  shows "\<exists>s'. for_each f is s = Some s' \<and> R s' (fold g is t)"
  using assms
proof (induction "is" arbitrary: s t)
  case (Cons i "is")
  obtain s1 where s1: "f i s = Some s1" "R s1 (g i t)" using Cons.prems by fastforce
  then have "\<exists>s'. for_each f is s1 = Some s' \<and> R s' (fold g is (g i t))"
    using Cons.prems(1) by (intro Cons.IH) auto
  with s1 show ?case by simp
qed simp

lemma fold_swap_rev:
  assumes "length vs = Suc m" "k \<le> m div 2 + 1"
  shows "fold (\<lambda>i. swap_at i (m - i)) [0..<k] vs
     = map (\<lambda>p. if p < k \<or> m - p < k then vs ! (m - p) else vs ! p) [0..<Suc m]"
  using assms(2)
proof (induction k)
  case 0
  show ?case using assms(1) by (intro nth_equalityI) (simp_all del: upt_Suc)
next
  case (Suc k)
  then have k: "k \<le> m - k" "k \<le> m" by linarith+
  let ?us = "map (\<lambda>p. if p < k \<or> m - p < k then vs ! (m - p) else vs ! p) [0..<Suc m]"
  have "fold (\<lambda>i. swap_at i (m - i)) [0..<Suc k] vs = swap_at k (m - k) ?us"
    using Suc by simp
  also have "\<dots> = map (\<lambda>p. if p < Suc k \<or> m - p < Suc k then vs ! (m - p) else vs ! p) [0..<Suc m]"
  proof (rule nth_equalityI)
    fix p assume "p < length (swap_at k (m - k) ?us)"
    then have p: "p < Suc m" by simp
    consider "p = k" | "p = m - k" "p \<noteq> k" | "p \<noteq> k" "p \<noteq> m - k" by blast
    then show "swap_at k (m - k) ?us ! p
        = map (\<lambda>p. if p < Suc k \<or> m - p < Suc k then vs ! (m - p) else vs ! p) [0..<Suc m] ! p"
    proof cases
      case 1
      then show ?thesis using k p by (auto simp: swap_at_def nth_list_update simp del: upt_Suc)
    next
      case 2
      then show ?thesis using k p by (auto simp: swap_at_def nth_list_update simp del: upt_Suc)
    next
      case 3
      then have "p < Suc k \<longleftrightarrow> p < k" "m - p < Suc k \<longleftrightarrow> m - p < k" using p k by linarith+
      with 3 show ?thesis using p by (simp add: swap_at_def nth_list_update del: upt_Suc)
    qed
  qed simp
  finally show ?case .
qed

lemma fold_swap_all:
  assumes "length vs = Suc m"
  shows "fold (\<lambda>i. swap_at i (m - i)) [0..<m div 2 + 1] vs = rev vs"
proof -
  have half: "p < m div 2 + 1 \<or> m - p < m div 2 + 1" for p by linarith
  have "fold (\<lambda>i. swap_at i (m - i)) [0..<m div 2 + 1] vs = map (\<lambda>p. vs ! (m - p)) [0..<Suc m]"
    unfolding fold_swap_rev [OF assms order_refl] by (simp only: half if_True)
  also have "\<dots> = rev vs" using assms by (intro nth_equalityI) (simp_all add: rev_nth del: upt_Suc)
  finally show ?thesis .
qed

definition exchange :: "('a \<Rightarrow> 'a \<Rightarrow> bool) \<Rightarrow> nat \<Rightarrow> nat \<Rightarrow> 'a list \<Rightarrow> 'a list" where
  "exchange ooo i j vs = (if ooo (vs ! j) (vs ! i) then swap_at j i vs else vs)"

definition exchange_round :: "('a \<Rightarrow> 'a \<Rightarrow> bool) \<Rightarrow> nat \<Rightarrow> 'a list \<Rightarrow> 'a list" where
  "exchange_round ooo i = fold (exchange ooo i) [0..<i + 1]"

lemma drop_swap_at: "i < n \<Longrightarrow> j < n \<Longrightarrow> drop n (swap_at i j vs) = drop n vs"
  by (simp add: swap_at_def drop_update_cancel)

lemma take_swap_at: "i < n \<Longrightarrow> j < n \<Longrightarrow> n \<le> length vs \<Longrightarrow> take n (swap_at i j vs) = swap_at i j (take n vs)"
  by (simp add: swap_at_def take_update_swap)

text \<open>A test that orders any two values and is transitive, as a comparison function gives.\<close>

definition ordering_test :: "('a \<Rightarrow> 'a \<Rightarrow> bool) \<Rightarrow> bool" where
  "ordering_test ooo \<longleftrightarrow> (\<forall>x y. ooo x y \<longrightarrow> \<not> ooo y x)
     \<and> (\<forall>x y z. \<not> ooo x y \<longrightarrow> \<not> ooo y z \<longrightarrow> \<not> ooo x z)"

lemma exchange_rounds:
  assumes o: "ordering_test ooo" and i: "i < length vs" "k \<le> Suc i"
  shows "length (fold (exchange ooo i) [0..<k] vs) = length vs
    \<and> drop (Suc i) (fold (exchange ooo i) [0..<k] vs) = drop (Suc i) vs
    \<and> mset (take (Suc i) (fold (exchange ooo i) [0..<k] vs)) = mset (take (Suc i) vs)
    \<and> (\<forall>j<k. \<not> ooo (fold (exchange ooo i) [0..<k] vs ! j) (fold (exchange ooo i) [0..<k] vs ! i))"
  using i(2)
proof (induction k)
  case (Suc k)
  have asym: "ooo x y \<Longrightarrow> \<not> ooo y x" and trans: "\<not> ooo x y \<Longrightarrow> \<not> ooo y z \<Longrightarrow> \<not> ooo x z" for x y z
    using o unfolding ordering_test_def by blast+
  define u where "u = fold (exchange ooo i) [0..<k] vs"
  note hyp = Suc.IH [OF Suc_leD [OF Suc.prems], folded u_def]
  have ih: "length u = length vs" "drop (Suc i) u = drop (Suc i) vs"
    "mset (take (Suc i) u) = mset (take (Suc i) vs)" "\<forall>j<k. \<not> ooo (u ! j) (u ! i)"
    using hyp by blast+
  have k: "k \<le> i" using Suc.prems by simp
  have step: "fold (exchange ooo i) [0..<Suc k] vs = exchange ooo i k u" by (simp add: u_def)
  show ?case
  proof (cases "ooo (u ! k) (u ! i)")
    case True
    then have ki: "k \<noteq> i" and ge: "\<not> ooo (u ! i) (u ! k)" using asym by blast+
    have ex: "exchange ooo i k u = swap_at k i u" using True by (simp add: exchange_def)
    have at: "swap_at k i u ! i = u ! k" "swap_at k i u ! k = u ! i"
      "\<And>j. j < k \<Longrightarrow> swap_at k i u ! j = u ! j"
      using i k ki ih(1) by (simp_all add: swap_at_def nth_list_update)
    have "\<not> ooo (swap_at k i u ! j) (swap_at k i u ! i)" if "j < Suc k" for j
    proof (cases "j = k")
      case False
      with that have "j < k" by simp
      then have "\<not> ooo (u ! j) (u ! k)" using ih(4) ge trans by blast
      then show ?thesis using at \<open>j < k\<close> by simp
    qed (use at ge in simp)
    moreover have "mset (take (Suc i) (swap_at k i u)) = mset (take (Suc i) vs)"
      using ih(1,3) i k by (simp add: take_swap_at mset_swap_at)
    moreover have "drop (Suc i) (swap_at k i u) = drop (Suc i) vs"
      using ih(2) k by (simp add: drop_swap_at)
    ultimately show ?thesis unfolding step ex using ih(1) by simp
  next
    case False
    with ih show ?thesis unfolding step by (auto simp: exchange_def less_Suc_eq)
  qed
qed simp

lemma exchange_sorts:
  assumes o: "ordering_test ooo" and n: "n \<le> length vs" and top: "sorted_wrt (\<lambda>x y. \<not> ooo x y) (drop n vs)"
    "\<forall>x \<in> set (take n vs). \<forall>y \<in> set (drop n vs). \<not> ooo x y"
  shows "mset (fold (exchange_round ooo) (rev [0..<n]) vs) = mset vs
     \<and> sorted_wrt (\<lambda>x y. \<not> ooo x y) (fold (exchange_round ooo) (rev [0..<n]) vs)"
  using n top
proof (induction n arbitrary: vs)
  case (Suc n)
  let ?u = "exchange_round ooo n vs"
  have n: "n < length vs" using Suc.prems by simp
  have u: "length ?u = length vs" "drop (Suc n) ?u = drop (Suc n) vs"
    "mset (take (Suc n) ?u) = mset (take (Suc n) vs)" "\<forall>j < Suc n. \<not> ooo (?u ! j) (?u ! n)"
    using exchange_rounds [OF o n order_refl] by (simp_all add: exchange_round_def)
  have st: "set (take (Suc n) ?u) = set (take (Suc n) vs)" using u(3) by (metis set_mset_mset)
  have dn: "drop n ?u = ?u ! n # drop (Suc n) ?u" using n u(1) by (simp add: Cons_nth_drop_Suc)
  have tn: "take (Suc n) ?u = take n ?u @ [?u ! n]" using n u(1) by (simp add: take_Suc_conv_app_nth)
  have "sorted_wrt (\<lambda>x y. \<not> ooo x y) (drop n ?u)"
    using Suc.prems(2,3) st unfolding dn tn u(2) by auto
  moreover have "\<forall>x \<in> set (take n ?u). \<forall>y \<in> set (drop n ?u). \<not> ooo x y"
  proof (intro ballI)
    fix x y assume x: "x \<in> set (take n ?u)" and y: "y \<in> set (drop n ?u)"
    then have "x \<in> set (take (Suc n) vs)" using st tn by auto
    moreover have "\<not> ooo x (?u ! n)"
      using x u(4) n u(1) by (auto simp: in_set_conv_nth)
    ultimately show "\<not> ooo x y" using y Suc.prems(3) unfolding dn u(2) by auto
  qed
  ultimately have "mset (fold (exchange_round ooo) (rev [0..<n]) ?u) = mset ?u
     \<and> sorted_wrt (\<lambda>x y. \<not> ooo x y) (fold (exchange_round ooo) (rev [0..<n]) ?u)"
    using n u(1) by (intro Suc.IH) simp_all
  moreover have "mset ?u = mset vs"
    using u(2,3) by (metis append_take_drop_id mset_append)
  ultimately show ?case by simp
qed simp

lemma length_linked: "linked H l as vs \<Longrightarrow> length vs = length as"
  by (auto simp: linked_def)

lemma reverse_step_linked:
  assumes "linked H l as vs" "i \<le> m" "length as = Suc m"
  shows "\<exists>H'. reverse_step (Ref l) (l_item_size l) m i H = Some H' \<and> linked H' l as (swap_at i (m - i) vs)"
proof -
  have ne: "as \<noteq> []" using assms(3) by auto
  show ?thesis
    using assms swap_linked [OF assms(1), of i "m - i"]
    by (auto simp: reverse_step_def get_link_node_linked [OF assms(1) ne])
qed

lemma reverse_linked:
  assumes l: "linked H l as vs" and two: "2 \<le> length vs"
  shows "\<exists>H'. v_link_list_reverse H (Ref l) = Some (0, H') \<and> linked H' l as (rev vs)"
proof -
  define m where "m = length vs - 1"
  have m: "length vs = Suc m" "0 < m" "length as = Suc m"
    using two length_linked [OF l] unfolding m_def by linarith+
  have "\<exists>H'. for_each (reverse_step (Ref l) (l_item_size l) m) [0..<m div 2 + 1] H = Some H'
     \<and> linked H' l as (fold (\<lambda>i. swap_at i (m - i)) [0..<m div 2 + 1] vs)"
    using m(3) by (intro for_each_fold [where R = "\<lambda>H. linked H l as"] reverse_step_linked [OF _ _ m(3)] l) auto
  then show ?thesis
    unfolding fold_swap_all [OF m(1)]
    using m get_size_linked [OF l] by (auto simp: v_link_list_reverse_def Let_def simp del: upt_Suc)
qed

lemma sort_step_linked:
  assumes "linked H l as vs" "j < length as" "i < length as"
  shows "\<exists>H'. sort_step ooo (Ref l) (l_item_size l) (Ref (as ! i)) j H = Some H'
     \<and> linked H' l as (exchange ooo i j vs)"
proof -
  have ne: "as \<noteq> []" using assms(2) by auto
  show ?thesis
    using assms swap_linked [OF assms] linked_value [OF assms(1,2)] linked_value [OF assms(1,3)]
    by (auto simp: sort_step_def get_link_node_linked [OF assms(1) ne] exchange_def)
qed

lemma sort_round_linked:
  assumes "linked H l as vs" "i < length as"
  shows "\<exists>H'. sort_round ooo (Ref l) (l_item_size l) i H = Some H' \<and> linked H' l as (exchange_round ooo i vs)"
proof -
  have ne: "as \<noteq> []" using assms(2) by auto
  have "\<exists>H'. for_each (sort_step ooo (Ref l) (l_item_size l) (Ref (as ! i))) [0..<i + 1] H = Some H'
     \<and> linked H' l as (fold (exchange ooo i) [0..<i + 1] vs)"
    using assms by (intro for_each_fold [where R = "\<lambda>H. linked H l as"] sort_step_linked) auto
  with assms ne show ?thesis
    by (simp add: sort_round_def get_link_node_linked exchange_round_def)
qed

lemma sort_linked:
  assumes l: "linked H l as vs" and two: "2 \<le> length vs" and o: "ordering_test ooo"
  shows "\<exists>H' vs'. sort_list ooo H (Ref l) = Some (0, H') \<and> linked H' l as vs' \<and> mset vs' = mset vs
     \<and> sorted_wrt (\<lambda>x y. \<not> ooo x y) vs'"
proof -
  define m where "m = length vs - 1"
  have m: "length vs = Suc m" "0 < m" "length as = Suc m"
    using two length_linked [OF l] unfolding m_def by linarith+
  have "\<exists>H'. for_each (sort_round ooo (Ref l) (l_item_size l)) (rev [0..<Suc m]) H = Some H'
     \<and> linked H' l as (fold (exchange_round ooo) (rev [0..<Suc m]) vs)"
    using m(3) l by (intro for_each_fold [where R = "\<lambda>H. linked H l as"] sort_round_linked) auto
  moreover have "mset (fold (exchange_round ooo) (rev [0..<Suc m]) vs) = mset vs
     \<and> sorted_wrt (\<lambda>x y. \<not> ooo x y) (fold (exchange_round ooo) (rev [0..<Suc m]) vs)"
    using m(1) by (intro exchange_sorts o) simp_all
  ultimately show ?thesis
    using m get_size_linked [OF l] by (auto simp: sort_list_def Let_def simp del: upt_Suc)
qed

subsection \<open>Properties\<close>

text \<open>C17: On every well-formed list, the empty one included, the operations act on the sequence of values: the
  size and the items are those of the sequence, an index past the end gives \<open>NULL\<close>, pushing an item of the list's item
  size at either end with fresh memory adds the item at that end, and removing at an index other than the first removes
  exactly that item, or fails with -1 and changes nothing when there is none. The exception is the empty list: there,
  access and removal at any index other than the first read through \<open>NULL\<close>.\<close>

theorem link_list_refines_sequence:
  assumes "linked H l as vs" and "malloc H = Ref a" and "H a = None" and "length x = l_item_size l"
  shows "v_link_list_get_size H (Ref l) = Some (int (length vs))
     \<and> v_link_list_get_item H (Ref l) k
         = (if vs = [] \<and> 0 < k then None else Some (if k < length vs then Ref (vs ! k) else NULL))
     \<and> (\<exists>H' l'. v_link_list_push_back malloc True H (Ref l) x = Some (0, H', Ref l')
          \<and> linked H' l' (as @ [a]) (vs @ [x]))
     \<and> (\<exists>H' l'. v_link_list_push_font malloc True H (Ref l) x = Some (0, H', Ref l')
          \<and> linked H' l' (a # as) (x # vs))
     \<and> (0 < k \<longrightarrow> k < length vs \<longrightarrow>
          (\<exists>H'. v_link_list_remove_item_at H (Ref l) k = Some (0, H')
             \<and> linked H' l (take k as @ drop (Suc k) as) (take k vs @ drop (Suc k) vs)))
     \<and> (0 < k \<longrightarrow> length vs \<le> k \<longrightarrow>
          v_link_list_remove_item_at H (Ref l) k = (if vs = [] then None else Some (-1, H)))"
  using get_size_linked [OF assms(1)] get_item_any [OF assms(1)]
    push_back_linked [of H l as vs malloc a x, OF assms(1-4)]
    push_font_linked [of H l as vs malloc a x, OF assms(1-4)] remove_item_at_linked [OF assms(1)]
    remove_item_at_outside [OF assms(1)]
  by blast

definition three_nodes :: node_heap where
  "three_nodes = [1 \<mapsto> \<lparr>n_value = [30], n_next = Ref 2\<rparr>, 2 \<mapsto> \<lparr>n_value = [10], n_next = Ref 3\<rparr>,
     3 \<mapsto> \<lparr>n_value = [20], n_next = NULL\<rparr>]"

definition three_list :: v_link_list where
  "three_list = \<lparr>l_first = Ref 1, l_item_size = 1, l_cur_size = 0\<rparr>"

lemma three_linked: "linked three_nodes three_list [1, 2, 3] [[30], [10], [20]]"
  by (simp add: linked_def three_nodes_def three_list_def)

theorem link_list_refines_sequence_witness:
  "\<exists>H' l'. v_link_list_push_back (\<lambda>_. Ref 4) True three_nodes (Ref three_list) [5] = Some (0, H', Ref l')
     \<and> linked H' l' [1, 2, 3, 4] [[30], [10], [20], [5]]"
proof -
  have "three_nodes 4 = None" "l_item_size three_list = 1" by (simp_all add: three_nodes_def three_list_def)
  then show ?thesis
    using link_list_refines_sequence [OF three_linked, of "\<lambda>_. Ref 4" 4 "[5]" 0] by simp
qed

text \<open> Reversal of a list of at least two items reverses the sequence of values in place: the
  same nodes in the same order, the values exchanged. It terminates on every well-formed list.\<close>

theorem link_list_reverse_correct:
  assumes "linked H l as vs" and "2 \<le> length vs"
  shows "\<exists>H'. v_link_list_reverse H (Ref l) = Some (0, H') \<and> linked H' l as (rev vs)"
  using reverse_linked [OF assms] .

theorem link_list_reverse_correct_witness:
  "\<exists>H'. v_link_list_reverse three_nodes (Ref three_list) = Some (0, H')
     \<and> linked H' three_list [1, 2, 3] [[20], [10], [30]]"
  using link_list_reverse_correct [OF three_linked] by simp

text \<open>C31: For every comparison function that is antisymmetric and transitive, sorting a list of at
  least two items, ascending or descending, returns 0 and leaves a permutation of the values in
  the corresponding order in the same nodes.\<close>

theorem link_list_sort_correct:
  assumes "linked H l as vs" and "2 \<le> length vs"
    and "\<forall>x y. cmp x y \<le> 0 \<longleftrightarrow> 0 \<le> cmp y x"
    and "\<forall>x y z. cmp x y \<le> 0 \<longrightarrow> cmp y z \<le> 0 \<longrightarrow> cmp x z \<le> 0"
  shows "(\<exists>H' vs'. v_link_list_sort_asc H (Ref l) cmp = Some (0, H') \<and> linked H' l as vs'
       \<and> mset vs' = mset vs \<and> sorted_wrt (\<lambda>x y. cmp x y \<le> 0) vs')
     \<and> (\<exists>H' vs'. v_link_list_sort_desc H (Ref l) cmp = Some (0, H') \<and> linked H' l as vs'
       \<and> mset vs' = mset vs \<and> sorted_wrt (\<lambda>x y. 0 \<le> cmp x y) vs')"
proof -
  have asc: "ordering_test (\<lambda>x y. 0 < cmp x y)"
    unfolding ordering_test_def not_less using assms(3,4) by (meson less_imp_le)
  have desc: "ordering_test (\<lambda>x y. cmp x y < 0)"
    unfolding ordering_test_def not_less using assms(3,4) by (meson less_imp_le)
  show ?thesis
    using sort_linked [OF assms(1,2) asc] sort_linked [OF assms(1,2) desc]
    unfolding v_link_list_sort_asc_def v_link_list_sort_desc_def not_less by blast
qed

theorem link_list_sort_correct_witness:
  "\<exists>H' vs'. v_link_list_sort_asc three_nodes (Ref three_list) (\<lambda>x y. int (length x) - int (length y)) = Some (0, H')
     \<and> linked H' three_list [1, 2, 3] vs' \<and> mset vs' = {#[30], [10], [20]#}"
  using link_list_sort_correct [OF three_linked, of "\<lambda>x y. int (length x) - int (length y)"]
  by auto

text \<open> Removing the first item, by index or by value, frees its node but leaves the list's
  \<open>first\<close> pointing at it: the call reports success and every later access to the list, here
  \<open>v_link_list_get_first\<close> and \<open>v_link_list_get_size\<close>, reads freed memory.\<close>

theorem link_list_remove_first_dangles:
  assumes "linked H l (a # as) (v # vs)"
  shows "\<exists>H'. v_link_list_remove_item_at H (Ref l) 0 = Some (0, H')
     \<and> v_link_list_remove_item H (Ref l) v = Some (0, H')
     \<and> v_link_list_get_first H' (Ref l) = None \<and> v_link_list_get_size H' (Ref l) = None"
proof -
  obtain nd where nd: "l_first l = Ref a" "H a = Some nd" "n_value nd = v" "length v = l_item_size l"
    using assms by (auto simp: linked_def)
  have "free_node H NULL a = Some (H(a := None))" using nd by (simp add: free_node_def)
  then show ?thesis
    using nd
    by (auto simp: v_link_list_remove_item_at_def v_link_list_remove_item_def remove_item_loop.simps [of _ _ _ NULL]
        v_link_list_get_first_def v_link_list_get_size_def count_nodes.simps mem_read_def)
qed

theorem link_list_remove_first_dangles_witness:
  "\<exists>H'. v_link_list_remove_item_at three_nodes (Ref three_list) 0 = Some (0, H')
     \<and> v_link_list_get_first H' (Ref three_list) = None"
  using link_list_remove_first_dangles [OF three_linked] by blast

end
