(* ===== verification/Segment.thy ===== *)
theory Segment
  imports Prelude
begin

section \<open>Firmware segments\<close>

text \<open>
  Models \<^verbatim>\<open>common/upgrade/loader/boot_core/fw/sm_segment.c\<close>: one piece of a firmware image
  of at most 1024 bytes, announced with an address, a size and a CRC, and then filled in
  pieces. \<open>CRC_CalculateCRC16\<close> is declared in \<^verbatim>\<open>CRC.h\<close>, which is not part of the repository:
  it is the parameter \<open>crc\<close>, called with the buffer and the length.
\<close>

abbreviation SM_SEGMENT_FW_SIZE :: nat where "SM_SEGMENT_FW_SIZE \<equiv> 1024"

type_synonym crc_fun = "bytes \<Rightarrow> int \<Rightarrow> u16 option"

record sm_segment =
  sg_addr :: int
  sg_index :: int
  sg_size :: int
  sg_length :: int
  sg_data :: bytes
  sg_crc :: u16
  sg_is_last :: u8

text \<open>\<open>sm_seg_create\<close> zeroes the allocated object; the default object keeps its old fields.\<close>

definition sm_seg_create :: "bool \<Rightarrow> sm_segment ptr" where
  "sm_seg_create alloc_ok =
     (if alloc_ok
      then Ref \<lparr>sg_addr = 0, sg_index = 0, sg_size = 0, sg_length = 0,
                sg_data = replicate SM_SEGMENT_FW_SIZE 0, sg_crc = 0, sg_is_last = 0\<rparr>
      else NULL)"

definition sm_seg_create_default :: "sm_segment \<Rightarrow> sm_segment" where
  "sm_seg_create_default g = g\<lparr>sg_data := replicate SM_SEGMENT_FW_SIZE 0\<rparr>"

definition sm_seg_destroy :: "sm_segment ptr \<Rightarrow> int" where
  "sm_seg_destroy p = (case p of NULL \<Rightarrow> -1 | Ref _ \<Rightarrow> 0)"

text \<open>A setter: -1 without an object, else 0 and the updated object.\<close>

definition seg_set :: "(sm_segment \<Rightarrow> sm_segment) \<Rightarrow> sm_segment ptr \<Rightarrow> int \<times> sm_segment ptr" where
  "seg_set f p = (case p of NULL \<Rightarrow> (-1, NULL) | Ref s \<Rightarrow> (0, Ref (f s)))"

definition sm_seg_set_info ::
  "sm_segment ptr \<Rightarrow> int \<Rightarrow> int \<Rightarrow> int \<Rightarrow> u16 \<Rightarrow> int \<times> sm_segment ptr" where
  "sm_seg_set_info p index addr size' crc =
     seg_set (\<lambda>s. s\<lparr>sg_index := index, sg_addr := addr, sg_crc := crc, sg_size := size', sg_length := 0\<rparr>) p"

definition sm_seg_set_addr :: "sm_segment ptr \<Rightarrow> int \<Rightarrow> int \<times> sm_segment ptr" where
  "sm_seg_set_addr p addr = seg_set (\<lambda>s. s\<lparr>sg_addr := addr\<rparr>) p"

definition sm_seg_set_size :: "sm_segment ptr \<Rightarrow> int \<Rightarrow> int \<times> sm_segment ptr" where
  "sm_seg_set_size p size' = seg_set (\<lambda>s. s\<lparr>sg_size := size'\<rparr>) p"

text \<open>The function ends without a \<open>return\<close>: its value \<open>junk\<close> is indeterminate.\<close>

definition sm_seg_set_crc :: "int \<Rightarrow> sm_segment ptr \<Rightarrow> u16 \<Rightarrow> int \<times> sm_segment ptr" where
  "sm_seg_set_crc junk p crc =
     (case p of NULL \<Rightarrow> (-1, NULL) | Ref s \<Rightarrow> (junk, Ref (s\<lparr>sg_crc := crc\<rparr>)))"

definition sm_seg_set_last_segment :: "sm_segment ptr \<Rightarrow> u8 \<Rightarrow> int \<times> sm_segment ptr" where
  "sm_seg_set_last_segment p is_last = seg_set (\<lambda>s. s\<lparr>sg_is_last := is_last\<rparr>) p"

text \<open>
  The loop of \<open>sm_seg_fill_data\<close>; \<open>rest\<close> is what is left of the \<open>len\<close> bytes of data, so
  \<open>length rest\<close> is \<open>len - index\<close>.
\<close>

fun seg_fill_loop :: "sm_segment \<Rightarrow> bytes \<Rightarrow> int \<Rightarrow> (int \<times> sm_segment) option" where
  "seg_fill_loop s [] len = Some (len, s)"
| "seg_fill_loop s (b # rest) len = do {
     m \<leftarrow> (if sg_length s < 0 then None else mem_set (sg_data s) (nat (sg_length s)) b);
     let s = s\<lparr>sg_data := m, sg_length := sg_length s + 1\<rparr>;
     if sg_size s < sg_length s then Some (int (length (b # rest)), s)
     else seg_fill_loop s rest len }"

definition sm_seg_fill_data :: "sm_segment ptr \<Rightarrow> bytes \<Rightarrow> int \<Rightarrow> (int \<times> sm_segment ptr) option" where
  "sm_seg_fill_data p data len =
     (case p of
        NULL \<Rightarrow> Some (-1, NULL)
      | Ref s \<Rightarrow> do {
          d \<leftarrow> mem_read data 0 (nat len);
          (r, s) \<leftarrow> seg_fill_loop s d len;
          Some (r, Ref s) })"

definition sm_seg_is_valid :: "crc_fun \<Rightarrow> sm_segment ptr \<Rightarrow> int option" where
  "sm_seg_is_valid crc p =
     (case p of
        NULL \<Rightarrow> Some (-1)
      | Ref s \<Rightarrow> do {
          c \<leftarrow> crc (sg_data s) (sg_length s);
          Some (if sg_crc s = c then 1 else 0) })"

definition sm_seg_is_full :: "sm_segment ptr \<Rightarrow> int" where
  "sm_seg_is_full p =
     (case p of NULL \<Rightarrow> -1 | Ref s \<Rightarrow> if sg_length s = sg_size s then 1 else 0)"

definition sm_seg_get_index :: "sm_segment ptr \<Rightarrow> int" where
  "sm_seg_get_index p = (case p of NULL \<Rightarrow> -1 | Ref s \<Rightarrow> sg_index s)"

definition sm_seg_get_addr :: "sm_segment ptr \<Rightarrow> int" where
  "sm_seg_get_addr p = (case p of NULL \<Rightarrow> -1 | Ref s \<Rightarrow> sg_addr s)"

definition sm_seg_get_crc :: "sm_segment ptr \<Rightarrow> int" where
  "sm_seg_get_crc p = (case p of NULL \<Rightarrow> -1 | Ref s \<Rightarrow> uint (sg_crc s))"

definition sm_seg_get_length :: "sm_segment ptr \<Rightarrow> int" where
  "sm_seg_get_length p = (case p of NULL \<Rightarrow> -1 | Ref s \<Rightarrow> sg_length s)"

definition sm_seg_get_last_segment :: "sm_segment ptr \<Rightarrow> int" where
  "sm_seg_get_last_segment p = (case p of NULL \<Rightarrow> -1 | Ref s \<Rightarrow> uint (sg_is_last s))"

definition sm_seg_get_data :: "sm_segment ptr \<Rightarrow> bytes ptr" where
  "sm_seg_get_data p = (case p of NULL \<Rightarrow> NULL | Ref s \<Rightarrow> Ref (sg_data s))"

subsection \<open>Filling a segment\<close>

text \<open>The segment has received exactly the bytes \<open>ds\<close> so far.\<close>

definition seg_holds :: "sm_segment \<Rightarrow> bytes \<Rightarrow> bool" where
  "seg_holds s ds \<longleftrightarrow> length (sg_data s) = SM_SEGMENT_FW_SIZE \<and> sg_length s = int (length ds)
     \<and> length ds \<le> SM_SEGMENT_FW_SIZE \<and> take (length ds) (sg_data s) = ds"

text \<open>The announced fields, which filling leaves as they are.\<close>

definition seg_info :: "sm_segment \<Rightarrow> int \<times> int \<times> int \<times> u16 \<times> u8" where
  "seg_info s = (sg_index s, sg_addr s, sg_size s, sg_crc s, sg_is_last s)"

lemma seg_holds_Nil: "length (sg_data s) = SM_SEGMENT_FW_SIZE \<Longrightarrow> sg_length s = 0 \<Longrightarrow> seg_holds s []"
  by (simp add: seg_holds_def)

lemma seg_fill_loop_holds:
  assumes "seg_holds s ds" "int (length ds + length bs) \<le> sg_size s" "sg_size s \<le> int SM_SEGMENT_FW_SIZE"
  shows "\<exists>s'. seg_fill_loop s bs len = Some (len, s') \<and> seg_holds s' (ds @ bs) \<and> seg_info s' = seg_info s"
  using assms
proof (induction bs arbitrary: s ds)
  case (Cons b bs)
  let ?s = "s\<lparr>sg_data := (sg_data s)[length ds := b], sg_length := int (length ds) + 1\<rparr>"
  have lt: "length ds < length (sg_data s)" using Cons.prems by (simp add: seg_holds_def)
  have "seg_holds ?s (ds @ [b])"
    using Cons.prems lt by (auto simp: seg_holds_def take_Suc_conv_app_nth)
  then have "\<exists>s'. seg_fill_loop ?s bs len = Some (len, s') \<and> seg_holds s' ((ds @ [b]) @ bs)
      \<and> seg_info s' = seg_info ?s"
    using Cons.prems by (intro Cons.IH) auto
  moreover have "seg_fill_loop s (b # bs) len = seg_fill_loop ?s bs len"
    using Cons.prems lt by (simp add: seg_holds_def mem_simps Let_def)
  ultimately show ?case by (simp add: seg_info_def)
qed simp

lemma seg_fill_holds:
  assumes "seg_holds s ds" "int (length ds + length bs) \<le> sg_size s" "sg_size s \<le> int SM_SEGMENT_FW_SIZE"
  shows "\<exists>s'. sm_seg_fill_data (Ref s) bs (int (length bs)) = Some (int (length bs), Ref s')
     \<and> seg_holds s' (ds @ bs) \<and> seg_info s' = seg_info s"
  using seg_fill_loop_holds [OF assms, of "int (length bs)"]
  by (auto simp: sm_seg_fill_data_def mem_simps)

text \<open>Data that comes in several pieces.\<close>

fun seg_fill_pieces :: "sm_segment ptr \<Rightarrow> bytes list \<Rightarrow> sm_segment ptr option" where
  "seg_fill_pieces p [] = Some p"
| "seg_fill_pieces p (d # ds) = do {
     (r, p) \<leftarrow> sm_seg_fill_data p d (int (length d));
     seg_fill_pieces p ds }"

lemma seg_fill_pieces_holds:
  assumes "seg_holds s ds" "int (length ds + length (concat bss)) \<le> sg_size s" "sg_size s \<le> int SM_SEGMENT_FW_SIZE"
  shows "\<exists>s'. seg_fill_pieces (Ref s) bss = Some (Ref s') \<and> seg_holds s' (ds @ concat bss) \<and> seg_info s' = seg_info s"
  using assms
proof (induction bss arbitrary: s ds)
  case (Cons b bss)
  then obtain s1 where s1: "sm_seg_fill_data (Ref s) b (int (length b)) = Some (int (length b), Ref s1)"
    "seg_holds s1 (ds @ b)" "seg_info s1 = seg_info s"
    using seg_fill_holds [of s ds b] by auto
  moreover have "\<exists>s'. seg_fill_pieces (Ref s1) bss = Some (Ref s') \<and> seg_holds s' ((ds @ b) @ concat bss)
      \<and> seg_info s' = seg_info s1"
    using s1 Cons.prems by (intro Cons.IH) (auto simp: seg_info_def)
  ultimately show ?case by auto
qed simp

subsection \<open>Properties\<close>

text \<open>C36: A segment announced with a size of at most 1024 and then filled in pieces whose total is
  that size holds exactly the concatenation of the pieces, is full, keeps the announced
  address and index, and is valid exactly when the CRC of those bytes is the announced one.\<close>

theorem segment_reassembles:
  assumes "length (sg_data s) = SM_SEGMENT_FW_SIZE" and "length (concat pieces) \<le> SM_SEGMENT_FW_SIZE"
    and "\<forall>m n. n = length (concat pieces) \<longrightarrow> n \<le> length m \<longrightarrow> crc m (int n) = Some (f (take n m))"
  shows "\<exists>s'. seg_fill_pieces (snd (sm_seg_set_info (Ref s) index addr (int (length (concat pieces))) c)) pieces
      = Some (Ref s')
     \<and> take (length (concat pieces)) (sg_data s') = concat pieces
     \<and> sm_seg_is_full (Ref s') = 1 \<and> sm_seg_get_addr (Ref s') = addr \<and> sm_seg_get_index (Ref s') = index
     \<and> sm_seg_is_valid crc (Ref s') = Some (if c = f (concat pieces) then 1 else 0)"
proof -
  let ?n = "length (concat pieces)"
  let ?s = "s\<lparr>sg_index := index, sg_addr := addr, sg_crc := c, sg_size := int ?n, sg_length := 0\<rparr>"
  have "seg_holds ?s []" using assms(1) by (intro seg_holds_Nil) simp_all
  then obtain s' where s': "seg_fill_pieces (Ref ?s) pieces = Some (Ref s')" "seg_holds s' (concat pieces)"
    "seg_info s' = seg_info ?s"
    using seg_fill_pieces_holds [of ?s "[]" pieces] assms(2) by auto
  then have "crc (sg_data s') (int ?n) = Some (f (concat pieces))"
    using assms(2,3) by (simp add: seg_holds_def)
  with s' show ?thesis
    by (auto simp: sm_seg_set_info_def seg_set_def seg_holds_def seg_info_def sm_seg_is_full_def
        sm_seg_get_addr_def sm_seg_get_index_def sm_seg_is_valid_def)
qed

definition blank_segment :: sm_segment where
  "blank_segment = deref (sm_seg_create True)"

lemma length_blank_segment: "length (sg_data blank_segment) = SM_SEGMENT_FW_SIZE"
  by (simp add: blank_segment_def sm_seg_create_def)

theorem segment_reassembles_witness:
  "\<exists>s'. seg_fill_pieces (snd (sm_seg_set_info (Ref blank_segment) 3 256 3 3)) [[1, 2], [9]] = Some (Ref s')
     \<and> take 3 (sg_data s') = [1, 2, 9]
     \<and> sm_seg_is_valid (\<lambda>m n. Some (of_int n)) (Ref s') = Some 1"
  using segment_reassembles [where s = blank_segment and pieces = "[[1, 2], [9]]" and c = 3
      and index = 3 and addr = 256 and f = "\<lambda>m. of_nat (length m)" and crc = "\<lambda>m n. Some (of_int n)"]
    length_blank_segment
  by (auto simp flip: numeral_3_eq_3)

text \<open> The bound test of \<open>sm_seg_fill_data\<close> comes after the write and compares with \<open>>\<close>: a full
  segment of the largest size that receives one more byte writes beyond its buffer.\<close>

theorem segment_overflow_by_one:
  assumes "seg_holds s ds" and "sg_size s = int SM_SEGMENT_FW_SIZE" and "length ds = SM_SEGMENT_FW_SIZE"
  shows "sm_seg_is_full (Ref s) = 1 \<and> sm_seg_fill_data (Ref s) [b] 1 = None"
  using assms by (simp add: sm_seg_is_full_def sm_seg_fill_data_def seg_holds_def mem_simps mem_set_def)

theorem segment_overflow_by_one_witness:
  "sm_seg_fill_data (Ref \<lparr>sg_addr = 0, sg_index = 0, sg_size = 1024, sg_length = 1024,
     sg_data = replicate 1024 7, sg_crc = 0, sg_is_last = 0\<rparr>) [1] 1 = None"
  using segment_overflow_by_one [of "\<lparr>sg_addr = 0, sg_index = 0, sg_size = 1024, sg_length = 1024,
     sg_data = replicate 1024 7, sg_crc = 0, sg_is_last = 0\<rparr>" "replicate 1024 7" 1]
  by (simp add: seg_holds_def)

end
