(* ===== verification/Bootloader.thy ===== *)
theory Bootloader
  imports Segment Timer
begin

section \<open>The bootloader\<close>

text \<open>
  Models \<^verbatim>\<open>common/upgrade/loader/boot_core\<close>: \<^verbatim>\<open>fw/sm_fw.c\<close> and \<^verbatim>\<open>sm_bootloader.c\<close>.
  The bootloader is a state machine (\<open>SM_BOOTLOADER_STT\<close>) driven by \<open>sm_bootloader_process\<close>
  and by the events its boot interfaces deliver. Everything it calls through function pointers
  (configuration, storage, jump and reboot, the procedures of a boot interface), the timer of
  \<^verbatim>\<open>sm_timer.h\<close> and the CRC of \<^verbatim>\<open>CRC.h\<close> (neither header is in the repository) are the fields
  of one environment record over a world \<open>'w\<close>. Boot interfaces and storages are addresses.
  The procedures of an interface act on the world, except \<open>process\<close>, which delivers events
  and therefore acts on the bootloader too.
\<close>

subsection \<open>Firmware objects\<close>

record sm_fw_signature =
  fs_version :: bytes
  fs_addr :: u32
  fs_size :: u32
  fs_crc :: u16
  fs_is_valid :: u8
  fs_is_first_time_update :: u8

record sm_fw =
  fw_store :: nat
  fw_signature :: sm_fw_signature

datatype SM_BOOTLOADER_STT =
    STT_INIT | STT_WAITING_CONDITION_BOOT | STT_PREPARING | STT_UPGRADING | STT_FINISH | STT_FAILURE

datatype SM_FIRMWARE_STT = FIRMWARE_VALID | FIRMWARE_INVALID

abbreviation SM_BOOT_INTERFACE_MAX_SUPPORT :: nat where "SM_BOOT_INTERFACE_MAX_SUPPORT \<equiv> 10"
abbreviation SM_BOOT_TIME_MIN :: u8 where "SM_BOOT_TIME_MIN \<equiv> 0"
abbreviation SM_BOOT_TIME_MAX :: u8 where "SM_BOOT_TIME_MAX \<equiv> 10"
abbreviation SM_BOOT_TIME_DEFAULT :: u8 where "SM_BOOT_TIME_DEFAULT \<equiv> 2"
abbreviation SM_BOOT_TIME_UPGRADING_MAX :: int where "SM_BOOT_TIME_UPGRADING_MAX \<equiv> 30"
abbreviation SM_BOOT_MAX_RETRY :: u8 where "SM_BOOT_MAX_RETRY \<equiv> 10"

record sm_bootloader =
  bl_boot_if :: "nat ptr list"
  bl_boot_if_active :: "nat ptr"
  bl_boot_if_number :: u8
  bl_boot_time :: u8
  bl_timeout :: elapsed_timer
  bl_retry :: u8
  bl_state :: SM_BOOTLOADER_STT
  bl_main_status :: SM_FIRMWARE_STT
  bl_sub_status :: SM_FIRMWARE_STT
  bl_new_firmware :: sm_fw_signature
  bl_main_app :: sm_fw
  bl_sub_app :: "sm_fw ptr"

text \<open>Data of an event: nothing, a signature, or a segment.\<close>

datatype event_data = No_data | Sign sm_fw_signature | Seg sm_segment

datatype boot_event =
    EVENT_REQUEST_UPGRADE | EVENT_NEW_FIRMWARE | EVENT_NEW_SEGMENT | EVENT_FINISH_DOWNLOAD
  | EVENT_FINISH_UPGRADE | EVENT_ABORT_UPGRADE

record 'w boot_env =
  e_crc :: "bytes \<Rightarrow> u32 \<Rightarrow> u16 option"
  e_timer_reset :: "elapsed_timer \<Rightarrow> 'w \<Rightarrow> elapsed_timer \<times> 'w"
  e_timer_resetz :: "elapsed_timer \<Rightarrow> int \<Rightarrow> 'w \<Rightarrow> elapsed_timer \<times> 'w"
  e_timer_remain :: "elapsed_timer \<Rightarrow> 'w \<Rightarrow> int \<times> 'w"
  e_get_flag :: "'w \<Rightarrow> int \<times> 'w"
  e_get_main_app_info :: "sm_fw_signature \<Rightarrow> 'w \<Rightarrow> sm_fw_signature \<times> 'w"
  e_set_main_app_info :: "sm_fw_signature \<Rightarrow> 'w \<Rightarrow> int \<times> 'w"
  e_get_sub_app_info :: "sm_fw_signature \<Rightarrow> 'w \<Rightarrow> sm_fw_signature \<times> 'w"
  e_set_sub_app_info :: "sm_fw_signature \<Rightarrow> 'w \<Rightarrow> int \<times> 'w"
  e_get_boot_time :: "'w \<Rightarrow> int \<times> 'w"
  e_set_boot_time :: "int \<Rightarrow> 'w \<Rightarrow> 'w"
  e_reboot :: "'w \<Rightarrow> 'w"
  e_jump :: "(int \<Rightarrow> 'w \<Rightarrow> 'w) ptr"
  e_storage_init :: "nat \<Rightarrow> 'w \<Rightarrow> 'w"
  e_storage_free :: "nat \<Rightarrow> 'w \<Rightarrow> 'w"
  e_storage_read :: "nat \<Rightarrow> u32 \<Rightarrow> 'w \<Rightarrow> bytes"
  e_write_segment :: "nat \<Rightarrow> u32 \<Rightarrow> bytes \<Rightarrow> 'w \<Rightarrow> int \<times> 'w"
  e_erase_full :: "nat \<Rightarrow> 'w \<Rightarrow> int \<times> 'w"
  e_if_init :: "nat \<Rightarrow> 'w \<Rightarrow> 'w"
  e_if_set_enable :: "nat \<Rightarrow> (bool \<Rightarrow> 'w \<Rightarrow> 'w) ptr"
  e_if_set_ready :: "nat \<Rightarrow> (bool \<Rightarrow> 'w \<Rightarrow> 'w) ptr"
  e_if_set_fw_valid :: "nat \<Rightarrow> bool \<Rightarrow> 'w \<Rightarrow> 'w"
  e_if_reg_event :: "nat \<Rightarrow> boot_event \<Rightarrow> 'w \<Rightarrow> 'w"
  e_if_process :: "nat \<Rightarrow> (sm_bootloader \<Rightarrow> 'w \<Rightarrow> (sm_bootloader \<times> 'w) option) ptr"

definition sm_fw_signature_clone :: "sm_fw_signature \<Rightarrow> sm_fw_signature ptr \<Rightarrow> int \<times> sm_fw_signature" where
  "sm_fw_signature_clone self other =
     (case other of
        NULL \<Rightarrow> (-1, self)
      | Ref s \<Rightarrow> (0, self\<lparr>fs_version := fs_version s, fs_addr := fs_addr s, fs_size := fs_size s,
          fs_crc := fs_crc s, fs_is_valid := fs_is_valid s,
          fs_is_first_time_update := fs_is_first_time_update s\<rparr>))"

definition sm_fw_create :: "'w boot_env \<Rightarrow> sm_fw ptr \<Rightarrow> nat ptr \<Rightarrow> 'w \<Rightarrow> sm_fw ptr \<times> 'w" where
  "sm_fw_create env mem mem_opt w =
     (case (mem_opt, mem) of
        (Ref st, Ref obj) \<Rightarrow>
          (Ref (obj\<lparr>fw_store := st,
             fw_signature := (fw_signature obj)\<lparr>fs_size := 0, fs_crc := 0, fs_is_valid := 0, fs_addr := 0\<rparr>\<rparr>),
           e_storage_init env st w)
      | _ \<Rightarrow> (NULL, w))"

definition sm_fw_destroy :: "'w boot_env \<Rightarrow> sm_fw ptr \<Rightarrow> 'w \<Rightarrow> int \<times> 'w" where
  "sm_fw_destroy env p w = (case p of NULL \<Rightarrow> (-1, w) | Ref fw \<Rightarrow> (0, e_storage_free env (fw_store fw) w))"

definition sm_fw_set_signature :: "sm_fw ptr \<Rightarrow> sm_fw_signature ptr \<Rightarrow> int \<times> sm_fw ptr" where
  "sm_fw_set_signature p sign =
     (case p of
        NULL \<Rightarrow> (-1, NULL)
      | Ref fw \<Rightarrow> (0, Ref (fw\<lparr>fw_signature := snd (sm_fw_signature_clone (fw_signature fw) sign)\<rparr>)))"

definition sm_fw_get_signature :: "sm_fw ptr \<Rightarrow> sm_fw_signature ptr" where
  "sm_fw_get_signature p = (case p of NULL \<Rightarrow> NULL | Ref fw \<Rightarrow> Ref (fw_signature fw))"

definition sm_fw_is_valid :: "'w boot_env \<Rightarrow> sm_fw ptr \<Rightarrow> 'w \<Rightarrow> int option" where
  "sm_fw_is_valid env p w =
     (case p of
        NULL \<Rightarrow> Some (-1)
      | Ref fw \<Rightarrow>
          let s = fw_signature fw in
          if fs_is_first_time_update s = 1 then Some 1
          else do {
            crc_val \<leftarrow> e_crc env (e_storage_read env (fw_store fw) (fs_addr s) w) (fs_size s);
            Some (if crc_val = fs_crc s then 1 else 0) })"

definition sm_fw_format :: "'w boot_env \<Rightarrow> sm_fw ptr \<Rightarrow> 'w \<Rightarrow> int \<times> 'w" where
  "sm_fw_format env p w = (case p of NULL \<Rightarrow> (-1, w) | Ref fw \<Rightarrow> e_erase_full env (fw_store fw) w)"

text \<open>Address and length of the segment reach the storage as \<open>uint32_t\<close>.\<close>

definition sm_fw_write_segment :: "'w boot_env \<Rightarrow> sm_fw ptr \<Rightarrow> sm_segment ptr \<Rightarrow> 'w \<Rightarrow> (int \<times> 'w) option" where
  "sm_fw_write_segment env p seg w =
     (case p of
        NULL \<Rightarrow> Some (-1, w)
      | Ref fw \<Rightarrow>
          (case seg of
             NULL \<Rightarrow> None
           | Ref s \<Rightarrow> do {
               code \<leftarrow> mem_read (sg_data s) 0 (unat (word_of_int (sg_length s) :: u32));
               Some (e_write_segment env (fw_store fw) (word_of_int (sg_addr s)) code w) }))"

text \<open>\<open>sm_fw_clone\<close> copies nothing and ends without a \<open>return\<close>; \<open>junk\<close> is its indeterminate value.\<close>

definition sm_fw_clone :: "int \<Rightarrow> sm_fw ptr \<Rightarrow> sm_fw ptr \<Rightarrow> int" where
  "sm_fw_clone junk self other = (case self of NULL \<Rightarrow> -1 | Ref _ \<Rightarrow> junk)"

subsection \<open>Creation and interfaces\<close>

text \<open>
  \<open>sm_bootloader_create\<close> and \<open>sm_bootloader_create_default\<close>; \<open>mem\<close> is the allocated or
  static object. They write the same fields.
\<close>

definition sm_bootloader_create ::
  "sm_bootloader ptr \<Rightarrow> bool \<Rightarrow> bool \<Rightarrow> sm_fw ptr \<Rightarrow> sm_fw ptr \<Rightarrow> sm_bootloader ptr" where
  "sm_bootloader_create mem config_ok if_ok main_app sub_app =
     (case (main_app, mem) of
        (Ref fw, Ref obj) \<Rightarrow>
          if \<not> config_ok \<or> \<not> if_ok then NULL
          else Ref (obj\<lparr>bl_main_app := fw, bl_sub_app := sub_app,
                 bl_boot_if := replicate SM_BOOT_INTERFACE_MAX_SUPPORT NULL,
                 bl_boot_if_active := NULL, bl_boot_if_number := 0, bl_boot_time := SM_BOOT_TIME_MIN,
                 bl_timeout := \<lparr>et_duration = 0, et_start_time = 0\<rparr>, bl_state := STT_INIT\<rparr>)
      | _ \<Rightarrow> NULL)"

definition sm_bootloader_destroy :: "sm_bootloader ptr \<Rightarrow> int" where
  "sm_bootloader_destroy p = (case p of NULL \<Rightarrow> -1 | Ref _ \<Rightarrow> 0)"

definition reg_all_events :: "'w boot_env \<Rightarrow> nat \<Rightarrow> 'w \<Rightarrow> 'w" where
  "reg_all_events env i w =
     fold (e_if_reg_event env i)
       [EVENT_REQUEST_UPGRADE, EVENT_NEW_FIRMWARE, EVENT_NEW_SEGMENT, EVENT_FINISH_DOWNLOAD,
        EVENT_FINISH_UPGRADE, EVENT_ABORT_UPGRADE] w"

fun add_boot_if_loop :: "'w boot_env \<Rightarrow> sm_bootloader \<Rightarrow> nat \<Rightarrow> nat list \<Rightarrow> 'w \<Rightarrow> int \<times> sm_bootloader \<times> 'w" where
  "add_boot_if_loop env b i [] w = (-1, b, w)"
| "add_boot_if_loop env b i (k # ks) w =
     (if is_null (bl_boot_if b ! k) then
        let w = reg_all_events env i w;
            w = (case e_if_set_enable env i of NULL \<Rightarrow> w | Ref f \<Rightarrow> f False w)
        in (0, b\<lparr>bl_boot_if := (bl_boot_if b)[k := Ref i], bl_boot_if_number := bl_boot_if_number b + 1\<rparr>, w)
      else add_boot_if_loop env b i ks w)"

definition sm_bootloader_add_boot_if ::
  "'w boot_env \<Rightarrow> sm_bootloader ptr \<Rightarrow> nat ptr \<Rightarrow> 'w \<Rightarrow> int \<times> sm_bootloader ptr \<times> 'w" where
  "sm_bootloader_add_boot_if env p boot_if w =
     (case (p, boot_if) of
        (Ref b, Ref i) \<Rightarrow>
          if of_nat SM_BOOT_INTERFACE_MAX_SUPPORT \<le> bl_boot_if_number b then (-1, p, w)
          else (case add_boot_if_loop env b i [0..<SM_BOOT_INTERFACE_MAX_SUPPORT] w of
                  (r, b, w) \<Rightarrow> (r, Ref b, w))
      | _ \<Rightarrow> (-1, p, w))"

definition sm_bootloader_reboot :: "'w boot_env \<Rightarrow> int \<Rightarrow> sm_bootloader ptr \<Rightarrow> 'w \<Rightarrow> int \<times> 'w" where
  "sm_bootloader_reboot env junk p w = (case p of NULL \<Rightarrow> (-1, w) | Ref b \<Rightarrow> (junk, e_reboot env w))"

definition sm_bootloader_jump_to_app ::
  "'w boot_env \<Rightarrow> sm_fw_signature \<Rightarrow> sm_bootloader ptr \<Rightarrow> 'w \<Rightarrow> (int \<times> 'w) option" where
  "sm_bootloader_jump_to_app env uninit p w =
     (case p of
        NULL \<Rightarrow> Some (-1, w)
      | Ref b \<Rightarrow>
          (case e_get_main_app_info env uninit w of (signature, w) \<Rightarrow>
             (case e_jump env of
                NULL \<Rightarrow> None
              | Ref jump \<Rightarrow> Some (0, jump (sint (fs_addr signature)) w))))"

text \<open>Calls over the table of interfaces. A missing procedure is a call through \<open>NULL\<close>.\<close>

fun for_ifs :: "(nat \<Rightarrow> 's \<Rightarrow> 's option) \<Rightarrow> nat ptr list \<Rightarrow> 's \<Rightarrow> 's option" where
  "for_ifs f [] s = Some s"
| "for_ifs f (p # ps) s =
     (case p of NULL \<Rightarrow> for_ifs f ps s | Ref i \<Rightarrow> do { s \<leftarrow> f i s; for_ifs f ps s })"

definition if_enable :: "'w boot_env \<Rightarrow> bool \<Rightarrow> nat \<Rightarrow> 'w \<Rightarrow> 'w option" where
  "if_enable env on i w = (case e_if_set_enable env i of NULL \<Rightarrow> None | Ref f \<Rightarrow> Some (f on w))"

subsection \<open>The states\<close>

definition sm_bootloader_rollback :: "'w boot_env \<Rightarrow> int \<Rightarrow> sm_fw_signature \<Rightarrow> sm_bootloader \<Rightarrow> 'w
    \<Rightarrow> (int \<times> sm_bootloader \<times> 'w) option" where
  "sm_bootloader_rollback env junk uninit b w =
     (let w = snd (sm_fw_format env (Ref (bl_main_app b)) w);
          (cur, w) = e_get_main_app_info env uninit w;
          w = snd (e_set_main_app_info env cur w)
      in
        if sm_fw_clone junk (Ref (bl_main_app b)) (bl_sub_app b) < 0 then Some (-1, b, w)
        else
          let signature = sm_fw_get_signature (bl_sub_app b);
              b = b\<lparr>bl_main_app := deref (snd (sm_fw_set_signature (Ref (bl_main_app b)) signature))\<rparr>
          in
            (case signature of
               NULL \<Rightarrow> None
             | Ref s \<Rightarrow>
                 (case e_set_main_app_info env s w of (r, w) \<Rightarrow>
                    if r < 0 then Some (-1, b, w) else Some (0, b, w))))"

definition sm_bootloader_backup :: "'w boot_env \<Rightarrow> int \<Rightarrow> sm_bootloader \<Rightarrow> 'w \<Rightarrow> int \<times> sm_bootloader \<times> 'w" where
  "sm_bootloader_backup env junk b w =
     (let w = snd (sm_fw_format env (bl_sub_app b) w) in
      if sm_fw_clone junk (bl_sub_app b) (Ref (bl_main_app b)) < 0 then (-1, b, w)
      else
        let s = fw_signature (bl_main_app b);
            b = b\<lparr>bl_sub_app := snd (sm_fw_set_signature (bl_sub_app b) (Ref s))\<rparr>
        in (case e_set_sub_app_info env s w of (r, w) \<Rightarrow> (if r < 0 then -1 else 0, b, w)))"

text \<open>The part of \<open>sm_bootloader_init\<close> from the label \<open>exit\<close> on.\<close>

definition bootloader_init_exit :: "'w boot_env \<Rightarrow> sm_bootloader \<Rightarrow> 'w \<Rightarrow> (sm_bootloader \<times> 'w) option" where
  "bootloader_init_exit env b w = do {
     let (t, w) = e_get_boot_time env w;
     let b = b\<lparr>bl_boot_time := word_of_int t\<rparr>;
     let (b, w) = (if SM_BOOT_TIME_MAX < bl_boot_time b
                   then (b\<lparr>bl_boot_time := SM_BOOT_TIME_DEFAULT\<rparr>, e_set_boot_time env (uint SM_BOOT_TIME_DEFAULT) w)
                   else (b, w));
     w \<leftarrow> for_ifs (\<lambda>i w. map_option (e_if_init env i) (if_enable env True i w)) (bl_boot_if b) w;
     let (t, w) = e_timer_resetz env (bl_timeout b) (uint (bl_boot_time b) * 1000) w;
     Some (b\<lparr>bl_timeout := t, bl_state := STT_WAITING_CONDITION_BOOT\<rparr>, w) }"

definition sm_bootloader_init :: "'w boot_env \<Rightarrow> int \<Rightarrow> sm_fw_signature \<Rightarrow> sm_bootloader \<Rightarrow> 'w
    \<Rightarrow> (sm_bootloader \<times> 'w) option" where
  "sm_bootloader_init env junk uninit b w = do {
     let (signature, w) = e_get_main_app_info env (uninit\<lparr>fs_is_first_time_update := 0\<rparr>) w;
     let b = b\<lparr>bl_main_app := deref (snd (sm_fw_set_signature (Ref (bl_main_app b)) (Ref signature)))\<rparr>;
     let (b, w) = (case bl_sub_app b of
                     NULL \<Rightarrow> (b, w)
                   | Ref sub \<Rightarrow>
                       (case e_get_sub_app_info env signature w of (signature, w) \<Rightarrow>
                          (b\<lparr>bl_sub_app := snd (sm_fw_set_signature (Ref sub) (Ref signature))\<rparr>, w)));
     let (flag, w) = e_get_flag env w;
     if flag \<noteq> 0 then bootloader_init_exit env (b\<lparr>bl_state := STT_PREPARING\<rparr>) w
     else do {
       main_valid \<leftarrow> sm_fw_is_valid env (Ref (bl_main_app b)) w;
       if main_valid = 0 then do {
         let b = b\<lparr>bl_main_status := FIRMWARE_INVALID\<rparr>;
         (case bl_sub_app b of
            NULL \<Rightarrow> bootloader_init_exit env b w
          | Ref sub \<Rightarrow> do {
              sub_valid \<leftarrow> sm_fw_is_valid env (Ref sub) w;
              if sub_valid \<noteq> 0 then bootloader_init_exit env b (snd (sm_fw_format env (Ref sub) w))
              else do {
                (_, b, w) \<leftarrow> sm_bootloader_rollback env junk uninit b w;
                bootloader_init_exit env b w } }) }
       else bootloader_init_exit env (b\<lparr>bl_main_status := FIRMWARE_VALID\<rparr>)
              (snd (sm_fw_format env (bl_sub_app b) w)) } }"

definition sm_bootloader_preparing :: "'w boot_env \<Rightarrow> int \<Rightarrow> sm_fw_signature \<Rightarrow> sm_bootloader \<Rightarrow> 'w
    \<Rightarrow> sm_bootloader \<times> 'w" where
  "sm_bootloader_preparing env junk uninit b w =
     (let (r, b, w) = sm_bootloader_backup env junk b w;
          b = (if r = 0 then b\<lparr>bl_state := STT_FAILURE\<rparr> else b);
          w = snd (sm_fw_format env (Ref (bl_main_app b)) w);
          (cur, w) = e_get_main_app_info env uninit w;
          w = snd (e_set_main_app_info env cur w);
          w = (case bl_boot_if_active b of
                 NULL \<Rightarrow> w
               | Ref i \<Rightarrow> (case e_if_set_ready env i of NULL \<Rightarrow> w | Ref f \<Rightarrow> f True w));
          (t, w) = e_timer_resetz env (bl_timeout b) (SM_BOOT_TIME_UPGRADING_MAX * 1000) w
      in (b\<lparr>bl_state := STT_UPGRADING, bl_retry := 0, bl_timeout := t\<rparr>, w))"

text \<open>One interface gets its turn while the bootloader waits.\<close>

definition poll_if :: "'w boot_env \<Rightarrow> nat \<Rightarrow> sm_bootloader \<times> 'w \<Rightarrow> (sm_bootloader \<times> 'w) option" where
  "poll_if env i s =
     (case e_if_process env i of
        NULL \<Rightarrow> Some s
      | Ref f \<Rightarrow> f ((fst s)\<lparr>bl_boot_if_active := Ref i\<rparr>) (snd s))"

definition bootloader_waiting :: "'w boot_env \<Rightarrow> sm_bootloader \<Rightarrow> 'w \<Rightarrow> (sm_bootloader \<times> 'w) option" where
  "bootloader_waiting env b w = do {
     (b, w) \<leftarrow> for_ifs (poll_if env) (bl_boot_if b) (b, w);
     let (remain, w) = e_timer_remain env (bl_timeout b) w;
     if remain \<noteq> 0 then Some (b, w)
     else if bl_main_status b = FIRMWARE_VALID then Some (b\<lparr>bl_state := STT_FINISH\<rparr>, w)
     else do {
       let b = b\<lparr>bl_retry := bl_retry b + 1\<rparr>;
       let w = (if SM_BOOT_MAX_RETRY \<le> bl_retry b then e_reboot env w else w);
       let (t, w) = e_timer_reset env (bl_timeout b) w;
       Some (b\<lparr>bl_timeout := t\<rparr>, w) } }"

definition sm_bootloader_process :: "'w boot_env \<Rightarrow> int \<Rightarrow> sm_fw_signature \<Rightarrow> sm_bootloader \<Rightarrow> 'w
    \<Rightarrow> (sm_bootloader \<times> 'w) option" where
  "sm_bootloader_process env junk uninit b w =
     (case bl_state b of
        STT_INIT \<Rightarrow> sm_bootloader_init env junk uninit b w
      | STT_PREPARING \<Rightarrow> Some (sm_bootloader_preparing env junk uninit b w)
      | STT_WAITING_CONDITION_BOOT \<Rightarrow> bootloader_waiting env b w
      | STT_UPGRADING \<Rightarrow>
          (case bl_boot_if_active b of
             NULL \<Rightarrow> None
           | Ref i \<Rightarrow>
               (case e_if_process env i of
                  NULL \<Rightarrow> None
                | Ref f \<Rightarrow> do {
                    (b, w) \<leftarrow> f b w;
                    let (remain, w) = e_timer_remain env (bl_timeout b) w;
                    Some (if remain = 0 then b\<lparr>bl_state := STT_FAILURE\<rparr> else b, w) }))
      | STT_FINISH \<Rightarrow>
          (case e_jump env of
             NULL \<Rightarrow> None
           | Ref jump \<Rightarrow> Some (b, jump (sint (fs_addr (bl_new_firmware b))) w))
      | STT_FAILURE \<Rightarrow>
          (case bl_boot_if_active b of
             NULL \<Rightarrow> None
           | Ref i \<Rightarrow> Some (b, e_reboot env (e_if_set_fw_valid env i False w))))"

subsection \<open>The event handlers\<close>

definition handle_request_upgrade :: "'w boot_env \<Rightarrow> sm_bootloader \<Rightarrow> 'w \<Rightarrow> (int \<times> sm_bootloader \<times> 'w) option" where
  "handle_request_upgrade env b w =
     (if bl_state b \<noteq> STT_WAITING_CONDITION_BOOT then Some (-1, b, w)
      else do {
        w \<leftarrow> for_ifs (if_enable env False) (bl_boot_if b) w;
        w \<leftarrow> (case bl_boot_if_active b of NULL \<Rightarrow> Some w | Ref i \<Rightarrow> if_enable env True i w);
        Some (0, b\<lparr>bl_state := STT_PREPARING\<rparr>, w) })"

definition handle_new_fw :: "'w boot_env \<Rightarrow> sm_fw_signature \<Rightarrow> sm_bootloader \<Rightarrow> 'w \<Rightarrow> int \<times> sm_bootloader \<times> 'w" where
  "handle_new_fw env sign b w =
     (if bl_state b \<noteq> STT_UPGRADING then (-1, b, w)
      else
        let b = b\<lparr>bl_new_firmware := snd (sm_fw_signature_clone (bl_new_firmware b) (Ref sign)),
                  bl_main_app := deref (snd (sm_fw_set_signature (Ref (bl_main_app b)) (Ref sign)))\<rparr>;
            (t, w) = e_timer_reset env (bl_timeout b) w
        in (0, b\<lparr>bl_timeout := t\<rparr>, w))"

definition handle_new_segment :: "'w boot_env \<Rightarrow> sm_segment \<Rightarrow> sm_bootloader \<Rightarrow> 'w
    \<Rightarrow> (int \<times> sm_bootloader \<times> 'w) option" where
  "handle_new_segment env seg b w =
     (if bl_state b \<noteq> STT_UPGRADING then Some (-1, b, w)
      else do {
        let (t, w) = e_timer_reset env (bl_timeout b) w;
        (r, w) \<leftarrow> sm_fw_write_segment env (Ref (bl_main_app b)) (Ref seg) w;
        Some (r, b\<lparr>bl_timeout := t\<rparr>, w) })"

definition handle_finish_download :: "'w boot_env \<Rightarrow> sm_fw_signature \<Rightarrow> sm_bootloader \<Rightarrow> 'w
    \<Rightarrow> (int \<times> sm_bootloader \<times> 'w) option" where
  "handle_finish_download env sign b w =
     (if bl_state b \<noteq> STT_UPGRADING then Some (-1, b\<lparr>bl_state := STT_FAILURE\<rparr>, w)
      else do {
        let b = b\<lparr>bl_main_app := deref (snd (sm_fw_set_signature (Ref (bl_main_app b)) (Ref sign)))\<rparr>;
        valid \<leftarrow> sm_fw_is_valid env (Ref (bl_main_app b)) w;
        if valid = 0 then Some (-1, b\<lparr>bl_state := STT_FAILURE\<rparr>, w)
        else (case bl_boot_if_active b of
                NULL \<Rightarrow> None
              | Ref i \<Rightarrow> Some (0, b, e_if_set_fw_valid env i True w)) })"

text \<open>The loop writes the signature five times whatever the results; the last one counts.\<close>

fun set_main_info_times :: "'w boot_env \<Rightarrow> sm_fw_signature \<Rightarrow> nat \<Rightarrow> int \<Rightarrow> 'w \<Rightarrow> int \<times> 'w" where
  "set_main_info_times env s 0 ret w = (ret, w)"
| "set_main_info_times env s (Suc n) ret w =
     (case e_set_main_app_info env s w of (ret, w) \<Rightarrow> set_main_info_times env s n ret w)"

definition handle_finish_upgrade :: "'w boot_env \<Rightarrow> sm_bootloader \<Rightarrow> 'w \<Rightarrow> int \<times> sm_bootloader \<times> 'w" where
  "handle_finish_upgrade env b w =
     (if bl_state b \<noteq> STT_UPGRADING then (-1, b\<lparr>bl_state := STT_FAILURE\<rparr>, w)
      else
        let (ret, w) = set_main_info_times env (bl_new_firmware b) 5 (-1) w in
        if ret < 0 then (ret, b\<lparr>bl_state := STT_FAILURE\<rparr>, w)
        else let (t, w) = e_timer_reset env (bl_timeout b) w
             in (0, b\<lparr>bl_state := STT_FINISH, bl_timeout := t\<rparr>, w))"

definition handle_abort :: "sm_bootloader \<Rightarrow> 'w \<Rightarrow> int \<times> sm_bootloader \<times> 'w" where
  "handle_abort b w = (0, b\<lparr>bl_state := STT_FAILURE\<rparr>, w)"

text \<open>The six callbacks that \<open>sm_bootloader_add_boot_if\<close> registers, by event.\<close>

definition bootloader_handle :: "'w boot_env \<Rightarrow> boot_event \<Rightarrow> event_data \<Rightarrow> sm_bootloader \<times> 'w
    \<Rightarrow> (int \<times> sm_bootloader \<times> 'w) option" where
  "bootloader_handle env ev d s =
     (case (ev, d) of
        (EVENT_REQUEST_UPGRADE, _) \<Rightarrow> handle_request_upgrade env (fst s) (snd s)
      | (EVENT_NEW_FIRMWARE, Sign x) \<Rightarrow> Some (handle_new_fw env x (fst s) (snd s))
      | (EVENT_NEW_SEGMENT, Seg x) \<Rightarrow> handle_new_segment env x (fst s) (snd s)
      | (EVENT_FINISH_DOWNLOAD, Sign x) \<Rightarrow> handle_finish_download env x (fst s) (snd s)
      | (EVENT_FINISH_UPGRADE, _) \<Rightarrow> Some (handle_finish_upgrade env (fst s) (snd s))
      | (EVENT_ABORT_UPGRADE, _) \<Rightarrow> Some (handle_abort (fst s) (snd s))
      | _ \<Rightarrow> None)"

subsection \<open>Transitions\<close>

text \<open>The state changes an event may cause.\<close>

inductive boot_edge :: "boot_event \<Rightarrow> SM_BOOTLOADER_STT \<Rightarrow> SM_BOOTLOADER_STT \<Rightarrow> bool" where
  accept_request: "boot_edge EVENT_REQUEST_UPGRADE STT_WAITING_CONDITION_BOOT STT_PREPARING"
| refuse_request: "s \<noteq> STT_WAITING_CONDITION_BOOT \<Longrightarrow> boot_edge EVENT_REQUEST_UPGRADE s s"
| firmware: "boot_edge EVENT_NEW_FIRMWARE s s"
| segment: "boot_edge EVENT_NEW_SEGMENT s s"
| downloaded: "boot_edge EVENT_FINISH_DOWNLOAD STT_UPGRADING STT_UPGRADING"
| download_failed: "boot_edge EVENT_FINISH_DOWNLOAD s STT_FAILURE"
| upgraded: "boot_edge EVENT_FINISH_UPGRADE STT_UPGRADING STT_FINISH"
| upgrade_failed: "boot_edge EVENT_FINISH_UPGRADE s STT_FAILURE"
| abort: "boot_edge EVENT_ABORT_UPGRADE s STT_FAILURE"

inductive_cases boot_edge_to_UPGRADING: "boot_edge ev s STT_UPGRADING"
inductive_cases boot_edge_to_FINISH: "boot_edge ev s STT_FINISH"

lemma boot_edge_upgrading: "boot_edge ev s STT_UPGRADING \<Longrightarrow> s = STT_UPGRADING"
  by (erule boot_edge_to_UPGRADING) auto

lemma boot_edge_finish: "boot_edge ev s STT_FINISH \<Longrightarrow> s = STT_UPGRADING \<and> ev = EVENT_FINISH_UPGRADE \<or> s = STT_FINISH"
  by (erule boot_edge_to_FINISH) auto

lemma handle_edge:
  assumes "bootloader_handle env ev d (b, w) = Some (r, b', w')"
  shows "boot_edge ev (bl_state b) (bl_state b')"
proof (cases ev)
  case EVENT_REQUEST_UPGRADE
  with assms show ?thesis
    by (auto simp: bootloader_handle_def handle_request_upgrade_def bind_eq_Some_conv
        intro: boot_edge.intros split: if_splits)
next
  case EVENT_NEW_FIRMWARE
  with assms show ?thesis
    by (auto simp: bootloader_handle_def handle_new_fw_def Let_def
        intro: boot_edge.intros split: event_data.splits if_splits prod.splits)
next
  case EVENT_NEW_SEGMENT
  with assms show ?thesis
    by (auto simp: bootloader_handle_def handle_new_segment_def Let_def bind_eq_Some_conv
        intro: boot_edge.intros split: event_data.splits if_splits prod.splits)
next
  case EVENT_FINISH_DOWNLOAD
  with assms show ?thesis
    by (auto simp: bootloader_handle_def handle_finish_download_def Let_def bind_eq_Some_conv
        intro: boot_edge.intros split: event_data.splits if_splits ptr.splits)
next
  case EVENT_FINISH_UPGRADE
  with assms show ?thesis
    by (auto simp: bootloader_handle_def handle_finish_upgrade_def Let_def
        intro: boot_edge.intros split: event_data.splits if_splits prod.splits)
next
  case EVENT_ABORT_UPGRADE
  with assms show ?thesis
    by (auto simp: bootloader_handle_def handle_abort_def intro: boot_edge.intros split: event_data.splits)
qed

lemma signature_clone [simp]: "sm_fw_signature_clone s (Ref x) = (0, x)"
  by (cases s; cases x) (simp add: sm_fw_signature_clone_def)

text \<open>A sequence of events, each handled on the state the previous one left.\<close>

fun deliver :: "'w boot_env \<Rightarrow> (boot_event \<times> event_data) list \<Rightarrow> sm_bootloader \<times> 'w \<Rightarrow> (int list \<times> sm_bootloader \<times> 'w) option" where
  "deliver env [] s = Some ([], s)"
| "deliver env ((ev, d) # evs) s = do {
     (r, s) \<leftarrow> bootloader_handle env ev d s;
     (rs, s) \<leftarrow> deliver env evs s;
     Some (r # rs, s) }"

lemma deliver_before_upgrading:
  assumes "deliver env evs (b, w) = Some (rs, b', w')" "bl_state b \<noteq> STT_UPGRADING" "bl_state b \<noteq> STT_FINISH"
  shows "bl_state b' \<noteq> STT_UPGRADING \<and> bl_state b' \<noteq> STT_FINISH"
  using assms
proof (induction evs arbitrary: b w rs)
  case (Cons e evs)
  obtain ev d where e: "e = (ev, d)" by fastforce
  obtain r b1 w1 rs1 where h: "bootloader_handle env ev d (b, w) = Some (r, b1, w1)"
    "deliver env evs (b1, w1) = Some (rs1, b', w')"
    using Cons.prems(1) e by (auto simp: bind_eq_Some_conv)
  have "boot_edge ev (bl_state b) (bl_state b1)" using handle_edge h(1) .
  then have "bl_state b1 \<noteq> STT_UPGRADING" "bl_state b1 \<noteq> STT_FINISH"
    using Cons.prems(2,3) boot_edge_upgrading boot_edge_finish by metis+
  with Cons.IH h(2) show ?case by blast
qed simp

text \<open>An environment whose world is the list of the jump addresses and reboots (-1) so far.\<close>

definition quiet_env :: "int list boot_env" where
  "quiet_env = \<lparr>e_crc = \<lambda>bs n. Some (of_nat (length bs)), e_timer_reset = \<lambda>t w. (t, w),
     e_timer_resetz = \<lambda>t d w. (t, w), e_timer_remain = \<lambda>t w. (0, w), e_get_flag = \<lambda>w. (0, w),
     e_get_main_app_info = \<lambda>s w. (s\<lparr>fs_addr := 0x8000, fs_size := 4, fs_crc := 4\<rparr>, w),
     e_set_main_app_info = \<lambda>s w. (0, w), e_get_sub_app_info = \<lambda>s w. (s, w),
     e_set_sub_app_info = \<lambda>s w. (0, w), e_get_boot_time = \<lambda>w. (2, w), e_set_boot_time = \<lambda>n w. w,
     e_reboot = \<lambda>w. -1 # w, e_jump = Ref (\<lambda>a w. a # w), e_storage_init = \<lambda>n w. w,
     e_storage_free = \<lambda>n w. w, e_storage_read = \<lambda>n a w. [1, 2, 3, 4],
     e_write_segment = \<lambda>n a d w. (0, w), e_erase_full = \<lambda>n w. (0, w), e_if_init = \<lambda>i w. w,
     e_if_set_enable = \<lambda>i. Ref (\<lambda>on w. w), e_if_set_ready = \<lambda>i. NULL, e_if_set_fw_valid = \<lambda>i ok w. w,
     e_if_reg_event = \<lambda>i ev w. w, e_if_process = \<lambda>i. NULL\<rparr>"

definition blank_signature :: sm_fw_signature where
  "blank_signature = \<lparr>fs_version = [0, 0, 0], fs_addr = 0, fs_size = 0, fs_crc = 0, fs_is_valid = 0,
     fs_is_first_time_update = 0\<rparr>"

definition demo_bootloader :: "SM_BOOTLOADER_STT \<Rightarrow> sm_bootloader" where
  "demo_bootloader st = \<lparr>bl_boot_if = replicate 10 NULL, bl_boot_if_active = Ref 7, bl_boot_if_number = 0,
     bl_boot_time = 0, bl_timeout = \<lparr>et_duration = 0, et_start_time = 0\<rparr>, bl_retry = 0, bl_state = st,
     bl_main_status = FIRMWARE_VALID, bl_sub_status = FIRMWARE_VALID, bl_new_firmware = blank_signature,
     bl_main_app = \<lparr>fw_store = 1, fw_signature = blank_signature\<rparr>, bl_sub_app = NULL\<rparr>"

subsection \<open>Properties\<close>

text \<open>C35: Events alone never start or finish an upgrade: from any state other than upgrading and
  finished, after any sequence of events with any data the bootloader is still not upgrading
  and not finished (the preparing step, which erases the partition, cannot be skipped), and
  in such a state a new firmware or segment is refused with -1 and changes nothing.\<close>

theorem bootloader_events_cannot_skip_preparing:
  assumes "deliver env evs (b, w) = Some (rs, b', w')"
    and "bl_state b \<noteq> STT_UPGRADING" and "bl_state b \<noteq> STT_FINISH"
  shows "bl_state b' \<noteq> STT_UPGRADING \<and> bl_state b' \<noteq> STT_FINISH
     \<and> bootloader_handle env EVENT_NEW_FIRMWARE (Sign sign) (b', w') = Some (-1, b', w')
     \<and> bootloader_handle env EVENT_NEW_SEGMENT (Seg seg) (b', w') = Some (-1, b', w')"
  using deliver_before_upgrading [OF assms]
  by (simp add: bootloader_handle_def handle_new_fw_def handle_new_segment_def)

theorem bootloader_events_cannot_skip_preparing_witness:
  "\<exists>rs b' w'. deliver quiet_env [(EVENT_REQUEST_UPGRADE, No_data), (EVENT_FINISH_UPGRADE, No_data)]
       (demo_bootloader STT_WAITING_CONDITION_BOOT, []) = Some (rs, b', w')
     \<and> bl_state b' \<noteq> STT_UPGRADING \<and> bl_state b' \<noteq> STT_FINISH"
proof -
  have "for_ifs f (replicate n NULL) s = Some s" for f n and s :: "int list" by (induction n) simp_all
  then have "\<exists>rs b' w'. deliver quiet_env [(EVENT_REQUEST_UPGRADE, No_data), (EVENT_FINISH_UPGRADE, No_data)]
       (demo_bootloader STT_WAITING_CONDITION_BOOT, []) = Some (rs, b', w')"
    by (simp add: bootloader_handle_def handle_request_upgrade_def handle_finish_upgrade_def demo_bootloader_def
        if_enable_def quiet_env_def)
  then show ?thesis
    using bootloader_events_cannot_skip_preparing
      [of quiet_env "[(EVENT_REQUEST_UPGRADE, No_data), (EVENT_FINISH_UPGRADE, No_data)]"
        "demo_bootloader STT_WAITING_CONDITION_BOOT" "[]"]
    by (fastforce simp: demo_bootloader_def)
qed

text \<open>C34: The end of a download accepts the image only if it is intact: in the upgrading state, with
  an active interface, the handler takes over the announced signature and returns 0 exactly when the
  CRC of the announced number of bytes read back from the storage at the announced address is the
  announced CRC (or the signature says first update); otherwise it returns -1 and the bootloader fails.\<close>

theorem bootloader_accepts_only_intact_image:
  assumes "bl_state b = STT_UPGRADING" and "bl_boot_if_active b = Ref i"
    and "e_crc env (e_storage_read env (fw_store (bl_main_app b)) (fs_addr sign) w) (fs_size sign) = Some c"
  shows "\<exists>b' w'. bootloader_handle env EVENT_FINISH_DOWNLOAD (Sign sign) (b, w) =
       Some (if fs_is_first_time_update sign = 1 \<or> c = fs_crc sign then 0 else -1, b', w')
     \<and> bl_state b' = (if fs_is_first_time_update sign = 1 \<or> c = fs_crc sign then STT_UPGRADING else STT_FAILURE)
     \<and> fw_signature (bl_main_app b') = sign"
  using assms
  by (simp add: bootloader_handle_def handle_finish_download_def sm_fw_set_signature_def
      sm_fw_signature_clone_def sm_fw_is_valid_def Let_def)

theorem bootloader_accepts_only_intact_image_witness:
  "\<exists>b' w'. bootloader_handle quiet_env EVENT_FINISH_DOWNLOAD (Sign blank_signature) (demo_bootloader STT_UPGRADING, [])
     = Some (-1, b', w') \<and> bl_state b' = STT_FAILURE"
  using bootloader_accepts_only_intact_image [of "demo_bootloader STT_UPGRADING" 7 quiet_env blank_signature "[]" 4]
  by (auto simp: demo_bootloader_def quiet_env_def blank_signature_def)

lemma init_exit_state: "bootloader_init_exit env b w = Some (b', w') \<Longrightarrow> bl_state b' = STT_WAITING_CONDITION_BOOT"
  by (auto simp: bootloader_init_exit_def Let_def bind_eq_Some_conv prod.case_eq_if split: if_splits)

text \<open> The upgrade flag of older versions has no effect: although \<open>sm_bootloader_init\<close> enters the
  preparing state when the flag is set, every run of it ends in the waiting state, because the
  code at the label \<open>exit\<close> overwrites the state.\<close>

theorem bootloader_flag_is_lost:
  assumes "sm_bootloader_init env junk uninit b w = Some (b', w')"
  shows "bl_state b' = STT_WAITING_CONDITION_BOOT"
  using assms
  by (auto simp: sm_bootloader_init_def Let_def bind_eq_Some_conv prod.case_eq_if dest: init_exit_state
      split: if_splits ptr.splits)

lemma for_ifs_NULL [simp]: "for_ifs f (replicate n NULL) s = Some s"
  by (induction n) simp_all

lemma init_exit_no_ifs:
  assumes "bl_boot_if b = replicate n NULL"
  shows "\<exists>b' w'. bootloader_init_exit env b w = Some (b', w') \<and> bl_state b' = STT_WAITING_CONDITION_BOOT
     \<and> bl_boot_if b' = replicate n NULL \<and> bl_main_status b' = bl_main_status b
     \<and> bl_new_firmware b' = bl_new_firmware b"
  using assms by (auto simp: bootloader_init_exit_def Let_def prod.case_eq_if)

theorem bootloader_flag_is_lost_witness:
  "\<exists>b' w'. sm_bootloader_init (quiet_env\<lparr>e_get_flag := \<lambda>w. (1, w)\<rparr>) 0 blank_signature (demo_bootloader STT_INIT) []
      = Some (b', w') \<and> bl_state b' = STT_WAITING_CONDITION_BOOT"
proof -
  obtain b' w' where "sm_bootloader_init (quiet_env\<lparr>e_get_flag := \<lambda>w. (1, w)\<rparr>) 0 blank_signature
      (demo_bootloader STT_INIT) [] = Some (b', w')"
    by (simp add: sm_bootloader_init_def bootloader_init_exit_def quiet_env_def demo_bootloader_def Let_def)
  with bootloader_flag_is_lost [OF this] show ?thesis by blast
qed

text \<open> A normal start jumps to the wrong address. With a valid main application and no upgrade, the
  bootloader goes from initialisation through waiting to finish and then jumps to the address in
  \<open>m_new_firmware\<close>, which only an upgrade sets: the address is whatever the allocated object
  held, not the main application's.\<close>

theorem bootloader_jumps_to_stale_address:
  assumes "sm_bootloader_create (Ref obj) True True (Ref fw) NULL = Ref b0"
    and "\<forall>w. fst (e_get_flag env w) = 0"
    and "sign = fst (e_get_main_app_info env (uninit\<lparr>fs_is_first_time_update := 0\<rparr>) w)"
    and "\<forall>w. sm_fw_is_valid env (Ref (fw\<lparr>fw_signature := sign\<rparr>)) w = Some 1"
    and "\<forall>t w. fst (e_timer_remain env t w) = 0" and "e_jump env = Ref jump"
  shows "\<exists>b1 w1 b2 w2. sm_bootloader_process env junk uninit b0 w = Some (b1, w1)
     \<and> sm_bootloader_process env junk uninit b1 w1 = Some (b2, w2)
     \<and> sm_bootloader_process env junk uninit b2 w2 = Some (b2, jump (sint (fs_addr (bl_new_firmware obj))) w2)"
proof -
  have b0: "bl_state b0 = STT_INIT" "bl_sub_app b0 = NULL" "bl_boot_if b0 = replicate 10 NULL"
    "bl_new_firmware b0 = bl_new_firmware obj" "bl_main_app b0 = fw"
    using assms(1) by (auto simp: sm_bootloader_create_def)
  from b0 obtain b1 w1 where s1: "sm_bootloader_process env junk uninit b0 w = Some (b1, w1)"
    "bl_state b1 = STT_WAITING_CONDITION_BOOT" "bl_boot_if b1 = replicate 10 NULL"
    "bl_main_status b1 = FIRMWARE_VALID" "bl_new_firmware b1 = bl_new_firmware obj"
  proof -
    let ?b = "b0\<lparr>bl_main_app := fw\<lparr>fw_signature := sign\<rparr>, bl_main_status := FIRMWARE_VALID\<rparr>"
    let ?w = "snd (e_get_main_app_info env (uninit\<lparr>fs_is_first_time_update := 0\<rparr>) w)"
    let ?v = "snd (sm_fw_format env NULL (snd (e_get_flag env ?w)))"
    have "sm_bootloader_process env junk uninit b0 w = bootloader_init_exit env ?b ?v"
      using b0 assms(2-4)
      by (simp add: sm_bootloader_process_def sm_bootloader_init_def sm_fw_set_signature_def
          prod.case_eq_if Let_def)
    moreover have "bl_boot_if ?b = replicate 10 NULL" using b0 by simp
    from init_exit_no_ifs [OF this, of env ?v]
    obtain b1 w1 where "bootloader_init_exit env ?b ?v = Some (b1, w1)"
      "bl_state b1 = STT_WAITING_CONDITION_BOOT" "bl_boot_if b1 = replicate 10 NULL"
      "bl_main_status b1 = bl_main_status ?b" "bl_new_firmware b1 = bl_new_firmware ?b" by blast
    ultimately show thesis using that [of b1 w1] b0(4) by simp
  qed
  then obtain b2 w2 where s2: "sm_bootloader_process env junk uninit b1 w1 = Some (b2, w2)"
    "bl_state b2 = STT_FINISH" "bl_new_firmware b2 = bl_new_firmware obj"
    using assms(5)
    by (auto simp: sm_bootloader_process_def bootloader_waiting_def prod.case_eq_if Let_def)
  moreover have "sm_bootloader_process env junk uninit b2 w2 = Some (b2, jump (sint (fs_addr (bl_new_firmware obj))) w2)"
    using s2 assms(6) by (simp add: sm_bootloader_process_def)
  ultimately show ?thesis using s1(1) by blast
qed

theorem bootloader_jumps_to_stale_address_witness:
  "\<exists>b0 b1 w1 b2 w2. sm_bootloader_create (Ref (demo_bootloader STT_INIT)) True True
       (Ref \<lparr>fw_store = 1, fw_signature = blank_signature\<rparr>) NULL = Ref b0
     \<and> sm_bootloader_process quiet_env 0 blank_signature b0 [] = Some (b1, w1)
     \<and> sm_bootloader_process quiet_env 0 blank_signature b1 w1 = Some (b2, w2)
     \<and> sm_bootloader_process quiet_env 0 blank_signature b2 w2 = Some (b2, 0 # w2)"
proof -
  have "\<exists>b0. sm_bootloader_create (Ref (demo_bootloader STT_INIT)) True True
       (Ref \<lparr>fw_store = 1, fw_signature = blank_signature\<rparr>) NULL = Ref b0"
    by (simp add: sm_bootloader_create_def)
  moreover have "fs_addr (bl_new_firmware (demo_bootloader STT_INIT)) = 0"
    by (simp add: demo_bootloader_def blank_signature_def)
  ultimately show ?thesis
    using bootloader_jumps_to_stale_address [of "demo_bootloader STT_INIT"
        "\<lparr>fw_store = 1, fw_signature = blank_signature\<rparr>" _ quiet_env _ blank_signature "[]" "\<lambda>a w. a # w" 0]
    by (fastforce simp: quiet_env_def sm_fw_is_valid_def blank_signature_def Let_def)
qed

end
