(* ===== verification/Boot_Host.thy ===== *)
theory Boot_Host
  imports Bootloader
begin

section \<open>The boot interface over the host protocol\<close>

text \<open>
  Models \<^verbatim>\<open>common/upgrade/loader/boot_interface/sm_boot_host.c\<close>: the command handler it
  registers with the host protocol decodes upgrade commands into the events of the
  bootloader. The handlers act on a state \<open>'s\<close> that holds the bootloader and the world, and
  the host that sends the responses. \<open>sm_getUint32\<close> and \<open>sm_getUint16\<close> come from
  \<^verbatim>\<open>sm_memory.h\<close>, which is not in the repository; they are the parameters \<open>get32\<close> and \<open>get16\<close>.
  The data argument is the memory from \<open>_data\<close> on, which may be longer than \<open>_data_len\<close>.
\<close>

abbreviation SM_CMD_UPGRADE_FW :: int where "SM_CMD_UPGRADE_FW \<equiv> 0x08"
abbreviation SM_SUB_CMD_REQUEST :: u8 where "SM_SUB_CMD_REQUEST \<equiv> 0"
abbreviation SM_SUB_CMD_FW_INFO :: u8 where "SM_SUB_CMD_FW_INFO \<equiv> 1"
abbreviation SM_SUB_CMD_SEND_SEGMENT_INFO :: u8 where "SM_SUB_CMD_SEND_SEGMENT_INFO \<equiv> 3"
abbreviation SM_SUB_CMD_SEND_SEGMENT_DATA :: u8 where "SM_SUB_CMD_SEND_SEGMENT_DATA \<equiv> 4"
abbreviation SM_RES_NONE :: int where "SM_RES_NONE \<equiv> 0"
abbreviation SM_RES_ERR_COMMON :: int where "SM_RES_ERR_COMMON \<equiv> 1"
abbreviation SM_BOOT_EVENT_NUMBER :: nat where "SM_BOOT_EVENT_NUMBER \<equiv> 6"

type_synonym 's boot_handler = "event_data \<Rightarrow> 's \<Rightarrow> (int \<times> 's) option"

record 's sm_boot_host =
  bh_handles :: "'s boot_handler ptr list"
  bh_fw_signature :: sm_fw_signature
  bh_segment :: "sm_segment ptr"
  bh_enable :: bool

fun event_index :: "boot_event \<Rightarrow> nat" where
  "event_index EVENT_REQUEST_UPGRADE = 0"
| "event_index EVENT_NEW_FIRMWARE = 1"
| "event_index EVENT_NEW_SEGMENT = 2"
| "event_index EVENT_FINISH_DOWNLOAD = 3"
| "event_index EVENT_FINISH_UPGRADE = 4"
| "event_index EVENT_ABORT_UPGRADE = 5"

text \<open>
  Creation; the loop that should clear the handler table assigns \<open>m_handles->\<close>, the first
  element, every time, so the other five keep what the memory held.
\<close>

definition sm_boot_host_create :: "'s sm_boot_host ptr \<Rightarrow> bool \<Rightarrow> sm_segment ptr \<Rightarrow> 's sm_boot_host ptr" where
  "sm_boot_host_create mem host_ok segment =
     (case mem of
        NULL \<Rightarrow> NULL
      | Ref obj \<Rightarrow>
          if \<not> host_ok then NULL
          else Ref (obj\<lparr>bh_handles := (bh_handles obj)[0 := NULL], bh_enable := False, bh_segment := segment\<rparr>))"

definition sm_boot_host_enable :: "'s sm_boot_host ptr \<Rightarrow> bool \<Rightarrow> int \<times> 's sm_boot_host ptr" where
  "sm_boot_host_enable p on = (case p of NULL \<Rightarrow> (-1, NULL) | Ref h \<Rightarrow> (0, Ref (h\<lparr>bh_enable := on\<rparr>)))"

definition sm_boot_host_reg_event_callback ::
  "'s sm_boot_host ptr \<Rightarrow> nat \<Rightarrow> 's boot_handler ptr \<Rightarrow> int \<times> 's sm_boot_host ptr" where
  "sm_boot_host_reg_event_callback p event callback =
     (case p of
        NULL \<Rightarrow> (-1, NULL)
      | Ref h \<Rightarrow>
          if is_null callback \<or> SM_BOOT_EVENT_NUMBER \<le> event then (-1, p)
          else (0, Ref (h\<lparr>bh_handles := (bh_handles h)[event := callback]\<rparr>)))"

text \<open>\<open>sm_boot_host_process\<close> runs the host protocol when the interface is enabled.\<close>

definition sm_boot_host_process :: "('s \<Rightarrow> 's option) \<Rightarrow> 's sm_boot_host ptr \<Rightarrow> 's \<Rightarrow> (int \<times> 's) option" where
  "sm_boot_host_process host_process p s =
     (case p of
        NULL \<Rightarrow> Some (-1, s)
      | Ref h \<Rightarrow> if \<not> bh_enable h then Some (-1, s) else map_option (Pair 0) (host_process s))"

text \<open>A call of the handler of an event when there is one; else \<open>ret\<close> stays.\<close>

definition raise :: "'s sm_boot_host \<Rightarrow> boot_event \<Rightarrow> event_data \<Rightarrow> int \<Rightarrow> 's \<Rightarrow> (int \<times> 's) option" where
  "raise h ev d ret s =
     (case bh_handles h ! event_index ev of NULL \<Rightarrow> Some (ret, s) | Ref f \<Rightarrow> f d s)"

definition cmd_fw_info :: "(bytes \<Rightarrow> u32) \<Rightarrow> (bytes \<Rightarrow> u16) \<Rightarrow> bytes \<Rightarrow> 's sm_boot_host \<Rightarrow> 's
    \<Rightarrow> (int \<times> 's sm_boot_host \<times> 's) option" where
  "cmd_fw_info get32 get16 data h s = do {
     version \<leftarrow> mem_read data 1 3;
     size4 \<leftarrow> mem_read data 4 4;
     addr4 \<leftarrow> mem_read data 8 4;
     crc2 \<leftarrow> mem_read data 12 2;
     let sign = (bh_fw_signature h)\<lparr>fs_version := version, fs_size := get32 size4, fs_addr := get32 addr4,
                  fs_crc := get16 crc2\<rparr>;
     let h = h\<lparr>bh_fw_signature := sign\<rparr>;
     (ret, s) \<leftarrow> raise h EVENT_NEW_FIRMWARE (Sign sign) 0 s;
     if is_null (bh_handles h ! event_index EVENT_FINISH_DOWNLOAD) then Some (ret, h, s)
     else do {
       (ret, s) \<leftarrow> raise h EVENT_FINISH_DOWNLOAD (Sign sign) ret s;
       if 0 \<le> ret then do {
         (ret, s) \<leftarrow> raise h EVENT_FINISH_UPGRADE (Sign sign) ret s;
         Some (ret, h, s) }
       else Some (ret, h, s) } }"

definition cmd_segment_info :: "(bytes \<Rightarrow> u32) \<Rightarrow> (bytes \<Rightarrow> u16) \<Rightarrow> bytes \<Rightarrow> 's sm_boot_host
    \<Rightarrow> 's sm_boot_host option" where
  "cmd_segment_info get32 get16 data h = do {
     index \<leftarrow> mem_get data 1;
     last_seg \<leftarrow> mem_get data 2;
     addr4 \<leftarrow> mem_read data 3 4;
     length4 \<leftarrow> mem_read data 7 4;
     crc2 \<leftarrow> mem_read data 11 2;
     let seg = snd (sm_seg_set_info (bh_segment h) (uint index) (sint (get32 addr4)) (sint (get32 length4)) (get16 crc2));
     Some (h\<lparr>bh_segment := snd (sm_seg_set_last_segment seg last_seg)\<rparr>) }"

definition cmd_segment_data :: "crc_fun \<Rightarrow> bytes \<Rightarrow> int \<Rightarrow> 's sm_boot_host \<Rightarrow> 's
    \<Rightarrow> (int \<times> 's sm_boot_host \<times> 's) option" where
  "cmd_segment_data crc data data_len h s = do {
     (_, seg) \<leftarrow> sm_seg_fill_data (bh_segment h) (drop 1 data) (data_len - 1);
     let h = h\<lparr>bh_segment := seg\<rparr>;
     if sm_seg_is_full seg = 0 then Some (0, h, s)
     else do {
       valid \<leftarrow> sm_seg_is_valid crc seg;
       if valid = 0 then Some (0, h, s)
       else (case seg of
               NULL \<Rightarrow> None
             | Ref x \<Rightarrow> do { (ret, s) \<leftarrow> raise h EVENT_NEW_SEGMENT (Seg x) 0 s; Some (ret, h, s) }) } }"

definition sm_boot_cmd_handle ::
  "(bytes \<Rightarrow> u32) \<Rightarrow> (bytes \<Rightarrow> u16) \<Rightarrow> crc_fun \<Rightarrow> (int \<Rightarrow> int \<Rightarrow> bytes \<Rightarrow> 's \<Rightarrow> 's)
     \<Rightarrow> int \<Rightarrow> bytes \<Rightarrow> int \<Rightarrow> 's sm_boot_host \<Rightarrow> 's \<Rightarrow> (int \<times> 's sm_boot_host \<times> 's) option" where
  "sm_boot_cmd_handle get32 get16 crc respond cmd data data_len h s =
     (if cmd \<noteq> SM_CMD_UPGRADE_FW \<or> data_len < 1 then Some (-1, h, s)
      else do {
        sub_cmd \<leftarrow> mem_get data 0;
        let abort = do {
              (_, s) \<leftarrow> raise h EVENT_ABORT_UPGRADE No_data 0 s;
              Some (-1, h, respond cmd SM_RES_ERR_COMMON [] s) };
        let reply = (\<lambda>(ret, h, s).
              Some (0, h, respond cmd (if 0 \<le> ret then SM_RES_NONE else -1) [sub_cmd] s));
        if sub_cmd = SM_SUB_CMD_REQUEST then
          do { (ret, s) \<leftarrow> raise h EVENT_REQUEST_UPGRADE No_data 0 s; reply (ret, h, s) }
        else if sub_cmd = SM_SUB_CMD_FW_INFO then
          (if data_len < 14 then abort
           else do { x \<leftarrow> cmd_fw_info get32 get16 data h s; reply x })
        else if sub_cmd = SM_SUB_CMD_SEND_SEGMENT_INFO then
          (if data_len < 12 then abort
           else do { h \<leftarrow> cmd_segment_info get32 get16 data h; reply (0, h, s) })
        else if sub_cmd = SM_SUB_CMD_SEND_SEGMENT_DATA then
          do { x \<leftarrow> cmd_segment_data crc data data_len h s; reply x }
        else reply (0, h, s) })"

subsection \<open>The interface bound to the bootloader\<close>

text \<open>All six handlers are the bootloader's, as \<open>sm_bootloader_add_boot_if\<close> leaves them.\<close>

definition bound :: "'w boot_env \<Rightarrow> (sm_bootloader \<times> 'w) sm_boot_host \<Rightarrow> bool" where
  "bound env h \<longleftrightarrow> (\<forall>ev. bh_handles h ! event_index ev = Ref (bootloader_handle env ev))"

lemma raise_bound: "bound env h \<Longrightarrow> raise h ev d ret s = bootloader_handle env ev d s"
  by (simp add: raise_def bound_def)

lemma bound_update [simp]:
  "bound env (h\<lparr>bh_fw_signature := s\<rparr>) = bound env h" "bound env (h\<lparr>bh_segment := g\<rparr>) = bound env h"
  by (simp_all add: bound_def)

lemma raise_bound_update:
  "bound env h \<Longrightarrow> raise (h\<lparr>bh_fw_signature := x\<rparr>) ev d ret s = bootloader_handle env ev d s"
  "bound env h \<Longrightarrow> raise (h\<lparr>bh_segment := g\<rparr>) ev d ret s = bootloader_handle env ev d s"
  by (simp_all add: raise_bound)

lemma bound_not_null: "bound env h \<Longrightarrow> \<not> is_null (bh_handles h ! event_index ev)"
  by (simp add: bound_def)

text \<open>The signature that a firmware information command carries.\<close>

definition announced :: "(bytes \<Rightarrow> u32) \<Rightarrow> (bytes \<Rightarrow> u16) \<Rightarrow> bytes \<Rightarrow> sm_fw_signature \<Rightarrow> sm_fw_signature" where
  "announced get32 get16 data old = old\<lparr>fs_version := take 3 (drop 1 data), fs_size := get32 (take 4 (drop 4 data)),
     fs_addr := get32 (take 4 (drop 8 data)), fs_crc := get16 (take 2 (drop 12 data))\<rparr>"

text \<open>The response acts on the world only.\<close>

definition on_world :: "(int \<Rightarrow> int \<Rightarrow> bytes \<Rightarrow> 'w \<Rightarrow> 'w) \<Rightarrow> int \<Rightarrow> int \<Rightarrow> bytes \<Rightarrow> sm_bootloader \<times> 'w \<Rightarrow> sm_bootloader \<times> 'w" where
  "on_world resp cmd ret d s = (fst s, resp cmd ret d (snd s))"

lemma fw_info_command:
  assumes h: "bound env h" and st: "bl_state b = STT_UPGRADING" "bl_boot_if_active b = Ref i"
    and data: "data ! 0 = SM_SUB_CMD_FW_INFO" "14 \<le> length data" "14 \<le> data_len"
    and sign: "sign = announced get32 get16 data (bh_fw_signature h)"
    and w1: "w1 = snd (e_timer_reset env (bl_timeout b) w)"
    and crc: "e_crc env (e_storage_read env (fw_store (bl_main_app b)) (fs_addr sign) w1) (fs_size sign) = Some c"
    and w2: "set_main_info_times env sign 5 (-1) (e_if_set_fw_valid env i True w1) = (r5, w2)"
    and accepted: "accepted \<longleftrightarrow> fs_is_first_time_update sign = 1 \<or> c = fs_crc sign"
  shows "\<exists>b' w' r. sm_boot_cmd_handle get32 get16 crc0 (on_world resp) SM_CMD_UPGRADE_FW data data_len h (b, w)
       = Some (0, h\<lparr>bh_fw_signature := sign\<rparr>, b', resp SM_CMD_UPGRADE_FW r [SM_SUB_CMD_FW_INFO] w')
     \<and> bl_state b' = (if accepted \<and> 0 \<le> r5 then STT_FINISH else STT_FAILURE)
     \<and> r = (if accepted \<and> 0 \<le> r5 then SM_RES_NONE else -1) \<and> bl_new_firmware b' = sign
     \<and> w' = (if \<not> accepted then w1 else if r5 < 0 then w2
         else snd (e_timer_reset env (fst (e_timer_reset env (bl_timeout b) w)) w2))"
proof -
  let ?t = "fst (e_timer_reset env (bl_timeout b) w)"
  let ?app = "(bl_main_app b)\<lparr>fw_signature := sign\<rparr>"
  let ?b1 = "b\<lparr>bl_new_firmware := sign, bl_main_app := ?app, bl_timeout := ?t\<rparr>"
  have len: "data \<noteq> []" using data(2) by auto
  have info: "cmd_fw_info get32 get16 data h (b, w) =
      do { (ret, s) \<leftarrow> bootloader_handle env EVENT_FINISH_DOWNLOAD (Sign sign) (?b1, w1);
           if 0 \<le> ret then do {
             (ret, s) \<leftarrow> bootloader_handle env EVENT_FINISH_UPGRADE (Sign sign) s;
             Some (ret, h\<lparr>bh_fw_signature := sign\<rparr>, s) }
           else Some (ret, h\<lparr>bh_fw_signature := sign\<rparr>, s) }"
    using data(2) st(1) raise_bound_update(1) [OF h, of sign] bound_not_null [OF h, of EVENT_FINISH_DOWNLOAD]
    by (simp add: cmd_fw_info_def mem_simps sign announced_def Let_def bootloader_handle_def [of env EVENT_NEW_FIRMWARE]
        handle_new_fw_def sm_fw_set_signature_def w1 prod.case_eq_if cong: if_cong)
  have dl: "bootloader_handle env EVENT_FINISH_DOWNLOAD (Sign sign) (?b1, w1) =
      (if accepted then Some (0, ?b1, e_if_set_fw_valid env i True w1)
       else Some (-1, ?b1\<lparr>bl_state := STT_FAILURE\<rparr>, w1))"
    using st accepted crc
    by (simp add: bootloader_handle_def handle_finish_download_def sm_fw_set_signature_def sm_fw_is_valid_def Let_def)
  have up: "bootloader_handle env EVENT_FINISH_UPGRADE (Sign sign) (?b1, e_if_set_fw_valid env i True w1) =
      (if r5 < 0 then Some (r5, ?b1\<lparr>bl_state := STT_FAILURE\<rparr>, w2)
       else Some (0, ?b1\<lparr>bl_state := STT_FINISH, bl_timeout := fst (e_timer_reset env (bl_timeout ?b1) w2)\<rparr>,
              snd (e_timer_reset env (bl_timeout ?b1) w2)))"
    using st w2 by (simp add: bootloader_handle_def handle_finish_upgrade_def Let_def prod.case_eq_if)
  show ?thesis
    using data len st
    by (cases accepted; cases "r5 < 0")
      (auto simp: sm_boot_cmd_handle_def mem_simps info dl up Let_def on_world_def)
qed

text \<open>The memory of the boot host: announced segment of \<open>n\<close> bytes, of which \<open>ds\<close> have arrived.\<close>

definition awaiting :: "'s sm_boot_host \<Rightarrow> nat \<Rightarrow> int \<Rightarrow> u16 \<Rightarrow> bytes \<Rightarrow> bool" where
  "awaiting h n addr c ds \<longleftrightarrow> (\<exists>g. bh_segment h = Ref g \<and> seg_holds g ds \<and> sg_size g = int n
     \<and> sg_addr g = addr \<and> sg_crc g = c)"

lemma segment_info_command:
  assumes seg: "bh_segment h = Ref g" "length (sg_data g) = SM_SEGMENT_FW_SIZE"
    and data: "data ! 0 = SM_SUB_CMD_SEND_SEGMENT_INFO" "13 \<le> length data" "12 \<le> data_len"
    and n: "get32 (take 4 (drop 7 data)) = of_nat n" "n \<le> SM_SEGMENT_FW_SIZE"
  shows "\<exists>h'. sm_boot_cmd_handle get32 get16 crc (on_world resp) SM_CMD_UPGRADE_FW data data_len h (b, w)
       = Some (0, h', b, resp SM_CMD_UPGRADE_FW SM_RES_NONE [SM_SUB_CMD_SEND_SEGMENT_INFO] w)
     \<and> awaiting h' n (sint (get32 (take 4 (drop 3 data)))) (get16 (take 2 (drop 11 data))) []
     \<and> bh_handles h' = bh_handles h"
proof -
  have "unat (of_nat n :: u32) = n" using n(2) by (intro unat_of_nat_u32) simp
  then have "sint (of_nat n :: u32) = int n" using n(2) sint_u32_small [of "of_nat n"] by simp
  moreover have "data \<noteq> []" using data(2) by auto
  ultimately show ?thesis
    using assms
    by (auto simp: sm_boot_cmd_handle_def cmd_segment_info_def sm_seg_set_info_def sm_seg_set_last_segment_def
        seg_set_def mem_simps Let_def on_world_def awaiting_def intro!: seg_holds_Nil)
qed

lemma segment_data_command:
  assumes h: "bound env h" and aw: "awaiting h n addr c ds" and n: "length ds + length piece \<le> n" "n \<le> SM_SEGMENT_FW_SIZE"
    and crc: "\<forall>m. n \<le> length m \<longrightarrow> crc m (int n) = Some (f (take n m))" and st: "bl_state b = STT_UPGRADING"
    and wr: "e_write_segment env (fw_store (bl_main_app b)) (word_of_int addr) (ds @ piece)
        (snd (e_timer_reset env (bl_timeout b) w)) = (r, w1)"
  shows "\<exists>h'. sm_boot_cmd_handle get32 get16 crc (on_world resp) SM_CMD_UPGRADE_FW
         (SM_SUB_CMD_SEND_SEGMENT_DATA # piece) (int (length piece) + 1) h (b, w)
       = Some (0, h', if length ds + length piece = n \<and> c = f (ds @ piece)
            then (b\<lparr>bl_timeout := fst (e_timer_reset env (bl_timeout b) w)\<rparr>,
                  resp SM_CMD_UPGRADE_FW (if 0 \<le> r then SM_RES_NONE else -1) [SM_SUB_CMD_SEND_SEGMENT_DATA] w1)
            else (b, resp SM_CMD_UPGRADE_FW SM_RES_NONE [SM_SUB_CMD_SEND_SEGMENT_DATA] w))
     \<and> awaiting h' n addr c (ds @ piece) \<and> bound env h'"
proof -
  obtain g where g: "bh_segment h = Ref g" "seg_holds g ds" "sg_size g = int n" "sg_addr g = addr" "sg_crc g = c"
    using aw by (auto simp: awaiting_def)
  obtain g' where g': "sm_seg_fill_data (Ref g) piece (int (length piece)) = Some (int (length piece), Ref g')"
    "seg_holds g' (ds @ piece)" "seg_info g' = seg_info g"
    using seg_fill_holds [OF g(2), of piece] g(3) n by auto
  then have i: "sg_size g' = int n" "sg_addr g' = addr" "sg_crc g' = c" "sg_length g' = int (length ds + length piece)"
    using g by (simp_all add: seg_info_def seg_holds_def)
  let ?h = "h\<lparr>bh_segment := Ref g'\<rparr>"
  have aw': "awaiting ?h n addr c (ds @ piece)" "bound env ?h" using i g'(2) h by (simp_all add: awaiting_def)
  show ?thesis
  proof (cases "length ds + length piece = n")
    case False
    then have "sm_seg_is_full (Ref g') = 0" using i by (simp add: sm_seg_is_full_def)
    with False g g' aw' show ?thesis
      by (auto simp: sm_boot_cmd_handle_def cmd_segment_data_def mem_simps Let_def on_world_def)
  next
    case True
    have tk: "take n (sg_data g') = ds @ piece" "n \<le> length (sg_data g')"
      using g'(2) True n(2) by (auto simp: seg_holds_def)
    have full: "sm_seg_is_full (Ref g') = 1" using i True by (simp add: sm_seg_is_full_def)
    have valid: "sm_seg_is_valid crc (Ref g') = Some (if c = f (ds @ piece) then 1 else 0)"
      using crc tk i True by (simp add: sm_seg_is_valid_def)
    have "unat (word_of_int (sg_length g') :: u32) = n"
      using i(4) True n(2) by (simp add: unat_of_nat_u32 flip: of_nat_add)
    then have "sm_fw_write_segment env (Ref (bl_main_app b)) (Ref g') (snd (e_timer_reset env (bl_timeout b) w)) = Some (r, w1)"
      using tk wr i by (simp add: sm_fw_write_segment_def mem_simps)
    then have "raise ?h EVENT_NEW_SEGMENT (Seg g') 0 (b, w)
        = Some (r, b\<lparr>bl_timeout := fst (e_timer_reset env (bl_timeout b) w)\<rparr>, w1)"
      using st raise_bound [OF aw'(2)]
      by (simp add: bootloader_handle_def handle_new_segment_def prod.case_eq_if Let_def)
    with True full valid g g' aw' show ?thesis
      by (cases "c = f (ds @ piece)")
        (auto simp: sm_boot_cmd_handle_def cmd_segment_data_def mem_simps Let_def on_world_def)
  qed
qed


text \<open>The data of a segment in several commands, and the world after their responses.\<close>

fun segment_data_commands ::
  "crc_fun \<Rightarrow> (int \<Rightarrow> int \<Rightarrow> bytes \<Rightarrow> 'w \<Rightarrow> 'w) \<Rightarrow> (bytes \<Rightarrow> u32) \<Rightarrow> (bytes \<Rightarrow> u16) \<Rightarrow> bytes list
     \<Rightarrow> (sm_bootloader \<times> 'w) sm_boot_host \<Rightarrow> sm_bootloader \<times> 'w
     \<Rightarrow> ((sm_bootloader \<times> 'w) sm_boot_host \<times> sm_bootloader \<times> 'w) option" where
  "segment_data_commands crc resp get32 get16 [] h s = Some (h, s)"
| "segment_data_commands crc resp get32 get16 (p # ps) h s = do {
     (_, h, s) \<leftarrow> sm_boot_cmd_handle get32 get16 crc (on_world resp) SM_CMD_UPGRADE_FW
        (SM_SUB_CMD_SEND_SEGMENT_DATA # p) (int (length p) + 1) h s;
     segment_data_commands crc resp get32 get16 ps h s }"

definition acked :: "(int \<Rightarrow> int \<Rightarrow> bytes \<Rightarrow> 'w \<Rightarrow> 'w) \<Rightarrow> 'w \<Rightarrow> 'w" where
  "acked resp = resp SM_CMD_UPGRADE_FW SM_RES_NONE [SM_SUB_CMD_SEND_SEGMENT_DATA]"

lemma segment_data_commands_append:
  "segment_data_commands crc resp get32 get16 (ps @ qs) h s =
     do { (h, s) \<leftarrow> segment_data_commands crc resp get32 get16 ps h s;
          segment_data_commands crc resp get32 get16 qs h s }"
  by (induction ps arbitrary: h s) (auto split: bind_split)

lemma segment_data_incomplete:
  assumes "bound env h" "awaiting h n addr c ds" "length ds + length (concat ps) < n" "n \<le> SM_SEGMENT_FW_SIZE"
    and "\<forall>m. n \<le> length m \<longrightarrow> crc m (int n) = Some (f (take n m))" and "bl_state b = STT_UPGRADING"
  shows "\<exists>h'. segment_data_commands crc resp get32 get16 ps h (b, w) = Some (h', b, (acked resp ^^ length ps) w)
     \<and> awaiting h' n addr c (ds @ concat ps) \<and> bound env h'"
  using assms
proof (induction ps arbitrary: h ds w)
  case (Cons p ps)
  obtain r w1 where wr: "e_write_segment env (fw_store (bl_main_app b)) (word_of_int addr) (ds @ p)
      (snd (e_timer_reset env (bl_timeout b) w)) = (r, w1)" by fastforce
  have "length ds + length p \<le> n" "length ds + length p \<noteq> n" using Cons.prems(3) by simp_all
  then obtain h1 where h1: "sm_boot_cmd_handle get32 get16 crc (on_world resp) SM_CMD_UPGRADE_FW
       (SM_SUB_CMD_SEND_SEGMENT_DATA # p) (int (length p) + 1) h (b, w) = Some (0, h1, b, acked resp w)"
    "awaiting h1 n addr c (ds @ p)" "bound env h1"
    using segment_data_command [where crc = crc and f = f and ?get32.0 = get32 and ?get16.0 = get16 and resp = resp,
        OF Cons.prems(1,2) _ Cons.prems(4-6) wr]
    by (auto simp: acked_def)
  have "\<exists>h'. segment_data_commands crc resp get32 get16 ps h1 (b, acked resp w)
       = Some (h', b, (acked resp ^^ length ps) (acked resp w))
     \<and> awaiting h' n addr c ((ds @ p) @ concat ps) \<and> bound env h'"
    using Cons.prems h1 by (intro Cons.IH) auto
  with h1(1) show ?case by (auto simp: funpow_swap1)
qed simp

subsection \<open>Properties\<close>

text \<open>C3: An upgrade over the host protocol ends well only with an intact image. When the firmware
  information command (at least 14 bytes) reaches an upgrading bootloader through the interface its handlers are
  bound to, the command is answered with success and the bootloader is finished exactly when the image is accepted
  and the last write of the new signature succeeded; in every other case the bootloader fails and
  the answer is -1. The image is accepted when its CRC in the storage, over the announced address and size,
  equals the announced CRC, and also, unchecked, when the signature kept by the interface is marked as a first update:
  the command does not carry that mark.\<close>

theorem upgrade_finishes_only_with_intact_image:
  assumes "bound env h" and "bl_state b = STT_UPGRADING" and "bl_boot_if_active b = Ref i"
    and "data ! 0 = SM_SUB_CMD_FW_INFO" and "14 \<le> length data" and "14 \<le> data_len"
    and "sign = announced get32 get16 data (bh_fw_signature h)"
    and "w1 = snd (e_timer_reset env (bl_timeout b) w)"
    and "e_crc env (e_storage_read env (fw_store (bl_main_app b)) (fs_addr sign) w1) (fs_size sign) = Some c"
    and "set_main_info_times env sign 5 (-1) (e_if_set_fw_valid env i True w1) = (r5, w2)"
    and "accepted \<longleftrightarrow> fs_is_first_time_update (bh_fw_signature h) = 1 \<or> c = fs_crc sign"
  shows "\<exists>b' w' r. sm_boot_cmd_handle get32 get16 crc0 (on_world resp) SM_CMD_UPGRADE_FW data data_len h (b, w)
       = Some (0, h\<lparr>bh_fw_signature := sign\<rparr>, b', resp SM_CMD_UPGRADE_FW r [SM_SUB_CMD_FW_INFO] w')
     \<and> bl_state b' = (if accepted \<and> 0 \<le> r5 then STT_FINISH else STT_FAILURE)
     \<and> r = (if accepted \<and> 0 \<le> r5 then SM_RES_NONE else -1) \<and> bl_new_firmware b' = sign"
proof -
  have "accepted \<longleftrightarrow> fs_is_first_time_update sign = 1 \<or> c = fs_crc sign"
    using assms(11) by (simp add: assms(7) announced_def)
  from fw_info_command [OF assms(1-10) this, of crc0 resp] show ?thesis by blast
qed

definition demo_host :: "'w boot_env \<Rightarrow> (sm_bootloader \<times> 'w) sm_boot_host" where
  "demo_host env = \<lparr>bh_handles = map (\<lambda>ev. Ref (bootloader_handle env ev))
       [EVENT_REQUEST_UPGRADE, EVENT_NEW_FIRMWARE, EVENT_NEW_SEGMENT, EVENT_FINISH_DOWNLOAD,
        EVENT_FINISH_UPGRADE, EVENT_ABORT_UPGRADE],
     bh_fw_signature = blank_signature, bh_segment = Ref blank_segment, bh_enable = True\<rparr>"

lemma bound_demo_host: "bound env (demo_host env)"
proof -
  have "bh_handles (demo_host env) ! event_index ev = Ref (bootloader_handle env ev)" for ev
    by (cases ev) (simp_all add: demo_host_def nth_Cons')
  then show ?thesis by (simp add: bound_def)
qed

theorem upgrade_finishes_only_with_intact_image_witness:
  "\<exists>h' b' w'. sm_boot_cmd_handle (\<lambda>bs. 4) (\<lambda>bs. 4) (\<lambda>m n. None) (on_world (\<lambda>c r d w. r # w)) SM_CMD_UPGRADE_FW
       (SM_SUB_CMD_FW_INFO # replicate 13 0) 14 (demo_host quiet_env) (demo_bootloader STT_UPGRADING, [])
     = Some (0, h', b', 0 # w') \<and> bl_state b' = STT_FINISH"
  using upgrade_finishes_only_with_intact_image [OF bound_demo_host, of "demo_bootloader STT_UPGRADING" 7
      "SM_SUB_CMD_FW_INFO # replicate 13 0" 14 _ "\<lambda>bs. 4" "\<lambda>bs. 4" quiet_env "[]" "[]" 4 0 "[]" True
      "\<lambda>m n. None" "\<lambda>c r d w. r # w"]
  by (auto simp: demo_bootloader_def demo_host_def blank_signature_def announced_def quiet_env_def eval_nat_numeral)



end
