(* ===== verification/Co_Od.thy ===== *)
theory Co_Od
  imports Prelude
begin

section \<open>The CANopen object dictionary\<close>

text \<open>
  This theory models \<open>common/upgrade/loader/libs/canopen/CO_utils.h\<close> (byte copies and byte
  order), \<open>CO_Object.h\<close> (objects, their sub objects, extensions and attributes) and
  \<open>CO_OD.c\<close>/\<open>CO_OD.h\<close> (the dictionary, its binary search and its accessors).

  A sub object owns its buffers: \<open>p_data\<close>, the optional \<open>p_temp_data\<close> and the shadow
  buffer of the optional extension are byte lists. \<open>confirm_func\<close> is the application's
  callback; it sees the shadow buffer and the application's world \<open>'w\<close>, and returns its
  verdict, the abort code it leaves in the SDO object and the new world.
\<close>

subsection \<open>Byte copies and byte order\<close>

text \<open>Copies \<open>n\<close> bytes of \<open>src\<close> from \<open>soff\<close> into \<open>dst\<close> at \<open>doff\<close>.\<close>

definition CO_memcpy :: "bytes \<Rightarrow> nat \<Rightarrow> bytes \<Rightarrow> nat \<Rightarrow> u16 \<Rightarrow> bytes option" where
  "CO_memcpy dst doff src soff n =
     do { bs \<leftarrow> mem_read src soff (unat n); mem_write dst doff bs }"

fun CO_memcmp :: "bytes \<Rightarrow> bytes \<Rightarrow> nat \<Rightarrow> bool option" where
  "CO_memcmp b1 b2 0 = Some True"
| "CO_memcmp (x # b1) (y # b2) (Suc n) = (if x \<noteq> y then Some False else CO_memcmp b1 b2 n)"
| "CO_memcmp _ _ (Suc n) = None"

definition CO_getUint16 :: "bytes \<Rightarrow> nat \<Rightarrow> u16 option" where
  "CO_getUint16 d off =
     do { b0 \<leftarrow> mem_get d off; b1 \<leftarrow> mem_get d (off + 1); Some (be16 b1 b0) }"

definition CO_getUint32 :: "bytes \<Rightarrow> nat \<Rightarrow> u32 option" where
  "CO_getUint32 d off =
     do { b0 \<leftarrow> mem_get d off; b1 \<leftarrow> mem_get d (off + 1);
          b2 \<leftarrow> mem_get d (off + 2); b3 \<leftarrow> mem_get d (off + 3); Some (le32 b0 b1 b2 b3) }"

definition CO_setUint16 :: "bytes \<Rightarrow> nat \<Rightarrow> u16 \<Rightarrow> bytes option" where
  "CO_setUint16 d off v =
     do { d \<leftarrow> mem_set d off (byte_lo v); mem_set d (off + 1) (byte_hi v) }"

definition CO_setUint32 :: "bytes \<Rightarrow> nat \<Rightarrow> u32 \<Rightarrow> bytes option" where
  "CO_setUint32 d off v =
     do { d \<leftarrow> mem_set d off (le32_byte 0 v); d \<leftarrow> mem_set d (off + 1) (le32_byte 1 v);
          d \<leftarrow> mem_set d (off + 2) (le32_byte 2 v); mem_set d (off + 3) (le32_byte 3 v) }"

definition CO_rounding_divisible_8 :: "u32 \<Rightarrow> u32" where
  "CO_rounding_divisible_8 input =
     (let temp = drop_bit 3 input * 8 in if temp = input then input else temp + 8)"

subsection \<open>Objects\<close>

text \<open>The verdict of a confirmation callback.\<close>

datatype CO_ext_confirm =
  CO_EXT_CONFIRM_processing | CO_EXT_CONFIRM_abort | CO_EXT_CONFIRM_success
| CO_EXT_CONFIRM_copy_and_success

record 'w CO_Sub_Object_Ext =
  p_shadow_data :: bytes
  confirm_func :: "bytes \<Rightarrow> 'w \<Rightarrow> CO_ext_confirm \<times> u32 \<times> 'w"

record 'w CO_Sub_Object =
  so_data :: bytes
  so_attr :: u16
  so_len :: u16
  so_ext :: "'w CO_Sub_Object_Ext ptr"
  so_temp :: "bytes ptr"

record 'w CO_Object =
  ob_index :: u16
  ob_sub_number :: u8
  ob_subs :: "'w CO_Sub_Object list"

definition ODA_SDO_R :: u16 where "ODA_SDO_R = 0x0001"
definition ODA_SDO_W :: u16 where "ODA_SDO_W = 0x0002"
definition ODA_VWTE_after_reset :: u16 where "ODA_VWTE_after_reset = 0x0100"

text \<open>Both accessors return the object and the caller's buffer after the call.\<close>

definition CO_SUB_OBJ_write ::
  "'w CO_Sub_Object \<Rightarrow> bytes \<Rightarrow> u8 \<Rightarrow> ('w CO_Sub_Object \<times> bytes) option" where
  "CO_SUB_OBJ_write sub data len =
     do { dst \<leftarrow> CO_memcpy data 0 (so_data sub) 0 (ucast len); Some (sub, dst) }"

definition CO_SUB_OBJ_read ::
  "'w CO_Sub_Object \<Rightarrow> bytes \<Rightarrow> u8 \<Rightarrow> ('w CO_Sub_Object \<times> bytes) option" where
  "CO_SUB_OBJ_read sub data len =
     do { dst \<leftarrow> CO_memcpy data 0 (so_data sub) 0 (ucast len); Some (sub, dst) }"

subsection \<open>The dictionary\<close>

record 'w CO_OD =
  od_number :: u16
  od_list :: "'w CO_Object list"

definition OD_UNSUPPORT_ENTRY :: u16 where "OD_UNSUPPORT_ENTRY = 0xFFFF"

text \<open>
  The search loop and the check behind it. \<open>min\<close>, \<open>max\<close> and \<open>cur\<close> are 16 bit; the sum
  is an \<open>int\<close>, so it does not wrap. Every access to \<open>p_od->list\<close> is checked against the
  list the dictionary was given.
\<close>

function od_search :: "'w CO_Object list \<Rightarrow> u16 \<Rightarrow> u16 \<Rightarrow> u16 \<Rightarrow> u16 option" where
  "od_search objs index mn mx =
     (if mn < mx then
        (let cur = word_of_nat ((unat mn + unat mx) div 2) in
         do { p_obj \<leftarrow> mem_get objs (unat cur);
              if index = ob_index p_obj then Some cur
              else if index < ob_index p_obj
              then od_search objs index mn (if cur \<noteq> 0 then cur - 1 else cur)
              else od_search objs index (cur + 1) mx })
      else if mn = mx then
        do { p_obj \<leftarrow> mem_get objs (unat mn);
             Some (if index = ob_index p_obj then mn else OD_UNSUPPORT_ENTRY) }
      else Some OD_UNSUPPORT_ENTRY)"
  by pat_completeness auto

lemma od_middle:
  assumes "(mn :: u16) < mx"
  shows "unat (word_of_nat ((unat mn + unat mx) div 2) :: u16) = (unat mn + unat mx) div 2"
    and "unat mn \<le> (unat mn + unat mx) div 2" "(unat mn + unat mx) div 2 < unat mx"
proof -
  have "unat mn < unat mx" using assms by (simp add: word_less_nat_alt)
  then show "unat mn \<le> (unat mn + unat mx) div 2"
    and lt: "(unat mn + unat mx) div 2 < unat mx" by simp_all
  show "unat (word_of_nat ((unat mn + unat mx) div 2) :: u16) = (unat mn + unat mx) div 2"
    using lt unat_u16_less [of mx] by (intro unat_of_nat_u16) linarith
qed

lemma od_lower: "unat (if (c :: u16) \<noteq> 0 then c - 1 else c) = unat c - 1"
  by (simp add: unat_dec)

lemma od_upper: "(c :: u16) < m \<Longrightarrow> unat (c + 1) = unat c + 1"
  by (simp add: unat_inc)

termination od_search
proof (relation "measure (\<lambda>(objs, index, mn, mx). unat mx - unat mn)", goal_cases)
  case (2 objs index mn mx cur p)
  note m = od_middle [OF 2(1)] and lt = 2(1) [unfolded word_less_nat_alt]
  have "unat (if cur \<noteq> 0 then cur - 1 else cur) < unat mx"
    using m by (simp only: od_lower 2(2))
  then show ?case using lt by simp
next
  case (3 objs index mn mx cur p)
  note m = od_middle [OF 3(1)] and lt = 3(1) [unfolded word_less_nat_alt]
  have "cur < mx" using m by (simp add: 3(2) word_less_nat_alt)
  then have "unat (cur + 1) = unat cur + 1" by (rule od_upper)
  then show ?case using m lt by (simp add: 3(2) del: of_nat_add)
qed simp

declare od_search.simps [simp del]

definition CO_OD_get_no :: "'w CO_OD \<Rightarrow> u16 \<Rightarrow> u16 option" where
  "CO_OD_get_no od index = od_search (od_list od) index 0 (od_number od)"

text \<open>A pointer to an object is its position; the C pointer is \<open>&p_od->list[no]\<close>.\<close>

definition CO_OD_get_number :: "'w CO_OD \<Rightarrow> u16" where
  "CO_OD_get_number od = od_number od"

definition CO_OD_get_object_pointer :: "'w CO_OD \<Rightarrow> u16 \<Rightarrow> nat ptr" where
  "CO_OD_get_object_pointer od no =
     (if no > od_number od \<or> no = OD_UNSUPPORT_ENTRY then NULL else Ref (unat no))"

definition CO_OD_get_sub_object_pointer ::
  "'w CO_OD \<Rightarrow> u16 \<Rightarrow> u8 \<Rightarrow> (nat \<times> nat) ptr option" where
  "CO_OD_get_sub_object_pointer od no sub_index =
     (if no \<ge> od_number od \<or> no = OD_UNSUPPORT_ENTRY then Some NULL
      else do { ob \<leftarrow> mem_get (od_list od) (unat no);
                Some (if ob_sub_number ob \<le> sub_index then NULL
                      else Ref (unat no, unat sub_index)) })"

definition CO_OD_get_data_pointer :: "'w CO_OD \<Rightarrow> u16 \<Rightarrow> u8 \<Rightarrow> bytes ptr option" where
  "CO_OD_get_data_pointer od no sub_index =
     (if no \<ge> od_number od \<or> no = OD_UNSUPPORT_ENTRY then Some NULL
      else do { ob \<leftarrow> mem_get (od_list od) (unat no);
                if ob_sub_number ob \<le> sub_index then Some NULL
                else do { sub \<leftarrow> mem_get (ob_subs ob) (unat sub_index);
                          Some (Ref (so_data sub)) } })"

definition CO_OD_get_data_len :: "'w CO_OD \<Rightarrow> u16 \<Rightarrow> u8 \<Rightarrow> u16 option" where
  "CO_OD_get_data_len od no sub_index =
     (if no \<ge> od_number od \<or> no = OD_UNSUPPORT_ENTRY then Some 0
      else do { ob \<leftarrow> mem_get (od_list od) (unat no);
                if ob_sub_number ob \<le> sub_index then Some 0
                else do { sub \<leftarrow> mem_get (ob_subs ob) (unat sub_index); Some (so_len sub) } })"

subsection \<open>Facts about copies\<close>

lemma CO_memcpy_Some [mem_simps]:
  assumes "soff + unat n \<le> length src" "doff + unat n \<le> length dst"
  shows "CO_memcpy dst doff src soff n =
           Some (take doff dst @ take (unat n) (drop soff src) @ drop (doff + unat n) dst)"
  using assms by (simp add: CO_memcpy_def mem_simps min_absorb2)

lemma length_CO_memcpy: "CO_memcpy dst doff src soff n = Some d \<Longrightarrow> length d = length dst"
  by (auto simp: CO_memcpy_def bind_eq_Some_conv dest: length_mem_write)

lemma CO_setUint32_Some [mem_simps]:
  "off + 4 \<le> length d \<Longrightarrow> CO_setUint32 d off v =
     Some (d[off := le32_byte 0 v, off + 1 := le32_byte 1 v,
             off + 2 := le32_byte 2 v, off + 3 := le32_byte 3 v])"
  by (simp add: CO_setUint32_def mem_simps)

lemma CO_getUint32_set:
  assumes "off + 4 \<le> length d"
  shows "CO_getUint32 (d[off := le32_byte 0 v, off + 1 := le32_byte 1 v,
             off + 2 := le32_byte 2 v, off + 3 := le32_byte 3 v]) off = Some v"
  using assms by (simp add: CO_getUint32_def mem_simps nth_list_update le32_split [unfolded One_nat_def])

subsection \<open>The binary search\<close>

text \<open>The dictionary is sorted by index and \<open>number\<close> counts its entries.\<close>

definition od_indices :: "'w CO_Object list \<Rightarrow> u16 list" where
  "od_indices objs = map ob_index objs"

definition od_sorted :: "'w CO_OD \<Rightarrow> bool" where
  "od_sorted od \<longleftrightarrow> unat (od_number od) = length (od_list od)
     \<and> sorted_wrt (<) (od_indices (od_list od))"

lemma od_less:
  "sorted_wrt (<) (od_indices objs) \<Longrightarrow> i < j \<Longrightarrow> j < length objs \<Longrightarrow>
     ob_index (objs ! i) < ob_index (objs ! j)"
  by (auto simp: od_indices_def sorted_wrt_iff_nth_less)

lemma od_less_iff:
  assumes "sorted_wrt (<) (od_indices objs)" "i < length objs" "j < length objs"
  shows "ob_index (objs ! i) < ob_index (objs ! j) \<longleftrightarrow> i < j"
  using od_less [OF assms(1), of i j] od_less [OF assms(1), of j i] assms(2,3)
  by (metis less_asym less_irrefl linorder_neqE_nat)

lemma od_same_iff:
  assumes "sorted_wrt (<) (od_indices objs)" "i < length objs" "j < length objs"
  shows "ob_index (objs ! i) = ob_index (objs ! j) \<longleftrightarrow> i = j"
  using od_less [OF assms(1), of i j] od_less [OF assms(1), of j i] assms(2,3)
  by (metis less_irrefl linorder_neqE_nat)

lemma od_search_found:
  assumes "sorted_wrt (<) (od_indices objs)" "p < length objs" "ob_index (objs ! p) = k"
    and "unat mx \<le> length objs" "unat mn \<le> p" "p \<le> unat mx"
  shows "od_search objs k mn mx = Some (word_of_nat p)"
  using assms
proof (induction objs k mn mx rule: od_search.induct)
  case (1 objs k mn mx)
  note less = od_less_iff [OF 1(3)] and same = od_same_iff [OF 1(3)]
  show ?case
  proof (cases "mn < mx")
    case False
    then have "mn = mx" "unat mn = p"
      using 1(7,8) by (auto simp: word_less_nat_alt word_unat_eq_iff)
    then show ?thesis
      using 1(4,5) by (subst od_search.simps) (auto simp: mem_simps)
  next
    case lt: True
    define cur :: u16 where "cur = word_of_nat ((unat mn + unat mx) div 2)"
    define lo where "lo = (if cur \<noteq> 0 then cur - 1 else cur)"
    have lo: "unat lo = unat cur - 1" unfolding lo_def by (rule od_lower)
    note m = od_middle [OF lt, folded cur_def]
    have c: "unat cur < length objs" using m 1(6) by linarith
    have up: "unat (cur + 1) = unat cur + 1"
      by (rule od_upper [of _ mx]) (use m in \<open>simp add: word_less_nat_alt\<close>)
    note unfold = od_search.simps [of objs k mn mx] Let_def cur_def [symmetric] lo_def [symmetric]
      mem_get_Some [OF c]
    consider "p = unat cur" | "p < unat cur" | "unat cur < p" by linarith
    then show ?thesis
    proof cases
      assume "p = unat cur"
      then show ?thesis using lt 1(5) by (auto simp: unfold)
    next
      assume p: "p < unat cur"
      have k: "k < ob_index (objs ! unat cur)" using p 1(4,5) c less by auto
      have "od_search objs k mn lo = Some (word_of_nat p)"
        by (rule 1(1) [OF lt cur_def mem_get_Some [OF c], folded lo_def])
          (use 1(3-8) k p m c lo in auto)
      then show ?thesis using lt k less_imp_neq [OF k] less_not_sym [OF k] by (simp add: unfold)
    next
      assume p: "unat cur < p"
      have k: "ob_index (objs ! unat cur) < k" using p 1(4,5) c less by auto
      have "od_search objs k (cur + 1) mx = Some (word_of_nat p)"
        by (rule 1(2) [OF lt cur_def mem_get_Some [OF c]])
          (use 1(3-8) k p m c up in auto)
      then show ?thesis using lt k less_imp_neq [OF k] less_not_sym [OF k] by (simp add: unfold)
    qed
  qed
qed

lemma od_search_absent:
  assumes "sorted_wrt (<) (od_indices objs)" "k \<notin> set (od_indices objs)"
    and "unat mx \<le> length objs"
    and "\<And>p. p < unat mn \<Longrightarrow> p < length objs \<Longrightarrow> ob_index (objs ! p) < k"
    and "unat mx = length objs \<or> (\<exists>p < length objs. k < ob_index (objs ! p))"
  shows "od_search objs k mn mx =
    (if \<exists>p < length objs. k < ob_index (objs ! p) then Some OD_UNSUPPORT_ENTRY
     else if unat mn \<le> length objs then None else Some OD_UNSUPPORT_ENTRY)"
  using assms
proof (induction objs k mn mx rule: od_search.induct)
  case (1 objs k mn mx)
  note less = od_less_iff [OF 1(3)] and same = od_same_iff [OF 1(3)]
  have ne: "p < length objs \<Longrightarrow> ob_index (objs ! p) \<noteq> k" for p
    using 1(4) by (auto simp: od_indices_def)
  show ?case
  proof (cases "mn < mx")
    case False
    show ?thesis
    proof (cases "mn = mx")
      case True
      show ?thesis
      proof (cases "unat mx = length objs")
        case full: True
        have "\<not> k < ob_index (objs ! p)" if "p < length objs" for p
          using 1(6) [of p] that full True by auto
        then show ?thesis using full True
          by (subst od_search.simps) (auto simp: mem_simps)
      next
        case False
        then have "unat mx < length objs" using 1(5) by simp
        then show ?thesis using True 1(7) False ne [of "unat mx"]
          by (subst od_search.simps) (auto simp: mem_simps)
      qed
    next
      case ne: False
      then have gt: "unat mx < unat mn" using False by (auto simp: word_less_nat_alt word_unat_eq_iff)
      then show ?thesis using False ne 1(7)
        by (auto simp: od_search.simps [of objs k mn mx])
    qed
  next
    case lt: True
    define cur :: u16 where "cur = word_of_nat ((unat mn + unat mx) div 2)"
    define lo where "lo = (if cur \<noteq> 0 then cur - 1 else cur)"
    have lo: "unat lo = unat cur - 1" unfolding lo_def by (rule od_lower)
    note m = od_middle [OF lt, folded cur_def]
    have c: "unat cur < length objs" using m 1(5) by linarith
    have up: "unat (cur + 1) = unat cur + 1"
      by (rule od_upper [of _ mx]) (use m in \<open>simp add: word_less_nat_alt\<close>)
    note unfold = od_search.simps [of objs k mn mx] Let_def cur_def [symmetric] lo_def [symmetric]
      mem_get_Some [OF c]
    have mn: "unat mn \<le> length objs" using m c by linarith
    show ?thesis
    proof (cases "k < ob_index (objs ! unat cur)")
      case True
      have "od_search objs k mn lo = Some OD_UNSUPPORT_ENTRY"
        by (subst 1(1) [OF lt cur_def mem_get_Some [OF c], folded lo_def])
          (use 1(3-7) True m c lo in auto)
      then show ?thesis using lt True c by (auto simp: unfold)
    next
      case False
      then have k: "ob_index (objs ! unat cur) < k" using ne [OF c] by simp
      have "ob_index (objs ! p) < k" if "p < unat (cur + 1)" "p < length objs" for p
        using that k less [of p "unat cur"] c up by (cases "p = unat cur") auto
      then have "od_search objs k (cur + 1) mx =
          (if \<exists>p < length objs. k < ob_index (objs ! p) then Some OD_UNSUPPORT_ENTRY
           else if unat (cur + 1) \<le> length objs then None else Some OD_UNSUPPORT_ENTRY)"
        by (intro 1(2) [OF lt cur_def mem_get_Some [OF c]])
          (use 1(3-7) k in auto)
      then show ?thesis using lt c up mn k less_not_sym [OF k] less_imp_neq [OF k]
        by (auto simp: unfold)
    qed
  qed
qed

subsection \<open>Properties\<close>

text \<open>C19:
  In a dictionary whose entries are sorted by index, the search finds every entry at its
  position; for an index that is absent but below some entry it answers "not in the
  dictionary"; and for an index above every entry (every index, when the dictionary is empty)
  it reads the entry behind the end of the list.\<close>

theorem od_lookup_correct:
  assumes "od_sorted od"
  shows "(\<forall>p < length (od_list od).
            CO_OD_get_no od (ob_index (od_list od ! p)) = Some (word_of_nat p))
       \<and> (k \<notin> set (od_indices (od_list od)) \<longrightarrow>
            CO_OD_get_no od k =
              (if \<exists>i \<in> set (od_indices (od_list od)). k < i
               then Some OD_UNSUPPORT_ENTRY else None))"
proof -
  note s = assms [unfolded od_sorted_def]
  have "(\<exists>p < length (od_list od). k < ob_index (od_list od ! p))
          = (\<exists>i \<in> set (od_indices (od_list od)). k < i)"
    by (fastforce simp: od_indices_def in_set_conv_nth)
  then show ?thesis
    using s od_search_found [of "od_list od" _ _ "od_number od" 0]
      od_search_absent [of "od_list od" k "od_number od" 0]
    by (simp add: CO_OD_get_no_def)
qed

definition sample_object :: "u16 \<Rightarrow> unit CO_Object" where
  "sample_object i = \<lparr>ob_index = i, ob_sub_number = 1,
     ob_subs = [\<lparr>so_data = [0, 0], so_attr = 3, so_len = 2, so_ext = NULL, so_temp = NULL\<rparr>]\<rparr>"

definition sample_od :: "unit CO_OD" where
  "sample_od = \<lparr>od_number = 3, od_list = map sample_object [0x1000, 0x1018, 0x2000]\<rparr>"

lemma sample_od_sorted: "od_sorted sample_od"
  by (simp add: od_sorted_def sample_od_def od_indices_def sample_object_def)

lemma sample_od_list:
  "od_list sample_od = map sample_object [0x1000, 0x1018, 0x2000]"
  by (simp add: sample_od_def)

lemma od_lookup_correct_witness:
  "CO_OD_get_no sample_od 0x1018 = Some 1
   \<and> CO_OD_get_no sample_od 0x1001 = Some OD_UNSUPPORT_ENTRY
   \<and> CO_OD_get_no sample_od 0x2001 = None"
proof (intro conjI)
  have "CO_OD_get_no sample_od (ob_index (od_list sample_od ! 1)) = Some (word_of_nat 1)"
    using od_lookup_correct [OF sample_od_sorted, THEN conjunct1, rule_format, of 1]
    by (simp add: sample_od_def)
  then show "CO_OD_get_no sample_od 0x1018 = Some 1"
    by (simp add: sample_od_list sample_object_def)
  show "CO_OD_get_no sample_od 0x1001 = Some OD_UNSUPPORT_ENTRY"
    using od_lookup_correct [OF sample_od_sorted, of "0x1001"]
    by (simp add: sample_od_list sample_object_def od_indices_def)
  show "CO_OD_get_no sample_od 0x2001 = None"
    using od_lookup_correct [OF sample_od_sorted, of "0x2001"]
    by (simp add: sample_od_list sample_object_def od_indices_def)
qed

text \<open>
  The write accessor of a sub object stores nothing: it copies the object into the caller's
  buffer, exactly as the read accessor does, and leaves the object as it was.\<close>

theorem sub_obj_write_reads:
  "CO_SUB_OBJ_write sub data len = CO_SUB_OBJ_read sub data len
   \<and> (\<forall>sub' data'. CO_SUB_OBJ_write sub data len = Some (sub', data') \<longrightarrow>
        sub' = sub \<and> take (unat len) data' = take (unat len) (so_data sub))"
proof (rule conjI; (intro allI impI)?)
  show "CO_SUB_OBJ_write sub data len = CO_SUB_OBJ_read sub data len"
    by (simp add: CO_SUB_OBJ_write_def CO_SUB_OBJ_read_def)
next
  fix sub' data'
  assume w: "CO_SUB_OBJ_write sub data len = Some (sub', data')"
  show "sub' = sub \<and> take (unat len) data' = take (unat len) (so_data sub)"
    using w by (auto simp: CO_SUB_OBJ_write_def CO_memcpy_def mem_read_def mem_write_def
        bind_eq_Some_conv split: if_splits)
qed

lemma sub_obj_write_reads_witness:
  "so_data (fst (the (CO_SUB_OBJ_write (ob_subs (sample_object 7) ! 0) [5, 6] 2))) = [0, 0]"
proof -
  have "CO_SUB_OBJ_write (ob_subs (sample_object 7) ! 0) [5, 6] 2
          = Some (ob_subs (sample_object 7) ! 0, [0, 0])"
    by (simp add: CO_SUB_OBJ_write_def sample_object_def CO_memcpy_def mem_read_def mem_write_def)
  moreover from this have "fst (the (CO_SUB_OBJ_write (ob_subs (sample_object 7) ! 0) [5, 6] 2))
      = ob_subs (sample_object 7) ! 0"
    using sub_obj_write_reads [of "ob_subs (sample_object 7) ! 0" "[5, 6]" 2] by auto
  ultimately show ?thesis by (simp add: sample_object_def)
qed

text \<open>
  The two pointer accessors disagree on their bound. For a number below \<open>number\<close> the object
  pointer refers to a live entry, and the sub object pointer to a live sub object or is NULL.
  For the number \<open>number\<close> itself the sub object accessor answers NULL and the object accessor
  a pointer one past the end of the list.\<close>

theorem od_object_pointer_one_past_end:
  assumes "od_sorted od" "\<forall>ob \<in> set (od_list od). unat (ob_sub_number ob) = length (ob_subs ob)"
  shows "(\<forall>no < od_number od. no \<noteq> OD_UNSUPPORT_ENTRY \<longrightarrow>
            (\<exists>i < length (od_list od). CO_OD_get_object_pointer od no = Ref i)
          \<and> (\<forall>sub. CO_OD_get_sub_object_pointer od no sub = Some NULL
                 \<or> (\<exists>i j. CO_OD_get_sub_object_pointer od no sub = Some (Ref (i, j))
                      \<and> i < length (od_list od) \<and> j < length (ob_subs (od_list od ! i)))))
       \<and> (od_number od \<noteq> OD_UNSUPPORT_ENTRY \<longrightarrow>
            CO_OD_get_sub_object_pointer od (od_number od) sub' = Some NULL
          \<and> CO_OD_get_object_pointer od (od_number od) = Ref (length (od_list od)))"
proof (intro conjI allI impI)
  fix no sub
  assume no: "no < od_number od" "no \<noteq> OD_UNSUPPORT_ENTRY"
  have i: "unat no < length (od_list od)"
    using assms(1) no(1) by (simp add: od_sorted_def word_less_nat_alt)
  show "\<exists>i < length (od_list od). CO_OD_get_object_pointer od no = Ref i"
    using i no by (auto simp: CO_OD_get_object_pointer_def)
  have "unat (ob_sub_number (od_list od ! unat no)) = length (ob_subs (od_list od ! unat no))"
    using assms(2) i by simp
  then show "CO_OD_get_sub_object_pointer od no sub = Some NULL
      \<or> (\<exists>i j. CO_OD_get_sub_object_pointer od no sub = Some (Ref (i, j))
           \<and> i < length (od_list od) \<and> j < length (ob_subs (od_list od ! i)))"
    using i no by (auto simp: CO_OD_get_sub_object_pointer_def mem_simps word_le_nat_alt)
next
  assume "od_number od \<noteq> OD_UNSUPPORT_ENTRY"
  then show "CO_OD_get_sub_object_pointer od (od_number od) sub' = Some NULL"
    and "CO_OD_get_object_pointer od (od_number od) = Ref (length (od_list od))"
    using assms(1) by (simp_all add: CO_OD_get_sub_object_pointer_def
        CO_OD_get_object_pointer_def od_sorted_def)
qed

lemma od_object_pointer_one_past_end_witness:
  "CO_OD_get_object_pointer sample_od 3 = Ref 3"
  using od_object_pointer_one_past_end [OF sample_od_sorted, of 0]
  by (simp add: sample_od_def sample_object_def OD_UNSUPPORT_ENTRY_def)

end
