(* ===== verification/Co_Sync.thy ===== *)
theory Co_Sync
  imports Co_Od
begin

section \<open>CAN messages and the SYNC object\<close>

text \<open>
  This theory models \<open>common/upgrade/loader/libs/canopen/CO_CAN_Msg.h\<close> (a CAN message and
  the bit fields of its identifier) and \<open>CO_SYNC.c\<close>/\<open>CO_SYNC.h\<close> (the producer and the
  consumer of the synchronisation message). A call of the application's \<open>co_can_send\<close> is a
  message in the list of sent messages an operation returns.
\<close>

subsection \<open>Messages\<close>

record CO_CAN_Msg =
  msg_id :: u32
  msg_data :: bytes
  msg_len :: u8
  msg_new :: bool

text \<open>The bit fields of \<open>co_id_t\<close>.\<close>

definition cob_node_id :: "u32 \<Rightarrow> u32" where
  "cob_node_id cid = cid AND 0x7F"

definition cob_bit_30 :: "u32 \<Rightarrow> u32" where
  "cob_bit_30 cid = drop_bit 30 cid AND 1"

definition cob_valid :: "u32 \<Rightarrow> u32" where
  "cob_valid cid = drop_bit 31 cid AND 1"

definition set_node_id :: "u32 \<Rightarrow> u32 \<Rightarrow> u32" where
  "set_node_id cid v = (cid AND NOT 0x7F) OR (v AND 0x7F)"

definition set_cob_valid :: "u32 \<Rightarrow> u32 \<Rightarrow> u32" where
  "set_cob_valid cid v = (cid AND mask 31) OR push_bit 31 (v AND 1)"

definition set_can_id :: "u32 \<Rightarrow> u32 \<Rightarrow> u32" where
  "set_can_id cid v = (cid AND 0xE0000000) OR (v AND 0x1FFFFFFF)"

lemma set_cob_valid_again [simp]: "set_cob_valid (set_cob_valid w v') v = set_cob_valid w v"
  by (rule bit_word_eqI) (auto simp: set_cob_valid_def bit_simps)

lemma cob_valid_set [simp]: "cob_valid (set_cob_valid w v) = v AND 1"
  by (rule bit_word_eqI) (auto simp: cob_valid_def set_cob_valid_def bit_simps)

lemma set_cob_valid_same [simp]: "set_cob_valid w (cob_valid w) = w"
proof (rule bit_word_eqI)
  fix n
  assume "n < LENGTH(32)"
  then consider "n < 31" | "n = 31" by force
  then show "bit (set_cob_valid w (cob_valid w)) n = bit w n"
    by cases (auto simp: cob_valid_def set_cob_valid_def bit_simps)
qed

subsection \<open>The SYNC object\<close>

record CO_SYNC =
  sy_msg :: CO_CAN_Msg
  cycle_period_ms :: u16
  window_length_ms :: u16
  max_sync_counter :: u16
  max_aux_sync_counter :: u8
  index_in_cycle :: u16
  time_in_cycle_ms :: u16
  sync_counter :: u16
  aux_sync_counter :: u8
  aux_sync_reg :: u32
  is_inside_window :: bool

text \<open>The entries of the communication profile the object is initialised from.\<close>

record sync_para =
  x1005_cob_id_sync_message :: u32
  x1006_comm_cycle_period_ms :: u16
  x1007_sync_window_length_ms :: u16
  x1019_sync_cter_over_flow_value :: u16
  x1030_sync_bit_pos_over_flow_value :: u8

definition CO_SYNC_init :: "CO_SYNC \<Rightarrow> sync_para \<Rightarrow> CO_SYNC" where
  "CO_SYNC_init s p =
     s\<lparr>sy_msg := (sy_msg s)\<lparr>msg_len := 3, msg_id := x1005_cob_id_sync_message p, msg_new := False\<rparr>,
       cycle_period_ms := x1006_comm_cycle_period_ms p,
       window_length_ms := x1007_sync_window_length_ms p,
       max_sync_counter := x1019_sync_cter_over_flow_value p,
       max_aux_sync_counter := x1030_sync_bit_pos_over_flow_value p,
       index_in_cycle := 0, time_in_cycle_ms := 0, sync_counter := 0, aux_sync_counter := 0,
       aux_sync_reg := 0, is_inside_window := False\<rparr>"

text \<open>\<open>0x0001 << aux_sync_counter\<close>: a shift by 32 or more is undefined.\<close>

definition CO_SYNC_update_aux_sync_reg :: "CO_SYNC \<Rightarrow> CO_SYNC option" where
  "CO_SYNC_update_aux_sync_reg s =
     (if unat (aux_sync_counter s) < 32
      then Some (s\<lparr>aux_sync_reg := push_bit (unat (aux_sync_counter s)) 1\<rparr>) else None)"

definition CO_SYNC_send :: "CO_SYNC \<Rightarrow> (CO_SYNC \<times> CO_CAN_Msg) option" where
  "CO_SYNC_send s =
     do { d \<leftarrow> CO_setUint16 (msg_data (sy_msg s)) 0 (sync_counter s);
          d \<leftarrow> mem_set d 2 (aux_sync_counter s);
          let m = (sy_msg s)\<lparr>msg_data := d\<rparr>;
          Some (s\<lparr>sy_msg := m\<rparr>, m) }"

text \<open>The two timers: a sum that wraps leaves the timer as it is.\<close>

definition sync_advance :: "CO_SYNC \<Rightarrow> u16 \<Rightarrow> CO_SYNC" where
  "sync_advance s time_diff_ms =
     (let timer_new = time_in_cycle_ms s + time_diff_ms;
          s = (if timer_new > time_in_cycle_ms s then s\<lparr>time_in_cycle_ms := timer_new\<rparr> else s);
          index_new = index_in_cycle s + 1
      in (if index_new > index_in_cycle s then s\<lparr>index_in_cycle := index_new\<rparr> else s))"

text \<open>The producer's counters: the 16 bit counter runs through 1 to its maximum, and each
  overflow advances the auxiliary counter.\<close>

definition sync_count :: "CO_SYNC \<Rightarrow> CO_SYNC option" where
  "sync_count s =
     (let s = s\<lparr>sync_counter := sync_counter s + 1\<rparr> in
      if sync_counter s > max_sync_counter s then
        (let s = s\<lparr>sync_counter := 1, aux_sync_counter := aux_sync_counter s + 1\<rparr>;
             s = (if aux_sync_counter s > max_aux_sync_counter s
                  then s\<lparr>aux_sync_counter := 0\<rparr> else s)
         in CO_SYNC_update_aux_sync_reg s)
      else Some s)"

definition sync_produce :: "CO_SYNC \<Rightarrow> (CO_SYNC \<times> CO_CAN_Msg list) option" where
  "sync_produce s =
     (if time_in_cycle_ms s \<ge> cycle_period_ms s then
        do { s \<leftarrow> sync_count s;
             (s, m) \<leftarrow> CO_SYNC_send s;
             Some (s\<lparr>index_in_cycle := 0, time_in_cycle_ms := 0\<rparr>, [m]) }
      else Some (s, []))"

definition sync_consume :: "CO_SYNC \<Rightarrow> CO_SYNC option" where
  "sync_consume s =
     (if msg_new (sy_msg s) then
        do { c \<leftarrow> CO_getUint16 (msg_data (sy_msg s)) 0;
             a \<leftarrow> mem_get (msg_data (sy_msg s)) 2;
             s \<leftarrow> CO_SYNC_update_aux_sync_reg (s\<lparr>sync_counter := c, aux_sync_counter := a\<rparr>);
             Some (s\<lparr>index_in_cycle := 0, time_in_cycle_ms := 0,
                     sy_msg := (sy_msg s)\<lparr>msg_new := False\<rparr>\<rparr>) }
      else Some s)"

definition CO_SYNC_process :: "CO_SYNC \<Rightarrow> bool \<Rightarrow> u16 \<Rightarrow> (CO_SYNC \<times> CO_CAN_Msg list) option" where
  "CO_SYNC_process s nmt_is_pre_or_operational time_diff_ms =
     (if cob_valid (msg_id (sy_msg s)) = 0 then
        do { let s = sync_advance s time_diff_ms;
             (s, sent) \<leftarrow> (if cob_bit_30 (msg_id (sy_msg s)) = 1 then sync_produce s
                           else do { s \<leftarrow> sync_consume s; Some (s, []) });
             Some (s\<lparr>is_inside_window := (time_in_cycle_ms s \<le> window_length_ms s)\<rparr>, sent) }
      else Some (s, []))"

definition CO_SYNC_is_in_window_length :: "CO_SYNC \<Rightarrow> bool" where
  "CO_SYNC_is_in_window_length s = is_inside_window s"

definition CO_SYNC_is_match_sync_mask_reg :: "CO_SYNC \<Rightarrow> u32 \<Rightarrow> bool" where
  "CO_SYNC_is_match_sync_mask_reg s sync_mask = (aux_sync_reg s AND sync_mask \<noteq> 0)"

subsection \<open>Facts\<close>

lemma sync_advance_sel [simp]:
  "sy_msg (sync_advance s d) = sy_msg s"
  "cycle_period_ms (sync_advance s d) = cycle_period_ms s"
  "window_length_ms (sync_advance s d) = window_length_ms s"
  "max_sync_counter (sync_advance s d) = max_sync_counter s"
  "max_aux_sync_counter (sync_advance s d) = max_aux_sync_counter s"
  "sync_counter (sync_advance s d) = sync_counter s"
  "aux_sync_counter (sync_advance s d) = aux_sync_counter s"
  "aux_sync_reg (sync_advance s d) = aux_sync_reg s"
  by (simp_all add: sync_advance_def Let_def)

text \<open>What a producer keeps: its message has room for three bytes, its auxiliary counter
  stays below the bits of the register, its register shows the counter once it has counted.\<close>

definition sync_wf :: "CO_SYNC \<Rightarrow> bool" where
  "sync_wf s \<longleftrightarrow> length (msg_data (sy_msg s)) = 8 \<and> unat (max_aux_sync_counter s) < 32
     \<and> aux_sync_counter s \<le> max_aux_sync_counter s \<and> sync_counter s \<le> max_sync_counter s
     \<and> 0 < max_sync_counter s \<and> max_sync_counter s < 65535"

lemma sync_count_wf:
  assumes "sync_wf s"
  shows "\<exists>s'. sync_count s = Some s' \<and> sync_wf s' \<and> sy_msg s' = sy_msg s \<and> 1 \<le> sync_counter s'
     \<and> cycle_period_ms s' = cycle_period_ms s \<and> window_length_ms s' = window_length_ms s"
proof -
  have no_wrap: "unat (sync_counter s + 1) = unat (sync_counter s) + 1"
    using assms by (intro od_upper [of _ 65535]) (auto simp: sync_wf_def)
  then have pos: "1 \<le> sync_counter s + 1"
    by (simp add: word_le_nat_alt)
  have aux: "unat (aux_sync_counter s + 1) < 32"
    if "aux_sync_counter s + 1 \<le> max_aux_sync_counter s"
    using that assms by (auto simp: sync_wf_def word_le_nat_alt)
  show ?thesis
    using assms pos aux
    by (auto simp: sync_count_def Let_def CO_SYNC_update_aux_sync_reg_def sync_wf_def not_less
        word_less_nat_alt word_le_nat_alt)
qed

definition sync_producer :: "CO_SYNC \<Rightarrow> bool" where
  "sync_producer s \<longleftrightarrow> cob_valid (msg_id (sy_msg s)) = 0 \<and> cob_bit_30 (msg_id (sy_msg s)) = 1"

definition sync_consumer :: "CO_SYNC \<Rightarrow> bool" where
  "sync_consumer s \<longleftrightarrow> cob_valid (msg_id (sy_msg s)) = 0 \<and> cob_bit_30 (msg_id (sy_msg s)) \<noteq> 1"

text \<open>The CAN layer stores the bytes of a received message and marks it new.\<close>

definition sync_receive :: "CO_SYNC \<Rightarrow> bytes \<Rightarrow> CO_SYNC" where
  "sync_receive s d = s\<lparr>sy_msg := (sy_msg s)\<lparr>msg_data := d, msg_new := True\<rparr>\<rparr>"

lemma sync_receive_msg [simp]:
  "sy_msg (sync_receive s d) = (sy_msg s)\<lparr>msg_data := d, msg_new := True\<rparr>"
  by (simp add: sync_receive_def)

lemma sync_send_room:
  assumes "length (msg_data (sy_msg s)) = 8"
  shows "\<exists>d. CO_SYNC_send s = Some (s\<lparr>sy_msg := (sy_msg s)\<lparr>msg_data := d\<rparr>\<rparr>,
             (sy_msg s)\<lparr>msg_data := d\<rparr>)
     \<and> length d = 8 \<and> CO_getUint16 d 0 = Some (sync_counter s)
     \<and> mem_get d 2 = Some (aux_sync_counter s)"
  using assms
  by (intro exI [of _ "(msg_data (sy_msg s))[0 := byte_lo (sync_counter s),
        Suc 0 := byte_hi (sync_counter s), 2 := aux_sync_counter s]"])
    (simp add: CO_SYNC_send_def CO_setUint16_def CO_getUint16_def mem_simps layout_simps Let_def)

lemma sync_consume_new:
  assumes "CO_getUint16 d 0 = Some k" "mem_get d 2 = Some a" "unat a < 32"
  shows "sync_consume (sync_receive s d) = Some (s\<lparr>sync_counter := k, aux_sync_counter := a,
    aux_sync_reg := push_bit (unat a) 1, index_in_cycle := 0, time_in_cycle_ms := 0,
    sy_msg := (sy_msg s)\<lparr>msg_data := d\<rparr>\<rparr>\<lparr>sy_msg := (sy_msg s)\<lparr>msg_data := d, msg_new := False\<rparr>\<rparr>)"
  using assms by (simp add: sync_consume_def sync_receive_def CO_SYNC_update_aux_sync_reg_def)

lemma sync_advance_receive:
  "sync_advance (sync_receive s d) t = sync_receive (sync_advance s t) d"
  by (simp add: sync_advance_def sync_receive_def Let_def)

lemma sync_process_receive:
  assumes "sync_consumer s" "CO_getUint16 d 0 = Some k" "mem_get d 2 = Some a" "unat a < 32"
  shows "\<exists>s'. CO_SYNC_process (sync_receive s d) b t = Some (s', [])
     \<and> sync_counter s' = k \<and> aux_sync_counter s' = a \<and> aux_sync_reg s' = push_bit (unat a) 1
     \<and> index_in_cycle s' = 0 \<and> time_in_cycle_ms s' = 0 \<and> is_inside_window s' \<and> \<not> msg_new (sy_msg s')"
  using assms
  by (simp add: CO_SYNC_process_def sync_advance_receive sync_consume_new sync_consumer_def)

text \<open>The counters after those of \<open>s\<close>: the 16 bit counter, then the auxiliary one, each from its maximum to its start.\<close>

definition next_counters :: "CO_SYNC \<Rightarrow> u16 \<times> u8" where
  "next_counters s =
     (if sync_counter s < max_sync_counter s then (sync_counter s + 1, aux_sync_counter s)
      else (1, if aux_sync_counter s < max_aux_sync_counter s then aux_sync_counter s + 1 else 0))"

lemma sync_count_next:
  assumes "sync_wf s" "sync_count s = Some s'"
  shows "(sync_counter s', aux_sync_counter s') = next_counters s"
proof -
  have c: "unat (sync_counter s + 1) = unat (sync_counter s) + 1"
    using assms(1) by (intro od_upper [of _ 65535]) (auto simp: sync_wf_def)
  have a: "unat (aux_sync_counter s + 1) = unat (aux_sync_counter s) + 1"
    using assms(1) by (intro unat_inc [THEN trans, of _ 255]) (auto simp: sync_wf_def word_less_nat_alt word_le_nat_alt)
  show ?thesis
    using assms c a
    by (auto simp: sync_count_def next_counters_def Let_def CO_SYNC_update_aux_sync_reg_def sync_wf_def
        word_less_nat_alt word_le_nat_alt split: if_splits)
qed

subsection \<open>Properties\<close>

text \<open>C22:
  When the cycle period of a well-formed SYNC producer has elapsed, one call of
  \<open>CO_SYNC_process\<close> advances the counters (the 16 bit counter from 1 to its maximum and round again, the auxiliary
  counter from 0 to its maximum, by one at each round), sends one message and restarts the cycle: time and index in the
  cycle are 0, the window is open, and the producer is well formed. A consumer that receives the message and
  processes it takes over both counters, restarts its cycle likewise, and has exactly the bit of the auxiliary
  counter in its register. Well formed means an 8 byte message buffer, a maximum of the counter between 1
  and 65534, one of the auxiliary counter of at most 31, and counters not above their maxima.\<close>

theorem sync_consumer_follows_producer:
  assumes "sync_wf s" "sync_producer s" "cycle_period_ms s \<le> time_in_cycle_ms (sync_advance s dt)"
    and "sync_consumer c"
  shows "\<exists>s' m c'. CO_SYNC_process s b dt = Some (s', [m]) \<and> sync_wf s'
     \<and> (sync_counter s', aux_sync_counter s') = next_counters s
     \<and> 1 \<le> sync_counter s' \<and> sync_counter s' \<le> max_sync_counter s'
     \<and> index_in_cycle s' = 0 \<and> time_in_cycle_ms s' = 0 \<and> is_inside_window s'
     \<and> CO_SYNC_process (sync_receive c (msg_data m)) b' dt' = Some (c', [])
     \<and> sync_counter c' = sync_counter s' \<and> aux_sync_counter c' = aux_sync_counter s'
     \<and> index_in_cycle c' = 0 \<and> time_in_cycle_ms c' = 0 \<and> is_inside_window c'
     \<and> (\<forall>i. bit (aux_sync_reg c') i \<longleftrightarrow> i = unat (aux_sync_counter s'))"
proof -
  have wf: "sync_wf (sync_advance s dt)" using assms(1) by (simp add: sync_wf_def)
  obtain t where t: "sync_count (sync_advance s dt) = Some t" "sync_wf t"
      "1 \<le> sync_counter t" "sy_msg t = sy_msg s"
    using sync_count_wf [OF wf] by auto
  have "length (msg_data (sy_msg t)) = 8" using t(2) by (simp add: sync_wf_def)
  from sync_send_room [OF this] obtain d where d:
    "CO_SYNC_send t = Some (t\<lparr>sy_msg := (sy_msg t)\<lparr>msg_data := d\<rparr>\<rparr>, (sy_msg t)\<lparr>msg_data := d\<rparr>)"
    "length d = 8" "CO_getUint16 d 0 = Some (sync_counter t)"
    "mem_get d 2 = Some (aux_sync_counter t)" by blast
  have aux: "unat (aux_sync_counter t) < 32"
    using t(2) by (auto simp: sync_wf_def word_le_nat_alt)
  let ?u = "t\<lparr>sy_msg := (sy_msg t)\<lparr>msg_data := d\<rparr>, index_in_cycle := 0, time_in_cycle_ms := 0\<rparr>"
  let ?s = "?u\<lparr>is_inside_window := (time_in_cycle_ms ?u \<le> window_length_ms ?u)\<rparr>"
  have "CO_SYNC_process s b dt = Some (?s, [(sy_msg t)\<lparr>msg_data := d\<rparr>])"
    using assms(2,3) t(1,4) d(1)
    by (simp add: CO_SYNC_process_def sync_producer_def sync_produce_def)
  moreover have "sync_wf ?s" using t(2) d(2) by (simp add: sync_wf_def)
  moreover obtain c' where "CO_SYNC_process (sync_receive c d) b' dt' = Some (c', [])"
      "sync_counter c' = sync_counter t" "aux_sync_counter c' = aux_sync_counter t"
      "aux_sync_reg c' = push_bit (unat (aux_sync_counter t)) 1" "time_in_cycle_ms c' = 0"
      "index_in_cycle c' = 0" "is_inside_window c'"
    using sync_process_receive [OF assms(4) d(3,4) aux] by blast
  moreover have "(sync_counter t, aux_sync_counter t) = next_counters s"
    using sync_count_next [OF wf t(1)] by (simp add: next_counters_def)
  ultimately show ?thesis
    using t aux by (intro exI [of _ ?s] exI [of _ "(sy_msg t)\<lparr>msg_data := d\<rparr>"] exI [of _ c'])
      (auto simp: bit_simps sync_wf_def)
qed

definition sample_sync :: "u32 \<Rightarrow> CO_SYNC" where
  "sample_sync cid =
     \<lparr>sy_msg = \<lparr>msg_id = cid, msg_data = replicate 8 0, msg_len = 3, msg_new = False\<rparr>,
      cycle_period_ms = 10, window_length_ms = 5, max_sync_counter = 100,
      max_aux_sync_counter = 31, index_in_cycle = 0, time_in_cycle_ms = 9, sync_counter = 4,
      aux_sync_counter = 2, aux_sync_reg = 0, is_inside_window = False\<rparr>"

lemma sync_consumer_follows_producer_witness:
  "\<exists>s' m c'. CO_SYNC_process (sample_sync 0x40000080) True 1 = Some (s', [m])
     \<and> CO_SYNC_process (sync_receive (sample_sync 0x80) (msg_data m)) True 1 = Some (c', [])
     \<and> sync_counter c' = sync_counter s'"
  using sync_consumer_follows_producer
    [of "sample_sync 0x40000080" 1 "sample_sync 0x80" True True 1]
  by (force simp: sample_sync_def sync_wf_def sync_producer_def sync_consumer_def cob_valid_def
      cob_bit_30_def sync_advance_def)

text \<open>
  A consumer does not check the auxiliary counter of the message it receives: for every value
  from 32 on, updating the register shifts an \<open>int\<close> by more than its width.\<close>

theorem sync_message_shift_out_of_range:
  assumes "sync_consumer c" "length d = 8" "32 \<le> unat (d ! 2)"
  shows "CO_SYNC_process (sync_receive c d) b dt = None"
  using assms
  by (simp add: CO_SYNC_process_def sync_advance_receive sync_consumer_def sync_consume_def CO_SYNC_update_aux_sync_reg_def CO_getUint16_def
      mem_simps sync_receive_def [of "sync_advance c dt"])

lemma sync_message_shift_out_of_range_witness:
  "CO_SYNC_process (sync_receive (sample_sync 0x80) [1, 0, 32, 0, 0, 0, 0, 0]) True 1 = None"
  by (rule sync_message_shift_out_of_range)
    (simp_all add: sample_sync_def sync_consumer_def cob_valid_def cob_bit_30_def)

end
