(* ===== verification/Co_Sdo.thy ===== *)
theory Co_Sdo
  imports Co_Sync
begin

section \<open>The SDO object\<close>

text \<open>
  This theory models \<open>common/upgrade/loader/libs/canopen/CO_SDO.c\<close> and \<open>CO_SDO.h\<close>: the
  object that the SDO server and the SDO client share, its timeout and the two abort paths.

  The object refers to its sub object by position: \<open>Od_sub i j\<close> is
  \<open>&p_od->list[i].subs[j]\<close>, \<open>Cli_sub\<close> the global \<open>temp_sdo_cli_sub_obj\<close> of the client.
  \<open>p_data_itf\<close> is one of the buffers of that sub object. The fields of the block transfer,
  which nothing uses, are left out. The record is extended with what lies outside the object:
  the client's global sub object, the messages passed to \<open>co_can_send\<close> so far, and the
  application's world.
\<close>

datatype CO_SDO_state =
  CO_SDO_ST_IDLE | CO_SDO_ST_ABORT
| CO_SDO_ST_DOWNLOAD_INITIATE_REQ | CO_SDO_ST_DOWNLOAD_INITIATE_RSP | CO_SDO_ST_DOWNLOAD_SEGMENTED
| CO_SDO_ST_UPLOAD_INITIATE_REQ | CO_SDO_ST_UPLOAD_INITIATE_RSP | CO_SDO_ST_UPLOAD_SEGMENTED

datatype CO_SDO_return = CO_SDO_RT_idle | CO_SDO_RT_busy | CO_SDO_RT_success | CO_SDO_RT_abort

text \<open>Command specifiers of the client and of the server, and the masks of their bits.\<close>

definition CCS_DOWNLOAD_INITIATE :: u8 where "CCS_DOWNLOAD_INITIATE = 1"
definition CCS_DOWNLOAD_SEGMENT :: u8 where "CCS_DOWNLOAD_SEGMENT = 0"
definition CCS_UPLOAD_INITIATE :: u8 where "CCS_UPLOAD_INITIATE = 2"
definition CCS_UPLOAD_SEGMENT :: u8 where "CCS_UPLOAD_SEGMENT = 3"
definition CCS_ABORT :: u8 where "CCS_ABORT = 4"
definition SCS_DOWNLOAD_INITIATED :: u8 where "SCS_DOWNLOAD_INITIATED = 3"
definition SCS_DOWNLOAD_SEGMENT :: u8 where "SCS_DOWNLOAD_SEGMENT = 1"
definition SCS_UPLOAD_INITIATE :: u8 where "SCS_UPLOAD_INITIATE = 2"
definition SCS_UPLOAD_SEGMENT :: u8 where "SCS_UPLOAD_SEGMENT = 0"
definition SCS_ABORT :: u8 where "SCS_ABORT = 4"

lemmas cs_defs = CCS_DOWNLOAD_INITIATE_def CCS_DOWNLOAD_SEGMENT_def CCS_UPLOAD_INITIATE_def
  CCS_UPLOAD_SEGMENT_def CCS_ABORT_def SCS_DOWNLOAD_INITIATED_def SCS_DOWNLOAD_SEGMENT_def
  SCS_UPLOAD_INITIATE_def SCS_UPLOAD_SEGMENT_def SCS_ABORT_def

definition SDO_MASK_INIT_S_BIT :: u8 where "SDO_MASK_INIT_S_BIT = 0x01"
definition SDO_MASK_INIT_E_BIT :: u8 where "SDO_MASK_INIT_E_BIT = 0x02"
definition SDO_MASK_INIT_N_BIT :: u8 where "SDO_MASK_INIT_N_BIT = 0x0C"
definition SDO_MASK_INIT_ES_BIT :: u8 where "SDO_MASK_INIT_ES_BIT = 0x03"
definition SDO_MASK_SEG_C_BIT :: u8 where "SDO_MASK_SEG_C_BIT = 0x01"
definition SDO_MASK_SEG_T_BIT :: u8 where "SDO_MASK_SEG_T_BIT = 0x10"

lemmas mask_defs = SDO_MASK_INIT_S_BIT_def SDO_MASK_INIT_E_BIT_def SDO_MASK_INIT_N_BIT_def
  SDO_MASK_INIT_ES_BIT_def SDO_MASK_SEG_C_BIT_def SDO_MASK_SEG_T_BIT_def

text \<open>Abort codes.\<close>

definition CO_SDO_AB_NONE :: u32 where "CO_SDO_AB_NONE = 0"
definition CO_SDO_AB_TOGGLE_BIT :: u32 where "CO_SDO_AB_TOGGLE_BIT = 0x05030000"
definition CO_SDO_AB_TIMEOUT :: u32 where "CO_SDO_AB_TIMEOUT = 0x05040000"
definition CO_SDO_AB_CMD :: u32 where "CO_SDO_AB_CMD = 0x05040001"
definition CO_SDO_AB_OUT_OF_MEM :: u32 where "CO_SDO_AB_OUT_OF_MEM = 0x05040005"
definition CO_SDO_AB_UNSUPPORTED_ACCESS :: u32 where "CO_SDO_AB_UNSUPPORTED_ACCESS = 0x06010000"
definition CO_SDO_AB_PRAM_INCOMPAT :: u32 where "CO_SDO_AB_PRAM_INCOMPAT = 0x06040043"
definition CO_SDO_AB_TYPE_MISMATCH :: u32 where "CO_SDO_AB_TYPE_MISMATCH = 0x06070010"
definition CO_SDO_AB_SUB_UNKNOWN :: u32 where "CO_SDO_AB_SUB_UNKNOWN = 0x06090011"
definition CO_SDO_AB_NO_RESOURCE :: u32 where "CO_SDO_AB_NO_RESOURCE = 0x060A0023"
definition CO_SDO_AB_GENERAL :: u32 where "CO_SDO_AB_GENERAL = 0x08000000"
definition CO_SDO_AB_DATA_LOC_CTRL :: u32 where "CO_SDO_AB_DATA_LOC_CTRL = 0x08000021"

lemmas abort_defs = CO_SDO_AB_NONE_def CO_SDO_AB_TOGGLE_BIT_def CO_SDO_AB_TIMEOUT_def
  CO_SDO_AB_CMD_def CO_SDO_AB_OUT_OF_MEM_def CO_SDO_AB_UNSUPPORTED_ACCESS_def
  CO_SDO_AB_PRAM_INCOMPAT_def CO_SDO_AB_TYPE_MISMATCH_def CO_SDO_AB_SUB_UNKNOWN_def
  CO_SDO_AB_NO_RESOURCE_def CO_SDO_AB_GENERAL_def CO_SDO_AB_DATA_LOC_CTRL_def

datatype sub_ptr = No_sub | Od_sub nat nat | Cli_sub

datatype data_itf = Itf_NULL | Itf_shadow | Itf_temp | Itf_data

record 'w CO_SDO =
  valid :: bool
  rx_msg :: CO_CAN_Msg
  tx_msg :: CO_CAN_Msg
  buffer_offset :: u16
  trans_data_len :: u16
  toggle :: u8
  trans_type :: u16
  sync_mask_reg :: u32
  object_no :: u16
  p_od :: "'w CO_OD"
  sd_index :: u16
  sd_sub_index :: u8
  p_sub_obj :: sub_ptr
  p_data_itf :: data_itf
  timeout_cter_ms :: u16
  allowed_timeout_ms :: u16
  p_sync :: "CO_SYNC ptr"
  is_internal_processing :: bool
  tx_abort_code :: u32
  rx_abort_code :: u32
  sd_state :: CO_SDO_state
  sd_status :: CO_SDO_return

record 'w sdo_run = "'w CO_SDO" +
  temp_sdo_cli_sub_obj :: "'w CO_Sub_Object"
  sent :: "CO_CAN_Msg list"
  app :: 'w

type_synonym 'w sdo_result = "(CO_SDO_return \<times> 'w sdo_run) option"

subsection \<open>The sub object of a transfer\<close>

text \<open>\<open>*p_sdo->p_sub_obj\<close>, and a write through that pointer.\<close>

definition the_sub :: "'w sdo_run \<Rightarrow> 'w CO_Sub_Object option" where
  "the_sub s = (case p_sub_obj s of
     No_sub \<Rightarrow> None
   | Od_sub i j \<Rightarrow> do { ob \<leftarrow> mem_get (od_list (p_od s)) i; mem_get (ob_subs ob) j }
   | Cli_sub \<Rightarrow> Some (temp_sdo_cli_sub_obj s))"

definition set_sub :: "'w CO_Sub_Object \<Rightarrow> 'w sdo_run \<Rightarrow> 'w sdo_run option" where
  "set_sub sub s = (case p_sub_obj s of
     No_sub \<Rightarrow> None
   | Od_sub i j \<Rightarrow>
       do { ob \<leftarrow> mem_get (od_list (p_od s)) i;
            subs \<leftarrow> mem_set (ob_subs ob) j sub;
            Some (s\<lparr>p_od := (p_od s)\<lparr>od_list := (od_list (p_od s))[i := ob\<lparr>ob_subs := subs\<rparr>]\<rparr>\<rparr>) }
   | Cli_sub \<Rightarrow> Some (s\<lparr>temp_sdo_cli_sub_obj := sub\<rparr>))"

text \<open>The buffer behind \<open>p_data_itf\<close>, and the sub object with that buffer replaced.\<close>

definition itf_buffer :: "data_itf \<Rightarrow> 'w CO_Sub_Object \<Rightarrow> bytes option" where
  "itf_buffer itf sub = (case itf of
     Itf_NULL \<Rightarrow> None
   | Itf_shadow \<Rightarrow> (case so_ext sub of NULL \<Rightarrow> None | Ref e \<Rightarrow> Some (p_shadow_data e))
   | Itf_temp \<Rightarrow> (case so_temp sub of NULL \<Rightarrow> None | Ref t \<Rightarrow> Some t)
   | Itf_data \<Rightarrow> Some (so_data sub))"

definition set_itf_buffer :: "data_itf \<Rightarrow> bytes \<Rightarrow> 'w CO_Sub_Object \<Rightarrow> 'w CO_Sub_Object" where
  "set_itf_buffer itf d sub = (case itf of
     Itf_NULL \<Rightarrow> sub
   | Itf_shadow \<Rightarrow>
       (case so_ext sub of NULL \<Rightarrow> sub | Ref e \<Rightarrow> sub\<lparr>so_ext := Ref (e\<lparr>p_shadow_data := d\<rparr>)\<rparr>)
   | Itf_temp \<Rightarrow> sub\<lparr>so_temp := Ref d\<rparr>
   | Itf_data \<Rightarrow> sub\<lparr>so_data := d\<rparr>)"

text \<open>\<open>CO_memcpy\<close> of \<open>n\<close> received bytes from \<open>rx_msg.data[from]\<close> into the buffer behind an
  interface pointer at an offset.\<close>

definition store_received :: "data_itf \<Rightarrow> nat \<Rightarrow> nat \<Rightarrow> u16 \<Rightarrow> 'w sdo_run \<Rightarrow> 'w sdo_run option" where
  "store_received itf off from n s =
     do { sub \<leftarrow> the_sub s;
          dst \<leftarrow> itf_buffer itf sub;
          dst \<leftarrow> CO_memcpy dst off (msg_data (rx_msg s)) from n;
          set_sub (set_itf_buffer itf dst sub) s }"

subsection \<open>Building and sending messages\<close>

definition set_tx_data :: "bytes \<Rightarrow> 'w sdo_run \<Rightarrow> 'w sdo_run" where
  "set_tx_data d s = s\<lparr>tx_msg := (tx_msg s)\<lparr>msg_data := d\<rparr>\<rparr>"

definition set_tx_byte :: "nat \<Rightarrow> u8 \<Rightarrow> 'w sdo_run \<Rightarrow> 'w sdo_run option" where
  "set_tx_byte i b s = do { d \<leftarrow> mem_set (msg_data (tx_msg s)) i b; Some (set_tx_data d s) }"

definition CO_CAN_send :: "'w sdo_run \<Rightarrow> 'w sdo_run" where
  "CO_CAN_send s = s\<lparr>sent := sent s @ [tx_msg s]\<rparr>"

subsection \<open>Timeout, abort and settings\<close>

definition CO_SDOtimeout_reset_and_activate :: "'w sdo_run \<Rightarrow> 'w sdo_run" where
  "CO_SDOtimeout_reset_and_activate s = s\<lparr>timeout_cter_ms := 1\<rparr>"

definition CO_SDOtimeout_reset_and_inactivate :: "'w sdo_run \<Rightarrow> 'w sdo_run" where
  "CO_SDOtimeout_reset_and_inactivate s = s\<lparr>timeout_cter_ms := 0\<rparr>"

definition CO_SDOtimeout_increase :: "u16 \<Rightarrow> 'w sdo_run \<Rightarrow> 'w sdo_run" where
  "CO_SDOtimeout_increase dt s = s\<lparr>timeout_cter_ms := timeout_cter_ms s + dt\<rparr>"

definition CO_SDOtimeout_is_timeout :: "'w sdo_run \<Rightarrow> bool" where
  "CO_SDOtimeout_is_timeout s = (timeout_cter_ms s > allowed_timeout_ms s)"

definition CO_SDOtimeout_is_activated :: "'w sdo_run \<Rightarrow> bool" where
  "CO_SDOtimeout_is_activated s = (timeout_cter_ms s > 0)"

definition set_rx_old :: "'w sdo_run \<Rightarrow> 'w sdo_run" where
  "set_rx_old s = s\<lparr>rx_msg := (rx_msg s)\<lparr>msg_new := False\<rparr>\<rparr>"

definition CO_SDO_abort :: "u32 \<Rightarrow> 'w sdo_run \<Rightarrow> 'w sdo_run" where
  "CO_SDO_abort code s =
     (set_rx_old (CO_SDOtimeout_reset_and_inactivate (s\<lparr>tx_abort_code := code\<rparr>)))
       \<lparr>is_internal_processing := False, sd_state := CO_SDO_ST_IDLE, sd_status := CO_SDO_RT_abort\<rparr>"

definition CO_SDO_abort_and_response :: "u32 \<Rightarrow> 'w sdo_run \<Rightarrow> 'w sdo_run option" where
  "CO_SDO_abort_and_response code s =
     do { s \<leftarrow> set_tx_byte 0 (push_bit 5 CCS_ABORT) s;
          d \<leftarrow> CO_setUint32 (msg_data (tx_msg s)) 4 code;
          let s = set_tx_data d s;
          let s = s\<lparr>tx_msg := (tx_msg s)\<lparr>msg_len := 8\<rparr>\<rparr>;
          Some (CO_SDO_abort code (CO_CAN_send s)) }"

definition abort_with :: "u32 \<Rightarrow> 'w sdo_run \<Rightarrow> 'w sdo_result" where
  "abort_with code s = do { s \<leftarrow> CO_SDO_abort_and_response code s; Some (CO_SDO_RT_abort, s) }"

definition CO_SDO_set_tx_abort_code :: "u32 \<Rightarrow> 'w sdo_run \<Rightarrow> 'w sdo_run" where
  "CO_SDO_set_tx_abort_code code s = s\<lparr>tx_abort_code := code\<rparr>"

definition CO_SDO_reset_tx_abort_code :: "'w sdo_run \<Rightarrow> 'w sdo_run" where
  "CO_SDO_reset_tx_abort_code s = s\<lparr>tx_abort_code := CO_SDO_AB_NONE\<rparr>"

definition CO_SDO_get_status :: "'w sdo_run \<Rightarrow> CO_SDO_return" where
  "CO_SDO_get_status s = sd_status s"

definition CO_SDO_reset_status :: "'w sdo_run \<Rightarrow> 'w sdo_run" where
  "CO_SDO_reset_status s = s\<lparr>sd_status := CO_SDO_RT_idle\<rparr>"

definition CO_SDO_set_transmission_type :: "u16 \<Rightarrow> 'w sdo_run \<Rightarrow> 'w sdo_run" where
  "CO_SDO_set_transmission_type t s =
     (let v = valid s; s = s\<lparr>valid := False\<rparr>; s = s\<lparr>trans_type := t\<rparr> in s\<lparr>valid := v\<rparr>)"

definition CO_SDO_set_sync_mask_reg :: "u32 \<Rightarrow> 'w sdo_run \<Rightarrow> 'w sdo_run" where
  "CO_SDO_set_sync_mask_reg m s =
     (let v = valid s; s = s\<lparr>valid := False\<rparr>; s = s\<lparr>sync_mask_reg := m\<rparr> in s\<lparr>valid := v\<rparr>)"

subsection \<open>One sub object of a dictionary\<close>

definition od_get :: "nat \<Rightarrow> nat \<Rightarrow> 'w CO_OD \<Rightarrow> 'w CO_Sub_Object option" where
  "od_get i j od = do { ob \<leftarrow> mem_get (od_list od) i; mem_get (ob_subs ob) j }"

definition od_put :: "nat \<Rightarrow> nat \<Rightarrow> 'w CO_Sub_Object \<Rightarrow> 'w CO_OD \<Rightarrow> 'w CO_OD" where
  "od_put i j sub od =
     od\<lparr>od_list := (od_list od)[i := (od_list od ! i)
          \<lparr>ob_subs := (ob_subs (od_list od ! i))[j := sub]\<rparr>]\<rparr>"

lemma od_get_cases:
  "od_get i j od = Some sub \<longleftrightarrow>
     i < length (od_list od) \<and> j < length (ob_subs (od_list od ! i))
     \<and> ob_subs (od_list od ! i) ! j = sub"
  by (auto simp: od_get_def mem_get_def split: if_splits)

lemma od_get_put: "od_get i j od = Some x \<Longrightarrow> od_get i j (od_put i j sub od) = Some sub"
  by (simp add: od_get_cases) (simp add: od_put_def)

lemma od_put_put [simp]: "od_put i j a (od_put i j b od) = od_put i j a od"
proof (cases "i < length (od_list od)")
  case True
  then show ?thesis by (simp add: od_put_def)
next
  case False
  then show ?thesis by (simp add: od_put_def list_update_beyond)
qed

lemma od_put_same: "od_get i j od = Some sub \<Longrightarrow> od_put i j sub od = od"
  by (auto simp: od_get_cases od_put_def)

lemma od_put_indices [simp]:
  "od_number (od_put i j sub od) = od_number od"
  "od_indices (od_list (od_put i j sub od)) = od_indices (od_list od)"
proof -
  have "map ob_index ((od_list od)[i := (od_list od ! i)\<lparr>ob_subs := x\<rparr>]) = map ob_index (od_list od)"
    for x
    by (cases "i < length (od_list od)")
      (auto intro!: nth_equalityI simp: nth_list_update list_update_beyond)
  then show "od_indices (od_list (od_put i j sub od)) = od_indices (od_list od)"
    by (simp add: od_put_def od_indices_def)
qed (simp add: od_put_def)

lemma the_sub_Od: "p_sub_obj s = Od_sub i j \<Longrightarrow> the_sub s = od_get i j (p_od s)"
  by (simp add: the_sub_def od_get_def)

lemma the_sub_Cli: "p_sub_obj s = Cli_sub \<Longrightarrow> the_sub s = Some (temp_sdo_cli_sub_obj s)"
  by (simp add: the_sub_def)

lemma set_sub_Od:
  "p_sub_obj s = Od_sub i j \<Longrightarrow> od_get i j (p_od s) = Some x \<Longrightarrow>
     set_sub sub s = Some (s\<lparr>p_od := od_put i j sub (p_od s)\<rparr>)"
  by (simp add: set_sub_def od_get_cases od_put_def mem_simps)

lemma set_sub_Cli:
  "p_sub_obj s = Cli_sub \<Longrightarrow> set_sub sub s = Some (s\<lparr>temp_sdo_cli_sub_obj := sub\<rparr>)"
  by (simp add: set_sub_def)

lemmas sub_simps = the_sub_Od the_sub_Cli set_sub_Od set_sub_Cli

subsection \<open>Facts the server and the client share\<close>

lemmas sdo_effects = set_tx_data_def CO_CAN_send_def CO_SDOtimeout_reset_and_activate_def
  CO_SDOtimeout_reset_and_inactivate_def CO_SDOtimeout_increase_def set_rx_old_def
  CO_SDO_reset_tx_abort_code_def

lemma set_tx_byte_Some [mem_simps]:
  "i < length (msg_data (tx_msg s)) \<Longrightarrow>
     set_tx_byte i b s = Some (set_tx_data ((msg_data (tx_msg s))[i := b]) s)"
  by (simp add: set_tx_byte_def mem_simps)

text \<open>An abort with response always sends one message and ends in the idle state.\<close>

lemma abort_with_Some:
  assumes "length (msg_data (tx_msg s)) = 8"
  shows "\<exists>s' m. abort_with code s = Some (CO_SDO_RT_abort, s') \<and> sent s' = sent s @ [m]
     \<and> length (msg_data m) = 8 \<and> msg_data m ! 0 = 0x80 \<and> CO_getUint32 (msg_data m) 4 = Some code
     \<and> sd_state s' = CO_SDO_ST_IDLE \<and> \<not> is_internal_processing s' \<and> \<not> msg_new (rx_msg s')
     \<and> tx_abort_code s' = code \<and> timeout_cter_ms s' = 0 \<and> p_od s' = p_od s
     \<and> tx_msg s' = m \<and> valid s' = valid s \<and> allowed_timeout_ms s' = allowed_timeout_ms s
     \<and> temp_sdo_cli_sub_obj s' = temp_sdo_cli_sub_obj s \<and> rx_abort_code s' = rx_abort_code s
     \<and> app s' = app s \<and> p_sub_obj s' = p_sub_obj s"
proof -
  let ?d = "(msg_data (tx_msg s))[0 := 0x80]"
  have len: "4 + 4 \<le> length ?d" using assms by simp
  show ?thesis
    using assms CO_getUint32_set [OF len, of code] len
    by (simp add: abort_with_def CO_SDO_abort_and_response_def CO_SDO_abort_def sdo_effects
        mem_simps CCS_ABORT_def Let_def)
qed

text \<open>The timeout has not passed when the next call comes within the allowed time.\<close>

definition in_time :: "'w sdo_run \<Rightarrow> u16 \<Rightarrow> bool" where
  "in_time s dt \<longleftrightarrow> timeout_cter_ms s \<le> 1 \<and> dt < allowed_timeout_ms s"

lemma in_time_no_timeout:
  assumes "in_time s dt"
  shows "\<not> CO_SDOtimeout_is_timeout (CO_SDOtimeout_increase dt s)"
proof -
  have "timeout_cter_ms s = 0 \<or> timeout_cter_ms s = 1"
    using assms by (auto simp: in_time_def word_le_nat_alt word_unat_eq_iff)
  moreover have "unat (dt + 1) = unat dt + 1"
    using assms by (intro od_upper [of _ "allowed_timeout_ms s"]) (simp add: in_time_def)
  ultimately show ?thesis
    using assms by (auto simp: in_time_def CO_SDOtimeout_is_timeout_def CO_SDOtimeout_increase_def
        word_less_nat_alt not_less add.commute)
qed

text \<open>The specifier byte of a segment: the toggle bit, and in the last one the number of unused
  bytes and the last-segment bit.\<close>

definition toggle_bit :: "u8 \<Rightarrow> bool" where
  "toggle_bit t \<longleftrightarrow> t = 0 \<or> t = 0x10"

lemma toggle_bit_flip [simp]: "toggle_bit t \<Longrightarrow> toggle_bit (t XOR 0x10)"
  by (auto simp: toggle_bit_def)

lemma toggle_flip_flip [simp]: "(t :: u8) XOR 0x10 XOR 0x10 = t"
  by (simp add: xor.assoc)

lemma small_u8:
  assumes "unat (m :: u8) \<le> 7"
  shows "m \<in> {0, 1, 2, 3, 4, 5, 6, 7}"
  using assms by (simp add: word_unat_eq_iff) linarith

lemma segment_cs:
  assumes "toggle_bit t" "unat m \<le> 7"
  shows "drop_bit 5 (t OR push_bit 1 m OR 1) = 0" "(t OR push_bit 1 m OR 1) AND 0x10 = t"
    "(t OR push_bit 1 m OR 1) AND 1 = 1"
    "drop_bit 5 t = 0" "t AND 0x10 = t" "t AND 1 = 0"
    "drop_bit 5 (0x20 OR t) = 1" "(0x20 OR t) AND 0x10 = t"
    "drop_bit 5 (0x60 OR t) = 3" "(0x60 OR t) AND 0x10 = t"
  using small_u8 [OF assms(2)] assms(1) by (auto simp: toggle_bit_def)

subsection \<open>Describing a transfer\<close>

text \<open>A request for the object \<open>ind\<close>, \<open>si\<close> with a command byte.\<close>

definition mux_of :: "bytes \<Rightarrow> u16 \<Rightarrow> u8 \<Rightarrow> bool" where
  "mux_of d ind si \<longleftrightarrow> length d = 8 \<and> CO_getUint16 d 1 = Some ind \<and> d ! 3 = si"

definition has_message :: "'w sdo_run \<Rightarrow> bytes \<Rightarrow> bool" where
  "has_message s d \<longleftrightarrow> msg_new (rx_msg s) \<and> msg_data (rx_msg s) = d \<and> length d = 8"

definition sdo_ready :: "'w sdo_run \<Rightarrow> CO_SDO_state \<Rightarrow> bool" where
  "sdo_ready s st \<longleftrightarrow> valid s \<and> sd_state s = st \<and> \<not> is_internal_processing s
     \<and> length (msg_data (tx_msg s)) = 8 \<and> timeout_cter_ms s \<le> 1"

definition transferring ::
  "'w sdo_run \<Rightarrow> CO_SDO_state \<Rightarrow> sub_ptr \<Rightarrow> u16 \<Rightarrow> u16 \<Rightarrow> u8 \<Rightarrow> bool" where
  "transferring s st p n off t \<longleftrightarrow> sdo_ready s st \<and> p_sub_obj s = p
     \<and> trans_data_len s = n \<and> buffer_offset s = off \<and> toggle s = t"

text \<open>What a step answers: one more message with the given bytes.\<close>

definition answered :: "'w sdo_run \<Rightarrow> 'w sdo_run \<Rightarrow> bytes \<Rightarrow> bool" where
  "answered s s' d \<longleftrightarrow> length d = 8
     \<and> (\<exists>m. sent s' = sent s @ [m] \<and> msg_data m = d)
     \<and> allowed_timeout_ms s' = allowed_timeout_ms s"

definition store_at :: "nat \<Rightarrow> bytes \<Rightarrow> 'w CO_Sub_Object \<Rightarrow> 'w CO_Sub_Object" where
  "store_at off bs sub =
     sub\<lparr>so_data := take off (so_data sub) @ bs @ drop (off + length bs) (so_data sub)\<rparr>"

text \<open>The specifier byte of an expedited transfer.\<close>

definition expedited_cs :: "u8 \<Rightarrow> u16 \<Rightarrow> u8" where
  "expedited_cs c n = push_bit 5 c OR (ucast (push_bit 2 (4 - n)) AND SDO_MASK_INIT_N_BIT)
     OR SDO_MASK_INIT_E_BIT OR SDO_MASK_INIT_S_BIT"

lemma expedited_cs_facts:
  assumes "0 < n" "n \<le> 4" "c = 1 \<or> c = 2"
  shows "drop_bit 5 (expedited_cs c n) = c" "expedited_cs c n AND 3 = 3"
    "4 - ucast (drop_bit 2 (expedited_cs c n AND 0x0C)) = n"
proof -
  have "n = 1 \<or> n = 2 \<or> n = 3 \<or> n = 4"
    using assms(1,2) by (simp add: word_unat_eq_iff word_le_nat_alt word_less_nat_alt) linarith
  then show "drop_bit 5 (expedited_cs c n) = c" "expedited_cs c n AND 3 = 3"
      "4 - ucast (drop_bit 2 (expedited_cs c n AND 0x0C)) = n"
    using assms(3) by (auto simp: expedited_cs_def mask_defs)
qed

text \<open>A segment: the toggle bit, the last-segment bit and the number of
  unused bytes in the last one, and the bytes of the object.\<close>

definition segment_of :: "bytes \<Rightarrow> u8 \<Rightarrow> nat \<Rightarrow> nat \<Rightarrow> bytes \<Rightarrow> bool" where
  "segment_of d t off n data \<longleftrightarrow> length d = 8 \<and>
     (if n \<le> off + 7
      then (\<exists>m. unat m \<le> 7 \<and> d ! 0 = t OR push_bit 1 m OR 1)
         \<and> take (n - off) (drop 1 d) = take (n - off) (drop off data)
      else d ! 0 = t \<and> drop 1 d = take 7 (drop off data))"

end
