(* ===== verification/Co_Sdo_Server.thy ===== *)
theory Co_Sdo_Server
  imports Co_Sdo
begin

section \<open>The SDO server\<close>

text \<open>
  This theory models \<open>common/upgrade/loader/libs/canopen/CO_SDOserver.c\<close> in the configuration
  of \<open>CO_config.h\<close>: the length of a transfer is checked, the last-segment bit is checked, the
  SYNC window is not used. One definition per function; a fault (a NULL or out of range access)
  is \<open>None\<close>.
\<close>

record sdo_server_para =
  x1031_node_id :: u8
  x1031_trans_type :: u16
  x1031_allow_timeout_ms :: u16

definition CO_SDOserver_init ::
  "'w sdo_run \<Rightarrow> sdo_server_para \<Rightarrow> CO_SYNC ptr \<Rightarrow> 'w CO_OD \<Rightarrow> 'w sdo_run" where
  "CO_SDOserver_init s p sync od =
     (CO_SDOtimeout_reset_and_inactivate (s
       \<lparr>valid := True,
        tx_msg := (tx_msg s)\<lparr>msg_id := set_can_id (msg_id (tx_msg s)) (0x580 + ucast (x1031_node_id p)),
                             msg_len := 8, msg_new := False\<rparr>,
        rx_msg := (rx_msg s)\<lparr>msg_id := set_can_id (msg_id (rx_msg s)) (0x600 + ucast (x1031_node_id p)),
                             msg_len := 0, msg_new := False\<rparr>,
        buffer_offset := 0, trans_data_len := 0, toggle := 0, trans_type := x1031_trans_type p,
        object_no := 0, p_od := od, sd_index := 0, sd_sub_index := 0,
        p_sub_obj := No_sub, p_data_itf := Itf_NULL\<rparr>))
       \<lparr>allowed_timeout_ms := x1031_allow_timeout_ms p, p_sync := sync,
        is_internal_processing := False, tx_abort_code := CO_SDO_AB_NONE,
        rx_abort_code := CO_SDO_AB_NONE, sd_state := CO_SDO_ST_IDLE, sd_status := CO_SDO_RT_idle\<rparr>"

definition CO_SDOserver_set_node_id :: "u8 \<Rightarrow> 'w sdo_run \<Rightarrow> 'w sdo_run" where
  "CO_SDOserver_set_node_id node s =
     (let v = valid s; s = s\<lparr>valid := False\<rparr>;
          s = s\<lparr>tx_msg := (tx_msg s)\<lparr>msg_id := set_node_id (msg_id (tx_msg s)) (ucast node)\<rparr>\<rparr>;
          s = s\<lparr>rx_msg := (rx_msg s)\<lparr>msg_id := set_node_id (msg_id (rx_msg s)) (ucast node)\<rparr>\<rparr>
      in s\<lparr>valid := v\<rparr>)"

definition CO_SDOserver_process_init_transfer_msg :: "'w sdo_run \<Rightarrow> 'w sdo_run option" where
  "CO_SDOserver_process_init_transfer_msg s =
     do { let s = s\<lparr>toggle := 0, buffer_offset := 0\<rparr>;
          b1 \<leftarrow> mem_get (msg_data (rx_msg s)) 1; s \<leftarrow> set_tx_byte 1 b1 s;
          b2 \<leftarrow> mem_get (msg_data (rx_msg s)) 2; s \<leftarrow> set_tx_byte 2 b2 s;
          b3 \<leftarrow> mem_get (msg_data (rx_msg s)) 3; set_tx_byte 3 b3 s }"

definition co_sdoserver_copy_shadow_data_to_operating_data :: "'w sdo_run \<Rightarrow> 'w sdo_run option" where
  "co_sdoserver_copy_shadow_data_to_operating_data s =
     do { sub \<leftarrow> the_sub s;
          shadow \<leftarrow> itf_buffer Itf_shadow sub;
          case so_temp sub of
            NULL \<Rightarrow>
              do { d \<leftarrow> CO_memcpy (so_data sub) 0 shadow 0 (so_len sub);
                   set_sub (sub\<lparr>so_data := d\<rparr>) s }
          | Ref t \<Rightarrow>
              do { t \<leftarrow> CO_memcpy t 0 shadow 0 (so_len sub);
                   d \<leftarrow> (if so_attr sub AND ODA_VWTE_after_reset = 0
                        then CO_memcpy (so_data sub) 0 shadow 0 (so_len sub)
                        else Some (so_data sub));
                   set_sub (sub\<lparr>so_temp := Ref t, so_data := d\<rparr>) s } }"

text \<open>A plain object takes over the temporary buffer, unless it takes effect after a reset.\<close>

definition copy_temp_to_data :: "'w sdo_run \<Rightarrow> 'w sdo_run option" where
  "copy_temp_to_data s =
     do { sub \<leftarrow> the_sub s;
          case so_temp sub of
            NULL \<Rightarrow> Some s
          | Ref t \<Rightarrow>
              (if so_attr sub AND ODA_VWTE_after_reset = 0 then
                 do { d \<leftarrow> CO_memcpy (so_data sub) 0 t 0 (so_len sub);
                      set_sub (sub\<lparr>so_data := d\<rparr>) s }
               else Some s) }"

text \<open>\<open>p_sdo->p_sub_obj->p_ext->confirm_func()\<close>, with \<open>p_ext\<close> dereferenced unchecked.\<close>

definition call_confirm :: "'w sdo_run \<Rightarrow> (CO_ext_confirm \<times> 'w sdo_run) option" where
  "call_confirm s =
     do { sub \<leftarrow> the_sub s;
          case so_ext sub of
            NULL \<Rightarrow> None
          | Ref e \<Rightarrow>
              (let (verdict, code, w) = confirm_func e (p_shadow_data e) (app s)
               in Some (verdict, s\<lparr>tx_abort_code := code, app := w\<rparr>)) }"

text \<open>The end of a download: a plain object is answered at once, an object with an extension
  switches to internal processing.\<close>

definition finish_download :: "'w sdo_run \<Rightarrow> 'w sdo_result" where
  "finish_download s =
     do { sub \<leftarrow> the_sub s;
          if is_null (so_ext sub) then
            do { s \<leftarrow> copy_temp_to_data s;
                 Some (CO_SDO_RT_success, (CO_CAN_send s)\<lparr>sd_state := CO_SDO_ST_IDLE\<rparr>) }
          else Some (CO_SDO_RT_busy,
                 (CO_SDOtimeout_reset_and_activate s)\<lparr>is_internal_processing := True\<rparr>) }"

text \<open>Internal processing of a download; both download handlers begin with it.\<close>

definition confirm_download :: "'w sdo_run \<Rightarrow> 'w sdo_result" where
  "confirm_download s =
     do { let s = CO_SDO_reset_tx_abort_code s;
          (verdict, s) \<leftarrow> call_confirm s;
          s \<leftarrow> (if verdict = CO_EXT_CONFIRM_copy_and_success
                then co_sdoserver_copy_shadow_data_to_operating_data s else Some s);
          if verdict = CO_EXT_CONFIRM_copy_and_success \<or> verdict = CO_EXT_CONFIRM_success then
            Some (CO_SDO_RT_success,
              (CO_CAN_send (CO_SDOtimeout_reset_and_inactivate (s\<lparr>is_internal_processing := False\<rparr>)))
                \<lparr>sd_state := CO_SDO_ST_IDLE\<rparr>)
          else if verdict = CO_EXT_CONFIRM_abort then
            (let s = CO_SDOtimeout_reset_and_inactivate (s\<lparr>is_internal_processing := False\<rparr>)
             in abort_with (if tx_abort_code s = CO_SDO_AB_NONE then CO_SDO_AB_DATA_LOC_CTRL
                            else tx_abort_code s) s)
          else Some (CO_SDO_RT_busy, s) }"

definition CO_SDOserver_download_initiate_response_handle :: "'w sdo_run \<Rightarrow> 'w sdo_result" where
  "CO_SDOserver_download_initiate_response_handle s =
     (if is_internal_processing s then confirm_download s
      else do {
        s \<leftarrow> CO_SDOserver_process_init_transfer_msg s;
        rx_cs \<leftarrow> mem_get (msg_data (rx_msg s)) 0;
        sub \<leftarrow> the_sub s;
        if rx_cs AND SDO_MASK_INIT_ES_BIT = SDO_MASK_INIT_ES_BIT then
          do { let s = s\<lparr>trans_data_len := 4 - ucast (drop_bit 2 (rx_cs AND SDO_MASK_INIT_N_BIT))\<rparr>;
               if so_len sub < trans_data_len s then abort_with CO_SDO_AB_OUT_OF_MEM s
               else do {
                 s \<leftarrow> store_received (p_data_itf s) 0 4 (trans_data_len s) s;
                 let s = s\<lparr>buffer_offset := trans_data_len s\<rparr>;
                 s \<leftarrow> set_tx_byte 0 (push_bit 5 SCS_DOWNLOAD_INITIATED) s;
                 finish_download s } }
        else if rx_cs AND SDO_MASK_INIT_ES_BIT = SDO_MASK_INIT_S_BIT then
          do { n \<leftarrow> CO_getUint32 (msg_data (rx_msg s)) 4;
               let s = s\<lparr>trans_data_len := ucast n\<rparr>;
               if so_len sub < trans_data_len s then abort_with CO_SDO_AB_OUT_OF_MEM s
               else do {
                 let s = s\<lparr>buffer_offset := 0\<rparr>;
                 s \<leftarrow> set_tx_byte 0 (push_bit 5 SCS_DOWNLOAD_INITIATED) s;
                 Some (CO_SDO_RT_busy,
                   (CO_CAN_send (CO_SDOtimeout_reset_and_activate s))
                     \<lparr>sd_state := CO_SDO_ST_DOWNLOAD_SEGMENTED\<rparr>) } }
        else abort_with CO_SDO_AB_TYPE_MISMATCH s })"

definition CO_SDOserver_download_segment_handle :: "'w sdo_run \<Rightarrow> 'w sdo_result" where
  "CO_SDOserver_download_segment_handle s =
     (if is_internal_processing s then confirm_download s
      else do {
        rx_cs \<leftarrow> mem_get (msg_data (rx_msg s)) 0;
        if CCS_DOWNLOAD_SEGMENT \<noteq> drop_bit 5 rx_cs then abort_with CO_SDO_AB_NO_RESOURCE s
        else if rx_cs AND SDO_MASK_SEG_T_BIT \<noteq> toggle s then abort_with CO_SDO_AB_TOGGLE_BIT s
        else if unat (trans_data_len s) \<le> unat (buffer_offset s) + 7 then
          (if rx_cs AND SDO_MASK_SEG_C_BIT \<noteq> 1 then abort_with CO_SDO_AB_GENERAL s
           else do {
             s \<leftarrow> store_received (p_data_itf s) (unat (buffer_offset s)) 1
                   (trans_data_len s - buffer_offset s) s;
             let s = s\<lparr>buffer_offset := trans_data_len s\<rparr>;
             s \<leftarrow> set_tx_byte 0 (push_bit 5 SCS_DOWNLOAD_SEGMENT OR toggle s) s;
             finish_download s })
        else
          (if rx_cs AND SDO_MASK_SEG_C_BIT = 1 then abort_with CO_SDO_AB_GENERAL s
           else do {
             s \<leftarrow> store_received (p_data_itf s) (unat (buffer_offset s)) 1 7 s;
             let s = s\<lparr>buffer_offset := buffer_offset s + 7\<rparr>;
             s \<leftarrow> set_tx_byte 0 (push_bit 5 SCS_DOWNLOAD_SEGMENT OR toggle s) s;
             let s = CO_CAN_send (CO_SDOtimeout_reset_and_activate s);
             Some (CO_SDO_RT_busy, s\<lparr>toggle := toggle s XOR 0x10\<rparr>) }) })"

definition CO_SDOserver_upload_initiate_response_handle :: "'w sdo_run \<Rightarrow> 'w sdo_result" where
  "CO_SDOserver_upload_initiate_response_handle s =
     do { s \<leftarrow> CO_SDOserver_process_init_transfer_msg s;
          sub \<leftarrow> the_sub s;
          let s = s\<lparr>trans_data_len := so_len sub\<rparr>;
          if trans_data_len s \<le> 4 then
            do { s \<leftarrow> set_tx_byte 0 (push_bit 5 SCS_UPLOAD_INITIATE
                       OR (ucast (push_bit 2 (4 - trans_data_len s)) AND SDO_MASK_INIT_N_BIT)
                       OR SDO_MASK_INIT_E_BIT OR SDO_MASK_INIT_S_BIT) s;
                 d \<leftarrow> CO_memcpy (msg_data (tx_msg s)) 4 (so_data sub) 0 (trans_data_len s);
                 let s = CO_CAN_send (set_tx_data d s);
                 Some (CO_SDO_RT_success,
                   s\<lparr>buffer_offset := trans_data_len s, sd_state := CO_SDO_ST_IDLE\<rparr>) }
          else
            do { s \<leftarrow> set_tx_byte 0 (push_bit 5 SCS_UPLOAD_INITIATE OR SDO_MASK_INIT_S_BIT) s;
                 d \<leftarrow> CO_setUint32 (msg_data (tx_msg s)) 4 (ucast (trans_data_len s));
                 let s = CO_CAN_send (set_tx_data d s);
                 Some (CO_SDO_RT_busy,
                   (CO_SDOtimeout_reset_and_activate s)\<lparr>sd_state := CO_SDO_ST_UPLOAD_SEGMENTED\<rparr>) } }"

definition CO_SDOserver_upload_segment_handle :: "'w sdo_run \<Rightarrow> 'w sdo_result" where
  "CO_SDOserver_upload_segment_handle s =
     do { rx_cs \<leftarrow> mem_get (msg_data (rx_msg s)) 0;
          if CCS_UPLOAD_SEGMENT \<noteq> drop_bit 5 rx_cs then abort_with CO_SDO_AB_NO_RESOURCE s
          else if rx_cs AND SDO_MASK_SEG_T_BIT \<noteq> toggle s then abort_with CO_SDO_AB_TOGGLE_BIT s
          else do {
            sub \<leftarrow> the_sub s;
            if unat (trans_data_len s) \<le> unat (buffer_offset s) + 7 then
              do { let cur_trans_data_len = (ucast (trans_data_len s - buffer_offset s) :: u8);
                   d \<leftarrow> CO_memcpy (msg_data (tx_msg s)) 1 (so_data sub) (unat (buffer_offset s))
                         (ucast cur_trans_data_len);
                   let s = (set_tx_data d s)\<lparr>buffer_offset := trans_data_len s\<rparr>;
                   s \<leftarrow> set_tx_byte 0 (push_bit 5 SCS_UPLOAD_SEGMENT OR toggle s
                         OR push_bit 1 (7 - cur_trans_data_len) OR SDO_MASK_SEG_C_BIT) s;
                   let s = CO_CAN_send s;
                   Some (CO_SDO_RT_success,
                     s\<lparr>toggle := toggle s XOR 0x10, sd_state := CO_SDO_ST_IDLE\<rparr>) }
            else
              do { d \<leftarrow> CO_memcpy (msg_data (tx_msg s)) 1 (so_data sub) (unat (buffer_offset s)) 7;
                   let s = (set_tx_data d s)\<lparr>buffer_offset := buffer_offset s + 7\<rparr>;
                   s \<leftarrow> set_tx_byte 0 (push_bit 5 SCS_UPLOAD_SEGMENT OR toggle s) s;
                   let s = CO_SDOtimeout_reset_and_activate (CO_CAN_send s);
                   Some (CO_SDO_RT_busy, s\<lparr>toggle := toggle s XOR 0x10\<rparr>) } } }"

definition CO_SDOserver_get_sub_object_pointer :: "'w sdo_run \<Rightarrow> ((nat \<times> nat) ptr \<times> 'w sdo_run) option" where
  "CO_SDOserver_get_sub_object_pointer s =
     do { ind \<leftarrow> CO_getUint16 (msg_data (rx_msg s)) 1;
          si \<leftarrow> mem_get (msg_data (rx_msg s)) 3;
          no \<leftarrow> CO_OD_get_no (p_od s) ind;
          let s = s\<lparr>sd_index := ind, sd_sub_index := si, object_no := no\<rparr>;
          if no = OD_UNSUPPORT_ENTRY then Some (NULL, s)
          else do { p \<leftarrow> CO_OD_get_sub_object_pointer (p_od s) no si; Some (p, s) } }"

definition CO_SDOserver_process_first_msg_and_set_state :: "'w sdo_run \<Rightarrow> 'w sdo_result" where
  "CO_SDOserver_process_first_msg_and_set_state s =
     do { b0 \<leftarrow> mem_get (msg_data (rx_msg s)) 0;
          let ccs = drop_bit 5 b0;
          if ccs \<noteq> CCS_DOWNLOAD_INITIATE \<and> ccs \<noteq> CCS_UPLOAD_INITIATE
          then abort_with CO_SDO_AB_CMD s
          else do {
            (p, s) \<leftarrow> CO_SDOserver_get_sub_object_pointer s;
            case p of
              NULL \<Rightarrow> abort_with CO_SDO_AB_SUB_UNKNOWN (s\<lparr>p_sub_obj := No_sub\<rparr>)
            | Ref (i, j) \<Rightarrow>
                do { let s = s\<lparr>p_sub_obj := Od_sub i j\<rparr>;
                     sub \<leftarrow> the_sub s;
                     if ccs = CCS_DOWNLOAD_INITIATE then
                       (if so_attr sub AND ODA_SDO_W = 0
                        then abort_with CO_SDO_AB_UNSUPPORTED_ACCESS s
                        else Some (CO_SDO_RT_busy, s
                          \<lparr>p_data_itf := (if \<not> is_null (so_ext sub) then Itf_shadow
                                          else if \<not> is_null (so_temp sub) then Itf_temp
                                          else Itf_data),
                           sd_state := CO_SDO_ST_DOWNLOAD_INITIATE_RSP\<rparr>))
                     else
                       (if so_attr sub AND ODA_SDO_R = 0
                        then abort_with CO_SDO_AB_UNSUPPORTED_ACCESS s
                        else Some (CO_SDO_RT_busy, s\<lparr>sd_state := CO_SDO_ST_UPLOAD_INITIATE_RSP\<rparr>)) } } }"

text \<open>The part of \<open>CO_SDOserver_process_\<close> behind the timeout: a new message first, then the
  handler of the state.\<close>

definition server_switch :: "'w sdo_run \<Rightarrow> 'w sdo_result" where
  "server_switch s =
     (case sd_state s of
        CO_SDO_ST_DOWNLOAD_INITIATE_RSP \<Rightarrow> CO_SDOserver_download_initiate_response_handle s
      | CO_SDO_ST_DOWNLOAD_SEGMENTED \<Rightarrow> CO_SDOserver_download_segment_handle s
      | CO_SDO_ST_UPLOAD_INITIATE_RSP \<Rightarrow> CO_SDOserver_upload_initiate_response_handle s
      | CO_SDO_ST_UPLOAD_SEGMENTED \<Rightarrow> CO_SDOserver_upload_segment_handle s
      | _ \<Rightarrow> Some (CO_SDO_RT_busy, s))"

definition server_return :: "'w sdo_run \<Rightarrow> CO_SDO_return \<Rightarrow> CO_SDO_return \<times> 'w sdo_run" where
  "server_return s ret = (if sd_state s = CO_SDO_ST_IDLE then CO_SDO_RT_idle else ret, s)"

definition server_handle :: "'w sdo_run \<Rightarrow> 'w sdo_result" where
  "server_handle s =
     do { (ret, s) \<leftarrow> server_switch s; Some (server_return (set_rx_old s) ret) }"

definition server_message :: "'w sdo_run \<Rightarrow> 'w sdo_result" where
  "server_message s =
     do { let s = CO_SDOtimeout_reset_and_inactivate s;
          b0 \<leftarrow> mem_get (msg_data (rx_msg s)) 0;
          if drop_bit 5 b0 = CCS_ABORT then
            do { code \<leftarrow> CO_getUint32 (msg_data (rx_msg s)) 4;
                 Some (CO_SDO_RT_abort,
                   (set_rx_old (s\<lparr>rx_abort_code := code\<rparr>))\<lparr>sd_state := CO_SDO_ST_IDLE\<rparr>) }
          else if sd_state s = CO_SDO_ST_IDLE then
            do { (ret, s) \<leftarrow> CO_SDOserver_process_first_msg_and_set_state s;
                 if ret = CO_SDO_RT_abort then Some (CO_SDO_RT_abort, s) else server_handle s }
          else server_handle s }"

text \<open>\<open>CO_SDOserver_process_\<close>.\<close>

definition CO_SDOserver_process_inner :: "'w sdo_run \<Rightarrow> u16 \<Rightarrow> 'w sdo_result" where
  "CO_SDOserver_process_inner s time_diff_ms =
     (if \<not> valid s then Some (CO_SDO_RT_busy, s)
      else
        (let active = CO_SDOtimeout_is_activated s;
             s = (if active then CO_SDOtimeout_increase time_diff_ms s else s)
         in if active \<and> CO_SDOtimeout_is_timeout s
            then Some (CO_SDO_RT_abort, CO_SDO_abort CO_SDO_AB_TIMEOUT s)
            else if msg_new (rx_msg s) then server_message s
            else if is_internal_processing s then server_handle s
            else Some (server_return s CO_SDO_RT_busy)))"

definition CO_SDOserver_process :: "'w sdo_run \<Rightarrow> u16 \<Rightarrow> 'w sdo_run option" where
  "CO_SDOserver_process s time_diff_ms =
     do { (ret, s) \<leftarrow> CO_SDOserver_process_inner s time_diff_ms; Some (s\<lparr>sd_status := ret\<rparr>) }"

definition CO_SDOserver_is_in_sync_window_len :: "'w sdo_run \<Rightarrow> bool option" where
  "CO_SDOserver_is_in_sync_window_len s =
     (case p_sync s of
        NULL \<Rightarrow> None
      | Ref y \<Rightarrow> Some (if trans_type s = 0 then True else CO_SYNC_is_in_window_length y))"

subsection \<open>The steps of a transfer without an error\<close>

text \<open>The sub object an index and a sub index address.\<close>

definition od_target :: "'w CO_OD \<Rightarrow> u16 \<Rightarrow> u8 \<Rightarrow> nat \<Rightarrow> nat \<Rightarrow> 'w CO_Sub_Object \<Rightarrow> bool" where
  "od_target od ind si i j sub \<longleftrightarrow> od_sorted od \<and> i < length (od_list od) \<and> i < 65535
     \<and> ob_index (od_list od ! i) = ind \<and> j = unat si \<and> si < ob_sub_number (od_list od ! i)
     \<and> od_get i j od = Some sub"

lemma od_target_lookup:
  assumes "od_target od ind si i j sub"
  shows "CO_OD_get_no od ind = Some (word_of_nat i)"
    and "(word_of_nat i :: u16) \<noteq> OD_UNSUPPORT_ENTRY"
    and "CO_OD_get_sub_object_pointer od (word_of_nat i) si = Some (Ref (i, j))"
    and "od_get i j od = Some sub"
proof -
  have i: "i < length (od_list od)" "i < 65535" "unat (od_number od) = length (od_list od)"
    using assms by (auto simp: od_target_def od_sorted_def)
  have u: "unat (word_of_nat i :: u16) = i" using i by (intro unat_of_nat_u16) simp
  show no: "(word_of_nat i :: u16) \<noteq> OD_UNSUPPORT_ENTRY"
    using u i by (auto simp: OD_UNSUPPORT_ENTRY_def word_unat_eq_iff)
  show "CO_OD_get_no od ind = Some (word_of_nat i)"
    unfolding CO_OD_get_no_def
    by (rule od_search_found) (use assms i in \<open>auto simp: od_target_def od_sorted_def\<close>)
  show "CO_OD_get_sub_object_pointer od (word_of_nat i) si = Some (Ref (i, j))"
    using assms no u i
    by (simp add: CO_OD_get_sub_object_pointer_def od_target_def mem_simps word_le_nat_alt
        word_less_nat_alt not_le del: unsigned_of_nat)
  show "od_get i j od = Some sub" using assms by (auto simp: od_target_def)
qed

text \<open>The object is served as it is: neither an extension nor a temporary buffer.\<close>

definition plain_sub :: "'w CO_Sub_Object \<Rightarrow> bool" where
  "plain_sub sub \<longleftrightarrow> so_ext sub = NULL \<and> so_temp sub = NULL"

definition writable :: "'w CO_Sub_Object \<Rightarrow> bool" where
  "writable sub \<longleftrightarrow> so_attr sub AND ODA_SDO_W \<noteq> 0"

definition readable :: "'w CO_Sub_Object \<Rightarrow> bool" where
  "readable sub \<longleftrightarrow> so_attr sub AND ODA_SDO_R \<noteq> 0"

lemma server_message_timeout [simp]:
  "server_message (CO_SDOtimeout_increase dt s) = server_message s"
  by (simp add: server_message_def sdo_effects)

lemma server_process_new:
  assumes "valid s" "msg_new (rx_msg s)" "in_time s dt"
  shows "CO_SDOserver_process s dt =
    do { (ret, s) \<leftarrow> server_message s; Some (s\<lparr>sd_status := ret\<rparr>) }"
  using assms in_time_no_timeout [OF assms(3)]
  by (simp add: CO_SDOserver_process_def CO_SDOserver_process_inner_def Let_def)
    (simp add: sdo_effects)

lemma server_init_mux:
  assumes "length (msg_data (rx_msg s)) = 8" "length (msg_data (tx_msg s)) = 8"
  shows "CO_SDOserver_process_init_transfer_msg s = Some
    (set_tx_data ((msg_data (tx_msg s))[1 := msg_data (rx_msg s) ! 1,
        2 := msg_data (rx_msg s) ! 2, 3 := msg_data (rx_msg s) ! 3])
      (s\<lparr>toggle := 0, buffer_offset := 0\<rparr>))"
  using assms
  by (simp add: CO_SDOserver_process_init_transfer_msg_def mem_simps Let_def set_tx_data_def)

text \<open>The first message of a transfer selects the object and the state.\<close>

lemma server_first_download:
  assumes "mux_of (msg_data (rx_msg s)) ind si" "drop_bit 5 (msg_data (rx_msg s) ! 0) = 1"
    and "od_target (p_od s) ind si i j sub" "writable sub" "plain_sub sub"
  shows "CO_SDOserver_process_first_msg_and_set_state s = Some (CO_SDO_RT_busy,
    s\<lparr>sd_index := ind, sd_sub_index := si, object_no := word_of_nat i, p_sub_obj := Od_sub i j,
      p_data_itf := Itf_data, sd_state := CO_SDO_ST_DOWNLOAD_INITIATE_RSP\<rparr>)"
  using assms od_target_lookup [OF assms(3)]
  by (simp add: CO_SDOserver_process_first_msg_and_set_state_def mux_of_def mem_simps cs_defs Let_def
      CO_SDOserver_get_sub_object_pointer_def writable_def plain_sub_def the_sub_Od)

lemma server_first_upload:
  assumes "mux_of (msg_data (rx_msg s)) ind si" "drop_bit 5 (msg_data (rx_msg s) ! 0) = 2"
    and "od_target (p_od s) ind si i j sub" "readable sub"
  shows "CO_SDOserver_process_first_msg_and_set_state s = Some (CO_SDO_RT_busy,
    s\<lparr>sd_index := ind, sd_sub_index := si, object_no := word_of_nat i, p_sub_obj := Od_sub i j,
      sd_state := CO_SDO_ST_UPLOAD_INITIATE_RSP\<rparr>)"
  using assms od_target_lookup [OF assms(3)]
  by (simp add: CO_SDOserver_process_first_msg_and_set_state_def mux_of_def mem_simps cs_defs Let_def
      CO_SDOserver_get_sub_object_pointer_def readable_def the_sub_Od)

lemma server_starts_download:
  assumes "sdo_ready s CO_SDO_ST_IDLE" "has_message s d" "in_time s dt"
    and "mux_of d ind si" "d ! 0 = 0x21" "CO_getUint32 d 4 = Some len" "ucast len = n"
    and "od_target (p_od s) ind si i j sub" "writable sub" "plain_sub sub" "n \<le> so_len sub"
  shows "\<exists>s' d'. CO_SDOserver_process s dt = Some s' \<and> p_od s' = p_od s
     \<and> transferring s' CO_SDO_ST_DOWNLOAD_SEGMENTED (Od_sub i j) n 0 0 \<and> p_data_itf s' = Itf_data
     \<and> answered s s' d' \<and> d' ! 0 = 0x60 \<and> mux_of d' ind si"
proof -
  note sub = od_target_lookup(4) [OF assms(8)]
  have v: "valid s" "msg_new (rx_msg s)" using assms(1,2) by (auto simp: sdo_ready_def has_message_def)
  have rdy: "sd_state s = CO_SDO_ST_IDLE" "\<not> is_internal_processing s" "msg_data (rx_msg s) = d"
      "length d = 8" "length (msg_data (tx_msg s)) = 8"
    using assms(1,2) by (auto simp: sdo_ready_def has_message_def)
  let ?s = "s\<lparr>timeout_cter_ms := 0, sd_index := ind, sd_sub_index := si, object_no := word_of_nat i,
      p_sub_obj := Od_sub i j, p_data_itf := Itf_data, sd_state := CO_SDO_ST_DOWNLOAD_INITIATE_RSP\<rparr>"
  let ?e = "(msg_data (tx_msg s))[1 := d ! 1, 2 := d ! 2, 3 := d ! 3, 0 := 0x60]"
  have m: "server_message s = server_handle ?s"
    using assms rdy
    by (simp add: server_message_def mem_simps cs_defs sdo_effects Let_def
        server_first_download [where ind = ind and si = si and i = i and j = j and sub = sub])
  have "CO_SDOserver_download_initiate_response_handle ?s = Some (CO_SDO_RT_busy,
      ?s\<lparr>toggle := 0, buffer_offset := 0, trans_data_len := n, timeout_cter_ms := 1,
         tx_msg := (tx_msg s)\<lparr>msg_data := ?e\<rparr>, sent := sent s @ [(tx_msg s)\<lparr>msg_data := ?e\<rparr>],
         sd_state := CO_SDO_ST_DOWNLOAD_SEGMENTED\<rparr>)"
    using assms(5-7) leD [OF assms(11)] rdy sub
    by (simp add: CO_SDOserver_download_initiate_response_handle_def server_init_mux mem_simps
        sdo_effects Let_def the_sub_Od mask_defs cs_defs)
  then show ?thesis
    using rdy v assms(4)
    by (simp add: server_process_new [OF v assms(3)] m server_handle_def server_switch_def
        server_return_def sdo_effects transferring_def sdo_ready_def answered_def mux_of_def
        CO_getUint16_def mem_simps flip: numeral_2_eq_2)
qed

text \<open>The state of a plain download.\<close>

definition downloading :: "'w sdo_run \<Rightarrow> nat \<Rightarrow> nat \<Rightarrow> u16 \<Rightarrow> u16 \<Rightarrow> u8 \<Rightarrow> bool" where
  "downloading s i j n off t \<longleftrightarrow>
     transferring s CO_SDO_ST_DOWNLOAD_SEGMENTED (Od_sub i j) n off t \<and> p_data_itf s = Itf_data"

lemma store_received_data:
  assumes "p_sub_obj s = Od_sub i j" "od_get i j (p_od s) = Some sub"
    and "from + unat n \<le> length (msg_data (rx_msg s))" "off + unat n \<le> length (so_data sub)"
  shows "store_received Itf_data off from n s =
    Some (s\<lparr>p_od := od_put i j
      (store_at off (take (unat n) (drop from (msg_data (rx_msg s)))) sub) (p_od s)\<rparr>)"
  using assms
  by (simp add: store_received_def sub_simps itf_buffer_def set_itf_buffer_def mem_simps
      store_at_def min_absorb2)

lemma server_switches:
  assumes "sdo_ready s st" "st \<noteq> CO_SDO_ST_IDLE" "has_message s d" "in_time s dt"
    and "drop_bit 5 (d ! 0) \<noteq> CCS_ABORT"
    and "server_switch (s\<lparr>timeout_cter_ms := 0\<rparr>) = Some (ret, s')"
  shows "CO_SDOserver_process s dt =
    Some (set_rx_old s'\<lparr>sd_status := if sd_state s' = CO_SDO_ST_IDLE then CO_SDO_RT_idle else ret\<rparr>)"
proof -
  have v: "valid s" "msg_new (rx_msg s)" "msg_data (rx_msg s) = d" "length d = 8" "sd_state s = st"
    using assms(1,3) by (auto simp: sdo_ready_def has_message_def)
  show ?thesis
    using assms(2,5,6) v
    by (simp add: server_process_new [OF v(1,2) assms(4)] server_message_def mem_simps
        CO_SDOtimeout_reset_and_inactivate_def)
      (simp add: server_handle_def server_return_def set_rx_old_def)
qed

lemma server_stores_segment:
  assumes "downloading s i j n off t" "has_message s d" "in_time s dt" "toggle_bit t" "d ! 0 = t"
    and "od_get i j (p_od s) = Some sub" "unat off + 7 < unat n" "unat n \<le> length (so_data sub)"
  shows "\<exists>s' d'. CO_SDOserver_process s dt = Some s'
     \<and> p_od s' = od_put i j (store_at (unat off) (take 7 (drop 1 d)) sub) (p_od s)
     \<and> downloading s' i j n (off + 7) (t XOR 0x10)
     \<and> answered s s' d' \<and> d' ! 0 = 0x20 OR t"
proof -
  have r: "sdo_ready s CO_SDO_ST_DOWNLOAD_SEGMENTED" "p_sub_obj s = Od_sub i j"
      "trans_data_len s = n" "buffer_offset s = off" "toggle s = t" "p_data_itf s = Itf_data"
      "\<not> is_internal_processing s" "length (msg_data (tx_msg s)) = 8" "valid s"
      "msg_data (rx_msg s) = d" "length d = 8" "sd_state s = CO_SDO_ST_DOWNLOAD_SEGMENTED"
    using assms(1,2)
    by (auto simp: downloading_def transferring_def sdo_ready_def has_message_def)
  have cs: "drop_bit 5 t = 0" "t AND 0x10 = t" "t AND 1 = 0"
    using segment_cs [OF assms(4), of 0] by simp_all
  let ?e = "(msg_data (tx_msg s))[0 := 0x20 OR t]"
  let ?s = "s\<lparr>p_od := od_put i j (store_at (unat off) (take 7 (drop 1 d)) sub) (p_od s),
      buffer_offset := off + 7, timeout_cter_ms := 1, tx_msg := (tx_msg s)\<lparr>msg_data := ?e\<rparr>,
      sent := sent s @ [(tx_msg s)\<lparr>msg_data := ?e\<rparr>], toggle := t XOR 0x10\<rparr>"
  have "server_switch (s\<lparr>timeout_cter_ms := 0\<rparr>) = Some (CO_SDO_RT_busy, ?s)"
    using assms(5-8) r cs
    by (simp add: server_switch_def CO_SDOserver_download_segment_handle_def mem_simps mask_defs
        cs_defs sdo_effects store_received_data [where i = i and j = j and sub = sub] Let_def)
  from server_switches [OF r(1) _ assms(2,3) _ this] have
    "CO_SDOserver_process s dt = Some (set_rx_old ?s\<lparr>sd_status := CO_SDO_RT_busy\<rparr>)"
    using r(12) assms(5) cs by (simp add: CCS_ABORT_def)
  then show ?thesis
    using r by (simp add: sdo_effects downloading_def transferring_def sdo_ready_def answered_def)
qed

lemma server_stores_last:
  assumes "downloading s i j n off t" "has_message s d" "in_time s dt" "toggle_bit t"
    and "d ! 0 = t OR push_bit 1 m OR 1" "unat m \<le> 7"
    and "od_get i j (p_od s) = Some sub" "plain_sub sub"
    and "off \<le> n" "unat n \<le> unat off + 7" "unat n \<le> length (so_data sub)"
  shows "\<exists>s' d'. CO_SDOserver_process s dt = Some s'
     \<and> p_od s' = od_put i j (store_at (unat off) (take (unat n - unat off) (drop 1 d)) sub) (p_od s)
     \<and> sdo_ready s' CO_SDO_ST_IDLE \<and> answered s s' d' \<and> d' ! 0 = 0x20 OR t"
proof -
  have r: "sdo_ready s CO_SDO_ST_DOWNLOAD_SEGMENTED" "p_sub_obj s = Od_sub i j"
      "trans_data_len s = n" "buffer_offset s = off" "toggle s = t" "p_data_itf s = Itf_data"
      "\<not> is_internal_processing s" "length (msg_data (tx_msg s)) = 8" "valid s"
      "msg_data (rx_msg s) = d" "length d = 8" "sd_state s = CO_SDO_ST_DOWNLOAD_SEGMENTED"
    using assms(1,2)
    by (auto simp: downloading_def transferring_def sdo_ready_def has_message_def)
  note cs = segment_cs [OF assms(4,6)]
  have len: "unat (n - off) = unat n - unat off"
    using assms(9) by (simp add: unat_sub_if' word_le_nat_alt)
  let ?sub = "store_at (unat off) (take (unat n - unat off) (drop 1 d)) sub"
  have sub': "plain_sub ?sub" using assms(8) by (simp add: plain_sub_def store_at_def)
  let ?e = "(msg_data (tx_msg s))[0 := 0x20 OR t]"
  let ?s = "s\<lparr>p_od := od_put i j ?sub (p_od s), buffer_offset := n, timeout_cter_ms := 0,
      tx_msg := (tx_msg s)\<lparr>msg_data := ?e\<rparr>,
      sent := sent s @ [(tx_msg s)\<lparr>msg_data := ?e\<rparr>], sd_state := CO_SDO_ST_IDLE\<rparr>"
  have "server_switch (s\<lparr>timeout_cter_ms := 0\<rparr>) = Some (CO_SDO_RT_success, ?s)"
    using assms(5,7,9-11) r cs sub' len
    by (simp add: server_switch_def CO_SDOserver_download_segment_handle_def mem_simps mask_defs
        cs_defs sdo_effects store_received_data [where i = i and j = j and sub = sub] Let_def
        finish_download_def copy_temp_to_data_def plain_sub_def sub_simps
        od_get_put [OF assms(7)] word_le_nat_alt)
  from server_switches [OF r(1) _ assms(2,3) _ this] have
    "CO_SDOserver_process s dt = Some (set_rx_old ?s\<lparr>sd_status := CO_SDO_RT_idle\<rparr>)"
    using assms(5) cs by (simp add: CCS_ABORT_def)
  then show ?thesis
    using r by (simp add: sdo_effects sdo_ready_def answered_def)
qed

lemma server_stores_expedited:
  assumes "sdo_ready s CO_SDO_ST_IDLE" "has_message s d" "in_time s dt"
    and "mux_of d ind si" "d ! 0 = expedited_cs 1 n" "0 < n" "n \<le> 4"
    and "od_target (p_od s) ind si i j sub" "writable sub" "plain_sub sub" "n \<le> so_len sub"
    and "unat n \<le> length (so_data sub)"
  shows "\<exists>s' d'. CO_SDOserver_process s dt = Some s'
     \<and> p_od s' = od_put i j (store_at 0 (take (unat n) (drop 4 d)) sub) (p_od s)
     \<and> sdo_ready s' CO_SDO_ST_IDLE \<and> answered s s' d' \<and> d' ! 0 = 0x60 \<and> mux_of d' ind si"
proof -
  note sub = od_target_lookup(4) [OF assms(8)]
  have cs: "drop_bit 5 (d ! 0) = 1" "d ! 0 AND 3 = 3"
      "4 - ucast (drop_bit 2 (d ! 0 AND 0x0C)) = n"
    using expedited_cs_facts [OF assms(6,7), of 1] by (simp_all add: assms(5))
  have n4: "unat n \<le> 4" using assms(7) by (simp add: word_le_nat_alt)
  have v: "valid s" "msg_new (rx_msg s)" using assms(1,2) by (auto simp: sdo_ready_def has_message_def)
  have rdy: "sd_state s = CO_SDO_ST_IDLE" "\<not> is_internal_processing s" "msg_data (rx_msg s) = d"
      "length d = 8" "length (msg_data (tx_msg s)) = 8"
    using assms(1,2) by (auto simp: sdo_ready_def has_message_def)
  let ?s = "s\<lparr>timeout_cter_ms := 0, sd_index := ind, sd_sub_index := si, object_no := word_of_nat i,
      p_sub_obj := Od_sub i j, p_data_itf := Itf_data, sd_state := CO_SDO_ST_DOWNLOAD_INITIATE_RSP\<rparr>"
  let ?e = "(msg_data (tx_msg s))[1 := d ! 1, 2 := d ! 2, 3 := d ! 3, 0 := 0x60]"
  let ?sub = "store_at 0 (take (unat n) (drop 4 d)) sub"
  have sub': "plain_sub ?sub" using assms(10) by (simp add: plain_sub_def store_at_def)
  have m: "server_message s = server_handle ?s"
    using assms rdy cs
    by (simp add: server_message_def mem_simps cs_defs sdo_effects Let_def
        server_first_download [where ind = ind and si = si and i = i and j = j and sub = sub])
  have "CO_SDOserver_download_initiate_response_handle ?s = Some (CO_SDO_RT_success,
      ?s\<lparr>toggle := 0, buffer_offset := n, trans_data_len := n,
         p_od := od_put i j ?sub (p_od s),
         tx_msg := (tx_msg s)\<lparr>msg_data := ?e\<rparr>, sent := sent s @ [(tx_msg s)\<lparr>msg_data := ?e\<rparr>],
         sd_state := CO_SDO_ST_IDLE\<rparr>)"
    using leD [OF assms(11)] assms(12) rdy sub cs n4 sub'
    by (simp add: CO_SDOserver_download_initiate_response_handle_def server_init_mux mem_simps
        sdo_effects Let_def the_sub_Od mask_defs cs_defs finish_download_def copy_temp_to_data_def
        store_received_data [where i = i and j = j and sub = sub] od_get_put [OF sub] plain_sub_def)
  then show ?thesis
    using rdy v assms(4)
    by (simp add: server_process_new [OF v assms(3)] m server_handle_def server_switch_def
        server_return_def sdo_effects sdo_ready_def answered_def mux_of_def
        CO_getUint16_def mem_simps flip: numeral_2_eq_2)
qed

subsection \<open>Uploads\<close>

lemma server_first_upload_message:
  assumes "sdo_ready s CO_SDO_ST_IDLE" "has_message s d"
    and "mux_of d ind si" "d ! 0 = 0x40" "od_target (p_od s) ind si i j sub" "readable sub"
  shows "server_message s = server_handle (s\<lparr>timeout_cter_ms := 0, sd_index := ind,
      sd_sub_index := si, object_no := word_of_nat i, p_sub_obj := Od_sub i j,
      sd_state := CO_SDO_ST_UPLOAD_INITIATE_RSP\<rparr>)"
  using assms
  by (simp add: server_message_def mem_simps cs_defs sdo_effects Let_def sdo_ready_def
      has_message_def
      server_first_upload [where ind = ind and si = si and i = i and j = j and sub = sub])

lemma server_uploads_expedited:
  assumes "sdo_ready s CO_SDO_ST_IDLE" "has_message s d" "in_time s dt"
    and "mux_of d ind si" "d ! 0 = 0x40"
    and "od_target (p_od s) ind si i j sub" "readable sub"
    and "so_len sub \<le> 4" "unat (so_len sub) \<le> length (so_data sub)"
  shows "\<exists>s' d'. CO_SDOserver_process s dt = Some s' \<and> p_od s' = p_od s
     \<and> sdo_ready s' CO_SDO_ST_IDLE \<and> answered s s' d'
     \<and> d' ! 0 = expedited_cs 2 (so_len sub) \<and> mux_of d' ind si
     \<and> take (unat (so_len sub)) (drop 4 d') = take (unat (so_len sub)) (so_data sub)"
proof -
  note sub = od_target_lookup(4) [OF assms(6)]
  have n4: "unat (so_len sub) \<le> 4" using assms(8) by (simp add: word_le_nat_alt)
  have v: "valid s" "msg_new (rx_msg s)" using assms(1,2) by (auto simp: sdo_ready_def has_message_def)
  have rdy: "sd_state s = CO_SDO_ST_IDLE" "\<not> is_internal_processing s" "msg_data (rx_msg s) = d"
      "length d = 8" "length (msg_data (tx_msg s)) = 8"
    using assms(1,2) by (auto simp: sdo_ready_def has_message_def)
  let ?s = "s\<lparr>timeout_cter_ms := 0, sd_index := ind, sd_sub_index := si, object_no := word_of_nat i,
      p_sub_obj := Od_sub i j, sd_state := CO_SDO_ST_UPLOAD_INITIATE_RSP\<rparr>"
  let ?c = "(msg_data (tx_msg s))[1 := d ! 1, 2 := d ! 2, 3 := d ! 3,
      0 := expedited_cs 2 (so_len sub)]"
  let ?e = "take 4 ?c @ take (unat (so_len sub)) (so_data sub) @ drop (4 + unat (so_len sub)) ?c"
  have "CO_SDOserver_upload_initiate_response_handle ?s = Some (CO_SDO_RT_success,
      ?s\<lparr>toggle := 0, buffer_offset := so_len sub, trans_data_len := so_len sub,
         tx_msg := (tx_msg s)\<lparr>msg_data := ?e\<rparr>, sent := sent s @ [(tx_msg s)\<lparr>msg_data := ?e\<rparr>],
         sd_state := CO_SDO_ST_IDLE\<rparr>)"
    using assms(8,9) rdy sub n4
    by (simp add: CO_SDOserver_upload_initiate_response_handle_def server_init_mux mem_simps
        sdo_effects Let_def the_sub_Od expedited_cs_def SCS_UPLOAD_INITIATE_def)
  then show ?thesis
    using rdy v assms(4,9) n4
    by (simp add: server_process_new [OF v assms(3)] server_first_upload_message [OF assms(1,2,4-7)]
        server_handle_def server_switch_def server_return_def sdo_effects sdo_ready_def
        answered_def mux_of_def CO_getUint16_def mem_simps nth_append min_absorb2
        flip: numeral_2_eq_2 numeral_3_eq_3)
qed

lemma server_starts_upload:
  assumes "sdo_ready s CO_SDO_ST_IDLE" "has_message s d" "in_time s dt"
    and "mux_of d ind si" "d ! 0 = 0x40"
    and "od_target (p_od s) ind si i j sub" "readable sub" "4 < so_len sub"
  shows "\<exists>s' d'. CO_SDOserver_process s dt = Some s' \<and> p_od s' = p_od s
     \<and> transferring s' CO_SDO_ST_UPLOAD_SEGMENTED (Od_sub i j) (so_len sub) 0 0
     \<and> answered s s' d' \<and> d' ! 0 = 0x41 \<and> mux_of d' ind si
     \<and> CO_getUint32 d' 4 = Some (ucast (so_len sub))"
proof -
  note sub = od_target_lookup(4) [OF assms(6)]
  have v: "valid s" "msg_new (rx_msg s)" using assms(1,2) by (auto simp: sdo_ready_def has_message_def)
  have rdy: "sd_state s = CO_SDO_ST_IDLE" "\<not> is_internal_processing s" "msg_data (rx_msg s) = d"
      "length d = 8" "length (msg_data (tx_msg s)) = 8"
    using assms(1,2) by (auto simp: sdo_ready_def has_message_def)
  let ?s = "s\<lparr>timeout_cter_ms := 0, sd_index := ind, sd_sub_index := si, object_no := word_of_nat i,
      p_sub_obj := Od_sub i j, sd_state := CO_SDO_ST_UPLOAD_INITIATE_RSP\<rparr>"
  let ?c = "(msg_data (tx_msg s))[1 := d ! 1, 2 := d ! 2, 3 := d ! 3, 0 := 0x41]"
  let ?v = "ucast (so_len sub) :: u32"
  let ?e = "?c[4 := le32_byte 0 ?v, 4 + 1 := le32_byte 1 ?v, 4 + 2 := le32_byte 2 ?v,
      4 + 3 := le32_byte 3 ?v]"
  have "4 + 4 \<le> length ?c" using rdy by simp
  note get = CO_getUint32_set [OF this, of ?v]
  have "CO_SDOserver_upload_initiate_response_handle ?s = Some (CO_SDO_RT_busy,
      ?s\<lparr>toggle := 0, buffer_offset := 0, trans_data_len := so_len sub, timeout_cter_ms := 1,
         tx_msg := (tx_msg s)\<lparr>msg_data := ?e\<rparr>, sent := sent s @ [(tx_msg s)\<lparr>msg_data := ?e\<rparr>],
         sd_state := CO_SDO_ST_UPLOAD_SEGMENTED\<rparr>)"
    using leD [of "so_len sub" 4] assms(8) rdy sub
    by (simp add: CO_SDOserver_upload_initiate_response_handle_def server_init_mux mem_simps
        sdo_effects Let_def the_sub_Od SCS_UPLOAD_INITIATE_def mask_defs)
  then show ?thesis
    using rdy v assms(4) get
    by (simp add: server_process_new [OF v assms(3)] server_first_upload_message [OF assms(1,2,4-7)]
        server_handle_def server_switch_def server_return_def sdo_effects sdo_ready_def
        transferring_def answered_def mux_of_def CO_getUint16_def mem_simps
        flip: numeral_2_eq_2 numeral_3_eq_3)
qed

lemma server_uploads_segment:
  assumes "transferring s CO_SDO_ST_UPLOAD_SEGMENTED (Od_sub i j) n off t" "has_message s d"
    and "in_time s dt" "toggle_bit t" "d ! 0 = 0x60 OR t"
    and "od_get i j (p_od s) = Some sub" "unat off < unat n" "unat n \<le> length (so_data sub)"
  shows "\<exists>s' d'. CO_SDOserver_process s dt = Some s' \<and> p_od s' = p_od s
     \<and> answered s s' d' \<and> segment_of d' t (unat off) (unat n) (so_data sub)
     \<and> (if unat n \<le> unat off + 7 then sdo_ready s' CO_SDO_ST_IDLE
        else transferring s' CO_SDO_ST_UPLOAD_SEGMENTED (Od_sub i j) n (off + 7) (t XOR 0x10))"
proof -
  have r: "sdo_ready s CO_SDO_ST_UPLOAD_SEGMENTED" "p_sub_obj s = Od_sub i j"
      "trans_data_len s = n" "buffer_offset s = off" "toggle s = t"
      "\<not> is_internal_processing s" "length (msg_data (tx_msg s)) = 8" "valid s"
      "msg_data (rx_msg s) = d" "length d = 8" "sd_state s = CO_SDO_ST_UPLOAD_SEGMENTED"
    using assms(1,2)
    by (auto simp: transferring_def sdo_ready_def has_message_def)
  have cs: "drop_bit 5 (0x60 OR t) = 3" "(0x60 OR t) AND 0x10 = t"
    using segment_cs [OF assms(4), of 0] by simp_all
  show ?thesis
  proof (cases "unat n \<le> unat off + 7")
    case True
    let ?k = "unat n - unat off"
    have k: "unat (n - off) = ?k" "?k \<le> 7" "unat (ucast (n - off) :: u8) = ?k"
      using assms(7) True
      by (simp_all add: unat_sub_if' unsigned_ucast_eq take_bit_nat_eq_self)
    have k': "(ucast (ucast (n - off) :: u8) :: u16) = n - off"
      using k by (simp add: word_unat_eq_iff)
    have unused: "unat (7 - ucast (n - off) :: u8) \<le> 7"
      using k by (simp add: unat_sub_if')
    let ?c = "take 1 (msg_data (tx_msg s)) @ take ?k (drop (unat off) (so_data sub))
        @ drop (1 + ?k) (msg_data (tx_msg s))"
    let ?e = "?c[0 := t OR push_bit 1 (7 - ucast (n - off)) OR 1]"
    let ?s = "s\<lparr>timeout_cter_ms := 0, buffer_offset := n, tx_msg := (tx_msg s)\<lparr>msg_data := ?e\<rparr>,
        sent := sent s @ [(tx_msg s)\<lparr>msg_data := ?e\<rparr>], toggle := t XOR 0x10,
        sd_state := CO_SDO_ST_IDLE\<rparr>"
    have "server_switch (s\<lparr>timeout_cter_ms := 0\<rparr>) = Some (CO_SDO_RT_success, ?s)"
      using assms(5-8) r cs k k' True
      by (simp add: server_switch_def CO_SDOserver_upload_segment_handle_def mem_simps mask_defs
          cs_defs sdo_effects Let_def sub_simps)
    from server_switches [OF r(1) _ assms(2,3) _ this] have p:
      "CO_SDOserver_process s dt = Some (set_rx_old ?s\<lparr>sd_status := CO_SDO_RT_idle\<rparr>)"
      using assms(5) cs by (simp add: CCS_ABORT_def)
    have "segment_of ?e t (unat off) (unat n) (so_data sub)"
      using r(7) k(2) True assms(8) unused
      by (auto simp: segment_of_def drop_update_cancel nth_append min_absorb2 drop_Cons'
          intro!: exI [of _ "7 - ucast (n - off)"])
    then show ?thesis
      using r p True k assms(8)
      by (simp add: sdo_effects sdo_ready_def answered_def)
  next
    case False
    let ?c = "take 1 (msg_data (tx_msg s)) @ take 7 (drop (unat off) (so_data sub))
        @ drop (1 + 7) (msg_data (tx_msg s))"
    let ?e = "?c[0 := t]"
    let ?s = "s\<lparr>timeout_cter_ms := 1, buffer_offset := off + 7, tx_msg := (tx_msg s)\<lparr>msg_data := ?e\<rparr>,
        sent := sent s @ [(tx_msg s)\<lparr>msg_data := ?e\<rparr>], toggle := t XOR 0x10\<rparr>"
    have "server_switch (s\<lparr>timeout_cter_ms := 0\<rparr>) = Some (CO_SDO_RT_busy, ?s)"
      using assms(5,6,8) r cs False
      by (simp add: server_switch_def CO_SDOserver_upload_segment_handle_def mem_simps mask_defs
          cs_defs sdo_effects Let_def sub_simps)
    from server_switches [OF r(1) _ assms(2,3) _ this] have p:
      "CO_SDOserver_process s dt = Some (set_rx_old ?s\<lparr>sd_status := CO_SDO_RT_busy\<rparr>)"
      using r(11) assms(5) cs by (simp add: CCS_ABORT_def)
    have "segment_of ?e t (unat off) (unat n) (so_data sub)"
      using r(7) False assms(8) by (simp add: segment_of_def nth_append min_absorb2)
    then show ?thesis
      using r p False assms(8)
      by (simp add: sdo_effects sdo_ready_def answered_def transferring_def)
  qed
qed

end
