(* ===== verification/Co_Sdo_Client.thy ===== *)
theory Co_Sdo_Client
  imports Co_Sdo
begin

section \<open>The SDO client\<close>

text \<open>
  This theory models \<open>common/upgrade/loader/libs/canopen/CO_SDOclient.c\<close>, one definition per
  function. The client transfers the buffer of the global \<open>temp_sdo_cli_sub_obj\<close>, into which
  the start functions copy the caller's sub object; the caller's data buffer and that of the
  global are one buffer, \<open>so_data\<close> of the global. An access outside an object, or through the
  \<open>p_sync\<close> pointer when it is NULL, is \<open>None\<close>.
\<close>

record sdo_client_para =
  x1032_trans_type :: u16
  x1032_sync_mask_reg :: u32

definition CO_SDOclient_init :: "'w sdo_run \<Rightarrow> sdo_client_para \<Rightarrow> CO_SYNC ptr \<Rightarrow> 'w sdo_run" where
  "CO_SDOclient_init s p sync =
     (CO_SDOtimeout_reset_and_inactivate (s
       \<lparr>valid := True,
        tx_msg := (tx_msg s)\<lparr>msg_id := set_can_id (msg_id (tx_msg s)) 0x600,
                             msg_len := 8, msg_new := False\<rparr>,
        rx_msg := (rx_msg s)\<lparr>msg_id := set_can_id (msg_id (rx_msg s)) 0x580, msg_new := False\<rparr>,
        buffer_offset := 0, trans_data_len := 0, toggle := 0, trans_type := x1032_trans_type p,
        sync_mask_reg := x1032_sync_mask_reg p, sd_index := 0, sd_sub_index := 0,
        p_sub_obj := No_sub, p_data_itf := Itf_NULL\<rparr>))
       \<lparr>allowed_timeout_ms := 0, p_sync := sync,
        is_internal_processing := False, tx_abort_code := CO_SDO_AB_NONE,
        rx_abort_code := CO_SDO_AB_NONE, sd_state := CO_SDO_ST_IDLE, sd_status := CO_SDO_RT_idle\<rparr>"

text \<open>The common body of the two start functions; \<open>p_temp_data\<close> of the global is not set.\<close>

definition client_start ::
  "CO_SDO_state \<Rightarrow> u32 \<Rightarrow> u16 \<Rightarrow> u8 \<Rightarrow> 'w CO_Sub_Object \<Rightarrow> u16 \<Rightarrow> 'w sdo_run \<Rightarrow> 'w sdo_run" where
  "client_start st node index sub_index obj timeout s =
     s\<lparr>sd_status := CO_SDO_RT_busy,
       tx_msg := (tx_msg s)\<lparr>msg_id := set_node_id (msg_id (tx_msg s)) node\<rparr>,
       rx_msg := (rx_msg s)\<lparr>msg_id := set_node_id (msg_id (rx_msg s)) node\<rparr>,
       sd_index := index, sd_sub_index := sub_index, allowed_timeout_ms := timeout,
       temp_sdo_cli_sub_obj := (temp_sdo_cli_sub_obj s)
         \<lparr>so_attr := so_attr obj, so_len := so_len obj, so_data := so_data obj, so_ext := so_ext obj\<rparr>,
       p_sub_obj := Cli_sub, is_internal_processing := True, sd_state := st\<rparr>"

definition CO_SDOclient_start_download ::
  "u32 \<Rightarrow> u16 \<Rightarrow> u8 \<Rightarrow> 'w CO_Sub_Object \<Rightarrow> u16 \<Rightarrow> 'w sdo_run \<Rightarrow> 'w sdo_run" where
  "CO_SDOclient_start_download = client_start CO_SDO_ST_DOWNLOAD_INITIATE_REQ"

definition CO_SDOclient_start_upload ::
  "u32 \<Rightarrow> u16 \<Rightarrow> u8 \<Rightarrow> 'w CO_Sub_Object \<Rightarrow> u16 \<Rightarrow> 'w sdo_run \<Rightarrow> 'w sdo_run" where
  "CO_SDOclient_start_upload = client_start CO_SDO_ST_UPLOAD_INITIATE_REQ"

definition CO_SDOclient_process_init_transfer_msg :: "'w sdo_run \<Rightarrow> 'w sdo_run option" where
  "CO_SDOclient_process_init_transfer_msg s =
     do { let s = s\<lparr>toggle := 0, buffer_offset := 0\<rparr>;
          s \<leftarrow> set_tx_byte 1 (byte_lo (sd_index s)) s;
          s \<leftarrow> set_tx_byte 2 (byte_hi (sd_index s)) s;
          set_tx_byte 3 (sd_sub_index s) s }"

text \<open>A segment of a download: at most seven bytes of the buffer, with the last-segment bit and
  the number of unused bytes in the last one. The first segment is taken from the start of the
  buffer, the others from the offset reached.\<close>

definition client_request_segment :: "'w sdo_run \<Rightarrow> 'w sdo_result" where
  "client_request_segment s =
     Some (CO_SDO_RT_busy,
       (CO_CAN_send (CO_SDOtimeout_reset_and_activate s))\<lparr>sd_state := CO_SDO_ST_DOWNLOAD_SEGMENTED\<rparr>)"

definition client_first_segment :: "'w sdo_run \<Rightarrow> 'w sdo_result" where
  "client_first_segment s =
     do { sub \<leftarrow> the_sub s;
          s \<leftarrow>
            (if unat (trans_data_len s) \<le> unat (buffer_offset s) + 7 then
               do { let cur_trans_data_len = (ucast (trans_data_len s) :: u8);
                    d \<leftarrow> CO_memcpy (msg_data (tx_msg s)) 1 (so_data sub) 0 (ucast cur_trans_data_len);
                    let s = (set_tx_data d s)\<lparr>buffer_offset := trans_data_len s\<rparr>;
                    set_tx_byte 0 (push_bit 5 CCS_DOWNLOAD_SEGMENT OR toggle s
                      OR push_bit 1 (7 - cur_trans_data_len) OR SDO_MASK_SEG_C_BIT) s }
             else
               do { d \<leftarrow> CO_memcpy (msg_data (tx_msg s)) 1 (so_data sub) 0 7;
                    let s = (set_tx_data d s)\<lparr>buffer_offset := 7\<rparr>;
                    set_tx_byte 0 (push_bit 5 CCS_DOWNLOAD_SEGMENT OR toggle s) s });
          client_request_segment s }"

definition client_next_segment :: "'w sdo_run \<Rightarrow> 'w sdo_result" where
  "client_next_segment s =
     do { sub \<leftarrow> the_sub s;
          s \<leftarrow>
            (if unat (trans_data_len s) \<le> unat (buffer_offset s) + 7 then
               do { let cur_trans_data_len = (ucast (trans_data_len s - buffer_offset s) :: u8);
                    d \<leftarrow> CO_memcpy (msg_data (tx_msg s)) 1 (so_data sub) (unat (buffer_offset s))
                          (ucast cur_trans_data_len);
                    let s = (set_tx_data d s)\<lparr>buffer_offset := trans_data_len s\<rparr>;
                    set_tx_byte 0 (push_bit 5 CCS_DOWNLOAD_SEGMENT OR toggle s
                      OR push_bit 1 (7 - cur_trans_data_len) OR SDO_MASK_SEG_C_BIT) s }
             else
               do { d \<leftarrow> CO_memcpy (msg_data (tx_msg s)) 1 (so_data sub) (unat (buffer_offset s)) 7;
                    let s = (set_tx_data d s)\<lparr>buffer_offset := buffer_offset s + 7\<rparr>;
                    set_tx_byte 0 (push_bit 5 CCS_DOWNLOAD_SEGMENT OR toggle s) s });
          client_request_segment s }"

definition CO_SDOclient_download_initiate_request_handle :: "'w sdo_run \<Rightarrow> 'w sdo_result" where
  "CO_SDOclient_download_initiate_request_handle s =
     do { s \<leftarrow> CO_SDOclient_process_init_transfer_msg s;
          sub \<leftarrow> the_sub s;
          let s = s\<lparr>trans_data_len := so_len sub\<rparr>;
          s \<leftarrow>
            (if trans_data_len s \<le> 4 then
               do { s \<leftarrow> set_tx_byte 0 (push_bit 5 CCS_DOWNLOAD_INITIATE
                          OR (ucast (push_bit 2 (4 - trans_data_len s)) AND SDO_MASK_INIT_N_BIT)
                          OR SDO_MASK_INIT_E_BIT OR SDO_MASK_INIT_S_BIT) s;
                    d \<leftarrow> CO_memcpy (msg_data (tx_msg s)) 4 (so_data sub) 0 (trans_data_len s);
                    Some (set_tx_data d s) }
             else
               do { s \<leftarrow> set_tx_byte 0 (push_bit 5 CCS_DOWNLOAD_INITIATE OR SDO_MASK_INIT_S_BIT) s;
                    d \<leftarrow> CO_setUint32 (msg_data (tx_msg s)) 4 (ucast (trans_data_len s));
                    Some (set_tx_data d s) });
          Some (CO_SDO_RT_busy,
            (CO_SDOtimeout_reset_and_activate (CO_CAN_send s))
              \<lparr>is_internal_processing := False, sd_state := CO_SDO_ST_DOWNLOAD_INITIATE_RSP\<rparr>) }"

definition CO_SDOclient_download_initiate_response_handle :: "'w sdo_run \<Rightarrow> 'w sdo_result" where
  "CO_SDOclient_download_initiate_response_handle s =
     do { rx_cs \<leftarrow> mem_get (msg_data (rx_msg s)) 0;
          if SCS_DOWNLOAD_INITIATED \<noteq> drop_bit 5 rx_cs then abort_with CO_SDO_AB_NO_RESOURCE s
          else do {
            index \<leftarrow> CO_getUint16 (msg_data (rx_msg s)) 1;
            subindex \<leftarrow> mem_get (msg_data (rx_msg s)) 3;
            if index \<noteq> sd_index s \<or> subindex \<noteq> sd_sub_index s
            then abort_with CO_SDO_AB_PRAM_INCOMPAT s
            else if trans_data_len s \<le> 4
            then Some (CO_SDO_RT_success, s\<lparr>sd_state := CO_SDO_ST_IDLE\<rparr>)
            else client_first_segment s } }"

definition CO_SDOclient_download_segment_handle :: "'w sdo_run \<Rightarrow> 'w sdo_result" where
  "CO_SDOclient_download_segment_handle s =
     do { rx_cs \<leftarrow> mem_get (msg_data (rx_msg s)) 0;
          if SCS_DOWNLOAD_SEGMENT \<noteq> drop_bit 5 rx_cs then abort_with CO_SDO_AB_NO_RESOURCE s
          else if rx_cs AND SDO_MASK_SEG_T_BIT \<noteq> toggle s then abort_with CO_SDO_AB_TOGGLE_BIT s
          else do {
            let s = s\<lparr>toggle := toggle s XOR 0x10\<rparr>;
            if trans_data_len s \<le> buffer_offset s
            then Some (CO_SDO_RT_success, s\<lparr>sd_state := CO_SDO_ST_IDLE\<rparr>)
            else client_next_segment s } }"

definition CO_SDOclient_upload_initiate_request_handle :: "'w sdo_run \<Rightarrow> 'w sdo_result" where
  "CO_SDOclient_upload_initiate_request_handle s =
     do { s \<leftarrow> CO_SDOclient_process_init_transfer_msg s;
          s \<leftarrow> set_tx_byte 0 (push_bit 5 CCS_UPLOAD_INITIATE) s;
          Some (CO_SDO_RT_busy,
            (CO_SDOtimeout_reset_and_activate (CO_CAN_send s))
              \<lparr>is_internal_processing := False, sd_state := CO_SDO_ST_UPLOAD_INITIATE_RSP\<rparr>) }"

definition CO_SDOclient_upload_initiate_response_handle :: "'w sdo_run \<Rightarrow> 'w sdo_result" where
  "CO_SDOclient_upload_initiate_response_handle s =
     do { rx_cs \<leftarrow> mem_get (msg_data (rx_msg s)) 0;
          if SCS_UPLOAD_INITIATE \<noteq> drop_bit 5 rx_cs then abort_with CO_SDO_AB_NO_RESOURCE s
          else do {
            index \<leftarrow> CO_getUint16 (msg_data (rx_msg s)) 1;
            subindex \<leftarrow> mem_get (msg_data (rx_msg s)) 3;
            if index \<noteq> sd_index s \<or> subindex \<noteq> sd_sub_index s
            then abort_with CO_SDO_AB_PRAM_INCOMPAT s
            else do {
              sub \<leftarrow> the_sub s;
              if rx_cs AND SDO_MASK_INIT_ES_BIT = SDO_MASK_INIT_ES_BIT then
                do { let s = s\<lparr>trans_data_len := 4 - ucast (drop_bit 2 (rx_cs AND SDO_MASK_INIT_N_BIT))\<rparr>;
                     if so_len sub < trans_data_len s
                     then Some (CO_SDO_RT_abort, CO_SDO_abort CO_SDO_AB_OUT_OF_MEM s)
                     else do {
                       s \<leftarrow> store_received Itf_data 0 4 (trans_data_len s) s;
                       Some (CO_SDO_RT_success,
                         s\<lparr>buffer_offset := trans_data_len s, sd_state := CO_SDO_ST_IDLE\<rparr>) } }
              else if rx_cs AND SDO_MASK_INIT_ES_BIT = SDO_MASK_INIT_S_BIT then
                do { n \<leftarrow> CO_getUint32 (msg_data (rx_msg s)) 4;
                     let s = s\<lparr>trans_data_len := ucast n\<rparr>;
                     if so_len sub < trans_data_len s then abort_with CO_SDO_AB_OUT_OF_MEM s
                     else do {
                       let s = s\<lparr>buffer_offset := 0\<rparr>;
                       s \<leftarrow> set_tx_byte 0 (push_bit 5 CCS_UPLOAD_SEGMENT) s;
                       Some (CO_SDO_RT_busy,
                         (CO_CAN_send (CO_SDOtimeout_reset_and_activate s))
                           \<lparr>sd_state := CO_SDO_ST_UPLOAD_SEGMENTED\<rparr>) } }
              else abort_with CO_SDO_AB_TYPE_MISMATCH s } } }"

definition CO_SDOclient_upload_segment_handle :: "'w sdo_run \<Rightarrow> 'w sdo_result" where
  "CO_SDOclient_upload_segment_handle s =
     do { rx_cs \<leftarrow> mem_get (msg_data (rx_msg s)) 0;
          if SCS_UPLOAD_SEGMENT \<noteq> drop_bit 5 rx_cs then abort_with CO_SDO_AB_NO_RESOURCE s
          else if rx_cs AND SDO_MASK_SEG_T_BIT \<noteq> toggle s then abort_with CO_SDO_AB_TOGGLE_BIT s
          else do {
            let s = s\<lparr>toggle := toggle s XOR 0x10\<rparr>;
            if unat (trans_data_len s) \<le> unat (buffer_offset s) + 7 then
              (if rx_cs AND SDO_MASK_SEG_C_BIT \<noteq> 1 then abort_with CO_SDO_AB_GENERAL s
               else do {
                 s \<leftarrow> store_received Itf_data (unat (buffer_offset s)) 1
                       (trans_data_len s - buffer_offset s) s;
                 Some (CO_SDO_RT_success,
                   s\<lparr>buffer_offset := trans_data_len s, sd_state := CO_SDO_ST_IDLE\<rparr>) })
            else
              (if rx_cs AND SDO_MASK_SEG_C_BIT = 1 then abort_with CO_SDO_AB_GENERAL s
               else do {
                 s \<leftarrow> store_received Itf_data (unat (buffer_offset s)) 1 7 s;
                 let s = s\<lparr>buffer_offset := buffer_offset s + 7\<rparr>;
                 s \<leftarrow> set_tx_byte 0 (push_bit 5 CCS_UPLOAD_SEGMENT OR toggle s) s;
                 Some (CO_SDO_RT_busy, CO_SDOtimeout_reset_and_activate (CO_CAN_send s)) }) } }"

definition CO_SDOclient_is_in_sync_window_len :: "'w sdo_run \<Rightarrow> bool option" where
  "CO_SDOclient_is_in_sync_window_len s =
     (case p_sync s of
        NULL \<Rightarrow> None
      | Ref y \<Rightarrow>
          (let in_window = (sync_counter y = trans_type s
                            \<and> CO_SYNC_is_match_sync_mask_reg y (sync_mask_reg s))
           in Some (if trans_type s = 0 then True else in_window)))"

definition client_switch :: "'w sdo_run \<Rightarrow> 'w sdo_result" where
  "client_switch s =
     (case sd_state s of
        CO_SDO_ST_DOWNLOAD_INITIATE_REQ \<Rightarrow> CO_SDOclient_download_initiate_request_handle s
      | CO_SDO_ST_DOWNLOAD_INITIATE_RSP \<Rightarrow> CO_SDOclient_download_initiate_response_handle s
      | CO_SDO_ST_DOWNLOAD_SEGMENTED \<Rightarrow> CO_SDOclient_download_segment_handle s
      | CO_SDO_ST_UPLOAD_INITIATE_REQ \<Rightarrow> CO_SDOclient_upload_initiate_request_handle s
      | CO_SDO_ST_UPLOAD_INITIATE_RSP \<Rightarrow> CO_SDOclient_upload_initiate_response_handle s
      | CO_SDO_ST_UPLOAD_SEGMENTED \<Rightarrow> CO_SDOclient_upload_segment_handle s
      | _ \<Rightarrow> Some (CO_SDO_RT_busy, s))"

definition client_handle :: "'w sdo_run \<Rightarrow> 'w sdo_result" where
  "client_handle s = do { (ret, s) \<leftarrow> client_switch s; Some (ret, set_rx_old s) }"

definition client_message :: "'w sdo_run \<Rightarrow> 'w sdo_result" where
  "client_message s =
     do { let s = CO_SDOtimeout_reset_and_inactivate s;
          b0 \<leftarrow> mem_get (msg_data (rx_msg s)) 0;
          if drop_bit 5 b0 = SCS_ABORT then
            do { code \<leftarrow> CO_getUint32 (msg_data (rx_msg s)) 4;
                 Some (CO_SDO_RT_abort,
                   (set_rx_old (s\<lparr>rx_abort_code := code\<rparr>))\<lparr>sd_state := CO_SDO_ST_IDLE\<rparr>) }
          else client_handle s }"

text \<open>\<open>CO_SDOclient_process_\<close>.\<close>

definition CO_SDOclient_process_inner :: "'w sdo_run \<Rightarrow> u16 \<Rightarrow> 'w sdo_result" where
  "CO_SDOclient_process_inner s time_diff_ms =
     (if \<not> valid s then Some (CO_SDO_RT_busy, s)
      else if sd_state s = CO_SDO_ST_IDLE then Some (CO_SDO_RT_idle, s)
      else
        (let active = CO_SDOtimeout_is_activated s;
             s = (if active then CO_SDOtimeout_increase time_diff_ms s else s)
         in if active \<and> CO_SDOtimeout_is_timeout s
            then Some (CO_SDO_RT_abort, CO_SDO_abort CO_SDO_AB_TIMEOUT s)
            else do {
              in_window \<leftarrow> CO_SDOclient_is_in_sync_window_len s;
              if \<not> in_window then Some (CO_SDO_RT_busy, s)
              else if msg_new (rx_msg s) then client_message s
              else if is_internal_processing s then client_handle s
              else Some (CO_SDO_RT_busy, s) }))"

definition CO_SDOclient_process :: "'w sdo_run \<Rightarrow> u16 \<Rightarrow> 'w sdo_run option" where
  "CO_SDOclient_process s time_diff_ms =
     do { (ret, s) \<leftarrow> CO_SDOclient_process_inner s time_diff_ms;
          Some (if ret = CO_SDO_RT_idle then s else s\<lparr>sd_status := ret\<rparr>) }"

subsection \<open>The steps of a transfer without an error\<close>

text \<open>A client whose transmission type is "always", and what every step keeps of it.\<close>

definition client_ok :: "'w sdo_run \<Rightarrow> bool" where
  "client_ok s \<longleftrightarrow> p_sub_obj s = Cli_sub \<and> p_sync s \<noteq> NULL \<and> trans_type s = 0"

definition client_keeps :: "'w sdo_run \<Rightarrow> 'w sdo_run \<Rightarrow> bool" where
  "client_keeps s s' \<longleftrightarrow> client_ok s' \<and> sd_index s' = sd_index s \<and> sd_sub_index s' = sd_sub_index s"

text \<open>The client has ended its transfer with success and sent nothing more.\<close>

definition client_done :: "'w sdo_run \<Rightarrow> 'w sdo_run \<Rightarrow> bool" where
  "client_done s s' \<longleftrightarrow> sd_status s' = CO_SDO_RT_success \<and> sd_state s' = CO_SDO_ST_IDLE
     \<and> sent s' = sent s \<and> valid s'"

lemma client_window: "client_ok s \<Longrightarrow> CO_SDOclient_is_in_sync_window_len s = Some True"
  by (auto simp: client_ok_def CO_SDOclient_is_in_sync_window_len_def split: ptr.split)

lemma client_window_increase [simp]:
  "CO_SDOclient_is_in_sync_window_len (CO_SDOtimeout_increase dt s)
     = CO_SDOclient_is_in_sync_window_len s"
  by (cases "p_sync s")
    (simp_all add: CO_SDOclient_is_in_sync_window_len_def CO_SDOtimeout_increase_def)

lemma client_message_timeout [simp]:
  "client_message (CO_SDOtimeout_increase dt s) = client_message s"
  by (simp add: client_message_def sdo_effects)

lemma client_switches:
  assumes "sdo_ready s st" "st \<noteq> CO_SDO_ST_IDLE" "has_message s d" "in_time s dt" "client_ok s"
    and "drop_bit 5 (d ! 0) \<noteq> SCS_ABORT"
    and "client_switch (s\<lparr>timeout_cter_ms := 0\<rparr>) = Some (ret, s')" "ret \<noteq> CO_SDO_RT_idle"
  shows "CO_SDOclient_process s dt = Some (set_rx_old s'\<lparr>sd_status := ret\<rparr>)"
proof -
  have v: "valid s" "msg_new (rx_msg s)" "msg_data (rx_msg s) = d" "length d = 8" "sd_state s = st"
    using assms(1,3) by (auto simp: sdo_ready_def has_message_def)
  have m: "client_message s = Some (ret, set_rx_old s')"
    using assms(6,7) v
    by (simp add: client_message_def mem_simps CO_SDOtimeout_reset_and_inactivate_def
        client_handle_def)
  show ?thesis
    using assms(2,8) v m client_window [OF assms(5)] in_time_no_timeout [OF assms(4)]
    by (simp add: CO_SDOclient_process_def CO_SDOclient_process_inner_def Let_def)
      (simp add: CO_SDOtimeout_increase_def)
qed

text \<open>A request: the client is in a request state and its first call sends.\<close>

definition client_requesting :: "'w sdo_run \<Rightarrow> CO_SDO_state \<Rightarrow> bool" where
  "client_requesting s st \<longleftrightarrow> valid s \<and> sd_state s = st \<and> is_internal_processing s
     \<and> \<not> msg_new (rx_msg s) \<and> length (msg_data (tx_msg s)) = 8 \<and> timeout_cter_ms s = 0
     \<and> client_ok s"

lemma client_requests:
  assumes "client_requesting s st" "st \<noteq> CO_SDO_ST_IDLE"
    and "client_switch s = Some (CO_SDO_RT_busy, s')"
  shows "CO_SDOclient_process s dt = Some (set_rx_old s'\<lparr>sd_status := CO_SDO_RT_busy\<rparr>)"
  using assms client_window [of s]
  by (simp add: client_requesting_def CO_SDOclient_process_def CO_SDOclient_process_inner_def
      Let_def CO_SDOtimeout_is_activated_def client_handle_def)

lemma client_init_mux:
  assumes "length (msg_data (tx_msg s)) = 8"
  shows "CO_SDOclient_process_init_transfer_msg s = Some
    (set_tx_data ((msg_data (tx_msg s))[1 := byte_lo (sd_index s),
        2 := byte_hi (sd_index s), 3 := sd_sub_index s]) (s\<lparr>toggle := 0, buffer_offset := 0\<rparr>))"
  using assms
  by (simp add: CO_SDOclient_process_init_transfer_msg_def mem_simps Let_def set_tx_data_def)

lemma client_requests_download:
  assumes "client_requesting s CO_SDO_ST_DOWNLOAD_INITIATE_REQ"
    and "obj = temp_sdo_cli_sub_obj s" "n = so_len obj" "unat n \<le> length (so_data obj)"
  shows "\<exists>s' d'. CO_SDOclient_process s dt = Some s' \<and> temp_sdo_cli_sub_obj s' = obj
     \<and> transferring s' CO_SDO_ST_DOWNLOAD_INITIATE_RSP Cli_sub n 0 0
     \<and> client_keeps s s' \<and> answered s s' d' \<and> mux_of d' (sd_index s) (sd_sub_index s)
     \<and> (if n \<le> 4 then d' ! 0 = expedited_cs 1 n
            \<and> take (unat n) (drop 4 d') = take (unat n) (so_data obj)
        else d' ! 0 = 0x21 \<and> CO_getUint32 d' 4 = Some (ucast n))"
proof -
  have r: "valid s" "sd_state s = CO_SDO_ST_DOWNLOAD_INITIATE_REQ" "length (msg_data (tx_msg s)) = 8"
      "client_ok s" "p_sub_obj s = Cli_sub"
    using assms(1) by (auto simp: client_requesting_def client_ok_def)
  let ?b = "(msg_data (tx_msg s))[1 := byte_lo (sd_index s), 2 := byte_hi (sd_index s),
      3 := sd_sub_index s]"
  show ?thesis
  proof (cases "n \<le> 4")
    case True
    have n4: "unat n \<le> 4" using True by (simp add: word_le_nat_alt)
    let ?c = "?b[0 := expedited_cs 1 n]"
    let ?e = "take 4 ?c @ take (unat n) (so_data obj) @ drop (4 + unat n) ?c"
    let ?s = "s\<lparr>toggle := 0, buffer_offset := 0, trans_data_len := n, timeout_cter_ms := 1,
        tx_msg := (tx_msg s)\<lparr>msg_data := ?e\<rparr>, sent := sent s @ [(tx_msg s)\<lparr>msg_data := ?e\<rparr>],
        is_internal_processing := False, sd_state := CO_SDO_ST_DOWNLOAD_INITIATE_RSP\<rparr>"
    have "client_switch s = Some (CO_SDO_RT_busy, ?s)"
      using r True n4 assms(2-4)
      by (simp add: client_switch_def CO_SDOclient_download_initiate_request_handle_def
          client_init_mux mem_simps sdo_effects Let_def the_sub_Cli expedited_cs_def
          CCS_DOWNLOAD_INITIATE_def)
    from client_requests [OF assms(1) _ this, of dt] show ?thesis
      using r True n4 assms(2-4)
      by (simp add: sdo_effects transferring_def sdo_ready_def client_keeps_def client_ok_def
          answered_def mux_of_def CO_getUint16_def mem_simps nth_append min_absorb2 layout_simps
          flip: numeral_2_eq_2 numeral_3_eq_3)
  next
    case False
    let ?c = "?b[0 := 0x21]" and ?v = "ucast n :: u32"
    let ?e = "?c[4 := le32_byte 0 ?v, 4 + 1 := le32_byte 1 ?v, 4 + 2 := le32_byte 2 ?v,
        4 + 3 := le32_byte 3 ?v]"
    have "4 + 4 \<le> length ?c" using r by simp
    note get = CO_getUint32_set [OF this, of ?v]
    let ?s = "s\<lparr>toggle := 0, buffer_offset := 0, trans_data_len := n, timeout_cter_ms := 1,
        tx_msg := (tx_msg s)\<lparr>msg_data := ?e\<rparr>, sent := sent s @ [(tx_msg s)\<lparr>msg_data := ?e\<rparr>],
        is_internal_processing := False, sd_state := CO_SDO_ST_DOWNLOAD_INITIATE_RSP\<rparr>"
    have "client_switch s = Some (CO_SDO_RT_busy, ?s)"
      using r False assms(2-4)
      by (simp add: client_switch_def CO_SDOclient_download_initiate_request_handle_def
          client_init_mux mem_simps sdo_effects Let_def the_sub_Cli
          CCS_DOWNLOAD_INITIATE_def mask_defs)
    from client_requests [OF assms(1) _ this, of dt] show ?thesis
      using r False assms(2-4) get
      by (simp add: sdo_effects transferring_def sdo_ready_def client_keeps_def client_ok_def
          answered_def mux_of_def CO_getUint16_def mem_simps layout_simps
          flip: numeral_2_eq_2 numeral_3_eq_3)
  qed
qed

lemma client_ends_expedited_download:
  assumes "transferring s CO_SDO_ST_DOWNLOAD_INITIATE_RSP Cli_sub n 0 0" "client_ok s"
    and "has_message s d" "in_time s dt" "d ! 0 = 0x60" "mux_of d (sd_index s) (sd_sub_index s)"
    and "n \<le> 4"
  shows "\<exists>s'. CO_SDOclient_process s dt = Some s' \<and> client_done s s'
     \<and> temp_sdo_cli_sub_obj s' = temp_sdo_cli_sub_obj s"
proof -
  have r: "sdo_ready s CO_SDO_ST_DOWNLOAD_INITIATE_RSP" "trans_data_len s = n"
      "msg_data (rx_msg s) = d" "length d = 8" "sd_state s = CO_SDO_ST_DOWNLOAD_INITIATE_RSP" "valid s"
    using assms(1,3) by (auto simp: transferring_def sdo_ready_def has_message_def)
  have "client_switch (s\<lparr>timeout_cter_ms := 0\<rparr>)
      = Some (CO_SDO_RT_success, s\<lparr>timeout_cter_ms := 0, sd_state := CO_SDO_ST_IDLE\<rparr>)"
    using r assms(5-7)
    by (simp add: client_switch_def CO_SDOclient_download_initiate_response_handle_def mem_simps
        cs_defs mux_of_def)
  from client_switches [OF r(1) _ assms(3,4,2) _ this] show ?thesis
    using r assms(5) by (simp add: SCS_ABORT_def client_done_def sdo_effects)
qed

text \<open>The segment a client sends from an offset, and its offset afterwards.\<close>

definition next_offset :: "u16 \<Rightarrow> u16 \<Rightarrow> u16" where
  "next_offset off n = (if unat n \<le> unat off + 7 then n else off + 7)"

lemma unused_bytes:
  assumes "unat off < unat (n :: u16)" "unat n \<le> unat off + 7"
  shows "(ucast (ucast (n - off) :: u8) :: u16) = n - off" "unat (n - off) = unat n - unat off"
    "unat (7 - ucast (n - off) :: u8) \<le> 7"
proof -
  show k: "unat (n - off) = unat n - unat off"
    using assms by (simp add: unat_sub_if')
  have u: "unat (ucast (n - off) :: u8) = unat n - unat off"
    using assms k by (simp add: unsigned_ucast_eq take_bit_nat_eq_self)
  show "(ucast (ucast (n - off) :: u8) :: u16) = n - off"
    using k u by (simp add: word_unat_eq_iff)
  show "unat (7 - ucast (n - off) :: u8) \<le> 7"
    using assms u by (simp add: unat_sub_if') linarith
qed

lemma segment_built:
  assumes "length c = 8" "off < n" "n \<le> length data" "unat m \<le> 7"
  shows "n \<le> off + 7 \<Longrightarrow> segment_of ((take 1 c @ take (n - off) (drop off data)
      @ drop (1 + (n - off)) c)[0 := t OR push_bit 1 m OR 1]) t off n data"
    and "\<not> n \<le> off + 7 \<Longrightarrow> segment_of ((take 1 c @ take 7 (drop off data)
      @ drop (1 + 7) c)[0 := t]) t off n data"
proof -
  show "segment_of ((take 1 c @ take (n - off) (drop off data)
      @ drop (1 + (n - off)) c)[0 := t OR push_bit 1 m OR 1]) t off n data" if "n \<le> off + 7"
    using assms that by (auto simp: segment_of_def nth_append min_absorb2 intro!: exI [of _ m])
  show "segment_of ((take 1 c @ take 7 (drop off data) @ drop (1 + 7) c)[0 := t]) t off n data"
    if "\<not> n \<le> off + 7"
    using assms that by (simp add: segment_of_def nth_append min_absorb2)
qed

lemma client_first_segment_sent:
  assumes "p_sub_obj s = Cli_sub" "length (msg_data (tx_msg s)) = 8"
    and "trans_data_len s = n" "buffer_offset s = 0" "toggle s = 0" "0 < n"
    and "obj = temp_sdo_cli_sub_obj s" "unat n \<le> length (so_data obj)"
  shows "\<exists>e. segment_of e 0 0 (unat n) (so_data obj) \<and> client_first_segment s = Some (CO_SDO_RT_busy,
    s\<lparr>timeout_cter_ms := 1, buffer_offset := next_offset 0 n, tx_msg := (tx_msg s)\<lparr>msg_data := e\<rparr>,
      sent := sent s @ [(tx_msg s)\<lparr>msg_data := e\<rparr>], sd_state := CO_SDO_ST_DOWNLOAD_SEGMENTED\<rparr>)"
proof -
  have n: "0 < unat n" using assms(6) by (simp add: word_less_nat_alt)
  show ?thesis
  proof (cases "unat n \<le> 7")
    case True
    have "unat (0 :: u16) < unat n" "unat n \<le> unat (0 :: u16) + 7" using n True by simp_all
    note u = unused_bytes [OF this, unfolded diff_zero]
    let ?c = "msg_data (tx_msg s)"
    let ?e = "(take 1 ?c @ take (unat n - 0) (drop 0 (so_data obj)) @ drop (1 + (unat n - 0)) ?c)
        [0 := 0 OR push_bit 1 (7 - ucast n) OR 1]"
    have "segment_of ?e 0 0 (unat n) (so_data obj)"
      by (rule segment_built) (use assms(2,8) n u True in simp_all)
    then show ?thesis
      using assms u True n
      by (intro exI [of _ ?e])
        (simp add: client_first_segment_def client_request_segment_def next_offset_def mem_simps
          sdo_effects Let_def the_sub_Cli mask_defs cs_defs)
  next
    case False
    let ?c = "msg_data (tx_msg s)"
    let ?e = "(take 1 ?c @ take 7 (drop 0 (so_data obj)) @ drop (1 + 7) ?c)[0 := 0]"
    have "segment_of ?e 0 0 (unat n) (so_data obj)"
      by (rule segment_built(2) [where m = 0]) (use assms(2,8) n False in simp_all)
    then show ?thesis
      using assms False n
      by (intro exI [of _ ?e])
        (simp add: client_first_segment_def client_request_segment_def next_offset_def mem_simps
          sdo_effects Let_def the_sub_Cli mask_defs cs_defs)
  qed
qed

lemma client_next_segment_sent:
  assumes "p_sub_obj s = Cli_sub" "length (msg_data (tx_msg s)) = 8"
    and "trans_data_len s = n" "buffer_offset s = off" "toggle s = t" "unat off < unat n"
    and "obj = temp_sdo_cli_sub_obj s" "unat n \<le> length (so_data obj)"
  shows "\<exists>e. segment_of e t (unat off) (unat n) (so_data obj)
     \<and> client_next_segment s = Some (CO_SDO_RT_busy,
    s\<lparr>timeout_cter_ms := 1, buffer_offset := next_offset off n, tx_msg := (tx_msg s)\<lparr>msg_data := e\<rparr>,
      sent := sent s @ [(tx_msg s)\<lparr>msg_data := e\<rparr>], sd_state := CO_SDO_ST_DOWNLOAD_SEGMENTED\<rparr>)"
proof (cases "unat n \<le> unat off + 7")
  case True
  note u = unused_bytes [OF assms(6) True]
  let ?c = "msg_data (tx_msg s)" and ?k = "unat n - unat off"
  let ?e = "(take 1 ?c @ take ?k (drop (unat off) (so_data obj)) @ drop (1 + ?k) ?c)
      [0 := t OR push_bit 1 (7 - ucast (n - off)) OR 1]"
  have "segment_of ?e t (unat off) (unat n) (so_data obj)"
    by (rule segment_built) (use assms(2,6,8) u True in simp_all)
  then show ?thesis
    using assms u True
    by (intro exI [of _ ?e])
      (simp add: client_next_segment_def client_request_segment_def next_offset_def mem_simps
        sdo_effects Let_def the_sub_Cli mask_defs cs_defs)
next
  case False
  let ?c = "msg_data (tx_msg s)"
  let ?e = "(take 1 ?c @ take 7 (drop (unat off) (so_data obj)) @ drop (1 + 7) ?c)[0 := t]"
  have "segment_of ?e t (unat off) (unat n) (so_data obj)"
    by (rule segment_built(2) [where m = 0]) (use assms(2,6,8) False in simp_all)
  then show ?thesis
    using assms False
    by (intro exI [of _ ?e])
      (simp add: client_next_segment_def client_request_segment_def next_offset_def mem_simps
        sdo_effects Let_def the_sub_Cli mask_defs cs_defs)
qed

lemma client_sends_first:
  assumes "transferring s CO_SDO_ST_DOWNLOAD_INITIATE_RSP Cli_sub n 0 0" "client_ok s"
    and "has_message s d" "in_time s dt" "d ! 0 = 0x60" "mux_of d (sd_index s) (sd_sub_index s)"
    and "4 < n" "obj = temp_sdo_cli_sub_obj s" "unat n \<le> length (so_data obj)"
  shows "\<exists>s' d'. CO_SDOclient_process s dt = Some s' \<and> temp_sdo_cli_sub_obj s' = obj
     \<and> transferring s' CO_SDO_ST_DOWNLOAD_SEGMENTED Cli_sub n (next_offset 0 n) 0
     \<and> client_keeps s s' \<and> answered s s' d' \<and> segment_of d' 0 0 (unat n) (so_data obj)"
proof -
  have r: "sdo_ready s CO_SDO_ST_DOWNLOAD_INITIATE_RSP" "trans_data_len s = n" "buffer_offset s = 0"
      "toggle s = 0" "msg_data (rx_msg s) = d" "length d = 8" "length (msg_data (tx_msg s)) = 8"
      "sd_state s = CO_SDO_ST_DOWNLOAD_INITIATE_RSP" "valid s" "p_sub_obj s = Cli_sub"
      "\<not> is_internal_processing s"
    using assms(1,3) by (auto simp: transferring_def sdo_ready_def has_message_def)
  let ?s = "s\<lparr>timeout_cter_ms := 0\<rparr>"
  have n0: "0 < n" using assms(7) by (simp add: word_less_nat_alt)
  from client_first_segment_sent [of ?s n obj] obtain e where e:
    "segment_of e 0 0 (unat n) (so_data obj)" "client_first_segment ?s = Some (CO_SDO_RT_busy,
    s\<lparr>timeout_cter_ms := 1, buffer_offset := next_offset 0 n, tx_msg := (tx_msg s)\<lparr>msg_data := e\<rparr>,
      sent := sent s @ [(tx_msg s)\<lparr>msg_data := e\<rparr>], sd_state := CO_SDO_ST_DOWNLOAD_SEGMENTED\<rparr>)"
    using r n0 assms(8,9) by auto
  have "client_switch ?s = client_first_segment ?s"
    using r assms(5,6) leD [of n 4] assms(7)
    by (auto simp add: client_switch_def CO_SDOclient_download_initiate_response_handle_def mem_simps
        cs_defs mux_of_def)
  from client_switches [OF r(1) _ assms(3,4,2) _ this [unfolded e(2)]] show ?thesis
    using r assms(2,5,8) e(1)
    by (simp add: SCS_ABORT_def sdo_effects transferring_def sdo_ready_def client_keeps_def
        client_ok_def answered_def segment_of_def split: if_splits)
qed

lemma client_sends_next:
  assumes "transferring s CO_SDO_ST_DOWNLOAD_SEGMENTED Cli_sub n off t" "client_ok s"
    and "has_message s d" "in_time s dt" "toggle_bit t" "d ! 0 = 0x20 OR t"
    and "unat off < unat n" "obj = temp_sdo_cli_sub_obj s" "unat n \<le> length (so_data obj)"
  shows "\<exists>s' d'. CO_SDOclient_process s dt = Some s' \<and> temp_sdo_cli_sub_obj s' = obj
     \<and> transferring s' CO_SDO_ST_DOWNLOAD_SEGMENTED Cli_sub n (next_offset off n) (t XOR 0x10)
     \<and> client_keeps s s' \<and> answered s s' d' \<and> segment_of d' (t XOR 0x10) (unat off) (unat n) (so_data obj)"
proof -
  have r: "sdo_ready s CO_SDO_ST_DOWNLOAD_SEGMENTED" "trans_data_len s = n" "buffer_offset s = off"
      "toggle s = t" "msg_data (rx_msg s) = d" "length d = 8" "length (msg_data (tx_msg s)) = 8"
      "sd_state s = CO_SDO_ST_DOWNLOAD_SEGMENTED" "valid s" "p_sub_obj s = Cli_sub"
      "\<not> is_internal_processing s"
    using assms(1,3) by (auto simp: transferring_def sdo_ready_def has_message_def)
  note cs = segment_cs(7,8) [OF assms(5), of 0, simplified]
  let ?s = "s\<lparr>timeout_cter_ms := 0, toggle := t XOR 0x10\<rparr>"
  from client_next_segment_sent [of ?s n off "t XOR 0x10" obj] obtain e where e:
    "segment_of e (t XOR 0x10) (unat off) (unat n) (so_data obj)"
    "client_next_segment ?s = Some (CO_SDO_RT_busy,
    ?s\<lparr>timeout_cter_ms := 1, buffer_offset := next_offset off n, tx_msg := (tx_msg s)\<lparr>msg_data := e\<rparr>,
      sent := sent s @ [(tx_msg s)\<lparr>msg_data := e\<rparr>], sd_state := CO_SDO_ST_DOWNLOAD_SEGMENTED\<rparr>)"
    using r assms(7-9) by auto
  have "\<not> n \<le> off" using assms(7) by (simp add: word_le_nat_alt)
  then have "client_switch (s\<lparr>timeout_cter_ms := 0\<rparr>) = client_next_segment ?s"
    using r assms(6) cs
    by (simp add: client_switch_def CO_SDOclient_download_segment_handle_def mem_simps
        cs_defs mask_defs)
  from client_switches [OF r(1) _ assms(3,4,2) _ this [unfolded e(2)]] show ?thesis
    using r assms(2,6,8) e(1) cs
    by (simp add: SCS_ABORT_def sdo_effects transferring_def sdo_ready_def client_keeps_def
        client_ok_def answered_def segment_of_def split: if_splits)
qed

lemma client_ends_download:
  assumes "transferring s CO_SDO_ST_DOWNLOAD_SEGMENTED Cli_sub n n t" "client_ok s"
    and "has_message s d" "in_time s dt" "toggle_bit t" "d ! 0 = 0x20 OR t"
  shows "\<exists>s'. CO_SDOclient_process s dt = Some s' \<and> client_done s s'
     \<and> temp_sdo_cli_sub_obj s' = temp_sdo_cli_sub_obj s"
proof -
  have r: "sdo_ready s CO_SDO_ST_DOWNLOAD_SEGMENTED" "trans_data_len s = n" "buffer_offset s = n"
      "toggle s = t" "msg_data (rx_msg s) = d" "length d = 8"
      "sd_state s = CO_SDO_ST_DOWNLOAD_SEGMENTED" "valid s"
    using assms(1,3) by (auto simp: transferring_def sdo_ready_def has_message_def)
  note cs = segment_cs(7,8) [OF assms(5), of 0, simplified]
  have "client_switch (s\<lparr>timeout_cter_ms := 0\<rparr>) = Some (CO_SDO_RT_success,
      s\<lparr>timeout_cter_ms := 0, toggle := t XOR 0x10, sd_state := CO_SDO_ST_IDLE\<rparr>)"
    using r assms(6) cs
    by (simp add: client_switch_def CO_SDOclient_download_segment_handle_def mem_simps
        cs_defs mask_defs)
  from client_switches [OF r(1) _ assms(3,4,2) _ this] show ?thesis
    using r assms(6) cs by (simp add: SCS_ABORT_def client_done_def sdo_effects)
qed

subsection \<open>Uploads\<close>

lemma client_requests_upload:
  assumes "client_requesting s CO_SDO_ST_UPLOAD_INITIATE_REQ"
  shows "\<exists>s' d'. CO_SDOclient_process s dt = Some s'
     \<and> temp_sdo_cli_sub_obj s' = temp_sdo_cli_sub_obj s
     \<and> sdo_ready s' CO_SDO_ST_UPLOAD_INITIATE_RSP \<and> client_keeps s s' \<and> answered s s' d'
     \<and> mux_of d' (sd_index s) (sd_sub_index s) \<and> d' ! 0 = 0x40 \<and> toggle s' = 0"
proof -
  have r: "valid s" "sd_state s = CO_SDO_ST_UPLOAD_INITIATE_REQ" "length (msg_data (tx_msg s)) = 8"
      "client_ok s" "p_sub_obj s = Cli_sub"
    using assms(1) by (auto simp: client_requesting_def client_ok_def)
  let ?e = "(msg_data (tx_msg s))[1 := byte_lo (sd_index s), 2 := byte_hi (sd_index s),
      3 := sd_sub_index s, 0 := 0x40]"
  have "client_switch s = Some (CO_SDO_RT_busy,
      s\<lparr>toggle := 0, buffer_offset := 0, timeout_cter_ms := 1, tx_msg := (tx_msg s)\<lparr>msg_data := ?e\<rparr>,
        sent := sent s @ [(tx_msg s)\<lparr>msg_data := ?e\<rparr>], is_internal_processing := False,
        sd_state := CO_SDO_ST_UPLOAD_INITIATE_RSP\<rparr>)"
    using r
    by (simp add: client_switch_def CO_SDOclient_upload_initiate_request_handle_def
        client_init_mux mem_simps sdo_effects Let_def CCS_UPLOAD_INITIATE_def)
  from client_requests [OF assms(1) _ this, of dt] show ?thesis
    using r
    by (simp add: sdo_effects sdo_ready_def client_keeps_def client_ok_def
        answered_def mux_of_def CO_getUint16_def mem_simps layout_simps
        flip: numeral_2_eq_2 numeral_3_eq_3)
qed

lemma store_received_client:
  assumes "p_sub_obj s = Cli_sub" "obj = temp_sdo_cli_sub_obj s"
    and "from + unat n \<le> length (msg_data (rx_msg s))" "off + unat n \<le> length (so_data obj)"
  shows "store_received Itf_data off from n s =
    Some (s\<lparr>temp_sdo_cli_sub_obj :=
      store_at off (take (unat n) (drop from (msg_data (rx_msg s)))) obj\<rparr>)"
  using assms
  by (simp add: store_received_def sub_simps itf_buffer_def set_itf_buffer_def mem_simps
      store_at_def min_absorb2)

lemma client_receives_expedited:
  assumes "sdo_ready s CO_SDO_ST_UPLOAD_INITIATE_RSP" "client_ok s" "has_message s d" "in_time s dt"
    and "mux_of d (sd_index s) (sd_sub_index s)" "d ! 0 = expedited_cs 2 n" "0 < n" "n \<le> 4"
    and "obj = temp_sdo_cli_sub_obj s" "n \<le> so_len obj" "unat n \<le> length (so_data obj)"
  shows "\<exists>s'. CO_SDOclient_process s dt = Some s' \<and> client_done s s'
     \<and> temp_sdo_cli_sub_obj s' = store_at 0 (take (unat n) (drop 4 d)) obj"
proof -
  have r: "msg_data (rx_msg s) = d" "length d = 8" "sd_state s = CO_SDO_ST_UPLOAD_INITIATE_RSP"
      "valid s" "p_sub_obj s = Cli_sub"
    using assms(1-3) by (auto simp: client_ok_def sdo_ready_def has_message_def)
  have n4: "unat n \<le> 4" using assms(8) by (simp add: word_le_nat_alt)
  have cs: "drop_bit 5 (d ! 0) = 2" "d ! 0 AND 3 = 3"
      "4 - ucast (drop_bit 2 (d ! 0 AND 0x0C)) = n"
    using expedited_cs_facts [OF assms(7,8), of 2] by (simp_all add: assms(6))
  have "client_switch (s\<lparr>timeout_cter_ms := 0\<rparr>) = Some (CO_SDO_RT_success,
      s\<lparr>timeout_cter_ms := 0, trans_data_len := n, buffer_offset := n,
        temp_sdo_cli_sub_obj := store_at 0 (take (unat n) (drop 4 d)) obj,
        sd_state := CO_SDO_ST_IDLE\<rparr>)"
    using r assms(5,9,11) leD [OF assms(10)] cs n4
    by (simp add: client_switch_def CO_SDOclient_upload_initiate_response_handle_def mem_simps
        cs_defs mux_of_def mask_defs Let_def the_sub_Cli
        store_received_client [where obj = obj])
  from client_switches [OF assms(1) _ assms(3,4,2) _ this] show ?thesis
    using r cs by (simp add: SCS_ABORT_def client_done_def sdo_effects)
qed

lemma client_starts_upload:
  assumes "sdo_ready s CO_SDO_ST_UPLOAD_INITIATE_RSP" "client_ok s" "has_message s d" "in_time s dt"
    and "mux_of d (sd_index s) (sd_sub_index s)" "d ! 0 = 0x41" "CO_getUint32 d 4 = Some (ucast n)"
    and "obj = temp_sdo_cli_sub_obj s" "n \<le> so_len obj" "toggle s = 0"
  shows "\<exists>s' d'. CO_SDOclient_process s dt = Some s' \<and> temp_sdo_cli_sub_obj s' = obj
     \<and> transferring s' CO_SDO_ST_UPLOAD_SEGMENTED Cli_sub n 0 0
     \<and> client_keeps s s' \<and> answered s s' d' \<and> d' ! 0 = 0x60"
proof -
  have r: "msg_data (rx_msg s) = d" "length d = 8" "sd_state s = CO_SDO_ST_UPLOAD_INITIATE_RSP"
      "valid s" "p_sub_obj s = Cli_sub" "length (msg_data (tx_msg s)) = 8"
      "\<not> is_internal_processing s"
    using assms(1-3) by (auto simp: client_ok_def sdo_ready_def has_message_def)
  let ?e = "(msg_data (tx_msg s))[0 := 0x60]"
  have "client_switch (s\<lparr>timeout_cter_ms := 0\<rparr>) = Some (CO_SDO_RT_busy,
      s\<lparr>timeout_cter_ms := 1, trans_data_len := n, buffer_offset := 0,
        tx_msg := (tx_msg s)\<lparr>msg_data := ?e\<rparr>, sent := sent s @ [(tx_msg s)\<lparr>msg_data := ?e\<rparr>],
        sd_state := CO_SDO_ST_UPLOAD_SEGMENTED\<rparr>)"
    using r assms(5-8) leD [OF assms(9)]
    by (simp add: client_switch_def CO_SDOclient_upload_initiate_response_handle_def mem_simps
        cs_defs mux_of_def mask_defs Let_def the_sub_Cli sdo_effects)
  from client_switches [OF assms(1) _ assms(3,4,2) _ this] show ?thesis
    using r assms(2,6,8,10)
    by (simp add: SCS_ABORT_def transferring_def sdo_ready_def client_keeps_def client_ok_def
        answered_def sdo_effects)
qed

lemma client_receives_segment:
  assumes "transferring s CO_SDO_ST_UPLOAD_SEGMENTED Cli_sub n off t" "client_ok s"
    and "has_message s d" "in_time s dt" "toggle_bit t" "segment_of d t (unat off) (unat n) data"
    and "obj = temp_sdo_cli_sub_obj s" "unat off < unat n" "unat n \<le> length (so_data obj)"
    and "unat n \<le> length data"
  shows "\<exists>s'. CO_SDOclient_process s dt = Some s'
     \<and> (if unat n \<le> unat off + 7
        then temp_sdo_cli_sub_obj s' = store_at (unat off) (take (unat n - unat off) (drop (unat off) data)) obj
           \<and> client_done s s'
        else temp_sdo_cli_sub_obj s' = store_at (unat off) (take 7 (drop (unat off) data)) obj
           \<and> transferring s' CO_SDO_ST_UPLOAD_SEGMENTED Cli_sub n (off + 7) (t XOR 0x10)
           \<and> client_keeps s s'
           \<and> (\<exists>d'. answered s s' d' \<and> d' ! 0 = 0x60 OR (t XOR 0x10)))"
proof -
  have r: "sdo_ready s CO_SDO_ST_UPLOAD_SEGMENTED" "trans_data_len s = n" "buffer_offset s = off"
      "toggle s = t" "msg_data (rx_msg s) = d" "length d = 8" "length (msg_data (tx_msg s)) = 8"
      "sd_state s = CO_SDO_ST_UPLOAD_SEGMENTED" "valid s" "p_sub_obj s = Cli_sub"
      "\<not> is_internal_processing s"
    using assms(1,3) by (auto simp: transferring_def sdo_ready_def has_message_def)
  show ?thesis
  proof (cases "unat n \<le> unat off + 7")
    case True
    then obtain m where m: "unat m \<le> 7" "d ! 0 = t OR push_bit 1 m OR 1"
        "take (unat n - unat off) (drop 1 d) = take (unat n - unat off) (drop (unat off) data)"
      using assms(6) by (auto simp: segment_of_def)
    note cs = segment_cs(1-3) [OF assms(5) m(1)] and u = unused_bytes [OF assms(8) True]
    have "client_switch (s\<lparr>timeout_cter_ms := 0\<rparr>) = Some (CO_SDO_RT_success,
        s\<lparr>timeout_cter_ms := 0, toggle := t XOR 0x10, buffer_offset := n,
          temp_sdo_cli_sub_obj := store_at (unat off)
            (take (unat n - unat off) (drop (unat off) data)) obj, sd_state := CO_SDO_ST_IDLE\<rparr>)"
      using r assms(7-10) True m cs u
      by (simp add: client_switch_def CO_SDOclient_upload_segment_handle_def mem_simps cs_defs
          mask_defs Let_def store_received_client [where obj = obj])
    from client_switches [OF r(1) _ assms(3,4,2) _ this] show ?thesis
      using r True m(2) cs by (simp add: SCS_ABORT_def client_done_def sdo_effects)
  next
    case False
    then have d: "d ! 0 = t" "drop 1 d = take 7 (drop (unat off) data)"
      using assms(6) by (simp_all add: segment_of_def)
    then have d7: "take 7 (drop (Suc 0) d) = take 7 (drop (unat off) data)" by simp
    note cs = segment_cs(4-6) [OF assms(5), of 0, simplified]
    let ?e = "(msg_data (tx_msg s))[0 := 0x60 OR (t XOR 0x10)]"
    have "client_switch (s\<lparr>timeout_cter_ms := 0\<rparr>) = Some (CO_SDO_RT_busy,
        s\<lparr>timeout_cter_ms := 1, toggle := t XOR 0x10, buffer_offset := off + 7,
          temp_sdo_cli_sub_obj := store_at (unat off) (take 7 (drop (unat off) data)) obj,
          tx_msg := (tx_msg s)\<lparr>msg_data := ?e\<rparr>, sent := sent s @ [(tx_msg s)\<lparr>msg_data := ?e\<rparr>]\<rparr>)"
      using r assms(7-10) False d(1) d7 cs
      by (simp add: client_switch_def CO_SDOclient_upload_segment_handle_def mem_simps cs_defs
          mask_defs Let_def store_received_client [where obj = obj] sdo_effects)
    from client_switches [OF r(1) _ assms(3,4,2) _ this] show ?thesis
      using r False d(1) cs assms(2)
      by (simp add: SCS_ABORT_def transferring_def sdo_ready_def client_keeps_def client_ok_def
          answered_def sdo_effects)
  qed
qed

end
