(* ===== verification/Co_Sdo_Link.thy ===== *)
theory Co_Sdo_Link
  imports Co_Sdo_Server Co_Sdo_Client
begin

section \<open>An SDO client and an SDO server on one bus\<close>

text \<open>
  This theory composes the client of \<open>CO_SDOclient.c\<close> with the server of \<open>CO_SDOserver.c\<close>.
  The CAN driver, which is not part of the library, is assumed to hand every message one side
  sends to the receive buffer of the other and to mark it new. A round is one call of
  \<open>CO_SDOclient_process\<close> and one of \<open>CO_SDOserver_process\<close>, as \<open>CO_process\<close> makes them.
\<close>

definition sdo_receive :: "'w sdo_run \<Rightarrow> CO_CAN_Msg \<Rightarrow> 'w sdo_run" where
  "sdo_receive s m =
     s\<lparr>rx_msg := (rx_msg s)\<lparr>msg_data := msg_data m, msg_len := msg_len m, msg_new := True\<rparr>\<rparr>"

definition client_turn ::
  "u16 \<Rightarrow> 'w sdo_run \<times> 'v sdo_run \<Rightarrow> ('w sdo_run \<times> 'v sdo_run) option" where
  "client_turn dt cs =
     (case cs of (c, s) \<Rightarrow>
       do { c \<leftarrow> CO_SDOclient_process (c\<lparr>sent := []\<rparr>) dt; Some (c, foldl sdo_receive s (sent c)) })"

definition server_turn ::
  "u16 \<Rightarrow> 'w sdo_run \<times> 'v sdo_run \<Rightarrow> ('w sdo_run \<times> 'v sdo_run) option" where
  "server_turn dt cs =
     (case cs of (c, s) \<Rightarrow>
       do { s \<leftarrow> CO_SDOserver_process (s\<lparr>sent := []\<rparr>) dt; Some (foldl sdo_receive c (sent s), s) })"

fun sdo_rounds ::
  "nat \<Rightarrow> u16 \<Rightarrow> 'w sdo_run \<times> 'v sdo_run \<Rightarrow> ('w sdo_run \<times> 'v sdo_run) option" where
  "sdo_rounds 0 dt cs = Some cs"
| "sdo_rounds (Suc k) dt cs =
     do { cs \<leftarrow> client_turn dt cs; cs \<leftarrow> server_turn dt cs; sdo_rounds k dt cs }"

subsection \<open>Facts about one turn\<close>

lemma sent_irrelevant [simp]:
  "sdo_ready (s\<lparr>sent := x\<rparr>) st = sdo_ready s st"
  "transferring (s\<lparr>sent := x\<rparr>) st p n off t = transferring s st p n off t"
  "downloading (s\<lparr>sent := x\<rparr>) i j n off t = downloading s i j n off t"
  "client_ok (s\<lparr>sent := x\<rparr>) = client_ok s"
  "client_requesting (s\<lparr>sent := x\<rparr>) st = client_requesting s st"
  "has_message (s\<lparr>sent := x\<rparr>) d = has_message s d"
  "in_time (s\<lparr>sent := x\<rparr>) dt = in_time s dt"
  "client_keeps (s\<lparr>sent := x\<rparr>) s' = client_keeps s s'"
  by (simp_all add: sdo_ready_def transferring_def downloading_def client_ok_def
      client_requesting_def has_message_def in_time_def client_keeps_def)

lemma receive_irrelevant [simp]:
  "sdo_ready (sdo_receive s m) st = sdo_ready s st"
  "transferring (sdo_receive s m) st p n off t = transferring s st p n off t"
  "downloading (sdo_receive s m) i j n off t = downloading s i j n off t"
  "client_ok (sdo_receive s m) = client_ok s"
  "client_keeps s' (sdo_receive s m) = client_keeps s' s"
  "in_time (sdo_receive s m) dt = in_time s dt"
  "p_od (sdo_receive s m) = p_od s"
  "temp_sdo_cli_sub_obj (sdo_receive s m) = temp_sdo_cli_sub_obj s"
  "sd_index (sdo_receive s m) = sd_index s" "sd_sub_index (sdo_receive s m) = sd_sub_index s"
  "allowed_timeout_ms (sdo_receive s m) = allowed_timeout_ms s"
  "toggle (sdo_receive s m) = toggle s"
  "has_message (sdo_receive s m) d \<longleftrightarrow> msg_data m = d \<and> length d = 8"
  by (simp_all add: sdo_ready_def transferring_def downloading_def client_ok_def
      has_message_def in_time_def client_keeps_def sdo_receive_def)

lemma in_time_ready: "sdo_ready s st \<Longrightarrow> dt < allowed_timeout_ms s \<Longrightarrow> in_time s dt"
  by (simp add: sdo_ready_def in_time_def)

lemma in_time_transferring:
  "transferring s st p n off t \<Longrightarrow> dt < allowed_timeout_ms s \<Longrightarrow> in_time s dt"
  by (auto simp: transferring_def intro: in_time_ready)

lemma client_turn_sends:
  assumes "CO_SDOclient_process (c\<lparr>sent := []\<rparr>) dt = Some c'" "answered (c\<lparr>sent := []\<rparr>) c' d"
  shows "\<exists>m. client_turn dt (c, s) = Some (c', sdo_receive s m) \<and> has_message (sdo_receive s m) d
    \<and> allowed_timeout_ms c' = allowed_timeout_ms c"
  using assms by (auto simp: client_turn_def answered_def)

lemma server_turn_sends:
  assumes "CO_SDOserver_process (s\<lparr>sent := []\<rparr>) dt = Some s'" "answered (s\<lparr>sent := []\<rparr>) s' d"
  shows "\<exists>m. server_turn dt (c, s) = Some (sdo_receive c m, s') \<and> has_message (sdo_receive c m) d
    \<and> allowed_timeout_ms s' = allowed_timeout_ms s"
  using assms by (auto simp: server_turn_def answered_def)

lemma client_turn_done:
  assumes "CO_SDOclient_process (c\<lparr>sent := []\<rparr>) dt = Some c'" "client_done (c\<lparr>sent := []\<rparr>) c'"
  shows "client_turn dt (c, s) = Some (c', s)"
  using assms by (simp add: client_turn_def client_done_def)

subsection \<open>The bytes transferred so far\<close>

definition partly :: "nat \<Rightarrow> bytes \<Rightarrow> 'w CO_Sub_Object \<Rightarrow> 'w CO_Sub_Object" where
  "partly off data sub = sub\<lparr>so_data := take off data @ drop off (so_data sub)\<rparr>"

lemma partly_0 [simp]: "partly 0 data sub = sub"
  by (simp add: partly_def)

lemma partly_sel [simp]:
  "so_len (partly off data sub) = so_len sub" "plain_sub (partly off data sub) = plain_sub sub"
  "off \<le> length data \<Longrightarrow> off \<le> length (so_data sub) \<Longrightarrow>
     length (so_data (partly off data sub)) = length (so_data sub)"
  by (simp_all add: partly_def plain_sub_def)

lemma store_partly:
  assumes "off + k \<le> length data" "off + k \<le> length (so_data sub)"
  shows "store_at off (take k (drop off data)) (partly off data sub) = partly (off + k) data sub"
proof -
  have "off \<le> length data" "k \<le> length data - off" "off \<le> length (so_data sub)" using assms by auto
  then show ?thesis
    by (simp add: store_at_def partly_def take_add min_absorb2 add.commute [of k off])
qed

subsection \<open>The segments of a download\<close>

text \<open>Before a round of a segmented download: \<open>off\<close> bytes are stored, the client holds the answer
  to its last message, and the server waits for the segment with the other toggle bit, or is idle
  when everything is stored.\<close>

definition download_at ::
  "u16 \<Rightarrow> 'v CO_OD \<Rightarrow> nat \<Rightarrow> nat \<Rightarrow> 'v CO_Sub_Object \<Rightarrow> 'w CO_Sub_Object \<Rightarrow> u16 \<Rightarrow> u16 \<Rightarrow> u8
     \<Rightarrow> 'w sdo_run \<times> 'v sdo_run \<Rightarrow> bool" where
  "download_at dt od i j sub obj n off t cs \<longleftrightarrow> (case cs of (c, s) \<Rightarrow>
     transferring c CO_SDO_ST_DOWNLOAD_SEGMENTED Cli_sub n off t \<and> client_ok c
   \<and> toggle_bit t \<and> (\<exists>d. has_message c d \<and> d ! 0 = 0x20 OR t)
   \<and> temp_sdo_cli_sub_obj c = obj \<and> dt < allowed_timeout_ms c \<and> dt < allowed_timeout_ms s
   \<and> p_od s = od_put i j (partly (unat off) (so_data obj) sub) od \<and> off \<le> n
   \<and> (if off < n then downloading s i j n off (t XOR 0x10) else sdo_ready s CO_SDO_ST_IDLE))"

text \<open>What both sides know of the object.\<close>

definition download_fits ::
  "'v CO_OD \<Rightarrow> nat \<Rightarrow> nat \<Rightarrow> 'v CO_Sub_Object \<Rightarrow> 'w CO_Sub_Object \<Rightarrow> u16 \<Rightarrow> bool" where
  "download_fits od i j sub obj n \<longleftrightarrow> od_get i j od = Some sub \<and> plain_sub sub
     \<and> unat n \<le> length (so_data sub) \<and> unat n \<le> length (so_data obj)"

lemma next_offset_less:
  assumes "unat off < unat n"
  shows "next_offset off n \<le> n" "unat off < unat (next_offset off n)"
    "\<not> unat n \<le> unat off + 7 \<Longrightarrow> unat (next_offset off n) = unat off + 7"
    "unat n \<le> unat off + 7 \<Longrightarrow> next_offset off n = n"
proof -
  have add: "unat (off + 7) = unat off + 7" if "\<not> unat n \<le> unat off + 7"
  proof -
    have "unat off + 7 < 65536" using that unat_u16_less [of n] by linarith
    then show ?thesis by (simp add: unat_word_ariths)
  qed
  then show "next_offset off n \<le> n" "unat off < unat (next_offset off n)"
    using assms by (auto simp: next_offset_def word_le_nat_alt)
  show "\<not> unat n \<le> unat off + 7 \<Longrightarrow> unat (next_offset off n) = unat off + 7"
    using add by (simp add: next_offset_def)
  show "unat n \<le> unat off + 7 \<Longrightarrow> next_offset off n = n" by (simp add: next_offset_def)
qed

lemma server_turn_stores:
  assumes "downloading s i j n off t" "toggle_bit t" "has_message s d"
    and "segment_of d t (unat off) (unat n) (so_data obj)" "dt < allowed_timeout_ms s"
    and "download_fits od i j sub obj n" "unat off < unat n"
    and "p_od s = od_put i j (partly (unat off) (so_data obj) sub) od"
  shows "\<exists>m s' d'. server_turn dt (c, s) = Some (sdo_receive c m, s') \<and> has_message (sdo_receive c m) d'
     \<and> d' ! 0 = 0x20 OR t \<and> allowed_timeout_ms s' = allowed_timeout_ms s
     \<and> p_od s' = od_put i j (partly (unat (next_offset off n)) (so_data obj) sub) od
     \<and> (if next_offset off n < n then downloading s' i j n (next_offset off n) (t XOR 0x10)
        else sdo_ready s' CO_SDO_ST_IDLE)"
proof -
  let ?s = "s\<lparr>sent := []\<rparr>" and ?p = "partly (unat off) (so_data obj) sub"
  note fits = assms(6) [unfolded download_fits_def]
  have it: "in_time ?s dt"
    using assms(1,5) by (auto simp: downloading_def intro: in_time_transferring)
  have get: "od_get i j (p_od ?s) = Some ?p" using assms(8) fits by (simp add: od_get_put)
  have len: "unat n \<le> length (so_data ?p)" "plain_sub ?p" using fits assms(7) by simp_all
  show ?thesis
  proof (cases "unat n \<le> unat off + 7")
    case True
    obtain m where m: "unat m \<le> 7" "d ! 0 = t OR push_bit 1 m OR 1"
        "take (unat n - unat off) (drop 1 d) = take (unat n - unat off) (drop (unat off) (so_data obj))"
      using assms(4) True by (auto simp: segment_of_def)
    have le: "off \<le> n" using assms(7) by (simp add: word_le_nat_alt)
    have "store_at (unat off) (take (unat n - unat off) (drop 1 d)) ?p
        = partly (unat n) (so_data obj) sub"
      unfolding m(3) by (subst store_partly) (use fits assms(7) in auto)
    then obtain s' d' where s': "CO_SDOserver_process ?s dt = Some s'"
        "p_od s' = od_put i j (partly (unat n) (so_data obj) sub) od"
        "sdo_ready s' CO_SDO_ST_IDLE" "answered ?s s' d'" "d' ! 0 = 0x20 OR t"
      using server_stores_last [of ?s i j n off t d dt m ?p] assms(1-3,8) it m get len le True
      by auto
    from server_turn_sends [OF s'(1,4)] s' next_offset_less [OF assms(7)] True
    show ?thesis by fastforce
  next
    case False
    have d: "d ! 0 = t" "drop 1 d = take 7 (drop (unat off) (so_data obj))"
      using assms(4) False by (simp_all add: segment_of_def)
    have "store_at (unat off) (take 7 (drop 1 d)) ?p = partly (unat off + 7) (so_data obj) sub"
      unfolding d(2) take_take min.idem by (rule store_partly) (use fits False in auto)
    then obtain s' d' where s': "CO_SDOserver_process ?s dt = Some s'"
        "p_od s' = od_put i j (partly (unat off + 7) (so_data obj) sub) od"
        "downloading s' i j n (off + 7) (t XOR 0x10)" "answered ?s s' d'" "d' ! 0 = 0x20 OR t"
      using server_stores_segment [of ?s i j n off t d dt ?p] assms(1-3,8) it d(1) get len False
      by auto
    have off: "unat (off + 7) = unat off + 7" "next_offset off n = off + 7"
      using next_offset_less [OF assms(7)] False by (simp_all add: next_offset_def)
    have "off + 7 < n" using off False by (simp add: word_less_nat_alt)
    with server_turn_sends [OF s'(1,4)] s' off show ?thesis by fastforce
  qed
qed

lemma download_round:
  assumes "download_at dt od i j sub obj n off t (c, s)" "download_fits od i j sub obj n" "off < n"
  shows "\<exists>c' s'. sdo_rounds 1 dt (c, s) = Some (c', s')
     \<and> download_at dt od i j sub obj n (next_offset off n) (t XOR 0x10) (c', s')"
proof -
  note at = assms(1) [unfolded download_at_def prod.case]
  note fits = assms(2) [unfolded download_fits_def]
  let ?c = "c\<lparr>sent := []\<rparr>" and ?t = "t XOR 0x10"
  have lt: "unat off < unat n" using assms(3) by (simp add: word_less_nat_alt)
  obtain d where d: "has_message c d" "d ! 0 = 0x20 OR t" using at by blast
  have "in_time ?c dt" using at by (auto intro: in_time_transferring)
  then obtain c1 e where c1: "CO_SDOclient_process ?c dt = Some c1" "temp_sdo_cli_sub_obj c1 = obj"
      "transferring c1 CO_SDO_ST_DOWNLOAD_SEGMENTED Cli_sub n (next_offset off n) ?t"
      "client_keeps ?c c1" "answered ?c c1 e" "segment_of e ?t (unat off) (unat n) (so_data obj)"
    using client_sends_next [of ?c n off t d dt obj] at d lt fits by auto
  obtain m where m: "client_turn dt (c, s) = Some (c1, sdo_receive s m)" "has_message (sdo_receive s m) e"
      "allowed_timeout_ms c1 = allowed_timeout_ms c"
    using client_turn_sends [OF c1(1,5)] by blast
  have srv: "downloading (sdo_receive s m) i j n off ?t" "toggle_bit ?t"
    using at assms(3) by simp_all
  obtain m' s' d' where s': "server_turn dt (c1, sdo_receive s m) = Some (sdo_receive c1 m', s')"
      "has_message (sdo_receive c1 m') d'" "d' ! 0 = 0x20 OR ?t"
      "allowed_timeout_ms s' = allowed_timeout_ms (sdo_receive s m)"
      "p_od s' = od_put i j (partly (unat (next_offset off n)) (so_data obj) sub) od"
      "if next_offset off n < n then downloading s' i j n (next_offset off n) (?t XOR 0x10)
       else sdo_ready s' CO_SDO_ST_IDLE"
    using server_turn_stores [OF srv m(2) c1(6) _ assms(2) lt, where c = c1 and dt = dt] at by auto
  have "download_at dt od i j sub obj n (next_offset off n) ?t (sdo_receive c1 m', s')"
    using at c1 m(3) s' next_offset_less(1) [OF lt]
    by (auto simp: download_at_def client_keeps_def)
  then show ?thesis using m(1) s'(1) by simp
qed

lemma sdo_rounds_Suc:
  "sdo_rounds 1 dt cs = Some cs' \<Longrightarrow> sdo_rounds (Suc k) dt cs = sdo_rounds k dt cs'"
  by (cases "client_turn dt cs") (auto simp: bind_eq_Some_conv)

lemma download_segments:
  assumes "download_at dt od i j sub obj n off t cs" "download_fits od i j sub obj n"
  shows "\<exists>k t' cs'. k \<le> (unat n - unat off + 6) div 7 \<and> sdo_rounds k dt cs = Some cs'
     \<and> download_at dt od i j sub obj n n t' cs'"
  using assms
proof (induction "unat n - unat off" arbitrary: off t cs rule: less_induct)
  case less
  obtain c s where cs: "cs = (c, s)" by (cases cs)
  show ?case
  proof (cases "off < n")
    case False
    then have "off = n" using less(2) by (auto simp: download_at_def cs)
    then show ?thesis using less(2) by (intro exI [of _ 0] exI [of _ t] exI [of _ cs]) auto
  next
    case True
    then have lt: "unat off < unat n" by (simp add: word_less_nat_alt)
    note nx = next_offset_less [OF lt]
    obtain cs1 where cs1: "sdo_rounds 1 dt cs = Some cs1"
        "download_at dt od i j sub obj n (next_offset off n) (t XOR 0x10) cs1"
      using download_round [OF less(2) [unfolded cs] less(3) True] cs by auto
    have "unat n - unat (next_offset off n) < unat n - unat off" using nx(2) lt by linarith
    from less(1) [OF this cs1(2) less(3)] obtain k t' cs' where k:
      "k \<le> (unat n - unat (next_offset off n) + 6) div 7" "sdo_rounds k dt cs1 = Some cs'"
      "download_at dt od i j sub obj n n t' cs'" by blast
    have "(unat n - unat (next_offset off n) + 6) div 7 + 1 \<le> (unat n - unat off + 6) div 7"
      using nx(3,4) lt by (cases "unat n \<le> unat off + 7") auto
    then show ?thesis using k sdo_rounds_Suc [OF cs1(1), of k]
      by (intro exI [of _ "Suc k"]) auto
  qed
qed

text \<open>The first round of a download, and the second one of a segmented download.\<close>

lemma download_expedited_round:
  assumes "client_requesting c CO_SDO_ST_DOWNLOAD_INITIATE_REQ" "obj = temp_sdo_cli_sub_obj c"
    and "n = so_len obj" "0 < n" "n \<le> 4" "unat n \<le> length (so_data obj)"
    and "sdo_ready s CO_SDO_ST_IDLE" "od_target (p_od s) (sd_index c) (sd_sub_index c) i j sub"
    and "writable sub" "plain_sub sub" "n \<le> so_len sub" "unat n \<le> length (so_data sub)"
    and "dt < allowed_timeout_ms c" "dt < allowed_timeout_ms s"
  shows "\<exists>c' s' c''. sdo_rounds 1 dt (c, s) = Some (c', s') \<and> client_turn dt (c', s') = Some (c'', s')
     \<and> sd_status c'' = CO_SDO_RT_success \<and> sd_state c'' = CO_SDO_ST_IDLE
     \<and> sd_state s' = CO_SDO_ST_IDLE \<and> p_od s' = od_put i j (partly (unat n) (so_data obj) sub) (p_od s)"
proof -
  let ?c = "c\<lparr>sent := []\<rparr>"
  from client_requests_download [of ?c obj n dt] obtain c1 e where c1:
    "CO_SDOclient_process ?c dt = Some c1" "transferring c1 CO_SDO_ST_DOWNLOAD_INITIATE_RSP Cli_sub n 0 0"
    "client_keeps ?c c1" "answered ?c c1 e" "mux_of e (sd_index c) (sd_sub_index c)"
    "e ! 0 = expedited_cs 1 n" "take (unat n) (drop 4 e) = take (unat n) (so_data obj)"
    using assms(1-3,5,6) by auto
  obtain m where m: "client_turn dt (c, s) = Some (c1, sdo_receive s m)" "has_message (sdo_receive s m) e"
      "allowed_timeout_ms c1 = allowed_timeout_ms c"
    using client_turn_sends [OF c1(1,4)] by blast
  let ?s = "(sdo_receive s m)\<lparr>sent := []\<rparr>"
  have "in_time ?s dt" using assms(7,14) by (simp add: in_time_ready)
  then obtain s' e' where s': "CO_SDOserver_process ?s dt = Some s'"
      "p_od s' = od_put i j (store_at 0 (take (unat n) (drop 4 e)) sub) (p_od s)"
      "sdo_ready s' CO_SDO_ST_IDLE" "answered ?s s' e'" "e' ! 0 = 0x60"
      "mux_of e' (sd_index c) (sd_sub_index c)"
    using server_stores_expedited [of ?s e dt "sd_index c" "sd_sub_index c" n i j sub]
      assms(4,5,7-12) m(2) c1(5,6) by auto
  obtain m' where m': "server_turn dt (c1, sdo_receive s m) = Some (sdo_receive c1 m', s')"
      "has_message (sdo_receive c1 m') e'"
    using server_turn_sends [OF s'(1,4)] by blast
  let ?d = "(sdo_receive c1 m')\<lparr>sent := []\<rparr>"
  have "in_time ?d dt" using c1(2) m(3) assms(13) by (auto intro: in_time_transferring)
  then obtain c2 where c2: "CO_SDOclient_process ?d dt = Some c2" "client_done ?d c2"
    using client_ends_expedited_download [of ?d n e' dt] c1(2,3) m'(2) s'(5,6) assms(5)
    by (auto simp: client_keeps_def)
  have "store_at 0 (take (unat n) (drop 0 (so_data obj))) (partly 0 (so_data obj) sub)
      = partly (unat n) (so_data obj) sub"
    by (subst store_partly) (use assms(6,12) in auto)
  then show ?thesis
    using m(1) m'(1) client_turn_done [OF c2] c2(2) s'(2,3) c1(7)
    by (auto simp: client_done_def sdo_ready_def)
qed

lemma download_first_rounds:
  assumes "client_requesting c CO_SDO_ST_DOWNLOAD_INITIATE_REQ" "obj = temp_sdo_cli_sub_obj c"
    and "n = so_len obj" "4 < n" "unat n \<le> length (so_data obj)"
    and "sdo_ready s CO_SDO_ST_IDLE" "od_target (p_od s) (sd_index c) (sd_sub_index c) i j sub"
    and "writable sub" "plain_sub sub" "n \<le> so_len sub" "unat n \<le> length (so_data sub)"
    and "dt < allowed_timeout_ms c" "dt < allowed_timeout_ms s"
  shows "\<exists>cs. sdo_rounds 2 dt (c, s) = Some cs
     \<and> download_at dt (p_od s) i j sub obj n (next_offset 0 n) 0 cs"
proof -
  let ?c = "c\<lparr>sent := []\<rparr>"
  have fits: "download_fits (p_od s) i j sub obj n"
    using assms(5,9,11) od_target_lookup(4) [OF assms(7)] by (simp add: download_fits_def)
  have n0: "unat (0 :: u16) < unat n" "\<not> n \<le> 4"
    using assms(4) leD [of n 4] by (auto simp: word_less_nat_alt)
  from client_requests_download [of ?c obj n dt] obtain c1 e where c1:
    "CO_SDOclient_process ?c dt = Some c1" "transferring c1 CO_SDO_ST_DOWNLOAD_INITIATE_RSP Cli_sub n 0 0"
    "client_keeps ?c c1" "answered ?c c1 e" "mux_of e (sd_index c) (sd_sub_index c)"
    "e ! 0 = 0x21" "CO_getUint32 e 4 = Some (ucast n)" "temp_sdo_cli_sub_obj c1 = obj"
    using assms(1-3,5) n0(2) by auto
  obtain m where m: "client_turn dt (c, s) = Some (c1, sdo_receive s m)" "has_message (sdo_receive s m) e"
      "allowed_timeout_ms c1 = allowed_timeout_ms c"
    using client_turn_sends [OF c1(1,4)] by blast
  let ?s = "(sdo_receive s m)\<lparr>sent := []\<rparr>"
  have "in_time ?s dt" using assms(6,13) by (simp add: in_time_ready)
  then obtain s1 e' where s1: "CO_SDOserver_process ?s dt = Some s1" "p_od s1 = p_od s"
      "downloading s1 i j n 0 0" "answered ?s s1 e'" "e' ! 0 = 0x60"
      "mux_of e' (sd_index c) (sd_sub_index c)"
    using server_starts_download [of ?s e dt "sd_index c" "sd_sub_index c" "ucast n" n i j sub]
      assms(6-10) m(2) c1(5-7) by (auto simp: downloading_def)
  obtain m1 where m1: "server_turn dt (c1, sdo_receive s m) = Some (sdo_receive c1 m1, s1)"
      "has_message (sdo_receive c1 m1) e'" "allowed_timeout_ms s1 = allowed_timeout_ms ?s"
    using server_turn_sends [OF s1(1,4)] by auto
  let ?d = "(sdo_receive c1 m1)\<lparr>sent := []\<rparr>"
  have "in_time ?d dt" using c1(2) m(3) assms(12) by (auto intro: in_time_transferring)
  then obtain c2 g where c2: "CO_SDOclient_process ?d dt = Some c2" "temp_sdo_cli_sub_obj c2 = obj"
      "transferring c2 CO_SDO_ST_DOWNLOAD_SEGMENTED Cli_sub n (next_offset 0 n) 0"
      "client_keeps ?d c2" "answered ?d c2 g" "segment_of g 0 0 (unat n) (so_data obj)"
    using client_sends_first [of ?d n e' dt obj] c1(2,3,8) m1(2) s1(5,6) assms(4,5)
    by (auto simp: client_keeps_def)
  obtain m2 where m2: "client_turn dt (sdo_receive c1 m1, s1) = Some (c2, sdo_receive s1 m2)"
      "has_message (sdo_receive s1 m2) g" "allowed_timeout_ms c2 = allowed_timeout_ms c"
    using client_turn_sends [OF c2(1,5)] m(3) by auto
  have srv: "downloading (sdo_receive s1 m2) i j n 0 0" "toggle_bit 0"
    using s1(3) by (simp_all add: toggle_bit_def)
  have seg: "segment_of g 0 (unat (0 :: u16)) (unat n) (so_data obj)" using c2(6) by simp
  have od0: "p_od (sdo_receive s1 m2)
      = od_put i j (partly (unat (0 :: u16)) (so_data obj) sub) (p_od s)"
    using s1(2) od_put_same [OF od_target_lookup(4) [OF assms(7)]] by simp
  have alw: "dt < allowed_timeout_ms (sdo_receive s1 m2)" using m1(3) assms(13) by simp
  obtain m3 s3 d3 where s3: "server_turn dt (c2, sdo_receive s1 m2) = Some (sdo_receive c2 m3, s3)"
      "has_message (sdo_receive c2 m3) d3" "d3 ! 0 = 0x20 OR 0"
      "allowed_timeout_ms s3 = allowed_timeout_ms (sdo_receive s1 m2)"
      "p_od s3 = od_put i j (partly (unat (next_offset 0 n)) (so_data obj) sub) (p_od s)"
      "if next_offset 0 n < n then downloading s3 i j n (next_offset 0 n) (0 XOR 0x10)
       else sdo_ready s3 CO_SDO_ST_IDLE"
    using server_turn_stores [OF srv m2(2) seg alw fits n0(1) od0, where c = c2] by blast
  have "download_at dt (p_od s) i j sub obj n (next_offset 0 n) 0 (sdo_receive c2 m3, s3)"
    using c2 m2(3) s3 alw assms(12) next_offset_less(1) [OF n0(1)]
    by (auto simp: download_at_def client_keeps_def toggle_bit_def)
  then show ?thesis
    using m(1) m1(1) m2(1) s3(1) by (simp add: numeral_2_eq_2)
qed

subsection \<open>Uploads\<close>

text \<open>Before a round of a segmented upload: \<open>off\<close> bytes have arrived at the client, which holds
  the segment that starts there; the server waits for the request of the next segment, or is idle
  after the last.\<close>

definition upload_at ::
  "u16 \<Rightarrow> 'v CO_OD \<Rightarrow> nat \<Rightarrow> nat \<Rightarrow> 'v CO_Sub_Object \<Rightarrow> 'w CO_Sub_Object \<Rightarrow> u16 \<Rightarrow> u16 \<Rightarrow> u8
     \<Rightarrow> 'w sdo_run \<times> 'v sdo_run \<Rightarrow> bool" where
  "upload_at dt od i j sub obj n off t cs \<longleftrightarrow> (case cs of (c, s) \<Rightarrow>
     transferring c CO_SDO_ST_UPLOAD_SEGMENTED Cli_sub n off t \<and> client_ok c \<and> toggle_bit t
   \<and> (\<exists>d. has_message c d \<and> segment_of d t (unat off) (unat n) (so_data sub))
   \<and> temp_sdo_cli_sub_obj c = partly (unat off) (so_data sub) obj
   \<and> dt < allowed_timeout_ms c \<and> dt < allowed_timeout_ms s \<and> p_od s = od
   \<and> unat off < unat n
   \<and> (if unat n \<le> unat off + 7 then sdo_ready s CO_SDO_ST_IDLE
      else transferring s CO_SDO_ST_UPLOAD_SEGMENTED (Od_sub i j) n (off + 7) (t XOR 0x10)))"

definition upload_fits ::
  "'v CO_OD \<Rightarrow> nat \<Rightarrow> nat \<Rightarrow> 'v CO_Sub_Object \<Rightarrow> 'w CO_Sub_Object \<Rightarrow> u16 \<Rightarrow> bool" where
  "upload_fits od i j sub obj n \<longleftrightarrow> od_get i j od = Some sub
     \<and> unat n \<le> length (so_data sub) \<and> unat n \<le> length (so_data obj)"

lemma server_turn_uploads:
  assumes "transferring s CO_SDO_ST_UPLOAD_SEGMENTED (Od_sub i j) n off t" "toggle_bit t"
    and "has_message s d" "d ! 0 = 0x60 OR t" "dt < allowed_timeout_ms s"
    and "od_get i j (p_od s) = Some sub" "unat off < unat n" "unat n \<le> length (so_data sub)"
  shows "\<exists>m s' d'. server_turn dt (c, s) = Some (sdo_receive c m, s') \<and> has_message (sdo_receive c m) d'
     \<and> segment_of d' t (unat off) (unat n) (so_data sub)
     \<and> allowed_timeout_ms s' = allowed_timeout_ms s \<and> p_od s' = p_od s
     \<and> (if unat n \<le> unat off + 7 then sdo_ready s' CO_SDO_ST_IDLE
        else transferring s' CO_SDO_ST_UPLOAD_SEGMENTED (Od_sub i j) n (off + 7) (t XOR 0x10))"
proof -
  let ?s = "s\<lparr>sent := []\<rparr>"
  have "in_time ?s dt" using assms(1,5) by (auto intro: in_time_transferring)
  then obtain s' d' where s': "CO_SDOserver_process ?s dt = Some s'" "p_od s' = p_od s"
      "answered ?s s' d'" "segment_of d' t (unat off) (unat n) (so_data sub)"
      "if unat n \<le> unat off + 7 then sdo_ready s' CO_SDO_ST_IDLE
        else transferring s' CO_SDO_ST_UPLOAD_SEGMENTED (Od_sub i j) n (off + 7) (t XOR 0x10)"
    using server_uploads_segment [of ?s i j n off t d dt sub] assms by auto
  with server_turn_sends [OF s'(1,3), of c] show ?thesis by fastforce
qed

lemma upload_round:
  assumes "upload_at dt od i j sub obj n off t (c, s)" "upload_fits od i j sub obj n"
    and "\<not> unat n \<le> unat off + 7"
  shows "\<exists>cs. sdo_rounds 1 dt (c, s) = Some cs
     \<and> upload_at dt od i j sub obj n (off + 7) (t XOR 0x10) cs"
proof -
  note at = assms(1) [unfolded upload_at_def prod.case]
  note fits = assms(2) [unfolded upload_fits_def]
  let ?c = "c\<lparr>sent := []\<rparr>" and ?t = "t XOR 0x10" and ?o = "partly (unat off) (so_data sub) obj"
  obtain d where d: "has_message c d" "segment_of d t (unat off) (unat n) (so_data sub)"
    using at by blast
  have lt: "unat off < unat n" using assms(3) by simp
  have off: "unat (off + 7) = unat off + 7"
    using next_offset_less(3) [OF lt assms(3)] assms(3) by (simp add: next_offset_def)
  have "in_time ?c dt" using at by (auto intro: in_time_transferring)
  then obtain c1 e where c1: "CO_SDOclient_process ?c dt = Some c1"
      "temp_sdo_cli_sub_obj c1 = store_at (unat off) (take 7 (drop (unat off) (so_data sub))) ?o"
      "transferring c1 CO_SDO_ST_UPLOAD_SEGMENTED Cli_sub n (off + 7) ?t"
      "client_keeps ?c c1" "answered ?c c1 e" "e ! 0 = 0x60 OR ?t"
    using client_receives_segment [of ?c n off t d dt "so_data sub" ?o] at d lt fits assms(3) by auto
  obtain m where m: "client_turn dt (c, s) = Some (c1, sdo_receive s m)" "has_message (sdo_receive s m) e"
      "allowed_timeout_ms c1 = allowed_timeout_ms c"
    using client_turn_sends [OF c1(1,5)] by blast
  have "store_at (unat off) (take 7 (drop (unat off) (so_data sub))) ?o
      = partly (unat off + 7) (so_data sub) obj"
    by (rule store_partly) (use fits assms(3) in auto)
  then have obj: "temp_sdo_cli_sub_obj c1 = partly (unat (off + 7)) (so_data sub) obj"
    using c1(2) off by simp
  have srv: "transferring (sdo_receive s m) CO_SDO_ST_UPLOAD_SEGMENTED (Od_sub i j) n (off + 7) ?t"
      "toggle_bit ?t" "dt < allowed_timeout_ms (sdo_receive s m)"
      "od_get i j (p_od (sdo_receive s m)) = Some sub" "unat (off + 7) < unat n"
    using at fits assms(3) off by simp_all
  from server_turn_uploads [OF srv(1,2) m(2) c1(6) srv(3-5), of c1] fits obtain m' s' d' where s':
    "server_turn dt (c1, sdo_receive s m) = Some (sdo_receive c1 m', s')"
    "has_message (sdo_receive c1 m') d'" "segment_of d' ?t (unat (off + 7)) (unat n) (so_data sub)"
    "allowed_timeout_ms s' = allowed_timeout_ms s" "p_od s' = p_od s"
    "if unat n \<le> unat (off + 7) + 7 then sdo_ready s' CO_SDO_ST_IDLE
     else transferring s' CO_SDO_ST_UPLOAD_SEGMENTED (Od_sub i j) n (off + 7 + 7) (?t XOR 0x10)"
    by auto
  have "upload_at dt od i j sub obj n (off + 7) ?t (sdo_receive c1 m', s')"
    using at c1(3,4) m(3) s' srv(2,5) obj
    unfolding upload_at_def by (auto simp: client_keeps_def)
  then show ?thesis using m(1) s'(1) by simp
qed

text \<open>The outcome of an upload: the client's buffer holds the object.\<close>

lemma upload_segments:
  assumes "upload_at dt od i j sub obj n off t cs" "upload_fits od i j sub obj n"
  shows "\<exists>k c s c'. k \<le> (unat n - unat off) div 7 \<and> sdo_rounds k dt cs = Some (c, s)
     \<and> client_turn dt (c, s) = Some (c', s) \<and> sd_status c' = CO_SDO_RT_success
     \<and> sd_state c' = CO_SDO_ST_IDLE \<and> sd_state s = CO_SDO_ST_IDLE \<and> p_od s = od
     \<and> temp_sdo_cli_sub_obj c' = partly (unat n) (so_data sub) obj"
  using assms
proof (induction "unat n - unat off" arbitrary: off t cs rule: less_induct)
  case less
  obtain c s where cs: "cs = (c, s)" by (cases cs)
  note at = less(2) [unfolded cs upload_at_def prod.case]
  note fits = less(3) [unfolded upload_fits_def]
  have lt: "unat off < unat n" using at by simp
  show ?case
  proof (cases "unat n \<le> unat off + 7")
    case True
    let ?c = "c\<lparr>sent := []\<rparr>" and ?o = "partly (unat off) (so_data sub) obj"
    obtain d where d: "has_message c d" "segment_of d t (unat off) (unat n) (so_data sub)"
      using at by blast
    have "in_time ?c dt" using at by (auto intro: in_time_transferring)
    then obtain c1 where c1: "CO_SDOclient_process ?c dt = Some c1" "client_done ?c c1"
        "temp_sdo_cli_sub_obj c1
           = store_at (unat off) (take (unat n - unat off) (drop (unat off) (so_data sub))) ?o"
      using client_receives_segment [of ?c n off t d dt "so_data sub" ?o] at d lt fits True by auto
    have "store_at (unat off) (take (unat n - unat off) (drop (unat off) (so_data sub))) ?o
        = partly (unat n) (so_data sub) obj"
      by (subst store_partly) (use fits lt in auto)
    then show ?thesis
      using client_turn_done [OF c1(1,2), of s] c1 at True cs
      by (intro exI [of _ 0] exI [of _ c] exI [of _ s] exI [of _ c1])
        (auto simp: client_done_def sdo_ready_def)
  next
    case False
    obtain cs1 where cs1: "sdo_rounds 1 dt cs = Some cs1"
        "upload_at dt od i j sub obj n (off + 7) (t XOR 0x10) cs1"
      using upload_round [OF less(2) [unfolded cs] less(3) False] cs by auto
    have off: "unat (off + 7) = unat off + 7"
      using next_offset_less(3) [OF lt False] False by (simp add: next_offset_def)
    then have "unat n - unat (off + 7) < unat n - unat off" using lt by linarith
    from less(1) [OF this cs1(2) less(3)] obtain k c' s' c'' where k:
      "k \<le> (unat n - unat (off + 7)) div 7" "sdo_rounds k dt cs1 = Some (c', s')"
      "client_turn dt (c', s') = Some (c'', s')" "sd_status c'' = CO_SDO_RT_success"
      "sd_state c'' = CO_SDO_ST_IDLE" "sd_state s' = CO_SDO_ST_IDLE" "p_od s' = od"
      "temp_sdo_cli_sub_obj c'' = partly (unat n) (so_data sub) obj" by blast
    have "(unat n - unat (off + 7)) div 7 + 1 \<le> (unat n - unat off) div 7"
      using off False by (simp add: div_if [of "unat n - unat off"])
    then show ?thesis using k sdo_rounds_Suc [OF cs1(1), of k]
      by (intro exI [of _ "Suc k"] exI [of _ c'] exI [of _ s'] exI [of _ c'']) auto
  qed
qed

lemma upload_first_round:
  assumes "client_requesting c CO_SDO_ST_UPLOAD_INITIATE_REQ" "sdo_ready s CO_SDO_ST_IDLE"
    and "od_target (p_od s) (sd_index c) (sd_sub_index c) i j sub" "readable sub"
    and "unat (so_len sub) \<le> length (so_data sub)"
    and "dt < allowed_timeout_ms c" "dt < allowed_timeout_ms s"
  shows "\<exists>c' s' d. sdo_rounds 1 dt (c, s) = Some (c', s') \<and> has_message c' d
     \<and> sdo_ready c' CO_SDO_ST_UPLOAD_INITIATE_RSP \<and> client_keeps c c' \<and> toggle c' = 0
     \<and> mux_of d (sd_index c) (sd_sub_index c)
     \<and> temp_sdo_cli_sub_obj c' = temp_sdo_cli_sub_obj c
     \<and> dt < allowed_timeout_ms c' \<and> dt < allowed_timeout_ms s' \<and> p_od s' = p_od s
     \<and> (if so_len sub \<le> 4
        then sdo_ready s' CO_SDO_ST_IDLE \<and> d ! 0 = expedited_cs 2 (so_len sub)
           \<and> take (unat (so_len sub)) (drop 4 d) = take (unat (so_len sub)) (so_data sub)
        else transferring s' CO_SDO_ST_UPLOAD_SEGMENTED (Od_sub i j) (so_len sub) 0 0
           \<and> d ! 0 = 0x41 \<and> CO_getUint32 d 4 = Some (ucast (so_len sub)))"
proof -
  let ?c = "c\<lparr>sent := []\<rparr>"
  from client_requests_upload [of ?c dt] obtain c1 e where c1:
    "CO_SDOclient_process ?c dt = Some c1" "temp_sdo_cli_sub_obj c1 = temp_sdo_cli_sub_obj c"
    "sdo_ready c1 CO_SDO_ST_UPLOAD_INITIATE_RSP" "client_keeps ?c c1" "answered ?c c1 e"
    "mux_of e (sd_index c) (sd_sub_index c)" "e ! 0 = 0x40" "toggle c1 = 0"
    using assms(1) by auto
  obtain m where m: "client_turn dt (c, s) = Some (c1, sdo_receive s m)" "has_message (sdo_receive s m) e"
      "allowed_timeout_ms c1 = allowed_timeout_ms c"
    using client_turn_sends [OF c1(1,5)] by blast
  let ?s = "(sdo_receive s m)\<lparr>sent := []\<rparr>"
  have s: "sdo_ready ?s CO_SDO_ST_IDLE" "has_message ?s e" "in_time ?s dt"
      "od_target (p_od ?s) (sd_index c) (sd_sub_index c) i j sub"
    using assms(2,3,7) m(2) by (simp_all add: in_time_ready)
  have "\<exists>s' d. CO_SDOserver_process ?s dt = Some s' \<and> p_od s' = p_od s \<and> answered ?s s' d
      \<and> mux_of d (sd_index c) (sd_sub_index c)
      \<and> (if so_len sub \<le> 4
        then sdo_ready s' CO_SDO_ST_IDLE \<and> d ! 0 = expedited_cs 2 (so_len sub)
           \<and> take (unat (so_len sub)) (drop 4 d) = take (unat (so_len sub)) (so_data sub)
        else transferring s' CO_SDO_ST_UPLOAD_SEGMENTED (Od_sub i j) (so_len sub) 0 0
           \<and> d ! 0 = 0x41 \<and> CO_getUint32 d 4 = Some (ucast (so_len sub)))"
  proof (cases "so_len sub \<le> 4")
    case True
    from server_uploads_expedited [OF s(1-3) c1(6,7) s(4) assms(4) True assms(5)] True
    show ?thesis by auto
  next
    case False
    then have "4 < so_len sub" by simp
    from server_starts_upload [OF s(1-3) c1(6,7) s(4) assms(4) this] False
    show ?thesis by auto
  qed
  then obtain s' d where s': "CO_SDOserver_process ?s dt = Some s'" "p_od s' = p_od s"
      "answered ?s s' d" "mux_of d (sd_index c) (sd_sub_index c)"
      "if so_len sub \<le> 4
        then sdo_ready s' CO_SDO_ST_IDLE \<and> d ! 0 = expedited_cs 2 (so_len sub)
           \<and> take (unat (so_len sub)) (drop 4 d) = take (unat (so_len sub)) (so_data sub)
        else transferring s' CO_SDO_ST_UPLOAD_SEGMENTED (Od_sub i j) (so_len sub) 0 0
           \<and> d ! 0 = 0x41 \<and> CO_getUint32 d 4 = Some (ucast (so_len sub))" by blast
  obtain m' where m': "server_turn dt (c1, sdo_receive s m) = Some (sdo_receive c1 m', s')"
      "has_message (sdo_receive c1 m') d" "allowed_timeout_ms s' = allowed_timeout_ms ?s"
    using server_turn_sends [OF s'(1,3)] by auto
  show ?thesis
    using m(1,3) m' s'(2,4,5) c1 assms(6,7)
    by (intro exI [of _ "sdo_receive c1 m'"] exI [of _ s'] exI [of _ d]) auto
qed

lemma upload_second_round:
  assumes "sdo_ready c CO_SDO_ST_UPLOAD_INITIATE_RSP" "client_ok c" "toggle c = 0" "has_message c d"
    and "mux_of d (sd_index c) (sd_sub_index c)" "d ! 0 = 0x41" "CO_getUint32 d 4 = Some (ucast n)"
    and "obj = temp_sdo_cli_sub_obj c" "n \<le> so_len obj"
    and "transferring s CO_SDO_ST_UPLOAD_SEGMENTED (Od_sub i j) n 0 0" "4 < n"
    and "upload_fits (p_od s) i j sub obj n" "dt < allowed_timeout_ms c" "dt < allowed_timeout_ms s"
  shows "\<exists>cs. sdo_rounds 1 dt (c, s) = Some cs \<and> upload_at dt (p_od s) i j sub obj n 0 0 cs"
proof -
  let ?c = "c\<lparr>sent := []\<rparr>"
  note fits = assms(12) [unfolded upload_fits_def]
  have n0: "unat (0 :: u16) < unat n" using assms(11) by (auto simp: word_less_nat_alt)
  have "in_time ?c dt" using assms(1,13) by (auto intro: in_time_ready)
  then obtain c1 e where c1: "CO_SDOclient_process ?c dt = Some c1" "temp_sdo_cli_sub_obj c1 = obj"
      "transferring c1 CO_SDO_ST_UPLOAD_SEGMENTED Cli_sub n 0 0"
      "client_keeps ?c c1" "answered ?c c1 e" "e ! 0 = 0x60 OR 0"
    using client_starts_upload [of ?c d dt n obj] assms by auto
  obtain m where m: "client_turn dt (c, s) = Some (c1, sdo_receive s m)" "has_message (sdo_receive s m) e"
      "allowed_timeout_ms c1 = allowed_timeout_ms c"
    using client_turn_sends [OF c1(1,5)] by blast
  have srv: "transferring (sdo_receive s m) CO_SDO_ST_UPLOAD_SEGMENTED (Od_sub i j) n 0 0"
      "toggle_bit 0" "dt < allowed_timeout_ms (sdo_receive s m)"
      "od_get i j (p_od (sdo_receive s m)) = Some sub" "unat n \<le> length (so_data sub)"
    using assms(10,14) fits by (simp_all add: toggle_bit_def)
  from server_turn_uploads [OF srv(1,2) m(2) c1(6) srv(3,4) n0 srv(5), of c1] obtain m' s' d' where
    s': "server_turn dt (c1, sdo_receive s m) = Some (sdo_receive c1 m', s')"
    "has_message (sdo_receive c1 m') d'" "segment_of d' 0 (unat (0 :: u16)) (unat n) (so_data sub)"
    "allowed_timeout_ms s' = allowed_timeout_ms (sdo_receive s m)" "p_od s' = p_od (sdo_receive s m)"
    "if unat n \<le> unat (0 :: u16) + 7 then sdo_ready s' CO_SDO_ST_IDLE
     else transferring s' CO_SDO_ST_UPLOAD_SEGMENTED (Od_sub i j) n (0 + 7) (0 XOR 0x10)" by blast
  have "upload_at dt (p_od s) i j sub obj n 0 0 (sdo_receive c1 m', s')"
    using c1(2-4) m(3) s' srv(2) n0 assms(13,14)
    unfolding upload_at_def by (auto simp: client_keeps_def)
  then show ?thesis using m(1) s'(1) by auto
qed

subsection \<open>Properties\<close>

text \<open>A client that may start a transfer: it is valid, holds no message, its timeout is off and
  its transmission type is "always".\<close>

definition client_free :: "'w sdo_run \<Rightarrow> bool" where
  "client_free c \<longleftrightarrow> valid c \<and> \<not> msg_new (rx_msg c) \<and> length (msg_data (tx_msg c)) = 8
     \<and> timeout_cter_ms c = 0 \<and> p_sync c \<noteq> NULL \<and> trans_type c = 0"

lemma client_start_requests:
  assumes "client_free c"
  shows "client_requesting (client_start st node ind si obj tmo c) st"
    "sd_index (client_start st node ind si obj tmo c) = ind"
    "sd_sub_index (client_start st node ind si obj tmo c) = si"
    "allowed_timeout_ms (client_start st node ind si obj tmo c) = tmo"
    "so_len (temp_sdo_cli_sub_obj (client_start st node ind si obj tmo c)) = so_len obj"
    "so_data (temp_sdo_cli_sub_obj (client_start st node ind si obj tmo c)) = so_data obj"
  using assms by (simp_all add: client_start_def client_free_def client_requesting_def client_ok_def)

text \<open>Both sides are done: the client reports success and both state machines are idle.\<close>

definition transfer_done :: "'w sdo_run \<Rightarrow> 'v sdo_run \<Rightarrow> bool" where
  "transfer_done c s \<longleftrightarrow> sd_status c = CO_SDO_RT_success \<and> sd_state c = CO_SDO_ST_IDLE
     \<and> sd_state s = CO_SDO_ST_IDLE"

text \<open>C4:
  An SDO download works end to end. A free client starts the download of its whole object, of one
  to 65535 bytes, into a plain writable object of an idle server's dictionary that is at least as
  long; the calls come faster than the allowed timeouts. Then after at most \<open>n div 7 + 2\<close> rounds of
  client and server and one more call of the client the client reports success, both sides are
  idle, the addressed object begins with exactly the client's bytes, and the rest of the
  dictionary is unchanged. It covers the expedited transfer (up to four bytes) and the segmented
  one with its toggle bit, last-segment bit and final short segment.\<close>

theorem sdo_download_roundtrip:
  assumes "client_free c0" "so_len obj = n" "0 < n" "unat n \<le> length (so_data obj)"
    and "sdo_ready s CO_SDO_ST_IDLE" "od_target (p_od s) ind si i j sub"
    and "writable sub" "plain_sub sub" "n \<le> so_len sub" "unat n \<le> length (so_data sub)"
    and "dt < tmo" "dt < allowed_timeout_ms s"
  shows "\<exists>k c' s' c''. k \<le> unat n div 7 + 2
     \<and> sdo_rounds k dt (CO_SDOclient_start_download node ind si obj tmo c0, s) = Some (c', s')
     \<and> client_turn dt (c', s') = Some (c'', s') \<and> transfer_done c'' s'
     \<and> p_od s' = od_put i j
         (sub\<lparr>so_data := take (unat n) (so_data obj) @ drop (unat n) (so_data sub)\<rparr>) (p_od s)"
proof -
  let ?c = "CO_SDOclient_start_download node ind si obj tmo c0"
  let ?o = "temp_sdo_cli_sub_obj ?c"
  note st = client_start_requests [OF assms(1), of CO_SDO_ST_DOWNLOAD_INITIATE_REQ node ind si obj tmo,
      folded CO_SDOclient_start_download_def]
  show ?thesis
  proof (cases "n \<le> 4")
    case True
    from download_expedited_round [OF st(1) refl, of n s i j sub dt] True assms st show ?thesis
      by (intro exI [of _ 1]) (fastforce simp: partly_def transfer_done_def)
  next
    case False
    then have n4: "4 < n" by simp
    have n0: "unat (0 :: u16) < unat n" using assms(3) by (simp add: word_less_nat_alt)
    have fits: "download_fits (p_od s) i j sub ?o n"
      using assms st od_target_lookup(4) [OF assms(6)] by (simp add: download_fits_def)
    obtain cs where cs: "sdo_rounds 2 dt (?c, s) = Some cs"
        "download_at dt (p_od s) i j sub ?o n (next_offset 0 n) 0 cs"
      using download_first_rounds [OF st(1) refl, of n s i j sub dt] n4 assms st by auto
    from download_segments [OF cs(2) fits] obtain k t' c' s' where k:
      "k \<le> (unat n - unat (next_offset 0 n) + 6) div 7" "sdo_rounds k dt cs = Some (c', s')"
      "download_at dt (p_od s) i j sub ?o n n t' (c', s')" by auto
    note at = k(3) [unfolded download_at_def prod.case]
    let ?d = "c'\<lparr>sent := []\<rparr>"
    obtain d where d: "has_message c' d" "d ! 0 = 0x20 OR t'" using at by blast
    have "in_time ?d dt" using at by (auto intro: in_time_transferring)
    then obtain c2 where c2: "CO_SDOclient_process ?d dt = Some c2" "client_done ?d c2"
      using client_ends_download [of ?d n t' d dt] at d by auto
    have rounds: "sdo_rounds (Suc (Suc k)) dt (?c, s) = Some (c', s')"
      using cs(1) k(2) by (auto simp: numeral_2_eq_2 bind_eq_Some_conv)
    have "k \<le> unat n div 7"
      using k(1) next_offset_less(3,4) [OF n0] n0 by (cases "unat n \<le> 7") auto
    then show ?thesis
      using rounds client_turn_done [OF c2, of s'] c2(2) at st
      by (intro exI [of _ "Suc (Suc k)"] exI [of _ c'] exI [of _ s'] exI [of _ c2])
        (auto simp: client_done_def sdo_ready_def partly_def transfer_done_def)
  qed
qed

text \<open>C5:
  An SDO upload works end to end. A free client starts the upload of a readable object of one to
  65535 bytes from an idle server, with a receive object at least as long; the calls come faster
  than the allowed timeouts. Then after at most \<open>n div 7 + 2\<close> rounds and one more call of the
  client the client reports success, both sides are idle, the client's buffer begins with exactly
  the object's bytes, the rest of that buffer and the server's dictionary are unchanged.\<close>

theorem sdo_upload_roundtrip:
  assumes "client_free c0" "sdo_ready s CO_SDO_ST_IDLE" "od_target (p_od s) ind si i j sub"
    and "readable sub" "so_len sub = n" "0 < n" "unat n \<le> length (so_data sub)"
    and "n \<le> so_len obj" "unat n \<le> length (so_data obj)" "dt < tmo" "dt < allowed_timeout_ms s"
  shows "\<exists>k c' s' c''. k \<le> unat n div 7 + 2
     \<and> sdo_rounds k dt (CO_SDOclient_start_upload node ind si obj tmo c0, s) = Some (c', s')
     \<and> client_turn dt (c', s') = Some (c'', s') \<and> transfer_done c'' s' \<and> p_od s' = p_od s
     \<and> so_data (temp_sdo_cli_sub_obj c'')
         = take (unat n) (so_data sub) @ drop (unat n) (so_data obj)"
proof -
  let ?c = "CO_SDOclient_start_upload node ind si obj tmo c0"
  let ?o = "temp_sdo_cli_sub_obj ?c"
  note st = client_start_requests [OF assms(1), of CO_SDO_ST_UPLOAD_INITIATE_REQ node ind si obj tmo,
      folded CO_SDOclient_start_upload_def]
  have fits: "upload_fits (p_od s) i j sub ?o n"
    using assms st od_target_lookup(4) [OF assms(3)] by (simp add: upload_fits_def)
  from upload_first_round [OF st(1) assms(2), of i j sub dt] assms st obtain c1 s1 d where r:
    "sdo_rounds 1 dt (?c, s) = Some (c1, s1)" "has_message c1 d"
    "sdo_ready c1 CO_SDO_ST_UPLOAD_INITIATE_RSP" "client_keeps ?c c1" "toggle c1 = 0"
    "mux_of d ind si" "temp_sdo_cli_sub_obj c1 = ?o"
    "dt < allowed_timeout_ms c1" "dt < allowed_timeout_ms s1" "p_od s1 = p_od s"
    "if n \<le> 4 then sdo_ready s1 CO_SDO_ST_IDLE \<and> d ! 0 = expedited_cs 2 n
         \<and> take (unat n) (drop 4 d) = take (unat n) (so_data sub)
     else transferring s1 CO_SDO_ST_UPLOAD_SEGMENTED (Od_sub i j) n 0 0
         \<and> d ! 0 = 0x41 \<and> CO_getUint32 d 4 = Some (ucast n)"
    by auto
  have ok: "client_ok c1" "sd_index c1 = ind" "sd_sub_index c1 = si"
    using r(4) st by (simp_all add: client_keeps_def)
  show ?thesis
  proof (cases "n \<le> 4")
    case True
    let ?d = "c1\<lparr>sent := []\<rparr>"
    have it: "in_time ?d dt" using r(3,8) by (simp add: in_time_ready)
    then obtain c2 where c2: "CO_SDOclient_process ?d dt = Some c2" "client_done ?d c2"
        "temp_sdo_cli_sub_obj c2 = store_at 0 (take (unat n) (drop 4 d)) ?o"
      using client_receives_expedited [of ?d d dt n ?o] r ok True assms st by auto
    have "store_at 0 (take (unat n) (drop 4 d)) ?o = partly (unat n) (so_data sub) ?o"
      using store_partly [of 0 "unat n" "so_data sub" ?o] r(11) True assms st by simp
    then show ?thesis
      using r(1,10,11) client_turn_done [OF c2(1,2), of s1] c2 True st
      by (intro exI [of _ 1] exI [of _ c1] exI [of _ s1] exI [of _ c2])
        (auto simp: client_done_def sdo_ready_def partly_def transfer_done_def)
  next
    case False
    then have n4: "4 < n" by simp
    obtain cs where cs: "sdo_rounds 1 dt (c1, s1) = Some cs"
        "upload_at dt (p_od s) i j sub ?o n 0 0 cs"
      using upload_second_round [of c1 d n ?o s1 i j sub dt] r ok n4 False assms st fits by auto
    from upload_segments [OF cs(2) fits] obtain k c' s' c'' where k:
      "k \<le> (unat n - unat (0 :: u16)) div 7" "sdo_rounds k dt cs = Some (c', s')"
      "client_turn dt (c', s') = Some (c'', s')" "sd_status c'' = CO_SDO_RT_success"
      "sd_state c'' = CO_SDO_ST_IDLE" "sd_state s' = CO_SDO_ST_IDLE" "p_od s' = p_od s"
      "temp_sdo_cli_sub_obj c'' = partly (unat n) (so_data sub) ?o" by blast
    have "sdo_rounds (Suc (Suc k)) dt (?c, s) = Some (c', s')"
      using sdo_rounds_Suc [OF r(1), of "Suc k"] sdo_rounds_Suc [OF cs(1), of k] k(2)
      by (simp del: sdo_rounds.simps)
    then show ?thesis
      using k st
      by (intro exI [of _ "Suc (Suc k)"] exI [of _ c'] exI [of _ s'] exI [of _ c''])
        (auto simp: partly_def transfer_done_def)
  qed
qed

text \<open>Concrete sides for the witnesses: a dictionary with one object of ten bytes.\<close>

definition sample_sub :: "u16 \<Rightarrow> bytes \<Rightarrow> unit CO_Sub_Object" where
  "sample_sub n d = \<lparr>so_data = d, so_attr = 3, so_len = n, so_ext = NULL, so_temp = NULL\<rparr>"

definition link_od :: "unit CO_OD" where
  "link_od = \<lparr>od_number = 1, od_list =
     [\<lparr>ob_index = 0x2000, ob_sub_number = 1,
       ob_subs = [sample_sub 10 [1, 2, 3, 4, 5, 6, 7, 8, 9, 10]]\<rparr>]\<rparr>"

definition blank_msg :: CO_CAN_Msg where
  "blank_msg = \<lparr>msg_id = 0, msg_data = replicate 8 0, msg_len = 8, msg_new = False\<rparr>"

definition sample_run :: "unit sdo_run" where
  "sample_run = \<lparr>valid = True, rx_msg = blank_msg, tx_msg = blank_msg, buffer_offset = 0,
     trans_data_len = 0, toggle = 0, trans_type = 0, sync_mask_reg = 0, object_no = 0,
     p_od = link_od, sd_index = 0, sd_sub_index = 0, p_sub_obj = No_sub, p_data_itf = Itf_NULL,
     timeout_cter_ms = 0, allowed_timeout_ms = 100, p_sync = Ref (sample_sync 0x80),
     is_internal_processing = False, tx_abort_code = 0, rx_abort_code = 0,
     sd_state = CO_SDO_ST_IDLE, sd_status = CO_SDO_RT_idle,
     temp_sdo_cli_sub_obj = sample_sub 0 [], sent = [], app = ()\<rparr>"

lemma sample_run_ready:
  "client_free sample_run" "sdo_ready sample_run CO_SDO_ST_IDLE"
  "p_od sample_run = link_od" "allowed_timeout_ms sample_run = 100"
  by (simp_all add: sample_run_def client_free_def sdo_ready_def blank_msg_def)

lemma link_od_target:
  "od_target link_od 0x2000 0 0 0 (sample_sub 10 [1, 2, 3, 4, 5, 6, 7, 8, 9, 10])"
  by (simp add: od_target_def od_sorted_def link_od_def od_indices_def od_get_def mem_simps)

lemma sample_sub_sel:
  "writable (sample_sub n d)" "readable (sample_sub n d)" "plain_sub (sample_sub n d)"
  "so_len (sample_sub n d) = n" "so_data (sample_sub n d) = d"
  by (simp_all add: sample_sub_def writable_def readable_def plain_sub_def ODA_SDO_W_def ODA_SDO_R_def)

lemma sdo_download_roundtrip_witness:
  "\<exists>k c' s' c''. k \<le> 3
     \<and> sdo_rounds k 1 (CO_SDOclient_start_download 5 0x2000 0
          (sample_sub 9 [11, 12, 13, 14, 15, 16, 17, 18, 19]) 100 sample_run, sample_run)
        = Some (c', s')
     \<and> client_turn 1 (c', s') = Some (c'', s') \<and> transfer_done c'' s'
     \<and> od_get 0 0 (p_od s') = Some (sample_sub 10 [11, 12, 13, 14, 15, 16, 17, 18, 19, 10])"
proof -
  let ?o = "sample_sub 9 [11, 12, 13, 14, 15, 16, 17, 18, 19]"
  let ?s = "sample_sub 10 [1, 2, 3, 4, 5, 6, 7, 8, 9, 10]"
  have t: "od_target (p_od sample_run) 0x2000 0 0 0 ?s"
    using link_od_target sample_run_ready by simp
  obtain k c' s' c'' where r: "k \<le> unat (9 :: u16) div 7 + 2"
    "sdo_rounds k 1 (CO_SDOclient_start_download 5 0x2000 0 ?o 100 sample_run, sample_run)
       = Some (c', s')" "client_turn 1 (c', s') = Some (c'', s')" "transfer_done c'' s'"
    "p_od s' = od_put 0 0 (?s\<lparr>so_data := take (unat (9 :: u16)) (so_data ?o)
       @ drop (unat (9 :: u16)) (so_data ?s)\<rparr>) (p_od sample_run)"
    using sdo_download_roundtrip [OF sample_run_ready(1), where obj = ?o and n = 9 and s = sample_run
        and sub = ?s and dt = 1 and tmo = 100 and node = 5 and i = 0 and j = 0 and ind = "0x2000"
        and si = 0]
      sample_run_ready t
    by (auto simp: sample_sub_sel)
  have "od_get 0 0 (p_od s') = Some (sample_sub 10 [11, 12, 13, 14, 15, 16, 17, 18, 19, 10])"
    unfolding r(5) using od_target_lookup(4) [OF t]
    by (subst od_get_put) (auto simp: sample_sub_def)
  then show ?thesis using r(1-4) by (intro exI [of _ k]) auto
qed

lemma sdo_upload_roundtrip_witness:
  "\<exists>k c' s' c''. k \<le> 3
     \<and> sdo_rounds k 1 (CO_SDOclient_start_upload 5 0x2000 0 (sample_sub 12 ([0, 0, 0, 0, 0, 0, 0, 0, 0, 0, 0, 0])) 100
          sample_run, sample_run) = Some (c', s')
     \<and> client_turn 1 (c', s') = Some (c'', s')
     \<and> so_data (temp_sdo_cli_sub_obj c'') = [1, 2, 3, 4, 5, 6, 7, 8, 9, 10, 0, 0]"
proof -
  let ?s = "sample_sub 10 [1, 2, 3, 4, 5, 6, 7, 8, 9, 10]"
  have t: "od_target (p_od sample_run) 0x2000 0 0 0 ?s"
    using link_od_target sample_run_ready by simp
  obtain k c' s' c'' where r: "k \<le> unat (10 :: u16) div 7 + 2"
    "sdo_rounds k 1 (CO_SDOclient_start_upload 5 0x2000 0
       (sample_sub 12 [0, 0, 0, 0, 0, 0, 0, 0, 0, 0, 0, 0]) 100 sample_run, sample_run) = Some (c', s')"
    "client_turn 1 (c', s') = Some (c'', s')"
    "so_data (temp_sdo_cli_sub_obj c'') = take (unat (10 :: u16)) (so_data ?s)
       @ drop (unat (10 :: u16)) [0, 0, 0, 0, 0, 0, 0, 0, 0, 0, 0, 0]"
    using sdo_upload_roundtrip [OF sample_run_ready(1,2) t sample_sub_sel(2,4),
        where obj = "sample_sub 12 [0, 0, 0, 0, 0, 0, 0, 0, 0, 0, 0, 0]" and dt = 1 and tmo = 100
        and node = 5] sample_run_ready
    by (auto simp: sample_sub_sel)
  have "k \<le> 3" using r(1) by simp
  moreover have "so_data (temp_sdo_cli_sub_obj c'') = [1, 2, 3, 4, 5, 6, 7, 8, 9, 10, 0, 0]"
    unfolding r(4) by (simp add: sample_sub_sel)
  ultimately show ?thesis using r(2,3) by blast
qed

end
