(* ===== verification/Co_Sdo_Errors.thy ===== *)
theory Co_Sdo_Errors
  imports Co_Sdo_Link
begin

section \<open>Errors and safety of the SDO server\<close>

text \<open>
  This theory states how the server of \<open>CO_SDOserver.c\<close> answers requests it cannot serve, what
  it promises for arbitrary messages, and where its code goes wrong.
\<close>

subsection \<open>Refusals\<close>

text \<open>The server has sent an abort message with a code, and is idle with its dictionary unchanged.\<close>

definition refused :: "'w sdo_run \<Rightarrow> u16 \<Rightarrow> u32 \<Rightarrow> bool" where
  "refused s dt code \<longleftrightarrow> (\<exists>s' m. CO_SDOserver_process s dt = Some s' \<and> sent s' = sent s @ [m]
     \<and> msg_data m ! 0 = 0x80 \<and> CO_getUint32 (msg_data m) 4 = Some code
     \<and> sd_state s' = CO_SDO_ST_IDLE \<and> \<not> is_internal_processing s' \<and> p_od s' = p_od s)"

lemma refused_first:
  assumes "sdo_ready s CO_SDO_ST_IDLE" "has_message s d" "in_time s dt" "drop_bit 5 (d ! 0) \<noteq> CCS_ABORT"
    and "CO_SDOserver_process_first_msg_and_set_state (s\<lparr>timeout_cter_ms := 0\<rparr>) = abort_with code t"
    and "length (msg_data (tx_msg t)) = 8" "sent t = sent s" "p_od t = p_od s"
  shows "refused s dt code"
proof -
  obtain s' m where m: "abort_with code t = Some (CO_SDO_RT_abort, s')" "sent s' = sent t @ [m]"
      "msg_data m ! 0 = 0x80" "CO_getUint32 (msg_data m) 4 = Some code" "sd_state s' = CO_SDO_ST_IDLE"
      "\<not> is_internal_processing s'" "p_od s' = p_od t"
    using abort_with_Some [OF assms(6), of code] by blast
  have v: "valid s" "msg_new (rx_msg s)" "sd_state s = CO_SDO_ST_IDLE" "msg_data (rx_msg s) = d" "length d = 8"
    using assms(1,2) by (auto simp: sdo_ready_def has_message_def)
  have "server_message s = Some (CO_SDO_RT_abort, s')"
    using assms(4,5) m(1) v
    by (simp add: server_message_def mem_simps CO_SDOtimeout_reset_and_inactivate_def)
  then show ?thesis
    using m assms(7,8) by (simp add: refused_def server_process_new [OF v(1,2) assms(3)])
qed

lemma refused_later:
  assumes "sdo_ready s st" "st \<noteq> CO_SDO_ST_IDLE" "has_message s d" "in_time s dt"
    and "drop_bit 5 (d ! 0) \<noteq> CCS_ABORT"
    and "server_switch (s\<lparr>timeout_cter_ms := 0\<rparr>) = abort_with code t"
    and "length (msg_data (tx_msg t)) = 8" "sent t = sent s" "p_od t = p_od s"
  shows "refused s dt code"
proof -
  obtain s' m where m: "abort_with code t = Some (CO_SDO_RT_abort, s')" "sent s' = sent t @ [m]"
      "msg_data m ! 0 = 0x80" "CO_getUint32 (msg_data m) 4 = Some code" "sd_state s' = CO_SDO_ST_IDLE"
      "\<not> is_internal_processing s'" "p_od s' = p_od t"
    using abort_with_Some [OF assms(7), of code] by blast
  from server_switches [OF assms(1-5), of CO_SDO_RT_abort s'] show ?thesis
    using assms(6,8,9) m by (simp add: refused_def sdo_effects)
qed

lemma refused_target:
  assumes "sdo_ready s CO_SDO_ST_IDLE" "has_message s d" "in_time s dt" "mux_of d ind si"
    and "drop_bit 5 (d ! 0) = CCS_DOWNLOAD_INITIATE \<and> \<not> writable sub
       \<or> drop_bit 5 (d ! 0) = CCS_UPLOAD_INITIATE \<and> \<not> readable sub"
    and "od_target (p_od s) ind si i j sub"
  shows "refused s dt CO_SDO_AB_UNSUPPORTED_ACCESS"
proof (rule refused_first [OF assms(1-3)])
  note l = od_target_lookup [OF assms(6)]
  let ?t = "s\<lparr>timeout_cter_ms := 0, sd_index := ind, sd_sub_index := si, object_no := word_of_nat i,
      p_sub_obj := Od_sub i j\<rparr>"
  show "drop_bit 5 (d ! 0) \<noteq> CCS_ABORT" using assms(5) by (auto simp: cs_defs)
  show "CO_SDOserver_process_first_msg_and_set_state (s\<lparr>timeout_cter_ms := 0\<rparr>)
      = abort_with CO_SDO_AB_UNSUPPORTED_ACCESS ?t"
    using assms(2,4,5) l
    by (auto simp: CO_SDOserver_process_first_msg_and_set_state_def has_message_def mux_of_def
        mem_simps cs_defs Let_def CO_SDOserver_get_sub_object_pointer_def writable_def readable_def
        the_sub_Od)
qed (use assms(1) in \<open>simp_all add: sdo_ready_def\<close>)

lemma refused_unknown:
  assumes "sdo_ready s CO_SDO_ST_IDLE" "has_message s d" "in_time s dt" "mux_of d ind si"
    and "drop_bit 5 (d ! 0) = CCS_DOWNLOAD_INITIATE \<or> drop_bit 5 (d ! 0) = CCS_UPLOAD_INITIATE"
    and "CO_OD_get_no (p_od s) ind = Some no"
    and "no = OD_UNSUPPORT_ENTRY \<or> CO_OD_get_sub_object_pointer (p_od s) no si = Some NULL"
  shows "refused s dt CO_SDO_AB_SUB_UNKNOWN"
proof (rule refused_first [OF assms(1-3)])
  let ?t = "s\<lparr>timeout_cter_ms := 0, sd_index := ind, sd_sub_index := si,
      object_no := no, p_sub_obj := No_sub\<rparr>"
  show "drop_bit 5 (d ! 0) \<noteq> CCS_ABORT" using assms(5) by (auto simp: cs_defs)
  show "CO_SDOserver_process_first_msg_and_set_state (s\<lparr>timeout_cter_ms := 0\<rparr>)
      = abort_with CO_SDO_AB_SUB_UNKNOWN ?t"
    using assms(2,4-7)
    by (auto simp: CO_SDOserver_process_first_msg_and_set_state_def has_message_def mux_of_def
        mem_simps cs_defs Let_def CO_SDOserver_get_sub_object_pointer_def)
qed (use assms(1) in \<open>simp_all add: sdo_ready_def\<close>)

text \<open>An index that the search of the dictionary finds to be absent: not there, but not above all that are.\<close>

definition od_absent :: "'w CO_OD \<Rightarrow> u16 \<Rightarrow> bool" where
  "od_absent od ind \<longleftrightarrow> od_sorted od \<and> ind \<notin> set (od_indices (od_list od)) \<and> (\<exists>k\<in>set (od_indices (od_list od)). ind < k)"

lemma od_absent_no: "od_absent od ind \<Longrightarrow> CO_OD_get_no od ind = Some OD_UNSUPPORT_ENTRY"
proof -
  assume a: "od_absent od ind"
  then have "\<exists>p < length (od_list od). ind < ob_index (od_list od ! p)"
    by (auto simp: od_absent_def od_indices_def in_set_conv_nth)
  then have "od_search (od_list od) ind 0 (od_number od) = Some OD_UNSUPPORT_ENTRY"
    using a od_search_absent [of "od_list od" ind "od_number od" 0] by (simp add: od_absent_def od_sorted_def)
  then show ?thesis by (simp add: CO_OD_get_no_def)
qed

text \<open>C18:
  A ready server - enabled, not waiting for the device to process a write, its timer just reset - answers an 8 byte
  message in time, other than an abort, that it cannot serve with one abort message and is then idle, its
  dictionary unchanged. The abort code is: for an unknown first command, \<open>CO_SDO_AB_CMD\<close>; for a request for an index that is absent between
  those of a sorted dictionary, or for a sub index that its object does not have, \<open>CO_SDO_AB_SUB_UNKNOWN\<close>; for a write to an
  object without the write attribute and a read of one without the read attribute, \<open>CO_SDO_AB_UNSUPPORTED_ACCESS\<close>;
  during a segmented transfer in either direction, for any other command than its own \<open>CO_SDO_AB_NO_RESOURCE\<close>
  and for a repeated toggle bit \<open>CO_SDO_AB_TOGGLE_BIT\<close>. These are the codes the code sends: the more specific ones that
  \<^verbatim>\<open>CO_SDO.h\<close> has for a missing object, a read only or write only object and a wrong command in a transfer
  are never used. An index above every index of the dictionary is not refused: the search reads behind the list.\<close>

theorem sdo_server_refuses:
  assumes "sdo_ready s st" "has_message s d" "in_time s dt" "mux_of d ind si"
    and "ccs = drop_bit 5 (d ! 0)" "ccs \<noteq> CCS_ABORT"
  shows "(st = CO_SDO_ST_IDLE \<and> ccs \<noteq> CCS_DOWNLOAD_INITIATE \<and> ccs \<noteq> CCS_UPLOAD_INITIATE
            \<longrightarrow> refused s dt CO_SDO_AB_CMD)
       \<and> (st = CO_SDO_ST_IDLE \<and> (ccs = CCS_DOWNLOAD_INITIATE \<or> ccs = CCS_UPLOAD_INITIATE)
            \<and> (od_absent (p_od s) ind \<or> CO_OD_get_no (p_od s) ind = Some no \<and> no \<noteq> OD_UNSUPPORT_ENTRY
                 \<and> CO_OD_get_sub_object_pointer (p_od s) no si = Some NULL)
            \<longrightarrow> refused s dt CO_SDO_AB_SUB_UNKNOWN)
       \<and> (st = CO_SDO_ST_IDLE \<and> od_target (p_od s) ind si i j sub
            \<and> (ccs = CCS_DOWNLOAD_INITIATE \<and> \<not> writable sub \<or> ccs = CCS_UPLOAD_INITIATE \<and> \<not> readable sub)
            \<longrightarrow> refused s dt CO_SDO_AB_UNSUPPORTED_ACCESS)
       \<and> (st = CO_SDO_ST_DOWNLOAD_SEGMENTED \<and> ccs \<noteq> CCS_DOWNLOAD_SEGMENT
          \<or> st = CO_SDO_ST_UPLOAD_SEGMENTED \<and> ccs \<noteq> CCS_UPLOAD_SEGMENT
            \<longrightarrow> refused s dt CO_SDO_AB_NO_RESOURCE)
       \<and> ((st = CO_SDO_ST_DOWNLOAD_SEGMENTED \<and> ccs = CCS_DOWNLOAD_SEGMENT
          \<or> st = CO_SDO_ST_UPLOAD_SEGMENTED \<and> ccs = CCS_UPLOAD_SEGMENT)
          \<and> d ! 0 AND SDO_MASK_SEG_T_BIT \<noteq> toggle s
            \<longrightarrow> refused s dt CO_SDO_AB_TOGGLE_BIT)"
proof (intro conjI impI)
  have r: "sd_state s = st" "length (msg_data (tx_msg s)) = 8" "\<not> is_internal_processing s"
      "msg_data (rx_msg s) = d" "length d = 8"
    using assms(1,2) by (auto simp: sdo_ready_def has_message_def)
  note later = refused_later [OF assms(1) _ assms(2,3), where t = "s\<lparr>timeout_cter_ms := 0\<rparr>"]
  note switch = server_switch_def CO_SDOserver_download_segment_handle_def
    CO_SDOserver_upload_segment_handle_def mem_simps
  show "refused s dt CO_SDO_AB_CMD"
    if "st = CO_SDO_ST_IDLE \<and> ccs \<noteq> CCS_DOWNLOAD_INITIATE \<and> ccs \<noteq> CCS_UPLOAD_INITIATE"
    by (rule refused_first [OF assms(1) [unfolded that [THEN conjunct1]] assms(2,3),
          where t = "s\<lparr>timeout_cter_ms := 0\<rparr>"])
      (use that assms(5,6) r in \<open>simp_all add: mem_simps Let_def
        CO_SDOserver_process_first_msg_and_set_state_def\<close>)
  show "refused s dt CO_SDO_AB_SUB_UNKNOWN"
    if "st = CO_SDO_ST_IDLE \<and> (ccs = CCS_DOWNLOAD_INITIATE \<or> ccs = CCS_UPLOAD_INITIATE)
      \<and> (od_absent (p_od s) ind \<or> CO_OD_get_no (p_od s) ind = Some no \<and> no \<noteq> OD_UNSUPPORT_ENTRY
           \<and> CO_OD_get_sub_object_pointer (p_od s) no si = Some NULL)"
    using refused_unknown [OF _ assms(2-4)] od_absent_no [of "p_od s" ind] that assms(1,5) by auto
  show "refused s dt CO_SDO_AB_UNSUPPORTED_ACCESS"
    if "st = CO_SDO_ST_IDLE \<and> od_target (p_od s) ind si i j sub
      \<and> (ccs = CCS_DOWNLOAD_INITIATE \<and> \<not> writable sub \<or> ccs = CCS_UPLOAD_INITIATE \<and> \<not> readable sub)"
    using refused_target [OF _ assms(2-4)] that assms(1,5) by auto
  show "refused s dt CO_SDO_AB_NO_RESOURCE"
    if "st = CO_SDO_ST_DOWNLOAD_SEGMENTED \<and> ccs \<noteq> CCS_DOWNLOAD_SEGMENT
      \<or> st = CO_SDO_ST_UPLOAD_SEGMENTED \<and> ccs \<noteq> CCS_UPLOAD_SEGMENT"
    by (rule later) (use that assms(5,6) r in \<open>auto simp: switch\<close>)
  show "refused s dt CO_SDO_AB_TOGGLE_BIT"
    if "(st = CO_SDO_ST_DOWNLOAD_SEGMENTED \<and> ccs = CCS_DOWNLOAD_SEGMENT
        \<or> st = CO_SDO_ST_UPLOAD_SEGMENTED \<and> ccs = CCS_UPLOAD_SEGMENT)
      \<and> d ! 0 AND SDO_MASK_SEG_T_BIT \<noteq> toggle s"
    by (rule later) (use that assms(5,6) r in \<open>auto simp: switch\<close>)
qed

definition sample_request :: "bytes \<Rightarrow> unit sdo_run \<Rightarrow> unit sdo_run" where
  "sample_request d s = sdo_receive s (blank_msg\<lparr>msg_data := d\<rparr>)"

lemma sdo_server_refuses_witness:
  "refused (sample_request [0x21, 0, 0x10, 0, 2, 0, 0, 0] sample_run) 1 CO_SDO_AB_SUB_UNKNOWN
   \<and> refused (sample_request [0xA0, 0, 0x10, 0, 0, 0, 0, 0] sample_run) 1 CO_SDO_AB_CMD"
proof -
  have get: "od_absent link_od 0x1000"
    by (simp add: od_absent_def od_sorted_def link_od_def od_indices_def)
  let ?r = "\<lambda>b v. sample_request [b, 0, 0x10, 0, v, 0, 0, 0] sample_run"
  have r: "sdo_ready (?r b v) CO_SDO_ST_IDLE" "has_message (?r b v) [b, 0, 0x10, 0, v, 0, 0, 0]"
      "in_time (?r b v) 1" "mux_of [b, 0, 0x10, 0, v, 0, 0, 0] 0x1000 0" for b v
    using sample_run_ready
    by (simp_all add: sample_request_def in_time_ready mux_of_def CO_getUint16_def mem_simps be16_def)
  show ?thesis
    using sdo_server_refuses [OF r refl, of "0x21" 2] sdo_server_refuses [OF r refl, of "0xA0" 0]
      get sample_run_ready
    by (simp add: sample_request_def cs_defs)
qed

subsection \<open>An abort during internal processing\<close>

text \<open>
  A client that aborts while the server waits for the confirmation of an extension brings the
  server back to idle with \<open>is_internal_processing\<close> still set. The next download of an object
  without an extension then calls the confirmation function of that object through its NULL
  \<open>p_ext\<close> instead of storing the data.\<close>

theorem sdo_abort_leaves_internal_processing:
  assumes "valid s" "sd_state s = CO_SDO_ST_DOWNLOAD_INITIATE_RSP \<or> sd_state s = CO_SDO_ST_DOWNLOAD_SEGMENTED"
    and "is_internal_processing s" "has_message s d" "in_time s dt" "drop_bit 5 (d ! 0) = CCS_ABORT"
    and "od_target (p_od s) ind si i j sub" "writable sub" "plain_sub sub"
    and "mux_of d' ind si" "drop_bit 5 (d' ! 0) = CCS_DOWNLOAD_INITIATE" "msg_data m = d'"
  shows "\<exists>s1. CO_SDOserver_process s dt = Some s1 \<and> sd_state s1 = CO_SDO_ST_IDLE
     \<and> is_internal_processing s1 \<and> CO_SDOserver_process (sdo_receive s1 m) dt = None"
proof -
  have v: "msg_new (rx_msg s)" "msg_data (rx_msg s) = d" "length d = 8"
    using assms(4) by (auto simp: has_message_def)
  obtain code where code: "CO_getUint32 d 4 = Some code"
    using v(3) by (auto simp: CO_getUint32_def mem_simps)
  let ?s = "s\<lparr>timeout_cter_ms := 0, rx_abort_code := code, rx_msg := (rx_msg s)\<lparr>msg_new := False\<rparr>,
      sd_state := CO_SDO_ST_IDLE, sd_status := CO_SDO_RT_abort\<rparr>"
  have p: "CO_SDOserver_process s dt = Some ?s"
    using assms(6) v code
    by (simp add: server_process_new [OF assms(1) v(1) assms(5)] server_message_def mem_simps sdo_effects)
  let ?r = "sdo_receive ?s m"
  have len: "length d' = 8" using assms(10) by (simp add: mux_of_def)
  have it: "in_time ?r dt" using assms(5) by (simp add: in_time_def sdo_receive_def)
  have r: "valid ?r" "msg_new (rx_msg ?r)" using assms(1) by (simp_all add: sdo_receive_def)
  have first: "CO_SDOserver_process_first_msg_and_set_state (?r\<lparr>timeout_cter_ms := 0\<rparr>)
      = Some (CO_SDO_RT_busy, ?r\<lparr>timeout_cter_ms := 0, sd_index := ind, sd_sub_index := si,
          object_no := word_of_nat i, p_sub_obj := Od_sub i j, p_data_itf := Itf_data,
          sd_state := CO_SDO_ST_DOWNLOAD_INITIATE_RSP\<rparr>)"
    using assms(7-12)
    by (subst server_first_download [where i = i and j = j and sub = sub])
      (auto simp: sdo_receive_def cs_defs)
  have "server_message ?r = None"
    using assms(3,9,11,12) len first od_target_lookup(4) [OF assms(7)]
    by (simp add: server_message_def mem_simps CO_SDOtimeout_reset_and_inactivate_def cs_defs
        sdo_receive_def server_handle_def server_switch_def the_sub_Od plain_sub_def
        CO_SDOserver_download_initiate_response_handle_def confirm_download_def call_confirm_def
        CO_SDO_reset_tx_abort_code_def Let_def)
  then have "CO_SDOserver_process ?r dt = None"
    by (simp add: server_process_new [OF r it])
  then show ?thesis using p assms(3) by (intro exI [of _ ?s]) simp
qed

lemma sdo_abort_leaves_internal_processing_witness:
  "\<exists>s1. CO_SDOserver_process (sample_request [0x80, 0, 0x20, 0, 0, 0, 0, 8] (sample_run
          \<lparr>sd_state := CO_SDO_ST_DOWNLOAD_SEGMENTED, is_internal_processing := True\<rparr>)) 1 = Some s1
     \<and> CO_SDOserver_process (sdo_receive s1 (blank_msg\<lparr>msg_data := [0x21, 0, 0x20, 0, 9, 0, 0, 0]\<rparr>)) 1 = None"
proof -
  let ?s = "sample_request [0x80, 0, 0x20, 0, 0, 0, 0, 8] (sample_run
      \<lparr>sd_state := CO_SDO_ST_DOWNLOAD_SEGMENTED, is_internal_processing := True\<rparr>)"
  let ?b = "sample_sub 10 [1, 2, 3, 4, 5, 6, 7, 8, 9, 10]"
  have t: "od_target (p_od ?s) 0x2000 0 0 0 ?b"
    using link_od_target sample_run_ready by (simp add: sample_request_def)
  show ?thesis
    using sdo_abort_leaves_internal_processing [where s = ?s and dt = 1 and
        d = "[0x80, 0, 0x20, 0, 0, 0, 0, 8]" and d' = "[0x21, 0, 0x20, 0, 9, 0, 0, 0]" and
        m = "blank_msg\<lparr>msg_data := [0x21, 0, 0x20, 0, 9, 0, 0, 0]\<rparr>", OF _ _ _ _ _ _ t]
    by (force simp: sample_sub_sel sample_request_def in_time_def sample_run_def sdo_receive_def
        has_message_def cs_defs mux_of_def CO_getUint16_def mem_simps be16_def)
qed

subsection \<open>The status of the server\<close>

lemma abort_with_ret: "abort_with code s = Some (ret, s') \<Longrightarrow> ret = CO_SDO_RT_abort"
  by (auto simp: abort_with_def bind_eq_Some_conv)

text \<open>A handler that reports success has gone back to idle.\<close>

definition success_is_idle :: "'w sdo_result \<Rightarrow> bool" where
  "success_is_idle r \<longleftrightarrow>
     (\<forall>ret s'. r = Some (ret, s') \<longrightarrow> ret = CO_SDO_RT_success \<longrightarrow> sd_state s' = CO_SDO_ST_IDLE)"

lemma success_is_idle_intros [simp]:
  "success_is_idle (abort_with code s)" "success_is_idle None"
  "success_is_idle (Some (ret, s)) \<longleftrightarrow> (ret = CO_SDO_RT_success \<longrightarrow> sd_state s = CO_SDO_ST_IDLE)"
  by (auto simp: success_is_idle_def dest: abort_with_ret)

lemma success_is_idle_bind: "(\<And>x. m = Some x \<Longrightarrow> success_is_idle (f x)) \<Longrightarrow> success_is_idle (m \<bind> f)"
  by (cases m) auto

lemma success_is_idle_let: "success_is_idle (f x) \<Longrightarrow> success_is_idle (let y = x in f y)"
  by simp

lemma success_is_idle_if:
  "(b \<Longrightarrow> success_is_idle x) \<Longrightarrow> (\<not> b \<Longrightarrow> success_is_idle y) \<Longrightarrow> success_is_idle (if b then x else y)"
  by simp

lemmas success_is_idle_rules = success_is_idle_bind success_is_idle_let success_is_idle_if

lemma finish_download_idle: "success_is_idle (finish_download s)"
  unfolding finish_download_def by (intro success_is_idle_rules) (simp_all add: sdo_effects)

lemma confirm_download_idle: "success_is_idle (confirm_download s)"
  unfolding confirm_download_def split_def
  by (intro success_is_idle_rules) (simp_all add: sdo_effects)

lemma server_switch_idle:
  assumes "sd_state s \<noteq> CO_SDO_ST_IDLE"
  shows "success_is_idle (server_switch s)"
proof -
  have "success_is_idle (CO_SDOserver_download_initiate_response_handle s)"
    unfolding CO_SDOserver_download_initiate_response_handle_def
    by (intro success_is_idle_rules)
      (simp_all add: sdo_effects finish_download_idle confirm_download_idle)
  moreover have "success_is_idle (CO_SDOserver_download_segment_handle s)"
    unfolding CO_SDOserver_download_segment_handle_def
    by (intro success_is_idle_rules)
      (simp_all add: sdo_effects finish_download_idle confirm_download_idle)
  moreover have "success_is_idle (CO_SDOserver_upload_initiate_response_handle s)"
    unfolding CO_SDOserver_upload_initiate_response_handle_def
    by (intro success_is_idle_rules) (simp_all add: sdo_effects)
  moreover have "success_is_idle (CO_SDOserver_upload_segment_handle s)"
    unfolding CO_SDOserver_upload_segment_handle_def
    by (intro success_is_idle_rules) (simp_all add: sdo_effects)
  ultimately show ?thesis
    by (cases "sd_state s") (simp_all add: server_switch_def)
qed

lemma server_handle_not_success:
  "server_handle s = Some (ret, s') \<Longrightarrow> ret \<noteq> CO_SDO_RT_success"
proof (cases "sd_state s = CO_SDO_ST_IDLE")
  case True
  then have "server_switch s = Some (CO_SDO_RT_busy, s)" by (simp add: server_switch_def)
  then show "server_handle s = Some (ret, s') \<Longrightarrow> ?thesis"
    by (auto simp: server_handle_def server_return_def split: if_splits)
next
  case False
  assume h: "server_handle s = Some (ret, s')"
  obtain q t where "server_switch s = Some (q, t)" "server_return (set_rx_old t) q = (ret, s')"
    using h by (auto simp: server_handle_def bind_eq_Some_conv)
  then show ?thesis using server_switch_idle [OF False]
    by (auto simp: success_is_idle_def server_return_def set_rx_old_def split: if_splits)
qed

text \<open>
  The server never reports success: whatever it receives, a call of \<open>CO_SDOserver_process\<close> leaves
  the status at idle, busy or abort, because the status is overwritten with idle whenever the
  state machine has gone back to idle, which is what a finished transfer does.\<close>

theorem server_never_reports_success:
  assumes "CO_SDOserver_process s dt = Some s'"
  shows "CO_SDO_get_status s' \<noteq> CO_SDO_RT_success"
proof -
  obtain ret t where r: "CO_SDOserver_process_inner s dt = Some (ret, t)" "s' = t\<lparr>sd_status := ret\<rparr>"
    using assms by (auto simp: CO_SDOserver_process_def bind_eq_Some_conv)
  have msg: "q \<noteq> CO_SDO_RT_success" if "server_message u = Some (q, v)" for u v q
    using that
    by (auto simp: server_message_def Let_def bind_eq_Some_conv dest: server_handle_not_success
        split: if_splits)
  have "ret \<noteq> CO_SDO_RT_success"
    using r(1) msg
    by (auto simp: CO_SDOserver_process_inner_def Let_def server_return_def
        dest: server_handle_not_success split: if_splits)
  then show ?thesis using r(2) by (simp add: CO_SDO_get_status_def)
qed

lemma server_never_reports_success_witness:
  "\<exists>s'. CO_SDOserver_process sample_run 1 = Some s' \<and> CO_SDO_get_status s' \<noteq> CO_SDO_RT_success"
proof -
  have "CO_SDOserver_process sample_run 1 = Some sample_run"
    by (simp add: CO_SDOserver_process_def CO_SDOserver_process_inner_def sample_run_def
        CO_SDOtimeout_is_activated_def server_return_def blank_msg_def)
  then show ?thesis using server_never_reports_success by blast
qed

subsection \<open>The announced length\<close>

text \<open>
  The server keeps sixteen bits of the thirty-two bit length a client announces: a segmented
  download is accepted whenever the length modulo 65536 fits the object, so a client that
  announces 65536 more bytes than the object has is answered as if it fitted.\<close>

theorem server_truncates_announced_length:
  assumes "sdo_ready s CO_SDO_ST_IDLE" "has_message s d" "in_time s dt"
    and "mux_of d ind si" "d ! 0 = 0x21" "CO_getUint32 d 4 = Some len"
    and "od_target (p_od s) ind si i j sub" "writable sub" "plain_sub sub"
    and "unat len mod 65536 \<le> unat (so_len sub)"
  shows "\<exists>s'. CO_SDOserver_process s dt = Some s' \<and> sd_state s' = CO_SDO_ST_DOWNLOAD_SEGMENTED
     \<and> unat (trans_data_len s') = unat len mod 65536"
proof -
  have u: "unat (ucast len :: u16) = unat len mod 65536"
    by (simp add: unsigned_ucast_eq take_bit_eq_mod)
  then have "ucast len \<le> so_len sub" using assms(10) by (simp add: word_le_nat_alt)
  from server_starts_download [OF assms(1-6) refl assms(7-9) this] u show ?thesis
    by (auto simp: transferring_def sdo_ready_def)
qed

lemma server_truncates_announced_length_witness:
  "\<exists>s'. CO_SDOserver_process (sample_request [0x21, 0, 0x20, 0, 4, 0, 1, 0] sample_run) 1 = Some s'
     \<and> unat (trans_data_len s') = 4"
proof -
  let ?d = "[0x21, 0, 0x20, 0, 4, 0, 1, 0]"
  let ?b = "sample_sub 10 [1, 2, 3, 4, 5, 6, 7, 8, 9, 10]"
  have t: "od_target (p_od (sample_request ?d sample_run)) 0x2000 0 0 0 ?b"
    using link_od_target sample_run_ready by (simp add: sample_request_def)
  have r: "sdo_ready (sample_request ?d sample_run) CO_SDO_ST_IDLE"
      "has_message (sample_request ?d sample_run) ?d" "in_time (sample_request ?d sample_run) 1"
      "mux_of ?d 0x2000 0" "CO_getUint32 ?d 4 = Some 0x10004"
    using sample_run_ready
    by (simp_all add: sample_request_def in_time_ready mux_of_def CO_getUint16_def CO_getUint32_def
        mem_simps be16_def le32_def)
  show ?thesis
    using server_truncates_announced_length [OF r(1-4) _ r(5) t] by (auto simp: sample_sub_sel)
qed
end
