(* ===== verification/Co_Sdo_Safety.thy ===== *)
theory Co_Sdo_Safety
  imports Co_Sdo_Errors
begin

section \<open>Memory safety of the SDO server\<close>

subsection \<open>Well-formed dictionaries\<close>

definition sub_wf :: "'w CO_Sub_Object \<Rightarrow> bool" where
  "sub_wf sub \<longleftrightarrow> unat (so_len sub) \<le> length (so_data sub)
     \<and> (\<forall>t. so_temp sub = Ref t \<longrightarrow> unat (so_len sub) \<le> length t)
     \<and> (\<forall>e. so_ext sub = Ref e \<longrightarrow> unat (so_len sub) \<le> length (p_shadow_data e))"

definition od_wf :: "'w CO_OD \<Rightarrow> bool" where
  "od_wf od \<longleftrightarrow> od_sorted od \<and> (\<forall>ob \<in> set (od_list od).
     unat (ob_sub_number ob) = length (ob_subs ob) \<and> (\<forall>sub \<in> set (ob_subs ob). sub_wf sub))"

text \<open>A write keeps the shape of a sub object: its length and attributes, which buffers it has, and
  how long they are.\<close>

definition same_shape :: "'w CO_Sub_Object \<Rightarrow> 'w CO_Sub_Object \<Rightarrow> bool" where
  "same_shape sub sub' \<longleftrightarrow> so_len sub' = so_len sub \<and> so_attr sub' = so_attr sub
     \<and> length (so_data sub') = length (so_data sub)
     \<and> map_option length (itf_buffer Itf_temp sub') = map_option length (itf_buffer Itf_temp sub)
     \<and> map_option length (itf_buffer Itf_shadow sub') = map_option length (itf_buffer Itf_shadow sub)"

lemma sub_wf_itf:
  "sub_wf sub \<longleftrightarrow> unat (so_len sub) \<le> length (so_data sub)
     \<and> (\<forall>n. map_option length (itf_buffer Itf_temp sub) = Some n \<longrightarrow> unat (so_len sub) \<le> n)
     \<and> (\<forall>n. map_option length (itf_buffer Itf_shadow sub) = Some n \<longrightarrow> unat (so_len sub) \<le> n)"
  by (auto simp: sub_wf_def itf_buffer_def split: ptr.splits)

lemma same_shape_wf: "same_shape sub sub' \<Longrightarrow> sub_wf sub \<Longrightarrow> sub_wf sub'"
  by (simp add: same_shape_def sub_wf_itf)

lemma same_shape_buffer:
  "same_shape sub sub' \<Longrightarrow>
     map_option length (itf_buffer itf sub') = map_option length (itf_buffer itf sub)"
  by (cases itf) (auto simp: same_shape_def itf_buffer_def)

lemma same_shape_ext: "same_shape sub sub' \<Longrightarrow> so_ext sub' = NULL \<longleftrightarrow> so_ext sub = NULL"
  by (auto simp: same_shape_def itf_buffer_def split: ptr.splits)

lemma same_shape_refl [simp]: "same_shape sub sub"
  by (simp add: same_shape_def)

lemma same_shape_set:
  "itf_buffer itf sub = Some d \<Longrightarrow> length d' = length d \<Longrightarrow> same_shape sub (set_itf_buffer itf d' sub)"
  by (cases itf) (auto simp: same_shape_def set_itf_buffer_def itf_buffer_def split: ptr.splits)

lemma od_get_wf: "od_wf od \<Longrightarrow> od_get i j od = Some sub \<Longrightarrow> sub_wf sub"
  unfolding od_get_cases od_wf_def by (metis nth_mem)

lemma od_put_wf:
  assumes "od_wf od" "od_get i j od = Some sub" "same_shape sub sub'"
  shows "od_wf (od_put i j sub' od)"
proof -
  have ij: "i < length (od_list od)" "j < length (ob_subs (od_list od ! i))"
      "ob_subs (od_list od ! i) ! j = sub"
    using assms(2) by (auto simp: od_get_cases)
  have wf: "sub_wf sub'"
    by (rule same_shape_wf [OF assms(3) od_get_wf [OF assms(1,2)]])
  have "od_sorted (od_put i j sub' od)"
    using assms(1) by (simp add: od_wf_def od_sorted_def) (simp add: od_put_def)
  moreover have "unat (ob_sub_number ob) = length (ob_subs ob) \<and> (\<forall>sub \<in> set (ob_subs ob). sub_wf sub)"
    if "ob \<in> set (od_list (od_put i j sub' od))" for ob
  proof -
    from that ij have "ob = (od_list od ! i)\<lparr>ob_subs := (ob_subs (od_list od ! i))[j := sub']\<rparr>
        \<or> ob \<in> set (od_list od)"
      using set_update_subset_insert [of "od_list od" i] by (auto simp: od_put_def)
    moreover have "od_list od ! i \<in> set (od_list od)" using ij by simp
    ultimately show ?thesis
      using assms(1) wf set_update_subset_insert [of "ob_subs (od_list od ! i)" j sub']
      by (auto simp: od_wf_def)
  qed
  ultimately show ?thesis by (simp add: od_wf_def)
qed

subsection \<open>The invariant\<close>

text \<open>The sub object of a transfer, and the buffer a download writes.\<close>

definition on_sub :: "'w sdo_run \<Rightarrow> ('w CO_Sub_Object \<Rightarrow> bool) \<Rightarrow> bool" where
  "on_sub s P \<longleftrightarrow> (\<exists>i j sub. p_sub_obj s = Od_sub i j \<and> od_get i j (p_od s) = Some sub \<and> P sub)"

definition has_buffer :: "data_itf \<Rightarrow> 'w CO_Sub_Object \<Rightarrow> bool" where
  "has_buffer itf sub \<longleftrightarrow> itf_buffer itf sub \<noteq> None"

lemma has_buffer_length:
  "sub_wf sub \<Longrightarrow> has_buffer itf sub \<Longrightarrow> \<exists>d. itf_buffer itf sub = Some d \<and> unat (so_len sub) \<le> length d"
  by (cases itf) (auto simp: has_buffer_def itf_buffer_def sub_wf_def split: ptr.splits)

lemma same_shape_has: "same_shape sub sub' \<Longrightarrow> has_buffer itf sub' = has_buffer itf sub"
  using same_shape_buffer [of sub sub' itf]
  by (cases "itf_buffer itf sub"; cases "itf_buffer itf sub'") (auto simp: has_buffer_def)

text \<open>A message the server can take: if it asks for a transfer, its index is not above the whole dictionary, and it
  is not an abort that arrives during internal processing. Segments may carry any bytes.\<close>

definition asks_transfer :: "bytes \<Rightarrow> bool" where
  "asks_transfer d \<longleftrightarrow> drop_bit 5 (d ! 0) = CCS_DOWNLOAD_INITIATE \<or> drop_bit 5 (d ! 0) = CCS_UPLOAD_INITIATE"

definition safe_message :: "'w sdo_run \<Rightarrow> bytes \<Rightarrow> bool" where
  "safe_message s d \<longleftrightarrow> length d = 8
     \<and> (\<forall>ind. asks_transfer d \<and> CO_getUint16 d 1 = Some ind \<longrightarrow> (\<exists>k \<in> set (od_indices (od_list (p_od s))). ind \<le> k))
     \<and> \<not> (is_internal_processing s \<and> drop_bit 5 (d ! 0) = CCS_ABORT)"

definition server_base :: "'w sdo_run \<Rightarrow> bool" where
  "server_base s \<longleftrightarrow> length (msg_data (tx_msg s)) = 8 \<and> length (msg_data (rx_msg s)) = 8 \<and> od_wf (p_od s)"

definition server_state :: "'w sdo_run \<Rightarrow> bool" where
  "server_state s \<longleftrightarrow> (case sd_state s of
     CO_SDO_ST_IDLE \<Rightarrow> \<not> is_internal_processing s
   | CO_SDO_ST_DOWNLOAD_INITIATE_RSP \<Rightarrow>
       is_internal_processing s \<and> on_sub s (\<lambda>sub. so_ext sub \<noteq> NULL)
   | CO_SDO_ST_DOWNLOAD_SEGMENTED \<Rightarrow>
       on_sub s (\<lambda>sub. has_buffer (p_data_itf s) sub \<and> trans_data_len s \<le> so_len sub
         \<and> buffer_offset s \<le> trans_data_len s
         \<and> (is_internal_processing s \<longrightarrow> so_ext sub \<noteq> NULL))
   | CO_SDO_ST_UPLOAD_SEGMENTED \<Rightarrow>
       \<not> is_internal_processing s
       \<and> on_sub s (\<lambda>sub. trans_data_len s \<le> so_len sub \<and> buffer_offset s \<le> trans_data_len s)
   | _ \<Rightarrow> False)"

definition server_inv :: "'w sdo_run \<Rightarrow> bool" where
  "server_inv s \<longleftrightarrow> server_base s \<and> server_state s
     \<and> (msg_new (rx_msg s) \<longrightarrow> safe_message s (msg_data (rx_msg s)))"

text \<open>A step is safe when it has a result and the result has a well-formed base and state.\<close>

definition safe_result :: "'w sdo_result \<Rightarrow> bool" where
  "safe_result r \<longleftrightarrow> (\<exists>ret s. r = Some (ret, s) \<and> server_base s \<and> server_state s)"

lemma safe_result_Some [simp]: "safe_result (Some (ret, s)) \<longleftrightarrow> server_base s \<and> server_state s"
  by (simp add: safe_result_def)

lemma server_base_fields:
  "server_base s \<Longrightarrow> length (msg_data (tx_msg s)) = 8 \<and> length (msg_data (rx_msg s)) = 8 \<and> od_wf (p_od s)"
  by (simp add: server_base_def)

lemma safe_abort: "server_base s \<Longrightarrow> safe_result (abort_with code s)"
proof -
  assume b: "server_base s"
  then have len: "length (msg_data (tx_msg s)) = 8" by (simp add: server_base_def)
  have rx: "length (msg_data (rx_msg s')) = length (msg_data (rx_msg s))"
    if "abort_with code s = Some (ret, s')" for ret s'
    using that by (auto simp: abort_with_def CO_SDO_abort_and_response_def CO_SDO_abort_def
        sdo_effects bind_eq_Some_conv set_tx_byte_def Let_def)
  from abort_with_Some [OF len, of code] obtain s' where
    s': "abort_with code s = Some (CO_SDO_RT_abort, s')" "length (msg_data (tx_msg s')) = 8"
      "sd_state s' = CO_SDO_ST_IDLE" "\<not> is_internal_processing s'" "p_od s' = p_od s" by auto
  show ?thesis
    using s' rx [OF s'(1)] b by (simp add: server_base_def server_state_def)
qed

text \<open>A store through the interface pointer succeeds and keeps the shape of the object.\<close>

lemma safe_store:
  assumes "server_base s" "p_sub_obj s = Od_sub i j" "od_get i j (p_od s) = Some sub"
    and "has_buffer itf sub" "off + unat n \<le> unat (so_len sub)" "from + unat n \<le> 8"
  shows "\<exists>sub'. store_received itf off from n s = Some (s\<lparr>p_od := od_put i j sub' (p_od s)\<rparr>)
     \<and> same_shape sub sub' \<and> od_wf (od_put i j sub' (p_od s))
     \<and> od_get i j (od_put i j sub' (p_od s)) = Some sub'"
proof -
  have wf: "od_wf (p_od s)" "length (msg_data (rx_msg s)) = 8" using assms(1) by (simp_all add: server_base_def)
  obtain d where d: "itf_buffer itf sub = Some d" "unat (so_len sub) \<le> length d"
    using has_buffer_length [OF od_get_wf [OF wf(1) assms(3)] assms(4)] by blast
  then obtain d' where d': "CO_memcpy d off (msg_data (rx_msg s)) from n = Some d'"
    using assms(5,6) wf(2) by (auto simp: mem_simps)
  have shape: "same_shape sub (set_itf_buffer itf d' sub)"
    using same_shape_set [OF d(1)] length_CO_memcpy [OF d'] by blast
  then show ?thesis
    using assms(2,3) d(1) d' od_put_wf [OF wf(1) assms(3) shape] od_get_put [OF assms(3)]
    by (intro exI [of _ "set_itf_buffer itf d' sub"]) (simp add: store_received_def sub_simps)
qed

lemma safe_copy_temp:
  assumes "server_base s" "p_sub_obj s = Od_sub i j" "od_get i j (p_od s) = Some sub"
  shows "\<exists>sub'. copy_temp_to_data s = Some (s\<lparr>p_od := od_put i j sub' (p_od s)\<rparr>)
     \<and> same_shape sub sub' \<and> od_wf (od_put i j sub' (p_od s))"
proof -
  have wf: "od_wf (p_od s)" using assms(1) by (simp add: server_base_def)
  note swf = od_get_wf [OF wf assms(3)]
  have same: ?thesis if "copy_temp_to_data s = Some s"
    using that wf od_put_same [OF assms(3)] by (intro exI [of _ sub]) simp
  show ?thesis
  proof (cases "so_temp sub")
    case NULL
    then show ?thesis using assms(2,3) by (intro same) (simp add: copy_temp_to_data_def sub_simps)
  next
    case (Ref t)
    show ?thesis
    proof (cases "so_attr sub AND ODA_VWTE_after_reset = 0")
      case False
      then show ?thesis using assms(2,3) Ref by (intro same) (simp add: copy_temp_to_data_def sub_simps)
    next
      case True
      obtain d where d: "CO_memcpy (so_data sub) 0 t 0 (so_len sub) = Some d"
        using swf Ref by (auto simp: sub_wf_def mem_simps)
      have "same_shape sub (sub\<lparr>so_data := d\<rparr>)"
        using length_CO_memcpy [OF d] by (simp add: same_shape_def itf_buffer_def)
      then show ?thesis
        using assms(2,3) Ref True d od_put_wf [OF wf assms(3)]
        by (intro exI [of _ "sub\<lparr>so_data := d\<rparr>"]) (simp add: copy_temp_to_data_def sub_simps)
    qed
  qed
qed

lemma safe_copy_shadow:
  assumes "server_base s" "p_sub_obj s = Od_sub i j" "od_get i j (p_od s) = Some sub" "so_ext sub \<noteq> NULL"
  shows "\<exists>sub'. co_sdoserver_copy_shadow_data_to_operating_data s
       = Some (s\<lparr>p_od := od_put i j sub' (p_od s)\<rparr>)
     \<and> same_shape sub sub' \<and> od_wf (od_put i j sub' (p_od s))"
proof -
  have wf: "od_wf (p_od s)" using assms(1) by (simp add: server_base_def)
  note swf = od_get_wf [OF wf assms(3)]
  obtain e where e: "so_ext sub = Ref e" using assms(4) by (cases "so_ext sub") auto
  have len: "unat (so_len sub) \<le> length (p_shadow_data e)" "unat (so_len sub) \<le> length (so_data sub)"
    using swf e by (auto simp: sub_wf_def)
  obtain d where d: "CO_memcpy (so_data sub) 0 (p_shadow_data e) 0 (so_len sub) = Some d"
    using len by (auto simp: mem_simps)
  show ?thesis
  proof (cases "so_temp sub")
    case NULL
    let ?u = "sub\<lparr>so_data := d\<rparr>"
    have "same_shape sub ?u"
      using length_CO_memcpy [OF d] by (simp add: same_shape_def itf_buffer_def)
    then show ?thesis
      using assms(2,3) NULL d e od_put_wf [OF wf assms(3)]
      by (intro exI [of _ ?u])
        (simp add: co_sdoserver_copy_shadow_data_to_operating_data_def sub_simps itf_buffer_def)
  next
    case (Ref t)
    obtain t' where t': "CO_memcpy t 0 (p_shadow_data e) 0 (so_len sub) = Some t'"
      using swf Ref len by (auto simp: sub_wf_def mem_simps)
    let ?u = "sub\<lparr>so_temp := Ref t', so_data :=
        if so_attr sub AND ODA_VWTE_after_reset = 0 then d else so_data sub\<rparr>"
    have "same_shape sub ?u"
      using length_CO_memcpy [OF d] length_CO_memcpy [OF t'] Ref
      by (simp add: same_shape_def itf_buffer_def)
    then show ?thesis
      using assms(2,3) Ref d t' e od_put_wf [OF wf assms(3)]
      by (intro exI [of _ ?u])
        (simp add: co_sdoserver_copy_shadow_data_to_operating_data_def sub_simps itf_buffer_def)
  qed
qed

lemma expedited_len_le:
  "unat (4 - ucast (drop_bit 2 (cs AND SDO_MASK_INIT_N_BIT)) :: u16) \<le> 4"
proof -
  have "cs AND SDO_MASK_INIT_N_BIT \<le> SDO_MASK_INIT_N_BIT" by (rule word_and_le1)
  then have "unat (cs AND SDO_MASK_INIT_N_BIT) \<le> 12"
    by (simp add: SDO_MASK_INIT_N_BIT_def word_le_nat_alt)
  then have "unat (drop_bit 2 (cs AND SDO_MASK_INIT_N_BIT)) \<le> 3"
    by (simp only: unat_drop_bit_eq) (simp add: drop_bit_eq_div)
  then show ?thesis by (simp add: unat_sub_if')
qed

lemma safe_finish_download:
  assumes "server_base s" "p_sub_obj s = Od_sub i j" "od_get i j (p_od s) = Some sub"
    and "\<not> is_internal_processing s" "has_buffer (p_data_itf s) sub"
    and "trans_data_len s \<le> so_len sub" "buffer_offset s \<le> trans_data_len s"
    and "sd_state s = CO_SDO_ST_DOWNLOAD_INITIATE_RSP \<or> sd_state s = CO_SDO_ST_DOWNLOAD_SEGMENTED"
  shows "safe_result (finish_download s)"
proof (cases "so_ext sub")
  case NULL
  obtain sub' where "copy_temp_to_data s = Some (s\<lparr>p_od := od_put i j sub' (p_od s)\<rparr>)"
      "od_wf (od_put i j sub' (p_od s))"
    using safe_copy_temp [OF assms(1-3)] by blast
  then show ?thesis
    using assms(1-4) NULL
    by (simp add: finish_download_def sub_simps server_base_def server_state_def sdo_effects)
next
  case (Ref e)
  then show ?thesis
    using assms
    by (auto simp: finish_download_def sub_simps server_base_def server_state_def on_sub_def sdo_effects)
qed

lemma safe_confirm_download:
  assumes "server_base s" "server_state s" "is_internal_processing s"
    and "sd_state s = CO_SDO_ST_DOWNLOAD_INITIATE_RSP \<or> sd_state s = CO_SDO_ST_DOWNLOAD_SEGMENTED"
  shows "safe_result (confirm_download s)"
proof -
  obtain i j sub e where t: "p_sub_obj s = Od_sub i j" "od_get i j (p_od s) = Some sub" "so_ext sub = Ref e"
    using assms(2-4) by (auto simp: server_state_def on_sub_def) (metis ptr.exhaust)+
  obtain v code w where c: "confirm_func e (p_shadow_data e) (app s) = (v, code, w)"
    by (cases "confirm_func e (p_shadow_data e) (app s)")
  let ?s = "s\<lparr>tx_abort_code := code, app := w\<rparr>"
  have call: "call_confirm (CO_SDO_reset_tx_abort_code s) = Some (v, ?s)"
    using t c by (simp add: call_confirm_def CO_SDO_reset_tx_abort_code_def sub_simps)
  have b: "server_base ?s" "server_state ?s"
    using assms(1,2) by (simp_all add: server_base_def server_state_def on_sub_def cong: CO_SDO_state.case_cong)
  obtain sub' where copy: "co_sdoserver_copy_shadow_data_to_operating_data ?s
      = Some (?s\<lparr>p_od := od_put i j sub' (p_od s)\<rparr>)" "od_wf (od_put i j sub' (p_od s))"
    using safe_copy_shadow [OF b(1), of i j sub] t by auto
  have ab: "safe_result (abort_with k (?s\<lparr>is_internal_processing := False, timeout_cter_ms := 0\<rparr>))" for k
    by (rule safe_abort) (use b(1) in \<open>simp add: server_base_def\<close>)
  show ?thesis
    using b copy assms(1) ab
    by (cases v) (simp_all add: confirm_download_def call Let_def sdo_effects [abs_def]
        CO_CAN_send_def CO_SDOtimeout_reset_and_inactivate_def server_base_def server_state_def
        call [unfolded CO_SDO_reset_tx_abort_code_def])
qed

lemma safe_download_init:
  assumes "server_base s" "p_sub_obj s = Od_sub i j" "od_get i j (p_od s) = Some sub"
    and "\<not> is_internal_processing s" "has_buffer (p_data_itf s) sub"
    and "sd_state s = CO_SDO_ST_DOWNLOAD_INITIATE_RSP"
  shows "safe_result (CO_SDOserver_download_initiate_response_handle s)"
proof -
  have len: "length (msg_data (rx_msg s)) = 8" "length (msg_data (tx_msg s)) = 8" "od_wf (p_od s)"
    using assms(1) by (simp_all add: server_base_def)
  define cs where "cs = msg_data (rx_msg s) ! 0"
  obtain len32 where len32: "CO_getUint32 (msg_data (rx_msg s)) 4 = Some len32"
    using len by (auto simp: CO_getUint32_def mem_simps)
  define e where "e = (msg_data (tx_msg s))[1 := msg_data (rx_msg s) ! 1,
      2 := msg_data (rx_msg s) ! 2, 3 := msg_data (rx_msg s) ! 3]"
  define u where "u = s\<lparr>toggle := 0, buffer_offset := 0, tx_msg := (tx_msg s)\<lparr>msg_data := e\<rparr>\<rparr>"
  have e8: "length e = 8" using len by (simp add: e_def)
  have u: "server_base u" "p_sub_obj u = Od_sub i j" "od_get i j (p_od u) = Some sub"
      "msg_data (rx_msg u) = msg_data (rx_msg s)" "p_data_itf u = p_data_itf s"
      "\<not> is_internal_processing u" "sd_state u = CO_SDO_ST_DOWNLOAD_INITIATE_RSP"
      "msg_data (tx_msg u) = e" "buffer_offset u = 0"
    using assms len e8 by (simp_all add: u_def server_base_def)
  have init: "CO_SDOserver_process_init_transfer_msg s = Some u"
    using len by (simp add: server_init_mux u_def e_def set_tx_data_def)
  let ?n = "4 - ucast (drop_bit 2 (cs AND SDO_MASK_INIT_N_BIT)) :: u16"
  let ?e1 = "u\<lparr>trans_data_len := ?n\<rparr>" and ?e2 = "u\<lparr>trans_data_len := ucast len32\<rparr>"
  have base: "server_base (u\<lparr>trans_data_len := k\<rparr>)" for k
    using u(1) by (simp add: server_base_def)
  note n4 = expedited_len_le [of cs]
  have b5: "server_base (v\<lparr>trans_data_len := k, buffer_offset := off\<rparr>) = server_base v"
    for v :: "'a sdo_run" and k off by (simp add: server_base_def)
  have sub_get: "the_sub u = Some sub" using u by (simp add: the_sub_Od)
  have exp: "safe_result (do { s \<leftarrow> store_received (p_data_itf ?e1) 0 4 ?n ?e1;
      let s = s\<lparr>buffer_offset := trans_data_len s\<rparr>;
      s \<leftarrow> set_tx_byte 0 (push_bit 5 SCS_DOWNLOAD_INITIATED) s; finish_download s })"
    if "?n \<le> so_len sub"
  proof -
    have "0 + unat ?n \<le> unat (so_len sub)" using that by (simp add: word_le_nat_alt)
    moreover have "4 + unat ?n \<le> 8" using n4 by simp
    ultimately obtain sub' where st: "store_received (p_data_itf ?e1) 0 4 ?n ?e1
          = Some (?e1\<lparr>p_od := od_put i j sub' (p_od u)\<rparr>)"
        "same_shape sub sub'" "od_wf (od_put i j sub' (p_od u))"
        "od_get i j (od_put i j sub' (p_od u)) = Some sub'"
      using safe_store [OF base [of ?n], of i j sub "p_data_itf s" 0 ?n 4] u assms(5) by auto
    let ?f = "?e1\<lparr>p_od := od_put i j sub' (p_od u), buffer_offset := ?n,
        tx_msg := (tx_msg u)\<lparr>msg_data := e[0 := push_bit 5 SCS_DOWNLOAD_INITIATED]\<rparr>\<rparr>"
    have "safe_result (finish_download ?f)"
      by (rule safe_finish_download [where i = i and j = j and sub = sub'])
        (use u len e8 st same_shape_has [OF st(2)] that assms(5) in
          \<open>auto simp: server_base_def same_shape_def\<close>)
    then show ?thesis using st(1) u e8 by (simp add: Let_def mem_simps set_tx_data_def)
  qed
  have seg: "safe_result (do { let s = ?e2\<lparr>buffer_offset := 0\<rparr>;
      s \<leftarrow> set_tx_byte 0 (push_bit 5 SCS_DOWNLOAD_INITIATED) s;
      Some (CO_SDO_RT_busy, (CO_CAN_send (CO_SDOtimeout_reset_and_activate s))
        \<lparr>sd_state := CO_SDO_ST_DOWNLOAD_SEGMENTED\<rparr>) })"
    if "ucast len32 \<le> so_len sub"
    using that u e8 len assms(5)
    by (simp add: Let_def mem_simps sdo_effects server_base_def server_state_def on_sub_def)
  show ?thesis
    using assms(4) len init len32 sub_get u(4) safe_abort [OF base] safe_abort [OF u(1)] exp seg
    by (simp add: CO_SDOserver_download_initiate_response_handle_def mem_simps not_less Let_def
        flip: cs_def)
qed

lemma add_7_le:
  assumes "\<not> unat (n :: u16) \<le> unat (off :: u16) + 7"
  shows "unat (off + 7) = unat off + 7" "off + 7 \<le> n"
proof -
  have lt: "unat off < unat n" using assms by simp
  show "unat (off + 7) = unat off + 7"
    using next_offset_less(3) [OF lt assms] assms by (simp add: next_offset_def)
  then show "off + 7 \<le> n" using assms by (simp add: word_le_nat_alt)
qed

lemma safe_download_segment:
  assumes "server_base s" "sd_state s = CO_SDO_ST_DOWNLOAD_SEGMENTED" "server_state s"
  shows "safe_result (CO_SDOserver_download_segment_handle s)"
proof (cases "is_internal_processing s")
  case True
  then show ?thesis
    using safe_confirm_download [OF assms(1,3) True] assms(2)
    by (simp add: CO_SDOserver_download_segment_handle_def)
next
  case False
  have len: "length (msg_data (rx_msg s)) = 8" "length (msg_data (tx_msg s)) = 8" "od_wf (p_od s)"
    using assms(1) by (simp_all add: server_base_def)
  obtain i j sub where t: "p_sub_obj s = Od_sub i j" "od_get i j (p_od s) = Some sub"
      "has_buffer (p_data_itf s) sub" "trans_data_len s \<le> so_len sub" "buffer_offset s \<le> trans_data_len s"
    using assms(2,3) by (auto simp: server_state_def on_sub_def)
  let ?n = "trans_data_len s" and ?o = "buffer_offset s"
  note le = t(4,5) [unfolded word_le_nat_alt]
  have d: "unat (?n - ?o) = unat ?n - unat ?o"
    using le(2) by (simp add: unat_sub_if')
  have last: "safe_result (do { s \<leftarrow> store_received (p_data_itf s) (unat ?o) 1 (?n - ?o) s;
      let s = s\<lparr>buffer_offset := trans_data_len s\<rparr>;
      s \<leftarrow> set_tx_byte 0 (push_bit 5 SCS_DOWNLOAD_SEGMENT OR toggle s) s; finish_download s })"
    if w: "unat ?n \<le> unat ?o + 7"
  proof -
    have w7: "unat ?n - unat ?o \<le> 7" using w by simp
    obtain sub' where st: "store_received (p_data_itf s) (unat ?o) 1 (?n - ?o) s
          = Some (s\<lparr>p_od := od_put i j sub' (p_od s)\<rparr>)"
        "same_shape sub sub'" "od_wf (od_put i j sub' (p_od s))"
        "od_get i j (od_put i j sub' (p_od s)) = Some sub'"
      using safe_store [OF assms(1) t(1-3), of "unat ?o" "?n - ?o" 1] le d w7 by auto
    let ?f = "s\<lparr>p_od := od_put i j sub' (p_od s), buffer_offset := ?n,
        tx_msg := (tx_msg s)\<lparr>msg_data := (msg_data (tx_msg s))
          [0 := push_bit 5 SCS_DOWNLOAD_SEGMENT OR toggle s]\<rparr>\<rparr>"
    have "safe_result (finish_download ?f)"
      by (rule safe_finish_download [where i = i and j = j and sub = sub'])
        (use assms(2) False t len st same_shape_has [OF st(2)] in
          \<open>auto simp: server_base_def same_shape_def\<close>)
    then show ?thesis using st(1) len by (simp add: Let_def mem_simps set_tx_data_def)
  qed
  have mid: "safe_result (do { s \<leftarrow> store_received (p_data_itf s) (unat ?o) 1 7 s;
      let s = s\<lparr>buffer_offset := buffer_offset s + 7\<rparr>;
      s \<leftarrow> set_tx_byte 0 (push_bit 5 SCS_DOWNLOAD_SEGMENT OR toggle s) s;
      let s = CO_CAN_send (CO_SDOtimeout_reset_and_activate s);
      Some (CO_SDO_RT_busy, s\<lparr>toggle := toggle s XOR 0x10\<rparr>) })"
    if w: "\<not> unat ?n \<le> unat ?o + 7"
  proof -
    obtain sub' where st: "store_received (p_data_itf s) (unat ?o) 1 7 s
          = Some (s\<lparr>p_od := od_put i j sub' (p_od s)\<rparr>)"
        "same_shape sub sub'" "od_wf (od_put i j sub' (p_od s))"
        "od_get i j (od_put i j sub' (p_od s)) = Some sub'"
      using safe_store [OF assms(1) t(1-3), of "unat ?o" 7 1] le w by auto
    have "so_len sub' = so_len sub" "has_buffer (p_data_itf s) sub'"
      using st(2) t(3) same_shape_has [OF st(2)] by (simp_all add: same_shape_def)
    then show ?thesis
      using st assms(2) False t len add_7_le(2) [OF w]
      by (simp add: Let_def mem_simps sdo_effects server_base_def server_state_def on_sub_def)
  qed
  show ?thesis
    using False len safe_abort [OF assms(1)] last mid
    by (auto simp: CO_SDOserver_download_segment_handle_def mem_simps)
qed

lemma safe_upload_init:
  assumes "server_base s" "p_sub_obj s = Od_sub i j" "od_get i j (p_od s) = Some sub"
    and "\<not> is_internal_processing s"
  shows "safe_result (CO_SDOserver_upload_initiate_response_handle s)"
proof -
  have len: "length (msg_data (rx_msg s)) = 8" "length (msg_data (tx_msg s)) = 8" "od_wf (p_od s)"
    using assms(1) by (simp_all add: server_base_def)
  have swf: "unat (so_len sub) \<le> length (so_data sub)"
    using od_get_wf [OF len(3) assms(3)] by (simp add: sub_wf_def)
  show ?thesis
    using len assms swf
    by (simp add: CO_SDOserver_upload_initiate_response_handle_def server_init_mux mem_simps Let_def
        sdo_effects the_sub_Od server_base_def server_state_def on_sub_def word_le_nat_alt)
qed

lemma safe_upload_segment:
  assumes "server_base s" "sd_state s = CO_SDO_ST_UPLOAD_SEGMENTED" "server_state s"
  shows "safe_result (CO_SDOserver_upload_segment_handle s)"
proof -
  have len: "length (msg_data (rx_msg s)) = 8" "length (msg_data (tx_msg s)) = 8" "od_wf (p_od s)"
    using assms(1) by (simp_all add: server_base_def)
  obtain i j sub where t: "p_sub_obj s = Od_sub i j" "od_get i j (p_od s) = Some sub"
      "trans_data_len s \<le> so_len sub" "buffer_offset s \<le> trans_data_len s" "\<not> is_internal_processing s"
    using assms(2,3) by (auto simp: server_state_def on_sub_def)
  let ?n = "trans_data_len s" and ?o = "buffer_offset s"
  note le = t(3,4) [unfolded word_le_nat_alt]
  have swf: "unat ?n \<le> length (so_data sub)"
    using od_get_wf [OF len(3) t(2)] le by (simp add: sub_wf_def)
  have d: "unat (ucast (?n - ?o) :: u8) = unat ?n - unat ?o" if "unat ?n \<le> unat ?o + 7"
    using le(2) that by (simp add: unat_sub_if' unsigned_ucast_eq take_bit_nat_eq_self)
  have last: "\<exists>e. CO_memcpy (msg_data (tx_msg s)) 1 (so_data sub) (unat ?o) (ucast (ucast (?n - ?o) :: u8))
      = Some e \<and> length e = 8" if "unat ?n \<le> unat ?o + 7"
    using d [OF that] le swf len that by (auto simp: mem_simps)
  have mid: "\<exists>e. CO_memcpy (msg_data (tx_msg s)) 1 (so_data sub) (unat ?o) 7 = Some e \<and> length e = 8"
    if "\<not> unat ?n \<le> unat ?o + 7"
    using le swf len that by (auto simp: mem_simps)
  show ?thesis
  proof (cases "unat ?n \<le> unat ?o + 7")
    case True
    then show ?thesis
      using last len t assms(1,2) safe_abort [OF assms(1)]
      by (auto simp: CO_SDOserver_upload_segment_handle_def mem_simps Let_def the_sub_Od sdo_effects
          server_base_def server_state_def on_sub_def)
  next
    case False
    then show ?thesis
      using mid len t assms(1,2) safe_abort [OF assms(1)] add_7_le(2) [OF False]
      by (auto simp: CO_SDOserver_upload_segment_handle_def mem_simps Let_def the_sub_Od sdo_effects
          server_base_def server_state_def on_sub_def)
  qed
qed

subsection \<open>One call\<close>

lemma od_known:
  assumes "od_sorted od" "\<exists>k \<in> set (od_indices (od_list od)). ind \<le> k"
  shows "CO_OD_get_no od ind \<noteq> None"
proof (cases "ind \<in> set (od_indices (od_list od))")
  case True
  then obtain p where "p < length (od_list od)" "ob_index (od_list od ! p) = ind"
    by (auto simp: od_indices_def in_set_conv_nth)
  then have "od_search (od_list od) ind 0 (od_number od) = Some (word_of_nat p)"
    using assms(1) by (intro od_search_found) (auto simp: od_sorted_def)
  then show ?thesis by (simp add: CO_OD_get_no_def)
next
  case False
  then obtain k where "k \<in> set (od_indices (od_list od))" "ind < k"
    using assms(2) by (metis le_less)
  then have "\<exists>p < length (od_list od). ind < ob_index (od_list od ! p)"
    by (auto simp: od_indices_def in_set_conv_nth)
  then have "od_search (od_list od) ind 0 (od_number od) = Some OD_UNSUPPORT_ENTRY"
    using assms(1) False od_search_absent [of "od_list od" ind "od_number od" 0]
    by (simp add: od_sorted_def)
  then show ?thesis by (simp add: CO_OD_get_no_def)
qed

lemma od_sub_pointer:
  assumes "od_wf od" "no \<noteq> OD_UNSUPPORT_ENTRY"
  shows "CO_OD_get_sub_object_pointer od no si = Some NULL
     \<or> (\<exists>i j sub. CO_OD_get_sub_object_pointer od no si = Some (Ref (i, j)) \<and> od_get i j od = Some sub)"
proof (cases "no < od_number od")
  case True
  then have i: "unat no < length (od_list od)"
    using assms(1) by (simp add: od_wf_def od_sorted_def word_less_nat_alt)
  then have "unat (ob_sub_number (od_list od ! unat no)) = length (ob_subs (od_list od ! unat no))"
    using assms(1) by (simp add: od_wf_def)
  then show ?thesis
    using True assms(2) i
    by (auto simp: CO_OD_get_sub_object_pointer_def mem_simps word_le_nat_alt od_get_def not_le)
qed (simp add: CO_OD_get_sub_object_pointer_def not_less)

text \<open>The first message either ends the transfer or hands a described object to a handler.\<close>

lemma safe_first:
  assumes "server_base s" "\<not> is_internal_processing s"
    and "CO_getUint16 (msg_data (rx_msg s)) 1 = Some ind"
    and "asks_transfer (msg_data (rx_msg s)) \<Longrightarrow> \<exists>k \<in> set (od_indices (od_list (p_od s))). ind \<le> k"
  shows "(\<exists>s'. CO_SDOserver_process_first_msg_and_set_state s = Some (CO_SDO_RT_abort, s')
        \<and> server_base s' \<and> server_state s' \<and> \<not> msg_new (rx_msg s'))
     \<or> (\<exists>s'. CO_SDOserver_process_first_msg_and_set_state s = Some (CO_SDO_RT_busy, s')
        \<and> safe_result (server_switch s'))"
proof -
  have len: "length (msg_data (rx_msg s)) = 8" "length (msg_data (tx_msg s)) = 8" "od_wf (p_od s)"
    using assms(1) by (simp_all add: server_base_def)
  have ab: "\<exists>s'. abort_with code u = Some (CO_SDO_RT_abort, s') \<and> server_base s' \<and> server_state s'
      \<and> \<not> msg_new (rx_msg s')"
    if "server_base u" for code and u :: "'a sdo_run"
    using safe_abort [OF that, of code] abort_with_Some [of u code] server_base_fields [OF that]
    by (auto simp: safe_result_def)
  let ?b = "msg_data (rx_msg s) ! 0" and ?si = "msg_data (rx_msg s) ! 3"
  show ?thesis
  proof (cases "drop_bit 5 ?b \<noteq> CCS_DOWNLOAD_INITIATE \<and> drop_bit 5 ?b \<noteq> CCS_UPLOAD_INITIATE")
    case True
    then show ?thesis
      using ab [OF assms(1)] len
      by (simp add: CO_SDOserver_process_first_msg_and_set_state_def mem_simps Let_def)
  next
    case ccs: False
    then have "asks_transfer (msg_data (rx_msg s))" by (auto simp: asks_transfer_def)
    then obtain no where no: "CO_OD_get_no (p_od s) ind = Some no"
      using od_known [OF _ assms(4)] len(3) by (auto simp: od_wf_def)
    let ?u = "s\<lparr>sd_index := ind, sd_sub_index := ?si, object_no := no\<rparr>"
    have base: "server_base (?u\<lparr>p_sub_obj := p\<rparr>)" "server_base ?u" for p
      using assms(1) by (simp_all add: server_base_def)
    have "(no = OD_UNSUPPORT_ENTRY \<or> CO_OD_get_sub_object_pointer (p_od s) no ?si = Some NULL)
       \<or> (\<exists>i j sub. no \<noteq> OD_UNSUPPORT_ENTRY
           \<and> CO_OD_get_sub_object_pointer (p_od s) no ?si = Some (Ref (i, j))
           \<and> od_get i j (p_od s) = Some sub)"
      using od_sub_pointer [OF len(3), of no ?si] by blast
    then show ?thesis
    proof (elim disjE exE conjE)
      fix i j sub
      assume t: "no \<noteq> OD_UNSUPPORT_ENTRY" "CO_OD_get_sub_object_pointer (p_od s) no ?si = Some (Ref (i, j))"
        "od_get i j (p_od s) = Some sub"
      let ?v = "?u\<lparr>p_sub_obj := Od_sub i j\<rparr>"
      let ?itf = "if \<not> is_null (so_ext sub) then Itf_shadow
          else if \<not> is_null (so_temp sub) then Itf_temp else Itf_data"
      have buf: "has_buffer ?itf sub"
        by (cases "so_ext sub"; cases "so_temp sub") (auto simp: has_buffer_def itf_buffer_def)
      have down: "safe_result (server_switch (?v\<lparr>p_data_itf := ?itf,
          sd_state := CO_SDO_ST_DOWNLOAD_INITIATE_RSP\<rparr>))"
        using safe_download_init [of "?v\<lparr>p_data_itf := ?itf, sd_state := CO_SDO_ST_DOWNLOAD_INITIATE_RSP\<rparr>"
            i j sub] assms(1,2) t(3) buf
        by (simp add: server_switch_def server_base_def)
      have up: "safe_result (server_switch (?v\<lparr>sd_state := CO_SDO_ST_UPLOAD_INITIATE_RSP\<rparr>))"
        using safe_upload_init [of "?v\<lparr>sd_state := CO_SDO_ST_UPLOAD_INITIATE_RSP\<rparr>" i j sub] assms(1,2) t(3)
        by (simp add: server_switch_def server_base_def)
      show ?thesis
        using ccs len no t assms(3) ab [OF base(1), of CO_SDO_AB_UNSUPPORTED_ACCESS "Od_sub i j"] down up
        by (cases "drop_bit 5 ?b = CCS_DOWNLOAD_INITIATE")
          (auto simp: CO_SDOserver_process_first_msg_and_set_state_def mem_simps Let_def
            CO_SDOserver_get_sub_object_pointer_def the_sub_Od)
    qed (use ccs len no assms(3) ab [OF base(1), of CO_SDO_AB_SUB_UNKNOWN No_sub] in
        \<open>auto simp: CO_SDOserver_process_first_msg_and_set_state_def mem_simps Let_def
          CO_SDOserver_get_sub_object_pointer_def\<close>)
  qed
qed

lemma server_state_cong:
  assumes "sd_state s' = sd_state s" "is_internal_processing s' = is_internal_processing s"
    and "p_sub_obj s' = p_sub_obj s" "p_od s' = p_od s" "p_data_itf s' = p_data_itf s"
    and "trans_data_len s' = trans_data_len s" "buffer_offset s' = buffer_offset s"
  shows "server_state s' = server_state s"
  using assms by (cases "sd_state s") (simp_all add: server_state_def on_sub_def)

lemma safe_switch:
  assumes "server_base s" "server_state s"
  shows "safe_result (server_switch s)"
proof -
  have "safe_result (CO_SDOserver_download_initiate_response_handle s)"
    if "sd_state s = CO_SDO_ST_DOWNLOAD_INITIATE_RSP"
    using safe_confirm_download [OF assms] assms(2) that
    by (simp add: CO_SDOserver_download_initiate_response_handle_def server_state_def)
  then show ?thesis
    using safe_download_segment [OF assms(1) _ assms(2)] safe_upload_segment [OF assms(1) _ assms(2)]
      assms
    by (cases "sd_state s") (simp_all add: server_switch_def, simp_all add: server_state_def)
qed

lemma safe_handle:
  assumes "safe_result (server_switch s)"
  shows "\<exists>ret s'. server_handle s = Some (ret, s') \<and> server_inv s'"
proof -
  obtain ret t where t: "server_switch s = Some (ret, t)" "server_base t" "server_state t"
    using assms by (auto simp: safe_result_def)
  have "server_state (set_rx_old t)" using t(3)
    by (subst server_state_cong [of _ t]) (simp_all add: set_rx_old_def)
  then show ?thesis
    using t by (simp add: server_handle_def server_return_def server_inv_def server_base_def set_rx_old_def)
qed

lemma server_inv_status: "server_inv s \<Longrightarrow> server_inv (s\<lparr>sd_status := r\<rparr>)"
proof -
  assume "server_inv s"
  moreover have "server_state (s\<lparr>sd_status := r\<rparr>) = server_state s" by (rule server_state_cong) simp_all
  ultimately show ?thesis by (simp add: server_inv_def server_base_def safe_message_def)
qed

subsection \<open>Arbitrary messages\<close>

text \<open>A server serves its dictionary from its initialisation on: messages arrive, in any number
  between two calls, and \<open>CO_SDOserver_process\<close> is called with any time difference.\<close>

inductive server_reachable :: "'w sdo_run \<Rightarrow> 'w sdo_run \<Rightarrow> bool" for s0 where
  start: "server_reachable s0 s0"
| receive: "server_reachable s0 s \<Longrightarrow> safe_message s (msg_data m) \<Longrightarrow>
     server_reachable s0 (sdo_receive s m)"
| call: "server_reachable s0 s \<Longrightarrow> CO_SDOserver_process s dt = Some s' \<Longrightarrow> server_reachable s0 s'"

inductive_cases server_reachable_elims: "server_reachable s0 s"

lemma server_message_safe:
  assumes "server_inv s" "msg_new (rx_msg s)"
  shows "\<exists>ret s'. server_message s = Some (ret, s') \<and> server_inv s'"
proof -
  let ?s = "s\<lparr>timeout_cter_ms := 0\<rparr>" and ?d = "msg_data (rx_msg s)"
  have safe: "safe_message s ?d" using assms by (simp add: server_inv_def)
  then have len: "length ?d = 8" by (simp add: safe_message_def)
  have b: "server_base ?s" using assms(1) by (simp add: server_inv_def server_base_def)
  have st: "server_state ?s" using assms(1)
    by (subst server_state_cong [of _ s]) (simp_all add: server_inv_def)
  obtain ind where ind: "CO_getUint16 ?d 1 = Some ind"
    using len by (auto simp: CO_getUint16_def mem_simps)
  have known: "asks_transfer ?d \<Longrightarrow> \<exists>k \<in> set (od_indices (od_list (p_od s))). ind \<le> k"
    using safe ind by (auto simp: safe_message_def)
  obtain code where code: "CO_getUint32 ?d 4 = Some code"
    using len by (auto simp: CO_getUint32_def mem_simps)
  consider "drop_bit 5 (?d ! 0) = CCS_ABORT"
    | "drop_bit 5 (?d ! 0) \<noteq> CCS_ABORT" "sd_state s \<noteq> CO_SDO_ST_IDLE"
    | "drop_bit 5 (?d ! 0) \<noteq> CCS_ABORT" "sd_state s = CO_SDO_ST_IDLE" by blast
  then show ?thesis
  proof cases
    case 1
    then have "\<not> is_internal_processing s" using safe by (simp add: safe_message_def)
    then show ?thesis
      using 1 b len code
      by (simp add: server_message_def mem_simps sdo_effects server_inv_def server_state_def
          server_base_def)
  next
    case 2
    then show ?thesis
      using safe_handle [OF safe_switch [OF b st]] len
      by (simp add: server_message_def mem_simps CO_SDOtimeout_reset_and_inactivate_def)
  next
    case 3
    have idle: "\<not> is_internal_processing ?s" using st 3 by (simp add: server_state_def)
    have first: "(\<exists>s'. CO_SDOserver_process_first_msg_and_set_state ?s = Some (CO_SDO_RT_abort, s')
        \<and> server_base s' \<and> server_state s' \<and> \<not> msg_new (rx_msg s'))
     \<or> (\<exists>s'. CO_SDOserver_process_first_msg_and_set_state ?s = Some (CO_SDO_RT_busy, s') \<and> safe_result (server_switch s'))"
      by (rule safe_first [OF b idle, of ind]) (use ind known in simp_all)
    then show ?thesis
    proof (elim disjE exE conjE)
      fix s'
      assume f: "CO_SDOserver_process_first_msg_and_set_state ?s = Some (CO_SDO_RT_abort, s')"
        "server_base s'" "server_state s'" "\<not> msg_new (rx_msg s')"
      show ?thesis
        using f 3 len
        by (simp add: server_message_def mem_simps CO_SDOtimeout_reset_and_inactivate_def server_inv_def)
    next
      fix s'
      assume f: "CO_SDOserver_process_first_msg_and_set_state ?s = Some (CO_SDO_RT_busy, s')"
        "safe_result (server_switch s')"
      then show ?thesis
        using safe_handle [OF f(2)] 3 len
        by (simp add: server_message_def mem_simps CO_SDOtimeout_reset_and_inactivate_def)
    qed
  qed
qed

lemma server_call_safe:
  assumes "server_inv s"
  shows "\<exists>s'. CO_SDOserver_process s dt = Some s' \<and> server_inv s'"
proof -
  have b: "server_base s" "server_state s" using assms by (simp_all add: server_inv_def)
  have inc: "server_inv (CO_SDOtimeout_increase dt s)"
    using assms server_state_cong [of "CO_SDOtimeout_increase dt s" s]
    by (simp add: server_inv_def server_base_def safe_message_def CO_SDOtimeout_increase_def)
  have abort: "server_inv (CO_SDO_abort CO_SDO_AB_TIMEOUT (CO_SDOtimeout_increase dt s))"
    using b by (simp add: server_inv_def server_base_def server_state_def CO_SDO_abort_def sdo_effects)
  have go: "\<exists>ret s'. (if msg_new (rx_msg u) then server_message u
      else if is_internal_processing u then server_handle u
      else Some (server_return u CO_SDO_RT_busy)) = Some (ret, s') \<and> server_inv s'"
    if u: "server_inv u" for u :: "'a sdo_run"
    using server_message_safe [OF u] safe_handle [OF safe_switch, of u] u
    by (auto simp: server_inv_def server_return_def)
  have "\<exists>ret s'. CO_SDOserver_process_inner s dt = Some (ret, s') \<and> server_inv s'"
  proof (cases "valid s")
    case False
    then show ?thesis using assms by (simp add: CO_SDOserver_process_inner_def)
  next
    case True
    then show ?thesis
      using go [OF assms] go [OF inc] abort
      by (auto simp: CO_SDOserver_process_inner_def Let_def)
  qed
  then show ?thesis
    by (auto simp: CO_SDOserver_process_def intro: server_inv_status)
qed

lemma server_reachable_inv:
  assumes "server_reachable s0 s" "server_inv s0"
  shows "server_inv s"
  using assms
proof (induction rule: server_reachable.induct)
  case (receive s m)
  then have "server_state (sdo_receive s m) = server_state s"
    by (intro server_state_cong) (simp_all add: sdo_receive_def)
  then show ?case
    using receive by (simp add: server_inv_def server_base_def safe_message_def sdo_receive_def)
next
  case (call s dt s')
  then show ?case using server_call_safe [of s dt] by auto
qed

lemma server_init_inv:
  assumes "od_wf od" "length (msg_data (rx_msg s)) = 8" "length (msg_data (tx_msg s)) = 8"
  shows "server_inv (CO_SDOserver_init s p sync od)"
  using assms
  by (simp add: CO_SDOserver_init_def server_inv_def server_base_def server_state_def sdo_effects)

text \<open>C6:
  The SDO server never reads or writes outside its objects. From its initialisation on with a
  well-formed dictionary (sorted, every count and every buffer as its object says), whatever messages of eight bytes
  arrive, in whatever order, and however often it is called, the next call of \<open>CO_SDOserver_process\<close> has a defined
  result and the dictionary stays well formed. Two kinds of message are excluded, those the code cannot
  take: a request that starts a transfer and names an index above every index of the dictionary, which makes the
  search read behind the list, and an abort that arrives during internal processing. The bytes of segments
  are arbitrary.\<close>

theorem sdo_server_memory_safe:
  assumes "od_wf od" "length (msg_data (rx_msg s0)) = 8" "length (msg_data (tx_msg s0)) = 8"
    and "server_reachable (CO_SDOserver_init s0 p sync od) s"
  shows "\<exists>s'. CO_SDOserver_process s dt = Some s' \<and> od_wf (p_od s')"
  using server_call_safe [OF server_reachable_inv [OF assms(4) server_init_inv [OF assms(1-3)]]]
  by (auto simp: server_inv_def server_base_def)

lemma link_od_wf: "od_wf link_od"
  by (simp add: od_wf_def od_sorted_def link_od_def od_indices_def sub_wf_def sample_sub_def)

lemma sdo_server_memory_safe_witness:
  "\<exists>s'. CO_SDOserver_process (sdo_receive (CO_SDOserver_init sample_run
      \<lparr>x1031_node_id = 5, x1031_trans_type = 0, x1031_allow_timeout_ms = 100\<rparr> NULL link_od)
      (blank_msg\<lparr>msg_data := [0x03, 0xFF, 0xFF, 0xFF, 7, 7, 7, 7]\<rparr>)) 3 = Some s'"
proof -
  let ?i = "CO_SDOserver_init sample_run
      \<lparr>x1031_node_id = 5, x1031_trans_type = 0, x1031_allow_timeout_ms = 100\<rparr> NULL link_od"
  have "safe_message ?i (msg_data (blank_msg\<lparr>msg_data := [0x03, 0xFF, 0xFF, 0xFF, 7, 7, 7, 7]\<rparr>))"
    by (simp add: safe_message_def asks_transfer_def CO_getUint16_def mem_simps be16_def CO_SDOserver_init_def
        sdo_effects link_od_def od_indices_def cs_defs)
  then have r: "server_reachable ?i (sdo_receive ?i (blank_msg\<lparr>msg_data := [0x03, 0xFF, 0xFF, 0xFF, 7, 7, 7, 7]\<rparr>))"
    by (intro server_reachable.receive server_reachable.start)
  show ?thesis
    using sdo_server_memory_safe [OF link_od_wf _ _ r] by (auto simp: sample_run_def blank_msg_def)
qed

end
