(* ===== verification/Co_Emcy.thy ===== *)
theory Co_Emcy
  imports Co_Od
begin

section \<open>The emergency object\<close>

text \<open>
  This theory models \<open>common/upgrade/loader/libs/canopen/CO_EMCY.h\<close> and \<open>CO_EMCY.c\<close>: the
  error code, the error register, the emergency frame that mirrors them, and the list of the
  errors seen so far. The unions are laid out as a C compiler without packing lays them out:
  in \<open>error_code_t\<close> the standard part is the low half word and the manufacturer part the high
  one, in \<open>error_reg_t\<close> the standard register is byte 0 and the manufacturer register bytes 2
  and 3, in \<open>emcy_data_t\<close> the standard code is at 0, the standard register at 2, the
  manufacturer code at 4 and the manufacturer register at 6.
\<close>

subsection \<open>Fields of the unions\<close>

definition half_lo :: "u32 \<Rightarrow> u16" where "half_lo w = ucast w"
definition half_hi :: "u32 \<Rightarrow> u16" where "half_hi w = ucast (drop_bit 16 w)"
definition reg_std :: "u32 \<Rightarrow> u8" where "reg_std w = ucast w"

definition set_reg_std :: "u8 \<Rightarrow> u32 \<Rightarrow> u32" where
  "set_reg_std b w = (w AND NOT (mask 8)) OR ucast b"

definition set_half_hi :: "u16 \<Rightarrow> u32 \<Rightarrow> u32" where
  "set_half_hi h w = (w AND mask 16) OR push_bit 16 (ucast h)"

lemma half_fields:
  "reg_std (set_reg_std b w) = b" "half_hi (set_reg_std b w) = half_hi w"
  "half_hi (set_half_hi h w) = h" "reg_std (set_half_hi h w) = reg_std w"
  by (rule bit_word_eqI,
      auto simp: half_hi_def reg_std_def set_reg_std_def set_half_hi_def
        bit_simps
        dest: bit_imp_le_length)+

subsection \<open>The object\<close>

definition ERR_HISTORY_SIZE :: u8 where "ERR_HISTORY_SIZE = 8"

record CO_EMCY =
  em_data :: bytes
  em_code :: u32
  em_reg :: u32
  em_error_no :: u8
  em_list :: "u32 list"

definition CO_EMCY_init :: "CO_EMCY \<Rightarrow> CO_EMCY" where
  "CO_EMCY_init em = em\<lparr>em_data := replicate 8 0, em_code := 0, em_reg := 0\<rparr>"

text \<open>The loop that shifts the records to the right, from index \<open>n\<close> down to 1. Its counter
  is an \<open>int8_t\<close>, so a count above 127 is negative and shifts nothing.\<close>

fun emcy_shift :: "u32 list \<Rightarrow> nat \<Rightarrow> u32 list option" where
  "emcy_shift l 0 = Some l"
| "emcy_shift l (Suc n) = do { x \<leftarrow> mem_get l n; l \<leftarrow> mem_set l (Suc n) x; emcy_shift l n }"

definition CO_EMCY_set_error_code :: "u32 \<Rightarrow> CO_EMCY \<Rightarrow> CO_EMCY option" where
  "CO_EMCY_set_error_code code em =
     do { l \<leftarrow> emcy_shift (em_list em) (nat (sint (em_error_no em)));
          let no = (if em_error_no em \<ge> ERR_HISTORY_SIZE then ERR_HISTORY_SIZE else em_error_no em + 1);
          l \<leftarrow> mem_set l 0 code;
          d \<leftarrow> CO_setUint16 (em_data em) 0 (half_lo code);
          d \<leftarrow> CO_setUint16 d 4 (half_hi code);
          Some (em\<lparr>em_list := l, em_error_no := no, em_code := code, em_data := d\<rparr>) }"

text \<open>The register operations copy the register into the frame.\<close>

definition show_manu :: "CO_EMCY \<Rightarrow> CO_EMCY option" where
  "show_manu em =
     do { d \<leftarrow> CO_setUint16 (em_data em) 6 (half_hi (em_reg em)); Some (em\<lparr>em_data := d\<rparr>) }"

definition show_std :: "CO_EMCY \<Rightarrow> CO_EMCY option" where
  "show_std em = do { d \<leftarrow> mem_set (em_data em) 2 (reg_std (em_reg em)); Some (em\<lparr>em_data := d\<rparr>) }"

definition CO_EMCY_set_bit_of_error_register :: "u32 \<Rightarrow> CO_EMCY \<Rightarrow> CO_EMCY option" where
  "CO_EMCY_set_bit_of_error_register b em =
     do { em \<leftarrow> show_manu (em\<lparr>em_reg := em_reg em OR b\<rparr>); show_std em }"

definition CO_EMCY_set_bit_of_std_error_register :: "u8 \<Rightarrow> CO_EMCY \<Rightarrow> CO_EMCY option" where
  "CO_EMCY_set_bit_of_std_error_register b em =
     show_std (em\<lparr>em_reg := set_reg_std (reg_std (em_reg em) OR b) (em_reg em)\<rparr>)"

definition CO_EMCY_set_bit_of_manu_error_register :: "u16 \<Rightarrow> CO_EMCY \<Rightarrow> CO_EMCY option" where
  "CO_EMCY_set_bit_of_manu_error_register b em =
     show_manu (em\<lparr>em_reg := set_half_hi (half_hi (em_reg em) OR b) (em_reg em)\<rparr>)"

definition CO_EMCY_reset_bit_of_error_register :: "u32 \<Rightarrow> CO_EMCY \<Rightarrow> CO_EMCY option" where
  "CO_EMCY_reset_bit_of_error_register b em =
     do { em \<leftarrow> show_manu (em\<lparr>em_reg := em_reg em AND NOT b\<rparr>); show_std em }"

definition CO_EMCY_reset_bit_of_std_error_register :: "u8 \<Rightarrow> CO_EMCY \<Rightarrow> CO_EMCY option" where
  "CO_EMCY_reset_bit_of_std_error_register b em =
     show_std (em\<lparr>em_reg := set_reg_std (reg_std (em_reg em) AND NOT b) (em_reg em)\<rparr>)"

definition CO_EMCY_reset_bit_of_manu_error_register :: "u16 \<Rightarrow> CO_EMCY \<Rightarrow> CO_EMCY option" where
  "CO_EMCY_reset_bit_of_manu_error_register b em =
     show_manu (em\<lparr>em_reg := set_half_hi (half_hi (em_reg em) AND NOT b) (em_reg em)\<rparr>)"

definition CO_EMCY_get_last_error_code :: "CO_EMCY \<Rightarrow> u32" where
  "CO_EMCY_get_last_error_code em = em_code em"

definition CO_EMCY_get_last_error_reg :: "CO_EMCY \<Rightarrow> u32" where
  "CO_EMCY_get_last_error_reg em = em_reg em"

definition CO_EMCY_get_last_std_error_code :: "CO_EMCY \<Rightarrow> u16 option" where
  "CO_EMCY_get_last_std_error_code em = CO_getUint16 (em_data em) 0"

definition CO_EMCY_get_last_manu_error_code :: "CO_EMCY \<Rightarrow> u16 option" where
  "CO_EMCY_get_last_manu_error_code em = CO_getUint16 (em_data em) 4"

definition CO_EMCY_get_last_std_error_reg :: "CO_EMCY \<Rightarrow> u8 option" where
  "CO_EMCY_get_last_std_error_reg em = mem_get (em_data em) 2"

definition CO_EMCY_get_last_manu_error_reg :: "CO_EMCY \<Rightarrow> u16 option" where
  "CO_EMCY_get_last_manu_error_reg em = CO_getUint16 (em_data em) 6"

subsection \<open>What the frame and the list say\<close>

text \<open>The frame shows the last code and the register; the list has its nine places and a count
  of at most eight.\<close>

definition emcy_ok :: "CO_EMCY \<Rightarrow> bool" where
  "emcy_ok em \<longleftrightarrow> length (em_data em) = 8 \<and> length (em_list em) = 9 \<and> unat (em_error_no em) \<le> 8
     \<and> CO_EMCY_get_last_std_error_code em = Some (half_lo (em_code em))
     \<and> CO_EMCY_get_last_manu_error_code em = Some (half_hi (em_code em))
     \<and> CO_EMCY_get_last_std_error_reg em = Some (reg_std (em_reg em))
     \<and> CO_EMCY_get_last_manu_error_reg em = Some (half_hi (em_reg em))"

definition emcy_history :: "CO_EMCY \<Rightarrow> u32 list" where
  "emcy_history em = take (unat (em_error_no em)) (em_list em)"

lemma emcy_shift_Some:
  "n < length l \<Longrightarrow> emcy_shift l n = Some (take 1 l @ take n l @ drop (Suc n) l)"
proof (induction n arbitrary: l)
  case 0
  then show ?case by (cases l) simp_all
next
  case (Suc n)
  let ?l = "l[Suc n := l ! n]"
  have "emcy_shift l (Suc n) = emcy_shift ?l n" using Suc.prems by (simp add: mem_simps)
  also have "\<dots> = Some (take 1 ?l @ take n ?l @ drop (Suc n) ?l)" using Suc by simp
  also have "take 1 ?l @ take n ?l @ drop (Suc n) ?l = take 1 l @ take (Suc n) l @ drop (Suc (Suc n)) l"
  proof -
    have "drop (Suc n) ?l = l ! n # drop (Suc (Suc n)) l"
      using Suc.prems by (simp add: drop_update_swap Cons_nth_drop_Suc [symmetric] flip: upd_conv_take_nth_drop)
    then show ?thesis using Suc.prems by (simp add: take_Suc_conv_app_nth)
  qed
  finally show ?case .
qed

lemma set_code_effect:
  assumes "emcy_ok em"
  shows "\<exists>em'. CO_EMCY_set_error_code c em = Some em' \<and> emcy_ok em' \<and> em_code em' = c
     \<and> em_reg em' = em_reg em \<and> emcy_history em' = take 8 (c # emcy_history em)"
proof -
  let ?n = "unat (em_error_no em)" and ?l = "em_list em"
  have r: "length (em_data em) = 8" "length ?l = 9" "?n \<le> 8" using assms by (simp_all add: emcy_ok_def)
  have "sint (em_error_no em) = int ?n"
    using r(3) by (intro sint_small) simp
  then have n: "nat (sint (em_error_no em)) = ?n" by simp
  have sh: "emcy_shift ?l ?n = Some (take 1 ?l @ take ?n ?l @ drop (Suc ?n) ?l)"
    using r by (intro emcy_shift_Some) simp
  have no: "unat (if em_error_no em \<ge> ERR_HISTORY_SIZE then ERR_HISTORY_SIZE else em_error_no em + 1)
      = min 8 (Suc ?n)"
    using r(3) unat_inc [of "em_error_no em" 8]
    by (auto simp: ERR_HISTORY_SIZE_def word_le_nat_alt word_less_nat_alt not_le)
  have put: "(take 1 ?l @ take ?n ?l @ drop (Suc ?n) ?l)[0 := c] = c # take ?n ?l @ drop (Suc ?n) ?l"
    using r by (cases ?l) simp_all
  show ?thesis
    using r assms no
    by (simp add: CO_EMCY_set_error_code_def n sh put [unfolded One_nat_def] mem_simps CO_setUint16_def emcy_ok_def
        emcy_history_def CO_EMCY_get_last_std_error_code_def CO_EMCY_get_last_manu_error_code_def
        CO_EMCY_get_last_std_error_reg_def CO_EMCY_get_last_manu_error_reg_def CO_getUint16_def
        layout_simps Let_def min_def flip: numeral_2_eq_2)
qed

text \<open>The operations on the registers change the register by a function and keep the list.\<close>

datatype emcy_op =
  Set_code u32 | Set_reg u32 | Set_std u8 | Set_manu u16 | Reset_reg u32 | Reset_std u8 | Reset_manu u16

fun emcy_step :: "emcy_op \<Rightarrow> CO_EMCY \<Rightarrow> CO_EMCY option" where
  "emcy_step (Set_code c) em = CO_EMCY_set_error_code c em"
| "emcy_step (Set_reg b) em = CO_EMCY_set_bit_of_error_register b em"
| "emcy_step (Set_std b) em = CO_EMCY_set_bit_of_std_error_register b em"
| "emcy_step (Set_manu b) em = CO_EMCY_set_bit_of_manu_error_register b em"
| "emcy_step (Reset_reg b) em = CO_EMCY_reset_bit_of_error_register b em"
| "emcy_step (Reset_std b) em = CO_EMCY_reset_bit_of_std_error_register b em"
| "emcy_step (Reset_manu b) em = CO_EMCY_reset_bit_of_manu_error_register b em"

fun emcy_run :: "emcy_op list \<Rightarrow> CO_EMCY \<Rightarrow> CO_EMCY option" where
  "emcy_run [] em = Some em"
| "emcy_run (x # xs) em = do { em \<leftarrow> emcy_step x em; emcy_run xs em }"

fun reg_effect :: "emcy_op \<Rightarrow> u32 \<Rightarrow> u32" where
  "reg_effect (Set_reg b) w = w OR b"
| "reg_effect (Set_std b) w = w OR ucast b"
| "reg_effect (Set_manu b) w = w OR push_bit 16 (ucast b)"
| "reg_effect (Reset_reg b) w = w AND NOT b"
| "reg_effect (Reset_std b) w = w AND NOT (ucast b)"
| "reg_effect (Reset_manu b) w = w AND NOT (push_bit 16 (ucast b))"
| "reg_effect (Set_code c) w = w"

fun op_codes :: "emcy_op \<Rightarrow> u32 list" where
  "op_codes (Set_code c) = [c]" | "op_codes _ = []"

lemma reg_effects:
  "set_reg_std (reg_std w OR b) w = w OR ucast b"
  "set_reg_std (reg_std w AND NOT b) w = w AND NOT (ucast b)"
  "set_half_hi (half_hi w OR h) w = w OR push_bit 16 (ucast h)"
  "set_half_hi (half_hi w AND NOT h) w = w AND NOT (push_bit 16 (ucast h))"
  by (rule bit_word_eqI,
      auto simp: half_hi_def reg_std_def set_reg_std_def set_half_hi_def bit_simps
        dest: bit_imp_le_length)+

lemmas emcy_defs = CO_EMCY_set_bit_of_error_register_def CO_EMCY_set_bit_of_std_error_register_def
  CO_EMCY_set_bit_of_manu_error_register_def CO_EMCY_reset_bit_of_error_register_def
  CO_EMCY_reset_bit_of_std_error_register_def CO_EMCY_reset_bit_of_manu_error_register_def

lemma show_effects:
  assumes "length (em_data em) = 8"
  shows "show_manu em = Some (em\<lparr>em_data := (em_data em)
           [6 := byte_lo (half_hi (em_reg em)), 7 := byte_hi (half_hi (em_reg em))]\<rparr>)"
    and "show_std em = Some (em\<lparr>em_data := (em_data em)[2 := reg_std (em_reg em)]\<rparr>)"
  using assms by (simp_all add: show_manu_def show_std_def CO_setUint16_def mem_simps)

lemmas emcy_views = emcy_ok_def emcy_history_def CO_EMCY_get_last_std_error_code_def
  CO_EMCY_get_last_manu_error_code_def CO_EMCY_get_last_std_error_reg_def
  CO_EMCY_get_last_manu_error_reg_def CO_getUint16_def

lemma emcy_step_ok:
  assumes "emcy_ok em"
  shows "\<exists>em'. emcy_step x em = Some em' \<and> emcy_ok em' \<and> em_reg em' = reg_effect x (em_reg em)
     \<and> emcy_history em' = take 8 (op_codes x @ emcy_history em)
     \<and> em_code em' = last (em_code em # op_codes x)"
proof -
  have len: "length (em_data em) = 8" using assms by (simp add: emcy_ok_def)
  have views: "emcy_ok (em\<lparr>em_reg := w, em_data := (em_data em)[6 := byte_lo (half_hi w),
      7 := byte_hi (half_hi w), 2 := reg_std w]\<rparr>)"
    "emcy_ok (em\<lparr>em_reg := set_half_hi h (em_reg em), em_data := (em_data em)
      [6 := byte_lo h, 7 := byte_hi h]\<rparr>)"
    "emcy_ok (em\<lparr>em_reg := set_reg_std b (em_reg em), em_data := (em_data em)[2 := b]\<rparr>)" for w h b
    using assms len by (simp_all add: emcy_views mem_simps layout_simps half_fields)
  have hist: "emcy_history (em\<lparr>em_reg := w, em_data := d\<rparr>) = emcy_history em"
    "take 8 (emcy_history em) = emcy_history em" for w d
    using assms by (simp_all add: emcy_history_def emcy_ok_def min_absorb2)
  show ?thesis
  proof (cases x)
    case (Set_code c)
    then show ?thesis using set_code_effect [OF assms, of c] by auto
  qed (simp_all add: emcy_defs show_effects len views hist half_fields reg_effects [symmetric])
qed

lemma take_newest:
  "take (8 - k) (c # take 7 h) = take (8 - k) (c # h)" "take (8 - k) (take 8 h) = take (8 - k) h"
  by (cases "8 - k"; simp add: min_def)+

lemma emcy_run_ok:
  assumes "emcy_ok em"
  shows "\<exists>em'. emcy_run xs em = Some em' \<and> emcy_ok em' \<and> em_reg em' = fold reg_effect xs (em_reg em)
     \<and> emcy_history em' = take 8 (rev (concat (map op_codes xs)) @ emcy_history em)
     \<and> em_code em' = last (em_code em # concat (map op_codes xs))"
  using assms
proof (induction xs arbitrary: em)
  case Nil
  then show ?case by (simp add: emcy_history_def) (simp add: emcy_ok_def)
next
  case (Cons x xs)
  obtain em' where s: "emcy_step x em = Some em'" "emcy_ok em'" "em_reg em' = reg_effect x (em_reg em)"
      "emcy_history em' = take 8 (op_codes x @ emcy_history em)"
      "em_code em' = last (em_code em # op_codes x)"
    using emcy_step_ok [OF Cons.prems, of x] by blast
  obtain em'' where t: "emcy_run xs em' = Some em''" "emcy_ok em''"
      "em_reg em'' = fold reg_effect xs (em_reg em')"
      "emcy_history em'' = take 8 (rev (concat (map op_codes xs)) @ emcy_history em')"
      "em_code em'' = last (em_code em' # concat (map op_codes xs))"
    using Cons.IH [OF s(2)] by blast
  have run: "emcy_run (x # xs) em = Some em''" using s(1) t(1) by simp
  have "op_codes x = [] \<or> (\<exists>c. op_codes x = [c])" by (cases x) simp_all
  then show ?case
    using s t(2-5) run by (elim disjE exE) (simp_all add: take_newest)
qed

text \<open>C23:
  The emergency object reports what happened. After its initialisation with an empty error list and
  any sequence of its operations, the frame to be sent shows the last error code and the error
  register, the register has exactly the bits that were set and not reset since, and the list holds
  the last eight codes, the newest first.\<close>

theorem emcy_reports:
  assumes "length (em_list em) = 9" "em_error_no em = 0"
  shows "\<exists>em'. emcy_run xs (CO_EMCY_init em) = Some em'
     \<and> em_reg em' = fold reg_effect xs 0 \<and> em_code em' = last (0 # concat (map op_codes xs))
     \<and> take (unat (em_error_no em')) (em_list em') = take 8 (rev (concat (map op_codes xs)))
     \<and> CO_EMCY_get_last_std_error_code em' = Some (half_lo (em_code em'))
     \<and> CO_EMCY_get_last_manu_error_code em' = Some (half_hi (em_code em'))
     \<and> CO_EMCY_get_last_std_error_reg em' = Some (reg_std (em_reg em'))
     \<and> CO_EMCY_get_last_manu_error_reg em' = Some (half_hi (em_reg em'))"
proof -
  have "emcy_ok (CO_EMCY_init em)"
    using assms by (simp add: CO_EMCY_init_def emcy_views mem_simps be16_def half_lo_def half_hi_def
        reg_std_def)
  from emcy_run_ok [OF this, of xs] show ?thesis
    using assms by (auto simp: CO_EMCY_init_def emcy_history_def emcy_ok_def)
qed

lemma emcy_reports_witness:
  "\<exists>em'. emcy_run [Set_code 0x00011000, Set_std 4, Set_code 0x00022000, Reset_std 4]
      (CO_EMCY_init \<lparr>em_data = [], em_code = 7, em_reg = 7, em_error_no = 0, em_list = replicate 9 0\<rparr>)
      = Some em' \<and> take (unat (em_error_no em')) (em_list em') = [0x00022000, 0x00011000]"
  using emcy_reports [of "\<lparr>em_data = [], em_code = 7, em_reg = 7, em_error_no = 0, em_list = replicate 9 0\<rparr>"
      "[Set_code 0x00011000, Set_std 4, Set_code 0x00022000, Reset_std 4]"]
  by auto

text \<open>The initialisation leaves the count of the list as it finds it: a count that memory happens to
  hold between 9 and 127 makes the next error write behind the list.\<close>

theorem emcy_init_keeps_count:
  assumes "length (em_list em) = 9" "9 \<le> unat (em_error_no em)" "unat (em_error_no em) < 128"
  shows "CO_EMCY_set_error_code c (CO_EMCY_init em) = None"
proof -
  have "sint (em_error_no em) = int (unat (em_error_no em))" using assms(3) by (intro sint_small) simp
  moreover have "emcy_shift l k = None" if "9 \<le> k" "length l = 9" for l k
    using that by (cases k) (simp_all add: mem_get_def mem_set_def)
  ultimately show ?thesis
    using assms by (simp add: CO_EMCY_set_error_code_def CO_EMCY_init_def)
qed

end
