(* ===== verification/Co_Pdo.thy ===== *)
theory Co_Pdo
  imports Co_Sdo_Server
begin

section \<open>Process data objects\<close>

text \<open>
  This theory models \<open>common/upgrade/loader/libs/canopen/CO_PDO.c\<close>/\<open>CO_PDO.h\<close> (the mapping
  of dictionary objects into a message) and \<open>CO_TPDO.c\<close>/\<open>CO_TPDO.h\<close> (transmission) in the
  configuration of \<open>CO_config.h\<close>: neither the event timer nor the inhibit timer is compiled in.
  \<open>CO_detect_error\<close> is an endless loop in the configured debug mode; a run that enters it has no
  result, like one that reads or writes outside an object.
\<close>

subsection \<open>Mapping\<close>

record pdo_map_object =
  map_index :: u16
  map_sub_index :: u8
  map_len :: u8

record pdo_map_para =
  map_number :: u8
  map_objects :: "pdo_map_object list"

text \<open>A pointer of \<open>p_mapping_data\<close>: not set yet, to the byte \<open>data_0\<close>, into
  \<open>mapping_fail_data\<close>, or to byte \<open>k\<close> of sub object \<open>j\<close> of object \<open>i\<close>.\<close>

datatype pdo_ptr = Pdo_unset | Pdo_zero | Pdo_fail nat | Pdo_od nat nat nat

record CO_PDO =
  pd_msg :: CO_CAN_Msg
  p_mapping_data :: "pdo_ptr list"
  mapping_parameter :: pdo_map_para

definition MAX_MAPPED_OBJECTS :: u8 where "MAX_MAPPED_OBJECTS = 8"

definition mapping_fail_data :: bytes where
  "mapping_fail_data = [0x6D, 0x61, 0x70, 0x5F, 0x66, 0x61, 0x69, 0x6C]"

definition pdo_set_valid :: "u32 \<Rightarrow> CO_PDO \<Rightarrow> CO_PDO" where
  "pdo_set_valid v p = p\<lparr>pd_msg := (pd_msg p)\<lparr>msg_id := set_cob_valid (msg_id (pd_msg p)) v\<rparr>\<rparr>"

definition CO_PDO_enable :: "CO_PDO \<Rightarrow> CO_PDO" where "CO_PDO_enable p = pdo_set_valid 0 p"
definition CO_PDO_disable :: "CO_PDO \<Rightarrow> CO_PDO" where "CO_PDO_disable p = pdo_set_valid 1 p"

definition CO_PDO_set_mapping_parameter :: "pdo_map_para \<Rightarrow> CO_PDO \<Rightarrow> CO_PDO option" where
  "CO_PDO_set_mapping_parameter para p =
     (if map_number para \<ge> MAX_MAPPED_OBJECTS then None
      else do {
        objs \<leftarrow> mem_read (map_objects para) 0 (unat (map_number para));
        objs \<leftarrow> mem_write (map_objects (mapping_parameter p)) 0 objs;
        Some (p\<lparr>mapping_parameter := \<lparr>map_number = map_number para, map_objects = objs\<rparr>\<rparr>) })"

definition CO_PDO_mapping_fail_handle :: "CO_PDO \<Rightarrow> CO_PDO" where
  "CO_PDO_mapping_fail_handle p = p\<lparr>p_mapping_data := map Pdo_fail [0..<8]\<rparr>"

text \<open>The pointers to the bytes of one object: \<open>n\<close> bytes are left, the next one is byte \<open>k\<close>.
  The result says whether the mapping goes on.\<close>

fun pdo_map_bytes ::
  "'w CO_OD \<Rightarrow> nat \<times> nat \<Rightarrow> nat \<Rightarrow> nat \<Rightarrow> u8 \<Rightarrow> CO_PDO \<Rightarrow> (bool \<times> u8 \<times> CO_PDO) option" where
  "pdo_map_bytes od t k 0 data_index p = Some (True, data_index, p)"
| "pdo_map_bytes od t k (Suc n) data_index p =
     do { sub \<leftarrow> od_get (fst t) (snd t) od;
          ps \<leftarrow> mem_set (p_mapping_data p) (unat data_index)
                 (if k < unat (so_len sub) then Pdo_od (fst t) (snd t) k else Pdo_zero);
          let p = p\<lparr>p_mapping_data := ps\<rparr>;
          let data_index = data_index + 1;
          if 8 < data_index then Some (False, data_index, CO_PDO_mapping_fail_handle p)
          else pdo_map_bytes od t (Suc k) n data_index p }"

text \<open>The loop over the mapped objects: \<open>n\<close> objects are left, the next one is object \<open>k\<close>.\<close>

fun pdo_map_loop :: "'w CO_OD \<Rightarrow> nat \<Rightarrow> nat \<Rightarrow> u8 \<Rightarrow> CO_PDO \<Rightarrow> CO_PDO option" where
  "pdo_map_loop od k 0 data_index p = Some p"
| "pdo_map_loop od k (Suc n) data_index p =
     do { m \<leftarrow> mem_get (map_objects (mapping_parameter p)) k;
          no \<leftarrow> CO_OD_get_no od (map_index m);
          if no = OD_UNSUPPORT_ENTRY then Some (CO_PDO_mapping_fail_handle p)
          else do {
            t \<leftarrow> CO_OD_get_sub_object_pointer od no (map_sub_index m);
            case t of
              NULL \<Rightarrow> Some (CO_PDO_mapping_fail_handle p)
            | Ref t \<Rightarrow>
                do { (go, data_index, p) \<leftarrow> pdo_map_bytes od t 0 (unat (map_len m)) data_index p;
                     if go then pdo_map_loop od (Suc k) n data_index (pdo_set_valid 0 p)
                     else Some p } } }"

definition CO_PDO_mapping :: "'w CO_OD \<Rightarrow> CO_PDO \<Rightarrow> CO_PDO option" where
  "CO_PDO_mapping od p =
     pdo_map_loop od 0 (unat (map_number (mapping_parameter p))) 0 (pdo_set_valid 1 p)"

definition CO_PDO_init :: "pdo_map_para \<Rightarrow> 'w CO_OD \<Rightarrow> CO_PDO \<Rightarrow> CO_PDO option" where
  "CO_PDO_init para od p = do { p \<leftarrow> CO_PDO_set_mapping_parameter para p; CO_PDO_mapping od p }"

subsection \<open>Transmission\<close>

definition CO_TPDO_TRANSM_TYPE_SYNC_ACYCLIC :: u16 where "CO_TPDO_TRANSM_TYPE_SYNC_ACYCLIC = 0"
definition CO_TPDO_TRANSM_TYPE_EVENT_LO :: u16 where "CO_TPDO_TRANSM_TYPE_EVENT_LO = 0xFFFF"
definition CO_TPDO_build_data_manually :: u8 where "CO_TPDO_build_data_manually = 2"

record tpdo_comm_para =
  tc_id :: u32
  transmission_type :: u16
  max_inhibit_time_ms :: u16
  max_event_time_ms :: u16
  sync_start_value :: u8
  tc_sync_mask :: u32
  build_data_option :: u8

record 'w CO_TPDO =
  tp_base :: CO_PDO
  tp_sync :: "CO_SYNC ptr"
  comm_parameter :: tpdo_comm_para
  event_timer_ms :: u16
  inhibit_timer_ms :: u16
  send_request :: bool
  build_data_manually :: "(bytes \<Rightarrow> 'w \<Rightarrow> bytes \<times> 'w) ptr"

definition CO_TPDO_init ::
  "CO_SYNC ptr \<Rightarrow> pdo_map_para \<Rightarrow> 'w CO_OD \<Rightarrow> tpdo_comm_para \<Rightarrow>
     (bytes \<Rightarrow> 'w \<Rightarrow> bytes \<times> 'w) ptr \<Rightarrow> 'w CO_TPDO \<Rightarrow> 'w CO_TPDO option" where
  "CO_TPDO_init sync para od comm build t =
     do { base \<leftarrow> CO_PDO_init para od (tp_base t);
          let base = base\<lparr>pd_msg := (pd_msg base)
                \<lparr>msg_id := tc_id comm, msg_len := 8, msg_new := False\<rparr>\<rparr>;
          let t = t\<lparr>tp_base := base, comm_parameter := comm, tp_sync := sync,
                    event_timer_ms := max_event_time_ms comm,
                    inhibit_timer_ms := max_inhibit_time_ms comm,
                    send_request := False, build_data_manually := build\<rparr>;
          if build_data_option comm = CO_TPDO_build_data_manually \<and> is_null build then None
          else Some t }"

definition read_mapped :: "'w CO_OD \<Rightarrow> pdo_ptr \<Rightarrow> u8 option" where
  "read_mapped od q = (case q of
     Pdo_unset \<Rightarrow> None
   | Pdo_zero \<Rightarrow> Some 0
   | Pdo_fail k \<Rightarrow> mem_get mapping_fail_data k
   | Pdo_od i j k \<Rightarrow> do { sub \<leftarrow> od_get i j od; mem_get (so_data sub) k })"

text \<open>The loop that copies byte \<open>k\<close> and the \<open>n - 1\<close> bytes behind it.\<close>

fun tpdo_copy :: "'w CO_OD \<Rightarrow> pdo_ptr list \<Rightarrow> nat \<Rightarrow> nat \<Rightarrow> bytes \<Rightarrow> bytes option" where
  "tpdo_copy od ps k 0 d = Some d"
| "tpdo_copy od ps k (Suc n) d =
     do { q \<leftarrow> mem_get ps k; b \<leftarrow> read_mapped od q; d \<leftarrow> mem_set d k b; tpdo_copy od ps (Suc k) n d }"

definition CO_TPDO_send ::
  "'w CO_OD \<Rightarrow> 'w CO_TPDO \<Rightarrow> 'w \<Rightarrow> ('w CO_TPDO \<times> CO_CAN_Msg list \<times> 'w) option" where
  "CO_TPDO_send od t w =
     do { let msg = pd_msg (tp_base t);
          (d, w) \<leftarrow>
            (if build_data_option (comm_parameter t) = CO_TPDO_build_data_manually then
               (case build_data_manually t of NULL \<Rightarrow> None | Ref f \<Rightarrow> Some (f (msg_data msg) w))
             else do { d \<leftarrow> tpdo_copy od (p_mapping_data (tp_base t)) 0 8 (msg_data msg); Some (d, w) });
          let msg = msg\<lparr>msg_data := d\<rparr>;
          Some (t\<lparr>tp_base := (tp_base t)\<lparr>pd_msg := msg\<rparr>, send_request := False\<rparr>, [msg], w) }"

definition CO_TPDO_process ::
  "'w CO_OD \<Rightarrow> 'w CO_TPDO \<Rightarrow> u16 \<Rightarrow> bool \<Rightarrow> 'w \<Rightarrow> ('w CO_TPDO \<times> CO_CAN_Msg list \<times> 'w) option" where
  "CO_TPDO_process od t time_difference_ms sync_was w =
     (let ty = transmission_type (comm_parameter t); idle = Some (t, [], w) in
      if cob_valid (msg_id (pd_msg (tp_base t))) = 0 then
        if ty = CO_TPDO_TRANSM_TYPE_EVENT_LO then
          (if send_request t then CO_TPDO_send od t w else idle)
        else if sync_was then
          (case tp_sync t of
             NULL \<Rightarrow> None
           | Ref y \<Rightarrow>
               (if sync_counter y = ty
                   \<and> CO_SYNC_is_match_sync_mask_reg y (tc_sync_mask (comm_parameter t))
                then CO_TPDO_send od t w
                else if ty = CO_TPDO_TRANSM_TYPE_SYNC_ACYCLIC \<and> send_request t
                then CO_TPDO_send od t w
                else idle))
        else idle
      else idle)"

definition CO_TPDO_send_request :: "'w CO_TPDO \<Rightarrow> 'w CO_TPDO" where
  "CO_TPDO_send_request t = t\<lparr>send_request := True\<rparr>"

definition CO_TPDO_set_build_data_manually_interface ::
  "(bytes \<Rightarrow> 'w \<Rightarrow> bytes \<times> 'w) ptr \<Rightarrow> 'w CO_TPDO \<Rightarrow> 'w CO_TPDO" where
  "CO_TPDO_set_build_data_manually_interface f t = t\<lparr>build_data_manually := f\<rparr>"

definition tpdo_build_data_impl_default :: "bytes \<Rightarrow> bytes option" where
  "tpdo_build_data_impl_default buf =
     do { b \<leftarrow> mem_set buf 7 0; b \<leftarrow> mem_set b 6 0; b \<leftarrow> mem_set b 5 0; b \<leftarrow> mem_set b 4 0;
          b \<leftarrow> mem_set b 3 0; b \<leftarrow> mem_set b 2 0; b \<leftarrow> mem_set b 1 0; mem_set b 0 0 }"

text \<open>The setters take the object out of service while they change it.\<close>

definition tpdo_set_valid :: "u32 \<Rightarrow> 'w CO_TPDO \<Rightarrow> 'w CO_TPDO" where
  "tpdo_set_valid v t = t\<lparr>tp_base := pdo_set_valid v (tp_base t)\<rparr>"

definition tpdo_valid :: "'w CO_TPDO \<Rightarrow> u32" where
  "tpdo_valid t = cob_valid (msg_id (pd_msg (tp_base t)))"

definition CO_TPDO_set_node_id :: "u8 \<Rightarrow> 'w CO_TPDO \<Rightarrow> 'w CO_TPDO" where
  "CO_TPDO_set_node_id node t =
     (let v = tpdo_valid t; t = tpdo_set_valid 1 t; msg = pd_msg (tp_base t);
          t = t\<lparr>tp_base := (tp_base t)\<lparr>pd_msg := msg\<lparr>msg_id := set_node_id (msg_id msg) (ucast node)\<rparr>\<rparr>\<rparr>
      in tpdo_set_valid v t)"

definition CO_TPDO_set_transmission_type :: "u16 \<Rightarrow> 'w CO_TPDO \<Rightarrow> 'w CO_TPDO" where
  "CO_TPDO_set_transmission_type ty t =
     (let v = tpdo_valid t; t = tpdo_set_valid 1 t;
          t = t\<lparr>comm_parameter := (comm_parameter t)\<lparr>transmission_type := ty\<rparr>\<rparr>
      in tpdo_set_valid v t)"

definition CO_TPDO_set_sync_mask_reg :: "u32 \<Rightarrow> 'w CO_TPDO \<Rightarrow> 'w CO_TPDO" where
  "CO_TPDO_set_sync_mask_reg m t =
     (let v = tpdo_valid t; t = tpdo_set_valid 1 t;
          t = t\<lparr>comm_parameter := (comm_parameter t)\<lparr>tc_sync_mask := m\<rparr>\<rparr>
      in tpdo_set_valid v t)"

subsection \<open>What a mapped message carries\<close>

text \<open>The sub object a mapping entry names, and the pointers and bytes it contributes: byte \<open>k\<close> of
  the object's data, or zero beyond the object's length.\<close>

definition entry_sub :: "'w CO_OD \<Rightarrow> pdo_map_object \<Rightarrow> nat \<times> nat \<Rightarrow> 'w CO_Sub_Object \<Rightarrow> bool" where
  "entry_sub od e t sub \<longleftrightarrow> od_target od (map_index e) (map_sub_index e) (fst t) (snd t) sub
     \<and> unat (so_len sub) \<le> length (so_data sub)"

definition entry_ptrs :: "'w CO_Sub_Object \<Rightarrow> nat \<times> nat \<Rightarrow> nat \<Rightarrow> nat \<Rightarrow> pdo_ptr list" where
  "entry_ptrs sub t k n =
     map (\<lambda>k. if k < unat (so_len sub) then Pdo_od (fst t) (snd t) k else Pdo_zero) [k ..< k + n]"

definition entry_bytes :: "'w CO_Sub_Object \<Rightarrow> pdo_map_object \<Rightarrow> bytes" where
  "entry_bytes sub e = map (\<lambda>k. if k < unat (so_len sub) then so_data sub ! k else 0) [0 ..< unat (map_len e)]"

lemma length_entry_ptrs [simp]: "length (entry_ptrs sub t k n) = n"
  by (simp add: entry_ptrs_def)

lemma entry_ptrs_Suc:
  "entry_ptrs sub t k (Suc n) =
     (if k < unat (so_len sub) then Pdo_od (fst t) (snd t) k else Pdo_zero) # entry_ptrs sub t (Suc k) n"
proof -
  have "[k ..< k + Suc n] = k # [Suc k ..< Suc k + n]" by (simp add: upt_conv_Cons)
  then show ?thesis by (simp add: entry_ptrs_def)
qed

lemma pdo_map_bytes_fits:
  assumes "od_get (fst t) (snd t) od = Some sub" "unat d + n \<le> 8" "length (p_mapping_data p) = 8"
  shows "pdo_map_bytes od t k n d p = Some (True, d + of_nat n,
    p\<lparr>p_mapping_data := take (unat d) (p_mapping_data p) @ entry_ptrs sub t k n
        @ drop (unat d + n) (p_mapping_data p)\<rparr>)"
  using assms(2,3)
proof (induction n arbitrary: k d p)
  case 0
  then show ?case by (simp add: entry_ptrs_def)
next
  case (Suc n)
  let ?q = "if k < unat (so_len sub) then Pdo_od (fst t) (snd t) k else Pdo_zero"
  let ?p = "p\<lparr>p_mapping_data := (p_mapping_data p)[unat d := ?q]\<rparr>"
  have d: "unat d < 8" "unat (d + 1) = unat d + 1" "\<not> 8 < d + 1"
    using Suc.prems(1) unat_inc [of d 8] by (auto simp: word_less_nat_alt)
  have "pdo_map_bytes od t k (Suc n) d p = pdo_map_bytes od t (Suc k) n (d + 1) ?p"
    using assms(1) d Suc.prems(2) by (simp add: mem_simps)
  also have "\<dots> = Some (True, d + 1 + of_nat n,
      ?p\<lparr>p_mapping_data := take (unat d + 1) ((p_mapping_data p)[unat d := ?q])
        @ entry_ptrs sub t (Suc k) n @ drop (unat d + 1 + n) ((p_mapping_data p)[unat d := ?q])\<rparr>)"
    using Suc.prems d(2) by (subst Suc.IH) simp_all
  also have "take (unat d + 1) ((p_mapping_data p)[unat d := ?q]) = take (unat d) (p_mapping_data p) @ [?q]"
    using d(1) Suc.prems(2) by (simp add: take_Suc_conv_app_nth)
  finally show ?case
    by (simp add: entry_ptrs_Suc add.assoc)
qed

lemma pdo_map_bytes_overflows:
  assumes "od_get (fst t) (snd t) od = Some sub" "8 < unat d + n" "unat d \<le> 8"
    and "length (p_mapping_data p) = 8"
  shows "pdo_map_bytes od t k n d p = None"
  using assms(2-)
proof (induction n arbitrary: k d p)
  case (Suc n)
  show ?case
  proof (cases "unat d = 8")
    case True
    then show ?thesis using assms(1) Suc.prems by (simp add: mem_set_def)
  next
    case False
    then have d: "unat d < 8" "unat (d + 1) = unat d + 1" "\<not> 8 < d + 1"
      using Suc.prems unat_inc [of d 8] by (auto simp: word_less_nat_alt)
    then show ?thesis
      using assms(1) Suc.prems Suc.IH [of "d + 1"] by (simp add: mem_simps)
  qed
qed simp

text \<open>Each entry of a list names a sub object.\<close>

definition entries_ok ::
  "'w CO_OD \<Rightarrow> pdo_map_object list \<Rightarrow> ((nat \<times> nat) \<times> 'w CO_Sub_Object) list \<Rightarrow> bool" where
  "entries_ok od es ts \<longleftrightarrow> list_all2 (\<lambda>e (t, sub). entry_sub od e t sub) es ts"

definition pdo_total :: "pdo_map_object list \<Rightarrow> nat" where
  "pdo_total es = sum_list (map (unat \<circ> map_len) es)"

definition pdo_pointers ::
  "pdo_map_object list \<Rightarrow> ((nat \<times> nat) \<times> 'w CO_Sub_Object) list \<Rightarrow> pdo_ptr list" where
  "pdo_pointers es ts = concat (map2 (\<lambda>e (t, sub). entry_ptrs sub t 0 (unat (map_len e))) es ts)"

definition pdo_payload ::
  "pdo_map_object list \<Rightarrow> ((nat \<times> nat) \<times> 'w CO_Sub_Object) list \<Rightarrow> bytes" where
  "pdo_payload es ts = concat (map2 (\<lambda>e (t, sub). entry_bytes sub e) es ts)"

lemma entries_ok_Cons [simp]:
  "entries_ok od (e # es) ts \<longleftrightarrow>
     (\<exists>t sub ts'. ts = (t, sub) # ts' \<and> entry_sub od e t sub \<and> entries_ok od es ts')"
  by (auto simp: entries_ok_def list_all2_Cons1)

lemma entries_ok_Nil [simp]: "entries_ok od [] ts \<longleftrightarrow> ts = []"
  by (simp add: entries_ok_def)

lemma pdo_total_simps [simp]:
  "pdo_total [] = 0" "pdo_total (e # es) = unat (map_len e) + pdo_total es"
  by (simp_all add: pdo_total_def)

lemma pdo_pointers_simps [simp]:
  "pdo_pointers [] [] = []"
  "pdo_pointers (e # es) ((t, sub) # ts) = entry_ptrs sub t 0 (unat (map_len e)) @ pdo_pointers es ts"
  by (simp_all add: pdo_pointers_def)

lemma pdo_payload_simps [simp]:
  "pdo_payload [] [] = []"
  "pdo_payload (e # es) ((t, sub) # ts) = entry_bytes sub e @ pdo_payload es ts"
  by (simp_all add: pdo_payload_def)

lemma entry_lookup:
  assumes "entry_sub od e t sub"
  shows "\<exists>no. CO_OD_get_no od (map_index e) = Some no \<and> no \<noteq> OD_UNSUPPORT_ENTRY
     \<and> CO_OD_get_sub_object_pointer od no (map_sub_index e) = Some (Ref t)"
    and "od_get (fst t) (snd t) od = Some sub"
  using assms od_target_lookup [of od "map_index e" "map_sub_index e" "fst t" "snd t" sub]
  by (auto simp: entry_sub_def)

lemma pdo_set_valid_again [simp]:
  "pdo_set_valid v (pdo_set_valid v' p) = pdo_set_valid v p"
  by (simp add: pdo_set_valid_def)

lemma pdo_set_valid_data [simp]:
  "p_mapping_data (pdo_set_valid v p) = p_mapping_data p"
  "mapping_parameter (pdo_set_valid v p) = mapping_parameter p"
  "pdo_set_valid v (p\<lparr>p_mapping_data := ps\<rparr>) = (pdo_set_valid v p)\<lparr>p_mapping_data := ps\<rparr>"
  by (simp_all add: pdo_set_valid_def)

lemma drop_entry:
  assumes "take (Suc n) (drop k xs) = e # es"
  shows "mem_get xs k = Some e" "take n (drop (Suc k) xs) = es"
proof -
  have "drop k xs \<noteq> []" using assms by auto
  then have "k < length xs" by simp
  then show "mem_get xs k = Some e" "take n (drop (Suc k) xs) = es"
    using assms by (simp_all add: mem_simps flip: Cons_nth_drop_Suc)
qed

lemma pdo_map_loop_fits:
  assumes "entries_ok od es ts" "take (length es) (drop k (map_objects (mapping_parameter p))) = es"
    and "unat d + pdo_total es \<le> 8" "length (p_mapping_data p) = 8"
  shows "pdo_map_loop od k (length es) d p =
    Some ((if es = [] then p else pdo_set_valid 0 p)\<lparr>p_mapping_data :=
      take (unat d) (p_mapping_data p) @ pdo_pointers es ts
        @ drop (unat d + pdo_total es) (p_mapping_data p)\<rparr>)"
  using assms
proof (induction es arbitrary: ts k d p)
  case Nil
  then show ?case by simp
next
  case (Cons e es)
  obtain t sub ts' where ts: "ts = (t, sub) # ts'" "entry_sub od e t sub" "entries_ok od es ts'"
    using Cons.prems(1) by auto
  obtain no where no: "CO_OD_get_no od (map_index e) = Some no" "no \<noteq> OD_UNSUPPORT_ENTRY"
      "CO_OD_get_sub_object_pointer od no (map_sub_index e) = Some (Ref t)"
    using entry_lookup(1) [OF ts(2)] by blast
  let ?n = "unat (map_len e)" and ?ps = "p_mapping_data p"
  let ?qs = "take (unat d) ?ps @ entry_ptrs sub t 0 ?n @ drop (unat d + ?n) ?ps"
  let ?p = "(pdo_set_valid 0 p)\<lparr>p_mapping_data := ?qs\<rparr>"
  note e = drop_entry [OF Cons.prems(2) [unfolded list.size(4) add_Suc_right add_0_right]]
  have fit: "unat d + ?n \<le> 8" using Cons.prems(3) by simp
  have d: "unat (d + of_nat ?n) = unat d + ?n"
    using fit by (simp add: unat_word_ariths unsigned_of_nat take_bit_nat_eq_self)
  have len: "length ?qs = 8" using fit Cons.prems(4) by simp
  have "pdo_map_loop od k (length (e # es)) d p = pdo_map_loop od (Suc k) (length es) (d + of_nat ?n) ?p"
    using e(1) no pdo_map_bytes_fits [OF entry_lookup(2) [OF ts(2)] fit Cons.prems(4), of 0]
    by simp
  also have "\<dots> = Some (?p\<lparr>p_mapping_data := take (unat d + ?n) ?qs @ pdo_pointers es ts'
      @ drop (unat d + ?n + pdo_total es) ?qs\<rparr>)"
    using Cons.prems(3) e(2) len d
    by (subst Cons.IH [OF ts(3)]) (simp_all add: add.assoc)
  also have "take (unat d + ?n) ?qs = take (unat d) ?ps @ entry_ptrs sub t 0 ?n"
    using fit Cons.prems(4) by simp
  also have "drop (unat d + ?n + pdo_total es) ?qs = drop (unat d + (?n + pdo_total es)) ?ps"
    using fit Cons.prems(4) by (simp add: ac_simps)
  finally show ?case by (simp add: ts(1))
qed

lemma pdo_map_loop_overflows:
  assumes "entries_ok od es ts" "take (length es) (drop k (map_objects (mapping_parameter p))) = es"
    and "8 < unat d + pdo_total es" "unat d \<le> 8" "length (p_mapping_data p) = 8"
  shows "pdo_map_loop od k (length es) d p = None"
  using assms
proof (induction es arbitrary: ts k d p)
  case Nil
  then show ?case by simp
next
  case (Cons e es)
  obtain t sub ts' where ts: "ts = (t, sub) # ts'" "entry_sub od e t sub" "entries_ok od es ts'"
    using Cons.prems(1) by auto
  obtain no where no: "CO_OD_get_no od (map_index e) = Some no" "no \<noteq> OD_UNSUPPORT_ENTRY"
      "CO_OD_get_sub_object_pointer od no (map_sub_index e) = Some (Ref t)"
    using entry_lookup(1) [OF ts(2)] by blast
  note sub = entry_lookup(2) [OF ts(2)]
  note e = drop_entry [OF Cons.prems(2) [unfolded list.size(4) add_Suc_right add_0_right]]
  let ?n = "unat (map_len e)"
  show ?case
  proof (cases "unat d + ?n \<le> 8")
    case False
    then show ?thesis
      using e(1) no pdo_map_bytes_overflows [OF sub, of d ?n] Cons.prems(4,5) by simp
  next
    case True
    have d: "unat (d + of_nat ?n) = unat d + ?n"
      using True by (simp add: unat_word_ariths unsigned_of_nat take_bit_nat_eq_self)
    show ?thesis
      using e no pdo_map_bytes_fits [OF sub True Cons.prems(5), of 0] Cons.prems(3,5) True d
        Cons.IH [OF ts(3), of "Suc k" _ "d + of_nat ?n"]
      by (simp add: add.assoc)
  qed
qed

lemma tpdo_copy_Some:
  assumes "list_all2 (\<lambda>q b. read_mapped od q = Some b) (drop k ps) bs" "length ps = length d" "k \<le> length d"
  shows "tpdo_copy od ps k (length bs) d = Some (take k d @ bs)"
  using assms
proof (induction bs arbitrary: k d rule: list.induct)
  case Nil
  then have "drop k ps = []" by simp
  then have "length d \<le> k" using Nil.prems(2) by simp
  then show ?case by simp
next
  case (Cons b bs)
  have k: "k < length d" using Cons.prems by (cases "k < length d") auto
  then have q: "read_mapped od (ps ! k) = Some b"
      "list_all2 (\<lambda>q b. read_mapped od q = Some b) (drop (Suc k) ps) bs"
    using Cons.prems(1,2) by (simp_all flip: Cons_nth_drop_Suc)
  have "tpdo_copy od ps (Suc k) (length bs) (d[k := b]) = Some (take (Suc k) (d[k := b]) @ bs)"
    using Cons.IH [OF q(2), of "d[k := b]"] Cons.prems(2) k by simp
  then show ?case using k q(1) Cons.prems(2) by (simp add: mem_simps take_Suc_conv_app_nth)
qed

lemma tpdo_copy_unset:
  assumes "k \<le> j" "j < k + n" "mem_get ps j = Some Pdo_unset"
  shows "tpdo_copy od ps k n d = None"
  using assms
proof (induction n arbitrary: k d)
  case (Suc n)
  show ?case
  proof (cases "j = k")
    case True
    then show ?thesis using Suc.prems by (simp add: read_mapped_def)
  next
    case False
    then have "tpdo_copy od ps (Suc k) n d' = None" for d' using Suc by simp
    then show ?thesis by (auto simp: bind_eq_None_conv)
  qed
qed simp

lemma read_entry:
  assumes "od_get (fst t) (snd t) od = Some sub'" "so_len sub' = so_len sub"
    and "unat (so_len sub') \<le> length (so_data sub')"
  shows "list_all2 (\<lambda>q b. read_mapped od q = Some b) (entry_ptrs sub t 0 (unat (map_len e)))
    (entry_bytes sub' e)"
  using assms
  by (auto simp: list_all2_conv_all_nth entry_ptrs_def entry_bytes_def read_mapped_def mem_simps)

lemma read_entries:
  assumes "entries_ok od es ts" "entries_ok od' es ts'" "map fst ts' = map fst ts"
    and "map (so_len \<circ> snd) ts' = map (so_len \<circ> snd) ts"
  shows "list_all2 (\<lambda>q b. read_mapped od' q = Some b) (pdo_pointers es ts) (pdo_payload es ts')"
  using assms
proof (induction es arbitrary: ts ts')
  case (Cons e es)
  obtain t sub us where ts: "ts = (t, sub) # us" "entry_sub od e t sub" "entries_ok od es us"
    using Cons.prems(1) by auto
  obtain sub' us' where ts': "ts' = (t, sub') # us'" "entry_sub od' e t sub'" "entries_ok od' es us'"
      "so_len sub' = so_len sub"
    using Cons.prems(2-4) ts(1) by auto
  have "list_all2 (\<lambda>q b. read_mapped od' q = Some b) (pdo_pointers es us) (pdo_payload es us')"
    using Cons.prems(3,4) ts ts' by (intro Cons.IH) auto
  then show ?case
    using read_entry [OF entry_lookup(2) [OF ts'(2)] ts'(4), of e] ts'(2) ts(1) ts'(1)
    by (auto simp: entry_sub_def intro: list_all2_appendI)
qed (simp add: pdo_pointers_def pdo_payload_def)

lemma length_pdo_payload: "entries_ok od es ts \<Longrightarrow> length (pdo_payload es ts) = pdo_total es"
  by (induction es arbitrary: ts) (auto simp: pdo_payload_def entry_bytes_def)

lemma length_pdo_pointers: "entries_ok od es ts \<Longrightarrow> length (pdo_pointers es ts) = pdo_total es"
  by (induction es arbitrary: ts) (auto simp: pdo_pointers_def)

text \<open>The parameter lists the entries; the object has its eight pointers, eight entries and eight
  bytes.\<close>

definition para_lists :: "pdo_map_para \<Rightarrow> pdo_map_object list \<Rightarrow> bool" where
  "para_lists para es \<longleftrightarrow> unat (map_number para) = length es \<and> length (map_objects para) = 8
     \<and> take (length es) (map_objects para) = es"

definition tpdo_room :: "'w CO_TPDO \<Rightarrow> bool" where
  "tpdo_room t \<longleftrightarrow> length (p_mapping_data (tp_base t)) = 8
     \<and> length (map_objects (mapping_parameter (tp_base t))) = 8
     \<and> length (msg_data (pd_msg (tp_base t))) = 8"

lemma CO_TPDO_init_maps:
  assumes "para_lists para es" "length es < 8" "entries_ok od es ts" "tpdo_room t"
    and "build_data_option comm \<noteq> CO_TPDO_build_data_manually"
  shows "CO_TPDO_init sync para od comm build t =
    (if pdo_total es \<le> 8 then
       Some (t\<lparr>tp_base := \<lparr>pd_msg = (pd_msg (tp_base t))\<lparr>msg_id := tc_id comm, msg_len := 8, msg_new := False\<rparr>,
                p_mapping_data = pdo_pointers es ts @ drop (pdo_total es) (p_mapping_data (tp_base t)),
                mapping_parameter = \<lparr>map_number = map_number para,
                  map_objects = es @ drop (length es) (map_objects (mapping_parameter (tp_base t)))\<rparr>\<rparr>,
              comm_parameter := comm, tp_sync := sync, event_timer_ms := max_event_time_ms comm,
              inhibit_timer_ms := max_inhibit_time_ms comm, send_request := False,
              build_data_manually := build\<rparr>)
     else None)"
proof -
  let ?b = "tp_base t"
  let ?mp = "\<lparr>map_number = map_number para,
      map_objects = es @ drop (length es) (map_objects (mapping_parameter ?b))\<rparr>"
  let ?p = "pdo_set_valid 1 (?b\<lparr>mapping_parameter := ?mp\<rparr>)"
  have n: "unat (map_number para) = length es" "\<not> MAX_MAPPED_OBJECTS \<le> map_number para"
      "length (map_objects para) = 8" "take (length es) (map_objects para) = es"
    using assms(1,2) by (auto simp: para_lists_def MAX_MAPPED_OBJECTS_def word_le_nat_alt)
  have para: "CO_PDO_set_mapping_parameter para ?b = Some (?b\<lparr>mapping_parameter := ?mp\<rparr>)"
    using n assms(2,4)
    by (simp add: CO_PDO_set_mapping_parameter_def mem_simps tpdo_room_def)
  have es: "take (length es) (drop 0 (map_objects (mapping_parameter ?p))) = es"
    "length (p_mapping_data ?p) = 8" using assms(4) by (simp_all add: tpdo_room_def)
  show ?thesis
    using n assms(5) pdo_map_loop_fits [OF assms(3) es(1) _ es(2), of 0]
      pdo_map_loop_overflows [OF assms(3) es(1) _ _ es(2), of 0]
    by (simp add: CO_TPDO_init_def CO_PDO_init_def para CO_PDO_mapping_def not_le pdo_set_valid_def)
qed

lemma tpdo_sends_payload:
  assumes "para_lists para es" "length es < 8" "pdo_total es = 8" "tpdo_room t"
    and "build_data_option comm \<noteq> CO_TPDO_build_data_manually"
    and "entries_ok od es ts" "entries_ok od' es ts'" "map fst ts' = map fst ts"
    and "map (so_len \<circ> snd) ts' = map (so_len \<circ> snd) ts"
  shows "\<exists>t'. CO_TPDO_init sync para od comm build t = Some t' \<and> \<not> send_request t'
     \<and> (\<forall>w. \<exists>t'' m. CO_TPDO_send od' t' w = Some (t'', [m], w) \<and> msg_data m = pdo_payload es ts'
          \<and> msg_id m = tc_id comm \<and> msg_len m = 8 \<and> \<not> send_request t'')"
proof -
  have len: "length (pdo_payload es ts') = 8" "length (pdo_pointers es ts) = 8"
    using length_pdo_payload [OF assms(7)] length_pdo_pointers [OF assms(6)] assms(3) by simp_all
  have copy: "tpdo_copy od' (pdo_pointers es ts) 0 8 d = Some (pdo_payload es ts')" if "length d = 8" for d
    using tpdo_copy_Some [of od' 0 "pdo_pointers es ts" "pdo_payload es ts'" d]
      read_entries [OF assms(6-9)] len that by simp
  show ?thesis
    using CO_TPDO_init_maps [OF assms(1,2,6,4,5), of sync build] assms(3-5) copy
    by (simp add: CO_TPDO_send_def Let_def tpdo_room_def)
qed

text \<open>
  A PDO works with exactly eight mapped bytes. With fewer, a transmission dereferences pointers the
  mapping never set; with more, the mapping writes a pointer behind its array of eight before it
  notices.\<close>

theorem tpdo_needs_eight_bytes:
  assumes "para_lists para es" "length es < 8" "entries_ok od es ts" "tpdo_room t"
    and "build_data_option comm \<noteq> CO_TPDO_build_data_manually"
    and "p_mapping_data (tp_base t) = replicate 8 Pdo_unset"
  shows "(\<exists>t' r. CO_TPDO_init sync para od comm build t = Some t' \<and> CO_TPDO_send od t' w = Some r)
     \<longleftrightarrow> pdo_total es = 8"
proof -
  have len: "length (pdo_pointers es ts) = pdo_total es" by (rule length_pdo_pointers [OF assms(3)])
  note init = CO_TPDO_init_maps [OF assms(1-5), of sync build]
  consider "pdo_total es = 8" | "8 < pdo_total es" | "pdo_total es < 8" by linarith
  then show ?thesis
  proof cases
    case 1
    then show ?thesis
      using tpdo_sends_payload [OF assms(1,2) 1 assms(4,5,3,3)] by blast
  next
    case 2
    then show ?thesis by (simp add: init)
  next
    case 3
    let ?ps = "pdo_pointers es ts @ drop (pdo_total es) (replicate 8 Pdo_unset)"
    have "mem_get ?ps 7 = Some Pdo_unset" using 3 len by (simp add: mem_simps nth_append)
    then have "tpdo_copy od ?ps 0 8 d = None" for d by (intro tpdo_copy_unset [of 0 7]) simp_all
    then show ?thesis using 3 assms(5,6) by (simp add: init CO_TPDO_send_def Let_def)
  qed
qed

text \<open>C8:
  A transmit PDO carries the mapped objects. When at most seven mapping entries name objects of the sorted
  dictionary and together ask for eight bytes, the PDO does not build its data by hand and its tables and message have
  their eight places, the initialisation succeeds, and a later transmission sends the values the objects have at that
  time, when they are of the same length still: the bytes of the objects in the order of the entries, zero
  where an entry asks for more bytes than its object has, under the configured identifier. With eight entries of one
  byte, which the parameter structure has room for, the initialisation never returns: it rejects their number and
  ends in the endless loop of \<open>CO_detect_error\<close>.\<close>

theorem tpdo_carries_mapped_objects:
  assumes "para_lists para es" "pdo_total es = 8" "tpdo_room t"
    and "build_data_option comm \<noteq> CO_TPDO_build_data_manually"
    and "entries_ok od es ts" "entries_ok od' es ts'" "map fst ts' = map fst ts"
    and "map (so_len \<circ> snd) ts' = map (so_len \<circ> snd) ts"
  shows "if length es < 8
     then \<exists>t'. CO_TPDO_init sync para od comm build t = Some t' \<and> \<not> send_request t'
       \<and> (\<forall>w. \<exists>t'' m. CO_TPDO_send od' t' w = Some (t'', [m], w) \<and> msg_data m = pdo_payload es ts'
            \<and> msg_id m = tc_id comm \<and> msg_len m = 8 \<and> \<not> send_request t'')
     else CO_TPDO_init sync para od comm build t = None"
proof (cases "length es < 8")
  case True
  then show ?thesis using tpdo_sends_payload [OF assms(1) True assms(2-8)] by simp
next
  case False
  then show ?thesis
    using assms(1) by (simp add: CO_TPDO_init_def CO_PDO_init_def CO_PDO_set_mapping_parameter_def para_lists_def
        MAX_MAPPED_OBJECTS_def word_le_nat_alt)
qed

text \<open>A dictionary with two objects of three and four bytes, and a PDO that maps both.\<close>

definition pdo_sub :: "bytes \<Rightarrow> unit CO_Sub_Object" where
  "pdo_sub d = \<lparr>so_data = d, so_attr = 3, so_len = of_nat (length d), so_ext = NULL, so_temp = NULL\<rparr>"

definition pdo_od :: "bytes \<Rightarrow> bytes \<Rightarrow> unit CO_OD" where
  "pdo_od a b = \<lparr>od_number = 2, od_list =
     [\<lparr>ob_index = 0x2000, ob_sub_number = 1, ob_subs = [pdo_sub a]\<rparr>,
      \<lparr>ob_index = 0x2001, ob_sub_number = 1, ob_subs = [pdo_sub b]\<rparr>]\<rparr>"

definition pdo_entry :: "u16 \<Rightarrow> u8 \<Rightarrow> pdo_map_object" where
  "pdo_entry i n = \<lparr>map_index = i, map_sub_index = 0, map_len = n\<rparr>"

definition pdo_comm :: tpdo_comm_para where
  "pdo_comm = \<lparr>tc_id = 0x185, transmission_type = 1, max_inhibit_time_ms = 0, max_event_time_ms = 0,
     sync_start_value = 0, tc_sync_mask = 1, build_data_option = 1\<rparr>"

definition pdo_blank :: "unit CO_TPDO" where
  "pdo_blank = \<lparr>tp_base = \<lparr>pd_msg = \<lparr>msg_id = 0, msg_data = replicate 8 0, msg_len = 0, msg_new = False\<rparr>,
       p_mapping_data = replicate 8 Pdo_unset,
       mapping_parameter = \<lparr>map_number = 0, map_objects = replicate 8 (pdo_entry 0 0)\<rparr>\<rparr>,
     tp_sync = NULL, comm_parameter = pdo_comm, event_timer_ms = 0, inhibit_timer_ms = 0,
     send_request = False, build_data_manually = NULL\<rparr>"

definition pdo_para :: pdo_map_para where
  "pdo_para = \<lparr>map_number = 2, map_objects = [pdo_entry 0x2000 3, pdo_entry 0x2001 5] @ replicate 6 (pdo_entry 0 0)\<rparr>"

lemma pdo_sample:
  assumes "length a = 3" "length b = 4"
  shows "entries_ok (pdo_od a b) [pdo_entry 0x2000 3, pdo_entry 0x2001 5]
    [((0, 0), pdo_sub a), ((1, 0), pdo_sub b)]"
  using assms
  by (simp add: entry_sub_def od_target_def od_sorted_def pdo_od_def pdo_entry_def od_indices_def
      od_get_cases pdo_sub_def)

lemma pdo_sample_room:
  "tpdo_room pdo_blank" "para_lists pdo_para [pdo_entry 0x2000 3, pdo_entry 0x2001 5]"
  "pdo_total [pdo_entry 0x2000 3, pdo_entry 0x2001 5] = 8"
  "build_data_option pdo_comm \<noteq> CO_TPDO_build_data_manually"
  by (simp_all add: tpdo_room_def pdo_blank_def para_lists_def pdo_para_def pdo_entry_def pdo_comm_def
      CO_TPDO_build_data_manually_def)

lemma tpdo_carries_mapped_objects_witness:
  "\<exists>t'. CO_TPDO_init NULL pdo_para (pdo_od [1, 2, 3] [4, 5, 6, 7]) pdo_comm NULL pdo_blank = Some t'
     \<and> (\<exists>t'' m. CO_TPDO_send (pdo_od [11, 12, 13] [14, 15, 16, 17]) t' () = Some (t'', [m], ())
          \<and> msg_data m = [11, 12, 13, 14, 15, 16, 17, 0])"
  using tpdo_carries_mapped_objects [OF pdo_sample_room(2-3,1,4)
      pdo_sample [of "[1, 2, 3]" "[4, 5, 6, 7]"] pdo_sample [of "[11, 12, 13]" "[14, 15, 16, 17]"],
      of NULL NULL]
  by (force simp: pdo_sub_def entry_bytes_def pdo_entry_def upt_rec)

lemma tpdo_needs_eight_bytes_witness:
  "\<exists>t' r. CO_TPDO_init NULL pdo_para (pdo_od [1, 2, 3] [4, 5, 6, 7]) pdo_comm NULL pdo_blank = Some t'
     \<and> CO_TPDO_send (pdo_od [1, 2, 3] [4, 5, 6, 7]) t' () = Some r"
proof -
  have "p_mapping_data (tp_base pdo_blank) = replicate 8 Pdo_unset" by (simp add: pdo_blank_def)
  from tpdo_needs_eight_bytes [OF pdo_sample_room(2) _ pdo_sample pdo_sample_room(1,4) this]
  show ?thesis using pdo_sample_room(3) by simp
qed

text \<open>A mapping that fails after its first object leaves the PDO enabled, with the text
  \<open>map_fail\<close> as its data.\<close>

theorem pdo_failed_mapping_stays_enabled:
  assumes "map_number (mapping_parameter p) = 2" "map_objects (mapping_parameter p) = e # e' # es"
    and "entry_sub od e t sub" "unat (map_len e) \<le> 8" "length (p_mapping_data p) = 8"
    and "CO_OD_get_no od (map_index e') = Some OD_UNSUPPORT_ENTRY"
  shows "\<exists>p'. CO_PDO_mapping od p = Some p' \<and> cob_valid (msg_id (pd_msg p')) = 0
     \<and> p_mapping_data p' = map Pdo_fail [0..<8]"
proof -
  obtain no where no: "CO_OD_get_no od (map_index e) = Some no" "no \<noteq> OD_UNSUPPORT_ENTRY"
      "CO_OD_get_sub_object_pointer od no (map_sub_index e) = Some (Ref t)"
    using entry_lookup(1) [OF assms(3)] by blast
  have n: "unat (map_number (mapping_parameter p)) = Suc (Suc 0)" using assms(1) by simp
  show ?thesis
    using no assms(2,4-6) pdo_map_bytes_fits [OF entry_lookup(2) [OF assms(3)], of 0 "unat (map_len e)"
        "pdo_set_valid 1 p" 0]
    by (simp add: CO_PDO_mapping_def n mem_simps CO_PDO_mapping_fail_handle_def)
      (simp add: pdo_set_valid_def)
qed

end
