(* ===== verification/Co_Device.thy ===== *)
theory Co_Device
  imports Co_Sdo_Link Co_Pdo Co_Emcy
begin

section \<open>The CANopen device\<close>

text \<open>
  This theory models \<open>common/upgrade/loader/libs/canopen/CO.c\<close> and the receive function of
  \<open>CO.h\<close>: the device that owns the SYNC object, the SDO server, the SDO client and the four
  transmit PDOs, and the call that runs them in the order of the SYNC cycle.

  The SDO objects are kept without what they share (\<open>'w CO_SDO\<close>): the dictionary, the client's
  global sub object, the messages sent and the application's world are parts of the device. An SDO
  object or PDO whose \<open>p_sync\<close> is set points at the SYNC object of the device.
\<close>

record 'w CO =
  device_type :: u32
  co_status :: u32
  co_sync :: CO_SYNC
  co_server :: "'w CO_SDO"
  co_client :: "'w CO_SDO"
  co_tpdos :: "'w CO_TPDO list"
  co_emcy :: CO_EMCY
  co_od :: "'w CO_OD"
  co_cli_sub :: "'w CO_Sub_Object"
  co_sent :: "CO_CAN_Msg list"
  co_app :: 'w

definition TPDO_NUMBER :: nat where "TPDO_NUMBER = 4"

definition sync_ptr :: "CO_SYNC \<Rightarrow> CO_SYNC ptr \<Rightarrow> CO_SYNC ptr" where
  "sync_ptr y q = (if is_null q then NULL else Ref y)"

text \<open>An SDO object together with what it shares, and the device after the SDO object ran.\<close>

definition sdo_view :: "'w CO \<Rightarrow> 'w CO_SDO \<Rightarrow> 'w sdo_run" where
  "sdo_view co s = CO_SDO.extend (s\<lparr>p_od := co_od co, p_sync := sync_ptr (co_sync co) (p_sync s)\<rparr>)
     (sdo_run.fields (co_cli_sub co) (co_sent co) (co_app co))"

definition sdo_shared :: "'w sdo_run \<Rightarrow> 'w CO \<Rightarrow> 'w CO" where
  "sdo_shared s co = co\<lparr>co_od := p_od s, co_cli_sub := temp_sdo_cli_sub_obj s, co_sent := sent s,
     co_app := app s\<rparr>"

definition run_server :: "u16 \<Rightarrow> 'w CO \<Rightarrow> 'w CO option" where
  "run_server dt co =
     do { s \<leftarrow> CO_SDOserver_process (sdo_view co (co_server co)) dt;
          Some ((sdo_shared s co)\<lparr>co_server := CO_SDO.truncate s\<rparr>) }"

definition run_client :: "u16 \<Rightarrow> 'w CO \<Rightarrow> 'w CO option" where
  "run_client dt co =
     do { s \<leftarrow> CO_SDOclient_process (sdo_view co (co_client co)) dt;
          Some ((sdo_shared s co)\<lparr>co_client := CO_SDO.truncate s\<rparr>) }"

text \<open>The loop over the transmit PDOs: \<open>n\<close> are left, the next one is \<open>k\<close>.\<close>

fun tpdo_loop :: "nat \<Rightarrow> nat \<Rightarrow> u16 \<Rightarrow> bool \<Rightarrow> 'w CO \<Rightarrow> 'w CO option" where
  "tpdo_loop k 0 dt sync_was co = Some co"
| "tpdo_loop k (Suc n) dt sync_was co =
     do { t \<leftarrow> mem_get (co_tpdos co) k;
          (t, ms, w) \<leftarrow> CO_TPDO_process (co_od co)
             (t\<lparr>tp_sync := sync_ptr (co_sync co) (tp_sync t)\<rparr>) dt sync_was (co_app co);
          tpdo_loop (Suc k) n dt sync_was
            (co\<lparr>co_tpdos := (co_tpdos co)[k := t], co_sent := co_sent co @ ms, co_app := w\<rparr>) }"

definition CO_process_tpdo :: "u16 \<Rightarrow> bool \<Rightarrow> 'w CO \<Rightarrow> 'w CO option" where
  "CO_process_tpdo dt sync_was co = tpdo_loop 0 TPDO_NUMBER dt sync_was co"

definition run_sync :: "u16 \<Rightarrow> 'w CO \<Rightarrow> 'w CO option" where
  "run_sync dt co =
     do { (y, ms) \<leftarrow> CO_SYNC_process (co_sync co) True dt;
          Some (co\<lparr>co_sync := y, co_sent := co_sent co @ ms\<rparr>) }"

definition CO_process :: "'w CO \<Rightarrow> u16 \<Rightarrow> 'w CO option" where
  "CO_process co dt =
     do { co \<leftarrow> run_sync dt co;
          if index_in_cycle (co_sync co) \<ge> 2 then
            do { co \<leftarrow> run_server dt co; run_client dt co }
          else if index_in_cycle (co_sync co) = 1 then CO_process_tpdo dt True co
          else Some co }"

definition CO_init_basic :: "u32 \<Rightarrow> 'w CO_OD \<Rightarrow> 'w CO \<Rightarrow> 'w CO" where
  "CO_init_basic ty od co =
     co\<lparr>device_type := ty, co_status := 0, co_od := od, co_emcy := CO_EMCY_init (co_emcy co)\<rparr>"

text \<open>A received message: the SYNC message, the response for a client that waits for one, or a
  request for the server.\<close>

definition cob_can_id :: "u32 \<Rightarrow> u32" where
  "cob_can_id cid = cid AND 0x1FFFFFFF"

definition copy_data :: "bytes \<Rightarrow> u16 \<Rightarrow> CO_CAN_Msg \<Rightarrow> CO_CAN_Msg option" where
  "copy_data d n m =
     do { e \<leftarrow> CO_memcpy (msg_data m) 0 d 0 n; Some (m\<lparr>msg_data := e, msg_new := True\<rparr>) }"

definition CO_can_receive_basic_handle :: "'w CO \<Rightarrow> u32 \<Rightarrow> bytes \<Rightarrow> (bool \<times> 'w CO) option" where
  "CO_can_receive_basic_handle co can_id data =
     (let y = co_sync co; cl = co_client co; sv = co_server co in
      if can_id = cob_can_id (msg_id (sy_msg y)) then
        (if cob_bit_30 (msg_id (sy_msg y)) = 0 then
           do { m \<leftarrow> copy_data data (ucast (msg_len (sy_msg y))) (sy_msg y);
                Some (True, co\<lparr>co_sync := y\<lparr>sy_msg := m\<rparr>\<rparr>) }
         else Some (True, co))
      else if can_id = cob_can_id (msg_id (rx_msg cl)) \<and> sd_state cl \<noteq> CO_SDO_ST_IDLE then
        do { m \<leftarrow> copy_data data 8 (rx_msg cl); Some (True, co\<lparr>co_client := cl\<lparr>rx_msg := m\<rparr>\<rparr>) }
      else if can_id = cob_can_id (msg_id (rx_msg sv)) then
        do { m \<leftarrow> copy_data data 8 (rx_msg sv); Some (True, co\<lparr>co_server := sv\<lparr>rx_msg := m\<rparr>\<rparr>) }
      else Some (False, co))"

definition CO_set_node_id :: "u8 \<Rightarrow> 'w CO \<Rightarrow> 'w CO" where
  "CO_set_node_id node co =
     co\<lparr>co_server := CO_SDO.truncate (CO_SDOserver_set_node_id node (sdo_view co (co_server co)))
          \<lparr>p_od := p_od (co_server co), p_sync := p_sync (co_server co)\<rparr>,
        co_tpdos := map (CO_TPDO_set_node_id node) (take TPDO_NUMBER (co_tpdos co))
          @ drop TPDO_NUMBER (co_tpdos co)\<rparr>"

text \<open>Leaving and entering the SYNC mode.\<close>

definition sync_set_valid :: "u32 \<Rightarrow> CO_SYNC \<Rightarrow> CO_SYNC" where
  "sync_set_valid v y = y\<lparr>sy_msg := (sy_msg y)\<lparr>msg_id := set_cob_valid (msg_id (sy_msg y)) v\<rparr>\<rparr>"

definition sdo_retype :: "u16 \<Rightarrow> 'w CO_SDO \<Rightarrow> 'w CO_SDO" where
  "sdo_retype ty s = s\<lparr>trans_type := ty, valid := True\<rparr>"

definition CO_disable_sync_mode :: "'w CO \<Rightarrow> 'w CO" where
  "CO_disable_sync_mode co =
     co\<lparr>co_sync := sync_set_valid 1 (co_sync co),
        co_client := sdo_retype 0 (co_client co), co_server := sdo_retype 0 (co_server co),
        co_tpdos := map (CO_TPDO_set_transmission_type CO_TPDO_TRANSM_TYPE_EVENT_LO)
            (take TPDO_NUMBER (co_tpdos co)) @ drop TPDO_NUMBER (co_tpdos co)\<rparr>"

text \<open>The entries of the communication profile that \<open>CO_recover_sync_mode\<close> reads: the SYNC
  identifier, the transmission types of the SDO client and server, and the transmission type and
  identifier of each transmit PDO.\<close>

record recover_para =
  rp_sync_id :: u32
  rp_client_type :: u16
  rp_server_type :: u16
  rp_tpdos :: "(u16 \<times> u32) list"

fun recover_tpdos :: "(u16 \<times> u32) list \<Rightarrow> nat \<Rightarrow> nat \<Rightarrow> 'w CO_TPDO list \<Rightarrow> 'w CO_TPDO list option" where
  "recover_tpdos ps k 0 ts = Some ts"
| "recover_tpdos ps k (Suc n) ts =
     do { (ty, cid) \<leftarrow> mem_get ps k;
          t \<leftarrow> mem_get ts k;
          let t = tpdo_set_valid 1 t;
          let t = t\<lparr>comm_parameter := (comm_parameter t)\<lparr>transmission_type := ty\<rparr>\<rparr>;
          recover_tpdos ps (Suc k) n (ts[k := tpdo_set_valid (cob_valid cid) t]) }"

definition CO_recover_sync_mode :: "recover_para \<Rightarrow> 'w CO \<Rightarrow> 'w CO option" where
  "CO_recover_sync_mode p co =
     do { ts \<leftarrow> recover_tpdos (rp_tpdos p) 0 TPDO_NUMBER (co_tpdos co);
          Some (co\<lparr>co_sync := sync_set_valid (cob_valid (rp_sync_id p)) (co_sync co),
                   co_client := sdo_retype (rp_client_type p) (co_client co),
                   co_server := sdo_retype (rp_server_type p) (co_server co),
                   co_tpdos := ts\<rparr>) }"

subsection \<open>The phases of a cycle\<close>

lemma sdo_view_sel [simp]:
  "p_od (sdo_view co s) = co_od co" "sent (sdo_view co s) = co_sent co" "app (sdo_view co s) = co_app co"
  "sd_state (sdo_view co s) = sd_state s" "valid (sdo_view co s) = valid s"
  "rx_msg (sdo_view co s) = rx_msg s" "tx_msg (sdo_view co s) = tx_msg s"
  "is_internal_processing (sdo_view co s) = is_internal_processing s"
  "timeout_cter_ms (sdo_view co s) = timeout_cter_ms s"
  "allowed_timeout_ms (sdo_view co s) = allowed_timeout_ms s"
  "temp_sdo_cli_sub_obj (sdo_view co s) = co_cli_sub co"
  by (simp_all add: sdo_view_def CO_SDO.defs sdo_run.defs)

lemma sdo_shared_sel [simp]:
  "co_sync (sdo_shared s co) = co_sync co" "co_tpdos (sdo_shared s co) = co_tpdos co"
  "co_client (sdo_shared s co) = co_client co" "co_server (sdo_shared s co) = co_server co"
  "co_od (sdo_shared s co) = p_od s" "co_sent (sdo_shared s co) = sent s"
  by (simp_all add: sdo_shared_def)

lemma run_keeps:
  "run_server dt co = Some co' \<Longrightarrow> co_sync co' = co_sync co \<and> co_tpdos co' = co_tpdos co"
  "run_client dt co = Some co' \<Longrightarrow> co_sync co' = co_sync co \<and> co_tpdos co' = co_tpdos co"
  by (auto simp: run_server_def run_client_def bind_eq_Some_conv)

lemma tpdo_loop_keeps:
  "tpdo_loop k n dt b co = Some co' \<Longrightarrow> co_sync co' = co_sync co \<and> co_od co' = co_od co
     \<and> co_server co' = co_server co \<and> co_client co' = co_client co"
proof (induction n arbitrary: k co)
  case (Suc n)
  then show ?case by (auto simp: bind_eq_Some_conv split: prod.splits dest: Suc.IH)
qed simp

text \<open>A SYNC object that gets no SYNC message: a consumer without a new message.\<close>

definition sync_silent :: "CO_SYNC \<Rightarrow> bool" where
  "sync_silent y \<longleftrightarrow> sync_consumer y \<and> \<not> msg_new (sy_msg y)"

definition sync_tick :: "CO_SYNC \<Rightarrow> u16 \<Rightarrow> CO_SYNC" where
  "sync_tick y dt = (sync_advance y dt)
     \<lparr>is_inside_window := (time_in_cycle_ms (sync_advance y dt) \<le> window_length_ms y)\<rparr>"

lemma sync_silent_process:
  assumes "sync_silent y"
  shows "CO_SYNC_process y b dt = Some (sync_tick y dt, [])"
  using assms
  by (simp add: sync_silent_def sync_consumer_def CO_SYNC_process_def sync_consume_def sync_tick_def Let_def)

lemma sync_tick_silent [simp]: "sync_silent (sync_tick y dt) = sync_silent y"
  by (simp add: sync_silent_def sync_consumer_def sync_tick_def)

lemma u16_inc:
  assumes "(x :: u16) \<noteq> 0xFFFF"
  shows "unat (x + 1) = Suc (unat x)"
proof -
  have "unat x \<noteq> 65535" using assms by (simp add: word_unat_eq_iff)
  then have "unat x < 65535" using unat_u16_less [of x] by linarith
  then have "x < 0xFFFF" by (simp add: word_less_nat_alt)
  then show ?thesis by (rule unat_inc)
qed

lemma sync_tick_index:
  "index_in_cycle (sync_tick y dt) = (if index_in_cycle y = 0xFFFF then 0xFFFF else index_in_cycle y + 1)"
proof -
  have "index_in_cycle y < index_in_cycle y + 1" if "index_in_cycle y \<noteq> 0xFFFF"
    using u16_inc [OF that] by (simp only: word_less_nat_alt)
  then show ?thesis
    by (auto simp: sync_tick_def sync_advance_def Let_def)
qed

lemma sync_tick_late:
  assumes "1 \<le> index_in_cycle y"
  shows "2 \<le> index_in_cycle (sync_tick y dt)"
proof (cases "index_in_cycle y = 0xFFFF")
  case False
  then show ?thesis
    using assms u16_inc [OF False] by (simp add: sync_tick_index word_le_nat_alt)
qed (simp add: sync_tick_index)

lemma run_sync_silent:
  "sync_silent (co_sync co) \<Longrightarrow> run_sync dt co = Some (co\<lparr>co_sync := sync_tick (co_sync co) dt\<rparr>)"
  by (simp add: run_sync_def sync_silent_process)

fun co_run :: "u16 list \<Rightarrow> 'w CO \<Rightarrow> 'w CO option" where
  "co_run [] co = Some co"
| "co_run (dt # dts) co = do { co \<leftarrow> CO_process co dt; co_run dts co }"

lemma co_run_late:
  assumes "co_run dts co = Some co'" "sync_silent (co_sync co)" "1 \<le> index_in_cycle (co_sync co)"
  shows "co_tpdos co' = co_tpdos co"
  using assms
proof (induction dts arbitrary: co)
  case (Cons dt dts)
  let ?co = "co\<lparr>co_sync := sync_tick (co_sync co) dt\<rparr>"
  have idx: "2 \<le> index_in_cycle (co_sync ?co)" using sync_tick_late [OF Cons.prems(3)] by simp
  obtain co1 co2 where r: "run_server dt ?co = Some co1" "run_client dt co1 = Some co2"
      "co_run dts co2 = Some co'"
    using Cons.prems(1) idx by (auto simp: CO_process_def run_sync_silent [OF Cons.prems(2)] bind_eq_Some_conv)
  have k: "co_sync co2 = co_sync ?co" "co_tpdos co2 = co_tpdos co"
    using run_keeps(1) [OF r(1)] run_keeps(2) [OF r(2)] by simp_all
  have "1 \<le> index_in_cycle (co_sync co2)" using idx k(1) by (simp add: word_le_nat_alt)
  then show ?case using Cons.IH [OF r(3)] Cons.prems(2) k by simp
qed simp

text \<open>C14:
  In every SYNC cycle the transmit PDOs run exactly once. When the SYNC message of a consumer has
  been taken over (the index in the cycle is 0), the next call of \<open>CO_process\<close> runs the four
  transmit PDOs, before any SDO transfer of the cycle, and no later call of the same cycle runs them
  again, however many there are.\<close>

theorem tpdos_run_once_per_cycle:
  assumes "sync_silent (co_sync co)" "index_in_cycle (co_sync co) = 0"
    and "co_run (dt # dts) co = Some co'"
  shows "\<exists>co1. CO_process co dt = Some co1
     \<and> CO_process_tpdo dt True (co\<lparr>co_sync := sync_tick (co_sync co) dt\<rparr>) = Some co1
     \<and> co_server co1 = co_server co \<and> co_client co1 = co_client co \<and> co_od co1 = co_od co
     \<and> co_tpdos co' = co_tpdos co1"
proof -
  let ?co = "co\<lparr>co_sync := sync_tick (co_sync co) dt\<rparr>"
  have one: "index_in_cycle (co_sync ?co) = 1" using assms(2) by (simp add: sync_tick_index)
  then have p: "CO_process co dt = CO_process_tpdo dt True ?co"
    by (simp add: CO_process_def run_sync_silent [OF assms(1)] word_le_nat_alt)
  then obtain co1 where r: "CO_process_tpdo dt True ?co = Some co1" "co_run dts co1 = Some co'"
    using assms(3) by (auto simp: bind_eq_Some_conv)
  have k: "co_sync co1 = co_sync ?co" "co_server co1 = co_server co" "co_client co1 = co_client co"
      "co_od co1 = co_od co"
    using tpdo_loop_keeps r(1) by (fastforce simp: CO_process_tpdo_def)+
  have "co_tpdos co' = co_tpdos co1"
    by (rule co_run_late [OF r(2)]) (use k one assms(1) in simp_all)
  then show ?thesis using p r(1) k by auto
qed

subsection \<open>Leaving the SYNC mode\<close>

text \<open>What a device may do: receive frames and run.\<close>

inductive co_reachable :: "'w CO \<Rightarrow> 'w CO \<Rightarrow> bool" for co0 where
  co_start: "co_reachable co0 co0"
| co_frame: "co_reachable co0 co \<Longrightarrow> CO_can_receive_basic_handle co can_id d = Some (b, co') \<Longrightarrow>
     co_reachable co0 co'"
| co_call: "co_reachable co0 co \<Longrightarrow> CO_process co dt = Some co' \<Longrightarrow> co_reachable co0 co'"

inductive_cases co_reachable_elims: "co_reachable co0 co"

text \<open>A device that is stuck: its SYNC object is disabled at index 0.\<close>

definition co_stuck :: "'w CO \<Rightarrow> 'w CO \<Rightarrow> bool" where
  "co_stuck co0 co \<longleftrightarrow> cob_valid (msg_id (sy_msg (co_sync co))) = 1
     \<and> index_in_cycle (co_sync co) = 0 \<and> co_sent co = co_sent co0 \<and> co_od co = co_od co0
     \<and> co_tpdos co = co_tpdos co0 \<and> co_app co = co_app co0"

lemma stuck_process: "co_stuck co0 co \<Longrightarrow> CO_process co dt = Some co"
  by (simp add: co_stuck_def CO_process_def run_sync_def CO_SYNC_process_def)

lemma stuck_frame:
  assumes "co_stuck co0 co" "CO_can_receive_basic_handle co can_id d = Some (b, co')"
  shows "co_stuck co0 co'"
proof -
  have keep: "copy_data e n m = Some m' \<Longrightarrow> msg_id m' = msg_id m" for e n m m'
    by (auto simp: copy_data_def bind_eq_Some_conv)
  show ?thesis
    using assms
    by (auto simp: CO_can_receive_basic_handle_def Let_def bind_eq_Some_conv co_stuck_def keep
        split: if_splits)
qed

text \<open>
  Leaving the SYNC mode can silence a device for good. Its progress through a cycle is counted by
  the SYNC object, and \<open>CO_disable_sync_mode\<close> disables that object where it stands: when this
  happens in the call that produced or took over a SYNC message, no later call runs the SDO server,
  the SDO client or a PDO, although all of them have been switched to work without SYNC. Whatever
  frames arrive, the device sends nothing and changes nothing.\<close>

theorem disabled_sync_stalls_device:
  assumes "index_in_cycle (co_sync co) = 0" "co_reachable (CO_disable_sync_mode co) co'"
  shows "CO_process co' dt = Some co' \<and> co_sent co' = co_sent co \<and> co_od co' = co_od co
     \<and> trans_type (co_server (CO_disable_sync_mode co)) = 0 \<and> valid (co_server (CO_disable_sync_mode co))"
proof -
  let ?co = "CO_disable_sync_mode co"
  have "co_stuck ?co co'" using assms(2)
  proof (induction rule: co_reachable.induct)
    case co_start
    then show ?case
      using assms(1) by (simp add: co_stuck_def CO_disable_sync_mode_def sync_set_valid_def)
  next
    case (co_frame co1 can_id d b co2)
    then show ?case by (blast intro: stuck_frame)
  next
    case (co_call co1 dt co2)
    then show ?case by (simp add: stuck_process)
  qed
  then show ?thesis
    by (simp add: stuck_process [of ?co]) (simp add: co_stuck_def CO_disable_sync_mode_def sdo_retype_def)
qed

subsection \<open>From an SDO request to a PDO\<close>

lemma od_get_put_other:
  assumes "od_get i j od = Some x"
  shows "od_get i' j' (od_put i j sub od) = (if (i', j') = (i, j) then Some sub else od_get i' j' od)"
proof -
  have "i < length (od_list od)" "j < length (ob_subs (od_list od ! i))"
    using assms by (auto simp: od_get_cases)
  then show ?thesis
    by (auto simp: od_get_def od_put_def mem_get_def nth_list_update)
qed

definition entry_update ::
  "nat \<times> nat \<Rightarrow> 'w CO_Sub_Object \<Rightarrow> (nat \<times> nat) \<times> 'w CO_Sub_Object \<Rightarrow> (nat \<times> nat) \<times> 'w CO_Sub_Object" where
  "entry_update t sub' = (\<lambda>(u, sub). (u, if u = t then sub' else sub))"

lemma entry_sub_put:
  assumes "entry_sub od e t sub" "od_get i j od = Some x" "so_len sub' = so_len x"
    and "length (so_data sub') = length (so_data x)"
  shows "entry_sub (od_put i j sub' od) e t (if t = (i, j) then sub' else sub)"
    and "so_len (if t = (i, j) then sub' else sub) = so_len sub"
proof -
  have i: "i < length (od_list od)" using assms(2) by (auto simp: od_get_cases)
  have put: "length (od_list (od_put i j sub' od)) = length (od_list od)"
    "ob_index (od_list (od_put i j sub' od) ! k) = ob_index (od_list od ! k)"
    "ob_sub_number (od_list (od_put i j sub' od) ! k) = ob_sub_number (od_list od ! k)" for k
    using i by (cases "k = i"; simp add: od_put_def)+
  have same: "sub = x" if "t = (i, j)"
    using that assms(1,2) by (auto simp: entry_sub_def od_target_def)
  show "so_len (if t = (i, j) then sub' else sub) = so_len sub" using same assms(3) by auto
  show "entry_sub (od_put i j sub' od) e t (if t = (i, j) then sub' else sub)"
    using assms(1,3,4) same put
    by (cases t) (auto simp: entry_sub_def od_target_def od_sorted_def od_get_put_other [OF assms(2)])
qed

lemma entries_ok_put:
  assumes "entries_ok od es ts" "od_get i j od = Some x" "so_len sub' = so_len x"
    and "length (so_data sub') = length (so_data x)"
  shows "entries_ok (od_put i j sub' od) es (map (entry_update (i, j) sub') ts)"
    and "map (so_len \<circ> snd) (map (entry_update (i, j) sub') ts) = map (so_len \<circ> snd) ts"
    and "map fst (map (entry_update (i, j) sub') ts) = map fst ts"
proof -
  note put = entry_sub_put [OF _ assms(2-4)]
  show "map fst (map (entry_update (i, j) sub') ts) = map fst ts"
    by (simp add: entry_update_def split_def)
  show "entries_ok (od_put i j sub' od) es (map (entry_update (i, j) sub') ts)"
    using assms(1) put(1) by (induction es arbitrary: ts) (fastforce simp: entry_update_def)+
  show "map (so_len \<circ> snd) (map (entry_update (i, j) sub') ts) = map (so_len \<circ> snd) ts"
    using assms(1) put(2) by (induction es arbitrary: ts) (fastforce simp: entry_update_def)+
qed

text \<open>A device that waits for a request between two SYNC messages.\<close>

definition co_serving :: "'w CO \<Rightarrow> bool" where
  "co_serving co \<longleftrightarrow> sync_silent (co_sync co) \<and> 1 \<le> index_in_cycle (co_sync co)
     \<and> length (msg_data (sy_msg (co_sync co))) = 8 \<and> msg_len (sy_msg (co_sync co)) = 3
     \<and> sdo_ready (sdo_view co (co_server co)) CO_SDO_ST_IDLE
     \<and> length (msg_data (rx_msg (co_server co))) = 8
     \<and> sd_state (co_client co) = CO_SDO_ST_IDLE \<and> valid (co_client co)
     \<and> cob_can_id (msg_id (rx_msg (co_server co))) \<noteq> cob_can_id (msg_id (sy_msg (co_sync co)))"

definition co_request :: "'w CO \<Rightarrow> bytes \<Rightarrow> 'w CO" where
  "co_request co d = co\<lparr>co_server := (co_server co)
     \<lparr>rx_msg := (rx_msg (co_server co))\<lparr>msg_data := d, msg_new := True\<rparr>\<rparr>\<rparr>"

lemma receive_request:
  assumes "co_serving co" "length d = 8"
  shows "CO_can_receive_basic_handle co (cob_can_id (msg_id (rx_msg (co_server co)))) d
    = Some (True, co_request co d)"
  using assms
  by (simp add: co_serving_def CO_can_receive_basic_handle_def Let_def copy_data_def mem_simps
      co_request_def)

lemma sdo_view_request:
  "sdo_view (co_request co d) (co_server (co_request co d))
     = (sdo_view co (co_server co))\<lparr>rx_msg := (rx_msg (co_server co))\<lparr>msg_data := d, msg_new := True\<rparr>\<rparr>"
  by (simp add: sdo_view_def co_request_def CO_SDO.defs sdo_run.defs)

lemma client_idle: "sd_state s = CO_SDO_ST_IDLE \<Longrightarrow> valid s \<Longrightarrow> CO_SDOclient_process s dt = Some s"
  by (simp add: CO_SDOclient_process_def CO_SDOclient_process_inner_def)

lemma co_serves_download:
  assumes "co_serving co" "dt < allowed_timeout_ms (co_server co)"
    and "mux_of d ind si" "d ! 0 = expedited_cs 1 n" "0 < n" "n \<le> 4"
    and "od_target (co_od co) ind si i j sub" "writable sub" "plain_sub sub" "n \<le> so_len sub"
    and "unat n \<le> length (so_data sub)"
  shows "\<exists>co' m. CO_process (co_request co d) dt = Some co'
     \<and> co_od co' = od_put i j (store_at 0 (take (unat n) (drop 4 d)) sub) (co_od co)
     \<and> co_sent co' = co_sent co @ [m] \<and> msg_data m ! 0 = 0x60 \<and> mux_of (msg_data m) ind si
     \<and> co_tpdos co' = co_tpdos co \<and> co_sync co' = sync_tick (co_sync co) dt"
proof -
  let ?co = "(co_request co d)\<lparr>co_sync := sync_tick (co_sync co) dt\<rparr>"
  let ?v = "sdo_view ?co (co_server ?co)"
  have r: "sync_silent (co_sync co)" "1 \<le> index_in_cycle (co_sync co)"
    using assms(1) by (simp_all add: co_serving_def)
  have v: "sdo_ready ?v CO_SDO_ST_IDLE" "has_message ?v d" "in_time ?v dt" "p_od ?v = co_od co"
    using assms(1-3)
    by (simp_all add: co_serving_def sdo_ready_def has_message_def in_time_def co_request_def mux_of_def)
  obtain s' e where s': "CO_SDOserver_process ?v dt = Some s'"
      "p_od s' = od_put i j (store_at 0 (take (unat n) (drop 4 d)) sub) (co_od co)"
      "answered ?v s' e" "e ! 0 = 0x60" "mux_of e ind si"
    using server_stores_expedited [OF v(1-3) assms(3-6) _ assms(8-11), of i j] assms(7) v(4) by auto
  obtain m where m: "sent s' = co_sent co @ [m]" "msg_data m = e"
    using s'(3) by (auto simp: answered_def co_request_def)
  let ?co1 = "(sdo_shared s' ?co)\<lparr>co_server := CO_SDO.truncate s'\<rparr>"
  have run: "run_server dt ?co = Some ?co1" using s'(1) by (simp add: run_server_def)
  have "CO_SDOclient_process (sdo_view ?co1 (co_client ?co1)) dt = Some (sdo_view ?co1 (co_client ?co1))"
    using assms(1) by (intro client_idle) (simp_all add: co_serving_def co_request_def)
  then have idle: "run_client dt ?co1 = Some ((sdo_shared (sdo_view ?co1 (co_client ?co1)) ?co1)
      \<lparr>co_client := CO_SDO.truncate (sdo_view ?co1 (co_client ?co1))\<rparr>)"
    by (simp add: run_client_def)
  have sync: "run_sync dt (co_request co d) = Some ?co"
    using r(1) by (simp add: run_sync_silent co_request_def)
  show ?thesis
    using sync_tick_late [OF r(2), of dt] run idle s'(2,4,5) m
    by (simp add: CO_process_def sync) (simp add: sdo_shared_def co_request_def)
qed

lemma cob_bit_30_cases: "cob_bit_30 x = 0 \<or> cob_bit_30 x = 1"
proof -
  have "cob_bit_30 x \<le> 1" unfolding cob_bit_30_def by (rule word_and_le1)
  then show ?thesis by (auto simp: word_le_nat_alt word_unat_eq_iff)
qed

lemma co_takes_sync:
  assumes "sync_silent (co_sync co)" "length (msg_data (sy_msg (co_sync co))) = 8"
    and "msg_len (sy_msg (co_sync co)) = 3"
    and "length y = 8" "CO_getUint16 y 0 = Some c" "unat (y ! 2) < 32"
  shows "\<exists>co1 s. CO_can_receive_basic_handle co (cob_can_id (msg_id (sy_msg (co_sync co)))) y = Some (True, co1)
     \<and> CO_process co1 dt = Some (co\<lparr>co_sync := s\<rparr>) \<and> sync_silent s \<and> index_in_cycle s = 0
     \<and> sync_counter s = c \<and> aux_sync_reg s = push_bit (unat (y ! 2)) 1"
proof -
  let ?y = "co_sync co"
  let ?e = "take 3 y @ drop 3 (msg_data (sy_msg ?y))"
  let ?co1 = "co\<lparr>co_sync := sync_receive ?y ?e\<rparr>"
  have "copy_data y 3 (sy_msg ?y) = Some ((sy_msg ?y)\<lparr>msg_data := ?e, msg_new := True\<rparr>)"
    using assms(2,4) by (simp add: copy_data_def mem_simps)
  then have rec: "CO_can_receive_basic_handle co (cob_can_id (msg_id (sy_msg ?y))) y = Some (True, ?co1)"
    using assms(1,3) cob_bit_30_cases [of "msg_id (sy_msg ?y)"]
    by (simp add: CO_can_receive_basic_handle_def sync_silent_def sync_consumer_def sync_receive_def
        Let_def)
  have e: "CO_getUint16 ?e 0 = Some c" "mem_get ?e 2 = Some (y ! 2)"
    using assms(2,4,5) by (simp_all add: CO_getUint16_def mem_simps nth_append)
  let ?s = "(sync_advance ?y dt)\<lparr>sync_counter := c, aux_sync_counter := y ! 2,
      aux_sync_reg := push_bit (unat (y ! 2)) 1, index_in_cycle := 0, time_in_cycle_ms := 0,
      sy_msg := (sy_msg ?y)\<lparr>msg_data := ?e, msg_new := False\<rparr>, is_inside_window := True\<rparr>"
  have "CO_SYNC_process (sync_receive ?y ?e) True dt = Some (?s, [])"
    using assms(1) sync_consume_new [OF e assms(6), of "sync_advance ?y dt"]
    by (simp add: CO_SYNC_process_def sync_silent_def sync_consumer_def sync_advance_receive)
  then have "CO_process ?co1 dt = Some (co\<lparr>co_sync := ?s\<rparr>)"
    by (simp add: CO_process_def run_sync_def)
  then show ?thesis
    using rec assms(1) by (auto simp: sync_silent_def sync_consumer_def intro!: exI [of _ ?s])
qed

text \<open>A transmit PDO that is due: enabled, synchronous, with the counter and the mask of the SYNC
  message, and mapped to eight bytes of the dictionary.\<close>

definition tpdo_mapped ::
  "'w CO_TPDO \<Rightarrow> 'w CO_OD \<Rightarrow> pdo_map_object list \<Rightarrow> ((nat \<times> nat) \<times> 'w CO_Sub_Object) list \<Rightarrow> bool" where
  "tpdo_mapped t od es ts \<longleftrightarrow> entries_ok od es ts \<and> pdo_total es = 8
     \<and> p_mapping_data (tp_base t) = pdo_pointers es ts
     \<and> length (msg_data (pd_msg (tp_base t))) = 8 \<and> tpdo_valid t = 0
     \<and> build_data_option (comm_parameter t) \<noteq> CO_TPDO_build_data_manually
     \<and> tp_sync t \<noteq> NULL \<and> transmission_type (comm_parameter t) \<noteq> CO_TPDO_TRANSM_TYPE_EVENT_LO"

definition tpdo_due :: "'w CO_TPDO \<Rightarrow> u16 \<Rightarrow> u8 \<Rightarrow> bool" where
  "tpdo_due t c a \<longleftrightarrow> transmission_type (comm_parameter t) = c
     \<and> tc_sync_mask (comm_parameter t) AND push_bit (unat a) 1 \<noteq> 0"

lemma due_tpdo_sends:
  assumes "tpdo_mapped t od es ts" "tpdo_due t (sync_counter s) a" "aux_sync_reg s = push_bit (unat a) 1"
    and "entries_ok od' es ts'" "map fst ts' = map fst ts"
    and "map (so_len \<circ> snd) ts' = map (so_len \<circ> snd) ts"
  shows "\<exists>t' m. CO_TPDO_process od' (t\<lparr>tp_sync := sync_ptr s (tp_sync t)\<rparr>) dt True w = Some (t', [m], w)
     \<and> msg_data m = pdo_payload es ts'"
proof -
  have ok: "entries_ok od es ts" and total: "pdo_total es = 8" using assms(1) by (simp_all add: tpdo_mapped_def)
  have len: "length (pdo_payload es ts') = 8" "length (pdo_pointers es ts) = 8"
    using length_pdo_payload [OF assms(4)] length_pdo_pointers [OF ok] total by simp_all
  have copy: "tpdo_copy od' (pdo_pointers es ts) 0 8 d = Some (pdo_payload es ts')" if "length d = 8" for d
    using tpdo_copy_Some [of od' 0 "pdo_pointers es ts" "pdo_payload es ts'" d]
      read_entries [OF ok assms(4-6)] len that by simp
  show ?thesis
    using assms(1-3) copy
    by (cases "tp_sync t") (simp_all add: tpdo_mapped_def tpdo_due_def CO_TPDO_process_def tpdo_valid_def
        sync_ptr_def CO_SYNC_is_match_sync_mask_reg_def CO_TPDO_send_def Let_def and.commute)
qed

lemma invalid_tpdo_idle: "tpdo_valid t \<noteq> 0 \<Longrightarrow> CO_TPDO_process od t dt b w = Some (t, [], w)"
  by (simp add: CO_TPDO_process_def tpdo_valid_def Let_def)

lemma tpdo_valid_sync [simp]: "tpdo_valid (t\<lparr>tp_sync := q\<rparr>) = tpdo_valid t"
  by (simp add: tpdo_valid_def)

lemma co_sends_tpdo:
  assumes "sync_silent (co_sync co)" "index_in_cycle (co_sync co) = 0"
    and "co_tpdos co = [t, tb, tc, td]" "tpdo_valid tb \<noteq> 0" "tpdo_valid tc \<noteq> 0" "tpdo_valid td \<noteq> 0"
    and "tpdo_mapped t od es ts" "tpdo_due t (sync_counter (co_sync co)) a"
    and "aux_sync_reg (co_sync co) = push_bit (unat a) 1"
    and "entries_ok (co_od co) es ts'" "map fst ts' = map fst ts"
    and "map (so_len \<circ> snd) ts' = map (so_len \<circ> snd) ts"
  shows "\<exists>co' m. CO_process co dt = Some co' \<and> co_sent co' = co_sent co @ [m]
     \<and> msg_data m = pdo_payload es ts'"
proof -
  let ?y = "sync_tick (co_sync co) dt"
  have one: "index_in_cycle ?y = 1" using assms(2) by (simp add: sync_tick_index)
  have y: "sync_counter ?y = sync_counter (co_sync co)" "aux_sync_reg ?y = aux_sync_reg (co_sync co)"
    by (simp_all add: sync_tick_def)
  obtain t' m where m: "CO_TPDO_process (co_od co) (t\<lparr>tp_sync := sync_ptr ?y (tp_sync t)\<rparr>) dt True (co_app co)
      = Some (t', [m], co_app co)" "msg_data m = pdo_payload es ts'"
    using due_tpdo_sends [OF assms(7) _ _ assms(10-12), of ?y a dt "co_app co"] assms(8,9) y by auto
  have "\<not> 2 \<le> index_in_cycle ?y" by (simp add: one word_le_nat_alt)
  moreover have "TPDO_NUMBER = Suc (Suc (Suc (Suc 0)))" by (simp add: TPDO_NUMBER_def)
  ultimately have "CO_process co dt = tpdo_loop 0 (Suc (Suc (Suc (Suc 0)))) dt True (co\<lparr>co_sync := ?y\<rparr>)"
    by (simp only: CO_process_tpdo_def) (simp add: CO_process_def run_sync_silent [OF assms(1)] one
        CO_process_tpdo_def)
  then show ?thesis
    using m assms(3-6) by (simp add: mem_simps invalid_tpdo_idle)
qed

text \<open>C2:
  A value written over the SDO server is what the next PDO sends. Let a device that is a SYNC consumer stand between
  two SYNC messages, SDO server and client idle (\<open>co_serving\<close>). Its first transmit PDO is enabled, mapped to eight bytes of
  the dictionary and not built by hand, and due at the SYNC message that comes: its transmission type is the counter of
  the message and its mask has the bit of the auxiliary counter, which is below 32. The other three transmit PDOs are
  disabled. The device receives an expedited request with a size to write one to four bytes to an object that may be
  written, is at least that long and has neither a temporary buffer nor an extension of the application; it runs,
  less than the SDO timeout later, receives the SYNC message and runs twice. Every call returns, and the device has then sent
  exactly two messages: the acknowledgement of the request with its index and sub index, and the PDO, whose data show
  the mapped objects, the written one with the written bytes in place.\<close>

theorem sdo_write_reaches_pdo:
  assumes "co_serving co" "dt1 < allowed_timeout_ms (co_server co)"
    and "mux_of d ind si" "d ! 0 = expedited_cs 1 n" "0 < n" "n \<le> 4"
    and "od_target (co_od co) ind si i j sub" "writable sub" "plain_sub sub" "n \<le> so_len sub"
    and "unat n \<le> length (so_data sub)"
    and "co_tpdos co = [t, tb, tc, td]" "tpdo_valid tb \<noteq> 0" "tpdo_valid tc \<noteq> 0" "tpdo_valid td \<noteq> 0"
    and "tpdo_mapped t (co_od co) es ts" "tpdo_due t c (y ! 2)"
    and "length y = 8" "CO_getUint16 y 0 = Some c" "unat (y ! 2) < 32"
  shows "\<exists>co1 co2 co3 co4 co5 ack m.
     CO_can_receive_basic_handle co (cob_can_id (msg_id (rx_msg (co_server co)))) d = Some (True, co1)
     \<and> CO_process co1 dt1 = Some co2
     \<and> CO_can_receive_basic_handle co2 (cob_can_id (msg_id (sy_msg (co_sync co)))) y = Some (True, co3)
     \<and> CO_process co3 dt2 = Some co4 \<and> CO_process co4 dt3 = Some co5
     \<and> co_sent co5 = co_sent co @ [ack, m] \<and> msg_data ack ! 0 = 0x60 \<and> mux_of (msg_data ack) ind si
     \<and> msg_data m = pdo_payload es
         (map (entry_update (i, j) (store_at 0 (take (unat n) (drop 4 d)) sub)) ts)"
proof -
  let ?sub = "store_at 0 (take (unat n) (drop 4 d)) sub"
  let ?ts = "map (entry_update (i, j) ?sub) ts"
  have d: "length d = 8" using assms(3) by (simp add: mux_of_def)
  have n4: "unat n \<le> 4" using assms(6) by (simp add: word_le_nat_alt)
  have x: "so_len ?sub = so_len sub" "length (so_data ?sub) = length (so_data sub)"
    using assms(11) d n4 by (simp_all add: store_at_def)
  have sy: "sync_silent (co_sync co)" "length (msg_data (sy_msg (co_sync co))) = 8"
      "msg_len (sy_msg (co_sync co)) = 3"
    using assms(1) by (simp_all add: co_serving_def)
  obtain co2 ack where c2: "CO_process (co_request co d) dt1 = Some co2"
      "co_od co2 = od_put i j ?sub (co_od co)" "co_sent co2 = co_sent co @ [ack]"
      "msg_data ack ! 0 = 0x60" "mux_of (msg_data ack) ind si" "co_tpdos co2 = co_tpdos co"
      "co_sync co2 = sync_tick (co_sync co) dt1"
    using co_serves_download [OF assms(1-11)] by blast
  have tick: "sy_msg (co_sync co2) = sy_msg (co_sync co)" by (simp add: c2(7) sync_tick_def)
  obtain co3 s where c3: "CO_can_receive_basic_handle co2 (cob_can_id (msg_id (sy_msg (co_sync co)))) y
        = Some (True, co3)"
      "CO_process co3 dt2 = Some (co2\<lparr>co_sync := s\<rparr>)" "sync_silent s" "index_in_cycle s = 0"
      "sync_counter s = c" "aux_sync_reg s = push_bit (unat (y ! 2)) 1"
    using co_takes_sync [of co2 y c dt2] sy tick c2(7) assms(18-20) by (metis sync_tick_silent)
  have es: "entries_ok (co_od co) es ts" using assms(16) by (simp add: tpdo_mapped_def)
  note put = entries_ok_put [OF es od_target_lookup(4) [OF assms(7)] x]
  have "\<exists>co' m. CO_process (co2\<lparr>co_sync := s\<rparr>) dt3 = Some co'
     \<and> co_sent co' = co_sent (co2\<lparr>co_sync := s\<rparr>) @ [m] \<and> msg_data m = pdo_payload es ?ts"
    by (rule co_sends_tpdo [where t = t and tb = tb and tc = tc and td = td and od = "co_od co" and ts = ts and a = "y ! 2"])
      (use c2 c3 assms(12-17) put in simp_all)
  then show ?thesis
    using receive_request [OF assms(1) d] c2(1,3-5) c3(1,2) by fastforce
qed

subsection \<open>A sample device\<close>

text \<open>A device with the sample dictionary of \<open>Co_Pdo\<close>, whose first transmit PDO maps both objects
  and is sent with SYNC message 1; the others are disabled.\<close>

definition sample_entries :: "pdo_map_object list" where
  "sample_entries = [pdo_entry 0x2000 3, pdo_entry 0x2001 5]"

definition sample_subs :: "bytes \<Rightarrow> bytes \<Rightarrow> ((nat \<times> nat) \<times> unit CO_Sub_Object) list" where
  "sample_subs a b = [((0, 0), pdo_sub a), ((1, 0), pdo_sub b)]"

definition sample_tpdo :: "unit CO_TPDO" where
  "sample_tpdo = pdo_blank\<lparr>tp_sync := Ref (sample_sync 0x80), tp_base := (tp_base pdo_blank)
     \<lparr>p_mapping_data := pdo_pointers sample_entries (sample_subs [1, 2, 3] [4, 5, 6, 7])\<rparr>\<rparr>"

definition sample_co :: "u16 \<Rightarrow> unit CO" where
  "sample_co index =
     \<lparr>device_type = 0, co_status = 0, co_sync = (sample_sync 0x80)\<lparr>index_in_cycle := index\<rparr>,
      co_server = CO_SDO.truncate (CO_SDOserver_init sample_run
        \<lparr>x1031_node_id = 5, x1031_trans_type = 0, x1031_allow_timeout_ms = 100\<rparr> NULL link_od),
      co_client = CO_SDO.truncate sample_run,
      co_tpdos = sample_tpdo # replicate 3 (tpdo_set_valid 1 pdo_blank),
      co_emcy = \<lparr>em_data = replicate 8 0, em_code = 0, em_reg = 0, em_error_no = 0, em_list = replicate 9 0\<rparr>,
      co_od = pdo_od [1, 2, 3] [4, 5, 6, 7], co_cli_sub = sample_sub 0 [], co_sent = [], co_app = ()\<rparr>"

lemma sample_sync_silent:
  "sync_silent (co_sync (sample_co k))" "index_in_cycle (co_sync (sample_co k)) = k"
  by (simp_all add: sample_co_def sync_silent_def sync_consumer_def sample_sync_def cob_valid_def cob_bit_30_def)

lemma sample_serving: "co_serving (sample_co 1)"
  by (simp add: co_serving_def sample_sync_silent)
    (simp add: sample_co_def sdo_ready_def sample_sync_def sample_run_def CO_SDOserver_init_def
      CO_SDO.defs sdo_effects cob_can_id_def set_can_id_def blank_msg_def)

lemma sample_mapped:
  "tpdo_mapped sample_tpdo (pdo_od [1, 2, 3] [4, 5, 6, 7]) sample_entries (sample_subs [1, 2, 3] [4, 5, 6, 7])"
  using pdo_sample [of "[1, 2, 3]" "[4, 5, 6, 7]"] pdo_sample_room(3,4)
  by (simp add: tpdo_mapped_def sample_entries_def sample_subs_def sample_tpdo_def pdo_blank_def
      tpdo_valid_def cob_valid_def pdo_comm_def CO_TPDO_TRANSM_TYPE_EVENT_LO_def del: entries_ok_Cons)

lemma sdo_write_reaches_pdo_witness:
  "\<exists>co1 co2 co3 co4 co5 ack m.
     CO_can_receive_basic_handle (sample_co 1) (cob_can_id (msg_id (rx_msg (co_server (sample_co 1)))))
       [0x27, 0, 0x20, 0, 11, 12, 13, 0] = Some (True, co1)
     \<and> CO_process co1 1 = Some co2
     \<and> CO_can_receive_basic_handle co2 (cob_can_id (msg_id (sy_msg (co_sync (sample_co 1)))))
         [1, 0, 0, 0, 0, 0, 0, 0] = Some (True, co3)
     \<and> CO_process co3 1 = Some co4 \<and> CO_process co4 1 = Some co5
     \<and> co_sent co5 = co_sent (sample_co 1) @ [ack, m] \<and> msg_data m = [11, 12, 13, 4, 5, 6, 7, 0]"
proof -
  have target: "od_target (co_od (sample_co 1)) 0x2000 0 0 0 (pdo_sub [1, 2, 3])"
    using pdo_sample [of "[1, 2, 3]" "[4, 5, 6, 7]"] by (simp add: entry_sub_def pdo_entry_def sample_co_def)
  have sub: "writable (pdo_sub [1, 2, 3])" "plain_sub (pdo_sub [1, 2, 3])"
    by (simp_all add: writable_def plain_sub_def pdo_sub_def ODA_SDO_W_def)
  have pdos: "co_tpdos (sample_co 1) = [sample_tpdo, tpdo_set_valid 1 pdo_blank, tpdo_set_valid 1 pdo_blank,
      tpdo_set_valid 1 pdo_blank]" "tpdo_valid (tpdo_set_valid 1 pdo_blank) \<noteq> 0"
    by (simp_all add: sample_co_def numeral_3_eq_3 tpdo_valid_def tpdo_set_valid_def pdo_set_valid_def)
  have mapped: "tpdo_mapped sample_tpdo (co_od (sample_co 1)) sample_entries (sample_subs [1, 2, 3] [4, 5, 6, 7])"
    using sample_mapped by (simp add: sample_co_def)
  have due: "tpdo_due sample_tpdo 1 ([1, 0, 0, 0, 0, 0, 0, 0] ! 2)"
    by (simp add: tpdo_due_def sample_tpdo_def pdo_blank_def pdo_comm_def)
  have mux: "mux_of [0x27, 0, 0x20, 0, 11, 12, 13, 0] 0x2000 0" "[0x27, 0, 0x20, 0, 11, 12, 13, 0] ! 0 = expedited_cs 1 3"
    by (simp_all add: mux_of_def CO_getUint16_def mem_simps be16_def expedited_cs_def mask_defs)
  have time: "1 < allowed_timeout_ms (co_server (sample_co 1))"
    by (simp add: sample_co_def CO_SDO.defs CO_SDOserver_init_def)
  have pay: "pdo_payload sample_entries (map (entry_update (0, 0)
      (store_at 0 (take (unat (3 :: u16)) (drop 4 [0x27, 0, 0x20, 0, 11, 12, 13, 0])) (pdo_sub [1, 2, 3])))
      (sample_subs [1, 2, 3] [4, 5, 6, 7])) = [11, 12, 13, 4, 5, 6, 7, 0]"
    by (simp add: sample_entries_def sample_subs_def entry_update_def entry_bytes_def store_at_def
        pdo_sub_def pdo_entry_def upt_rec)
  have "CO_getUint16 [1, 0, 0, 0, 0, 0, 0, 0] 0 = Some 1"
    by (simp add: CO_getUint16_def mem_simps be16_def)
  moreover have "(0 :: u16) < 3" "(3 :: u16) \<le> 4" "3 \<le> so_len (pdo_sub [1, 2, 3])"
      "unat (3 :: u16) \<le> length (so_data (pdo_sub [1, 2, 3]))"
      "length ([1, 0, 0, 0, 0, 0, 0, 0] :: bytes) = 8" "unat (([1, 0, 0, 0, 0, 0, 0, 0] :: bytes) ! 2) < 32"
    by (simp_all add: pdo_sub_def word_less_nat_alt word_le_nat_alt)
  ultimately show ?thesis
    using sdo_write_reaches_pdo [OF sample_serving time mux _ _ target sub _ _ pdos(1,2,2,2) mapped due,
        of 1 1, unfolded pay] by blast
qed

lemma sample_tpdo_waits:
  "sync_counter y = 4 \<Longrightarrow> CO_TPDO_process od (sample_tpdo\<lparr>tp_sync := Ref y\<rparr>) 1 True w
     = Some (sample_tpdo\<lparr>tp_sync := Ref y\<rparr>, [], w)"
  by (simp add: CO_TPDO_process_def sample_tpdo_def pdo_blank_def pdo_comm_def
      CO_TPDO_TRANSM_TYPE_EVENT_LO_def CO_TPDO_TRANSM_TYPE_SYNC_ACYCLIC_def cob_valid_def)

lemma cob_can_id_valid [simp]: "cob_can_id (set_cob_valid cid v) = cob_can_id cid"
proof -
  have m: "(0x1FFFFFFF :: u32) = mask 29" by (simp add: mask_eq_exp_minus_1)
  show ?thesis
    unfolding cob_can_id_def m
    by (rule bit_word_eqI) (auto simp: set_cob_valid_def bit_simps)
qed

lemma tpdos_run_once_per_cycle_witness:
  "\<exists>co1 co'. co_run [1] (sample_co 0) = Some co' \<and> CO_process (sample_co 0) 1 = Some co1
     \<and> co_od co1 = co_od (sample_co 0) \<and> co_tpdos co' = co_tpdos co1"
proof -
  let ?y = "sync_tick (co_sync (sample_co 0)) 1"
  let ?t = "sample_tpdo\<lparr>tp_sync := Ref ?y\<rparr>"
  have y: "index_in_cycle ?y = 1" "sync_counter ?y = 4"
    by (simp_all add: sync_tick_index sample_sync_silent) (simp add: sync_tick_def sample_co_def sample_sync_def)
  have t: "CO_TPDO_process od ?t 1 True w = Some (?t, [], w)" for od w
    by (rule sample_tpdo_waits) (simp add: y(2))
  have pdos: "co_tpdos (sample_co 0) = [sample_tpdo, tpdo_set_valid 1 pdo_blank, tpdo_set_valid 1 pdo_blank,
      tpdo_set_valid 1 pdo_blank]" "tpdo_valid (tpdo_set_valid 1 pdo_blank) \<noteq> 0"
      "sync_ptr ?y (tp_sync sample_tpdo) = Ref ?y" "TPDO_NUMBER = Suc (Suc (Suc (Suc 0)))"
    by (simp_all add: sample_co_def numeral_3_eq_3 tpdo_valid_def tpdo_set_valid_def pdo_set_valid_def
        sample_tpdo_def sync_ptr_def TPDO_NUMBER_def)
  have "\<not> 2 \<le> index_in_cycle ?y" by (simp add: y(1) word_le_nat_alt)
  then have "\<exists>co'. co_run [1] (sample_co 0) = Some co'"
    unfolding co_run.simps CO_process_def run_sync_silent [OF sample_sync_silent(1)] CO_process_tpdo_def pdos(4)
    by (simp add: y(1) pdos(1-3) mem_simps t invalid_tpdo_idle)
  then show ?thesis
    using tpdos_run_once_per_cycle [OF sample_sync_silent, of 1 "[]"] by blast
qed

lemma disabled_sync_stalls_device_witness:
  "\<exists>co'. CO_can_receive_basic_handle (CO_disable_sync_mode (sample_co 0)) 0x605 [0x40, 0, 0x20, 0, 0, 0, 0, 0]
       = Some (True, co') \<and> CO_process co' 1 = Some co' \<and> co_sent co' = []"
proof -
  let ?co = "CO_disable_sync_mode (sample_co 0)"
  obtain co' where r: "CO_can_receive_basic_handle ?co 0x605 [0x40, 0, 0x20, 0, 0, 0, 0, 0] = Some (True, co')"
    by (simp add: CO_can_receive_basic_handle_def Let_def CO_disable_sync_mode_def sample_co_def
        sdo_retype_def sync_set_valid_def sample_run_def CO_SDOserver_init_def CO_SDO.defs sdo_effects
        sample_sync_def blank_msg_def)
      (simp add: cob_can_id_def set_can_id_def copy_data_def CO_memcpy_def mem_simps)
  then have "co_reachable ?co co'" by (rule co_frame [OF co_start])
  from disabled_sync_stalls_device [OF sample_sync_silent(2) this] r show ?thesis
    by (auto simp: sample_co_def)
qed

end
