(* ===== verification/Boot_Slave.thy ===== *)
theory Boot_Slave
  imports Segment Timer
begin

section \<open>The boot slave of the upgrade master\<close>

text \<open>
  Models \<^verbatim>\<open>common/upgrade/master/boot-core/sm_boot_slave.c\<close>: the object by which an upgrade
  master drives the upgrade of one device. It takes segments of the new firmware from a boot input
  and hands them to a boot output, which delivers them and confirms them by events. Inputs and
  outputs are addresses; their procedures are the fields of an environment record over a world
  \<open>'w\<close>. An output delivers its events while its \<open>process\<close> runs, so that procedure acts on the
  slave too; the events of an output are those of the slave that owns it.

  The callbacks of a slave are called as its last action. They may destroy the slave, so
  \<open>sm_boot_slave_process\<close> returns the callback to call; a callback is of a type \<open>'cb\<close> that the
  owner of the slave chooses.
\<close>

subsection \<open>State\<close>

abbreviation SM_BOOT_SLAVE_REQUEST_UPGRADE_PERIOD :: int where
  "SM_BOOT_SLAVE_REQUEST_UPGRADE_PERIOD \<equiv> 2500"
abbreviation SM_BOOT_SLAVE_WAITING_CONFIRM_FW_INFO_TIMEOUT :: int where
  "SM_BOOT_SLAVE_WAITING_CONFIRM_FW_INFO_TIMEOUT \<equiv> 5 * 1000"
abbreviation SM_BOOT_SLAVE_WAITING_CONFIRM_SEG_TIMEOUT :: int where
  "SM_BOOT_SLAVE_WAITING_CONFIRM_SEG_TIMEOUT \<equiv> 20 * 1000"
abbreviation SM_BOOT_SLAVE_WAITING_FULL_SEGMENT_TIMEOUT :: int where
  "SM_BOOT_SLAVE_WAITING_FULL_SEGMENT_TIMEOUT \<equiv> 10 * 1000"
abbreviation SM_BOOT_SLAVE_REPEAT_MAX :: u8 where "SM_BOOT_SLAVE_REPEAT_MAX \<equiv> 5"
abbreviation SM_BOOT_SLAVE_EVENT_NUMBER :: nat where "SM_BOOT_SLAVE_EVENT_NUMBER \<equiv> 5"
abbreviation SM_FW_VERSION_LENGTH :: nat where "SM_FW_VERSION_LENGTH \<equiv> 3"

datatype SM_BOOT_SLAVE_STATE =
    SLAVE_IDLE | SLAVE_REQUEST_UPGRADE | SLAVE_SEND_FW_INFO | SLAVE_SEND_SEG
  | SLAVE_FINISH_DOWNLOAD | SLAVE_ABORT | SLAVE_STATE_NUMBER

datatype SM_BOOT_SLAVE_EVENT =
    CONFIRM_READY | CONFIRM_FW_INFO | CONFIRM_SEG | CONFIRM_FINISH_DOWNLOAD | CONFIRM_ABORT

fun slave_event_index :: "SM_BOOT_SLAVE_EVENT \<Rightarrow> nat" where
  "slave_event_index CONFIRM_READY = 0"
| "slave_event_index CONFIRM_FW_INFO = 1"
| "slave_event_index CONFIRM_SEG = 2"
| "slave_event_index CONFIRM_FINISH_DOWNLOAD = 3"
| "slave_event_index CONFIRM_ABORT = 4"

text \<open>The firmware signature of the master, which has one field more than the loader's.\<close>

record fw_info =
  fi_version :: bytes
  fi_addr :: u32
  fi_size :: u32
  fi_crc :: u16
  fi_data_address_offset :: int
  fi_is_valid :: u8

definition fw_info_clone :: "fw_info \<Rightarrow> fw_info \<Rightarrow> fw_info" where
  "fw_info_clone self other = self\<lparr>fi_version := fi_version other, fi_addr := fi_addr other,
     fi_size := fi_size other, fi_crc := fi_crc other, fi_is_valid := fi_is_valid other\<rparr>"

record 'cb sm_boot_slave =
  bs_id :: int
  bs_input :: "nat ptr"
  bs_output :: "nat ptr"
  bs_segment :: "sm_segment ptr"
  bs_waiting_seg :: u8
  bs_new_fw_signature :: fw_info
  bs_state :: SM_BOOT_SLAVE_STATE
  bs_events :: "'cb ptr list"
  bs_timeout :: elapsed_timer
  bs_repeat :: u8
  bs_master :: "nat ptr"

text \<open>The five functions of the slave that an output calls.\<close>

datatype slave_event_fn = On_ready | On_fw_info | On_seg | On_finish_download | On_abort

record ('cb, 'w) slave_env =
  sl_tick :: "'w clock"
  in_init :: "nat \<Rightarrow> 'w \<Rightarrow> 'w"
  in_free :: "nat \<Rightarrow> 'w \<Rightarrow> 'w"
  in_get_fw_info :: "nat \<Rightarrow> 'w \<Rightarrow> int \<times> fw_info \<times> 'w"
  in_get_seg_fw :: "nat \<Rightarrow> sm_segment \<Rightarrow> 'w \<Rightarrow> int \<times> sm_segment \<times> 'w"
  in_seg_upgrade_completed :: "nat \<Rightarrow> (int \<Rightarrow> 'w \<Rightarrow> 'w) ptr"
  in_process :: "nat \<Rightarrow> ('w \<Rightarrow> 'w) ptr"
  out_init :: "nat \<Rightarrow> 'w \<Rightarrow> 'w"
  out_free :: "nat \<Rightarrow> 'w \<Rightarrow> 'w"
  out_reg_event :: "nat \<Rightarrow> SM_BOOT_SLAVE_EVENT \<Rightarrow> slave_event_fn \<Rightarrow> 'w \<Rightarrow> 'w"
  out_request_upgrade :: "nat \<Rightarrow> int \<Rightarrow> 'w \<Rightarrow> 'w"
  out_set_fw_info :: "nat \<Rightarrow> fw_info \<Rightarrow> 'w \<Rightarrow> 'w"
  out_set_seg_fw :: "nat \<Rightarrow> sm_segment \<Rightarrow> 'w \<Rightarrow> int \<times> 'w"
  out_process :: "nat \<Rightarrow> ('cb sm_boot_slave \<Rightarrow> 'w \<Rightarrow> ('cb sm_boot_slave \<times> 'w) option) ptr"

subsection \<open>Creation\<close>

text \<open>
  \<open>mem\<close> is what \<open>mem_alloc\<close> returned, an object of arbitrary contents or \<open>NULL\<close>. The callback
  for an abort is registered under the event for a finished download.
\<close>

definition reg_slave_events :: "('cb, 'w) slave_env \<Rightarrow> SM_BOOT_SLAVE_EVENT \<Rightarrow> nat \<Rightarrow> 'w \<Rightarrow> 'w" where
  "reg_slave_events env abort_event output w =
     out_reg_event env output abort_event On_abort
       (out_reg_event env output CONFIRM_FINISH_DOWNLOAD On_finish_download
         (out_reg_event env output CONFIRM_SEG On_seg
           (out_reg_event env output CONFIRM_FW_INFO On_fw_info
             (out_reg_event env output CONFIRM_READY On_ready w))))"

definition sm_boot_slave_create ::
  "('cb, 'w) slave_env \<Rightarrow> 'cb sm_boot_slave ptr \<Rightarrow> bool \<Rightarrow> int \<Rightarrow> nat ptr \<Rightarrow> nat ptr \<Rightarrow> nat ptr \<Rightarrow> 'w
     \<Rightarrow> 'cb sm_boot_slave ptr \<times> 'w" where
  "sm_boot_slave_create env mem seg_ok id' input output master w =
     (case (input, output) of
        (Ref i, Ref q) \<Rightarrow>
          if id' < 0 then (NULL, w)
          else (case (mem, sm_seg_create seg_ok) of
            (Ref obj, Ref seg) \<Rightarrow>
              let (t, w) = elapsed_timer_resetz (sl_tick env) (bs_timeout obj) 0 w;
                  obj = obj\<lparr>bs_segment := Ref seg, bs_id := id', bs_state := SLAVE_IDLE, bs_timeout := t,
                    bs_repeat := 0, bs_waiting_seg := 0, bs_output := output, bs_input := input,
                    bs_master := master\<rparr>
              in (Ref obj, reg_slave_events env CONFIRM_FINISH_DOWNLOAD q (out_init env q (in_init env i w)))
          | _ \<Rightarrow> (NULL, w))
      | _ \<Rightarrow> (NULL, w))"

definition sm_boot_slave_create_default ::
  "('cb, 'w) slave_env \<Rightarrow> 'cb sm_boot_slave \<Rightarrow> bool \<Rightarrow> int \<Rightarrow> nat ptr \<Rightarrow> nat ptr \<Rightarrow> nat ptr \<Rightarrow> 'w
     \<Rightarrow> 'cb sm_boot_slave ptr \<times> 'w" where
  "sm_boot_slave_create_default env g seg_ok id' input output master w =
     (case (input, output) of
        (Ref i, Ref q) \<Rightarrow>
          (case sm_seg_create seg_ok of
             NULL \<Rightarrow> (NULL, w)
           | Ref seg \<Rightarrow>
               (Ref (g\<lparr>bs_segment := Ref seg, bs_id := id', bs_input := input, bs_output := output,
                  bs_master := master\<rparr>),
                reg_slave_events env CONFIRM_ABORT q (out_init env q (in_init env i w))))
      | _ \<Rightarrow> (NULL, w))"

definition sm_boot_slave_destroy :: "('cb, 'w) slave_env \<Rightarrow> 'cb sm_boot_slave ptr \<Rightarrow> 'w \<Rightarrow> int \<times> 'w" where
  "sm_boot_slave_destroy env p w =
     (case p of
        NULL \<Rightarrow> (-1, w)
      | Ref s \<Rightarrow>
          let w = (case bs_input s of NULL \<Rightarrow> w | Ref i \<Rightarrow> in_free env i w)
          in (0, case bs_output s of NULL \<Rightarrow> w | Ref q \<Rightarrow> out_free env q w))"

definition sm_boot_slave_get_master :: "'cb sm_boot_slave ptr \<Rightarrow> nat ptr" where
  "sm_boot_slave_get_master p = (case p of NULL \<Rightarrow> NULL | Ref s \<Rightarrow> bs_master s)"

definition sm_boot_slave_get_id :: "'cb sm_boot_slave ptr \<Rightarrow> int" where
  "sm_boot_slave_get_id p = (case p of NULL \<Rightarrow> -1 | Ref s \<Rightarrow> bs_id s)"

definition sm_boot_slave_update_if ::
  "'cb sm_boot_slave ptr \<Rightarrow> nat ptr \<Rightarrow> nat ptr \<Rightarrow> int \<times> 'cb sm_boot_slave ptr" where
  "sm_boot_slave_update_if p input output =
     (case p of
        NULL \<Rightarrow> (-1, p)
      | Ref s \<Rightarrow> if is_null input \<or> is_null output then (-1, p)
                 else (0, Ref (s\<lparr>bs_input := input, bs_output := output\<rparr>)))"

text \<open>The argument stored with a callback is never used and is left out.\<close>

definition sm_boot_slave_reg_event ::
  "'cb sm_boot_slave ptr \<Rightarrow> nat \<Rightarrow> 'cb ptr \<Rightarrow> int \<times> 'cb sm_boot_slave ptr" where
  "sm_boot_slave_reg_event p event callback =
     (case p of
        NULL \<Rightarrow> (-1, p)
      | Ref s \<Rightarrow> if is_null callback \<or> SM_BOOT_SLAVE_EVENT_NUMBER \<le> event then (-1, p)
                 else (0, Ref (s\<lparr>bs_events := (bs_events s)[event := callback]\<rparr>)))"

subsection \<open>Events of the output\<close>

definition confirm_ready :: "('cb, 'w) slave_env \<Rightarrow> u8 \<Rightarrow> 'cb sm_boot_slave \<Rightarrow> 'w \<Rightarrow> 'cb sm_boot_slave \<times> 'w" where
  "confirm_ready env ready s w =
     (if ready \<noteq> 0 then
        let (t, w) = elapsed_timer_resetz (sl_tick env) (bs_timeout s) SM_BOOT_SLAVE_WAITING_FULL_SEGMENT_TIMEOUT w
        in (s\<lparr>bs_repeat := 0, bs_state := SLAVE_SEND_SEG, bs_timeout := t\<rparr>, w)
      else (s, w))"

definition confirm_fw_info :: "u8 \<Rightarrow> 'cb sm_boot_slave \<Rightarrow> 'cb sm_boot_slave" where
  "confirm_fw_info success s =
     (if success \<noteq> 0 then s\<lparr>bs_state := SLAVE_FINISH_DOWNLOAD\<rparr>
      else s\<lparr>bs_timeout := elapsed_timer_pass (bs_timeout s)\<rparr>)"

definition confirm_seg ::
  "('cb, 'w) slave_env \<Rightarrow> u8 \<Rightarrow> 'cb sm_boot_slave \<Rightarrow> 'w \<Rightarrow> ('cb sm_boot_slave \<times> 'w) option" where
  "confirm_seg env success s w =
     (if success \<noteq> 0 then
        (case (bs_segment s, bs_input s) of
           (Ref seg, Ref i) \<Rightarrow>
             let w = (case in_seg_upgrade_completed env i of NULL \<Rightarrow> w | Ref f \<Rightarrow> f (sg_index seg) w);
                 s = s\<lparr>bs_segment := Ref (seg\<lparr>sg_index := sg_index seg + 1\<rparr>)\<rparr>
             in if sg_is_last seg \<noteq> 0 then
                  Some (s\<lparr>bs_state := SLAVE_SEND_FW_INFO, bs_timeout := elapsed_timer_pass (bs_timeout s),
                          bs_waiting_seg := 0, bs_repeat := 0\<rparr>, w)
                else
                  (case elapsed_timer_reset (sl_tick env) (bs_timeout s) w of (t, w) \<Rightarrow>
                     Some (s\<lparr>bs_repeat := 0, bs_timeout := t, bs_waiting_seg := 0\<rparr>, w))
         | _ \<Rightarrow> None)
      else Some (s\<lparr>bs_waiting_seg := 0\<rparr>, w))"

definition slave_event ::
  "('cb, 'w) slave_env \<Rightarrow> slave_event_fn \<Rightarrow> u8 \<Rightarrow> 'cb sm_boot_slave \<Rightarrow> 'w \<Rightarrow> ('cb sm_boot_slave \<times> 'w) option" where
  "slave_event env f data s w =
     (case f of
        On_ready \<Rightarrow> Some (confirm_ready env data s w)
      | On_fw_info \<Rightarrow> Some (confirm_fw_info data s, w)
      | On_seg \<Rightarrow> confirm_seg env data s w
      | On_finish_download \<Rightarrow> Some (s\<lparr>bs_state := SLAVE_FINISH_DOWNLOAD\<rparr>, w)
      | On_abort \<Rightarrow> Some (s\<lparr>bs_state := SLAVE_ABORT\<rparr>, w))"

subsection \<open>One call of the slave\<close>

type_synonym ('cb, 'w) slave_result = "(int \<times> 'cb sm_boot_slave \<times> 'w \<times> 'cb ptr) option"

definition to_ptr :: "'a ptr \<Rightarrow> 'a option" where
  "to_ptr p = (case p of NULL \<Rightarrow> None | Ref x \<Rightarrow> Some x)"

lemma to_ptr_simps [simp]: "to_ptr NULL = None" "to_ptr (Ref x) = Some x"
  by (simp_all add: to_ptr_def)

definition slave_request_upgrade :: "('cb, 'w) slave_env \<Rightarrow> 'cb sm_boot_slave \<Rightarrow> 'w \<Rightarrow> ('cb, 'w) slave_result" where
  "slave_request_upgrade env s w =
     (case elapsed_timer_get_remain (sl_tick env) (bs_timeout s) w of (remain, w) \<Rightarrow>
        if remain \<noteq> 0 then Some (0, s, w, NULL)
        else do {
          let s = s\<lparr>bs_repeat := bs_repeat s + 1\<rparr>;
          q \<leftarrow> to_ptr (bs_output s);
          let w = out_request_upgrade env q (bs_id s) w;
          let s = (if SM_BOOT_SLAVE_REPEAT_MAX \<le> bs_repeat s then s\<lparr>bs_state := SLAVE_ABORT\<rparr> else s);
          let (t, w) = elapsed_timer_resetz (sl_tick env) (bs_timeout s) SM_BOOT_SLAVE_REQUEST_UPGRADE_PERIOD w;
          Some (0, s\<lparr>bs_timeout := t\<rparr>, w, NULL) })"

definition slave_send_fw_info :: "('cb, 'w) slave_env \<Rightarrow> 'cb sm_boot_slave \<Rightarrow> 'w \<Rightarrow> ('cb, 'w) slave_result" where
  "slave_send_fw_info env s w =
     (case elapsed_timer_get_remain (sl_tick env) (bs_timeout s) w of (remain, w) \<Rightarrow>
        if remain \<noteq> 0 then Some (0, s, w, NULL)
        else do {
          let (t, w) = elapsed_timer_resetz (sl_tick env) (bs_timeout s)
                         SM_BOOT_SLAVE_WAITING_CONFIRM_FW_INFO_TIMEOUT w;
          let s = s\<lparr>bs_timeout := t, bs_repeat := bs_repeat s + 1\<rparr>;
          let s = (if SM_BOOT_SLAVE_REPEAT_MAX \<le> bs_repeat s then s\<lparr>bs_state := SLAVE_ABORT\<rparr> else s);
          i \<leftarrow> to_ptr (bs_input s);
          (case in_get_fw_info env i w of (ret, signature, w) \<Rightarrow>
             if ret < 0 then Some (0, s, w, NULL)
             else do {
               let s = s\<lparr>bs_new_fw_signature := fw_info_clone (bs_new_fw_signature s) signature\<rparr>;
               q \<leftarrow> to_ptr (bs_output s);
               Some (0, s, out_set_fw_info env q (bs_new_fw_signature s) w, NULL) }) })"

text \<open>The part that hands the segment to the output, once it is loaded.\<close>

definition offer_segment :: "('cb, 'w) slave_env \<Rightarrow> 'cb sm_boot_slave \<Rightarrow> 'w \<Rightarrow> ('cb, 'w) slave_result" where
  "offer_segment env s w = do {
     let (t, w) = elapsed_timer_resetz (sl_tick env) (bs_timeout s) SM_BOOT_SLAVE_WAITING_CONFIRM_SEG_TIMEOUT w;
     let s = s\<lparr>bs_waiting_seg := 1, bs_timeout := t, bs_repeat := bs_repeat s + 1\<rparr>;
     seg \<leftarrow> to_ptr (bs_segment s);
     q \<leftarrow> to_ptr (bs_output s);
     (case out_set_seg_fw env q seg w of (ret, w) \<Rightarrow>
        if ret < 0 then Some (-1, s, w, NULL)
        else if SM_BOOT_SLAVE_REPEAT_MAX \<le> bs_repeat s then Some (0, s\<lparr>bs_state := SLAVE_ABORT\<rparr>, w, NULL)
        else Some (0, s, w, NULL)) }"

definition slave_send_seg :: "('cb, 'w) slave_env \<Rightarrow> 'cb sm_boot_slave \<Rightarrow> 'w \<Rightarrow> ('cb, 'w) slave_result" where
  "slave_send_seg env s w =
     (if bs_waiting_seg s = 0 then
        (if bs_repeat s = 0 then do {
           i \<leftarrow> to_ptr (bs_input s);
           seg \<leftarrow> to_ptr (bs_segment s);
           (case in_get_seg_fw env i seg w of (ret, seg, w) \<Rightarrow>
              let s = s\<lparr>bs_segment := Ref seg\<rparr> in
              if ret < 0 then Some (0, s\<lparr>bs_state := SLAVE_ABORT\<rparr>, w, NULL)
              else if ret = 0 then Some (0, s, w, NULL)
              else offer_segment env s w) }
         else offer_segment env s w)
      else
        (case elapsed_timer_get_remain (sl_tick env) (bs_timeout s) w of (remain, w) \<Rightarrow>
           if remain \<noteq> 0 then Some (0, s, w, NULL)
           else (case elapsed_timer_reset (sl_tick env) (bs_timeout s) w of (t, w) \<Rightarrow>
                   Some (0, s\<lparr>bs_state := SLAVE_ABORT, bs_timeout := t\<rparr>, w, NULL))))"

definition slave_switch :: "('cb, 'w) slave_env \<Rightarrow> 'cb sm_boot_slave \<Rightarrow> 'w \<Rightarrow> ('cb, 'w) slave_result" where
  "slave_switch env s w =
     (case bs_state s of
        SLAVE_IDLE \<Rightarrow> Some (0, s\<lparr>bs_state := SLAVE_REQUEST_UPGRADE\<rparr>, w, NULL)
      | SLAVE_REQUEST_UPGRADE \<Rightarrow> slave_request_upgrade env s w
      | SLAVE_SEND_FW_INFO \<Rightarrow> slave_send_fw_info env s w
      | SLAVE_SEND_SEG \<Rightarrow> slave_send_seg env s w
      | SLAVE_FINISH_DOWNLOAD \<Rightarrow>
          do { cb \<leftarrow> mem_get (bs_events s) (slave_event_index CONFIRM_FINISH_DOWNLOAD); Some (0, s, w, cb) }
      | SLAVE_ABORT \<Rightarrow>
          do { cb \<leftarrow> mem_get (bs_events s) (slave_event_index CONFIRM_ABORT); Some (0, s, w, cb) }
      | SLAVE_STATE_NUMBER \<Rightarrow> Some (0, s\<lparr>bs_state := SLAVE_ABORT\<rparr>, w, NULL))"

definition slave_poll :: "('cb, 'w) slave_env \<Rightarrow> 'cb sm_boot_slave \<Rightarrow> 'w \<Rightarrow> ('cb sm_boot_slave \<times> 'w) option" where
  "slave_poll env s w = do {
     i \<leftarrow> to_ptr (bs_input s);
     let w = (case in_process env i of NULL \<Rightarrow> w | Ref f \<Rightarrow> f w);
     q \<leftarrow> to_ptr (bs_output s);
     (case out_process env q of NULL \<Rightarrow> Some (s, w) | Ref f \<Rightarrow> f s w) }"

definition sm_boot_slave_process ::
  "('cb, 'w) slave_env \<Rightarrow> 'cb sm_boot_slave ptr \<Rightarrow> 'w \<Rightarrow> (int \<times> 'cb sm_boot_slave ptr \<times> 'w \<times> 'cb ptr) option" where
  "sm_boot_slave_process env p w =
     (case p of
        NULL \<Rightarrow> Some (-1, NULL, w, NULL)
      | Ref s \<Rightarrow> do {
          (s, w) \<leftarrow> slave_poll env s w;
          (ret, s, w, cb) \<leftarrow> slave_switch env s w;
          Some (ret, Ref s, w, cb) })"


subsection \<open>Events and calls keep the object\<close>

text \<open>What the events of an output make of a slave.\<close>

inductive notified :: "('cb, 'w) slave_env \<Rightarrow> 'cb sm_boot_slave \<Rightarrow> 'cb sm_boot_slave \<Rightarrow> bool" for env where
  notified_nothing: "notified env s s"
| notified_event: "notified env s s1 \<Longrightarrow> slave_event env f d s1 w1 = Some (s2, w2) \<Longrightarrow> notified env s s2"

inductive_cases notified_cases: "notified env s s'"

definition same_slave :: "'cb sm_boot_slave \<Rightarrow> 'cb sm_boot_slave \<Rightarrow> bool" where
  "same_slave s s' \<longleftrightarrow> bs_id s' = bs_id s \<and> bs_input s' = bs_input s \<and> bs_output s' = bs_output s
     \<and> bs_events s' = bs_events s \<and> bs_master s' = bs_master s \<and> (bs_segment s' = NULL \<longleftrightarrow> bs_segment s = NULL)"

lemma slave_event_same: "slave_event env f d s w = Some (s', w') \<Longrightarrow> same_slave s s'"
  by (auto simp: slave_event_def confirm_ready_def confirm_fw_info_def confirm_seg_def same_slave_def Let_def
      split: slave_event_fn.splits if_splits ptr.splits prod.splits)

lemma notified_same: "notified env s s' \<Longrightarrow> same_slave s s'"
proof (induction rule: notified.induct)
  case (notified_event s s1 f d w1 s2 w2)
  then show ?case using slave_event_same [OF notified_event.hyps(2)] by (simp add: same_slave_def)
qed (simp add: same_slave_def)

definition slave_wf :: "'cb sm_boot_slave \<Rightarrow> nat \<Rightarrow> nat \<Rightarrow> bool" where
  "slave_wf s i q \<longleftrightarrow> bs_input s = Ref i \<and> bs_output s = Ref q \<and> bs_segment s \<noteq> NULL
     \<and> length (bs_events s) = SM_BOOT_SLAVE_EVENT_NUMBER"

text \<open>An output returns, and acts on a slave by the slave's events only.\<close>

definition sends_events :: "('cb, 'w) slave_env \<Rightarrow> nat \<Rightarrow> bool" where
  "sends_events env q \<longleftrightarrow>
     (\<forall>f s w. out_process env q = Ref f \<longrightarrow> (\<exists>s' w'. f s w = Some (s', w') \<and> notified env s s'))"

lemma poll_total:
  assumes "slave_wf s i q" "sends_events env q"
  obtains s' w' where "slave_poll env s w = Some (s', w')" "same_slave s s'"
proof (cases "out_process env q")
  case NULL
  then show ?thesis
    using that assms(1) by (simp add: slave_poll_def slave_wf_def same_slave_def)
next
  case (Ref f)
  then obtain s' w' where "f s (case in_process env i of NULL \<Rightarrow> w | Ref f \<Rightarrow> f w) = Some (s', w')" "notified env s s'"
    using assms(2) by (metis sends_events_def)
  then show ?thesis
    using that Ref assms(1) notified_same [of env s s'] by (simp add: slave_poll_def slave_wf_def)
qed

definition keeps_slave :: "'cb sm_boot_slave \<Rightarrow> ('cb, 'w) slave_result \<Rightarrow> bool" where
  "keeps_slave s r = (case r of None \<Rightarrow> False | Some (ret, s', w', cb) \<Rightarrow> same_slave s s'
     \<and> (case bs_state s of SLAVE_FINISH_DOWNLOAD \<Rightarrow> s' = s \<and> cb = bs_events s ! 3
        | SLAVE_ABORT \<Rightarrow> s' = s \<and> cb = bs_events s ! 4 | _ \<Rightarrow> cb = NULL))"

lemma switch_total:
  assumes "slave_wf s i q"
  shows "keeps_slave s (slave_switch env s w)"
proof -
  obtain seg where wf: "bs_input s = Ref i" "bs_output s = Ref q" "bs_segment s = Ref seg"
      "length (bs_events s) = SM_BOOT_SLAVE_EVENT_NUMBER"
    using assms by (cases "bs_segment s") (simp_all add: slave_wf_def)
  note defs = keeps_slave_def same_slave_def slave_switch_def Let_def
  have offer: "keeps_slave s (offer_segment env s' w)" if "same_slave s s'" "bs_state s = SLAVE_SEND_SEG" for s' w
    using that wf
    by (cases "bs_segment s'") (simp_all add: defs offer_segment_def split: prod.split)
  show ?thesis
  proof (cases "bs_state s")
    case SLAVE_REQUEST_UPGRADE
    then show ?thesis using wf by (simp add: defs slave_request_upgrade_def split: prod.split)
  next
    case SLAVE_SEND_FW_INFO
    then show ?thesis using wf by (simp add: defs slave_send_fw_info_def split: prod.split)
  next
    case SLAVE_SEND_SEG
    obtain r seg' w2 where g: "in_get_seg_fw env i seg w = (r, seg', w2)" by (metis prod.collapse)
    have same: "same_slave s (s\<lparr>bs_segment := Ref seg'\<rparr>)" "same_slave s s"
      using wf by (simp_all add: same_slave_def)
    show ?thesis
      using SLAVE_SEND_SEG wf g offer [OF same(1) SLAVE_SEND_SEG] offer [OF same(2) SLAVE_SEND_SEG]
      by (simp add: slave_switch_def slave_send_seg_def Let_def split: prod.split)
        (simp add: defs SLAVE_SEND_SEG)
  qed (use wf in \<open>simp_all add: defs mem_simps numeral_eq_Suc\<close>)
qed

lemma same_slave_wf: "same_slave s s' \<Longrightarrow> slave_wf s' i q = slave_wf s i q"
  by (auto simp: same_slave_def slave_wf_def)

lemma same_slave_trans: "same_slave s s1 \<Longrightarrow> same_slave s1 s2 \<Longrightarrow> same_slave s s2"
  by (simp add: same_slave_def)

text \<open>A call of a slave returns, keeps the object, and asks for the callback of a finished or
  aborted upgrade in exactly those states.\<close>

lemma slave_process_total:
  assumes "slave_wf s i q" "sends_events env q"
  obtains ret s1 s' w' cb where "sm_boot_slave_process env (Ref s) w = Some (ret, Ref s', w', cb)"
    "same_slave s s'" "same_slave s s1" "bs_state s1 = SLAVE_FINISH_DOWNLOAD \<Longrightarrow> s' = s1 \<and> cb = bs_events s ! 3"
    "bs_state s1 = SLAVE_ABORT \<Longrightarrow> s' = s1 \<and> cb = bs_events s ! 4"
    "bs_state s1 \<notin> {SLAVE_FINISH_DOWNLOAD, SLAVE_ABORT} \<Longrightarrow> cb = NULL"
proof -
  obtain s1 w1 where p: "slave_poll env s w = Some (s1, w1)" "same_slave s s1"
    by (rule poll_total [OF assms])
  have k: "keeps_slave s1 (slave_switch env s1 w1)"
    by (rule switch_total [of _ i q]) (simp add: same_slave_wf [OF p(2)] assms(1))
  then obtain ret s' w' cb where x: "slave_switch env s1 w1 = Some (ret, s', w', cb)"
    by (cases "slave_switch env s1 w1") (auto simp: keeps_slave_def)
  note r = x k [unfolded keeps_slave_def x option.case prod.case, THEN conjunct1]
    k [unfolded keeps_slave_def x option.case prod.case, THEN conjunct2]
  have ev: "bs_events s1 = bs_events s" using p(2) by (simp add: same_slave_def)
  have cb: "bs_state s1 = SLAVE_FINISH_DOWNLOAD \<Longrightarrow> s' = s1 \<and> cb = bs_events s ! 3"
      "bs_state s1 = SLAVE_ABORT \<Longrightarrow> s' = s1 \<and> cb = bs_events s ! 4"
    using r(3) ev by simp_all
  have none: "bs_state s1 \<notin> {SLAVE_FINISH_DOWNLOAD, SLAVE_ABORT} \<Longrightarrow> cb = NULL"
    using r(3) by (cases "bs_state s1") simp_all
  have "sm_boot_slave_process env (Ref s) w = Some (ret, Ref s', w', cb)"
    by (simp add: sm_boot_slave_process_def p(1) r(1))
  then show ?thesis
    using that same_slave_trans [OF p(2) r(2)] p(2) cb none by blast
qed

subsection \<open>Giving up\<close>

text \<open>What the events of an output that confirms nothing make of a slave.\<close>

inductive refused :: "('cb, 'w) slave_env \<Rightarrow> 'cb sm_boot_slave \<Rightarrow> 'cb sm_boot_slave \<Rightarrow> bool" for env where
  refused_nothing: "refused env s s"
| refused_event: "refused env s s1 \<Longrightarrow> f \<in> {On_ready, On_fw_info, On_seg} \<Longrightarrow>
     slave_event env f 0 s1 w1 = Some (s2, w2) \<Longrightarrow> refused env s s2"

inductive_cases refused_cases: "refused env s s'"

text \<open>The peer of a slave: input \<open>i\<close> always has a segment, and output \<open>q\<close> takes what it is
  given but never confirms anything.\<close>

definition unhelpful :: "('cb, 'w) slave_env \<Rightarrow> nat \<Rightarrow> nat \<Rightarrow> bool" where
  "unhelpful env i q \<longleftrightarrow>
     (\<forall>seg w. fst (in_get_seg_fw env i seg w) \<noteq> 0) \<and> (\<forall>seg w. 0 \<le> fst (out_set_seg_fw env q seg w))
     \<and> (\<forall>f s w. out_process env q = Ref f \<longrightarrow> (\<exists>s' w'. f s w = Some (s', w') \<and> refused env s s'))"

text \<open>The slave at work: not yet done, with attempts left unless it has given up.\<close>

definition slave_trying :: "'cb sm_boot_slave \<Rightarrow> bool" where
  "slave_trying s \<longleftrightarrow> bs_state s \<noteq> SLAVE_FINISH_DOWNLOAD
     \<and> (bs_state s \<noteq> SLAVE_ABORT \<longrightarrow> bs_repeat s < SM_BOOT_SLAVE_REPEAT_MAX)"

definition attempts_left :: "'cb sm_boot_slave \<Rightarrow> nat" where
  "attempts_left s = (if bs_state s = SLAVE_ABORT then 0 else if bs_state s = SLAVE_IDLE then 6
     else if bs_state s = SLAVE_STATE_NUMBER then 1 else 5 - unat (bs_repeat s))"

lemma refused_shape:
  assumes "refused env s s'"
  shows "bs_state s' = bs_state s \<and> bs_repeat s' = bs_repeat s \<and> bs_input s' = bs_input s
    \<and> bs_output s' = bs_output s \<and> bs_segment s' = bs_segment s \<and> bs_events s' = bs_events s \<and> bs_id s' = bs_id s
    \<and> bs_master s' = bs_master s"
  using assms
proof (induction rule: refused.induct)
  case (refused_event s s1 f w1 s2 w2)
  then show ?case
    by (auto simp: slave_event_def confirm_ready_def confirm_fw_info_def confirm_seg_def)
qed simp

text \<open>Refusals change at most the timer of a slave and its mark of a waiting segment.\<close>

lemma refused_only:
  assumes "refused env s s'"
  shows "s' = s\<lparr>bs_timeout := bs_timeout s', bs_waiting_seg := bs_waiting_seg s'\<rparr>"
  using assms
proof (induction rule: refused.induct)
  case (refused_event s s1 f w1 s2 w2)
  have "s2 = s1\<lparr>bs_timeout := bs_timeout s2, bs_waiting_seg := bs_waiting_seg s2\<rparr>"
    using refused_event.hyps(2,3)
    by (auto simp: slave_event_def confirm_ready_def confirm_fw_info_def confirm_seg_def)
  also have "\<dots> = s\<lparr>bs_timeout := bs_timeout s2, bs_waiting_seg := bs_waiting_seg s2\<rparr>"
    by (subst refused_event.IH) simp
  finally show ?case .
qed simp

lemma refused_keeps:
  assumes "refused env s s'"
  shows "slave_wf s' i q = slave_wf s i q" "slave_trying s' = slave_trying s" "attempts_left s' = attempts_left s"
  using refused_shape [OF assms] by (simp_all add: slave_wf_def slave_trying_def attempts_left_def)

lemma attempt_counted:
  assumes "(r :: u8) < 5"
  shows "unat (r + 1) = Suc (unat r)" "5 \<le> r + 1 \<longleftrightarrow> unat r = 4" "unat r \<le> 4"
proof -
  show u: "unat (r + 1) = Suc (unat r)" using assms by (rule unat_inc)
  show "unat r \<le> 4" using assms by (simp add: word_less_nat_alt)
  then show "5 \<le> r + 1 \<longleftrightarrow> unat r = 4" by (simp add: word_le_nat_alt u)
qed

text \<open>What a pass through the \<open>switch\<close> does for the attempts left.\<close>

definition advances :: "('cb, 'w) slave_env \<Rightarrow> nat \<Rightarrow> nat \<Rightarrow> 'cb sm_boot_slave \<Rightarrow> bool \<Rightarrow> ('cb, 'w) slave_result \<Rightarrow> bool" where
  "advances env i q s expired r = (case r of None \<Rightarrow> False | Some (ret, s', w', cb) \<Rightarrow>
     slave_wf s' i q \<and> slave_trying s'
     \<and> attempts_left s' \<le> (if expired then attempts_left s - 1 else attempts_left s))"

lemmas slave_counts = advances_def slave_wf_def slave_trying_def attempts_left_def Let_def

lemma offer_advances:
  assumes "slave_wf s i q" "slave_trying s" "unhelpful env i q" "bs_state s = SLAVE_SEND_SEG"
    and "bs_segment s' = Ref seg" "bs_output s' = bs_output s" "bs_input s' = bs_input s" "bs_events s' = bs_events s"
    and "bs_repeat s' = bs_repeat s" "bs_state s' = bs_state s"
  shows "advances env i q s e (offer_segment env s' w)"
proof -
  obtain t w1 where t: "elapsed_timer_resetz (sl_tick env) (bs_timeout s') SM_BOOT_SLAVE_WAITING_CONFIRM_SEG_TIMEOUT w = (t, w1)"
    by fastforce
  obtain r w2 where r: "out_set_seg_fw env q seg w1 = (r, w2)" "0 \<le> r"
    using assms(3) by (metis prod.collapse unhelpful_def)
  have n: "bs_repeat s < 5" using assms(2,4) by (simp add: slave_trying_def)
  note c = attempt_counted [OF n]
  show ?thesis
    using assms(1,4-10) t r c
    by (simp add: offer_segment_def slave_counts word_less_nat_alt) auto
qed

lemma switch_advances:
  assumes "slave_wf s i q" "slave_trying s" "unhelpful env i q"
  shows "advances env i q s (timer_expired (sl_tick env) (bs_timeout s) w) (slave_switch env s w)"
proof -
  let ?tick = "sl_tick env" and ?t = "bs_timeout s"
  obtain seg where wf: "bs_input s = Ref i" "bs_output s = Ref q" "bs_segment s = Ref seg"
      "length (bs_events s) = SM_BOOT_SLAVE_EVENT_NUMBER"
    using assms(1) by (cases "bs_segment s") (simp_all add: slave_wf_def)
  obtain rm w1 where rm: "elapsed_timer_get_remain ?tick ?t w = (rm, w1)" by fastforce
  have e: "timer_expired ?tick ?t w \<longleftrightarrow> rm = 0" using get_remain_0 [of ?tick ?t w] rm by simp
  show ?thesis
  proof (cases "bs_state s")
    case SLAVE_REQUEST_UPGRADE
    then have n: "bs_repeat s < 5" using assms(2) by (simp add: slave_trying_def)
    show ?thesis
      using SLAVE_REQUEST_UPGRADE wf rm e n attempt_counted [OF n]
      by (simp add: slave_switch_def slave_request_upgrade_def slave_counts word_less_nat_alt split: prod.split)
  next
    case SLAVE_SEND_FW_INFO
    then have n: "bs_repeat s < 5" using assms(2) by (simp add: slave_trying_def)
    show ?thesis
      using SLAVE_SEND_FW_INFO wf rm e n attempt_counted [OF n]
      by (simp add: slave_switch_def slave_send_fw_info_def slave_counts word_less_nat_alt split: prod.split)
  next
    case SLAVE_SEND_SEG
    then have n: "bs_repeat s < 5" using assms(2) by (simp add: slave_trying_def)
    obtain r seg' w2 where g: "in_get_seg_fw env i seg w = (r, seg', w2)" "r \<noteq> 0"
      using assms(3) by (metis prod.collapse unhelpful_def)
    note off = offer_advances [OF assms SLAVE_SEND_SEG]
    show ?thesis
    proof (cases "bs_waiting_seg s = 0")
      case True
      then show ?thesis
        using SLAVE_SEND_SEG wf g off
        by (auto simp: slave_switch_def slave_send_seg_def Let_def) (simp_all add: slave_counts SLAVE_SEND_SEG)
    next
      case False
      then show ?thesis
        using SLAVE_SEND_SEG wf rm e n attempt_counted [OF n]
        by (simp add: slave_switch_def slave_send_seg_def slave_counts split: prod.split)
    qed
  qed (use wf assms(2) in \<open>auto simp: slave_switch_def slave_counts mem_simps word_less_nat_alt\<close>)
qed

text \<open>Runs of a slave. Between two calls the world changes as the elements of \<open>ds\<close> say; a call
  counts when the timer of the slave has run out at it.\<close>

definition call_expired :: "('cb, 'w) slave_env \<Rightarrow> 'cb sm_boot_slave \<Rightarrow> 'w \<Rightarrow> bool" where
  "call_expired env s w = (case slave_poll env s w of
     None \<Rightarrow> False | Some (s, w) \<Rightarrow> timer_expired (sl_tick env) (bs_timeout s) w)"

fun slave_run ::
  "('cb, 'w) slave_env \<Rightarrow> ('w \<Rightarrow> 'w) list \<Rightarrow> 'cb sm_boot_slave \<Rightarrow> 'w \<Rightarrow> (nat \<times> 'cb sm_boot_slave \<times> 'w) option" where
  "slave_run env [] s w = Some (0, s, w)"
| "slave_run env (d # ds) s w =
     (let w = d w; e = call_expired env s w in
      do { (_, p, w, _) \<leftarrow> sm_boot_slave_process env (Ref s) w;
           s \<leftarrow> to_ptr p;
           (n, s, w) \<leftarrow> slave_run env ds s w;
           Some (if e then Suc n else n, s, w) })"

lemma poll_refused:
  assumes "slave_wf s i q" "unhelpful env i q"
  obtains s' w' where "slave_poll env s w = Some (s', w')" "refused env s s'"
proof (cases "out_process env q")
  case NULL
  then show ?thesis
    using that assms(1) refused_nothing [of env s] by (simp add: slave_poll_def slave_wf_def)
next
  case (Ref f)
  then obtain s' w' where "f s (case in_process env i of NULL \<Rightarrow> w | Ref f \<Rightarrow> f w) = Some (s', w')" "refused env s s'"
    using assms(2) by (metis unhelpful_def)
  then show ?thesis
    using that Ref assms(1) by (simp add: slave_poll_def slave_wf_def)
qed

lemma process_advances:
  assumes "slave_wf s i q" "slave_trying s" "unhelpful env i q"
  obtains ret s' w' cb where "sm_boot_slave_process env (Ref s) w = Some (ret, Ref s', w', cb)"
    "slave_wf s' i q" "slave_trying s'"
    "attempts_left s' \<le> (if call_expired env s w then attempts_left s - 1 else attempts_left s)"
proof -
  obtain s1 w1 where p: "slave_poll env s w = Some (s1, w1)" "refused env s s1"
    using poll_refused [OF assms(1,3)] by blast
  have keep: "slave_wf s1 i q = slave_wf s i q" "slave_trying s1 = slave_trying s" "attempts_left s1 = attempts_left s"
    by (rule refused_keeps [OF p(2)])+
  have "advances env i q s1 (timer_expired (sl_tick env) (bs_timeout s1) w1) (slave_switch env s1 w1)"
    by (rule switch_advances) (use assms keep in simp_all)
  then obtain ret s' w' cb where "slave_switch env s1 w1 = Some (ret, s', w', cb)" "slave_wf s' i q" "slave_trying s'"
      "attempts_left s' \<le> (if timer_expired (sl_tick env) (bs_timeout s1) w1 then attempts_left s1 - 1 else attempts_left s1)"
    by (auto simp: advances_def split: option.splits)
  then show ?thesis
    by (intro that) (auto simp: sm_boot_slave_process_def call_expired_def p(1) keep(3) split: if_splits)
qed

lemma attempts_none:
  assumes "slave_trying s" "attempts_left s = 0"
  shows "bs_state s = SLAVE_ABORT"
proof (rule ccontr)
  assume a: "bs_state s \<noteq> SLAVE_ABORT"
  then have "bs_repeat s < 5" using assms(1) by (simp add: slave_trying_def)
  then show False using attempt_counted(3) [of "bs_repeat s"] assms(2) a by (simp add: attempts_left_def split: if_splits)
qed

lemma slave_run_advances:
  assumes "slave_wf s i q" "slave_trying s" "unhelpful env i q"
  shows "\<exists>n s' w'. slave_run env ds s w = Some (n, s', w') \<and> slave_wf s' i q \<and> slave_trying s'
     \<and> attempts_left s' \<le> attempts_left s - n"
  using assms(1,2)
proof (induction ds arbitrary: s w)
  case (Cons d ds)
  obtain ret s1 w1 cb where p: "sm_boot_slave_process env (Ref s) (d w) = Some (ret, Ref s1, w1, cb)"
      "slave_wf s1 i q" "slave_trying s1"
      "attempts_left s1 \<le> (if call_expired env s (d w) then attempts_left s - 1 else attempts_left s)"
    using process_advances [OF Cons.prems assms(3)] by blast
  obtain n s' w' where r: "slave_run env ds s1 w1 = Some (n, s', w')" "slave_wf s' i q" "slave_trying s'"
      "attempts_left s' \<le> attempts_left s1 - n"
    using Cons.IH [OF p(2,3)] by blast
  then show ?case using p by (auto split: if_splits)
qed simp

text \<open>C12:
  A slave whose peer never confirms anything gives up. The slave is any object with an input, an
  output, a segment and its five callbacks that has not finished and, unless it has given up already,
  has used fewer than five attempts. Let its output take what it is handed and answer every request,
  offered segment and firmware information with nothing or with a refusal, and let its input always
  have a segment. However many calls of \<open>sm_boot_slave_process\<close> are made
  and however the world changes between them, every call returns; after six calls at which the
  timer of the slave has run out, the slave is in the abort state, and a further call returns 0, asks for
  its abort callback and leaves the slave in that state, with every field as it was but for the timer and the
  mark of a waiting segment, which a refusal of the output may change.\<close>

theorem slave_gives_up:
  assumes "slave_wf s i q" "slave_trying s" "unhelpful env i q"
  shows "\<exists>n s' w'. slave_run env ds s w = Some (n, s', w')
     \<and> (6 \<le> n \<longrightarrow> bs_state s' = SLAVE_ABORT
          \<and> (\<exists>sa wa. sm_boot_slave_process env (Ref s') w' = Some (0, Ref sa, wa, bs_events s' ! 4)
               \<and> sa = s'\<lparr>bs_timeout := bs_timeout sa, bs_waiting_seg := bs_waiting_seg sa\<rparr>))"
proof -
  obtain n s' w' where r: "slave_run env ds s w = Some (n, s', w')" "slave_wf s' i q" "slave_trying s'"
      "attempts_left s' \<le> attempts_left s - n"
    using slave_run_advances [OF assms] by blast
  have "attempts_left s \<le> 6" by (auto simp: attempts_left_def)
  then have abort: "6 \<le> n \<Longrightarrow> bs_state s' = SLAVE_ABORT"
    using r(3,4) by (intro attempts_none) auto
  obtain sa wa where p: "slave_poll env s' w' = Some (sa, wa)" "refused env s' sa"
    using poll_refused [OF r(2) assms(3)] by blast
  have "6 \<le> n \<Longrightarrow> sm_boot_slave_process env (Ref s') w' = Some (0, Ref sa, wa, bs_events s' ! 4)"
    using abort p(1) refused_shape [OF p(2)] r(2)
    by (simp add: sm_boot_slave_process_def slave_switch_def slave_wf_def mem_simps)
  then show ?thesis using r(1) abort refused_only [OF p(2)] by blast
qed

text \<open>A slave over a clock that stands at the world's value, with a peer that never answers.\<close>

definition idle_slave :: "nat sm_boot_slave" where
  "idle_slave = \<lparr>bs_id = 3, bs_input = Ref 0, bs_output = Ref 0, bs_segment = sm_seg_create True, bs_waiting_seg = 0,
     bs_new_fw_signature = \<lparr>fi_version = [1, 0, 2], fi_addr = 0, fi_size = 0, fi_crc = 0,
       fi_data_address_offset = 0, fi_is_valid = 0\<rparr>,
     bs_state = SLAVE_IDLE, bs_events = [NULL, NULL, NULL, Ref 0, Ref 1],
     bs_timeout = \<lparr>et_duration = 0, et_start_time = 0\<rparr>, bs_repeat = 0, bs_master = NULL\<rparr>"

definition mute_env :: "('cb, int) slave_env" where
  "mute_env = \<lparr>sl_tick = (\<lambda>t. (t, t)), in_init = (\<lambda>_ t. t), in_free = (\<lambda>_ t. t),
     in_get_fw_info = (\<lambda>_ t. (-1, bs_new_fw_signature idle_slave, t)), in_get_seg_fw = (\<lambda>_ g t. (1, g, t)),
     in_seg_upgrade_completed = (\<lambda>_. NULL), in_process = (\<lambda>_. NULL), out_init = (\<lambda>_ t. t), out_free = (\<lambda>_ t. t),
     out_reg_event = (\<lambda>_ _ _ t. t), out_request_upgrade = (\<lambda>_ _ t. t), out_set_fw_info = (\<lambda>_ _ t. t),
     out_set_seg_fw = (\<lambda>_ _ t. (0, t)), out_process = (\<lambda>_. Ref (\<lambda>s t. Some (s, t)))\<rparr>"

lemma slave_gives_up_witness:
  "\<exists>s' w'. slave_run mute_env (replicate 6 (\<lambda>t. t + 2500)) idle_slave 0 = Some (6, s', w')
     \<and> bs_state s' = SLAVE_ABORT"
proof -
  have "slave_wf idle_slave 0 0" "slave_trying idle_slave" "unhelpful mute_env 0 0"
    by (auto simp: slave_wf_def idle_slave_def sm_seg_create_def slave_trying_def unhelpful_def mute_env_def
        intro: refused_nothing)
  from slave_gives_up [OF this, of "replicate 6 (\<lambda>t. t + 2500)" 0]
  obtain n s' w' where "slave_run mute_env (replicate 6 (\<lambda>t. t + 2500)) idle_slave 0 = Some (n, s', w')"
      "6 \<le> n \<longrightarrow> bs_state s' = SLAVE_ABORT" by blast
  moreover have "map_option fst (slave_run mute_env (replicate 6 (\<lambda>t. t + 2500)) idle_slave 0) = Some 6"
    by code_simp
  ultimately show ?thesis by auto
qed

end
