(* ===== verification/Boot_Master.thy ===== *)
theory Boot_Master
  imports Boot_Slave
begin

section \<open>The upgrade master\<close>

text \<open>
  Models \<^verbatim>\<open>common/upgrade/master/boot-core/sm_boot_master.c\<close>: a table of at most ten slaves that
  the master runs one after the other. A slave that is done is reported to the callback of the
  application and removed. The slaves of the table belong to it: \<open>sm_boot_master_add_slave\<close> creates
  them and nothing else keeps a pointer to them, so an entry holds the object itself. A slave's
  pointer to its master is the master's address. The callback of the application acts on the world.
\<close>

subsection \<open>State and operations\<close>

abbreviation SM_BOOT_SLAVE_MAX_SUPPORT :: nat where "SM_BOOT_SLAVE_MAX_SUPPORT \<equiv> 10"

text \<open>The two functions the master registers with its slaves.\<close>

datatype master_fn = Master_finish_download | Master_abort

type_synonym boot_slave = "master_fn sm_boot_slave"

record 'w sm_boot_master =
  bm_slave_number :: int
  bm_slaves :: "boot_slave ptr list"
  bm_event_callback :: "(int \<Rightarrow> int \<Rightarrow> nat \<Rightarrow> 'w \<Rightarrow> 'w) ptr"
  bm_arg :: nat

definition boot_master_init ::
  "(int \<Rightarrow> int \<Rightarrow> nat \<Rightarrow> 'w \<Rightarrow> 'w) ptr \<Rightarrow> nat \<Rightarrow> 'w sm_boot_master" where
  "boot_master_init fn arg = \<lparr>bm_slave_number = 0, bm_slaves = replicate SM_BOOT_SLAVE_MAX_SUPPORT NULL,
     bm_event_callback = fn, bm_arg = arg\<rparr>"

definition sm_boot_master_create ::
  "bool \<Rightarrow> (int \<Rightarrow> int \<Rightarrow> nat \<Rightarrow> 'w \<Rightarrow> 'w) ptr \<Rightarrow> nat \<Rightarrow> 'w sm_boot_master ptr" where
  "sm_boot_master_create malloc_ok fn arg = (if malloc_ok then Ref (boot_master_init fn arg) else NULL)"

definition sm_boot_master_create_default ::
  "(int \<Rightarrow> int \<Rightarrow> nat \<Rightarrow> 'w \<Rightarrow> 'w) ptr \<Rightarrow> nat \<Rightarrow> 'w sm_boot_master ptr" where
  "sm_boot_master_create_default fn arg = Ref (boot_master_init fn arg)"

text \<open>Destroying frees the first \<open>m_slave_number\<close> entries; the result also says which entries
  of the table are still allocated afterwards.\<close>

definition sm_boot_master_destroy :: "'w sm_boot_master ptr \<Rightarrow> int \<times> boot_slave ptr list" where
  "sm_boot_master_destroy p =
     (case p of
        NULL \<Rightarrow> (-1, [])
      | Ref m \<Rightarrow> (0, drop (nat (bm_slave_number m)) (bm_slaves m)))"

text \<open>The first index whose entry satisfies a test.\<close>

fun find_slot :: "(boot_slave ptr \<Rightarrow> bool) \<Rightarrow> boot_slave ptr list \<Rightarrow> nat option" where
  "find_slot P [] = None"
| "find_slot P (x # xs) = (if P x then Some 0 else map_option Suc (find_slot P xs))"

definition has_id :: "int \<Rightarrow> boot_slave ptr \<Rightarrow> bool" where
  "has_id k p \<longleftrightarrow> \<not> is_null p \<and> sm_boot_slave_get_id p = k"

definition register_slave :: "boot_slave ptr \<Rightarrow> boot_slave ptr" where
  "register_slave p =
     snd (sm_boot_slave_reg_event
       (snd (sm_boot_slave_reg_event p (slave_event_index CONFIRM_FINISH_DOWNLOAD) (Ref Master_finish_download)))
       (slave_event_index CONFIRM_ABORT) (Ref Master_abort))"

text \<open>\<open>mem\<close> and \<open>seg_ok\<close> are the results of the allocations of \<open>sm_boot_slave_create\<close>, and
  \<open>self\<close> is the address of the master. A slave that finds no free entry is lost.\<close>

definition sm_boot_master_add_slave ::
  "(master_fn, 'w) slave_env \<Rightarrow> boot_slave ptr \<Rightarrow> bool \<Rightarrow> nat \<Rightarrow> 'w sm_boot_master ptr \<Rightarrow> int \<Rightarrow> nat ptr \<Rightarrow> nat ptr
     \<Rightarrow> 'w \<Rightarrow> int \<times> 'w sm_boot_master ptr \<times> 'w" where
  "sm_boot_master_add_slave env mem seg_ok self p slave_id input output w =
     (case p of
        NULL \<Rightarrow> (-1, NULL, w)
      | Ref m \<Rightarrow>
          if is_null input \<or> is_null output then (-1, Ref m, w)
          else (case find_slot (has_id slave_id) (bm_slaves m) of
            Some k \<Rightarrow>
              (0, Ref (m\<lparr>bm_slaves := (bm_slaves m)
                 [k := snd (sm_boot_slave_update_if (bm_slaves m ! k) input output)]\<rparr>), w)
          | None \<Rightarrow>
              (case sm_boot_slave_create env mem seg_ok slave_id input output (Ref self) w of
                 (NULL, w) \<Rightarrow> (-1, Ref m, w)
               | (Ref s, w) \<Rightarrow>
                   (case find_slot is_null (bm_slaves m) of
                      None \<Rightarrow> (0, Ref m, w)
                    | Some k \<Rightarrow>
                        (0, Ref (m\<lparr>bm_slaves := (bm_slaves m)[k := register_slave (Ref s)],
                           bm_slave_number := bm_slave_number m + 1\<rparr>), w)))))"

definition sm_boot_master_remove_slave ::
  "(master_fn, 'w) slave_env \<Rightarrow> 'w sm_boot_master ptr \<Rightarrow> int \<Rightarrow> 'w \<Rightarrow> int \<times> 'w sm_boot_master ptr \<times> 'w" where
  "sm_boot_master_remove_slave env p slave_id w =
     (case p of
        NULL \<Rightarrow> (-1, NULL, w)
      | Ref m \<Rightarrow>
          (case find_slot (\<lambda>x. sm_boot_slave_get_id x = slave_id) (bm_slaves m) of
             None \<Rightarrow> (-1, Ref m, w)
           | Some k \<Rightarrow>
               (0, Ref (m\<lparr>bm_slaves := (bm_slaves m)[k := NULL], bm_slave_number := bm_slave_number m - 1\<rparr>),
                snd (sm_boot_slave_destroy env (bm_slaves m ! k) w))))"

text \<open>The callbacks. The master of a slave of the table is the master that runs it.\<close>

definition master_report :: "int \<Rightarrow> 'w sm_boot_master \<Rightarrow> boot_slave \<Rightarrow> 'w \<Rightarrow> 'w" where
  "master_report status m s w =
     (case bm_event_callback m of NULL \<Rightarrow> w | Ref f \<Rightarrow> f status (sm_boot_slave_get_id (Ref s)) (bm_arg m) w)"

definition master_callback ::
  "(master_fn, 'w) slave_env \<Rightarrow> master_fn \<Rightarrow> boot_slave \<Rightarrow> 'w sm_boot_master \<Rightarrow> 'w \<Rightarrow> 'w sm_boot_master \<times> 'w" where
  "master_callback env f s m w =
     (case sm_boot_slave_get_master (Ref s) of
        NULL \<Rightarrow> (m, w)
      | Ref _ \<Rightarrow>
          let status = (case f of Master_finish_download \<Rightarrow> 0 | Master_abort \<Rightarrow> -1);
              w = master_report status m s w;
              (_, p, w) = sm_boot_master_remove_slave env (Ref m) (sm_boot_slave_get_id (Ref s)) w
          in (deref p, w))"

text \<open>One entry of the table, and the loop over it: \<open>n\<close> entries are left, the next is \<open>k\<close>.\<close>

definition master_slot ::
  "(master_fn, 'w) slave_env \<Rightarrow> nat \<Rightarrow> 'w sm_boot_master \<Rightarrow> 'w \<Rightarrow> ('w sm_boot_master \<times> 'w) option" where
  "master_slot env k m w = do {
     p \<leftarrow> mem_get (bm_slaves m) k;
     if is_null p then Some (m, w)
     else do {
       (_, p, w, cb) \<leftarrow> sm_boot_slave_process env p w;
       let m = m\<lparr>bm_slaves := (bm_slaves m)[k := p]\<rparr>;
       (case cb of NULL \<Rightarrow> Some (m, w) | Ref f \<Rightarrow> Some (master_callback env f (deref p) m w)) } }"

fun master_loop ::
  "(master_fn, 'w) slave_env \<Rightarrow> nat \<Rightarrow> nat \<Rightarrow> 'w sm_boot_master \<Rightarrow> 'w \<Rightarrow> ('w sm_boot_master \<times> 'w) option" where
  "master_loop env k 0 m w = Some (m, w)"
| "master_loop env k (Suc n) m w = do { (m, w) \<leftarrow> master_slot env k m w; master_loop env (Suc k) n m w }"

definition sm_boot_master_process ::
  "(master_fn, 'w) slave_env \<Rightarrow> 'w sm_boot_master ptr \<Rightarrow> 'w \<Rightarrow> (int \<times> 'w sm_boot_master ptr \<times> 'w) option" where
  "sm_boot_master_process env p w =
     (case p of
        NULL \<Rightarrow> Some (-1, NULL, w)
      | Ref m \<Rightarrow>
          if bm_slave_number m = 0 then Some (-1, Ref m, w)
          else do { (m, w) \<leftarrow> master_loop env 0 SM_BOOT_SLAVE_MAX_SUPPORT m w; Some (0, Ref m, w) })"


subsection \<open>The table of slaves\<close>

definition slave_ids :: "boot_slave ptr list \<Rightarrow> int list" where
  "slave_ids ps = map (\<lambda>p. bs_id (deref p)) (filter (\<lambda>p. \<not> is_null p) ps)"

lemma slave_ids_simps [simp]:
  "slave_ids [] = []" "slave_ids (NULL # ps) = slave_ids ps" "slave_ids (Ref s # ps) = bs_id s # slave_ids ps"
  "slave_ids (ps @ qs) = slave_ids ps @ slave_ids qs"
  by (simp_all add: slave_ids_def)

lemma slave_ids_Cons: "slave_ids (p # ps) = slave_ids [p] @ slave_ids ps"
  by (simp add: slave_ids_def)

lemma slave_ids_update:
  assumes "k < length ps"
  shows "slave_ids (ps[k := p]) = slave_ids (take k ps) @ slave_ids [p] @ slave_ids (drop (Suc k) ps)"
    and "slave_ids ps = slave_ids (take k ps) @ slave_ids [ps ! k] @ slave_ids (drop (Suc k) ps)"
proof -
  show "slave_ids (ps[k := p]) = slave_ids (take k ps) @ slave_ids [p] @ slave_ids (drop (Suc k) ps)"
    by (simp only: upd_conv_take_nth_drop [OF assms] slave_ids_simps(4) slave_ids_Cons [of p "drop (Suc k) ps"])
  have "slave_ids ps = slave_ids (take k ps @ ps ! k # drop (Suc k) ps)"
    by (rule arg_cong [OF id_take_nth_drop [OF assms]])
  also have "\<dots> = slave_ids (take k ps) @ slave_ids [ps ! k] @ slave_ids (drop (Suc k) ps)"
    by (simp only: slave_ids_simps(4) slave_ids_Cons [of "ps ! k" "drop (Suc k) ps"])
  finally show "slave_ids ps = slave_ids (take k ps) @ slave_ids [ps ! k] @ slave_ids (drop (Suc k) ps)" .
qed

lemma slave_ids_set: "k \<in> set (slave_ids ps) \<longleftrightarrow> (\<exists>s. Ref s \<in> set ps \<and> bs_id s = k)"
proof (induction ps)
  case (Cons p ps)
  then show ?case by (cases p) auto
qed simp

text \<open>A slave of the table of the master at address \<open>self\<close>, and the table.\<close>

definition owned :: "nat \<Rightarrow> boot_slave \<Rightarrow> bool" where
  "owned self s \<longleftrightarrow> 0 \<le> bs_id s \<and> bs_master s = Ref self \<and> (\<exists>i q. slave_wf s i q)
     \<and> bs_events s ! 3 = Ref Master_finish_download \<and> bs_events s ! 4 = Ref Master_abort"

definition master_ok :: "nat \<Rightarrow> 'w sm_boot_master \<Rightarrow> bool" where
  "master_ok self m \<longleftrightarrow> length (bm_slaves m) = SM_BOOT_SLAVE_MAX_SUPPORT
     \<and> (\<forall>s. Ref s \<in> set (bm_slaves m) \<longrightarrow> owned self s) \<and> distinct (slave_ids (bm_slaves m))
     \<and> bm_slave_number m = int (length (slave_ids (bm_slaves m)))"

lemma find_slot_None: "find_slot P xs = None \<longleftrightarrow> (\<forall>x \<in> set xs. \<not> P x)"
  by (induction xs) auto

lemma find_slot_Some: "find_slot P xs = Some k \<Longrightarrow> k < length xs \<and> P (xs ! k) \<and> (\<forall>j < k. \<not> P (xs ! j))"
proof (induction xs arbitrary: k)
  case (Cons x xs)
  show ?case
  proof (cases "P x")
    case False
    with Cons.prems obtain j where "find_slot P xs = Some j" "k = Suc j" by auto
    with Cons.IH [of j] False show ?thesis by (auto simp: less_Suc_eq_0_disj)
  qed (use Cons.prems in auto)
qed simp

lemma owned_same: "same_slave s s' \<Longrightarrow> owned self s' = owned self s"
  by (auto simp: owned_def same_slave_wf) (auto simp: same_slave_def)

lemma ref_set_update: "Ref s \<in> set (ps[k := p]) \<Longrightarrow> Ref s \<in> set ps \<or> p = Ref s"
  using set_update_subset_insert [of ps k p] by auto

text \<open>Replacing one entry: the other slaves stay, so only the new one and the ids matter.\<close>

lemma master_ok_update:
  assumes "master_ok self m" "k < length (bm_slaves m)"
    and "slave_ids [bm_slaves m ! k] = old" "slave_ids [p] = new" "\<And>s. p = Ref s \<Longrightarrow> owned self s"
    and "distinct (slave_ids (take k (bm_slaves m)) @ new @ slave_ids (drop (Suc k) (bm_slaves m)))"
    and "n = bm_slave_number m + int (length new) - int (length old)"
  shows "master_ok self (m\<lparr>bm_slaves := (bm_slaves m)[k := p], bm_slave_number := n\<rparr>)"
proof -
  let ?ps = "bm_slaves m"
  have ids: "slave_ids (?ps[k := p]) = slave_ids (take k ?ps) @ new @ slave_ids (drop (Suc k) ?ps)"
      "slave_ids ?ps = slave_ids (take k ?ps) @ old @ slave_ids (drop (Suc k) ?ps)"
    using slave_ids_update [OF assms(2)] assms(3,4) by simp_all
  have own: "owned self s" if "Ref s \<in> set (?ps[k := p])" for s
    using ref_set_update [OF that] assms(1,5) by (auto simp: master_ok_def)
  have "int (length (slave_ids (?ps[k := p]))) = n"
    using assms(1,7) by (simp add: master_ok_def ids)
  then show ?thesis using assms(1,6) own by (simp add: master_ok_def ids(1))
qed

lemma master_ok_owned:
  "master_ok self m \<Longrightarrow> k < length (bm_slaves m) \<Longrightarrow> bm_slaves m ! k = Ref s \<Longrightarrow> owned self s"
  unfolding master_ok_def using nth_mem [of k "bm_slaves m"] by simp

lemma master_ok_distinct:
  assumes "master_ok self m" "k < length (bm_slaves m)" "slave_ids [bm_slaves m ! k] = old"
  shows "distinct (slave_ids (take k (bm_slaves m)) @ old @ slave_ids (drop (Suc k) (bm_slaves m)))"
  using assms(1) slave_ids_update(2) [OF assms(2)] assms(3) by (simp add: master_ok_def)

lemma master_ok_clear:
  assumes "master_ok self m" "bm_slaves m ! k = Ref s" "k < length (bm_slaves m)"
  shows "master_ok self (m\<lparr>bm_slaves := (bm_slaves m)[k := NULL], bm_slave_number := bm_slave_number m - 1\<rparr>)"
  by (rule master_ok_update [OF assms(1,3), of "[bs_id s]" _ "[]"])
    (use master_ok_distinct [OF assms(1,3)] assms(2) in simp_all)

lemma master_ok_replace:
  assumes "master_ok self m" "bm_slaves m ! k = Ref s" "k < length (bm_slaves m)" "owned self s'" "bs_id s' = bs_id s"
  shows "master_ok self (m\<lparr>bm_slaves := (bm_slaves m)[k := Ref s']\<rparr>)"
proof -
  have "master_ok self (m\<lparr>bm_slaves := (bm_slaves m)[k := Ref s'], bm_slave_number := bm_slave_number m\<rparr>)"
    by (rule master_ok_update [OF assms(1,3), of "[bs_id s]" _ "[bs_id s]"])
      (use master_ok_distinct [OF assms(1,3)] assms(2,4,5) in simp_all)
  then show ?thesis by simp
qed

lemma master_ok_insert:
  assumes "master_ok self m" "bm_slaves m ! k = NULL" "k < length (bm_slaves m)" "owned self s"
    and "bs_id s \<notin> set (slave_ids (bm_slaves m))"
  shows "master_ok self (m\<lparr>bm_slaves := (bm_slaves m)[k := Ref s], bm_slave_number := bm_slave_number m + 1\<rparr>)"
  by (rule master_ok_update [OF assms(1,3), of "[]" _ "[bs_id s]"])
    (use master_ok_distinct [OF assms(1,3)] slave_ids_update(2) [OF assms(3)] assms(2,4,5) in simp_all)

lemma same_id_same_slot:
  assumes "distinct (slave_ids ps)" "j < length ps" "k < length ps" "ps ! j = Ref a" "ps ! k = Ref b" "bs_id a = bs_id b"
  shows "j = k"
proof (rule ccontr)
  assume "j \<noteq> k"
  then have "Ref b \<in> set (take j ps) \<or> Ref b \<in> set (drop (Suc j) ps)"
    using assms(3,5) nth_mem [of k "take j ps"] nth_mem [of "k - Suc j" "drop (Suc j) ps"]
    by (cases "k < j") simp_all
  then have "bs_id b \<in> set (slave_ids (take j ps)) \<union> set (slave_ids (drop (Suc j) ps))"
    by (auto simp: slave_ids_set)
  moreover have "distinct (slave_ids (take j ps) @ [bs_id a] @ slave_ids (drop (Suc j) ps))"
    using assms(1) slave_ids_update(2) [OF assms(2)] assms(4) by simp
  ultimately show False using assms(6) by auto
qed

lemma find_own_slot:
  assumes "distinct (slave_ids ps)" "k < length ps" "ps ! k = Ref s" "0 \<le> bs_id s"
  shows "find_slot (\<lambda>x. sm_boot_slave_get_id x = bs_id s) ps = Some k"
proof (cases "find_slot (\<lambda>x. sm_boot_slave_get_id x = bs_id s) ps")
  case None
  then show ?thesis
    using assms(2,3) by (force simp: find_slot_None sm_boot_slave_get_id_def in_set_conv_nth)
next
  case (Some j)
  note j = find_slot_Some [OF Some]
  then obtain a where "ps ! j = Ref a" "bs_id a = bs_id s"
    using assms(4) by (cases "ps ! j") (auto simp: sm_boot_slave_get_id_def)
  then show ?thesis using same_id_same_slot [OF assms(1) _ assms(2) _ assms(3), of j a] j Some by simp
qed

text \<open>A call of an owned slave: first the events of its output, then its own step, which asks for a
  callback of the master exactly when the slave is done.\<close>

lemma owned_process:
  assumes "owned self s" "\<And>q. sends_events env q"
  obtains s1 w1 ret s' w' cb where "slave_poll env s w = Some (s1, w1)" "same_slave s s1"
    "slave_switch env s1 w1 = Some (ret, s', w', cb)" "same_slave s s'"
    "bs_state s1 = SLAVE_FINISH_DOWNLOAD \<Longrightarrow> s' = s1 \<and> w' = w1 \<and> cb = Ref Master_finish_download"
    "bs_state s1 = SLAVE_ABORT \<Longrightarrow> s' = s1 \<and> w' = w1 \<and> cb = Ref Master_abort"
    "bs_state s1 \<notin> {SLAVE_FINISH_DOWNLOAD, SLAVE_ABORT} \<Longrightarrow> cb = NULL"
proof -
  obtain i q where wf: "slave_wf s i q" using assms(1) by (auto simp: owned_def)
  obtain s1 w1 where p: "slave_poll env s w = Some (s1, w1)" "same_slave s s1"
    by (rule poll_total [OF wf assms(2)])
  have own: "owned self s1" and wf1: "slave_wf s1 i q"
    using assms(1) wf by (simp_all add: owned_same [OF p(2)] same_slave_wf [OF p(2)])
  have k: "keeps_slave s1 (slave_switch env s1 w1)" by (rule switch_total [OF wf1])
  then obtain ret s' w' cb where x: "slave_switch env s1 w1 = Some (ret, s', w', cb)"
    by (cases "slave_switch env s1 w1") (auto simp: keeps_slave_def)
  note r = k [unfolded keeps_slave_def x option.case prod.case]
  have ev: "mem_get (bs_events s1) 3 = Some (Ref Master_finish_download)" "mem_get (bs_events s1) 4 = Some (Ref Master_abort)"
    using own wf1 by (simp_all add: owned_def slave_wf_def mem_simps)
  have over: "bs_state s1 = SLAVE_FINISH_DOWNLOAD \<Longrightarrow> s' = s1 \<and> w' = w1 \<and> cb = Ref Master_finish_download"
      "bs_state s1 = SLAVE_ABORT \<Longrightarrow> s' = s1 \<and> w' = w1 \<and> cb = Ref Master_abort"
    using x ev by (simp_all add: slave_switch_def)
  have none: "bs_state s1 \<notin> {SLAVE_FINISH_DOWNLOAD, SLAVE_ABORT} \<Longrightarrow> cb = NULL"
    using r by (cases "bs_state s1") simp_all
  show ?thesis by (rule that [OF p x same_slave_trans [OF p(2) r [THEN conjunct1]] over none])
qed

text \<open>The table after a slave has been forgotten, and the world after a slave in state \<open>s1\<close> has been reported
  with an outcome and destroyed.\<close>

definition forgotten :: "nat \<Rightarrow> 'w sm_boot_master \<Rightarrow> 'w sm_boot_master" where
  "forgotten k m = m\<lparr>bm_slaves := (bm_slaves m)[k := NULL], bm_slave_number := bm_slave_number m - 1\<rparr>"

definition reported :: "(master_fn, 'w) slave_env \<Rightarrow> int \<Rightarrow> 'w sm_boot_master \<Rightarrow> boot_slave \<Rightarrow> 'w \<Rightarrow> 'w" where
  "reported env status m s1 w1 = snd (sm_boot_slave_destroy env (Ref s1) (master_report status m s1 w1))"

lemma master_callback_reports:
  assumes "master_ok self m" "k < length (bm_slaves m)" "bm_slaves m ! k = Ref s" "same_slave s s1"
  shows "master_callback env f s1 (m\<lparr>bm_slaves := (bm_slaves m)[k := Ref s1]\<rparr>) w =
     (m\<lparr>bm_slaves := (bm_slaves m)[k := NULL], bm_slave_number := bm_slave_number m - 1\<rparr>,
      snd (sm_boot_slave_destroy env (Ref s1)
        (master_report (case f of Master_finish_download \<Rightarrow> 0 | Master_abort \<Rightarrow> -1) m s1 w)))"
proof -
  let ?m = "m\<lparr>bm_slaves := (bm_slaves m)[k := Ref s1]\<rparr>"
  have own: "owned self s" by (rule master_ok_owned [OF assms(1-3)])
  then have own1: "owned self s1" "bs_id s1 = bs_id s"
    using assms(4) by (simp_all add: owned_same [OF assms(4)]) (simp add: same_slave_def)
  have ok: "master_ok self ?m" by (rule master_ok_replace [OF assms(1,3,2) own1])
  have "find_slot (\<lambda>x. sm_boot_slave_get_id x = bs_id s1) (bm_slaves ?m) = Some k"
    by (rule find_own_slot) (use ok own1(1) assms(2) in \<open>simp_all add: master_ok_def owned_def\<close>)
  then show ?thesis
    using own1(1) assms(2)
    by (simp add: master_callback_def sm_boot_master_remove_slave_def sm_boot_slave_get_master_def owned_def
        sm_boot_slave_get_id_def master_report_def split: ptr.split)
qed

text \<open>A pass over an occupied entry.\<close>

lemma master_slot_outcome:
  assumes "master_ok self m" "k < SM_BOOT_SLAVE_MAX_SUPPORT" "\<And>q. sends_events env q" "bm_slaves m ! k = Ref s"
  obtains s1 w1 ret s' w' cb where "slave_poll env s w = Some (s1, w1)" "same_slave s s1"
    "slave_switch env s1 w1 = Some (ret, s', w', cb)" "same_slave s s'"
    "bs_state s1 = SLAVE_FINISH_DOWNLOAD \<Longrightarrow> master_slot env k m w = Some (forgotten k m, reported env 0 m s1 w1)"
    "bs_state s1 = SLAVE_ABORT \<Longrightarrow> master_slot env k m w = Some (forgotten k m, reported env (-1) m s1 w1)"
    "bs_state s1 \<notin> {SLAVE_FINISH_DOWNLOAD, SLAVE_ABORT} \<Longrightarrow>
       master_slot env k m w = Some (m\<lparr>bm_slaves := (bm_slaves m)[k := Ref s']\<rparr>, w')"
    "master_ok self (m\<lparr>bm_slaves := (bm_slaves m)[k := Ref s']\<rparr>)" "master_ok self (forgotten k m)"
proof -
  have k: "k < length (bm_slaves m)" using assms(1,2) by (simp add: master_ok_def)
  have own: "owned self s" by (rule master_ok_owned [OF assms(1) k assms(4)])
  from owned_process [OF own assms(3), of w] obtain s1 w1 ret s' w' cb where
    r: "slave_poll env s w = Some (s1, w1)" "same_slave s s1" "slave_switch env s1 w1 = Some (ret, s', w', cb)" "same_slave s s'"
    and f: "bs_state s1 = SLAVE_FINISH_DOWNLOAD \<Longrightarrow> s' = s1 \<and> w' = w1 \<and> cb = Ref Master_finish_download"
    and a: "bs_state s1 = SLAVE_ABORT \<Longrightarrow> s' = s1 \<and> w' = w1 \<and> cb = Ref Master_abort"
    and n: "bs_state s1 \<notin> {SLAVE_FINISH_DOWNLOAD, SLAVE_ABORT} \<Longrightarrow> cb = NULL" by metis
  have own': "owned self s'" "bs_id s' = bs_id s"
    using own r(4) by (simp_all add: owned_same [OF r(4)]) (simp add: same_slave_def)
  have slot: "master_slot env k m w = (let m = m\<lparr>bm_slaves := (bm_slaves m)[k := Ref s']\<rparr> in
      case cb of NULL \<Rightarrow> Some (m, w') | Ref f \<Rightarrow> Some (master_callback env f s' m w'))"
    using k assms(4) r(1,3) by (simp add: master_slot_def mem_simps sm_boot_slave_process_def Let_def split: ptr.split)
  note report = master_callback_reports [OF assms(1) k assms(4) r(2), folded forgotten_def reported_def]
  show ?thesis
    by (rule that [OF r _ _ _ master_ok_replace [OF assms(1,4) k own'] master_ok_clear [OF assms(1,4) k, folded forgotten_def]])
      (use slot f a n report in \<open>simp_all add: Let_def\<close>)
qed

lemma master_loop_ok:
  assumes "\<And>q. sends_events env q"
  shows "master_ok self m \<Longrightarrow> k + n = SM_BOOT_SLAVE_MAX_SUPPORT \<Longrightarrow>
     \<exists>m' w'. master_loop env k n m w = Some (m', w') \<and> master_ok self m'"
proof (induction n arbitrary: k m w)
  case (Suc n)
  have k: "k < length (bm_slaves m)" "k < SM_BOOT_SLAVE_MAX_SUPPORT"
    using Suc.prems by (simp_all add: master_ok_def)
  have "\<exists>m' w'. master_slot env k m w = Some (m', w') \<and> master_ok self m'"
  proof (cases "bm_slaves m ! k")
    case NULL
    then show ?thesis using Suc.prems(1) k by (simp add: master_slot_def mem_simps)
  next
    case (Ref s)
    show ?thesis by (rule master_slot_outcome [OF Suc.prems(1) k(2) assms Ref, of w]) blast
  qed
  then obtain m1 w1 where s: "master_slot env k m w = Some (m1, w1)" "master_ok self m1" by blast
  then show ?case using Suc.IH [OF s(2), of "Suc k" w1] Suc.prems(2) by simp
qed simp

lemma master_add_ok:
  assumes "master_ok self m" "\<And>s. mem = Ref s \<Longrightarrow> length (bs_events s) = SM_BOOT_SLAVE_EVENT_NUMBER"
    and "sm_boot_master_add_slave env mem seg_ok self (Ref m) slave_id input output w = (r, p, w')"
  shows "\<exists>m'. p = Ref m' \<and> master_ok self m'"
proof (cases "is_null input \<or> is_null output")
  case True
  then show ?thesis using assms(1,3) by (auto simp: sm_boot_master_add_slave_def)
next
  case False
  then obtain i q where iq: "input = Ref i" "output = Ref q" by (cases "input"; cases "output") auto
  show ?thesis
  proof (cases "find_slot (has_id slave_id) (bm_slaves m)")
    case (Some k)
    note k = find_slot_Some [OF Some]
    obtain s where s: "bm_slaves m ! k = Ref s"
      using k by (cases "bm_slaves m ! k") (auto simp: has_id_def)
    have p: "p = Ref (m\<lparr>bm_slaves := (bm_slaves m)[k := Ref (s\<lparr>bs_input := Ref i, bs_output := Ref q\<rparr>)]\<rparr>)"
      using assms(3) Some s by (auto simp: sm_boot_master_add_slave_def iq sm_boot_slave_update_if_def)
    have "owned self s" using master_ok_owned [OF assms(1) _ s] k by blast
    then have "owned self (s\<lparr>bs_input := Ref i, bs_output := Ref q\<rparr>)" by (auto simp: owned_def slave_wf_def)
    then show ?thesis using p master_ok_replace [OF assms(1) s] k by simp
  next
    case None
    obtain c w1 where c: "sm_boot_slave_create env mem seg_ok slave_id input output (Ref self) w = (c, w1)" by fastforce
    show ?thesis
    proof (cases c)
      case NULL
      then show ?thesis using assms(1,3) None c by (auto simp: sm_boot_master_add_slave_def iq)
    next
      case (Ref s)
      then have s: "0 \<le> bs_id s" "bs_id s = slave_id" "bs_master s = Ref self" "slave_wf s i q"
        using c assms(2) by (auto simp: sm_boot_slave_create_def iq sm_seg_create_def slave_wf_def Let_def
            split: if_splits ptr.splits prod.splits)
      obtain sr where sr: "register_slave (Ref s) = Ref sr" "owned self sr" "bs_id sr = slave_id"
        using s by (auto simp: register_slave_def sm_boot_slave_reg_event_def owned_def slave_wf_def numeral_eq_Suc)
      show ?thesis
      proof (cases "find_slot is_null (bm_slaves m)")
        case (Some k)
        note k = find_slot_Some [OF Some]
        have "slave_id \<notin> set (slave_ids (bm_slaves m))"
          using None by (auto simp: slave_ids_set find_slot_None has_id_def sm_boot_slave_get_id_def)
        then have "master_ok self (m\<lparr>bm_slaves := (bm_slaves m)[k := Ref sr], bm_slave_number := bm_slave_number m + 1\<rparr>)"
          using master_ok_insert [OF assms(1) _ _ sr(2)] k sr(3) by (cases "bm_slaves m ! k") simp_all
        moreover have "p = Ref (m\<lparr>bm_slaves := (bm_slaves m)[k := Ref sr], bm_slave_number := bm_slave_number m + 1\<rparr>)"
          using assms(3) None c Ref Some sr(1) by (auto simp: sm_boot_master_add_slave_def iq)
        ultimately show ?thesis by blast
      qed (use assms(1,3) None c Ref in \<open>auto simp: sm_boot_master_add_slave_def iq\<close>)
    qed
  qed
qed

text \<open>What may happen to a master: slaves are added (into freshly allocated memory), removed by
  their id, and run.\<close>

inductive master_reachable :: "(master_fn, 'w) slave_env \<Rightarrow> nat \<Rightarrow> 'w sm_boot_master \<Rightarrow> bool" for env self where
  master_created: "sm_boot_master_create malloc_ok fn arg = Ref m \<Longrightarrow> master_reachable env self m"
| master_added: "master_reachable env self m \<Longrightarrow>
     (\<And>s. mem = Ref s \<Longrightarrow> length (bs_events s) = SM_BOOT_SLAVE_EVENT_NUMBER) \<Longrightarrow>
     sm_boot_master_add_slave env mem seg_ok self (Ref m) slave_id input output w = (r, Ref m', w') \<Longrightarrow>
     master_reachable env self m'"
| master_removed: "master_reachable env self m \<Longrightarrow> 0 \<le> slave_id \<Longrightarrow>
     sm_boot_master_remove_slave env (Ref m) slave_id w = (r, Ref m', w') \<Longrightarrow> master_reachable env self m'"
| master_ran: "master_reachable env self m \<Longrightarrow> sm_boot_master_process env (Ref m) w = Some (r, Ref m', w') \<Longrightarrow>
     master_reachable env self m'"

lemma master_created_ok: "master_ok self (boot_master_init fn arg)"
proof -
  have "slave_ids (replicate n NULL) = []" for n by (induction n) simp_all
  then show ?thesis by (auto simp: master_ok_def boot_master_init_def)
qed

lemma master_reachable_ok:
  assumes "master_reachable env self m" "\<And>q. sends_events env q"
  shows "master_ok self m"
  using assms(1)
proof (induction rule: master_reachable.induct)
  case (master_created malloc_ok fn arg m)
  then show ?case using master_created_ok by (auto simp: sm_boot_master_create_def split: if_splits)
next
  case (master_added m mem seg_ok slave_id "input" "output" w r m' w')
  show ?case using master_add_ok [OF master_added.IH master_added.hyps(2,3)] by simp
next
  case (master_removed m slave_id w r m' w')
  show ?case
  proof (cases "find_slot (\<lambda>x. sm_boot_slave_get_id x = slave_id) (bm_slaves m)")
    case None
    then show ?thesis using master_removed by (simp add: sm_boot_master_remove_slave_def)
  next
    case (Some k)
    note k = find_slot_Some [OF Some]
    then obtain s where "bm_slaves m ! k = Ref s"
      using master_removed.hyps(2) by (cases "bm_slaves m ! k") (auto simp: sm_boot_slave_get_id_def)
    then show ?thesis
      using master_ok_clear [OF master_removed.IH _ ] k Some master_removed.hyps(3)
      by (auto simp: sm_boot_master_remove_slave_def)
  qed
next
  case (master_ran m w r m' w')
  show ?case
    using master_loop_ok [OF assms(2) master_ran.IH, of 0 SM_BOOT_SLAVE_MAX_SUPPORT w] master_ran
    by (auto simp: sm_boot_master_process_def split: if_splits)
qed

lemma few_slaves:
  assumes "master_ok self m"
  shows "bm_slave_number m \<le> int SM_BOOT_SLAVE_MAX_SUPPORT"
proof -
  have "length (slave_ids ps) \<le> length ps" for ps by (simp add: slave_ids_def)
  from this [of "bm_slaves m"] show ?thesis using assms by (simp add: master_ok_def)
qed

text \<open>C13:
  The table of the master stays consistent. Whatever slaves are added, removed by their ids and run,
  in whatever order, and whatever events their outputs deliver: \<open>m_slave_number\<close> is the number of
  occupied entries, at most ten; no two slaves have the same id; every slave still points at this
  master and reports to it; and \<open>sm_boot_master_process\<close> returns.\<close>

theorem master_table_consistent:
  assumes "master_reachable env self m" "\<And>q. sends_events env q"
  shows "bm_slave_number m = int (length (filter (\<lambda>p. \<not> is_null p) (bm_slaves m)))
     \<and> bm_slave_number m \<le> int SM_BOOT_SLAVE_MAX_SUPPORT \<and> distinct (slave_ids (bm_slaves m))
     \<and> (\<forall>s. Ref s \<in> set (bm_slaves m) \<longrightarrow> owned self s)
     \<and> (\<exists>r m' w'. sm_boot_master_process env (Ref m) w = Some (r, Ref m', w'))"
proof -
  have ok: "master_ok self m" by (rule master_reachable_ok [OF assms])
  have "\<exists>r m' w'. sm_boot_master_process env (Ref m) w = Some (r, Ref m', w')"
    using master_loop_ok [OF assms(2) ok, of 0 SM_BOOT_SLAVE_MAX_SUPPORT w]
    by (auto simp: sm_boot_master_process_def)
  then show ?thesis
    using ok few_slaves [OF ok] by (simp add: master_ok_def) (simp add: slave_ids_def)
qed

text \<open>C11:
  The master reports a slave exactly when it is done, and then forgets it. A pass over an occupied
  entry of a reachable table first lets the output of the slave deliver its events. If the upgrade of the slave is then
  over, the callback of the application is called once, with 0 for a finished or -1 for an aborted upgrade and
  the slave's id, the slave is destroyed, its entry becomes free and the count goes down by one, and nothing else
  happens. If it is not over, nothing is reported: the pass does to the world what the step of the slave itself does,
  and the slave stays in its entry, with its id, input, output, callbacks and master. The outputs return and act on a slave
  by its events only.\<close>

theorem master_reports_done_slaves:
  assumes "master_reachable env self m" "k < SM_BOOT_SLAVE_MAX_SUPPORT" "\<And>q. sends_events env q"
    and "bm_slaves m ! k = Ref s"
  shows "\<exists>s1 w1 ret s' w' cb. slave_poll env s w = Some (s1, w1) \<and> same_slave s s1
     \<and> slave_switch env s1 w1 = Some (ret, s', w', cb) \<and> same_slave s s'
     \<and> master_slot env k m w =
         (if bs_state s1 = SLAVE_FINISH_DOWNLOAD then Some (forgotten k m, reported env 0 m s1 w1)
          else if bs_state s1 = SLAVE_ABORT then Some (forgotten k m, reported env (-1) m s1 w1)
          else Some (m\<lparr>bm_slaves := (bm_slaves m)[k := Ref s']\<rparr>, w'))"
proof (rule master_slot_outcome [OF master_reachable_ok [OF assms(1,3)] assms(2,3,4), of w])
  fix s1 w1 ret s' w' cb
  assume r: "slave_poll env s w = Some (s1, w1)" "same_slave s s1" "slave_switch env s1 w1 = Some (ret, s', w', cb)" "same_slave s s'"
    and "bs_state s1 = SLAVE_FINISH_DOWNLOAD \<Longrightarrow> master_slot env k m w = Some (forgotten k m, reported env 0 m s1 w1)"
    and "bs_state s1 = SLAVE_ABORT \<Longrightarrow> master_slot env k m w = Some (forgotten k m, reported env (-1) m s1 w1)"
    and "bs_state s1 \<notin> {SLAVE_FINISH_DOWNLOAD, SLAVE_ABORT} \<Longrightarrow>
      master_slot env k m w = Some (m\<lparr>bm_slaves := (bm_slaves m)[k := Ref s']\<rparr>, w')"
  then have "master_slot env k m w =
      (if bs_state s1 = SLAVE_FINISH_DOWNLOAD then Some (forgotten k m, reported env 0 m s1 w1)
       else if bs_state s1 = SLAVE_ABORT then Some (forgotten k m, reported env (-1) m s1 w1)
       else Some (m\<lparr>bm_slaves := (bm_slaves m)[k := Ref s']\<rparr>, w'))" by simp
  with r show ?thesis by blast
qed

text \<open>Removing the id -1, which no slave has, finds the first free entry: the call succeeds and
  lowers the count. A master with one slave then never runs it again.\<close>

theorem master_remove_unknown_stops:
  assumes "master_ok self m" "bm_slave_number m = 1"
  shows "\<exists>m'. sm_boot_master_remove_slave env (Ref m) (-1) w = (0, Ref m', w) \<and> bm_slaves m' = bm_slaves m
     \<and> (\<forall>v. sm_boot_master_process env (Ref m') v = Some (-1, Ref m', v))"
proof -
  have "length (filter (\<lambda>p. \<not> is_null p) (bm_slaves m)) < length (bm_slaves m)"
    using assms by (simp add: master_ok_def slave_ids_def)
  then have "\<not> (\<forall>x \<in> set (bm_slaves m). \<not> is_null x)"
    by (metis filter_True less_irrefl)
  then obtain x where x: "x \<in> set (bm_slaves m)" "is_null x" by blast
  show ?thesis
  proof (cases "find_slot (\<lambda>x. sm_boot_slave_get_id x = -1) (bm_slaves m)")
    case None
    then show ?thesis using x by (cases x) (auto simp: find_slot_None sm_boot_slave_get_id_def)
  next
    case (Some k)
    note k = find_slot_Some [OF Some]
    have "bm_slaves m ! k = NULL"
    proof (cases "bm_slaves m ! k")
      case (Ref s)
      then have "0 \<le> bs_id s" using master_ok_owned [OF assms(1) _ Ref] k by (simp add: owned_def)
      then show ?thesis using k Ref by (simp add: sm_boot_slave_get_id_def)
    qed
    then show ?thesis
      using Some assms(2) k list_update_id [of "bm_slaves m" k]
      by (simp add: sm_boot_master_remove_slave_def sm_boot_slave_destroy_def sm_boot_master_process_def)
  qed
qed

text \<open>A master with one slave.\<close>

definition blank_slave :: boot_slave where
  "blank_slave = \<lparr>bs_id = 0, bs_input = NULL, bs_output = NULL, bs_segment = NULL, bs_waiting_seg = 0,
     bs_new_fw_signature = bs_new_fw_signature idle_slave, bs_state = SLAVE_IDLE, bs_events = replicate 5 NULL,
     bs_timeout = \<lparr>et_duration = 0, et_start_time = 0\<rparr>, bs_repeat = 0, bs_master = NULL\<rparr>"

definition one_slave :: boot_slave where
  "one_slave = deref (register_slave (fst (sm_boot_slave_create mute_env (Ref blank_slave) True 3 (Ref 0) (Ref 0) (Ref 7) 0)))"

definition one_slave_master :: "int sm_boot_master" where
  "one_slave_master = (boot_master_init NULL 0)\<lparr>bm_slaves := (replicate SM_BOOT_SLAVE_MAX_SUPPORT NULL)[0 := Ref one_slave],
     bm_slave_number := 1\<rparr>"

lemma one_slave_reachable: "master_reachable mute_env 7 one_slave_master"
proof (rule master_added)
  show "master_reachable mute_env 7 (boot_master_init NULL 0)"
    by (rule master_created [of True]) (simp add: sm_boot_master_create_def)
  show "sm_boot_master_add_slave mute_env (Ref blank_slave) True 7 (Ref (boot_master_init NULL 0)) 3 (Ref 0) (Ref 0) 0
      = (0, Ref one_slave_master, 0)"
    by (simp add: sm_boot_master_add_slave_def one_slave_master_def one_slave_def boot_master_init_def has_id_def
        sm_boot_slave_create_def mute_env_def sm_seg_create_def elapsed_timer_resetz_def reg_slave_events_def
        register_slave_def sm_boot_slave_reg_event_def numeral_eq_Suc)
qed (simp add: blank_slave_def)

lemma mute_sends_events: "sends_events mute_env q"
  by (auto simp: sends_events_def mute_env_def intro: notified_nothing)

lemma master_table_consistent_witness:
  "bm_slave_number one_slave_master = 1 \<and> distinct (slave_ids (bm_slaves one_slave_master))
     \<and> (\<exists>r m' w'. sm_boot_master_process mute_env (Ref one_slave_master) 0 = Some (r, Ref m', w'))"
  using master_table_consistent [OF one_slave_reachable mute_sends_events] by (simp add: one_slave_master_def)

lemma master_reports_done_slaves_witness:
  "\<exists>s'. master_slot mute_env 0 one_slave_master 0
     = Some (one_slave_master\<lparr>bm_slaves := (bm_slaves one_slave_master)[0 := Ref s']\<rparr>, 0) \<and> bs_state s' = SLAVE_REQUEST_UPGRADE"
proof -
  have one: "bm_slaves one_slave_master ! 0 = Ref one_slave" by (simp add: one_slave_master_def)
  have poll: "slave_poll mute_env one_slave 0 = Some (one_slave, 0)" and idle: "bs_state one_slave = SLAVE_IDLE"
    by (simp_all add: slave_poll_def one_slave_def sm_boot_slave_create_def blank_slave_def mute_env_def sm_seg_create_def
        elapsed_timer_resetz_def reg_slave_events_def register_slave_def sm_boot_slave_reg_event_def)
  show ?thesis
    using master_reports_done_slaves [OF one_slave_reachable _ mute_sends_events one, of 0] poll idle
    by (auto simp: slave_switch_def)
qed

end
