(* ===== verification/Boot_Output.thy ===== *)
theory Boot_Output
  imports Boot_Slave Boot_Host Host
begin

section \<open>The boot output over the host protocol\<close>

text \<open>
  Models \<^verbatim>\<open>common/upgrade/master/boot-impl/output/sm_host_485_boot_output.c\<close>: the boot output that
  sends a firmware to a device by commands of the host protocol, each of them a synchronous exchange.
  The command handler that the exchange calls with the answer raises events of the boot slave.

  The output keeps pointers to the segment and to the signature of its slave, so the state of an
  exchange (\<open>link\<close>) holds the slave, the output and the rest of the world \<open>'x\<close>. A fault of the
  handler is the state \<^term>\<open>None\<close>. The exchange is the function \<open>req\<close> of command, data, handler,
  handler argument, host object and state; \<open>Host\<close> provides it. \<open>xenv\<close> holds the clock and the boot
  input, and \<open>delay\<close> is \<open>delayMs\<close>. The functions the output calls through its event table are those of
  the slave (\<open>slave_event_fn\<close>).
\<close>

abbreviation HOST_RS485_PACKET_SEG_LEN :: int where "HOST_RS485_PACKET_SEG_LEN \<equiv> 128"
abbreviation STATE_REQUEST_UPGRADE_TIMEOUT :: int where "STATE_REQUEST_UPGRADE_TIMEOUT \<equiv> 200"
abbreviation STATE_SEND_SEG_INFO_TIMEOUT :: int where "STATE_SEND_SEG_INFO_TIMEOUT \<equiv> 200"
abbreviation STATE_SEND_SEG_DATA_TIMEOUT :: int where "STATE_SEND_SEG_DATA_TIMEOUT \<equiv> 2000"
abbreviation STATE_SEND_FW_INFO_TIMEOUT :: int where "STATE_SEND_FW_INFO_TIMEOUT \<equiv> 200"

datatype host_output_state =
  UPGRADE_IDLE | UPGRADE_REQUEST | UPGRADE_SEG_INFO | UPGRADE_SEG_DATA | UPGRADE_FW_INFO | UPGRADE_NUMBER

record host_output =
  ho_src_id :: int
  ho_events :: "slave_event_fn ptr list"
  ho_fw_signature :: "unit ptr"
  ho_segment :: "unit ptr"
  ho_state :: host_output_state
  ho_seg_offset :: int
  ho_last_packet :: bool
  ho_timeout :: elapsed_timer
  ho_retry :: int

record ('cb, 'x) link =
  lk_slave :: "'cb sm_boot_slave"
  lk_out :: host_output
  lk_ext :: 'x

type_synonym ('cb, 'x) link_state = "('cb, 'x) link option"
type_synonym ('h, 's) exchange =
  "int \<Rightarrow> bytes \<Rightarrow> (int \<Rightarrow> bytes \<Rightarrow> nat \<Rightarrow> 's \<Rightarrow> int \<times> 's) \<Rightarrow> nat \<Rightarrow> 'h \<Rightarrow> 's \<Rightarrow> (int \<times> 'h \<times> 's) option"

subsection \<open>Packets\<close>

definition be32_bytes :: "u32 \<Rightarrow> bytes" where
  "be32_bytes x = [le32_byte 3 x, le32_byte 2 x, le32_byte 1 x, le32_byte 0 x]"

definition be16_bytes :: "u16 \<Rightarrow> bytes" where
  "be16_bytes x = [byte_hi x, byte_lo x]"

lemma length_be_bytes [simp]: "length (be32_bytes x) = 4" "length (be16_bytes y) = 2"
  by (simp_all add: be32_bytes_def be16_bytes_def)

definition segment_info_packet :: "bool \<Rightarrow> u32 \<Rightarrow> u32 \<Rightarrow> u16 \<Rightarrow> bytes" where
  "segment_info_packet is_last addr n crc =
     [SM_SUB_CMD_SEND_SEGMENT_INFO, 0, if is_last then 1 else 0] @ be32_bytes addr @ be32_bytes n @ be16_bytes crc"

definition build_segment_info_packet :: "sm_segment \<Rightarrow> bytes" where
  "build_segment_info_packet seg = segment_info_packet (sg_is_last seg \<noteq> 0) (word_of_int (sg_addr seg))
     (word_of_int (sg_size seg)) (sg_crc seg)"

definition build_segment_data_packet :: "sm_segment \<Rightarrow> int \<Rightarrow> int \<Rightarrow> bytes option" where
  "build_segment_data_packet seg len offset =
     (if offset < 0 then None
      else do { d \<leftarrow> mem_read (sg_data seg) (nat offset) (nat len); Some (SM_SUB_CMD_SEND_SEGMENT_DATA # d) })"

definition build_fw_info_packet :: "fw_info \<Rightarrow> bytes option" where
  "build_fw_info_packet fw = do {
     version \<leftarrow> mem_read (fi_version fw) 0 SM_FW_VERSION_LENGTH;
     Some (SM_SUB_CMD_FW_INFO # version @ be32_bytes (fi_size fw) @ be32_bytes (fi_addr fw) @ be16_bytes (fi_crc fw)) }"

subsection \<open>Events and the command handler\<close>

fun event_by_state :: "host_output_state \<Rightarrow> SM_BOOT_SLAVE_EVENT option" where
  "event_by_state UPGRADE_REQUEST = Some CONFIRM_READY"
| "event_by_state UPGRADE_SEG_INFO = Some CONFIRM_SEG"
| "event_by_state UPGRADE_SEG_DATA = Some CONFIRM_SEG"
| "event_by_state UPGRADE_FW_INFO = Some CONFIRM_FW_INFO"
| "event_by_state _ = None"

definition host_notify :: "('cb, 'x) slave_env \<Rightarrow> bool \<Rightarrow> ('cb, 'x) link \<Rightarrow> ('cb, 'x) link_state" where
  "host_notify xenv success l =
     (case event_by_state (ho_state (lk_out l)) of
        None \<Rightarrow> Some l
      | Some ev \<Rightarrow> do {
          p \<leftarrow> mem_get (ho_events (lk_out l)) (slave_event_index ev);
          (case p of
             NULL \<Rightarrow> Some l
           | Ref f \<Rightarrow> do {
               (s, x) \<leftarrow> slave_event xenv f (if success then 1 else 0) (lk_slave l) (lk_ext l);
               Some (l\<lparr>lk_slave := s, lk_ext := x\<rparr>) }) })"

definition answer_handle ::
  "('cb, 'x) slave_env \<Rightarrow> (int \<Rightarrow> 'x \<Rightarrow> 'x) \<Rightarrow> bytes \<Rightarrow> ('cb, 'x) link \<Rightarrow> ('cb, 'x) link_state" where
  "answer_handle xenv delay data l =
     (let ret = sint (data ! 0); sub_cmd = data ! 1; st = ho_state (lk_out l) in
      if sub_cmd = SM_SUB_CMD_REQUEST \<and> st = UPGRADE_REQUEST then
        host_notify xenv True (l\<lparr>lk_ext := delay 500 (lk_ext l)\<rparr>)
      else if ret < 0 then host_notify xenv False l
      else if sub_cmd = SM_SUB_CMD_SEND_SEGMENT_INFO \<and> st = UPGRADE_SEG_INFO then
        Some (l\<lparr>lk_out := (lk_out l)\<lparr>ho_state := UPGRADE_SEG_DATA\<rparr>\<rparr>)
      else if sub_cmd = SM_SUB_CMD_SEND_SEGMENT_DATA \<and> st = UPGRADE_SEG_DATA then
        (if ho_last_packet (lk_out l) then host_notify xenv True l else Some l)
      else if sub_cmd = SM_SUB_CMD_FW_INFO \<and> st = UPGRADE_FW_INFO then host_notify xenv True l
      else Some l)"

text \<open>\<open>sm_host_cmd_callback\<close>; its argument is the address of the output.\<close>

definition output_cmd_callback ::
  "('cb, 'x) slave_env \<Rightarrow> (int \<Rightarrow> 'x \<Rightarrow> 'x) \<Rightarrow> int \<Rightarrow> bytes \<Rightarrow> nat \<Rightarrow> ('cb, 'x) link_state \<Rightarrow> int \<times> ('cb, 'x) link_state" where
  "output_cmd_callback xenv delay cmd data arg st =
     (if length data < 2 \<or> arg = 0 \<or> cmd \<noteq> SM_CMD_UPGRADE_FW then (-1, st)
      else (0, Option.bind st (answer_handle xenv delay data)))"

subsection \<open>One call of the output\<close>

definition out_update :: "(host_output \<Rightarrow> host_output) \<Rightarrow> ('cb, 'x) link \<Rightarrow> ('cb, 'x) link" where
  "out_update f l = l\<lparr>lk_out := f (lk_out l)\<rparr>"

definition link_tick :: "('x clock) \<Rightarrow> ('cb, 'x) link clock" where
  "link_tick tick l = (case tick (lk_ext l) of (now, x) \<Rightarrow> (now, l\<lparr>lk_ext := x\<rparr>))"

text \<open>A reading of the output's timer, and setting it.\<close>

definition out_remain :: "('cb, 'x) slave_env \<Rightarrow> ('cb, 'x) link \<Rightarrow> int \<times> ('cb, 'x) link" where
  "out_remain xenv l = elapsed_timer_get_remain (link_tick (sl_tick xenv)) (ho_timeout (lk_out l)) l"

definition out_resetz :: "('cb, 'x) slave_env \<Rightarrow> int \<Rightarrow> ('cb, 'x) link \<Rightarrow> ('cb, 'x) link" where
  "out_resetz xenv d l = (case elapsed_timer_resetz (link_tick (sl_tick xenv)) (ho_timeout (lk_out l)) d l of
     (t, l) \<Rightarrow> out_update (\<lambda>q. q\<lparr>ho_timeout := t\<rparr>) l)"

definition out_reset :: "('cb, 'x) slave_env \<Rightarrow> ('cb, 'x) link \<Rightarrow> ('cb, 'x) link" where
  "out_reset xenv l = (case elapsed_timer_reset (link_tick (sl_tick xenv)) (ho_timeout (lk_out l)) l of
     (t, l) \<Rightarrow> out_update (\<lambda>q. q\<lparr>ho_timeout := t\<rparr>) l)"

text \<open>One exchange of an upgrade command.\<close>

definition out_send ::
  "('h, ('cb, 'x) link_state) exchange \<Rightarrow> ('cb, 'x) slave_env \<Rightarrow> (int \<Rightarrow> 'x \<Rightarrow> 'x) \<Rightarrow> nat \<Rightarrow> bytes \<Rightarrow> 'h
     \<Rightarrow> ('cb, 'x) link \<Rightarrow> (int \<times> 'h \<times> ('cb, 'x) link) option" where
  "out_send req xenv delay self packet h l = do {
     (ret, h, st) \<leftarrow> req SM_CMD_UPGRADE_FW packet (output_cmd_callback xenv delay) self h (Some l);
     l \<leftarrow> st;
     Some (ret, h, l) }"

text \<open>An exchange that timed out (it returned 0) is reported as a refusal.\<close>

definition notify_timeout :: "('cb, 'x) slave_env \<Rightarrow> int \<Rightarrow> ('cb, 'x) link \<Rightarrow> ('cb, 'x) link_state" where
  "notify_timeout xenv ret l = (if ret = 0 then host_notify xenv False l else Some l)"

definition out_segment :: "('cb, 'x) link \<Rightarrow> sm_segment option" where
  "out_segment l = do { _ \<leftarrow> to_ptr (ho_segment (lk_out l)); to_ptr (bs_segment (lk_slave l)) }"

definition out_send_request ::
  "('h, ('cb, 'x) link_state) exchange \<Rightarrow> ('cb, 'x) slave_env \<Rightarrow> (int \<Rightarrow> 'x \<Rightarrow> 'x) \<Rightarrow> nat \<Rightarrow> 'h
     \<Rightarrow> ('cb, 'x) link \<Rightarrow> (int \<times> 'h \<times> ('cb, 'x) link) option" where
  "out_send_request req xenv delay self h l =
     (case out_remain xenv l of (remain, l) \<Rightarrow>
        if remain \<noteq> 0 then Some (0, h, l)
        else do {
          (_, h, l) \<leftarrow> out_send req xenv delay self [SM_SUB_CMD_REQUEST] h l;
          Some (0, h, out_resetz xenv STATE_REQUEST_UPGRADE_TIMEOUT l) })"

definition out_send_info ::
  "('h, ('cb, 'x) link_state) exchange \<Rightarrow> ('cb, 'x) slave_env \<Rightarrow> (int \<Rightarrow> 'x \<Rightarrow> 'x) \<Rightarrow> nat \<Rightarrow> 'h
     \<Rightarrow> ('cb, 'x) link \<Rightarrow> (int \<times> 'h \<times> ('cb, 'x) link) option" where
  "out_send_info req xenv delay self h l =
     (case out_remain xenv l of (remain, l) \<Rightarrow>
        if remain \<noteq> 0 then Some (0, h, l)
        else do {
          seg \<leftarrow> out_segment l;
          (ret, h, l) \<leftarrow> out_send req xenv delay self (build_segment_info_packet seg) h l;
          l \<leftarrow> (if ret = 0 then
                 let l = out_update (\<lambda>q. q\<lparr>ho_retry := ho_retry q + 1\<rparr>) l
                 in if 5 \<le> ho_retry (lk_out l) then host_notify xenv False l else Some l
               else Some l);
          Some (0, h, out_reset xenv l) })"

definition out_send_data ::
  "('h, ('cb, 'x) link_state) exchange \<Rightarrow> ('cb, 'x) slave_env \<Rightarrow> (int \<Rightarrow> 'x \<Rightarrow> 'x) \<Rightarrow> nat \<Rightarrow> 'h
     \<Rightarrow> ('cb, 'x) link \<Rightarrow> (int \<times> 'h \<times> ('cb, 'x) link) option" where
  "out_send_data req xenv delay self h l = do {
     seg \<leftarrow> out_segment l;
     let offset = ho_seg_offset (lk_out l);
     let final = (sg_length seg \<le> offset + HOST_RS485_PACKET_SEG_LEN);
     let len = (if final then sg_length seg - offset else HOST_RS485_PACKET_SEG_LEN);
     let l = (if final then out_update (\<lambda>q. q\<lparr>ho_last_packet := True\<rparr>) l else l);
     if len \<le> 0 then Some (0, h, l)
     else do {
       packet \<leftarrow> build_segment_data_packet seg len offset;
       (ret, h, l) \<leftarrow> out_send req xenv delay self packet h l;
       l \<leftarrow> notify_timeout xenv ret l;
       let l = out_update (\<lambda>q. q\<lparr>ho_seg_offset := ho_seg_offset q + HOST_RS485_PACKET_SEG_LEN\<rparr>) l;
       Some (0, h, out_resetz xenv STATE_SEND_SEG_DATA_TIMEOUT l) } }"

definition out_send_fw_info ::
  "('h, ('cb, 'x) link_state) exchange \<Rightarrow> ('cb, 'x) slave_env \<Rightarrow> (int \<Rightarrow> 'x \<Rightarrow> 'x) \<Rightarrow> nat \<Rightarrow> 'h
     \<Rightarrow> ('cb, 'x) link \<Rightarrow> (int \<times> 'h \<times> ('cb, 'x) link) option" where
  "out_send_fw_info req xenv delay self h l = do {
     _ \<leftarrow> to_ptr (ho_fw_signature (lk_out l));
     packet \<leftarrow> build_fw_info_packet (bs_new_fw_signature (lk_slave l));
     (ret, h, l) \<leftarrow> out_send req xenv delay self packet h l;
     l \<leftarrow> notify_timeout xenv ret l;
     Some (0, h, out_resetz xenv STATE_SEND_FW_INFO_TIMEOUT l) }"

text \<open>\<open>self\<close> is the address of the output.\<close>

definition sm_boot_host_sync_process ::
  "('h, ('cb, 'x) link_state) exchange \<Rightarrow> ('cb, 'x) slave_env \<Rightarrow> (int \<Rightarrow> 'x \<Rightarrow> 'x) \<Rightarrow> nat \<Rightarrow> 'h
     \<Rightarrow> ('cb, 'x) link \<Rightarrow> (int \<times> 'h \<times> ('cb, 'x) link) option" where
  "sm_boot_host_sync_process req xenv delay self h l =
     (if self = 0 then Some (-1, h, l)
      else (case ho_state (lk_out l) of
        UPGRADE_IDLE \<Rightarrow> Some (0, h, l)
      | UPGRADE_REQUEST \<Rightarrow> out_send_request req xenv delay self h l
      | UPGRADE_SEG_INFO \<Rightarrow> out_send_info req xenv delay self h l
      | UPGRADE_SEG_DATA \<Rightarrow> out_send_data req xenv delay self h l
      | UPGRADE_FW_INFO \<Rightarrow> out_send_fw_info req xenv delay self h l
      | UPGRADE_NUMBER \<Rightarrow> Some (0, h, out_update (\<lambda>q. q\<lparr>ho_state := UPGRADE_IDLE\<rparr>) l)))"

subsection \<open>What the slave asks of the output\<close>

definition sm_boot_host_sync_init :: "host_output ptr \<Rightarrow> int \<times> host_output ptr" where
  "sm_boot_host_sync_init p =
     (case p of
        NULL \<Rightarrow> (-1, NULL)
      | Ref q \<Rightarrow> (0, Ref (q\<lparr>ho_src_id := -1, ho_fw_signature := NULL, ho_segment := NULL, ho_last_packet := False,
          ho_seg_offset := 0, ho_state := UPGRADE_IDLE, ho_retry := 0\<rparr>)))"

definition sm_boot_host_sync_free :: "host_output \<Rightarrow> host_output" where
  "sm_boot_host_sync_free q = q\<lparr>ho_src_id := -1, ho_fw_signature := NULL, ho_segment := NULL, ho_last_packet := False,
     ho_seg_offset := 0, ho_state := UPGRADE_IDLE\<rparr>"

definition sm_boot_host_sync_reg_event_callback ::
  "host_output ptr \<Rightarrow> SM_BOOT_SLAVE_EVENT \<Rightarrow> slave_event_fn ptr \<Rightarrow> int \<times> host_output ptr" where
  "sm_boot_host_sync_reg_event_callback p event fn =
     (case (p, fn) of
        (Ref q, Ref _) \<Rightarrow> (0, Ref (q\<lparr>ho_events := (ho_events q)[slave_event_index event := fn]\<rparr>))
      | _ \<Rightarrow> (-1, p))"

text \<open>\<open>set_addr\<close> is \<open>sm_host_set_addr\<close> on the host of the output.\<close>

definition sm_boot_host_sync_request_upgrade ::
  "(u8 \<Rightarrow> 'h \<Rightarrow> 'h) \<Rightarrow> host_output ptr \<Rightarrow> int \<Rightarrow> 'h \<Rightarrow> int \<times> host_output ptr \<times> 'h" where
  "sm_boot_host_sync_request_upgrade set_addr p src_id h =
     (case p of
        NULL \<Rightarrow> (-1, NULL, h)
      | Ref q \<Rightarrow>
          if 0 \<le> ho_src_id q \<and> ho_src_id q \<noteq> src_id then (-1, p, h)
          else (0, Ref (q\<lparr>ho_src_id := src_id, ho_state := UPGRADE_REQUEST, ho_seg_offset := 0,
                  ho_last_packet := False\<rparr>), set_addr (word_of_int (src_id + 1)) h))"

definition sm_boot_host_sync_set_fw_info :: "host_output ptr \<Rightarrow> int \<times> host_output ptr" where
  "sm_boot_host_sync_set_fw_info p =
     (case p of
        NULL \<Rightarrow> (-1, NULL)
      | Ref q \<Rightarrow>
          if ho_src_id q < 0 then (-1, p)
          else (0, Ref (q\<lparr>ho_fw_signature := Ref (), ho_state := UPGRADE_FW_INFO, ho_seg_offset := 0,
                  ho_last_packet := False\<rparr>)))"

definition sm_boot_host_sync_set_seg_fw :: "'x clock \<Rightarrow> host_output ptr \<Rightarrow> 'x \<Rightarrow> int \<times> host_output ptr \<times> 'x" where
  "sm_boot_host_sync_set_seg_fw tick p x =
     (case p of
        NULL \<Rightarrow> (-1, NULL, x)
      | Ref q \<Rightarrow>
          if ho_src_id q < 0 then (-1, p, x)
          else (case elapsed_timer_resetz tick (ho_timeout q) STATE_SEND_SEG_INFO_TIMEOUT x of (t, x) \<Rightarrow>
            (0, Ref (q\<lparr>ho_segment := Ref (), ho_last_packet := False, ho_seg_offset := 0, ho_state := UPGRADE_SEG_INFO,
                  ho_retry := 0, ho_timeout := t\<rparr>), x)))"

text \<open>\<open>sm_get_host_sync_boot_output\<close>: the static output over a host that is not \<open>NULL\<close>. Its state and
  retry counter are left to the later initialisation.\<close>

definition sm_get_host_sync_boot_output ::
  "'x clock \<Rightarrow> host_output \<Rightarrow> bool \<Rightarrow> 'x \<Rightarrow> host_output ptr \<times> 'x" where
  "sm_get_host_sync_boot_output tick g host_ok x =
     (if \<not> host_ok then (NULL, x)
      else (case elapsed_timer_resetz tick (ho_timeout g) STATE_REQUEST_UPGRADE_TIMEOUT x of (t, x) \<Rightarrow>
        (Ref (g\<lparr>ho_src_id := -1, ho_segment := NULL, ho_fw_signature := NULL, ho_seg_offset := 0,
           ho_last_packet := False, ho_timeout := t, ho_events := replicate SM_BOOT_SLAVE_EVENT_NUMBER NULL\<rparr>), x)))"

subsection \<open>The output as the slave sees it\<close>

record ('h, 'x) out_world =
  ow_out :: host_output
  ow_host :: 'h
  ow_ext :: 'x

definition on_ext :: "('x \<Rightarrow> 'x) \<Rightarrow> ('h, 'x) out_world \<Rightarrow> ('h, 'x) out_world" where
  "on_ext f w = w\<lparr>ow_ext := f (ow_ext w)\<rparr>"

definition on_out :: "(host_output ptr \<Rightarrow> int \<times> host_output ptr) \<Rightarrow> ('h, 'x) out_world \<Rightarrow> ('h, 'x) out_world" where
  "on_out f w = w\<lparr>ow_out := deref (snd (f (Ref (ow_out w))))\<rparr>"

definition out_run ::
  "('h, ('cb, 'x) link_state) exchange \<Rightarrow> ('cb, 'x) slave_env \<Rightarrow> (int \<Rightarrow> 'x \<Rightarrow> 'x) \<Rightarrow> nat
     \<Rightarrow> 'cb sm_boot_slave \<Rightarrow> ('h, 'x) out_world \<Rightarrow> ('cb sm_boot_slave \<times> ('h, 'x) out_world) option" where
  "out_run req xenv delay self s w = do {
     (_, h, l) \<leftarrow> sm_boot_host_sync_process req xenv delay self (ow_host w)
        \<lparr>lk_slave = s, lk_out = ow_out w, lk_ext = ow_ext w\<rparr>;
     Some (lk_slave l, \<lparr>ow_out = lk_out l, ow_host = h, ow_ext = lk_ext l\<rparr>) }"

text \<open>The environment of a slave whose output is this one (\<open>g_boot_output_proc_default\<close>); its clock
  and inputs are those of \<open>xenv\<close>.\<close>

definition host_slave_env ::
  "('h, ('cb, 'x) link_state) exchange \<Rightarrow> ('cb, 'x) slave_env \<Rightarrow> (int \<Rightarrow> 'x \<Rightarrow> 'x) \<Rightarrow> (u8 \<Rightarrow> 'h \<Rightarrow> 'h) \<Rightarrow> nat
     \<Rightarrow> ('cb, ('h, 'x) out_world) slave_env" where
  "host_slave_env req xenv delay set_addr self =
     \<lparr>sl_tick = (\<lambda>w. case sl_tick xenv (ow_ext w) of (now, x) \<Rightarrow> (now, w\<lparr>ow_ext := x\<rparr>)),
      in_init = (\<lambda>i. on_ext (in_init xenv i)), in_free = (\<lambda>i. on_ext (in_free xenv i)),
      in_get_fw_info = (\<lambda>i w. case in_get_fw_info xenv i (ow_ext w) of (r, fw, x) \<Rightarrow> (r, fw, w\<lparr>ow_ext := x\<rparr>)),
      in_get_seg_fw = (\<lambda>i seg w. case in_get_seg_fw xenv i seg (ow_ext w) of (r, g, x) \<Rightarrow> (r, g, w\<lparr>ow_ext := x\<rparr>)),
      in_seg_upgrade_completed = (\<lambda>i. case in_seg_upgrade_completed xenv i of NULL \<Rightarrow> NULL | Ref f \<Rightarrow> Ref (\<lambda>k. on_ext (f k))),
      in_process = (\<lambda>i. case in_process xenv i of NULL \<Rightarrow> NULL | Ref f \<Rightarrow> Ref (on_ext f)),
      out_init = (\<lambda>_. on_out sm_boot_host_sync_init),
      out_free = (\<lambda>_ w. w\<lparr>ow_out := sm_boot_host_sync_free (ow_out w)\<rparr>),
      out_reg_event = (\<lambda>_ ev f. on_out (\<lambda>p. sm_boot_host_sync_reg_event_callback p ev (Ref f))),
      out_request_upgrade = (\<lambda>_ id' w. case sm_boot_host_sync_request_upgrade set_addr (Ref (ow_out w)) id' (ow_host w) of
         (_, p, h) \<Rightarrow> w\<lparr>ow_out := deref p, ow_host := h\<rparr>),
      out_set_fw_info = (\<lambda>_ _. on_out sm_boot_host_sync_set_fw_info),
      out_set_seg_fw = (\<lambda>_ _ w. case sm_boot_host_sync_set_seg_fw (sl_tick xenv) (Ref (ow_out w)) (ow_ext w) of
         (r, p, x) \<Rightarrow> (r, w\<lparr>ow_out := deref p, ow_ext := x\<rparr>)),
      out_process = (\<lambda>_. Ref (out_run req xenv delay self))\<rparr>"

end
