(* ===== verification/Boot_Transfer.thy ===== *)
theory Boot_Transfer
  imports Boot_Output
begin

section \<open>A complete transfer of a firmware\<close>

text \<open>
  What a boot slave, its output over the host protocol and a device achieve together. The parts meet
  at three contracts, each a locale: a device that takes the upgrade commands (\<open>upgrade_device\<close>), a
  link that exchanges a command for its answer (\<open>command_link\<close>) and a boot input that delivers an image
  (\<open>upgrade_source\<close>). Under them, calls of the slave at a sensible pace finish the upgrade, and the device
  has then stored the image. The image is a list of segments, each an address and its bytes.
\<close>

subsection \<open>The contracts\<close>

type_synonym fw_image = "(u32 \<times> bytes) list"

text \<open>
  A device is a state \<open>'f\<close>; \<open>reply\<close> is its answer to an upgrade command, with the state after it.
  \<open>upgrading\<close> says that it takes segments, \<open>stored\<close> lists the segments it has written, and \<open>receiving\<close>
  is the announced segment (address, size, CRC) with the bytes that have come. \<open>intact\<close> says of
  stored segments whether an announced size, address and CRC fit them; \<open>finished\<close> that the device has accepted
  the firmware.
\<close>

locale upgrade_device =
  fixes reply :: "bytes \<Rightarrow> 'f \<Rightarrow> (bytes \<times> 'f) option"
    and upgrading :: "'f \<Rightarrow> bool"
    and stored :: "'f \<Rightarrow> fw_image"
    and receiving :: "'f \<Rightarrow> u32 \<Rightarrow> nat \<Rightarrow> u16 \<Rightarrow> bytes \<Rightarrow> bool"
    and intact :: "fw_image \<Rightarrow> u32 \<Rightarrow> u32 \<Rightarrow> u16 \<Rightarrow> bool"
    and finished :: "'f \<Rightarrow> bool"
  assumes request: "upgrading f \<Longrightarrow> \<exists>r f'. reply [SM_SUB_CMD_REQUEST] f = Some ([r, SM_SUB_CMD_REQUEST], f')
      \<and> upgrading f' \<and> stored f' = stored f"
    and announce: "upgrading f \<Longrightarrow> n \<le> SM_SEGMENT_FW_SIZE \<Longrightarrow>
      \<exists>f'. reply (segment_info_packet is_last addr (of_nat n) crc) f = Some ([0, SM_SUB_CMD_SEND_SEGMENT_INFO], f')
      \<and> upgrading f' \<and> stored f' = stored f \<and> receiving f' addr n crc []"
    and piece: "upgrading f \<Longrightarrow> receiving f addr n (crc16 d) ds \<Longrightarrow> d = ds @ p @ rest \<Longrightarrow> length d = n \<Longrightarrow>
      n \<le> SM_SEGMENT_FW_SIZE \<Longrightarrow> p \<noteq> [] \<Longrightarrow> length p \<le> 128 \<Longrightarrow>
      \<exists>f'. reply (SM_SUB_CMD_SEND_SEGMENT_DATA # p) f = Some ([0, SM_SUB_CMD_SEND_SEGMENT_DATA], f')
      \<and> upgrading f' \<and> receiving f' addr n (crc16 d) (ds @ p)
      \<and> stored f' = stored f @ (if rest = [] then [(addr, d)] else [])"
    and fw_info: "upgrading f \<Longrightarrow> length v = SM_FW_VERSION_LENGTH \<Longrightarrow>
      \<exists>r f'. reply (SM_SUB_CMD_FW_INFO # v @ be32_bytes size' @ be32_bytes addr @ be16_bytes crc) f
        = Some ([r, SM_SUB_CMD_FW_INFO], f')
      \<and> stored f' = stored f \<and> (0 \<le> sint r \<longleftrightarrow> intact (stored f) size' addr crc) \<and> (0 \<le> sint r \<longleftrightarrow> finished f')"

text \<open>The state \<open>'x\<close> around the slave and its output: the device \<open>far\<close>, the clock \<open>now\<close> in
  milliseconds, and whether the boot input is \<open>loaded\<close>. Some milliseconds pass.\<close>

definition passes :: "('x \<Rightarrow> int) \<Rightarrow> ('x \<Rightarrow> bool) \<Rightarrow> int \<Rightarrow> 'x \<Rightarrow> 'x \<Rightarrow> bool" where
  "passes now loaded d x x' \<longleftrightarrow> now x \<le> now x' \<and> now x' \<le> now x + d \<and> (loaded x \<longrightarrow> loaded x')"

text \<open>
  A link: with a \<open>ready\<close> host object, which bears the address of the device, and long before the clock
  leaves 32 bits, an exchange takes at most a second, returns 1 and has called the handler with the
  answer of the device.
\<close>

locale command_link =
  fixes req :: "('h, ('cb, 'x) link_state) exchange"
    and set_addr :: "u8 \<Rightarrow> 'h \<Rightarrow> 'h"
    and addr :: u8
    and idle ready :: "'h \<Rightarrow> bool"
    and reply :: "bytes \<Rightarrow> 'f \<Rightarrow> (bytes \<times> 'f) option"
    and far :: "'x \<Rightarrow> 'f"
    and now :: "'x \<Rightarrow> int"
    and loaded :: "'x \<Rightarrow> bool"
  assumes addressed: "idle h \<Longrightarrow> ready (set_addr addr h)"
    and exchange: "ready h \<Longrightarrow> 0 \<le> now (lk_ext l) \<Longrightarrow> now (lk_ext l) + 1000 < 2 ^ 32 \<Longrightarrow> length d \<le> 129 \<Longrightarrow>
      reply d (far (lk_ext l)) = Some ([r, sub], f) \<Longrightarrow>
      \<exists>h' x. req SM_CMD_UPGRADE_FW d cb arg h (Some l)
          = Some (1, h', snd (cb SM_CMD_UPGRADE_FW [r, sub] arg (Some (l\<lparr>lk_ext := x\<rparr>))))
        \<and> ready h' \<and> far x = f \<and> passes now loaded 1000 (lk_ext l) x"

text \<open>A segment object that holds segment \<open>k\<close> of the image.\<close>

definition holds_segment :: "fw_image \<Rightarrow> nat \<Rightarrow> sm_segment \<Rightarrow> bool" where
  "holds_segment img k seg \<longleftrightarrow> k < length img \<and> sg_index seg = int k
     \<and> (sg_is_last seg \<noteq> 0 \<longleftrightarrow> Suc k = length img) \<and> word_of_int (sg_addr seg) = fst (img ! k)
     \<and> sg_size seg = int (length (snd (img ! k))) \<and> sg_length seg = int (length (snd (img ! k)))
     \<and> length (sg_data seg) = SM_SEGMENT_FW_SIZE
     \<and> take (length (snd (img ! k))) (sg_data seg) = snd (img ! k)
     \<and> sg_crc seg = crc16 (snd (img ! k))"

text \<open>A boot input \<open>i\<close> that delivers the image \<open>img\<close> with the signature \<open>sign\<close>, in an environment whose
  procedures leave the device alone and take little time.\<close>

locale upgrade_source =
  fixes xenv :: "('cb, 'x) slave_env"
    and delay :: "int \<Rightarrow> 'x \<Rightarrow> 'x"
    and i :: nat
    and far :: "'x \<Rightarrow> 'f"
    and now :: "'x \<Rightarrow> int"
    and loaded :: "'x \<Rightarrow> bool"
    and img :: fw_image
    and sign :: fw_info
  assumes segments: "img \<noteq> []" "(a, d) \<in> set img \<Longrightarrow> d \<noteq> [] \<and> length d \<le> SM_SEGMENT_FW_SIZE"
    and version: "length (fi_version sign) = SM_FW_VERSION_LENGTH"
    and tick: "sl_tick xenv x = (t, x') \<Longrightarrow> t = now x' \<and> far x' = far x \<and> passes now loaded 1 x x'"
    and delay: "0 \<le> ms \<Longrightarrow> far (delay ms x) = far x \<and> passes now loaded ms x (delay ms x)"
    and polls: "in_process xenv i = Ref f \<Longrightarrow> far (f x) = far x \<and> passes now loaded 100 x (f x)"
    and completes: "in_seg_upgrade_completed xenv i = Ref g \<Longrightarrow> far (g n x) = far x \<and> passes now loaded 100 x (g n x)"
    and get_seg: "loaded x \<Longrightarrow> sg_index seg = int k \<Longrightarrow> k < length img \<Longrightarrow> length (sg_data seg) = SM_SEGMENT_FW_SIZE \<Longrightarrow>
      in_get_seg_fw xenv i seg x = (r, seg', x') \<Longrightarrow>
      0 < r \<and> holds_segment img k seg' \<and> far x' = far x \<and> passes now loaded 100 x x'"
    and get_info: "loaded x \<Longrightarrow> in_get_fw_info xenv i x = (r, fw, x') \<Longrightarrow> 0 \<le> r \<and> far x' = far x \<and> passes now loaded 100 x x'
      \<and> fi_version fw = fi_version sign \<and> fi_size fw = fi_size sign \<and> fi_addr fw = fi_addr sign \<and> fi_crc fw = fi_crc sign"

locale upgrade_system =
  upgrade_device reply upgrading stored receiving intact finished
  + command_link req set_addr "word_of_int (slave_id + 1)" idle ready reply far now loaded
  + upgrade_source xenv delay i far now loaded img sign
  for reply :: "bytes \<Rightarrow> 'f \<Rightarrow> (bytes \<times> 'f) option" and upgrading stored receiving intact finished
    and req :: "('h, ('cb, 'x) link_state) exchange" and set_addr and slave_id :: int and idle ready
    and far :: "'x \<Rightarrow> 'f" and now loaded and xenv :: "('cb, 'x) slave_env" and delay i img sign +
  fixes self :: nat
  assumes self: "self \<noteq> 0" and id: "0 \<le> slave_id"
    and genuine: "intact img (fi_size sign) (fi_addr sign) (fi_crc sign)"


subsection \<open>One call of the output\<close>

text \<open>An output whose events reach the slave, and a timer that has run out at a time.\<close>

definition output_ok :: "host_output \<Rightarrow> bool" where
  "output_ok q \<longleftrightarrow> length (ho_events q) = SM_BOOT_SLAVE_EVENT_NUMBER \<and> ho_events q ! 0 = Ref On_ready
     \<and> ho_events q ! 1 = Ref On_fw_info \<and> ho_events q ! 2 = Ref On_seg"

definition link_ok :: "nat \<Rightarrow> sm_segment \<Rightarrow> ('cb, 'x) link \<Rightarrow> bool" where
  "link_ok i seg l \<longleftrightarrow> bs_input (lk_slave l) = Ref i \<and> bs_segment (lk_slave l) = Ref seg \<and> output_ok (lk_out l)"

definition over :: "elapsed_timer \<Rightarrow> int \<Rightarrow> bool" where
  "over t time \<longleftrightarrow> et_duration t \<le> time - et_start_time t"

lemma output_ok_update [simp]:
  "output_ok (q\<lparr>ho_timeout := t\<rparr>) = output_ok q" "output_ok (q\<lparr>ho_state := st\<rparr>) = output_ok q"
  "output_ok (q\<lparr>ho_seg_offset := n\<rparr>) = output_ok q" "output_ok (q\<lparr>ho_last_packet := b\<rparr>) = output_ok q"
  "output_ok (q\<lparr>ho_segment := p\<rparr>) = output_ok q" "output_ok (q\<lparr>ho_retry := n\<rparr>) = output_ok q"
  "output_ok (q\<lparr>ho_src_id := n\<rparr>) = output_ok q" "output_ok (q\<lparr>ho_fw_signature := g\<rparr>) = output_ok q"
  by (simp_all add: output_ok_def)

lemma output_events:
  assumes "output_ok q"
  shows "mem_get (ho_events q) 0 = Some (Ref On_ready)" "mem_get (ho_events q) (Suc 0) = Some (Ref On_fw_info)"
    "mem_get (ho_events q) 2 = Some (Ref On_seg)"
  using assms by (simp_all add: output_ok_def mem_simps)

lemma passes_trans:
  "passes now loaded a x y \<Longrightarrow> passes now loaded b y z \<Longrightarrow> passes now loaded (a + b) x z"
  by (auto simp: passes_def)

lemma passes_mono: "passes now loaded a x y \<Longrightarrow> a \<le> b \<Longrightarrow> passes now loaded b x y"
  by (auto simp: passes_def)

text \<open>Calls of a slave, each after a change of the world, until it asks for a callback.\<close>

fun slave_calls :: "('cb, 'w) slave_env \<Rightarrow> ('w \<Rightarrow> 'w) list \<Rightarrow> 'cb sm_boot_slave \<Rightarrow> 'w
     \<Rightarrow> ('cb sm_boot_slave \<times> 'w \<times> 'cb ptr) option" where
  "slave_calls env [] s w = Some (s, w, NULL)"
| "slave_calls env (d # ds) s w = do {
     (_, p, w, cb) \<leftarrow> sm_boot_slave_process env (Ref s) (d w);
     s \<leftarrow> to_ptr p;
     if is_null cb then slave_calls env ds s w else Some (s, w, cb) }"

text \<open>The number of calls that a transfer takes: one for each announcement and each data command, and
  four around them.\<close>

definition data_commands :: "u32 \<times> bytes \<Rightarrow> nat" where
  "data_commands x = (length (snd x) + 127) div 128"

definition transfer_calls :: "fw_image \<Rightarrow> nat" where
  "transfer_calls img = (\<Sum>x\<leftarrow>img. 1 + data_commands x) + 4"

context upgrade_system
begin

text \<open>Time passes and the device stays as it is.\<close>

definition waits :: "int \<Rightarrow> 'x \<Rightarrow> 'x \<Rightarrow> bool" where
  "waits d x x' \<longleftrightarrow> far x' = far x \<and> passes now loaded d x x'"

lemma waits_trans: "waits a x y \<Longrightarrow> waits b y z \<Longrightarrow> waits (a + b) x z"
  by (auto simp: waits_def intro: passes_trans)

lemma passes_waits: "passes now loaded a x y \<Longrightarrow> waits b y z \<Longrightarrow> passes now loaded (a + b) x z"
  by (auto simp: waits_def intro: passes_trans)

lemma tick_waits: "waits 1 x (snd (sl_tick xenv x))" "fst (sl_tick xenv x) = now (snd (sl_tick xenv x))"
  using tick [of x "fst (sl_tick xenv x)" "snd (sl_tick xenv x)"] by (simp_all add: waits_def)

lemma resetz_waits:
  "\<exists>x. out_resetz xenv d l = l\<lparr>lk_ext := x, lk_out := (lk_out l)\<lparr>ho_timeout := \<lparr>et_duration = d, et_start_time = now x\<rparr>\<rparr>\<rparr>
     \<and> waits 1 (lk_ext l) x" (is ?z)
  "\<exists>x t. out_reset xenv l = l\<lparr>lk_ext := x, lk_out := (lk_out l)\<lparr>ho_timeout := t\<rparr>\<rparr> \<and> waits 1 (lk_ext l) x" (is ?r)
proof -
  obtain t x where tx: "sl_tick xenv (lk_ext l) = (t, x)" by fastforce
  then have x: "t = now x" "waits 1 (lk_ext l) x" using tick [OF tx] by (simp_all add: waits_def)
  have "out_resetz xenv d l = l\<lparr>lk_ext := x, lk_out := (lk_out l)\<lparr>ho_timeout := \<lparr>et_duration = d, et_start_time = now x\<rparr>\<rparr>\<rparr>"
    using tx x(1) by (simp add: out_resetz_def elapsed_timer_resetz_def link_tick_def out_update_def)
  with x(2) show ?z by blast
  have "out_reset xenv l = l\<lparr>lk_ext := x, lk_out := (lk_out l)\<lparr>ho_timeout := (ho_timeout (lk_out l))\<lparr>et_start_time := t\<rparr>\<rparr>\<rparr>"
    using tx by (simp add: out_reset_def elapsed_timer_reset_def link_tick_def out_update_def)
  with x(2) show ?r by blast
qed

lemma remain_over:
  assumes "over (ho_timeout (lk_out l)) (now (lk_ext l))"
  shows "\<exists>x. out_remain xenv l = (0, l\<lparr>lk_ext := x\<rparr>) \<and> waits 1 (lk_ext l) x"
  using assms tick_waits [of "lk_ext l"]
  by (auto simp: out_remain_def elapsed_timer_get_remain_def link_tick_def over_def Let_def prod.case_eq_if
      waits_def passes_def)

text \<open>An exchange that the device answers runs the command handler on the answer.\<close>

lemma send_answered:
  assumes "ready h" "reply d (far (lk_ext l)) = Some ([r, sub], f)" "length d \<le> 129"
    and "0 \<le> now (lk_ext l)" "now (lk_ext l) + 1000 < 2 ^ 32"
  obtains h' x where "ready h'" "far x = f" "passes now loaded 1000 (lk_ext l) x"
    "out_send req xenv delay self d h l
      = Option.bind (answer_handle xenv delay [r, sub] (l\<lparr>lk_ext := x\<rparr>)) (\<lambda>l. Some (1, h', l))"
proof -
  obtain h' x where "req SM_CMD_UPGRADE_FW d (output_cmd_callback xenv delay) self h (Some l)
      = Some (1, h', snd (output_cmd_callback xenv delay SM_CMD_UPGRADE_FW [r, sub] self (Some (l\<lparr>lk_ext := x\<rparr>))))"
      "ready h'" "far x = f" "passes now loaded 1000 (lk_ext l) x"
    using exchange [OF assms(1,4,5,3,2)] by blast
  then show ?thesis
    using that self by (simp add: out_send_def output_cmd_callback_def)
qed

lemma segment_fits:
  assumes "holds_segment img k seg"
  shows "snd (img ! k) \<noteq> []" "length (snd (img ! k)) \<le> SM_SEGMENT_FW_SIZE" "k < length img"
    "build_segment_info_packet seg
      = segment_info_packet (sg_is_last seg \<noteq> 0) (fst (img ! k)) (of_nat (length (snd (img ! k)))) (crc16 (snd (img ! k)))"
proof -
  show k: "k < length img" using assms by (simp add: holds_segment_def)
  then have "(fst (img ! k), snd (img ! k)) \<in> set img" by simp
  from segments(2) [OF this] show "snd (img ! k) \<noteq> []" "length (snd (img ! k)) \<le> SM_SEGMENT_FW_SIZE" by auto
  show "build_segment_info_packet seg
      = segment_info_packet (sg_is_last seg \<noteq> 0) (fst (img ! k)) (of_nat (length (snd (img ! k)))) (crc16 (snd (img ! k)))"
    using assms by (simp add: build_segment_info_packet_def holds_segment_def)
qed

lemma info_sent:
  assumes l: "link_ok i seg l" "ho_state (lk_out l) = UPGRADE_SEG_INFO" "ho_segment (lk_out l) = Ref ()"
      "over (ho_timeout (lk_out l)) (now (lk_ext l))"
    and h: "ready h" and seg: "holds_segment img k seg" and f: "upgrading (far (lk_ext l))"
    and time: "0 \<le> now (lk_ext l)" "now (lk_ext l) + 1001 < 2 ^ 32"
  obtains h' x t where "out_send_info req xenv delay self h l
      = Some (0, h', l\<lparr>lk_ext := x, lk_out := (lk_out l)\<lparr>ho_state := UPGRADE_SEG_DATA, ho_timeout := t\<rparr>\<rparr>)"
    "ready h'" "upgrading (far x)" "stored (far x) = stored (far (lk_ext l))"
    "receiving (far x) (fst (img ! k)) (length (snd (img ! k))) (crc16 (snd (img ! k))) []"
    "passes now loaded 1002 (lk_ext l) x"
proof -
  obtain x1 where rm: "out_remain xenv l = (0, l\<lparr>lk_ext := x1\<rparr>)" and x1: "waits 1 (lk_ext l) x1"
    using remain_over [OF l(4)] by blast
  obtain f' where f': "reply (build_segment_info_packet seg) (far x1) = Some ([0, SM_SUB_CMD_SEND_SEGMENT_INFO], f')"
      "upgrading f'" "stored f' = stored (far (lk_ext l))"
      "receiving f' (fst (img ! k)) (length (snd (img ! k))) (crc16 (snd (img ! k))) []"
    using announce [OF f segment_fits(2) [OF seg]] x1 by (metis segment_fits(4) [OF seg] waits_def)
  have t1: "0 \<le> now x1" "now x1 + 1000 < 2 ^ 32" using x1 time by (auto simp: waits_def passes_def)
  obtain h' x2 where s: "ready h'" "far x2 = f'" "passes now loaded 1000 x1 x2"
      "out_send req xenv delay self (build_segment_info_packet seg) h (l\<lparr>lk_ext := x1\<rparr>)
        = Option.bind (answer_handle xenv delay [0, SM_SUB_CMD_SEND_SEGMENT_INFO] (l\<lparr>lk_ext := x2\<rparr>)) (\<lambda>l. Some (1, h', l))"
    using send_answered [OF h, of "build_segment_info_packet seg" "l\<lparr>lk_ext := x1\<rparr>"] f'(1) t1
    by (auto simp: build_segment_info_packet_def segment_info_packet_def)
  let ?l = "l\<lparr>lk_ext := x2, lk_out := (lk_out l)\<lparr>ho_state := UPGRADE_SEG_DATA\<rparr>\<rparr>"
  have ans: "answer_handle xenv delay [0, SM_SUB_CMD_SEND_SEGMENT_INFO] (l\<lparr>lk_ext := x2\<rparr>) = Some ?l"
    using l(2) by (simp add: answer_handle_def)
  obtain x t where r: "out_reset xenv ?l = ?l\<lparr>lk_ext := x, lk_out := (lk_out ?l)\<lparr>ho_timeout := t\<rparr>\<rparr>" "waits 1 x2 x"
    using resetz_waits(2) [of ?l] by auto
  have "out_segment (l\<lparr>lk_ext := x1\<rparr>) = Some seg" using l by (simp add: out_segment_def link_ok_def)
  then have "out_send_info req xenv delay self h l
      = Some (0, h', l\<lparr>lk_ext := x, lk_out := (lk_out l)\<lparr>ho_state := UPGRADE_SEG_DATA, ho_timeout := t\<rparr>\<rparr>)"
    by (simp add: out_send_info_def rm s(4) ans r(1))
  moreover have "passes now loaded 1002 (lk_ext l) x"
    using x1 s(3) r(2) by (auto simp: waits_def passes_def)
  ultimately show ?thesis using that s(1,2) f' r(2) by (simp add: waits_def)
qed

text \<open>Piece \<open>j\<close> of segment \<open>k\<close>, of 128 bytes except for the last one.\<close>

definition piece_of :: "nat \<Rightarrow> nat \<Rightarrow> bytes" where
  "piece_of k j = take 128 (drop (128 * j) (snd (img ! k)))"

definition pieces_before :: "nat \<Rightarrow> nat \<Rightarrow> bytes" where
  "pieces_before k j = take (128 * j) (snd (img ! k))"

definition sending :: "nat \<Rightarrow> nat \<Rightarrow> sm_segment \<Rightarrow> ('cb, 'x) link \<Rightarrow> bool" where
  "sending k j seg l \<longleftrightarrow> link_ok i seg l \<and> holds_segment img k seg \<and> 128 * j < length (snd (img ! k))
     \<and> ho_state (lk_out l) = UPGRADE_SEG_DATA \<and> ho_segment (lk_out l) = Ref ()
     \<and> ho_seg_offset (lk_out l) = int (128 * j) \<and> \<not> ho_last_packet (lk_out l)
     \<and> upgrading (far (lk_ext l))
     \<and> receiving (far (lk_ext l)) (fst (img ! k)) (length (snd (img ! k))) (crc16 (snd (img ! k))) (pieces_before k j)"

lemma pieces: "pieces_before k j @ piece_of k j = pieces_before k (Suc j)"
  by (simp add: piece_of_def pieces_before_def add.commute flip: take_add)

lemma piece_packet:
  assumes "holds_segment img k seg" "128 * j < length (snd (img ! k))"
  shows "build_segment_data_packet seg (min 128 (int (length (snd (img ! k))) - int (128 * j))) (int (128 * j))
     = Some (SM_SUB_CMD_SEND_SEGMENT_DATA # piece_of k j)"
proof -
  let ?n = "length (snd (img ! k))"
  have n: "?n \<le> SM_SEGMENT_FW_SIZE" by (rule segment_fits(2) [OF assms(1)])
  have d: "snd (img ! k) = take ?n (sg_data seg)" "length (sg_data seg) = SM_SEGMENT_FW_SIZE"
    using assms(1) by (simp_all add: holds_segment_def)
  have len: "nat (min 128 (int ?n - 128 * int j)) = min 128 (?n - 128 * j)" "nat (128 * int j) = 128 * j"
    using assms(2) by linarith+
  have "piece_of k j = take 128 (drop (128 * j) (take ?n (sg_data seg)))"
    by (simp only: piece_of_def d(1) [symmetric])
  also have "\<dots> = take (min 128 (?n - 128 * j)) (drop (128 * j) (sg_data seg))" by (simp add: drop_take)
  finally show ?thesis
    using n d(2) assms(2) by (simp add: build_segment_data_packet_def mem_read_Some len)
qed

text \<open>The device takes a piece; with the last one it has stored the segment.\<close>

lemma piece_answered:
  assumes l: "sending k j seg l" and h: "ready h" and time: "0 \<le> now (lk_ext l)" "now (lk_ext l) + 1000 < 2 ^ 32"
    and l': "lk_ext l' = lk_ext l"
  obtains h' x where "ready h'" "passes now loaded 1000 (lk_ext l) x" "upgrading (far x)"
    "receiving (far x) (fst (img ! k)) (length (snd (img ! k))) (crc16 (snd (img ! k))) (pieces_before k (Suc j))"
    "stored (far x) = stored (far (lk_ext l))
       @ (if length (snd (img ! k)) \<le> 128 * Suc j then [img ! k] else [])"
    "out_send req xenv delay self (SM_SUB_CMD_SEND_SEGMENT_DATA # piece_of k j) h l'
      = Option.bind (answer_handle xenv delay [0, SM_SUB_CMD_SEND_SEGMENT_DATA] (l'\<lparr>lk_ext := x\<rparr>)) (\<lambda>l. Some (1, h', l))"
proof -
  let ?d = "snd (img ! k)"
  have seg: "holds_segment img k seg" and j: "128 * j < length ?d" using l by (simp_all add: sending_def)
  have split: "?d = pieces_before k j @ piece_of k j @ drop (128 * Suc j) ?d"
    using pieces [of k j] by (simp add: pieces_before_def flip: append_assoc)
  have p: "piece_of k j \<noteq> []" "length (piece_of k j) \<le> 128" using j by (simp_all add: piece_of_def)
  obtain f' where f': "reply (SM_SUB_CMD_SEND_SEGMENT_DATA # piece_of k j) (far (lk_ext l))
        = Some ([0, SM_SUB_CMD_SEND_SEGMENT_DATA], f')" "upgrading f'"
      "receiving f' (fst (img ! k)) (length ?d) (crc16 ?d) (pieces_before k (Suc j))"
      "stored f' = stored (far (lk_ext l)) @ (if drop (128 * Suc j) ?d = [] then [(fst (img ! k), ?d)] else [])"
    using piece [OF _ _ split refl segment_fits(2) [OF seg] p, of "far (lk_ext l)" "fst (img ! k)"] l
    unfolding pieces sending_def by blast
  obtain h' x where "ready h'" "far x = f'" "passes now loaded 1000 (lk_ext l) x"
      "out_send req xenv delay self (SM_SUB_CMD_SEND_SEGMENT_DATA # piece_of k j) h l'
      = Option.bind (answer_handle xenv delay [0, SM_SUB_CMD_SEND_SEGMENT_DATA] (l'\<lparr>lk_ext := x\<rparr>)) (\<lambda>l. Some (1, h', l))"
    using send_answered [OF h, of "SM_SUB_CMD_SEND_SEGMENT_DATA # piece_of k j" l'] f'(1) p(2) time l' by auto
  then show ?thesis using that f' by simp
qed

lemma piece_sent:
  assumes l: "sending k j seg l" "128 * Suc j < length (snd (img ! k))" and h: "ready h"
    and time: "0 \<le> now (lk_ext l)" "now (lk_ext l) + 1000 < 2 ^ 32"
  obtains h' x q where "out_send_data req xenv delay self h l = Some (0, h', l\<lparr>lk_out := q, lk_ext := x\<rparr>)"
    "ready h'" "passes now loaded 1001 (lk_ext l) x" "sending k (Suc j) seg (l\<lparr>lk_out := q, lk_ext := x\<rparr>)"
    "ho_src_id q = ho_src_id (lk_out l)" "stored (far x) = stored (far (lk_ext l))"
proof -
  have seg: "holds_segment img k seg" "out_segment l = Some seg" "128 * j < length (snd (img ! k))"
    using l(1) by (simp_all add: sending_def out_segment_def link_ok_def)
  obtain h' x where s: "ready h'" "passes now loaded 1000 (lk_ext l) x" "upgrading (far x)"
    "receiving (far x) (fst (img ! k)) (length (snd (img ! k))) (crc16 (snd (img ! k))) (pieces_before k (Suc j))"
    "stored (far x) = stored (far (lk_ext l)) @ (if length (snd (img ! k)) \<le> 128 * Suc j then [img ! k] else [])"
    "out_send req xenv delay self (SM_SUB_CMD_SEND_SEGMENT_DATA # piece_of k j) h l
      = Option.bind (answer_handle xenv delay [0, SM_SUB_CMD_SEND_SEGMENT_DATA] (l\<lparr>lk_ext := x\<rparr>)) (\<lambda>l. Some (1, h', l))"
    using piece_answered [OF l(1) h time refl] .
  have n: "sg_length seg = int (length (snd (img ! k)))" using seg(1) by (simp add: holds_segment_def)
  have ans: "answer_handle xenv delay [0, SM_SUB_CMD_SEND_SEGMENT_DATA] (l\<lparr>lk_ext := x\<rparr>) = Some (l\<lparr>lk_ext := x\<rparr>)"
    using l(1) by (simp add: answer_handle_def sending_def)
  let ?l = "l\<lparr>lk_ext := x, lk_out := (lk_out l)\<lparr>ho_seg_offset := ho_seg_offset (lk_out l) + 128\<rparr>\<rparr>"
  obtain y where y: "out_resetz xenv STATE_SEND_SEG_DATA_TIMEOUT ?l
      = ?l\<lparr>lk_ext := y, lk_out := (lk_out ?l)\<lparr>ho_timeout := \<lparr>et_duration = 2000, et_start_time = now y\<rparr>\<rparr>\<rparr>" "waits 1 x y"
    using resetz_waits(1) [of STATE_SEND_SEG_DATA_TIMEOUT ?l] by auto
  let ?q = "(lk_out l)\<lparr>ho_seg_offset := ho_seg_offset (lk_out l) + 128,
      ho_timeout := \<lparr>et_duration = 2000, et_start_time = now y\<rparr>\<rparr>"
  have off: "ho_seg_offset (lk_out l) = 128 * int j" "\<not> sg_length seg \<le> ho_seg_offset (lk_out l) + 128"
    using l n by (simp_all add: sending_def)
  have "out_send_data req xenv delay self h l = Some (0, h', l\<lparr>lk_out := ?q, lk_ext := y\<rparr>)"
    using piece_packet [OF seg(1,3)] n l(2) y(1)
    by (simp add: out_send_data_def seg(2) off Let_def s(6) ans notify_timeout_def out_update_def)
  moreover have "sending k (Suc j) seg (l\<lparr>lk_out := ?q, lk_ext := y\<rparr>)"
    using l s(3,4) y(2) off(1) by (simp add: sending_def link_ok_def waits_def)
  ultimately show ?thesis
    using that s(1,5) l(2) passes_waits [OF s(2) y(2)] y(2) by (simp add: waits_def)
qed

text \<open>What the confirmation of segment \<open>k\<close> makes of the slave.\<close>

definition confirmed :: "nat \<Rightarrow> sm_segment \<Rightarrow> elapsed_timer \<Rightarrow> 'cb sm_boot_slave \<Rightarrow> 'cb sm_boot_slave" where
  "confirmed k seg t s = s\<lparr>bs_segment := Ref (seg\<lparr>sg_index := int (Suc k)\<rparr>), bs_waiting_seg := 0, bs_repeat := 0,
     bs_state := (if Suc k = length img then SLAVE_SEND_FW_INFO else bs_state s), bs_timeout := t\<rparr>"

lemma confirm_seg_image:
  assumes "bs_segment s = Ref seg" "bs_input s = Ref i" "holds_segment img k seg"
  obtains t x' where "confirm_seg xenv 1 s x = Some (confirmed k seg t s, x')" "waits 101 x x'"
    "Suc k = length img \<Longrightarrow> t = elapsed_timer_pass (bs_timeout s)"
proof -
  have seg: "sg_index seg = int k" "sg_is_last seg \<noteq> 0 \<longleftrightarrow> Suc k = length img"
    using assms(3) by (simp_all add: holds_segment_def)
  define y where "y = (case in_seg_upgrade_completed xenv i of NULL \<Rightarrow> x | Ref f \<Rightarrow> f (sg_index seg) x)"
  have y: "waits 100 x y"
    using completes by (auto simp: y_def waits_def passes_def split: ptr.split)
  obtain t0 z where tz: "elapsed_timer_reset (sl_tick xenv) (bs_timeout s) y = (t0, z)" by fastforce
  have z: "waits 1 y z" using tz tick_waits(1) [of y] by (auto simp: elapsed_timer_reset_def split: prod.splits)
  show ?thesis
  proof (cases "Suc k = length img")
    case True
    then have "confirm_seg xenv 1 s x = Some (confirmed k seg (elapsed_timer_pass (bs_timeout s)) s, y)"
      using assms(1,2) seg by (simp add: confirm_seg_def confirmed_def Let_def y_def add.commute)
    moreover have "waits 101 x y" using y by (auto simp: waits_def passes_def)
    ultimately show ?thesis using that by blast
  next
    case False
    then have "confirm_seg xenv 1 s x = Some (confirmed k seg t0 s, z)"
      using assms(1,2) seg tz by (simp add: confirm_seg_def confirmed_def Let_def y_def add.commute)
    moreover have "waits 101 x z" using waits_trans [OF y z] by simp
    ultimately show ?thesis using that False by blast
  qed
qed

lemma last_piece_sent:
  assumes l: "sending k j seg l" "length (snd (img ! k)) \<le> 128 * Suc j" and h: "ready h"
    and time: "0 \<le> now (lk_ext l)" "now (lk_ext l) + 1000 < 2 ^ 32"
  obtains h' x q t where
    "out_send_data req xenv delay self h l = Some (0, h', l\<lparr>lk_slave := confirmed k seg t (lk_slave l), lk_out := q, lk_ext := x\<rparr>)"
    "ready h'" "passes now loaded 1102 (lk_ext l) x" "upgrading (far x)" "stored (far x) = stored (far (lk_ext l)) @ [img ! k]"
    "output_ok q" "ho_src_id q = ho_src_id (lk_out l)" "Suc k = length img \<Longrightarrow> t = elapsed_timer_pass (bs_timeout (lk_slave l))"
proof -
  have seg: "holds_segment img k seg" "out_segment l = Some seg" "128 * j < length (snd (img ! k))"
    "bs_segment (lk_slave l) = Ref seg" "bs_input (lk_slave l) = Ref i"
    using l(1) by (simp_all add: sending_def out_segment_def link_ok_def)
  let ?l0 = "l\<lparr>lk_out := (lk_out l)\<lparr>ho_last_packet := True\<rparr>\<rparr>"
  have l0: "lk_ext ?l0 = lk_ext l \<longleftrightarrow> True" by simp
  obtain h' x where s: "ready h'" "passes now loaded 1000 (lk_ext l) x" "upgrading (far x)"
    "receiving (far x) (fst (img ! k)) (length (snd (img ! k))) (crc16 (snd (img ! k))) (pieces_before k (Suc j))"
    "stored (far x) = stored (far (lk_ext l)) @ (if length (snd (img ! k)) \<le> 128 * Suc j then [img ! k] else [])"
    "out_send req xenv delay self (SM_SUB_CMD_SEND_SEGMENT_DATA # piece_of k j) h ?l0
      = Option.bind (answer_handle xenv delay [0, SM_SUB_CMD_SEND_SEGMENT_DATA] (?l0\<lparr>lk_ext := x\<rparr>)) (\<lambda>l. Some (1, h', l))"
    using piece_answered [OF l(1) h time, of ?l0] unfolding l0 by blast
  obtain t x' where c: "confirm_seg xenv 1 (lk_slave l) x = Some (confirmed k seg t (lk_slave l), x')" "waits 101 x x'"
    "Suc k = length img \<Longrightarrow> t = elapsed_timer_pass (bs_timeout (lk_slave l))"
    using confirm_seg_image [OF seg(4,5,1), of x] by blast
  have n: "sg_length seg = int (length (snd (img ! k)))" using seg(1) by (simp add: holds_segment_def)
  let ?l1 = "?l0\<lparr>lk_slave := confirmed k seg t (lk_slave l), lk_ext := x'\<rparr>"
  have ans: "answer_handle xenv delay [0, SM_SUB_CMD_SEND_SEGMENT_DATA] (?l0\<lparr>lk_ext := x\<rparr>) = Some ?l1"
    using l(1) c(1) output_events(3) [of "lk_out l"]
    by (simp add: answer_handle_def sending_def link_ok_def host_notify_def slave_event_def)
  let ?l2 = "?l1\<lparr>lk_out := (lk_out ?l1)\<lparr>ho_seg_offset := ho_seg_offset (lk_out l) + 128\<rparr>\<rparr>"
  obtain y where y: "out_resetz xenv STATE_SEND_SEG_DATA_TIMEOUT ?l2
      = ?l2\<lparr>lk_ext := y, lk_out := (lk_out ?l2)\<lparr>ho_timeout := \<lparr>et_duration = 2000, et_start_time = now y\<rparr>\<rparr>\<rparr>" "waits 1 x' y"
    using resetz_waits(1) [of STATE_SEND_SEG_DATA_TIMEOUT ?l2] by auto
  let ?q = "(lk_out l)\<lparr>ho_last_packet := True, ho_seg_offset := ho_seg_offset (lk_out l) + 128,
      ho_timeout := \<lparr>et_duration = 2000, et_start_time = now y\<rparr>\<rparr>"
  have off: "ho_seg_offset (lk_out l) = 128 * int j" "sg_length seg \<le> ho_seg_offset (lk_out l) + 128"
    "ho_seg_offset (lk_out l) < sg_length seg"
    using l n by (simp_all add: sending_def)
  have len: "min 128 (int (length (snd (img ! k))) - 128 * int j) = sg_length seg - 128 * int j"
    using off n by linarith
  have "out_send_data req xenv delay self h l
      = Some (0, h', l\<lparr>lk_slave := confirmed k seg t (lk_slave l), lk_out := ?q, lk_ext := y\<rparr>)"
    using piece_packet [OF seg(1,3)] off n y(1)
    by (simp add: out_send_data_def seg(2) Let_def len s(6) ans notify_timeout_def out_update_def)
  moreover have "passes now loaded 1102 (lk_ext l) y"
    using passes_waits [OF s(2) waits_trans [OF c(2) y(2)]] by simp
  ultimately show ?thesis
    using that [of h' y ?q t] s(1,3,5) l c(2,3) y(2) by (simp add: waits_def sending_def link_ok_def)
qed


lemma request_sent:
  assumes l: "link_ok i seg l" "ho_state (lk_out l) = UPGRADE_REQUEST" "over (ho_timeout (lk_out l)) (now (lk_ext l))"
    and h: "ready h" and f: "upgrading (far (lk_ext l))"
    and time: "0 \<le> now (lk_ext l)" "now (lk_ext l) + 1001 < 2 ^ 32"
  obtains h' x t u where "out_send_request req xenv delay self h l
      = Some (0, h', l\<lparr>lk_slave := (lk_slave l)\<lparr>bs_repeat := 0, bs_state := SLAVE_SEND_SEG, bs_timeout := u\<rparr>,
          lk_out := (lk_out l)\<lparr>ho_timeout := t\<rparr>, lk_ext := x\<rparr>)"
    "ready h'" "upgrading (far x)" "stored (far x) = stored (far (lk_ext l))" "passes now loaded 1503 (lk_ext l) x"
proof -
  obtain x1 where rm: "out_remain xenv l = (0, l\<lparr>lk_ext := x1\<rparr>)" and x1: "waits 1 (lk_ext l) x1"
    using remain_over [OF l(3)] by blast
  obtain r f' where f': "reply [SM_SUB_CMD_REQUEST] (far x1) = Some ([r, SM_SUB_CMD_REQUEST], f')"
      "upgrading f'" "stored f' = stored (far (lk_ext l))"
    using request [OF f] x1 by (auto simp: waits_def)
  have t1: "0 \<le> now x1" "now x1 + 1000 < 2 ^ 32" using x1 time by (auto simp: waits_def passes_def)
  obtain h' x2 where s: "ready h'" "far x2 = f'" "passes now loaded 1000 x1 x2"
      "out_send req xenv delay self [SM_SUB_CMD_REQUEST] h (l\<lparr>lk_ext := x1\<rparr>)
        = Option.bind (answer_handle xenv delay [r, SM_SUB_CMD_REQUEST] (l\<lparr>lk_ext := x2\<rparr>)) (\<lambda>l. Some (1, h', l))"
    using send_answered [OF h, of "[SM_SUB_CMD_REQUEST]" "l\<lparr>lk_ext := x1\<rparr>"] f'(1) t1 by auto
  have d: "waits 500 x2 (delay 500 x2)" using local.delay [of 500 x2] by (simp add: waits_def)
  obtain u x3 where u: "elapsed_timer_resetz (sl_tick xenv) (bs_timeout (lk_slave l))
      SM_BOOT_SLAVE_WAITING_FULL_SEGMENT_TIMEOUT (delay 500 x2) = (u, x3)" by fastforce
  have x3: "waits 1 (delay 500 x2) x3"
    using u tick_waits(1) [of "delay 500 x2"] by (auto simp: elapsed_timer_resetz_def split: prod.splits)
  let ?s = "(lk_slave l)\<lparr>bs_repeat := 0, bs_state := SLAVE_SEND_SEG, bs_timeout := u\<rparr>"
  let ?l = "l\<lparr>lk_slave := ?s, lk_ext := x3\<rparr>"
  have ans: "answer_handle xenv delay [r, SM_SUB_CMD_REQUEST] (l\<lparr>lk_ext := x2\<rparr>) = Some ?l"
    using l(1,2) u output_events(1) [of "lk_out l"]
    by (simp add: answer_handle_def host_notify_def link_ok_def slave_event_def confirm_ready_def)
  obtain y where y: "out_resetz xenv STATE_REQUEST_UPGRADE_TIMEOUT ?l
      = ?l\<lparr>lk_ext := y, lk_out := (lk_out ?l)\<lparr>ho_timeout := \<lparr>et_duration = 200, et_start_time = now y\<rparr>\<rparr>\<rparr>" "waits 1 x3 y"
    using resetz_waits(1) [of STATE_REQUEST_UPGRADE_TIMEOUT ?l] by auto
  have "out_send_request req xenv delay self h l = Some (0, h', l\<lparr>lk_slave := ?s,
      lk_out := (lk_out l)\<lparr>ho_timeout := \<lparr>et_duration = 200, et_start_time = now y\<rparr>\<rparr>, lk_ext := y\<rparr>)"
    by (simp add: out_send_request_def rm s(4) ans y(1))
  moreover have "passes now loaded 1503 (lk_ext l) y"
    using x1 s(3) d x3 y(2) by (auto simp: waits_def passes_def)
  moreover have "far y = f'" using s(2) d x3 y(2) by (simp add: waits_def)
  ultimately show ?thesis
    by (intro that [of h' y _ u]) (use s(1) f'(2,3) in simp_all)
qed

lemma fw_info_sent:
  assumes l: "link_ok i seg l" "ho_state (lk_out l) = UPGRADE_FW_INFO" "ho_fw_signature (lk_out l) = Ref ()"
    and fw: "fi_version (bs_new_fw_signature (lk_slave l)) = fi_version sign"
      "fi_size (bs_new_fw_signature (lk_slave l)) = fi_size sign"
      "fi_addr (bs_new_fw_signature (lk_slave l)) = fi_addr sign"
      "fi_crc (bs_new_fw_signature (lk_slave l)) = fi_crc sign"
    and h: "ready h" and f: "upgrading (far (lk_ext l))" "stored (far (lk_ext l)) = img"
    and time: "0 \<le> now (lk_ext l)" "now (lk_ext l) + 1001 < 2 ^ 32"
  obtains h' x q where "out_send_fw_info req xenv delay self h l
      = Some (0, h', l\<lparr>lk_slave := (lk_slave l)\<lparr>bs_state := SLAVE_FINISH_DOWNLOAD\<rparr>, lk_out := q, lk_ext := x\<rparr>)"
    "stored (far x) = img" "finished (far x)" "passes now loaded 1001 (lk_ext l) x"
proof -
  let ?p = "SM_SUB_CMD_FW_INFO # fi_version sign @ be32_bytes (fi_size sign) @ be32_bytes (fi_addr sign) @ be16_bytes (fi_crc sign)"
  have p: "build_fw_info_packet (bs_new_fw_signature (lk_slave l)) = Some ?p"
    using fw version by (simp add: build_fw_info_packet_def mem_read_Some)
  obtain r f' where f': "reply ?p (far (lk_ext l)) = Some ([r, SM_SUB_CMD_FW_INFO], f')" "stored f' = img" "0 \<le> sint r" "finished f'"
    using fw_info [OF f(1) version, of "fi_size sign" "fi_addr sign" "fi_crc sign"] f(2) genuine by auto
  obtain h' x2 where s: "ready h'" "far x2 = f'" "passes now loaded 1000 (lk_ext l) x2"
      "out_send req xenv delay self ?p h l
        = Option.bind (answer_handle xenv delay [r, SM_SUB_CMD_FW_INFO] (l\<lparr>lk_ext := x2\<rparr>)) (\<lambda>l. Some (1, h', l))"
    using send_answered [OF h f'(1)] version time by auto
  let ?l = "l\<lparr>lk_slave := (lk_slave l)\<lparr>bs_state := SLAVE_FINISH_DOWNLOAD\<rparr>, lk_ext := x2\<rparr>"
  have ans: "answer_handle xenv delay [r, SM_SUB_CMD_FW_INFO] (l\<lparr>lk_ext := x2\<rparr>) = Some ?l"
    using l(1,2) f'(3) output_events(2) [of "lk_out l"]
    by (simp add: answer_handle_def host_notify_def link_ok_def slave_event_def confirm_fw_info_def)
  obtain y where y: "out_resetz xenv STATE_SEND_FW_INFO_TIMEOUT ?l
      = ?l\<lparr>lk_ext := y, lk_out := (lk_out ?l)\<lparr>ho_timeout := \<lparr>et_duration = 200, et_start_time = now y\<rparr>\<rparr>\<rparr>" "waits 1 x2 y"
    using resetz_waits(1) [of STATE_SEND_FW_INFO_TIMEOUT ?l] by auto
  have "out_send_fw_info req xenv delay self h l = Some (0, h', l\<lparr>lk_slave := (lk_slave l)\<lparr>bs_state := SLAVE_FINISH_DOWNLOAD\<rparr>,
      lk_out := (lk_out l)\<lparr>ho_timeout := \<lparr>et_duration = 200, et_start_time = now y\<rparr>\<rparr>, lk_ext := y\<rparr>)"
    using l(3) by (simp add: out_send_fw_info_def p s(4) ans notify_timeout_def y(1))
  then show ?thesis
    using that s(2) f'(2,4) y(2) passes_waits [OF s(3) y(2)] by (simp add: waits_def)
qed


subsection \<open>One call of the slave\<close>

text \<open>The environment of the slave, and a slave and an output that work together at the state \<open>w\<close>.\<close>

definition env :: "('cb, ('h, 'x) out_world) slave_env" where
  "env = host_slave_env req xenv delay set_addr self"

definition together :: "sm_segment \<Rightarrow> 'cb sm_boot_slave \<Rightarrow> ('h, 'x) out_world \<Rightarrow> bool" where
  "together seg s w \<longleftrightarrow> bs_input s = Ref i \<and> \<not> is_null (bs_output s) \<and> bs_segment s = Ref seg \<and> bs_id s = slave_id
     \<and> length (sg_data seg) = SM_SEGMENT_FW_SIZE \<and> output_ok (ow_out w) \<and> loaded (ow_ext w) \<and> 0 \<le> now (ow_ext w)
     \<and> upgrading (far (ow_ext w))"

text \<open>An output timer that is over after 200 milliseconds, and a slave that has waited at most \<open>c\<close>.\<close>

definition soon :: "elapsed_timer \<Rightarrow> int \<Rightarrow> bool" where
  "soon t time \<longleftrightarrow> et_duration t \<le> 200 \<and> et_start_time t \<le> time"

definition patient :: "int \<Rightarrow> 'cb sm_boot_slave \<Rightarrow> int \<Rightarrow> bool" where
  "patient c s time \<longleftrightarrow> et_duration (bs_timeout s) = SM_BOOT_SLAVE_WAITING_CONFIRM_SEG_TIMEOUT
     \<and> time \<le> et_start_time (bs_timeout s) + c \<and> et_start_time (bs_timeout s) \<le> time"

definition offered :: "nat \<Rightarrow> 'cb sm_boot_slave \<Rightarrow> ('h, 'x) out_world \<Rightarrow> bool" where
  "offered k s w \<longleftrightarrow> (\<exists>seg. together seg s w \<and> holds_segment img k seg) \<and> bs_state s = SLAVE_SEND_SEG \<and> bs_waiting_seg s \<noteq> 0
     \<and> stored (far (ow_ext w)) = take k img \<and> ready (ow_host w) \<and> patient 1 s (now (ow_ext w))
     \<and> ho_state (ow_out w) = UPGRADE_SEG_INFO \<and> ho_segment (ow_out w) = Ref () \<and> 0 \<le> ho_src_id (ow_out w)
     \<and> ho_seg_offset (ow_out w) = 0 \<and> \<not> ho_last_packet (ow_out w) \<and> soon (ho_timeout (ow_out w)) (now (ow_ext w))"

lemma timer_set [simp]: "t\<lparr>et_duration := d, et_start_time := n\<rparr> = \<lparr>et_duration = d, et_start_time = n\<rparr>"
  by (cases t) simp

lemma host_tick:
  obtains x where "sl_tick env w = (now x, w\<lparr>ow_ext := x\<rparr>)" "waits 1 (ow_ext w) x"
  using tick_waits [of "ow_ext w"] by (auto simp: env_def host_slave_env_def prod.case_eq_if)

lemma host_resetz:
  obtains x where "elapsed_timer_resetz (sl_tick env) t d w = (\<lparr>et_duration = d, et_start_time = now x\<rparr>, w\<lparr>ow_ext := x\<rparr>)"
    "waits 1 (ow_ext w) x"
proof -
  obtain x where "sl_tick env w = (now x, w\<lparr>ow_ext := x\<rparr>)" "waits 1 (ow_ext w) x" by (rule host_tick)
  then show ?thesis using that by (simp add: elapsed_timer_resetz_def)
qed

lemma host_set_seg:
  assumes "0 \<le> ho_src_id (ow_out w)"
  obtains x where "out_set_seg_fw env q seg w = (0, w\<lparr>ow_out := (ow_out w)\<lparr>ho_segment := Ref (), ho_last_packet := False,
       ho_seg_offset := 0, ho_state := UPGRADE_SEG_INFO, ho_retry := 0,
       ho_timeout := \<lparr>et_duration = 200, et_start_time = now x\<rparr>\<rparr>, ow_ext := x\<rparr>)" "waits 1 (ow_ext w) x"
  using tick_waits [of "ow_ext w"] assms that
  by (simp add: env_def host_slave_env_def sm_boot_host_sync_set_seg_fw_def elapsed_timer_resetz_def prod.case_eq_if)

lemma segment_loaded:
  assumes s: "together seg s w" "bs_state s = SLAVE_SEND_SEG" "bs_waiting_seg s = 0" "bs_repeat s = 0"
    and k: "sg_index seg = int k" "k < length img" and f: "stored (far (ow_ext w)) = take k img"
    and q: "ready (ow_host w)" "0 \<le> ho_src_id (ow_out w)"
  obtains s' w' where "slave_switch env s w = Some (0, s', w', NULL)" "offered k s' w'" "bs_events s' = bs_events s"
    "passes now loaded 102 (ow_ext w) (ow_ext w')"
proof -
  obtain o' where o': "bs_output s = Ref o'" using s(1) by (cases "bs_output s") (auto simp: together_def)
  obtain r seg' x1 where g: "in_get_seg_fw xenv i seg (ow_ext w) = (r, seg', x1)" using prod_cases3 by blast
  have g': "0 < r" "holds_segment img k seg'" "waits 100 (ow_ext w) x1"
    using get_seg [OF _ k _ g] s(1) by (auto simp: together_def waits_def)
  let ?w1 = "w\<lparr>ow_ext := x1\<rparr>"
  obtain x2 where t: "elapsed_timer_resetz (sl_tick env) (bs_timeout s) SM_BOOT_SLAVE_WAITING_CONFIRM_SEG_TIMEOUT ?w1
      = (\<lparr>et_duration = 20000, et_start_time = now x2\<rparr>, w\<lparr>ow_ext := x2\<rparr>)" "waits 1 x1 x2"
    using host_resetz [of "bs_timeout s" 20000 ?w1] by auto
  obtain x3 where b: "out_set_seg_fw env o' seg' (w\<lparr>ow_ext := x2\<rparr>)
      = (0, w\<lparr>ow_out := (ow_out w)\<lparr>ho_segment := Ref (), ho_last_packet := False,
       ho_seg_offset := 0, ho_state := UPGRADE_SEG_INFO, ho_retry := 0,
       ho_timeout := \<lparr>et_duration = 200, et_start_time = now x3\<rparr>\<rparr>, ow_ext := x3\<rparr>)" "waits 1 x2 x3"
    using host_set_seg [of "w\<lparr>ow_ext := x2\<rparr>" o' seg'] q(2) by auto
  let ?s = "s\<lparr>bs_segment := Ref seg', bs_waiting_seg := 1, bs_timeout := \<lparr>et_duration = 20000, et_start_time = now x2\<rparr>,
      bs_repeat := 1\<rparr>"
  let ?w = "w\<lparr>ow_out := (ow_out w)\<lparr>ho_segment := Ref (), ho_last_packet := False,
       ho_seg_offset := 0, ho_state := UPGRADE_SEG_INFO, ho_retry := 0,
       ho_timeout := \<lparr>et_duration = 200, et_start_time = now x3\<rparr>\<rparr>, ow_ext := x3\<rparr>"
  have five: "\<not> SM_BOOT_SLAVE_REPEAT_MAX \<le> 1" by (simp add: word_le_nat_alt)
  have "in_get_seg_fw env i seg w = (r, seg', ?w1)" using g by (simp add: env_def host_slave_env_def)
  then have "slave_switch env s w = Some (0, ?s, ?w, NULL)"
    using s g'(1) b(1) t(1) o'
    by (simp add: slave_switch_def slave_send_seg_def offer_segment_def together_def Let_def five)
  moreover have "offered k ?s ?w"
    using s(1,2) g'(2,3) t(2) b(2) f q
    by (auto simp: offered_def together_def waits_def passes_def patient_def soon_def holds_segment_def)
  moreover have "passes now loaded 102 (ow_ext w) (ow_ext ?w)"
    using g'(3) t(2) b(2) by (simp add: waits_def passes_def)
  ultimately show ?thesis using that by simp
qed


lemma polled:
  assumes "together seg s w"
  obtains x where "slave_poll env s w = out_run req xenv delay self s (w\<lparr>ow_ext := x\<rparr>)" "waits 100 (ow_ext w) x"
proof (cases "in_process xenv i")
  case NULL
  obtain o' where "bs_output s = Ref o'" using assms by (cases "bs_output s") (auto simp: together_def)
  then have "slave_poll env s w = out_run req xenv delay self s (w\<lparr>ow_ext := ow_ext w\<rparr>)"
    using assms NULL by (simp add: slave_poll_def together_def env_def host_slave_env_def)
  then show ?thesis using that [of "ow_ext w"] by (simp add: waits_def passes_def)
next
  case (Ref f)
  obtain o' where "bs_output s = Ref o'" using assms by (cases "bs_output s") (auto simp: together_def)
  then have "slave_poll env s w = out_run req xenv delay self s (w\<lparr>ow_ext := f (ow_ext w)\<rparr>)"
    using assms Ref by (simp add: slave_poll_def together_def env_def host_slave_env_def on_ext_def)
  then show ?thesis using that polls [OF Ref] by (simp add: waits_def)
qed

text \<open>The link on which the output of \<open>w\<close> runs.\<close>

definition link_of :: "'cb sm_boot_slave \<Rightarrow> ('h, 'x) out_world \<Rightarrow> ('cb, 'x) link" where
  "link_of s w = \<lparr>lk_slave = s, lk_out = ow_out w, lk_ext = ow_ext w\<rparr>"

lemma link_of_sel [simp]:
  "lk_slave (link_of s w) = s" "lk_out (link_of s w) = ow_out w" "lk_ext (link_of s w) = ow_ext w"
  by (simp_all add: link_of_def)

lemma out_run_send:
  "ho_state (ow_out w) = UPGRADE_REQUEST \<Longrightarrow> out_send_request req xenv delay self (ow_host w) (link_of s w) = Some (r, h, l) \<Longrightarrow>
    out_run req xenv delay self s w = Some (lk_slave l, \<lparr>ow_out = lk_out l, ow_host = h, ow_ext = lk_ext l\<rparr>)"
  "ho_state (ow_out w) = UPGRADE_SEG_INFO \<Longrightarrow> out_send_info req xenv delay self (ow_host w) (link_of s w) = Some (r, h, l) \<Longrightarrow>
    out_run req xenv delay self s w = Some (lk_slave l, \<lparr>ow_out = lk_out l, ow_host = h, ow_ext = lk_ext l\<rparr>)"
  "ho_state (ow_out w) = UPGRADE_SEG_DATA \<Longrightarrow> out_send_data req xenv delay self (ow_host w) (link_of s w) = Some (r, h, l) \<Longrightarrow>
    out_run req xenv delay self s w = Some (lk_slave l, \<lparr>ow_out = lk_out l, ow_host = h, ow_ext = lk_ext l\<rparr>)"
  "ho_state (ow_out w) = UPGRADE_FW_INFO \<Longrightarrow> out_send_fw_info req xenv delay self (ow_host w) (link_of s w) = Some (r, h, l) \<Longrightarrow>
    out_run req xenv delay self s w = Some (lk_slave l, \<lparr>ow_out = lk_out l, ow_host = h, ow_ext = lk_ext l\<rparr>)"
  using self by (simp_all add: out_run_def sm_boot_host_sync_process_def link_of_def)

lemma out_run_idle:
  assumes "ho_state (ow_out w) = UPGRADE_IDLE"
  shows "out_run req xenv delay self s w = Some (s, w)"
  using assms self by (simp add: out_run_def sm_boot_host_sync_process_def)

lemma slave_stays:
  assumes "bs_state s = SLAVE_SEND_SEG" "bs_waiting_seg s \<noteq> 0" "patient c s (now (ow_ext w))" "c + 1 < 20000"
  obtains x where "slave_switch env s w = Some (0, s, w\<lparr>ow_ext := x\<rparr>, NULL)" "waits 1 (ow_ext w) x"
proof -
  obtain x where x: "sl_tick env w = (now x, w\<lparr>ow_ext := x\<rparr>)" "waits 1 (ow_ext w) x" by (rule host_tick)
  then have "slave_switch env s w = Some (0, s, w\<lparr>ow_ext := x\<rparr>, NULL)"
    using assms by (auto simp: slave_switch_def slave_send_seg_def elapsed_timer_get_remain_def patient_def waits_def
        passes_def Let_def)
  then show ?thesis using that x(2) by blast
qed

text \<open>The pause before a call, and what a call then makes of slave and output.\<close>

definition pause :: "('x \<Rightarrow> 'x) \<Rightarrow> bool" where
  "pause d \<longleftrightarrow> (\<forall>x. waits 500 x (d x) \<and> now x + 200 \<le> now (d x))"

definition goes :: "('x \<Rightarrow> 'x) \<Rightarrow> 'cb sm_boot_slave \<Rightarrow> ('h, 'x) out_world
     \<Rightarrow> ('cb sm_boot_slave \<Rightarrow> ('h, 'x) out_world \<Rightarrow> bool) \<Rightarrow> bool" where
  "goes d s w Q \<longleftrightarrow> (\<exists>s' w'. sm_boot_slave_process env (Ref s) (on_ext d w) = Some (0, Ref s', w', NULL) \<and> Q s' w'
     \<and> bs_events s' = bs_events s \<and> now (ow_ext w') \<le> now (ow_ext w) + 2500)"

lemma goesI:
  assumes "slave_poll env s (on_ext d w) = Some (s1, w1)" "slave_switch env s1 w1 = Some (0, s', w', NULL)" "Q s' w'"
    "bs_events s' = bs_events s" "now (ow_ext w') \<le> now (ow_ext w) + 2500"
  shows "goes d s w Q"
  using assms by (auto simp: goes_def sm_boot_slave_process_def)

lemma paused:
  assumes "together seg s w" "pause d"
  shows "together seg s (on_ext d w)" "waits 500 (ow_ext w) (ow_ext (on_ext d w))"
    "now (ow_ext w) + 200 \<le> now (ow_ext (on_ext d w))" "ow_out (on_ext d w) = ow_out w" "ow_host (on_ext d w) = ow_host w"
proof -
  have "waits 500 (ow_ext w) (d (ow_ext w))" "now (ow_ext w) + 200 \<le> now (d (ow_ext w))"
    using assms(2) by (auto simp: pause_def)
  then show "together seg s (on_ext d w)" "waits 500 (ow_ext w) (ow_ext (on_ext d w))"
    "now (ow_ext w) + 200 \<le> now (ow_ext (on_ext d w))" "ow_out (on_ext d w) = ow_out w" "ow_host (on_ext d w) = ow_host w"
    using assms(1) by (auto simp: on_ext_def together_def waits_def passes_def)
qed

definition starting :: "SM_BOOT_SLAVE_STATE \<Rightarrow> 'cb sm_boot_slave \<Rightarrow> ('h, 'x) out_world \<Rightarrow> bool" where
  "starting st s w \<longleftrightarrow> (\<exists>seg. together seg s w \<and> sg_index seg = 0) \<and> bs_state s = st \<and> bs_waiting_seg s = 0 \<and> bs_repeat s = 0
     \<and> stored (far (ow_ext w)) = [] \<and> idle (ow_host w) \<and> ho_state (ow_out w) = UPGRADE_IDLE \<and> ho_src_id (ow_out w) = -1
     \<and> soon (ho_timeout (ow_out w)) (now (ow_ext w)) \<and> over (bs_timeout s) (now (ow_ext w))"

definition asked :: "'cb sm_boot_slave \<Rightarrow> ('h, 'x) out_world \<Rightarrow> bool" where
  "asked s w \<longleftrightarrow> (\<exists>seg. together seg s w \<and> sg_index seg = 0) \<and> bs_waiting_seg s = 0
     \<and> stored (far (ow_ext w)) = [] \<and> ready (ow_host w) \<and> ho_state (ow_out w) = UPGRADE_REQUEST
     \<and> ho_src_id (ow_out w) = slave_id \<and> soon (ho_timeout (ow_out w)) (now (ow_ext w))"

lemma startingD:
  assumes "starting st s w"
  shows "bs_state s = st" "bs_waiting_seg s = 0" "bs_repeat s = 0" "stored (far (ow_ext w)) = []" "idle (ow_host w)"
    "ho_state (ow_out w) = UPGRADE_IDLE" "ho_src_id (ow_out w) = -1" "soon (ho_timeout (ow_out w)) (now (ow_ext w))"
    "over (bs_timeout s) (now (ow_ext w))"
  using assms by (simp_all add: starting_def)

lemma askedD:
  assumes "asked s w"
  shows "bs_waiting_seg s = 0" "stored (far (ow_ext w)) = []" "ready (ow_host w)" "ho_state (ow_out w) = UPGRADE_REQUEST"
    "ho_src_id (ow_out w) = slave_id" "soon (ho_timeout (ow_out w)) (now (ow_ext w))"
  using assms by (simp_all add: asked_def)

lemma togetherD:
  assumes "together seg s w"
  shows "bs_input s = Ref i" "bs_segment s = Ref seg" "bs_id s = slave_id" "length (sg_data seg) = SM_SEGMENT_FW_SIZE"
    "output_ok (ow_out w)" "loaded (ow_ext w)" "0 \<le> now (ow_ext w)" "upgrading (far (ow_ext w))" "\<not> is_null (bs_output s)"
  using assms by (simp_all add: together_def)

lemma call_starts:
  assumes "starting SLAVE_IDLE s w" "pause d"
  shows "goes d s w (starting SLAVE_REQUEST_UPGRADE)"
proof -
  obtain seg where seg: "together seg s w" "sg_index seg = 0" using assms(1) by (auto simp: starting_def)
  note p = paused [OF seg(1) assms(2)]
  obtain x where x: "slave_poll env s (on_ext d w) = out_run req xenv delay self s ((on_ext d w)\<lparr>ow_ext := x\<rparr>)"
      "waits 100 (ow_ext (on_ext d w)) x"
    using polled [OF p(1)] .
  let ?w = "(on_ext d w)\<lparr>ow_ext := x\<rparr>"
  have "slave_poll env s (on_ext d w) = Some (s, ?w)"
    using x(1) out_run_idle [of ?w s] assms(1) p by (simp add: starting_def)
  then show ?thesis
  proof (rule goesI)
    show "slave_switch env s ?w = Some (0, s\<lparr>bs_state := SLAVE_REQUEST_UPGRADE\<rparr>, ?w, NULL)"
      using assms(1) by (simp add: starting_def slave_switch_def)
    show "starting SLAVE_REQUEST_UPGRADE (s\<lparr>bs_state := SLAVE_REQUEST_UPGRADE\<rparr>) ?w"
      using assms(1) seg p x(2) by (auto simp: starting_def together_def waits_def passes_def soon_def over_def)
  qed (use p x(2) in \<open>auto simp: waits_def passes_def\<close>)
qed


lemma call_asks:
  assumes "starting SLAVE_REQUEST_UPGRADE s w" "pause d"
  shows "goes d s w asked"
proof -
  obtain seg where seg: "together seg s w" "sg_index seg = 0" using assms(1) by (auto simp: starting_def)
  note a = startingD [OF assms(1)]
  note p = paused [OF seg(1) assms(2)]
  obtain o' where o': "bs_output s = Ref o'" using seg(1) by (cases "bs_output s") (auto simp: together_def)
  obtain x where x: "slave_poll env s (on_ext d w) = out_run req xenv delay self s ((on_ext d w)\<lparr>ow_ext := x\<rparr>)"
      "waits 100 (ow_ext (on_ext d w)) x"
    using polled [OF p(1)] .
  let ?v = "on_ext d w"
  let ?w = "?v\<lparr>ow_ext := x\<rparr>"
  have poll: "slave_poll env s (on_ext d w) = Some (s, ?w)"
    using x(1) out_run_idle [of ?w s] a(6) p(4) by simp
  obtain y where y: "sl_tick env ?w = (now y, ?v\<lparr>ow_ext := y\<rparr>)" "waits 1 x y" using host_tick [of ?w] by auto
  have over: "elapsed_timer_get_remain (sl_tick env) (bs_timeout s) ?w = (0, ?v\<lparr>ow_ext := y\<rparr>)"
    using a(9) p(3) x(2) y by (auto simp: elapsed_timer_get_remain_def over_def waits_def passes_def Let_def)
  let ?q = "(ow_out w)\<lparr>ho_src_id := slave_id, ho_state := UPGRADE_REQUEST, ho_seg_offset := 0, ho_last_packet := False\<rparr>"
  let ?h = "set_addr (word_of_int (slave_id + 1)) (ow_host w)"
  have rq: "out_request_upgrade env o' slave_id (?v\<lparr>ow_ext := y\<rparr>) = ?v\<lparr>ow_ext := y, ow_out := ?q, ow_host := ?h\<rparr>"
    using a(7) p(4,5) by (simp add: env_def host_slave_env_def sm_boot_host_sync_request_upgrade_def)
  let ?w2 = "?v\<lparr>ow_ext := y, ow_out := ?q, ow_host := ?h\<rparr>"
  obtain z where z0: "elapsed_timer_resetz (sl_tick env) (bs_timeout s) SM_BOOT_SLAVE_REQUEST_UPGRADE_PERIOD ?w2
      = (\<lparr>et_duration = 2500, et_start_time = now z\<rparr>, ?w2\<lparr>ow_ext := z\<rparr>)" "waits 1 (ow_ext ?w2) z"
    by (rule host_resetz)
  then have z: "elapsed_timer_resetz (sl_tick env) (bs_timeout s) SM_BOOT_SLAVE_REQUEST_UPGRADE_PERIOD ?w2
      = (\<lparr>et_duration = 2500, et_start_time = now z\<rparr>, ?v\<lparr>ow_ext := z, ow_out := ?q, ow_host := ?h\<rparr>)" "waits 1 y z"
    by simp_all
  have five: "\<not> SM_BOOT_SLAVE_REPEAT_MAX \<le> 1" by (simp add: word_le_nat_alt)
  let ?s = "s\<lparr>bs_repeat := 1, bs_timeout := \<lparr>et_duration = 2500, et_start_time = now z\<rparr>\<rparr>"
  have sw: "slave_switch env s ?w = Some (0, ?s, ?v\<lparr>ow_ext := z, ow_out := ?q, ow_host := ?h\<rparr>, NULL)"
  proof -
    have "slave_switch env s ?w = slave_request_upgrade env s ?w" using a(1) by (simp add: slave_switch_def)
    also have "\<dots> = Some (0, ?s, ?v\<lparr>ow_ext := z, ow_out := ?q, ow_host := ?h\<rparr>, NULL)"
      unfolding slave_request_upgrade_def over prod.case
      by (simp add: o' Let_def a(3) five togetherD(3) [OF seg(1)] rq z(1) [simplified])
    finally show ?thesis .
  qed
  from poll sw show ?thesis
  proof (rule goesI)
    show "asked ?s (?v\<lparr>ow_ext := z, ow_out := ?q, ow_host := ?h\<rparr>)"
      using a seg p(2) x(2) y(2) z(2) addressed [OF a(5)]
      by (auto simp: asked_def together_def waits_def passes_def soon_def)
  qed (use p x(2) y(2) z(2) in \<open>auto simp: waits_def passes_def\<close>)
qed

lemma call_confirms_ready:
  assumes "asked s w" "pause d" "now (ow_ext w) + 2500 < 2 ^ 32"
  shows "goes d s w (offered 0)"
proof -
  obtain seg where seg: "together seg s w" "sg_index seg = 0" using assms(1) by (auto simp: asked_def)
  note a = askedD [OF assms(1)]
  note p = paused [OF seg(1) assms(2)]
  obtain x where x: "slave_poll env s (on_ext d w) = out_run req xenv delay self s ((on_ext d w)\<lparr>ow_ext := x\<rparr>)"
      "waits 100 (ow_ext (on_ext d w)) x"
    using polled [OF p(1)] .
  let ?w = "(on_ext d w)\<lparr>ow_ext := x\<rparr>"
  have time: "0 \<le> now x" "now x + 1001 < 2 ^ 32" "over (ho_timeout (ow_out w)) (now x)"
    using a(6) togetherD(7) [OF seg(1)] assms(3) p(2,3) x(2) by (auto simp: waits_def passes_def soon_def over_def)
  have up: "upgrading (far x)" "stored (far x) = []"
    using a(2) togetherD(8) [OF seg(1)] p(2) x(2) by (simp_all add: waits_def)
  have l: "link_ok i seg (link_of s ?w)" using seg(1) p by (simp add: link_ok_def together_def)
  let ?l = "link_of s ?w"
  have c: "ho_state (lk_out ?l) = UPGRADE_REQUEST" "over (ho_timeout (lk_out ?l)) (now (lk_ext ?l))" "ready (ow_host ?w)"
    "upgrading (far (lk_ext ?l))" "0 \<le> now (lk_ext ?l)" "now (lk_ext ?l) + 1001 < 2 ^ 32"
    using a(3,4) p(4,5) time up by simp_all
  obtain h' x1 t u where r: "out_send_request req xenv delay self (ow_host ?w) ?l
      = Some (0, h', ?l\<lparr>lk_slave := (lk_slave ?l)\<lparr>bs_repeat := 0, bs_state := SLAVE_SEND_SEG, bs_timeout := u\<rparr>,
          lk_out := (lk_out ?l)\<lparr>ho_timeout := t\<rparr>, lk_ext := x1\<rparr>)"
    "ready h'" "upgrading (far x1)" "stored (far x1) = stored (far (lk_ext ?l))" "passes now loaded 1503 (lk_ext ?l) x1"
    using request_sent [OF l c] .
  let ?s1 = "s\<lparr>bs_repeat := 0, bs_state := SLAVE_SEND_SEG, bs_timeout := u\<rparr>"
  let ?w1 = "\<lparr>ow_out = (ow_out w)\<lparr>ho_timeout := t\<rparr>, ow_host = h', ow_ext = x1\<rparr>"
  have poll: "slave_poll env s (on_ext d w) = Some (?s1, ?w1)"
    using a(4) p(4) out_run_send(1) [OF _ r(1)] by (simp add: x(1))
  have tog: "together seg ?s1 ?w1"
    using togetherD [OF seg(1)] p(2) x(2) r(3,5) time(1) by (auto simp: together_def waits_def passes_def)
  obtain s' w' where sw: "slave_switch env ?s1 ?w1 = Some (0, s', w', NULL)" "offered 0 s' w'" "bs_events s' = bs_events ?s1"
    "passes now loaded 102 x1 (ow_ext w')"
    using segment_loaded [OF tog, of 0] a(1,5) seg(2) segments(1) r(2,4) up(2) id by auto
  from poll sw(1,2) show ?thesis
    by (rule goesI) (use sw(3,4) r(5) x(2) p in \<open>auto simp: waits_def passes_def\<close>)
qed


definition sent :: "nat \<Rightarrow> nat \<Rightarrow> 'cb sm_boot_slave \<Rightarrow> ('h, 'x) out_world \<Rightarrow> bool" where
  "sent k j s w \<longleftrightarrow> (\<exists>seg. together seg s w \<and> sending k j seg (link_of s w)) \<and> bs_state s = SLAVE_SEND_SEG
     \<and> bs_waiting_seg s \<noteq> 0 \<and> stored (far (ow_ext w)) = take k img \<and> ready (ow_host w)
     \<and> patient (2000 * int j + 2001) s (now (ow_ext w)) \<and> 0 \<le> ho_src_id (ow_out w)"

definition informing :: "'cb sm_boot_slave \<Rightarrow> ('h, 'x) out_world \<Rightarrow> bool" where
  "informing s w \<longleftrightarrow> (\<exists>seg. together seg s w) \<and> stored (far (ow_ext w)) = img \<and> ready (ow_host w)
     \<and> ho_state (ow_out w) = UPGRADE_FW_INFO \<and> ho_fw_signature (ow_out w) = Ref ()
     \<and> fi_version (bs_new_fw_signature s) = fi_version sign \<and> fi_size (bs_new_fw_signature s) = fi_size sign
     \<and> fi_addr (bs_new_fw_signature s) = fi_addr sign \<and> fi_crc (bs_new_fw_signature s) = fi_crc sign"

lemma patient_later:
  assumes "patient c s time" "time \<le> later" "later \<le> time + d"
  shows "patient (c + d) s later"
  using assms by (auto simp: patient_def)

lemma call_announces:
  assumes "offered k s w" "pause d" "now (ow_ext w) + 2500 < 2 ^ 32"
  shows "goes d s w (sent k 0)"
proof -
  obtain seg where seg: "together seg s w" "holds_segment img k seg" using assms(1) by (auto simp: offered_def)
  have a: "bs_state s = SLAVE_SEND_SEG" "bs_waiting_seg s \<noteq> 0" "stored (far (ow_ext w)) = take k img" "ready (ow_host w)"
    "patient 1 s (now (ow_ext w))" "ho_state (ow_out w) = UPGRADE_SEG_INFO" "ho_segment (ow_out w) = Ref ()"
    "0 \<le> ho_src_id (ow_out w)" "ho_seg_offset (ow_out w) = 0" "\<not> ho_last_packet (ow_out w)"
    "soon (ho_timeout (ow_out w)) (now (ow_ext w))"
    using assms(1) by (simp_all add: offered_def)
  note p = paused [OF seg(1) assms(2)] and g = togetherD [OF seg(1)]
  obtain x where x: "slave_poll env s (on_ext d w) = out_run req xenv delay self s ((on_ext d w)\<lparr>ow_ext := x\<rparr>)"
      "waits 100 (ow_ext (on_ext d w)) x"
    using polled [OF p(1)] .
  let ?w = "(on_ext d w)\<lparr>ow_ext := x\<rparr>" and ?l = "link_of s ((on_ext d w)\<lparr>ow_ext := x\<rparr>)"
  have time: "0 \<le> now x" "now x + 1001 < 2 ^ 32" "over (ho_timeout (ow_out w)) (now x)"
    using a(11) g(7) assms(3) p(2,3) x(2) by (auto simp: waits_def passes_def soon_def over_def)
  have up: "upgrading (far x)" "stored (far x) = take k img"
    using a(3) g(8) p(2) x(2) by (simp_all add: waits_def)
  have c: "link_ok i seg ?l" "ho_state (lk_out ?l) = UPGRADE_SEG_INFO" "ho_segment (lk_out ?l) = Ref ()"
    "over (ho_timeout (lk_out ?l)) (now (lk_ext ?l))" "ready (ow_host ?w)" "holds_segment img k seg"
    "upgrading (far (lk_ext ?l))" "0 \<le> now (lk_ext ?l)" "now (lk_ext ?l) + 1001 < 2 ^ 32"
    using a g seg(2) p(4,5) time up by (simp_all add: link_ok_def)
  obtain h' x1 t where r: "out_send_info req xenv delay self (ow_host ?w) ?l
      = Some (0, h', ?l\<lparr>lk_ext := x1, lk_out := (lk_out ?l)\<lparr>ho_state := UPGRADE_SEG_DATA, ho_timeout := t\<rparr>\<rparr>)"
    "ready h'" "upgrading (far x1)" "stored (far x1) = stored (far (lk_ext ?l))"
    "receiving (far x1) (fst (img ! k)) (length (snd (img ! k))) (crc16 (snd (img ! k))) []"
    "passes now loaded 1002 (lk_ext ?l) x1"
    using info_sent [OF c] .
  let ?w1 = "\<lparr>ow_out = (ow_out w)\<lparr>ho_state := UPGRADE_SEG_DATA, ho_timeout := t\<rparr>, ow_host = h', ow_ext = x1\<rparr>"
  have poll: "slave_poll env s (on_ext d w) = Some (s, ?w1)"
    using a(6) p(4) out_run_send(2) [OF _ r(1)] by (simp add: x(1))
  have later: "now (ow_ext w) \<le> now x1" "now x1 \<le> now (ow_ext w) + 1602" "loaded x1"
    using p(2,3) x(2) r(6) g(6) by (auto simp: waits_def passes_def)
  have pt: "patient 1603 s (now x1)" using patient_later [OF a(5) later(1), of 1602] later(2) by simp
  then obtain y where y: "slave_switch env s ?w1 = Some (0, s, ?w1\<lparr>ow_ext := y\<rparr>, NULL)" "waits 1 x1 y"
    using slave_stays [OF a(1,2), of 1603 ?w1] by auto
  from poll y(1) show ?thesis
  proof (rule goesI)
    have "patient (2000 * int 0 + 2001) s (now y)"
      using pt y(2) by (auto simp: patient_def waits_def passes_def)
    moreover have "sending k 0 seg (link_of s (?w1\<lparr>ow_ext := y\<rparr>))"
      using seg(2) segment_fits(1) [OF seg(2)] g a(7,9,10) r(3,5) y(2)
      by (simp add: sending_def link_ok_def pieces_before_def waits_def)
    moreover have "together seg s (?w1\<lparr>ow_ext := y\<rparr>)"
      using g later y(2) r(3) by (auto simp: together_def waits_def passes_def)
    ultimately show "sent k 0 s (?w1\<lparr>ow_ext := y\<rparr>)"
      using a(1,2,8) r(2,4) up(2) y(2) by (auto simp: sent_def waits_def)
  qed (use later y(2) in \<open>auto simp: waits_def passes_def\<close>)
qed

lemma sentD:
  assumes "sent k j s w"
  obtains seg where "together seg s w" "sending k j seg (link_of s w)" "bs_state s = SLAVE_SEND_SEG"
    "bs_waiting_seg s \<noteq> 0" "stored (far (ow_ext w)) = take k img" "ready (ow_host w)"
    "patient (2000 * int j + 2001) s (now (ow_ext w))" "0 \<le> ho_src_id (ow_out w)"
  using assms by (auto simp: sent_def)

lemma sending_waits:
  assumes "sending k j seg (link_of s w)" "waits c (ow_ext w) x" "ow_out w' = ow_out w" "ow_ext w' = x"
  shows "sending k j seg (link_of s w')"
  using assms by (simp add: sending_def link_ok_def waits_def)

lemma sending_few:
  assumes "sending k j seg l"
  shows "128 * j < 1024"
proof -
  have "128 * j < length (snd (img ! k))" "length (snd (img ! k)) \<le> 1024"
    using assms segment_fits(2) [of k seg] by (simp_all add: sending_def)
  then show ?thesis by simp
qed

lemma call_sends_piece:
  assumes "sent k j s w" "128 * Suc j < length (snd (img ! k))" "pause d" "now (ow_ext w) + 2500 < 2 ^ 32"
  shows "goes d s w (sent k (Suc j))"
proof -
  obtain seg where seg: "together seg s w" "sending k j seg (link_of s w)" and a: "bs_state s = SLAVE_SEND_SEG"
    "bs_waiting_seg s \<noteq> 0" "stored (far (ow_ext w)) = take k img" "ready (ow_host w)"
    "patient (2000 * int j + 2001) s (now (ow_ext w))" "0 \<le> ho_src_id (ow_out w)"
    using sentD [OF assms(1)] .
  note p = paused [OF seg(1) assms(3)] and g = togetherD [OF seg(1)]
  obtain x where x: "slave_poll env s (on_ext d w) = out_run req xenv delay self s ((on_ext d w)\<lparr>ow_ext := x\<rparr>)"
      "waits 100 (ow_ext (on_ext d w)) x"
    using polled [OF p(1)] .
  let ?w = "(on_ext d w)\<lparr>ow_ext := x\<rparr>" and ?l = "link_of s ((on_ext d w)\<lparr>ow_ext := x\<rparr>)"
  have w: "waits 600 (ow_ext w) x" using waits_trans [OF p(2) x(2)] by simp
  have c: "sending k j seg ?l" using sending_waits [OF seg(2) w] p(4) by simp
  have h: "ready (ow_host ?w)" using a(4) p(5) by simp
  have time: "0 \<le> now (lk_ext ?l)" "now (lk_ext ?l) + 1000 < 2 ^ 32"
    using g(7) assms(4) w by (auto simp: waits_def passes_def)
  obtain h' x1 q where r: "out_send_data req xenv delay self (ow_host ?w) ?l = Some (0, h', ?l\<lparr>lk_out := q, lk_ext := x1\<rparr>)"
    "ready h'" "passes now loaded 1001 (lk_ext ?l) x1" "sending k (Suc j) seg (?l\<lparr>lk_out := q, lk_ext := x1\<rparr>)"
    "ho_src_id q = ho_src_id (lk_out ?l)" "stored (far x1) = stored (far (lk_ext ?l))"
    using piece_sent [OF c assms(2) h time] .
  let ?w1 = "\<lparr>ow_out = q, ow_host = h', ow_ext = x1\<rparr>"
  have st: "ho_state (ow_out w) = UPGRADE_SEG_DATA" using seg(2) by (simp add: sending_def)
  have poll: "slave_poll env s (on_ext d w) = Some (s, ?w1)"
    using st p(4) out_run_send(3) [OF _ r(1)] by (simp add: x(1))
  have later: "now (ow_ext w) \<le> now x1" "now x1 \<le> now (ow_ext w) + 1601" "loaded x1"
    using w r(3) g(6) by (auto simp: waits_def passes_def)
  have pt: "patient (2000 * int j + 2001 + 1601) s (now x1)" using patient_later [OF a(5) later(1,2)] .
  have "128 * j < 1024" by (rule sending_few [OF seg(2)])
  then obtain y where y: "slave_switch env s ?w1 = Some (0, s, ?w1\<lparr>ow_ext := y\<rparr>, NULL)" "waits 1 x1 y"
    using slave_stays [OF a(1,2), of "2000 * int j + 2001 + 1601" ?w1] pt by auto
  from poll y(1) show ?thesis
  proof (rule goesI)
    have "patient (2000 * int (Suc j) + 2001) s (now y)"
      using pt y(2) by (auto simp: patient_def waits_def passes_def)
    moreover have s1: "sending k (Suc j) seg (link_of s ?w1)" using r(4) by (simp add: link_of_def)
    then have "sending k (Suc j) seg (link_of s (?w1\<lparr>ow_ext := y\<rparr>))" by (rule sending_waits) (use y(2) in simp_all)
    moreover have "together seg s (?w1\<lparr>ow_ext := y\<rparr>)"
      using g later y(2) s1 by (auto simp: together_def waits_def passes_def sending_def link_ok_def)
    ultimately show "sent k (Suc j) s (?w1\<lparr>ow_ext := y\<rparr>)"
      using a r(2,5,6) y(2) w p(4) by (auto simp: sent_def waits_def)
  qed (use later y(2) in \<open>auto simp: waits_def passes_def\<close>)
qed


text \<open>The last piece of a segment: the next segment is offered, or the signature after the last one.\<close>

lemma segment_confirmed:
  assumes "sent k j s w" "length (snd (img ! k)) \<le> 128 * Suc j" "pause d" "now (ow_ext w) + 2500 < 2 ^ 32"
  obtains seg s1 w1 where "slave_poll env s (on_ext d w) = Some (s1, w1)" "together (seg\<lparr>sg_index := int (Suc k)\<rparr>) s1 w1"
    "bs_waiting_seg s1 = 0" "bs_repeat s1 = 0"
    "bs_state s1 = (if Suc k = length img then SLAVE_SEND_FW_INFO else SLAVE_SEND_SEG)"
    "Suc k = length img \<Longrightarrow> over (bs_timeout s1) (now (ow_ext w1))" "ready (ow_host w1)" "0 \<le> ho_src_id (ow_out w1)"
    "stored (far (ow_ext w1)) = take (Suc k) img" "bs_events s1 = bs_events s"
    "now (ow_ext w) \<le> now (ow_ext w1)" "now (ow_ext w1) \<le> now (ow_ext w) + 1702" "k < length img"
proof -
  obtain seg where seg: "together seg s w" "sending k j seg (link_of s w)" and a: "bs_state s = SLAVE_SEND_SEG"
    "bs_waiting_seg s \<noteq> 0" "stored (far (ow_ext w)) = take k img" "ready (ow_host w)"
    "patient (2000 * int j + 2001) s (now (ow_ext w))" "0 \<le> ho_src_id (ow_out w)"
    using sentD [OF assms(1)] .
  note p = paused [OF seg(1) assms(3)] and g = togetherD [OF seg(1)]
  obtain x where x: "slave_poll env s (on_ext d w) = out_run req xenv delay self s ((on_ext d w)\<lparr>ow_ext := x\<rparr>)"
      "waits 100 (ow_ext (on_ext d w)) x"
    using polled [OF p(1)] .
  let ?w = "(on_ext d w)\<lparr>ow_ext := x\<rparr>" and ?l = "link_of s ((on_ext d w)\<lparr>ow_ext := x\<rparr>)"
  have w: "waits 600 (ow_ext w) x" using waits_trans [OF p(2) x(2)] by simp
  have c: "sending k j seg ?l" using sending_waits [OF seg(2) w] p(4) by simp
  have h: "ready (ow_host ?w)" using a(4) p(5) by simp
  have time: "0 \<le> now (lk_ext ?l)" "now (lk_ext ?l) + 1000 < 2 ^ 32"
    using g(7) assms(4) w by (auto simp: waits_def passes_def)
  obtain h' x1 q t where r: "out_send_data req xenv delay self (ow_host ?w) ?l
      = Some (0, h', ?l\<lparr>lk_slave := confirmed k seg t (lk_slave ?l), lk_out := q, lk_ext := x1\<rparr>)"
    "ready h'" "passes now loaded 1102 (lk_ext ?l) x1" "upgrading (far x1)"
    "stored (far x1) = stored (far (lk_ext ?l)) @ [img ! k]"
    "output_ok q" "ho_src_id q = ho_src_id (lk_out ?l)"
    "Suc k = length img \<Longrightarrow> t = elapsed_timer_pass (bs_timeout (lk_slave ?l))"
    using last_piece_sent [OF c assms(2) h time] by blast
  let ?s1 = "confirmed k seg t s" and ?w1 = "\<lparr>ow_out = q, ow_host = h', ow_ext = x1\<rparr>"
  have st: "ho_state (ow_out w) = UPGRADE_SEG_DATA" "holds_segment img k seg" using seg(2) by (simp_all add: sending_def)
  have k: "k < length img" by (rule segment_fits(3) [OF st(2)])
  have poll: "slave_poll env s (on_ext d w) = Some (?s1, ?w1)"
    using st(1) p(4) out_run_send(3) [OF _ r(1)] by (simp add: x(1))
  have later: "now (ow_ext w) \<le> now x1" "now x1 \<le> now (ow_ext w) + 1702" "loaded x1"
    using w r(3) g(6) by (auto simp: waits_def passes_def)
  show ?thesis
  proof (rule that [of ?s1 ?w1 seg])
    show "together (seg\<lparr>sg_index := int (Suc k)\<rparr>) ?s1 ?w1"
      using g r(4,6) later by (auto simp: together_def confirmed_def)
    show "over (bs_timeout ?s1) (now (ow_ext ?w1))" if "Suc k = length img"
      using r(8) [OF that] a(5) later(1) by (simp add: confirmed_def over_def elapsed_timer_pass_def patient_def)
    show "stored (far (ow_ext ?w1)) = take (Suc k) img"
      using r(5) a(3) w k by (simp add: waits_def take_Suc_conv_app_nth)
  qed (use poll r(2,7) a p later k in \<open>simp_all add: confirmed_def\<close>)
qed

lemma call_moves_on:
  assumes "sent k j s w" "length (snd (img ! k)) \<le> 128 * Suc j" "Suc k < length img" "pause d"
    "now (ow_ext w) + 2500 < 2 ^ 32"
  shows "goes d s w (offered (Suc k))"
proof -
  obtain seg s1 w1 where c: "slave_poll env s (on_ext d w) = Some (s1, w1)" "together (seg\<lparr>sg_index := int (Suc k)\<rparr>) s1 w1"
    "bs_waiting_seg s1 = 0" "bs_repeat s1 = 0"
    "bs_state s1 = (if Suc k = length img then SLAVE_SEND_FW_INFO else SLAVE_SEND_SEG)"
    "ready (ow_host w1)" "0 \<le> ho_src_id (ow_out w1)"
    "stored (far (ow_ext w1)) = take (Suc k) img" "bs_events s1 = bs_events s"
    "now (ow_ext w) \<le> now (ow_ext w1)" "now (ow_ext w1) \<le> now (ow_ext w) + 1702"
    using segment_confirmed [OF assms(1,2,4,5)] by blast
  have s1: "bs_state s1 = SLAVE_SEND_SEG" using c(5) assms(3) by simp
  obtain s' w' where sw: "slave_switch env s1 w1 = Some (0, s', w', NULL)" "offered (Suc k) s' w'" "bs_events s' = bs_events s1"
    "passes now loaded 102 (ow_ext w1) (ow_ext w')"
    using segment_loaded [OF c(2) s1 c(3,4) _ assms(3) c(8,6,7)] by auto
  from c(1) sw(1,2) show ?thesis
    by (rule goesI) (use sw(3,4) c(9,10,11) in \<open>auto simp: passes_def\<close>)
qed

lemma call_informs:
  assumes "sent k j s w" "length (snd (img ! k)) \<le> 128 * Suc j" "Suc k = length img" "pause d"
    "now (ow_ext w) + 2500 < 2 ^ 32"
  shows "goes d s w informing"
proof -
  obtain seg s1 w1 where c: "slave_poll env s (on_ext d w) = Some (s1, w1)" "together (seg\<lparr>sg_index := int (Suc k)\<rparr>) s1 w1"
    "bs_waiting_seg s1 = 0" "bs_repeat s1 = 0"
    "bs_state s1 = (if Suc k = length img then SLAVE_SEND_FW_INFO else SLAVE_SEND_SEG)"
    "over (bs_timeout s1) (now (ow_ext w1))" "ready (ow_host w1)" "0 \<le> ho_src_id (ow_out w1)"
    "stored (far (ow_ext w1)) = take (Suc k) img" "bs_events s1 = bs_events s"
    "now (ow_ext w) \<le> now (ow_ext w1)" "now (ow_ext w1) \<le> now (ow_ext w) + 1702"
    using segment_confirmed [OF assms(1,2,4,5)] assms(3) by blast
  note g = togetherD [OF c(2)]
  obtain o' where o': "bs_output s1 = Ref o'" using g(9) by (cases "bs_output s1") auto
  obtain y where y: "sl_tick env w1 = (now y, w1\<lparr>ow_ext := y\<rparr>)" "waits 1 (ow_ext w1) y" by (rule host_tick)
  have rm: "elapsed_timer_get_remain (sl_tick env) (bs_timeout s1) w1 = (0, w1\<lparr>ow_ext := y\<rparr>)"
    using c(6) y by (auto simp: elapsed_timer_get_remain_def over_def waits_def passes_def Let_def)
  obtain z where z: "elapsed_timer_resetz (sl_tick env) (bs_timeout s1) SM_BOOT_SLAVE_WAITING_CONFIRM_FW_INFO_TIMEOUT
        (w1\<lparr>ow_ext := y\<rparr>) = (\<lparr>et_duration = 5000, et_start_time = now z\<rparr>, w1\<lparr>ow_ext := z\<rparr>)" "waits 1 y z"
    using host_resetz [of "bs_timeout s1" 5000 "w1\<lparr>ow_ext := y\<rparr>"] by auto
  obtain r fw v where f: "in_get_fw_info xenv i z = (r, fw, v)" using prod_cases3 by blast
  have lz: "loaded z" using g(6) y(2) z(2) by (auto simp: waits_def passes_def)
  note fw = get_info [OF lz f]
  have five: "\<not> SM_BOOT_SLAVE_REPEAT_MAX \<le> 1" by (simp add: word_le_nat_alt)
  have env_fw: "in_get_fw_info env i (w1\<lparr>ow_ext := z\<rparr>) = (r, fw, w1\<lparr>ow_ext := v\<rparr>)"
    using f by (simp add: env_def host_slave_env_def)
  let ?sig = "fw_info_clone (bs_new_fw_signature s1) fw"
  let ?s = "s1\<lparr>bs_timeout := \<lparr>et_duration = 5000, et_start_time = now z\<rparr>, bs_repeat := 1, bs_new_fw_signature := ?sig\<rparr>"
  let ?w = "w1\<lparr>ow_ext := v, ow_out := (ow_out w1)\<lparr>ho_fw_signature := Ref (), ho_state := UPGRADE_FW_INFO,
      ho_seg_offset := 0, ho_last_packet := False\<rparr>\<rparr>"
  have set: "out_set_fw_info env o' ?sig (w1\<lparr>ow_ext := v\<rparr>) = ?w"
    using c(8) by (simp add: env_def host_slave_env_def on_out_def sm_boot_host_sync_set_fw_info_def)
  have "bs_state s1 = SLAVE_SEND_FW_INFO" using c(5) assms(3) by simp
  then have "slave_switch env s1 w1 = slave_send_fw_info env s1 w1" by (simp add: slave_switch_def)
  also have "\<dots> = Some (0, ?s, ?w, NULL)"
    unfolding slave_send_fw_info_def rm prod.case
    using fw by (simp add: Let_def z(1) [simplified] c(4) five g(1) env_fw o' set)
  finally have sw: "slave_switch env s1 w1 = Some (0, ?s, ?w, NULL)" .
  have far: "far v = far (ow_ext w1)" using y(2) z(2) fw by (simp add: waits_def)
  have later: "now (ow_ext w1) \<le> now v" "now v \<le> now (ow_ext w1) + 102" "loaded v"
    using y(2) z(2) fw lz by (auto simp: waits_def passes_def)
  from c(1) sw show ?thesis
  proof (rule goesI)
    show "informing ?s ?w"
      using g c(7,9) assms(3) far fw later by (auto simp: informing_def together_def fw_info_clone_def)
  qed (use later c(10-12) in auto)
qed


lemma call_finishes:
  assumes "informing s w" "pause d" "now (ow_ext w) + 2500 < 2 ^ 32" "length (bs_events s) = SM_BOOT_SLAVE_EVENT_NUMBER"
  obtains s' w' where "sm_boot_slave_process env (Ref s) (on_ext d w) = Some (0, Ref s', w', bs_events s ! 3)"
    "bs_state s' = SLAVE_FINISH_DOWNLOAD" "stored (far (ow_ext w')) = img" "finished (far (ow_ext w'))"
proof -
  obtain seg where seg: "together seg s w" using assms(1) by (auto simp: informing_def)
  have a: "stored (far (ow_ext w)) = img" "ready (ow_host w)"
     "ho_state (ow_out w) = UPGRADE_FW_INFO" "ho_fw_signature (ow_out w) = Ref ()"
     "fi_version (bs_new_fw_signature s) = fi_version sign" "fi_size (bs_new_fw_signature s) = fi_size sign"
     "fi_addr (bs_new_fw_signature s) = fi_addr sign" "fi_crc (bs_new_fw_signature s) = fi_crc sign"
    using assms(1) by (simp_all add: informing_def)
  note p = paused [OF seg assms(2)] and g = togetherD [OF seg]
  obtain x where x: "slave_poll env s (on_ext d w) = out_run req xenv delay self s ((on_ext d w)\<lparr>ow_ext := x\<rparr>)"
      "waits 100 (ow_ext (on_ext d w)) x"
    using polled [OF p(1)] .
  let ?w = "(on_ext d w)\<lparr>ow_ext := x\<rparr>" and ?l = "link_of s ((on_ext d w)\<lparr>ow_ext := x\<rparr>)"
  have w: "waits 600 (ow_ext w) x" using waits_trans [OF p(2) x(2)] by simp
  have c: "link_ok i seg ?l" "ho_state (lk_out ?l) = UPGRADE_FW_INFO" "ho_fw_signature (lk_out ?l) = Ref ()"
    "fi_version (bs_new_fw_signature (lk_slave ?l)) = fi_version sign"
    "fi_size (bs_new_fw_signature (lk_slave ?l)) = fi_size sign"
    "fi_addr (bs_new_fw_signature (lk_slave ?l)) = fi_addr sign"
    "fi_crc (bs_new_fw_signature (lk_slave ?l)) = fi_crc sign"
    "ready (ow_host ?w)" "upgrading (far (lk_ext ?l))" "stored (far (lk_ext ?l)) = img"
    "0 \<le> now (lk_ext ?l)" "now (lk_ext ?l) + 1001 < 2 ^ 32"
    using a g p(4,5) w assms(3) by (auto simp: link_ok_def waits_def passes_def)
  obtain h' x1 q where r: "out_send_fw_info req xenv delay self (ow_host ?w) ?l
      = Some (0, h', ?l\<lparr>lk_slave := (lk_slave ?l)\<lparr>bs_state := SLAVE_FINISH_DOWNLOAD\<rparr>, lk_out := q, lk_ext := x1\<rparr>)"
    "stored (far x1) = img" "finished (far x1)" "passes now loaded 1001 (lk_ext ?l) x1"
    using fw_info_sent [OF c] .
  let ?s1 = "s\<lparr>bs_state := SLAVE_FINISH_DOWNLOAD\<rparr>" and ?w1 = "\<lparr>ow_out = q, ow_host = h', ow_ext = x1\<rparr>"
  have "slave_poll env s (on_ext d w) = Some (?s1, ?w1)"
    using a(3) p(4) out_run_send(4) [OF _ r(1)] by (simp add: x(1))
  then have "sm_boot_slave_process env (Ref s) (on_ext d w) = Some (0, Ref ?s1, ?w1, bs_events s ! 3)"
    using assms(4) by (simp add: sm_boot_slave_process_def slave_switch_def mem_simps)
  then show ?thesis using that r(2,3) by simp
qed

subsection \<open>The whole transfer\<close>

definition finishes :: "('x \<Rightarrow> 'x) list \<Rightarrow> 'cb sm_boot_slave \<Rightarrow> ('h, 'x) out_world \<Rightarrow> bool" where
  "finishes ds s w \<longleftrightarrow> (\<exists>s' w'. slave_calls env (map on_ext ds) s w = Some (s', w', bs_events s ! 3)
     \<and> bs_state s' = SLAVE_FINISH_DOWNLOAD \<and> stored (far (ow_ext w')) = img \<and> finished (far (ow_ext w')))"

definition in_time :: "('x \<Rightarrow> 'x) list \<Rightarrow> 'cb sm_boot_slave \<Rightarrow> ('h, 'x) out_world \<Rightarrow> bool" where
  "in_time ds s w \<longleftrightarrow> (\<forall>d \<in> set ds. pause d) \<and> now (ow_ext w) + 2500 * int (length ds) < 2 ^ 32
     \<and> length (bs_events s) = SM_BOOT_SLAVE_EVENT_NUMBER \<and> \<not> is_null (bs_events s ! 3)"

lemma finishes_step:
  assumes "goes d s w Q" "in_time (d # ds) s w"
    and "\<And>s' w'. Q s' w' \<Longrightarrow> in_time ds s' w' \<Longrightarrow> finishes ds s' w'"
  shows "finishes (d # ds) s w"
proof -
  obtain s' w' where s': "sm_boot_slave_process env (Ref s) (on_ext d w) = Some (0, Ref s', w', NULL)" "Q s' w'"
      "bs_events s' = bs_events s" "now (ow_ext w') \<le> now (ow_ext w) + 2500"
    using assms(1) by (auto simp: goes_def)
  have "in_time ds s' w'" using assms(2) s'(3,4) by (auto simp: in_time_def)
  from assms(3) [OF s'(2) this] show ?thesis using s'(1,3) by (simp add: finishes_def)
qed

definition todo :: "nat \<Rightarrow> nat" where
  "todo k = (\<Sum>x\<leftarrow>drop k img. 1 + data_commands x) + 1"

lemma todo_Suc: "k < length img \<Longrightarrow> todo k = 1 + data_commands (img ! k) + todo (Suc k)"
  by (simp add: todo_def flip: Cons_nth_drop_Suc)

lemma data_commands_piece:
  assumes "128 * j < length (snd x)"
  shows "128 * Suc j < length (snd x) \<Longrightarrow> data_commands x - j = Suc (data_commands x - Suc j)"
    "length (snd x) \<le> 128 * Suc j \<Longrightarrow> data_commands x - j = 1"
  using assms by (auto simp: data_commands_def)

definition underway :: "nat \<Rightarrow> 'cb sm_boot_slave \<Rightarrow> ('h, 'x) out_world \<Rightarrow> bool" where
  "underway n s w \<longleftrightarrow> (\<exists>k. offered k s w \<and> n = todo k) \<or> (\<exists>k j. sent k j s w \<and> n = data_commands (img ! k) - j + todo (Suc k))
     \<or> informing s w \<and> n = 1"

lemma underway_last:
  assumes "underway n s w"
  shows "n \<noteq> 0" "n = 1 \<Longrightarrow> informing s w"
proof -
  have pos: "0 < todo k" for k by (simp add: todo_def)
  have "k < length img" if "offered k s w" for k using that by (auto simp: offered_def holds_segment_def)
  then have o: "1 < todo k" if "offered k s w" for k using that todo_Suc [of k] pos [of "Suc k"] by fastforce
  have d: "0 < data_commands (img ! k) - j" if "sent k j s w" for k j
    using that by (auto simp: sent_def sending_def data_commands_def)
  have d': "1 < data_commands (img ! k) - j + todo (Suc k)" if "sent k j s w" for k j
    using d [OF that] pos [of "Suc k"] by linarith
  show "n \<noteq> 0" "n = 1 \<Longrightarrow> informing s w"
    using assms o d' unfolding underway_def by (metis less_nat_zero_code zero_neq_one, metis less_irrefl)
qed

lemma underway_call:
  assumes "underway (Suc n) s w" "n \<noteq> 0" "pause d" "now (ow_ext w) + 2500 < 2 ^ 32"
  shows "goes d s w (underway n)"
  using assms(1) unfolding underway_def [of "Suc n"]
proof (elim disjE exE conjE)
  fix k assume k: "offered k s w" "Suc n = todo k"
  obtain seg where seg: "holds_segment img k seg" using k(1) by (auto simp: offered_def)
  have "n = data_commands (img ! k) - 0 + todo (Suc k)" using k(2) todo_Suc [OF segment_fits(3) [OF seg]] by simp
  then show ?thesis
    using call_announces [OF k(1) assms(3,4)] by (fastforce simp: goes_def underway_def)
next
  fix k j assume k: "sent k j s w" "Suc n = data_commands (img ! k) - j + todo (Suc k)"
  have j: "128 * j < length (snd (img ! k))" "k < length img"
    using k(1) by (auto simp: sent_def sending_def holds_segment_def)
  consider "128 * Suc j < length (snd (img ! k))" | "length (snd (img ! k)) \<le> 128 * Suc j" "Suc k < length img"
    | "length (snd (img ! k)) \<le> 128 * Suc j" "Suc k = length img"
    using j(2) by linarith
  then show ?thesis
  proof cases
    case 1
    then have "n = data_commands (img ! k) - Suc j + todo (Suc k)" using k(2) data_commands_piece(1) [OF j(1)] by simp
    then show ?thesis
      using call_sends_piece [OF k(1) 1 assms(3,4)] by (fastforce simp: goes_def underway_def)
  next
    case 2
    then have "n = todo (Suc k)" using k(2) data_commands_piece(2) [OF j(1)] by simp
    then show ?thesis
      using call_moves_on [OF k(1) 2 assms(3,4)] by (fastforce simp: goes_def underway_def)
  next
    case 3
    then have "n = 1" using k(2) data_commands_piece(2) [OF j(1)] by (simp add: todo_def)
    then show ?thesis
      using call_informs [OF k(1) 3 assms(3,4)] by (fastforce simp: goes_def underway_def)
  qed
qed (use assms(2) in simp)

lemma underway_finishes:
  assumes "underway (length ds) s w" "in_time ds s w"
  shows "finishes ds s w"
  using assms
proof (induction ds arbitrary: s w)
  case Nil
  then show ?case using underway_last(1) by fastforce
next
  case (Cons d ds)
  have d: "pause d" "now (ow_ext w) + 2500 < 2 ^ 32" "length (bs_events s) = SM_BOOT_SLAVE_EVENT_NUMBER"
    "\<not> is_null (bs_events s ! 3)"
    using Cons.prems(2) by (auto simp: in_time_def)
  show ?case
  proof (cases "ds = []")
    case True
    have "informing s w" using Cons.prems(1) True underway_last(2) by simp
    then obtain s' w' where "sm_boot_slave_process env (Ref s) (on_ext d w) = Some (0, Ref s', w', bs_events s ! 3)"
      "bs_state s' = SLAVE_FINISH_DOWNLOAD" "stored (far (ow_ext w')) = img" "finished (far (ow_ext w'))"
      using call_finishes [OF _ d(1-3)] by blast
    then show ?thesis using d(4) by (simp add: finishes_def True)
  next
    case False
    then have "goes d s w (underway (length ds))"
      using underway_call [OF _ _ d(1,2)] Cons.prems(1) by simp
    then show ?thesis by (rule finishes_step) (use Cons in auto)
  qed
qed

lemma transfer_finishes:
  assumes "starting SLAVE_IDLE s w" "in_time ds s w" "length ds = transfer_calls img"
  shows "finishes ds s w"
proof -
  have n: "length ds = Suc (Suc (Suc (todo 0)))" using assms(3) by (simp add: transfer_calls_def todo_def)
  then obtain d1 d2 d3 ds' where ds: "ds = d1 # d2 # d3 # ds'" "length ds' = todo 0"
    by (auto simp: length_Suc_conv)
  have p: "pause d1" "pause d2" "pause d3" using assms(2) ds by (auto simp: in_time_def)
  have later: "now (ow_ext v) + 2500 < 2 ^ 32" if "in_time (d # es) r v" for d es r v
    using that by (simp add: in_time_def)
  have "finishes (d3 # ds') s2 w2" if "asked s2 w2" "in_time (d3 # ds') s2 w2" for s2 w2
    using call_confirms_ready [OF that(1) p(3) later [OF that(2)]] that(2)
    by (rule finishes_step) (auto intro!: underway_finishes simp: underway_def ds(2))
  then have "finishes (d2 # d3 # ds') s1 w1" if "starting SLAVE_REQUEST_UPGRADE s1 w1" "in_time (d2 # d3 # ds') s1 w1" for s1 w1
    using call_asks [OF that(1) p(2)] that(2) by (auto intro: finishes_step)
  then show ?thesis
    using call_starts [OF assms(1) p(1)] assms(2) unfolding ds(1) by (auto intro: finishes_step)
qed

end

end
