(* ===== verification/Host_Exchange.thy ===== *)
theory Host_Exchange
  imports Host
begin

section \<open>A synchronous exchange over a wire\<close>

text \<open>
  What \<open>sm_host_send_cmd_sync\<close> of \<^verbatim>\<open>libs/host/sm_host.c\<close> does when the answer arrives: it reads the
  frame byte by byte, calls the handler of the exchange with its data, returns 1 and leaves the host
  idle. The world of the host is any state from which bytes can be read: \<open>inbox\<close> is what has arrived.
\<close>

definition byte_wire ::
  "('w \<Rightarrow> int \<times> 'w) \<Rightarrow> 'w sm_host_recv_if \<Rightarrow> nat \<Rightarrow> ('w \<Rightarrow> bytes) \<Rightarrow> ('w \<Rightarrow> 'w) \<Rightarrow> ('w \<Rightarrow> int) \<Rightarrow> bool" where
  "byte_wire tick recv a inbox pop time \<longleftrightarrow>
     (\<forall>w b bs. inbox w = b # bs \<longrightarrow> recv 1 0 a w = (1, [b], pop w) \<and> inbox (pop w) = bs \<and> time (pop w) \<le> time w + 1)
   \<and> (\<forall>w. inbox (snd (tick w)) = inbox w \<and> fst (tick w) \<le> time w \<and> time (snd (tick w)) \<le> time w)"

text \<open>One poll: a reading of the clock and of a byte.\<close>

definition poll :: "('w \<Rightarrow> int \<times> 'w) \<Rightarrow> ('w \<Rightarrow> 'w) \<Rightarrow> 'w \<Rightarrow> 'w" where
  "poll tick pop w = pop (snd (tick w))"

lemma poll_laws:
  assumes "byte_wire tick recv a inbox pop time" "inbox w = b # bs"
  shows "recv 1 0 a (snd (tick w)) = (1, [b], poll tick pop w)" "inbox (poll tick pop w) = bs"
    "time (poll tick pop w) \<le> time w + 1" "fst (tick w) \<le> time w + 1"
proof -
  have t: "inbox (snd (tick w)) = inbox w" "fst (tick w) \<le> time w" "time (snd (tick w)) \<le> time w"
    using assms(1) by (simp_all add: byte_wire_def)
  then have "recv 1 0 a (snd (tick w)) = (1, [b], pop (snd (tick w))) \<and> inbox (pop (snd (tick w))) = bs
      \<and> time (pop (snd (tick w))) \<le> time (snd (tick w)) + 1"
    using assms by (simp add: byte_wire_def)
  with t show "recv 1 0 a (snd (tick w)) = (1, [b], poll tick pop w)" "inbox (poll tick pop w) = bs"
    "time (poll tick pop w) \<le> time w + 1" "fst (tick w) \<le> time w + 1"
    by (simp_all add: poll_def)
qed

text \<open>A host in synchronous mode that has read the first \<open>k\<close> bytes of \<open>F\<close>.\<close>

definition reading :: "'w sm_host \<Rightarrow> 'w sm_host_recv_if \<Rightarrow> nat \<Rightarrow> bytes \<Rightarrow> nat \<Rightarrow> bool" where
  "reading h recv a F k \<longleftrightarrow> received h F k \<and> unread h = [] \<and> h_mode h = SM_HOST_SYNC_MODE
     \<and> h_recv_if h = Ref recv \<and> h_arg_if h = a"

lemma unread_room: "unread h = [] \<Longrightarrow> pending h = 0"
  by (metis length_0_conv length_unread)

lemma poll_process:
  assumes r: "reading h recv a F k" and w: "recv 1 0 a w = (1, [b], v)"
  shows "sm_host_process (Ref h) w = map_option (\<lambda>(r, h, w). (r, Ref h, w)) (process_byte (ring_put h b) v)"
    "unread (ring_put h b) = [b]" "received (ring_put h b) F k"
proof -
  have wf: "host_wf h" "pending h < SM_HOST_MAX_BUFFER - 1"
    using r unread_room [of h] by (simp_all add: reading_def received_def)
  show u: "unread (ring_put h b) = [b]" using unread_ring_put [OF wf] r by (simp add: reading_def)
  show "received (ring_put h b) F k" using r host_wf_ring_put [OF wf(1)] by (simp add: reading_def received_def)
  have "h_buffer_index (ring_put h b) \<noteq> h_process_index (ring_put h b)"
    by (rule unread_Cons(3) [OF host_wf_ring_put [OF wf(1)] u])
  then show "sm_host_process (Ref h) w = map_option (\<lambda>(r, h, w). (r, Ref h, w)) (process_byte (ring_put h b) v)"
    using r w put_buffer_eq [OF wf(1)]
    by (simp add: sm_host_process_def poll_byte_def reading_def mem_simps) (auto split: bind_split option.split)
qed

lemma sync_poll_reads:
  assumes "reading h recv a F k" "k \<le> n" "framed F n" "inbox w = drop k F"
    and "byte_wire tick recv a inbox pop time" "time w + int (n - k) + 1 \<le> deadline"
    and "F ! 3 = h_addr h" 
  shows "\<exists>h'. sync_poll tick deadline ret (Ref h) w
      = Some (1, Ref h', snd (verdict h F n ((poll tick pop ^^ Suc (n - k)) w)))
     \<and> host_wf h' \<and> h_addr h' = h_addr h \<and> h_send_if h' = h_send_if h \<and> h_recv_if h' = h_recv_if h \<and> h_arg_if h' = a"
  using assms
proof (induction "n - k" arbitrary: h k w ret)
  case 0
  then have k: "k = n" by simp
  have F: "length F = Suc n" using "0.prems"(3) by (simp add: framed_def)
  then have i: "inbox w = F ! n # []" using "0.prems"(4) k by (simp add: Cons_nth_drop_Suc [symmetric])
  let ?h = "ring_put h (F ! n)" and ?v = "poll tick pop w"
  note p = poll_laws [OF "0.prems"(5) i] and q = poll_process [OF "0.prems"(1) poll_laws(1) [OF "0.prems"(5) i]]
  have v: "verdict ?h F n ?v = verdict h F n ?v" by (simp add: verdict_def split: ptr.split)
  have one: "fst (verdict h F n ?v) = 1" using "0.prems"(7) by (simp add: verdict_def)
  have "process_byte ?h ?v = (case verdict ?h F n ?v of (r, w') \<Rightarrow> Some (r, (move_byte ?h (F ! n))\<lparr>h_packet_index := 0\<rparr>, w'))"
    using q(2,3) k "0.prems"(3) by (intro parse_last) auto
  then have "sm_host_process (Ref h) (snd (tick w))
      = Some (1, Ref ((move_byte ?h (F ! n))\<lparr>h_packet_index := 0\<rparr>), snd (verdict h F n ?v))"
    using q(1) v one by (cases "verdict h F n ?v") simp
  moreover have "fst (tick w) \<le> deadline" using p(4) "0.prems"(6) k by simp
  moreover have "host_wf ((move_byte ?h (F ! n))\<lparr>h_packet_index := 0\<rparr>)"
    using q(3) by (simp add: received_def)
  ultimately show ?case
    using "0.prems"(1) k by (subst sync_poll.simps) (auto simp: prod.case_eq_if reading_def move_byte_def ring_put_def)
next
  case (Suc m)
  then have k: "k < n" by simp
  have fr: "length F = Suc n" using Suc.prems(3) by (simp add: framed_def)
  then have i: "inbox w = F ! k # drop (Suc k) F" using Suc.prems(4) k by (simp add: Cons_nth_drop_Suc)
  let ?b = "ring_put h (F ! k)" and ?v = "poll tick pop w"
  let ?h = "(move_byte ?b (F ! k))\<lparr>h_packet_index := k + 1\<rparr>"
  note p = poll_laws [OF Suc.prems(5) i] and q = poll_process [OF Suc.prems(1) poll_laws(1) [OF Suc.prems(5) i]]
  have "process_byte ?b ?v = Some (0, ?h, ?v)"
    using Suc.prems(3) k q(2,3) by (intro parse_step [OF q(3)]) (auto simp: framed_def)
  then have step: "sm_host_process (Ref h) (snd (tick w)) = Some (0, Ref ?h, ?v)" using q(1) by simp
  have "received ?h F (k + 1)" using q(3) k fr Suc.prems(3) by (intro received_step) (auto simp: framed_def)
  moreover have "unread ?h = []" using unread_move_byte [OF _ q(2)] q(3) by (simp add: received_def)
  ultimately have rd: "reading ?h recv a F (k + 1)"
    using Suc.prems(1) by (simp add: reading_def ring_put_def move_byte_def)
  have "m = n - (k + 1)" "k + 1 \<le> n" using Suc.hyps(2) k by simp_all
  then obtain h' where h': "sync_poll tick deadline 0 (Ref ?h) ?v
      = Some (1, Ref h', snd (verdict ?h F n ((poll tick pop ^^ Suc (n - (k + 1))) ?v)))" "host_wf h'"
    "h_addr h' = h_addr ?h" "h_send_if h' = h_send_if ?h" "h_recv_if h' = h_recv_if ?h" "h_arg_if h' = a"
    using Suc.hyps(1) [of "k + 1" ?h ?v 0] Suc.prems(3,5,6,7) rd p(2,3) k by auto
  have v: "verdict ?h F n u = verdict h F n u" for u by (simp add: verdict_def split: ptr.split)
  have "Suc (n - k) = Suc (Suc (n - (k + 1)))" using k by simp
  then have "(poll tick pop ^^ Suc (n - k)) w = (poll tick pop ^^ Suc (n - (k + 1))) ?v" by (simp add: funpow_swap1)
  moreover have "fst (tick w) \<le> deadline" using p(4) Suc.prems(6) k by simp
  ultimately show ?case
    using step h' v
    by (subst sync_poll.simps) (auto simp: prod.case_eq_if move_byte_def ring_put_def simp del: funpow.simps)
qed

text \<open>The whole exchange: the command has been sent and the frame of the answer is what can be read.\<close>

lemma sync_exchange:
  assumes h: "host_wf h" "h_packet_index h = 0" "unread h = []" "h_recv_if h = Ref recv" "h_send_if h = Ref send"
      "h_arg_if h = a"
    and d: "length d \<le> 248" "length ans \<le> 248"
    and sent: "send (host_frame crc16 (h_addr h) cmd d) SM_HOST_TIMEOUT_IF_DEFAULT a w = (r, w1)" "0 < r"
    and w1: "byte_wire tick recv a inbox pop time" "inbox w1 = host_frame crc16 (h_addr h) back ans"
    and now: "tick w1 = (now, w2)" "0 \<le> now" "0 \<le> timeout" "now + timeout < 2 ^ 32"
      "time w2 + int (length ans) + 8 \<le> now + timeout"
  shows "\<exists>h'. sm_host_send_cmd_sync tick (Ref h) cmd d (int (length d)) timeout (Ref cb) arg w
      = Some (1, Ref h', snd (cb (back mod 256) ans arg ((poll tick pop ^^ (8 + length ans)) w2)))
     \<and> host_wf h' \<and> h_packet_index h' = 0 \<and> unread h' = [] \<and> h_addr h' = h_addr h
     \<and> h_send_if h' = h_send_if h \<and> h_recv_if h' = h_recv_if h \<and> h_arg_if h' = h_arg_if h"
proof -
  let ?h = "h\<lparr>h_mode := SM_HOST_SYNC_MODE, h_cmd_callback := Ref cb, h_cmd_arg := arg\<rparr>"
  let ?F = "host_frame crc16 (h_addr h) back ans"
  have s: "sm_host_send_cmd (Ref ?h) cmd d (int (length d)) w = Some (int (length d) + 8, w1)"
    using h sent d by (simp add: send_cmd_eq [where send = send] Let_def)
  have rd: "reading ?h recv a ?F 0"
    using h by (simp add: reading_def received_def host_wf_def unread_def pending_def)
  have fr: "framed ?F (length ans + 7)" by (rule host_frame_framed [OF d(2)])
  have "inbox (snd (tick w1)) = inbox w1" using w1(1) by (simp add: byte_wire_def)
  then have in2: "inbox w2 = drop 0 ?F" "(now + timeout) mod 2 ^ 32 = now + timeout"
    using w1(2) now by simp_all
  have t2: "time w2 + int (length ans + 7 - 0) + 1 \<le> now + timeout" using now(5) by simp
  have ad: "?F ! 3 = h_addr ?h" by simp
  obtain h' where p: "sync_poll tick (now + timeout) (-1) (Ref ?h) w2
      = Some (1, Ref h', snd (verdict ?h ?F (length ans + 7) ((poll tick pop ^^ Suc (length ans + 7 - 0)) w2)))"
    "host_wf h'" "h_addr h' = h_addr ?h" "h_send_if h' = h_send_if ?h" "h_recv_if h' = h_recv_if ?h" "h_arg_if h' = a"
    using sync_poll_reads [OF rd _ fr in2(1) w1(1) t2 ad, of "-1"] by auto
  show ?thesis
    using s p now(1) in2(2) h
    by (simp add: sm_host_send_cmd_sync_def mem_simps verdict_frame [of ?h "h_addr h" cb] reset_indices_def Let_def
        host_wf_def unread_def pending_def del: funpow.simps)
qed

end
