(* ===== verification/Intel_Hex.thy ===== *)
theory Intel_Hex
  imports Prelude
begin

section \<open>Intel HEX records\<close>

text \<open>
  Models \<^verbatim>\<open>utils/code_c/algorithms/sm_intel_hex.c\<close>: the conversion of a line of text to bytes, the
  decoding of a record with its checksum, and the conversions of bytes to numbers. A \<open>char\<close> is signed.
  The decoded record is a static object whose data lie in the static array \<open>hex_data\<close> of 32 bytes; the
  array is an argument and a result here, since later records see its old contents.
\<close>

abbreviation INTEL_HEX_Data :: u8 where "INTEL_HEX_Data \<equiv> 0"
abbreviation INTEL_HEX_EndFile :: u8 where "INTEL_HEX_EndFile \<equiv> 1"
abbreviation INTEL_HEX_Extended_Segment_Address :: u8 where "INTEL_HEX_Extended_Segment_Address \<equiv> 2"
abbreviation INTEL_HEX_Extended_Linear_Address :: u8 where "INTEL_HEX_Extended_Linear_Address \<equiv> 4"
abbreviation COLON :: u8 where "COLON \<equiv> 0x3A"

record intel_hex =
  ih_start_code :: u8
  ih_byte_count :: u8
  ih_addr :: bytes
  ih_record_type :: u8
  ih_data :: bytes
  ih_checksum :: u8

subsection \<open>Text to bytes\<close>

definition hex_table :: bytes where
  "hex_table = [0x30, 0x31, 0x32, 0x33, 0x34, 0x35, 0x36, 0x37, 0x38, 0x39, 0x41, 0x42, 0x43, 0x44, 0x45, 0x46,
     0x61, 0x62, 0x63, 0x64, 0x65, 0x66]"

definition byte_to_hex :: "u8 \<Rightarrow> u8" where
  "byte_to_hex byte =
     (let h = fold (\<lambda>i h. if byte = hex_table ! i
                then (if i < 10 then byte - 48 else if i < 16 then byte - 55 else byte - 87) else h) [0..<22] 0xFF
      in if h = 0xFF then byte else h)"

text \<open>
  \<open>string_to_hex\<close> with the index \<open>i\<close> of 16 bits. A character that is no digit is copied. Every pass
  writes a byte, so the loop ends before \<open>dest\<close> does, or faults.
\<close>

function hex_loop :: "bytes \<Rightarrow> nat \<Rightarrow> nat \<Rightarrow> nat \<Rightarrow> bytes \<Rightarrow> (nat \<times> bytes) option" where
  "hex_loop data len i p dest =
     (if i < len then
        (case (mem_get data i, mem_get data (i + 1)) of
           (Some a, Some b) \<Rightarrow>
             (let high = byte_to_hex a; low = byte_to_hex b;
                  copied = uint high = sint a;
                  x = (if copied then high else push_bit 4 high OR low) in
              if p < length dest then hex_loop data len ((i + (if copied then 1 else 2)) mod 2 ^ 16) (p + 1) (dest[p := x])
              else None)
         | _ \<Rightarrow> None)
      else Some (p, dest))"
  by pat_completeness auto
termination by (relation "measure (\<lambda>(data, len, i, p, dest). length dest - p)") auto

declare hex_loop.simps [simp del]

definition string_to_hex :: "bytes \<Rightarrow> nat \<Rightarrow> bytes \<Rightarrow> (nat \<times> bytes) option" where
  "string_to_hex data len dest = hex_loop data len 0 0 dest"

subsection \<open>Records\<close>

definition intel_hex_checksum :: "bytes \<Rightarrow> nat \<Rightarrow> u8 option" where
  "intel_hex_checksum data len = do {
     d \<leftarrow> mem_read data 1 (len - 2);
     Some (NOT (fold (\<lambda>b s. s + b) d 0) + 1) }"

definition intel_hex_process :: "bytes \<Rightarrow> nat \<Rightarrow> bytes \<Rightarrow> (intel_hex ptr \<times> bytes) option" where
  "intel_hex_process data len hex_data = do {
     start \<leftarrow> mem_get data 0;
     if start \<noteq> COLON then Some (NULL, hex_data)
     else do {
       n \<leftarrow> mem_get data 1;
       a \<leftarrow> mem_read data 2 2;
       t \<leftarrow> mem_get data 4;
       d \<leftarrow> mem_read data 5 (unat n);
       hex_data \<leftarrow> mem_write hex_data 0 d;
       c \<leftarrow> mem_get data (5 + unat n);
       s \<leftarrow> intel_hex_checksum data len;
       if c \<noteq> s then Some (NULL, hex_data)
       else Some (Ref \<lparr>ih_start_code = start, ih_byte_count = n, ih_addr = a, ih_record_type = t, ih_data = hex_data,
              ih_checksum = c\<rparr>, hex_data) } }"

subsection \<open>Numbers\<close>

definition byte_to_half_word :: "bytes \<Rightarrow> u16" where
  "byte_to_half_word src = push_bit 8 (ucast (src ! 0)) OR ucast (src ! 1)"

definition byte_to_word :: "bytes \<Rightarrow> u32" where
  "byte_to_word src = fold (\<lambda>i r. r OR push_bit (8 * (3 - i)) (ucast (src ! i))) [0..<4] 0"

definition byte_to_word_cr :: "bytes \<Rightarrow> u32" where
  "byte_to_word_cr src = fold (\<lambda>i r. r OR push_bit (8 * i) (ucast (src ! i))) [0..<4] 0"

subsection \<open>The text of a record\<close>

text \<open>Upper case digits, and the line that a record is written as.\<close>

definition hex_digit :: "u8 \<Rightarrow> u8" where
  "hex_digit n = (if n < 10 then n + 48 else n + 55)"

definition hex_text :: "u8 \<Rightarrow> bytes" where
  "hex_text b = [hex_digit (drop_bit 4 b), hex_digit (take_bit 4 b)]"

definition sum_check :: "bytes \<Rightarrow> u8" where
  "sum_check bs = - sum_list bs"

definition hex_record :: "u8 \<Rightarrow> bytes \<Rightarrow> bytes \<Rightarrow> bytes" where
  "hex_record t a d = (let r = of_nat (length d) # a @ t # d in r @ [sum_check r])"

definition hex_line :: "bytes \<Rightarrow> bytes" where
  "hex_line r = COLON # concat (map hex_text r)"

text \<open>Some lines of text and their bytes.\<close>

lemma hex_line_example:
  "hex_line (hex_record INTEL_HEX_EndFile [0, 0] []) = [0x3A, 0x30, 0x30, 0x30, 0x30, 0x30, 0x30, 0x30, 0x31, 0x46, 0x46]"
  by code_simp

lemma digit_value:
  assumes "n < 16"
  shows "byte_to_hex (hex_digit n) = n" "uint (byte_to_hex (hex_digit n)) \<noteq> sint (hex_digit n)"
proof -
  have "n \<in> of_nat ` {0..<16}"
    using assms by (intro image_eqI [of _ _ "unat n"]) (simp_all add: word_less_nat_alt)
  then have "byte_to_hex (hex_digit n) = n \<and> uint (byte_to_hex (hex_digit n)) \<noteq> sint (hex_digit n)"
  proof
    fix k assume k: "n = of_nat k" "k \<in> {0..<16}"
    have "\<forall>k\<in>set [0..<16]. byte_to_hex (hex_digit (of_nat k)) = of_nat k
        \<and> uint (byte_to_hex (hex_digit (of_nat k))) \<noteq> sint (hex_digit (of_nat k))"
      by code_simp
    with k(2) show ?thesis unfolding k(1) set_upt by blast
  qed
  then show "byte_to_hex (hex_digit n) = n" "uint (byte_to_hex (hex_digit n)) \<noteq> sint (hex_digit n)" by auto
qed

lemma colon_copied: "byte_to_hex COLON = COLON" "uint COLON = sint COLON"
  by code_simp+

lemma nibbles_join: "push_bit 4 (drop_bit 4 b) OR take_bit 4 b = (b :: u8)"
  by (rule bit_word_eqI) (auto simp: bit_simps not_less)

lemma nibbles_less: "drop_bit 4 (b :: u8) < 16" "take_bit 4 (b :: u8) < 16"
proof -
  have "unat (drop_bit 4 b) = drop_bit 4 (unat b)" by (rule unat_drop_bit_eq)
  then have "unat (drop_bit 4 b) = unat b div 16" by (simp only: drop_bit_eq_div [where ?'a = nat]) simp
  moreover have "unat (take_bit 4 b) = take_bit 4 (unat b)" by (rule unsigned_take_bit_eq)
  then have "unat (take_bit 4 b) < 16" by (simp only: take_bit_eq_mod [where ?'a = nat]) simp
  ultimately show "drop_bit 4 b < 16" "take_bit 4 b < 16"
    using unat_u8_less [of b] by (simp_all only: word_less_nat_alt) (simp_all add: div_less_iff_less_mult)
qed

text \<open>The bytes of a line; \<open>pre\<close> has been read, and the text goes on with \<open>rest\<close>.\<close>

lemma hex_loop_line:
  assumes "length (pre @ concat (map hex_text r) @ rest) \<le> 2 ^ 16" "p + length r \<le> length dest" "length rest \<noteq> 0"
  shows "hex_loop (pre @ concat (map hex_text r) @ rest) (length pre + 2 * length r) (length pre) p dest
     = Some (p + length r, take p dest @ r @ drop (p + length r) dest)"
  using assms
proof (induction r arbitrary: pre p dest)
  case Nil
  then show ?case by (subst hex_loop.simps) simp
next
  case (Cons b r)
  let ?h = "hex_digit (drop_bit 4 b)" and ?l = "hex_digit (take_bit 4 b)"
  let ?rest = "concat (map hex_text r) @ rest"
  have d: "pre @ concat (map hex_text (b # r)) @ rest = (pre @ [?h, ?l]) @ ?rest" by (simp add: hex_text_def)
  have at: "mem_get (pre @ concat (map hex_text (b # r)) @ rest) (length pre) = Some ?h"
      "mem_get (pre @ concat (map hex_text (b # r)) @ rest) (length pre + 1) = Some ?l"
    by (simp_all add: hex_text_def mem_get_def nth_append)
  have len: "(length pre + 2) mod 2 ^ 16 = length (pre @ [?h, ?l])"
    using Cons.prems(1,3) by (cases rest) (simp_all add: hex_text_def)
  have x: "push_bit 4 (byte_to_hex ?h) OR byte_to_hex ?l = b"
    by (simp only: digit_value(1) nibbles_less nibbles_join)
  have "hex_loop (pre @ concat (map hex_text (b # r)) @ rest) (length pre + 2 * length (b # r)) (length pre) p dest
      = hex_loop ((pre @ [?h, ?l]) @ ?rest) (length (pre @ [?h, ?l]) + 2 * length r) (length (pre @ [?h, ?l])) (p + 1) (dest[p := b])"
    using Cons.prems(2) digit_value(2) [OF nibbles_less(1), of b]
    by (subst hex_loop.simps) (simp only: at len x d [symmetric] option.case prod.case Let_def if_False if_True, simp)
  also have "\<dots> = Some (p + 1 + length r, take (p + 1) (dest[p := b]) @ r @ drop (p + 1 + length r) (dest[p := b]))"
    using Cons.prems d by (intro Cons.IH) (simp_all add: hex_text_def)
  also have "take (p + 1) (dest[p := b]) = take p dest @ [b]" using Cons.prems(2) by (simp add: take_Suc_conv_app_nth)
  finally show ?case by simp
qed


lemma line_to_bytes:
  assumes "length r + 1 \<le> length dest" "2 * length r + length rest < 2 ^ 16" "rest \<noteq> []"
  shows "string_to_hex (hex_line r @ rest) (length (hex_line r)) dest
     = Some (length r + 1, (COLON # r) @ drop (length r + 1) dest)"
proof -
  have len: "length (concat (map hex_text r)) = 2 * length r" by (induction r) (simp_all add: hex_text_def)
  have "string_to_hex (hex_line r @ rest) (length (hex_line r)) dest
      = hex_loop ([COLON] @ concat (map hex_text r) @ rest) (length [COLON] + 2 * length r) (length [COLON]) 1 (dest[0 := COLON])"
  proof -
    obtain b where b: "mem_get (COLON # concat (map hex_text r) @ rest) (0 + 1) = Some b"
      using assms(3) by (cases "concat (map hex_text r) @ rest") (simp_all add: mem_simps)
    have "0 < length dest" using assms(1) by linarith
    with b show ?thesis
      unfolding string_to_hex_def hex_line_def
      by (subst hex_loop.simps) (simp add: mem_simps colon_copied len Let_def)
  qed
  also have "\<dots> = Some (1 + length r, take 1 (dest[0 := COLON]) @ r @ drop (1 + length r) (dest[0 := COLON]))"
    using assms len by (intro hex_loop_line) simp_all
  also have "take 1 (dest[0 := COLON]) = [COLON]" using assms(1) by (cases dest) simp_all
  finally show ?thesis using assms(1) by simp
qed

subsection \<open>Decoding\<close>

lemma fold_add_sum: "fold (\<lambda>b s. s + b) d (s :: u8) = s + sum_list d"
  by (induction d arbitrary: s) (simp_all add: add.assoc)

lemma not_plus_1: "NOT x + 1 = (- x :: 'a::len word)"
  by (simp add: not_eq_complement)

lemma checksum_eq:
  "length r \<noteq> 0 \<Longrightarrow> intel_hex_checksum (COLON # r @ rest) (length r + 1) = Some (sum_check (butlast r))"
  by (simp add: intel_hex_checksum_def mem_simps fold_add_sum not_plus_1 sum_check_def butlast_conv_take)

lemma process_bytes:
  assumes "r = n # a @ t # d @ [c]" "length a = 2" "length d = unat n" "unat n \<le> length hex_data"
  shows "intel_hex_process (COLON # r @ rest) (length r + 1) hex_data
     = (let m = d @ drop (unat n) hex_data in
        Some (if sum_list r = 0 then Ref \<lparr>ih_start_code = COLON, ih_byte_count = n, ih_addr = a, ih_record_type = t,
              ih_data = m, ih_checksum = c\<rparr> else NULL, m))"
proof -
  obtain a1 a0 where a: "a = [a1, a0]" using assms(2) by (cases a; cases "tl a") auto
  have ck: "intel_hex_checksum (COLON # r @ rest) (length r + 1) = Some (sum_check (n # a @ t # d))"
    using checksum_eq [of r rest] assms(1) by (simp add: butlast_append)
  have eq: "c = sum_check (n # a @ t # d) \<longleftrightarrow> sum_list r = 0"
  proof -
    have "sum_list r = c + sum_list (n # a @ t # d)" using assms(1) by (simp add: ac_simps)
    then show ?thesis by (simp only: sum_check_def eq_neg_iff_add_eq_0)
  qed
  show ?thesis
    using assms(3,4) ck eq
    unfolding intel_hex_process_def
    by (simp add: assms(1) a mem_simps Let_def nth_append)
qed


text \<open>The conversions of bytes to numbers are the usual layouts.\<close>

lemma byte_to_numbers:
  "byte_to_half_word [h, l] = be16 h l"
  "byte_to_word [b3, b2, b1, b0] = le32 b0 b1 b2 b3"
  "byte_to_word_cr [b0, b1, b2, b3] = le32 b0 b1 b2 b3"
  by (simp_all add: byte_to_half_word_def be16_def byte_to_word_def byte_to_word_cr_def le32_def upt_rec_numeral
      numeral_eq_Suc or.assoc or.commute or.left_commute)

subsection \<open>Properties\<close>

lemma hex_record_shape:
  assumes "length a = 2" "length d < 256"
  shows "hex_record t a d = of_nat (length d) # a @ t # d @ [sum_check (of_nat (length d) # a @ t # d)]"
    "unat (of_nat (length d) :: u8) = length d" "length (hex_record t a d) = length d + 5" "sum_list (hex_record t a d) = 0"
  using assms by (simp_all add: hex_record_def Let_def sum_check_def unsigned_of_nat take_bit_nat_eq_self ac_simps)

definition decoded_record :: "u8 \<Rightarrow> bytes \<Rightarrow> bytes \<Rightarrow> bytes \<Rightarrow> intel_hex" where
  "decoded_record t a d hex_data = \<lparr>ih_start_code = COLON, ih_byte_count = of_nat (length d), ih_addr = a,
     ih_record_type = t, ih_data = d @ drop (length d) hex_data,
     ih_checksum = sum_check (of_nat (length d) # a @ t # d)\<rparr>"

lemma decode_record:
  assumes "length a = 2" "length d \<le> 32" "length hex_data = 32" "length buff = 50" "rest \<noteq> []" "length rest \<le> 1000"
  shows "string_to_hex (hex_line (hex_record t a d) @ rest) (length (hex_line (hex_record t a d))) buff
      = Some (6 + length d, COLON # hex_record t a d @ drop (length (hex_record t a d) + 1) buff)"
    "intel_hex_process (COLON # hex_record t a d @ drop (length (hex_record t a d) + 1) buff) (6 + length d) hex_data
      = Some (Ref (decoded_record t a d hex_data), d @ drop (length d) hex_data)"
    "length (COLON # hex_record t a d @ drop (length (hex_record t a d) + 1) buff) = 50"
proof -
  have d: "length d < 256" using assms(2) by simp
  note r = hex_record_shape [OF assms(1) d]
  let ?r = "hex_record t a d"
  show "string_to_hex (hex_line ?r @ rest) (length (hex_line ?r)) buff = Some (6 + length d, COLON # ?r @ drop (length ?r + 1) buff)"
    using line_to_bytes [of ?r buff rest] assms r(3) by simp
  show "intel_hex_process (COLON # ?r @ drop (length ?r + 1) buff) (6 + length d) hex_data
      = Some (Ref (decoded_record t a d hex_data), d @ drop (length d) hex_data)"
    using process_bytes [OF r(1) assms(1), where hex_data = hex_data and rest = "drop (length ?r + 1) buff"] r(2-4) assms
    by (simp add: Let_def decoded_record_def)
  show "length (COLON # ?r @ drop (length ?r + 1) buff) = 50" using r(3) [of t] assms(2,4) by simp
qed

lemma changed_sum:
  assumes "k < length r" "x \<noteq> r ! k"
  shows "sum_list (r[k := x]) \<noteq> (sum_list r :: u8)"
proof -
  have "sum_list r = sum_list (take k r) + (r ! k + sum_list (drop (Suc k) r))"
    using assms(1) by (metis id_take_nth_drop sum_list.Cons sum_list.append)
  moreover have "sum_list (r[k := x]) = sum_list (take k r) + (x + sum_list (drop (Suc k) r))"
    using assms(1) by (simp add: upd_conv_take_nth_drop)
  ultimately show ?thesis using assms(2) by simp
qed

lemma record_parts:
  assumes "length l = m + 4"
  shows "\<exists>a t d c. l = a @ t # d @ [c] \<and> length a = 2 \<and> length d = m"
proof -
  obtain x y t k where l: "l = x # y # t # k" "length k = Suc m"
    using assms by (auto simp: eval_nat_numeral length_Suc_conv)
  then obtain d c where "k = d @ [c]" by (metis Zero_not_Suc list.size(3) rev_exhaust)
  with l show ?thesis by (intro exI [of _ "[x, y]"] exI [of _ t] exI [of _ d] exI [of _ c]) simp
qed

text \<open>C16: A record survives its way through a line of text, and a damaged byte is noticed. For a record of at
  most 32 data bytes, written as an Intel HEX line, followed by anything, the conversion and the decoding
  give the byte count, address, type and data of the record and the data again in the static array; if
  one byte of the record other than the byte count is another one, the decoding returns \<open>NULL\<close>.\<close>

theorem hex_record_roundtrip:
  assumes "length a = 2" and "length d \<le> 32" and "length hex_data = 32" and "length buff = 50" and "rest \<noteq> []"
    and "length rest \<le> 1000" and "n = 6 + length d" and "len = length (hex_line (hex_record t a d))"
  shows "\<exists>b. string_to_hex (hex_line (hex_record t a d) @ rest) len buff = Some (n, b)
     \<and> intel_hex_process b n hex_data = Some (Ref (decoded_record t a d hex_data), d @ drop (length d) hex_data)
     \<and> (\<forall>k x. 1 < k \<longrightarrow> k < n \<longrightarrow> x \<noteq> b ! k \<longrightarrow> (\<exists>m. intel_hex_process (b[k := x]) n hex_data = Some (NULL, m)))"
proof -
  let ?r = "hex_record t a d"
  have d: "length d < 256" using assms(2) by simp
  note r = hex_record_shape [OF assms(1) d]
  let ?b = "COLON # ?r @ drop (length ?r + 1) buff"
  have s: "string_to_hex (hex_line ?r @ rest) len buff = Some (n, ?b)"
    "intel_hex_process ?b n hex_data = Some (Ref (decoded_record t a d hex_data), d @ drop (length d) hex_data)"
    using decode_record [OF assms(1-6), of t] assms(7,8) by simp_all
  have e: "\<exists>m. intel_hex_process (?b[k := x]) n hex_data = Some (NULL, m)" if k: "1 < k" "k < n" "x \<noteq> ?b ! k" for k x
  proof -
    define j where "j = k - 2"
    have j: "k = Suc (Suc j)" "j < length d + 4" using k assms(7) by (simp_all add: j_def)
    let ?q = "?r[Suc j := x]"
    let ?ck = "sum_check (of_nat (length d) # a @ t # d)"
    have q: "?q = of_nat (length d) # (a @ t # d @ [?ck])[j := x]" by (simp add: r(1))
    obtain a' t' d' c' where q': "(a @ t # d @ [?ck])[j := x] = a' @ t' # d' @ [c']" "length a' = 2" "length d' = length d"
      using record_parts [of "(a @ t # d @ [?ck])[j := x]" "length d"] assms(1) by auto
    have "sum_list ?q \<noteq> 0" using changed_sum [of "Suc j" ?r x] r(3,4) j k(3) by (simp add: nth_append)
    moreover have "?b[k := x] = COLON # ?q @ drop (length ?r + 1) buff" using j r(3) by (simp add: list_update_append)
    moreover have "length ?q + 1 = n" using r(3) assms(7) by simp
    moreover have q2: "?q = of_nat (length d) # a' @ t' # d' @ [c']" "length d' = unat (of_nat (length d) :: u8)"
        "unat (of_nat (length d) :: u8) \<le> length hex_data"
      using q q' r(2) assms(2,3) by simp_all
    note process_bytes [OF q2(1) q'(2) q2(2,3), of "drop (length ?r + 1) buff"]
    ultimately show ?thesis by (simp only: Let_def if_False) blast
  qed
  show ?thesis using s e by blast
qed

theorem hex_record_roundtrip_witness:
  "\<exists>b. string_to_hex (hex_line (hex_record INTEL_HEX_Data [0x10, 0] [0xAB, 0x12]) @ [0x0A, 0]) 15 (replicate 50 0) = Some (8, b)
     \<and> intel_hex_process b 8 (replicate 32 0xFF) = Some (Ref (decoded_record INTEL_HEX_Data [0x10, 0] [0xAB, 0x12] (replicate 32 0xFF)),
          [0xAB, 0x12] @ replicate 30 0xFF)
     \<and> (\<exists>m. intel_hex_process (b[6 := b ! 6 + 1]) 8 (replicate 32 0xFF) = Some (NULL, m))"
proof -
  have "15 = length (hex_line (hex_record INTEL_HEX_Data [0x10, 0] [0xAB, 0x12]))"
    by (simp add: hex_line_def hex_record_def hex_text_def Let_def)
  from hex_record_roundtrip [of "[0x10, 0]" "[0xAB, 0x12]" "replicate 32 0xFF" "replicate 50 0" "[0x0A, 0]" 8, OF _ _ _ _ _ _ _ this]
  obtain b where b: "string_to_hex (hex_line (hex_record INTEL_HEX_Data [0x10, 0] [0xAB, 0x12]) @ [0x0A, 0]) 15 (replicate 50 0) = Some (8, b)"
    "intel_hex_process b 8 (replicate 32 0xFF) = Some (Ref (decoded_record INTEL_HEX_Data [0x10, 0] [0xAB, 0x12] (replicate 32 0xFF)),
          [0xAB, 0x12] @ replicate 30 0xFF)"
    "\<forall>k x. 1 < k \<longrightarrow> k < 8 \<longrightarrow> x \<noteq> b ! k \<longrightarrow> (\<exists>m. intel_hex_process (b[k := x]) 8 (replicate 32 0xFF) = Some (NULL, m))"
    by auto
  have "b ! 6 + 1 \<noteq> b ! 6" by simp
  with b(3) [rule_format, of 6 "b ! 6 + 1"]
  have "\<exists>m. intel_hex_process (b[6 := b ! 6 + 1]) 8 (replicate 32 0xFF) = Some (NULL, m)" by simp
  with b(1,2) show ?thesis by blast
qed

end
