(* ===== verification/Boot_Input_File.thy ===== *)
theory Boot_Input_File
  imports Intel_Hex Boot_Slave Crc
begin

section \<open>The boot input from an Intel HEX file\<close>

text \<open>
  Models \<^verbatim>\<open>common/upgrade/master/boot-impl/input/sm_file_boot_input.c\<close>: the boot input that reads an Intel
  HEX file, collects its data bytes into a binary file, reads that back into memory, and delivers it
  in segments of 1024 bytes. The static variables are the record \<open>file_input\<close>; \<open>fb_hex_data\<close> is the
  static array of the HEX decoder. \<open>hex_files\<close> holds what the operating system answers: the lines of
  the HEX file if it can be opened (each with its line end, as \<open>getline\<close> reads them), and whether the
  binary file can be written, read back, and held in memory.
\<close>

abbreviation SEG_LEN :: int where "SEG_LEN \<equiv> 1024"

record file_input =
  fb_sign :: fw_info
  fb_total_seg :: int
  fb_buffer :: "bytes ptr"
  fb_hex_data :: bytes

record hex_files =
  fl_hex :: "bytes list ptr"
  fl_bin_written :: bool
  fl_bin_read :: bool
  fl_alloc :: bool

subsection \<open>Reading the HEX file\<close>

text \<open>The line end is cut off; a line of a single character reads before its start.\<close>

definition line_cut :: "bytes \<Rightarrow> nat option" where
  "line_cut l =
     (let n = length l in
      if n < 2 then None
      else if drop (n - 2) l = [0x0D, 0x0A] then Some (n - 2)
      else if l ! (n - 1) = 0x0A then Some (n - 1)
      else Some n)"

text \<open>
  The effect of one record on the signature and on the binary file. \<open>Inl ()\<close> is the end record.
  The data of a record are those of the static array.
\<close>

definition file_record :: "intel_hex \<Rightarrow> fw_info \<Rightarrow> bytes \<Rightarrow> (fw_info \<times> bytes) option" where
  "file_record rec sign bin =
     (let at = be16 (ih_addr rec ! 0) (ih_addr rec ! 1);
          d = be16 (ih_data rec ! 0) (ih_data rec ! 1);
          base = (\<lambda>a. if fi_addr sign = 0 then sign\<lparr>fi_addr := a\<rparr> else sign) in
      if ih_record_type rec = INTEL_HEX_Extended_Linear_Address then
        Some (base (push_bit 16 (ucast d) + ucast at), bin)
      else if ih_record_type rec = INTEL_HEX_Extended_Segment_Address then
        Some (base (push_bit 4 (ucast d) + ucast at), bin)
      else if ih_record_type rec = INTEL_HEX_Data then do {
        out \<leftarrow> mem_read (ih_data rec) 0 (unat (ih_byte_count rec));
        Some (if fi_data_address_offset sign < 0 then sign\<lparr>fi_data_address_offset := uint at\<rparr> else sign, bin @ out) }
      else Some (sign, bin))"

text \<open>
  The loop over the lines. At the end of the file \<open>getline\<close> returns -1, which the loop takes for a
  length: it faults. \<open>buff\<close> is \<open>buff_hex\<close>.
\<close>

fun file_lines :: "bytes list \<Rightarrow> bytes \<Rightarrow> file_input \<Rightarrow> bytes \<Rightarrow> (int \<times> file_input \<times> bytes) option" where
  "file_lines [] buff g bin = None"
| "file_lines (l # ls) buff g bin = do {
     n \<leftarrow> line_cut l;
     (hex_length, buff) \<leftarrow> string_to_hex (l @ [0]) (n mod 2 ^ 16) buff;
     (p, m) \<leftarrow> intel_hex_process buff (hex_length mod 2 ^ 16) (fb_hex_data g);
     let g = g\<lparr>fb_hex_data := m\<rparr>;
     (case p of
        NULL \<Rightarrow> Some (-1, g, bin)
      | Ref rec \<Rightarrow>
          if ih_record_type rec = INTEL_HEX_EndFile then Some (0, g, bin)
          else do {
            (sign, bin) \<leftarrow> file_record rec (fb_sign g) bin;
            file_lines ls buff (g\<lparr>fb_sign := sign\<rparr>) bin }) }"

definition total_seg :: "int \<Rightarrow> int" where
  "total_seg file_size = (if file_size mod 1024 \<noteq> 0 then file_size div 1024 + 1 else file_size div 1024)"

definition sm_file_init :: "hex_files \<Rightarrow> bytes \<Rightarrow> file_input \<Rightarrow> (int \<times> file_input) option" where
  "sm_file_init fs buff g =
     (case fl_hex fs of
        NULL \<Rightarrow> Some (-1, g)
      | Ref ls \<Rightarrow>
          if \<not> fl_bin_written fs then Some (-1, g)
          else do {
            (r, g, bin) \<leftarrow> file_lines ls buff g [];
            if r < 0 then Some (-1, g)
            else if \<not> fl_bin_read fs then Some (-1, g)
            else if \<not> fl_alloc fs then None
            else do {
              crc \<leftarrow> sm_CRC_CalculateCRC16 (Ref bin) (of_nat (length bin));
              let sign = fb_sign g;
              Some (0, g\<lparr>fb_buffer := Ref bin,
                fb_sign := sign\<lparr>fi_is_valid := 0, fi_size := of_nat (length bin),
                   fi_addr := fi_addr sign + word_of_int (fi_data_address_offset sign), fi_crc := crc\<rparr>,
                fb_total_seg := total_seg (int (length bin))\<rparr>) } })"

subsection \<open>The other operations\<close>

definition sm_file_free :: "file_input \<Rightarrow> int \<times> file_input" where
  "sm_file_free g = (0, g\<lparr>fb_buffer := NULL,
     fb_sign := (fb_sign g)\<lparr>fi_size := 0, fi_addr := 0, fi_crc := 0, fi_is_valid := 0, fi_data_address_offset := -1\<rparr>\<rparr>)"

definition sm_file_get_fw_info :: "file_input \<Rightarrow> fw_info \<Rightarrow> int \<times> fw_info" where
  "sm_file_get_fw_info g fw = (1, fw_info_clone fw (fb_sign g))"

definition sm_file_get_total_seg :: "file_input \<Rightarrow> int" where
  "sm_file_get_total_seg g = fb_total_seg g"

text \<open>The size is unsigned, so a segment after the end has a length that wraps around.\<close>

definition sm_file_get_seg_fw :: "file_input \<Rightarrow> sm_segment \<Rightarrow> (int \<times> sm_segment) option" where
  "sm_file_get_seg_fw g seg =
     (case fb_buffer g of
        NULL \<Rightarrow> Some (-1, seg)
      | Ref buf \<Rightarrow>
          let i = sg_index seg; is_last = (fb_total_seg g - 1 \<le> i);
              len = (if is_last then sint (fi_size (fb_sign g) - word_of_int (i * 1024)) else SEG_LEN);
              seg = seg\<lparr>sg_is_last := if is_last then 1 else 0\<rparr> in
          if i < 0 \<or> len < 0 then None
          else do {
            d \<leftarrow> mem_read buf (nat (i * 1024)) (nat len);
            crc \<leftarrow> sm_CRC_CalculateCRC16 (Ref d) (word_of_int len);
            (_, p) \<leftarrow> sm_seg_fill_data (snd (sm_seg_set_info (Ref seg) i
                (sint (fi_addr (fb_sign g) + word_of_int (i * 1024))) len crc)) d len;
            seg \<leftarrow> to_ptr p;
            Some (1, seg) })"

text \<open>\<open>sm_get_file_boot_input\<close> keeps the path and returns the interface.\<close>

definition sm_get_file_boot_input :: "string ptr \<Rightarrow> string ptr \<Rightarrow> 'i \<Rightarrow> 'i ptr \<times> string ptr" where
  "sm_get_file_boot_input file_path old i = (case file_path of NULL \<Rightarrow> (NULL, old) | Ref p \<Rightarrow> (Ref i, Ref p))"

subsection \<open>The image of a file\<close>

text \<open>The segments that a firmware of bytes \<open>buf\<close> at address \<open>a\<close> is cut into.\<close>

definition file_image :: "u32 \<Rightarrow> bytes \<Rightarrow> (u32 \<times> bytes) list" where
  "file_image a buf = map (\<lambda>k. (a + of_nat (1024 * k), take 1024 (drop (1024 * k) buf))) [0..<(length buf + 1023) div 1024]"

text \<open>The input holds the firmware \<open>buf\<close> that is to go to address \<open>a\<close>.\<close>

definition holds_file :: "u32 \<Rightarrow> bytes \<Rightarrow> file_input \<Rightarrow> bool" where
  "holds_file a buf g \<longleftrightarrow> fb_buffer g = Ref buf \<and> fi_addr (fb_sign g) = a \<and> fi_size (fb_sign g) = of_nat (length buf)
     \<and> fi_crc (fb_sign g) = crc16 buf \<and> fb_total_seg g = total_seg (int (length buf))"

lemma segment_count:
  "length (buf :: bytes) \<le> 1024 * ((length buf + 1023) div 1024)" "1024 * ((length buf + 1023) div 1024) < length buf + 1024"
  using div_mult_mod_eq [of "length buf + 1023" 1024] mod_less_divisor [of 1024 "length buf + 1023"] by linarith+

lemma total_seg_eq: "total_seg (int n) = int ((n + 1023) div 1024)"
proof -
  have n: "n div 1024 * 1024 + n mod 1024 = n" "n mod 1024 < 1024" by simp_all
  have "(n + 1023) div 1024 = (if n mod 1024 = 0 then n div 1024 else n div 1024 + 1)"
  proof (cases "n mod 1024 = 0")
    case True
    have "n + 1023 = 1023 + 1024 * (n div 1024)" using n True by simp
    then have "(n + 1023) div 1024 = (1023 + 1024 * (n div 1024)) div 1024" by (rule arg_cong)
    then have "(n + 1023) div 1024 = n div 1024" by simp
    with True show ?thesis by simp
  next
    case False
    then have "0 < n mod 1024" by blast
    with n have "1024 * (n div 1024 + 1) \<le> n + 1023" "n + 1023 < 1024 * Suc (n div 1024 + 1)"
      unfolding mult_Suc_right distrib_left by linarith+
    then have "(n + 1023) div 1024 = n div 1024 + 1" by (rule div_nat_eqI)
    with False show ?thesis by simp
  qed
  moreover have "int n mod 1024 = int (n mod 1024)" "int n div 1024 = int (n div 1024)"
    by (simp_all add: zmod_int zdiv_int)
  ultimately show ?thesis by (simp add: total_seg_def)
qed

lemma length_file_image: "length (file_image a buf) = (length buf + 1023) div 1024"
  by (simp add: file_image_def)

lemma nth_file_image:
  "k < length (file_image a buf) \<Longrightarrow> file_image a buf ! k = (a + of_nat (1024 * k), take 1024 (drop (1024 * k) buf))"
  by (simp add: file_image_def)

lemma file_image_in:
  assumes "k < length (file_image a buf)"
  shows "1024 * k < length buf" "Suc k = length (file_image a buf) \<longleftrightarrow> length buf \<le> 1024 * Suc k"
  using assms segment_count [of buf] by (auto simp: length_file_image)

lemma concat_pieces:
  "concat (map (\<lambda>k. take 1024 (drop (1024 * k) buf)) [0..<n]) = take (1024 * n) buf" for buf :: bytes
proof (induction n)
  case (Suc n)
  have "take (1024 * Suc n) buf = take (1024 * n) buf @ take 1024 (drop (1024 * n) buf)"
    using take_add [of "1024 * n" 1024 buf] by (simp add: add.commute)
  with Suc show ?case by simp
qed simp

lemma crc_all: "length d \<le> 1024 \<Longrightarrow> sm_CRC_CalculateCRC16 (Ref d) (of_nat (length d)) = Some (crc16 d)"
  by (simp add: sm_crc16_eq unat_of_nat_u32)

text \<open>The input delivers a segment.\<close>

lemma segment_delivered:
  assumes "holds_file a buf g" and "length buf < 2 ^ 31" and "k < length (file_image a buf)"
    and "sg_index seg = int k" and "length (sg_data seg) = SM_SEGMENT_FW_SIZE"
  shows "\<exists>s. sm_file_get_seg_fw g seg = Some (1, s) \<and> seg_holds s (snd (file_image a buf ! k))
     \<and> seg_info s = (int k, sint (fst (file_image a buf ! k)), int (length (snd (file_image a buf ! k))),
          crc16 (snd (file_image a buf ! k)), if Suc k = length (file_image a buf) then 1 else 0)"
proof -
  define d where "d = take 1024 (drop (1024 * k) buf)"
  let ?last = "Suc k = length (file_image a buf)"
  note k = file_image_in [OF assms(3)]
  have img: "file_image a buf ! k = (a + of_nat (1024 * k), d)" unfolding d_def by (rule nth_file_image [OF assms(3)])
  have len: "length d = (if ?last then length buf - 1024 * k else 1024)" using k by (auto simp: d_def)
  have fits: "length d \<le> 1024" by (simp add: d_def)
  have g: "fb_buffer g = Ref buf" "fi_addr (fb_sign g) = a" "fi_size (fb_sign g) = of_nat (length buf)"
      "fb_total_seg g = int (length (file_image a buf))"
    using assms(1) by (simp_all add: holds_file_def total_seg_eq length_file_image)
  have is_last: "fb_total_seg g - 1 \<le> sg_index seg \<longleftrightarrow> ?last" using assms(3,4) g(4) by auto
  have n: "(if ?last then sint (fi_size (fb_sign g) - word_of_int (int k * 1024)) else SEG_LEN) = int (length d)"
  proof (cases ?last)
    case True
    have "of_nat (length buf) - word_of_int (int k * 1024) = (of_nat (length d) :: u32)"
      using True len k(1) by (simp add: of_nat_diff mult.commute)
    with True g(3) len assms(2) show ?thesis
      by (simp add: sint_u32_small unat_of_nat_u32)
  qed (simp add: len)
  let ?at = "sint (a + word_of_int (int k * 1024))"
  let ?s = "seg\<lparr>sg_is_last := if ?last then 1 else 0, sg_index := int k, sg_addr := ?at, sg_crc := crc16 d,
        sg_size := int (length d), sg_length := 0\<rparr>"
  have "seg_holds ?s []" using assms(5) by (intro seg_holds_Nil) simp_all
  from seg_fill_holds [OF this, of d] fits
  obtain s where s: "sm_seg_fill_data (Ref ?s) d (int (length d)) = Some (int (length d), Ref s)" "seg_holds s d" "seg_info s = seg_info ?s"
    by auto
  have off: "nat (int k * 1024) + length d \<le> length buf" "take (length d) (drop (nat (int k * 1024)) buf) = d"
    using k len by (auto simp: d_def nat_mult_distrib mult.commute)
  have "sm_file_get_seg_fw g seg = Some (1, s)"
    using s(1) off g(1,2)
    by (simp add: sm_file_get_seg_fw_def assms(4) is_last [unfolded assms(4)] n Let_def mem_simps crc_all fits
        sm_seg_set_info_def seg_set_def to_ptr_def)
  moreover have "seg_info s = (int k, ?at, int (length d), crc16 d, if ?last then 1 else 0)" using s(3) by (simp add: seg_info_def)
  ultimately show ?thesis
    using img s(2) by (simp add: mult.commute)
qed

lemma image_shape:
  "concat (map snd (file_image a buf)) = buf"
  "k < length (file_image a buf) \<Longrightarrow>
     length (snd (file_image a buf ! k)) = (if Suc k = length (file_image a buf) then length buf - 1024 * k else 1024)"
proof -
  have "concat (map snd (file_image a buf)) = take (1024 * ((length buf + 1023) div 1024)) buf"
    by (simp add: file_image_def comp_def concat_pieces)
  also have "\<dots> = buf" using segment_count(1) by (rule take_all)
  finally show "concat (map snd (file_image a buf)) = buf" .
  assume "k < length (file_image a buf)"
  with nth_file_image [OF this] file_image_in [OF this]
  show "length (snd (file_image a buf ! k)) = (if Suc k = length (file_image a buf) then length buf - 1024 * k else 1024)"
    by auto
qed

subsection \<open>The text of a firmware\<close>

text \<open>A HEX file: the upper half of the address, records with data, and the end record.\<close>

definition hex_file :: "bytes \<Rightarrow> u16 \<Rightarrow> (u16 \<times> bytes) list \<Rightarrow> bytes list" where
  "hex_file nl base recs = map (\<lambda>r. hex_line r @ nl)
     (hex_record INTEL_HEX_Extended_Linear_Address [0, 0] [byte_hi base, byte_lo base]
      # map (\<lambda>(a, d). hex_record INTEL_HEX_Data [byte_hi a, byte_lo a] d) recs @ [hex_record INTEL_HEX_EndFile [0, 0] []])"

abbreviation line_end :: "bytes \<Rightarrow> bool" where
  "line_end nl \<equiv> nl = [0x0A] \<or> nl = [0x0D, 0x0A]"

lemma digit_no_return: "n < 16 \<Longrightarrow> hex_digit n \<noteq> 0x0D"
proof
  assume "n < 16" "hex_digit n = 0x0D"
  then have "byte_to_hex 0x0D = n" using digit_value(1) [of n] by simp
  moreover have "byte_to_hex 0x0D = 0x0D" "hex_digit 0x0D = 0x44" by code_simp+
  ultimately show False using \<open>hex_digit n = 0x0D\<close> by simp
qed

lemma line_cut_text:
  assumes "line_end nl"
  shows "line_cut (hex_line r @ nl) = Some (length (hex_line r))"
proof -
  have "last (hex_line r) \<noteq> 0x0D"
  proof (cases r rule: rev_cases)
    case (snoc r' b)
    then show ?thesis using digit_no_return [OF nibbles_less(2), of b] by (simp add: hex_line_def hex_text_def)
  qed (simp add: hex_line_def)
  moreover obtain xs x where "hex_line r = xs @ [x]" by (metis hex_line_def list.discI rev_exhaust)
  ultimately show ?thesis using assms by (auto simp: line_cut_def Let_def nth_append)
qed

text \<open>One line, and the data records of a file.\<close>

lemma length_hex_line: "length (hex_line r) = 2 * length r + 1"
  by (induction r) (simp_all add: hex_line_def hex_text_def)

lemma file_line:
  assumes "line_end nl" "length a = 2" "length d \<le> 32" "length (fb_hex_data g) = 32" "length buff = 50"
  obtains b where "length b = 50" "file_lines ((hex_line (hex_record t a d) @ nl) # ls) buff g bin =
     (let m = d @ drop (length d) (fb_hex_data g); g = g\<lparr>fb_hex_data := m\<rparr> in
      if t = INTEL_HEX_EndFile then Some (0, g, bin)
      else do { (sign, bin) \<leftarrow> file_record (decoded_record t a d (fb_hex_data g)) (fb_sign g) bin;
                file_lines ls b (g\<lparr>fb_sign := sign\<rparr>) bin })"
proof -
  let ?r = "hex_record t a d"
  let ?b = "COLON # ?r @ drop (length ?r + 1) buff"
  have len: "length ?r = length d + 5" using hex_record_shape(3) [OF assms(2), of d] assms(3) by simp
  have rest: "nl @ [0] \<noteq> []" "length (nl @ [0]) \<le> 1000" using assms(1) by auto
  note b = decode_record [OF assms(2-5) rest, of t]
  have "length (hex_line ?r) mod 2 ^ 16 = length (hex_line ?r)" "(6 + length d) mod 2 ^ 16 = 6 + length d"
    using assms(3) len by (simp_all add: length_hex_line)
  then have "file_lines ((hex_line ?r @ nl) # ls) buff g bin =
     (let m = d @ drop (length d) (fb_hex_data g); g = g\<lparr>fb_hex_data := m\<rparr> in
      if t = INTEL_HEX_EndFile then Some (0, g, bin)
      else do { (sign, bin) \<leftarrow> file_record (decoded_record t a d (fb_hex_data g)) (fb_sign g) bin;
                file_lines ls ?b (g\<lparr>fb_sign := sign\<rparr>) bin })"
    using b(1,2) by (simp add: line_cut_text [OF assms(1)] Let_def) (simp add: decoded_record_def)
  with b(3) show ?thesis by (rule that)
qed

lemma file_line_record:
  assumes "line_end nl" "length a = 2" "length d \<le> 32" "length (fb_hex_data g) = 32" "length buff = 50"
    and "m = d @ drop (length d) (fb_hex_data g)" "t \<noteq> INTEL_HEX_EndFile"
    and "file_record (decoded_record t a d m) (fb_sign g) bin = Some (sign, bin')"
  shows "\<exists>b. length b = 50 \<and> file_lines ((hex_line (hex_record t a d) @ nl) # ls) buff g bin
      = file_lines ls b (g\<lparr>fb_hex_data := m, fb_sign := sign\<rparr>) bin'"
proof -
  obtain b where "length b = 50" "file_lines ((hex_line (hex_record t a d) @ nl) # ls) buff g bin =
     (let m = d @ drop (length d) (fb_hex_data g); g = g\<lparr>fb_hex_data := m\<rparr> in
      if t = INTEL_HEX_EndFile then Some (0, g, bin)
      else do { (sign, bin) \<leftarrow> file_record (decoded_record t a d (fb_hex_data g)) (fb_sign g) bin;
                file_lines ls b (g\<lparr>fb_sign := sign\<rparr>) bin })"
    by (rule file_line [OF assms(1-5)])
  with assms(6-8) show ?thesis by (intro exI [of _ b]) (simp add: Let_def del: file_lines.simps)
qed

lemma file_line_end:
  assumes "line_end nl" "length a = 2" "length (fb_hex_data g) = 32" "length buff = 50"
  shows "file_lines ((hex_line (hex_record INTEL_HEX_EndFile a []) @ nl) # ls) buff g bin = Some (0, g, bin)"
proof -
  have "length ([] :: bytes) \<le> 32" by simp
  from assms(1,2) this assms(3,4) obtain b where "file_lines ((hex_line (hex_record INTEL_HEX_EndFile a []) @ nl) # ls) buff g bin =
     (let m = [] @ drop (length ([] :: bytes)) (fb_hex_data g); g = g\<lparr>fb_hex_data := m\<rparr> in
      if INTEL_HEX_EndFile = INTEL_HEX_EndFile then Some (0, g, bin)
      else do { (sign, bin) \<leftarrow> file_record (decoded_record INTEL_HEX_EndFile a [] (fb_hex_data g)) (fb_sign g) bin;
                file_lines ls b (g\<lparr>fb_sign := sign\<rparr>) bin })"
    by (rule file_line)
  then show ?thesis by (simp del: file_lines.simps)
qed

lemma data_record:
  assumes "length d \<le> 32" "length m = 32"
  shows "file_record (decoded_record INTEL_HEX_Data [byte_hi x, byte_lo x] d m) sign bin
     = Some (if fi_data_address_offset sign < 0 then sign\<lparr>fi_data_address_offset := uint x\<rparr> else sign, bin @ d)"
proof -
  have "unat (of_nat (length d) :: u8) = length d" using assms(1) by (simp add: unsigned_of_nat take_bit_nat_eq_self)
  then show ?thesis
    using assms by (simp add: file_record_def decoded_record_def Let_def mem_simps be16_split)
qed

lemma data_lines:
  assumes "line_end nl" "\<forall>(x, d)\<in>set recs. length d \<le> 32" "length (fb_hex_data g) = 32" "length buff = 50"
    and "0 \<le> fi_data_address_offset (fb_sign g)"
  shows "\<exists>b m. length b = 50 \<and> length m = 32
     \<and> file_lines (map (\<lambda>(x, d). hex_line (hex_record INTEL_HEX_Data [byte_hi x, byte_lo x] d) @ nl) recs @ ls) buff g bin
       = file_lines ls b (g\<lparr>fb_hex_data := m\<rparr>) (bin @ concat (map snd recs))"
  using assms
proof (induction recs arbitrary: buff g bin)
  case Nil
  then show ?case by (intro exI [of _ buff] exI [of _ "fb_hex_data g"]) simp
next
  case (Cons xd recs)
  obtain x d where xd: "xd = (x, d)" by fastforce
  let ?m = "d @ drop (length d) (fb_hex_data g)"
  have d: "length d \<le> 32" using Cons.prems(2) xd by simp
  let ?ls = "map (\<lambda>(x, d). hex_line (hex_record INTEL_HEX_Data [byte_hi x, byte_lo x] d) @ nl) recs @ ls"
  have m: "length ?m = 32" "length [byte_hi x, byte_lo x] = 2" "INTEL_HEX_Data \<noteq> INTEL_HEX_EndFile"
    using d Cons.prems(3) by simp_all
  have "file_record (decoded_record INTEL_HEX_Data [byte_hi x, byte_lo x] d ?m) (fb_sign g) bin = Some (fb_sign g, bin @ d)"
    using data_record [OF d m(1)] Cons.prems(5) by simp
  from file_line_record [OF Cons.prems(1) m(2) d Cons.prems(3,4) refl m(3) this, of ?ls]
  obtain b where b: "length b = 50" and b2: "file_lines ((hex_line (hex_record INTEL_HEX_Data [byte_hi x, byte_lo x] d) @ nl) # ?ls) buff g bin
      = file_lines ?ls b (g\<lparr>fb_hex_data := ?m, fb_sign := fb_sign g\<rparr>) (bin @ d)"
    by blast
  have p: "\<forall>(x, d)\<in>set recs. length d \<le> 32" "length (fb_hex_data (g\<lparr>fb_hex_data := ?m\<rparr>)) = 32"
      "0 \<le> fi_data_address_offset (fb_sign (g\<lparr>fb_hex_data := ?m\<rparr>))"
    using Cons.prems(2,3,5) d by simp_all
  from Cons.IH [OF Cons.prems(1) p(1,2) b p(3), of "bin @ d"] obtain b' m where
    "length b' = 50" "length m = 32" "file_lines ?ls b (g\<lparr>fb_hex_data := ?m\<rparr>) (bin @ d)
       = file_lines ls b' (g\<lparr>fb_hex_data := ?m, fb_hex_data := m\<rparr>) ((bin @ d) @ concat (map snd recs))"
    by blast
  with b2 xd show ?case by (intro exI [of _ b'] exI [of _ m]) simp
qed

lemma address_record:
  assumes "length m = 32"
  shows "file_record (decoded_record INTEL_HEX_Extended_Linear_Address [0, 0] [byte_hi x, byte_lo x] m) sign bin
     = Some (if fi_addr sign = 0 then sign\<lparr>fi_addr := push_bit 16 (ucast x)\<rparr> else sign, bin)"
  using assms be16_split [of x] by (simp add: file_record_def decoded_record_def Let_def be16_def)

text \<open>The loop over a whole file, for a decoder and a signature as \<open>sm_file_free\<close> leaves them.\<close>

lemma whole_file:
  assumes nl: "line_end nl" and recs: "\<forall>(x, d)\<in>set ((x, d) # recs). length d \<le> 32"
    and g: "length (fb_hex_data g) = 32" "fi_addr (fb_sign g) = 0" "fi_data_address_offset (fb_sign g) = -1"
    and buff: "length buff = 50"
  obtains m where "length m = 32" "file_lines (hex_file nl base ((x, d) # recs)) buff g []
     = Some (0, g\<lparr>fb_hex_data := m, fb_sign := (fb_sign g)\<lparr>fi_addr := push_bit 16 (ucast base),
          fi_data_address_offset := uint x\<rparr>\<rparr>, concat (map snd ((x, d) # recs)))"
proof -
  let ?data = "\<lambda>(x, d). hex_line (hex_record INTEL_HEX_Data [byte_hi x, byte_lo x] d) @ nl"
  let ?stop = "hex_line (hex_record INTEL_HEX_EndFile [0, 0] []) @ nl"
  let ?rest = "map ?data recs @ [?stop]"
  let ?g1 = "g\<lparr>fb_hex_data := [byte_hi base, byte_lo base] @ drop 2 (fb_hex_data g), fb_sign := (fb_sign g)\<lparr>fi_addr := push_bit 16 (ucast base)\<rparr>\<rparr>"
  have small: "length [0 :: u8, 0] = 2" "length [byte_hi base, byte_lo base] \<le> 32" "length d \<le> 32" "length ([] :: bytes) \<le> 32"
    "length [byte_hi x, byte_lo x] = 2"
    using recs by simp_all
  have whole: "hex_file nl base ((x, d) # recs)
      = (hex_line (hex_record INTEL_HEX_Extended_Linear_Address [0, 0] [byte_hi base, byte_lo base]) @ nl) # ?data (x, d) # ?rest"
    by (simp add: hex_file_def case_prod_beta' comp_def)
  have ga: "length [0 :: u8, 0] = 2" "length (fb_hex_data ?g1) = 32" using g(1) by simp_all
  have "file_record (decoded_record INTEL_HEX_Extended_Linear_Address [0, 0] [byte_hi base, byte_lo base]
      ([byte_hi base, byte_lo base] @ drop 2 (fb_hex_data g))) (fb_sign g) []
    = Some ((fb_sign g)\<lparr>fi_addr := push_bit 16 (ucast base)\<rparr>, [])"
    using ga(2) g(2) by (simp add: address_record)
  moreover have m1: "[byte_hi base, byte_lo base] @ drop 2 (fb_hex_data g)
      = [byte_hi base, byte_lo base] @ drop (length [byte_hi base, byte_lo base]) (fb_hex_data g)"
    by (simp add: numeral_2_eq_2)
  moreover have t: "INTEL_HEX_Extended_Linear_Address \<noteq> INTEL_HEX_EndFile" "INTEL_HEX_Data \<noteq> INTEL_HEX_EndFile" by simp_all
  ultimately obtain b1 where b1: "length b1 = 50" "file_lines (hex_file nl base ((x, d) # recs)) buff g [] = file_lines (?data (x, d) # ?rest) b1 ?g1 []"
    using file_line_record [OF nl small(1,2) g(1) buff m1 t(1)] unfolding whole by blast
  let ?m2 = "d @ drop (length d) (fb_hex_data ?g1)"
  let ?s2 = "(fb_sign ?g1)\<lparr>fi_data_address_offset := uint x\<rparr>"
  let ?g2 = "?g1\<lparr>fb_hex_data := ?m2, fb_sign := ?s2\<rparr>"
  have m2: "length ?m2 = 32" using ga(2) small(3) by simp
  have "file_record (decoded_record INTEL_HEX_Data [byte_hi x, byte_lo x] d ?m2) (fb_sign ?g1) [] = Some (?s2, d)"
    using data_record [OF small(3) m2] g(3) by simp
  from file_line_record [OF nl small(5,3) ga(2) b1(1) refl t(2) this, of ?rest]
  obtain b2 where b2: "length b2 = 50" "file_lines (?data (x, d) # ?rest) b1 ?g1 [] = file_lines ?rest b2 ?g2 d"
    unfolding prod.case by blast
  have p: "\<forall>(x, d)\<in>set recs. length d \<le> 32" "length (fb_hex_data ?g2) = 32" "0 \<le> fi_data_address_offset (fb_sign ?g2)"
    using recs m2 by simp_all
  obtain b3 m where b3: "length b3 = 50" "length m = 32"
    "file_lines ?rest b2 ?g2 d = file_lines [?stop] b3 (?g2\<lparr>fb_hex_data := m\<rparr>) (d @ concat (map snd recs))"
    using data_lines [OF nl p(1,2) b2(1) p(3)] by blast
  have gm: "length (fb_hex_data (?g2\<lparr>fb_hex_data := m\<rparr>)) = 32" using b3(2) by simp
  have "file_lines [?stop] b3 (?g2\<lparr>fb_hex_data := m\<rparr>) (d @ concat (map snd recs))
      = Some (0, ?g2\<lparr>fb_hex_data := m\<rparr>, d @ concat (map snd recs))"
    by (rule file_line_end [OF nl small(1) gm b3(1)])
  with b1(2) b2(2) b3(3) show ?thesis using that [OF b3(2)] by (simp del: file_lines.simps)
qed

lemma file_loaded:
  assumes "line_end nl" "\<forall>(x, d)\<in>set ((x, d) # recs). length d \<le> 32" "length (fb_hex_data g) = 32"
    and "fi_addr (fb_sign g) = 0" "fi_data_address_offset (fb_sign g) = -1" "length buff = 50"
    and "buf = concat (map snd ((x, d) # recs))" "length buf < 2 ^ 31"
  shows "\<exists>g'. sm_file_init \<lparr>fl_hex = Ref (hex_file nl base ((x, d) # recs)), fl_bin_written = True, fl_bin_read = True,
        fl_alloc = True\<rparr> buff g = Some (0, g')
     \<and> holds_file (push_bit 16 (ucast base) + ucast x) buf g' \<and> fi_version (fb_sign g') = fi_version (fb_sign g)"
proof -
  obtain m where m: "length m = 32" "file_lines (hex_file nl base ((x, d) # recs)) buff g []
     = Some (0, g\<lparr>fb_hex_data := m, fb_sign := (fb_sign g)\<lparr>fi_addr := push_bit 16 (ucast base),
          fi_data_address_offset := uint x\<rparr>\<rparr>, buf)"
    unfolding assms(7) by (rule whole_file [OF assms(1-6)])
  have crc: "sm_CRC_CalculateCRC16 (Ref buf) (of_nat (length buf)) = Some (crc16 buf)"
    using assms(8) by (simp add: sm_crc16_eq unat_of_nat_u32)
  show ?thesis
    by (simp add: sm_file_init_def m(2) crc holds_file_def Let_def)
qed

subsection \<open>Properties\<close>

text \<open>C9: A HEX file is read back exactly. For every firmware written as an Intel HEX file (either line end, the
  upper half of the address in the first record, then records of at most 32 data bytes, then the end
  record), \<open>sm_file_init\<close> on a fresh input returns 0 and the input then holds the firmware: the bytes of the
  records in their order, the address of the first byte, the number of bytes and their CRC, and the
  number of segments. \<open>sm_file_free\<close> makes the input fresh again.\<close>

theorem hex_file_read_back:
  assumes "line_end nl" and "\<forall>(x, d)\<in>set ((x, d) # recs). length d \<le> 32" and "length (fb_hex_data g) = 32"
    and "fi_addr (fb_sign g) = 0" and "fi_data_address_offset (fb_sign g) = -1" and "length buff = 50"
    and "buf = concat (map snd ((x, d) # recs))" and "length buf < 2 ^ 31"
  shows "\<exists>g'. sm_file_init \<lparr>fl_hex = Ref (hex_file nl base ((x, d) # recs)), fl_bin_written = True, fl_bin_read = True,
        fl_alloc = True\<rparr> buff g = Some (0, g')
     \<and> holds_file (push_bit 16 (ucast base) + ucast x) buf g'
     \<and> sm_file_get_fw_info g' fw = (1, fw_info_clone fw (fb_sign g'))
     \<and> fi_addr (fb_sign (snd (sm_file_free g'))) = 0 \<and> fi_data_address_offset (fb_sign (snd (sm_file_free g'))) = -1
     \<and> fb_buffer (snd (sm_file_free g')) = NULL"
  using file_loaded [OF assms] by (auto simp: sm_file_get_fw_info_def sm_file_free_def)

definition fresh_input :: file_input where
  "fresh_input = \<lparr>fb_sign = \<lparr>fi_version = [1, 0, 2], fi_addr = 0, fi_size = 0, fi_crc = 0, fi_data_address_offset = -1,
     fi_is_valid = 0\<rparr>, fb_total_seg = 0, fb_buffer = NULL, fb_hex_data = replicate 32 0\<rparr>"

theorem hex_file_read_back_witness:
  "\<exists>g'. sm_file_init \<lparr>fl_hex = Ref (hex_file [0x0A] 0x0800 [(0x4000, [1, 2, 3]), (0x4003, [4])]), fl_bin_written = True,
        fl_bin_read = True, fl_alloc = True\<rparr> (replicate 50 0) fresh_input = Some (0, g')
     \<and> holds_file 0x08004000 [1, 2, 3, 4] g'"
  using hex_file_read_back [where nl = "[0x0A]" and x = "0x4000" and d = "[1, 2, 3]" and recs = "[(0x4003, [4])]" and g = fresh_input
      and buff = "replicate 50 0" and buf = "[1, 2, 3, 4]" and base = "0x0800"]
  by (auto simp: fresh_input_def)

text \<open>C10: A firmware is cut without a gap: the segments of the file input, put together, are the firmware,
  each begins where the one before ends, and each but the last has 1024 bytes. The input delivers them:
  asked for segment \<open>k\<close>, it returns 1 and the segment object has the index, address, data, size and CRC of
  the segment, and the mark of the last segment exactly for the last one.\<close>

theorem file_segments:
  assumes "holds_file a buf g" and "length buf < 2 ^ 31" and "k < length (file_image a buf)"
    and "sg_index seg = int k" and "length (sg_data seg) = SM_SEGMENT_FW_SIZE"
  shows "concat (map snd (file_image a buf)) = buf
     \<and> fst (file_image a buf ! k) = a + of_nat (1024 * k)
     \<and> length (snd (file_image a buf ! k)) = (if Suc k = length (file_image a buf) then length buf - 1024 * k else 1024)
     \<and> (\<exists>s. sm_file_get_seg_fw g seg = Some (1, s) \<and> seg_holds s (snd (file_image a buf ! k))
          \<and> seg_info s = (int k, sint (fst (file_image a buf ! k)), int (length (snd (file_image a buf ! k))),
               crc16 (snd (file_image a buf ! k)), if Suc k = length (file_image a buf) then 1 else 0))"
  using segment_delivered [OF assms] image_shape(1) [of a buf] image_shape(2) [OF assms(3)] nth_file_image [OF assms(3)]
  by simp

theorem file_segments_witness:
  "\<exists>s. sm_file_get_seg_fw (fresh_input\<lparr>fb_buffer := Ref [7, 8], fb_sign := (fb_sign fresh_input)\<lparr>fi_addr := 0x4000, fi_size := 2,
        fi_crc := crc16 [7, 8]\<rparr>, fb_total_seg := 1\<rparr>) blank_segment = Some (1, s)
     \<and> seg_holds s [7, 8] \<and> seg_info s = (0, 0x4000, 2, crc16 [7, 8], 1)"
  using file_segments [where a = "0x4000" and buf = "[7, 8]" and k = 0 and seg = blank_segment and g = "fresh_input\<lparr>fb_buffer := Ref [7, 8],
        fb_sign := (fb_sign fresh_input)\<lparr>fi_addr := 0x4000, fi_size := 2, fi_crc := crc16 [7, 8]\<rparr>, fb_total_seg := 1\<rparr>"]
  by (simp add: holds_file_def total_seg_def file_image_def blank_segment_def sm_seg_create_def)

end
