(* ===== verification/Boot_Device.thy ===== *)
theory Boot_Device
  imports Boot_Transfer
begin

section \<open>A device that is upgraded over the host protocol\<close>

text \<open>
  The loader side of an upgrade put together from its parts: the host object of
  \<^verbatim>\<open>libs/host/sm_host.c\<close> takes the bytes of a frame and calls the command handler of
  \<^verbatim>\<open>boot_interface/sm_boot_host.c\<close>, which raises the events of \<^verbatim>\<open>boot_core/sm_bootloader.c\<close> and sends its
  response as a frame. \<open>device_reply\<close> is the answer of the whole device to a command. It satisfies the
  contract \<^term>\<open>upgrade_device\<close> when its environment keeps the laws of \<open>loader_device\<close>: what a flash, a
  clock and a serial line do.
\<close>

record 'w loader_dev =
  dv_if :: "(sm_bootloader \<times> 'w) sm_boot_host"
  dv_loader :: sm_bootloader
  dv_world :: 'w

type_synonym 'w device = "'w loader_dev option sm_host \<times> 'w loader_dev"

subsection \<open>The parts joined\<close>

text \<open>The response goes out through the send callback of the host, which puts the frame on the line.\<close>

definition line_host :: "(bytes \<Rightarrow> 'w \<Rightarrow> 'w) \<Rightarrow> u8 \<Rightarrow> 'w sm_host" where
  "line_host put addr = \<lparr>h_mode = SM_HOST_ASYNC_MODE, h_addr = addr, h_buffer = replicate SM_HOST_MAX_BUFFER 0,
     h_buffer_index = 0, h_process_index = 0, h_packet = replicate SM_HOST_MAX_BUFFER 0, h_packet_index = 0,
     h_send_if = Ref (\<lambda>F _ _ w. (int (length F), put F w)), h_recv_if = NULL, h_arg_if = 0,
     h_cmd_callback = NULL, h_cmd_arg = 0\<rparr>"

definition respond_line :: "(bytes \<Rightarrow> 'w \<Rightarrow> 'w) \<Rightarrow> u8 \<Rightarrow> int \<Rightarrow> int \<Rightarrow> bytes \<Rightarrow> 'w \<Rightarrow> 'w" where
  "respond_line put addr cmd ret d w =
     (case sm_host_send_response (Ref (line_host put addr)) cmd ret d (int (length d)) w of
        None \<Rightarrow> w | Some (_, w) \<Rightarrow> w)"

lemma respond_line_eq:
  "length d \<le> 247 \<Longrightarrow> respond_line put addr cmd ret d w = put (host_frame crc16 addr cmd (word_of_int ret # d)) w"
  by (simp add: respond_line_def line_host_def Let_def
      send_response_eq [where send = "\<lambda>F _ _ w. (int (length F), put F w)"])

definition loader_callback ::
  "(bytes \<Rightarrow> u32) \<Rightarrow> (bytes \<Rightarrow> u16) \<Rightarrow> crc_fun \<Rightarrow> (bytes \<Rightarrow> 'w \<Rightarrow> 'w) \<Rightarrow> u8
     \<Rightarrow> 'w loader_dev option sm_host_cmd_callback" where
  "loader_callback get32 get16 crc put addr cmd data arg st =
     (case Option.bind st (\<lambda>v. sm_boot_cmd_handle get32 get16 crc (on_world (respond_line put addr)) cmd data
             (int (length data)) (dv_if v) (dv_loader v, dv_world v)) of
        None \<Rightarrow> (-1, None)
      | Some (r, h, b, w) \<Rightarrow> (r, Some \<lparr>dv_if = h, dv_loader = b, dv_world = w\<rparr>))"

text \<open>The bytes of a frame arrive and are processed.\<close>

definition device_take :: "bytes \<Rightarrow> 'w device \<Rightarrow> 'w device option" where
  "device_take F f = do {
     (_, p) \<leftarrow> sm_host_asyn_feed F (int (length F)) (Ref (fst f));
     (_, p, st) \<leftarrow> process_times (length F) p (Some (snd f));
     rx \<leftarrow> to_ptr p;
     v \<leftarrow> st;
     Some (rx, v) }"

text \<open>The answer to a command: the data of the one frame that is then on the line.\<close>

definition frame_content :: "bytes \<Rightarrow> bytes" where
  "frame_content F = take (length F - 8) (drop 5 F)"

definition device_reply ::
  "('w \<Rightarrow> bytes) \<Rightarrow> ('w \<Rightarrow> 'w) \<Rightarrow> u8 \<Rightarrow> bytes \<Rightarrow> 'w device \<Rightarrow> (bytes \<times> 'w device) option" where
  "device_reply out clear addr d f = do {
     (rx, v) \<leftarrow> device_take (host_frame crc16 addr SM_CMD_UPGRADE_FW d) f;
     let a = frame_content (out (dv_world v));
     if out (dv_world v) = host_frame crc16 addr SM_CMD_UPGRADE_FW a
     then Some (a, rx, v\<lparr>dv_world := clear (dv_world v)\<rparr>) else None }"

lemma frame_content_frame [simp]: "frame_content (host_frame check addr cmd d) = d"
  by (simp add: frame_content_def host_frame_data)

text \<open>A command frame runs the command handler once.\<close>

lemma device_take_frame:
  assumes "host_idle rx" "h_addr rx = addr" "h_cmd_callback rx = Ref (loader_callback get32 get16 crc put addr)"
    and "length d \<le> 248"
    and "sm_boot_cmd_handle get32 get16 crc (on_world (respond_line put addr)) SM_CMD_UPGRADE_FW d (int (length d))
        (dv_if v) (dv_loader v, dv_world v) = Some (r, h, b, w)"
  obtains rx' where "device_take (host_frame crc16 addr SM_CMD_UPGRADE_FW d) (rx, v)
      = Some (rx', \<lparr>dv_if = h, dv_loader = b, dv_world = w\<rparr>)"
    "host_idle rx'" "same_interface rx rx'"
proof -
  let ?F = "host_frame crc16 addr SM_CMD_UPGRADE_FW d"
  obtain ry1 ry2 where r: "sm_host_asyn_feed ?F (int (length ?F)) (Ref rx) = Some (0, Ref ry1)"
    "process_times (length ?F) (Ref ry1) (Some v) = Some (replicate (length d + 7) 0 @ [fst (verdict rx ?F (length d + 7) (Some v))],
        Ref ry2, snd (verdict rx ?F (length d + 7) (Some v)))"
    "host_idle ry2" "same_interface rx ry2"
    using feed_and_process [OF assms(1) host_frame_framed [OF assms(4)], of crc16 addr SM_CMD_UPGRADE_FW "Some v"] by blast
  have "verdict rx ?F (length d + 7) (Some v) = (1, Some \<lparr>dv_if = h, dv_loader = b, dv_world = w\<rparr>)"
    using verdict_frame [OF assms(2,3), of SM_CMD_UPGRADE_FW d "Some v"] assms(5) by (simp add: loader_callback_def)
  then show ?thesis using that [of ry2] r by (simp add: device_take_def)
qed

text \<open>Commands other than the firmware information keep the signature of the interface.\<close>

lemma keeps_signature:
  assumes "sm_boot_cmd_handle get32 get16 crc resp cmd data n h s = Some (r, h', s')" "data ! 0 \<noteq> SM_SUB_CMD_FW_INFO"
  shows "bh_fw_signature h' = bh_fw_signature h"
  using assms
  by (auto simp: sm_boot_cmd_handle_def cmd_segment_info_def cmd_segment_data_def Let_def bind_eq_Some_conv mem_get_def
      split: if_splits ptr.splits)

subsection \<open>The contract of the environment of a loader\<close>

text \<open>
  \<open>env\<close> is the environment of the bootloader, \<open>written\<close> lists the segments that its flash has
  written, \<open>image_crc\<close> is the CRC of what they leave in an address range. \<open>out\<close>, \<open>put\<close> and \<open>clear\<close> are
  the line on which responses leave. \<open>get32\<close> and \<open>get16\<close> read big-endian numbers, \<open>crc\<close> the CRC of a
  part of the memory.
\<close>

locale loader_device =
  fixes env :: "'w boot_env"
    and get32 :: "bytes \<Rightarrow> u32" and get16 :: "bytes \<Rightarrow> u16" and crc :: crc_fun
    and written :: "'w \<Rightarrow> fw_image" and image_crc :: "fw_image \<Rightarrow> u32 \<Rightarrow> u32 \<Rightarrow> u16"
    and out :: "'w \<Rightarrow> bytes" and put :: "bytes \<Rightarrow> 'w \<Rightarrow> 'w" and clear :: "'w \<Rightarrow> 'w"
    and addr :: u8
  assumes big_endian: "get32 (be32_bytes x) = x" "get16 (be16_bytes y) = y"
    and crc: "n \<le> length m \<Longrightarrow> n \<le> SM_SEGMENT_FW_SIZE \<Longrightarrow> crc m (int n) = Some (crc16 (take n m))"
    and line: "out (put F w) = out w @ F" "written (put F w) = written w" "out (clear w) = []" "written (clear w) = written w"
    and timer: "written (snd (e_timer_reset env t w)) = written w" "out (snd (e_timer_reset env t w)) = out w"
    and valid: "written (e_if_set_fw_valid env i on w) = written w" "out (e_if_set_fw_valid env i on w) = out w"
    and sign: "e_set_main_app_info env s w = (r, w') \<Longrightarrow> 0 \<le> r \<and> written w' = written w \<and> out w' = out w"
    and writes: "e_write_segment env st a d w = (r, w') \<Longrightarrow> 0 \<le> r \<and> written w' = written w @ [(a, d)] \<and> out w' = out w"
    and check: "e_crc env (e_storage_read env st a w) k = Some (image_crc (written w) a k)"
begin

definition reply :: "bytes \<Rightarrow> 'w device \<Rightarrow> (bytes \<times> 'w device) option" where
  "reply = device_reply out clear addr"

text \<open>The device takes segments: the host is idle, the handlers are those of a bootloader that upgrades,
  and the line is free.\<close>

definition takes :: "'w device \<Rightarrow> bool" where
  "takes f \<longleftrightarrow> (case f of (rx, v) \<Rightarrow>
     host_idle rx \<and> h_addr rx = addr \<and> h_cmd_callback rx = Ref (loader_callback get32 get16 crc put addr)
     \<and> bound env (dv_if v) \<and> bl_state (dv_loader v) = STT_UPGRADING \<and> \<not> is_null (bl_boot_if_active (dv_loader v))
     \<and> fs_is_first_time_update (bh_fw_signature (dv_if v)) \<noteq> 1 \<and> out (dv_world v) = []
     \<and> (\<exists>g. bh_segment (dv_if v) = Ref g \<and> length (sg_data g) = SM_SEGMENT_FW_SIZE))"

definition holds :: "'w device \<Rightarrow> fw_image" where
  "holds f = written (dv_world (snd f))"

definition expects :: "'w device \<Rightarrow> u32 \<Rightarrow> nat \<Rightarrow> u16 \<Rightarrow> bytes \<Rightarrow> bool" where
  "expects f a n c ds \<longleftrightarrow> awaiting (dv_if (snd f)) n (sint a) c ds"

definition accepted :: "'w device \<Rightarrow> bool" where
  "accepted f \<longleftrightarrow> bl_state (dv_loader (snd f)) = STT_FINISH"

definition correct :: "fw_image \<Rightarrow> u32 \<Rightarrow> u32 \<Rightarrow> u16 \<Rightarrow> bool" where
  "correct ws n a c \<longleftrightarrow> image_crc ws a n = c"

text \<open>The answer to a command, from what its handler does.\<close>

lemma reply_handled:
  assumes "takes (rx, v)" "length d \<le> 248" "length ans \<le> 247"
    and "sm_boot_cmd_handle get32 get16 crc (on_world (respond_line put addr)) SM_CMD_UPGRADE_FW d (int (length d))
        (dv_if v) (dv_loader v, dv_world v) = Some (r, h, b, respond_line put addr SM_CMD_UPGRADE_FW ret ans w)"
    and "out w = []"
  obtains rx' w' where "reply d (rx, v) = Some (word_of_int ret # ans, rx', \<lparr>dv_if = h, dv_loader = b, dv_world = w'\<rparr>)"
    "host_idle rx'" "same_interface rx rx'" "written w' = written w" "out w' = []"
proof -
  let ?F = "host_frame crc16 addr SM_CMD_UPGRADE_FW (word_of_int ret # ans)"
  have rx: "host_idle rx" "h_addr rx = addr" "h_cmd_callback rx = Ref (loader_callback get32 get16 crc put addr)"
    using assms(1) by (simp_all add: takes_def)
  obtain rx' where t: "device_take (host_frame crc16 addr SM_CMD_UPGRADE_FW d) (rx, v)
      = Some (rx', \<lparr>dv_if = h, dv_loader = b, dv_world = put ?F w\<rparr>)" "host_idle rx'" "same_interface rx rx'"
    using device_take_frame [OF rx assms(2,4)] respond_line_eq [OF assms(3), of put addr SM_CMD_UPGRADE_FW ret w]
    by (metis (no_types, lifting))
  have "out (put ?F w) = ?F" using assms(5) line(1) by simp
  then have "reply d (rx, v) = Some (word_of_int ret # ans, rx', \<lparr>dv_if = h, dv_loader = b, dv_world = clear (put ?F w)\<rparr>)"
    using t(1) by (simp add: reply_def device_reply_def Let_def)
  then show ?thesis using that t(2,3) line by simp
qed

lemma info_times:
  "set_main_info_times env s n r w = (r', w') \<Longrightarrow> 0 < n \<or> 0 \<le> r \<Longrightarrow> 0 \<le> r' \<and> written w' = written w \<and> out w' = out w"
proof (induction n arbitrary: r w)
  case (Suc n)
  obtain r1 w1 where 1: "e_set_main_app_info env s w = (r1, w1)" by fastforce
  from sign [OF this] Suc.IH [of r1 w1] Suc.prems 1 show ?case by simp
qed simp

lemma takes_interface:
  assumes "takes (rx, v)" "host_idle rx'" "same_interface rx rx'"
  shows "host_idle rx'" "h_addr rx' = addr" "h_cmd_callback rx' = Ref (loader_callback get32 get16 crc put addr)"
  using assms by (simp_all add: takes_def same_interface_def)

lemma be_pieces:
  "take 4 (drop 3 (segment_info_packet l a n c)) = be32_bytes a"
  "take 4 (drop 7 (segment_info_packet l a n c)) = be32_bytes n"
  "take 2 (drop 11 (segment_info_packet l a n c)) = be16_bytes c"
  "length (segment_info_packet l a n c) = 13" "segment_info_packet l a n c ! 0 = SM_SUB_CMD_SEND_SEGMENT_INFO"
  by (simp_all add: segment_info_packet_def be32_bytes_def be16_bytes_def numeral_eq_Suc)

lemma reply_request:
  assumes "takes f"
  shows "\<exists>r f'. reply [SM_SUB_CMD_REQUEST] f = Some ([r, SM_SUB_CMD_REQUEST], f') \<and> takes f' \<and> holds f' = holds f"
proof -
  obtain rx v where f: "f = (rx, v)" by fastforce
  note t = assms [unfolded f]
  have up: "bound env (dv_if v)" "bl_state (dv_loader v) = STT_UPGRADING" "out (dv_world v) = []"
    using t by (simp_all add: takes_def)
  have "sm_boot_cmd_handle get32 get16 crc (on_world (respond_line put addr)) SM_CMD_UPGRADE_FW [SM_SUB_CMD_REQUEST]
      (int (length [SM_SUB_CMD_REQUEST])) (dv_if v) (dv_loader v, dv_world v)
    = Some (0, dv_if v, dv_loader v, respond_line put addr SM_CMD_UPGRADE_FW (-1) [SM_SUB_CMD_REQUEST] (dv_world v))"
    using up(2) by (simp add: sm_boot_cmd_handle_def mem_simps raise_bound [OF up(1)] bootloader_handle_def
        handle_request_upgrade_def on_world_def)
  from reply_handled [OF t _ _ this up(3)]
  obtain rx' w' where "reply [SM_SUB_CMD_REQUEST] (rx, v)
      = Some ([word_of_int (-1), SM_SUB_CMD_REQUEST], rx', \<lparr>dv_if = dv_if v, dv_loader = dv_loader v, dv_world = w'\<rparr>)"
    "host_idle rx'" "same_interface rx rx'" "written w' = written (dv_world v)" "out w' = []"
    by auto
  with t takes_interface [OF t, of rx'] f show ?thesis by (auto simp: takes_def holds_def)
qed


lemma reply_announce:
  assumes "takes f" "n \<le> SM_SEGMENT_FW_SIZE"
  shows "\<exists>f'. reply (segment_info_packet l a (of_nat n) c) f = Some ([0, SM_SUB_CMD_SEND_SEGMENT_INFO], f')
     \<and> takes f' \<and> holds f' = holds f \<and> expects f' a n c []"
proof -
  obtain rx v where f: "f = (rx, v)" by fastforce
  note t = assms(1) [unfolded f]
  let ?d = "segment_info_packet l a (of_nat n) c"
  obtain g where g: "bh_segment (dv_if v) = Ref g" "length (sg_data g) = SM_SEGMENT_FW_SIZE"
    and st: "out (dv_world v) = []" using t by (auto simp: takes_def)
  note p = be_pieces [of l a "of_nat n" c]
  have cmd: "?d ! 0 = SM_SUB_CMD_SEND_SEGMENT_INFO" "13 \<le> length ?d" "12 \<le> int (length ?d)"
      "get32 (take 4 (drop 7 ?d)) = of_nat n"
    using p big_endian by simp_all
  obtain h' where h': "sm_boot_cmd_handle get32 get16 crc (on_world (respond_line put addr)) SM_CMD_UPGRADE_FW ?d (int (length ?d))
        (dv_if v) (dv_loader v, dv_world v)
      = Some (0, h', dv_loader v, respond_line put addr SM_CMD_UPGRADE_FW SM_RES_NONE [SM_SUB_CMD_SEND_SEGMENT_INFO] (dv_world v))"
    "awaiting h' n (sint (get32 (take 4 (drop 3 ?d)))) (get16 (take 2 (drop 11 ?d))) []" "bh_handles h' = bh_handles (dv_if v)"
    using segment_info_command [where ?get32.0 = get32 and ?get16.0 = get16, OF g cmd assms(2)] by blast
  obtain rx' w' where r: "reply ?d (rx, v)
      = Some ([word_of_int SM_RES_NONE, SM_SUB_CMD_SEND_SEGMENT_INFO], rx', \<lparr>dv_if = h', dv_loader = dv_loader v, dv_world = w'\<rparr>)"
    "host_idle rx'" "same_interface rx rx'" "written w' = written (dv_world v)" "out w' = []"
    using reply_handled [OF t _ _ h'(1) st] p(4) by auto
  have "bh_fw_signature h' = bh_fw_signature (dv_if v)" using keeps_signature [OF h'(1)] p(5) by simp
  moreover have "\<exists>g. bh_segment h' = Ref g \<and> length (sg_data g) = SM_SEGMENT_FW_SIZE"
    using h'(2) by (auto simp: awaiting_def seg_holds_def)
  moreover have "bound env h'" using h'(3) t by (simp add: takes_def bound_def)
  moreover have "awaiting h' n (sint a) c []" using h'(2) p(1,3) big_endian by simp
  ultimately show ?thesis
    using r t takes_interface [OF t r(2,3)] f by (auto simp: takes_def holds_def expects_def)
qed

lemma reply_piece:
  assumes "takes f" "expects f a n (crc16 d) ds" "d = ds @ p @ rest" "length d = n" "n \<le> SM_SEGMENT_FW_SIZE"
    and "p \<noteq> []" "length p \<le> 128"
  shows "\<exists>f'. reply (SM_SUB_CMD_SEND_SEGMENT_DATA # p) f = Some ([0, SM_SUB_CMD_SEND_SEGMENT_DATA], f')
     \<and> takes f' \<and> expects f' a n (crc16 d) (ds @ p) \<and> holds f' = holds f @ (if rest = [] then [(a, d)] else [])"
proof -
  obtain rx v where f: "f = (rx, v)" by fastforce
  note t = assms(1) [unfolded f]
  have up: "bound env (dv_if v)" "bl_state (dv_loader v) = STT_UPGRADING" "out (dv_world v) = []"
    using t by (simp_all add: takes_def)
  have aw: "awaiting (dv_if v) n (sint a) (crc16 d) ds" using assms(2) f by (simp add: expects_def)
  let ?w = "snd (e_timer_reset env (bl_timeout (dv_loader v)) (dv_world v))"
  obtain r w1 where wr: "e_write_segment env (fw_store (bl_main_app (dv_loader v))) (word_of_int (sint a)) (ds @ p) ?w = (r, w1)"
    by fastforce
  have ok: "0 \<le> r" "written w1 = written (dv_world v) @ [(a, ds @ p)]" "out w1 = []"
    using writes [OF wr] timer up(3) by auto
  let ?last = "length ds + length p = n \<and> crc16 d = crc16 (ds @ p)"
  have last: "?last \<longleftrightarrow> rest = []" using assms(3,4) by auto
  let ?w' = "if rest = [] then w1 else dv_world v"
  let ?b = "if rest = [] then (dv_loader v)\<lparr>bl_timeout := fst (e_timer_reset env (bl_timeout (dv_loader v)) (dv_world v))\<rparr> else dv_loader v"
  have len: "length ds + length p \<le> n" using assms(3,4) by simp
  have crcs: "\<forall>m. n \<le> length m \<longrightarrow> crc m (int n) = Some (crc16 (take n m))" using crc assms(5) by blast
  obtain h' where h': "sm_boot_cmd_handle get32 get16 crc (on_world (respond_line put addr)) SM_CMD_UPGRADE_FW
        (SM_SUB_CMD_SEND_SEGMENT_DATA # p) (int (length p) + 1) (dv_if v) (dv_loader v, dv_world v)
      = Some (0, h', ?b, respond_line put addr SM_CMD_UPGRADE_FW SM_RES_NONE [SM_SUB_CMD_SEND_SEGMENT_DATA] ?w')"
    "awaiting h' n (sint a) (crc16 d) (ds @ p)" "bound env h'"
    using segment_data_command [where ?get32.0 = get32 and ?get16.0 = get16 and resp = "respond_line put addr"
        and crc = crc and f = crc16 and n = n, OF up(1) aw len assms(5) crcs up(2) wr] ok(1) last by (cases "rest = []") auto
  have "out ?w' = []" using ok(3) up(3) by simp
  moreover have "length (SM_SUB_CMD_SEND_SEGMENT_DATA # p) \<le> 248" using assms(7) by simp
  ultimately obtain rx' w' where r: "reply (SM_SUB_CMD_SEND_SEGMENT_DATA # p) (rx, v)
      = Some ([word_of_int SM_RES_NONE, SM_SUB_CMD_SEND_SEGMENT_DATA], rx', \<lparr>dv_if = h', dv_loader = ?b, dv_world = w'\<rparr>)"
    "host_idle rx'" "same_interface rx rx'" "written w' = written ?w'" "out w' = []"
    using reply_handled [OF t, of "SM_SUB_CMD_SEND_SEGMENT_DATA # p" "[SM_SUB_CMD_SEND_SEGMENT_DATA]" 0 h' ?b SM_RES_NONE ?w']
      h'(1) by (auto simp: add.commute)
  have "bh_fw_signature h' = bh_fw_signature (dv_if v)" using keeps_signature [OF h'(1)] by simp
  moreover have "\<exists>g. bh_segment h' = Ref g \<and> length (sg_data g) = SM_SEGMENT_FW_SIZE"
    using h'(2) by (auto simp: awaiting_def seg_holds_def)
  moreover have "bl_state ?b = STT_UPGRADING" "\<not> is_null (bl_boot_if_active ?b)" using t by (simp_all add: takes_def)
  ultimately show ?thesis
    using r h' t takes_interface [OF t r(2,3)] f ok(2) assms(3) by (auto simp: takes_def holds_def expects_def)
qed

lemma reply_fw_info:
  assumes "takes f" "length ver = SM_FW_VERSION_LENGTH"
  shows "\<exists>r f'. reply (SM_SUB_CMD_FW_INFO # ver @ be32_bytes n @ be32_bytes a @ be16_bytes c) f
      = Some ([r, SM_SUB_CMD_FW_INFO], f') \<and> holds f' = holds f \<and> (0 \<le> sint r \<longleftrightarrow> correct (holds f) n a c)
      \<and> (0 \<le> sint r \<longleftrightarrow> accepted f')"
proof -
  obtain rx v where f: "f = (rx, v)" by fastforce
  note t = assms(1) [unfolded f]
  let ?d = "SM_SUB_CMD_FW_INFO # ver @ be32_bytes n @ be32_bytes a @ be16_bytes c"
  let ?s = "announced get32 get16 ?d (bh_fw_signature (dv_if v))"
  obtain i where up: "bound env (dv_if v)" "bl_state (dv_loader v) = STT_UPGRADING" "bl_boot_if_active (dv_loader v) = Ref i"
      "out (dv_world v) = []" "fs_is_first_time_update ?s \<noteq> 1"
    using t by (cases "bl_boot_if_active (dv_loader v)") (auto simp: takes_def announced_def)
  have s: "fs_addr ?s = a" "fs_size ?s = n" "fs_crc ?s = c"
    using assms(2) big_endian by (simp_all add: announced_def be32_bytes_def be16_bytes_def numeral_eq_Suc)
  have cmd: "?d ! 0 = SM_SUB_CMD_FW_INFO" "14 \<le> length ?d" "14 \<le> int (length ?d)" "length ?d \<le> 248"
    using assms(2) by simp_all
  let ?w1 = "snd (e_timer_reset env (bl_timeout (dv_loader v)) (dv_world v))"
  have ck: "e_crc env (e_storage_read env (fw_store (bl_main_app (dv_loader v))) (fs_addr ?s) ?w1) (fs_size ?s)
      = Some (image_crc (holds f) a n)"
    using check timer s f by (simp add: holds_def)
  obtain r5 w2 where w2: "set_main_info_times env ?s 5 (-1) (e_if_set_fw_valid env i True ?w1) = (r5, w2)" by fastforce
  have r5: "0 \<le> r5" "written w2 = written (dv_world v)" "out w2 = []"
    using info_times [OF w2] timer valid up(4) by auto
  let ?ok = "image_crc (holds f) a n = c"
  let ?r = "if ?ok then SM_RES_NONE else -1"
  have ok: "?ok \<longleftrightarrow> fs_is_first_time_update ?s = 1 \<or> image_crc (holds f) a n = fs_crc ?s" using up(5) s(3) by simp
  obtain b' w' where h: "sm_boot_cmd_handle get32 get16 crc (on_world (respond_line put addr)) SM_CMD_UPGRADE_FW ?d (int (length ?d))
        (dv_if v) (dv_loader v, dv_world v)
      = Some (0, (dv_if v)\<lparr>bh_fw_signature := ?s\<rparr>, b', respond_line put addr SM_CMD_UPGRADE_FW ?r [SM_SUB_CMD_FW_INFO] w')"
    "bl_state b' = (if ?ok then STT_FINISH else STT_FAILURE)"
    "w' = (if image_crc (holds f) a n \<noteq> c then ?w1 else if r5 < 0 then w2
         else snd (e_timer_reset env (fst (e_timer_reset env (bl_timeout (dv_loader v)) (dv_world v))) w2))"
    using fw_info_command [where ?get32.0 = get32 and ?get16.0 = get16 and ?crc0.0 = crc and resp = "respond_line put addr"
        and w = "dv_world v", OF up(1-3) cmd(1-3) refl refl ck w2 ok] r5(1)
    by auto
  have w': "out w' = []" "written w' = written (dv_world v)"
    unfolding h(3) using timer r5 up(4) by auto
  have one: "length [SM_SUB_CMD_FW_INFO] \<le> 247" by simp
  obtain rx' v' where "reply ?d (rx, v) = Some (word_of_int ?r # [SM_SUB_CMD_FW_INFO], rx',
        \<lparr>dv_if = (dv_if v)\<lparr>bh_fw_signature := ?s\<rparr>, dv_loader = b', dv_world = v'\<rparr>)" "written v' = written w'"
    using reply_handled [OF t cmd(4) one h(1) w'(1)] by blast
  with w'(2) h(2) show ?thesis using f by (cases ?ok) (simp_all add: holds_def correct_def accepted_def)
qed

end

sublocale loader_device \<subseteq> upgrade_device reply takes holds expects correct accepted
proof
  fix f a n c l
  assume "takes f" "n \<le> SM_SEGMENT_FW_SIZE"
  then show "\<exists>f'. reply (segment_info_packet l a (word_of_nat n) c) f = Some ([0, SM_SUB_CMD_SEND_SEGMENT_INFO], f')
      \<and> takes f' \<and> holds f' = holds f \<and> expects f' a n c []" by (rule reply_announce)
qed (fact reply_request reply_piece reply_fw_info)+

subsection \<open>A flash\<close>

text \<open>A flash of 4 GiB, which keeps the segments written to it; the last one written to an address counts.\<close>

record flash =
  fl_written :: fw_image
  fl_line :: bytes

fun cell :: "fw_image \<Rightarrow> u32 \<Rightarrow> u8" where
  "cell [] a = 0xFF"
| "cell ((b, d) # ws) a = (if unat (a - b) < length d then d ! unat (a - b) else cell ws a)"

definition address_space :: nat where "address_space = 2 ^ 32"

definition flash_read :: "fw_image \<Rightarrow> u32 \<Rightarrow> nat \<Rightarrow> bytes" where
  "flash_read ws a n = map (\<lambda>k. cell (rev ws) (a + of_nat k)) [0..<n]"

definition flash_env :: "flash boot_env" where
  "flash_env = \<lparr>e_crc = \<lambda>m n. sm_CRC_CalculateCRC16 (Ref m) n, e_timer_reset = \<lambda>t w. (t, w),
     e_timer_resetz = \<lambda>t d w. (t\<lparr>et_duration := d\<rparr>, w), e_timer_remain = \<lambda>t w. (0, w), e_get_flag = \<lambda>w. (0, w),
     e_get_main_app_info = \<lambda>s w. (s, w), e_set_main_app_info = \<lambda>s w. (0, w), e_get_sub_app_info = \<lambda>s w. (s, w),
     e_set_sub_app_info = \<lambda>s w. (0, w), e_get_boot_time = \<lambda>w. (0, w), e_set_boot_time = \<lambda>n w. w,
     e_reboot = \<lambda>w. w, e_jump = NULL, e_storage_init = \<lambda>n w. w, e_storage_free = \<lambda>n w. w,
     e_storage_read = \<lambda>st a w. flash_read (fl_written w) a address_space,
     e_write_segment = \<lambda>st a d w. (0, w\<lparr>fl_written := fl_written w @ [(a, d)]\<rparr>),
     e_erase_full = \<lambda>n w. (0, w\<lparr>fl_written := []\<rparr>), e_if_init = \<lambda>i w. w,
     e_if_set_enable = \<lambda>i. NULL, e_if_set_ready = \<lambda>i. NULL, e_if_set_fw_valid = \<lambda>i ok w. w,
     e_if_reg_event = \<lambda>i ev w. w, e_if_process = \<lambda>i. NULL\<rparr>"

definition flash_crc :: "fw_image \<Rightarrow> u32 \<Rightarrow> u32 \<Rightarrow> u16" where
  "flash_crc ws a n = crc16 (flash_read ws a (unat n))"

definition flash_put :: "bytes \<Rightarrow> flash \<Rightarrow> flash" where
  "flash_put F w = w\<lparr>fl_line := fl_line w @ F\<rparr>"

definition flash_clear :: "flash \<Rightarrow> flash" where
  "flash_clear w = w\<lparr>fl_line := []\<rparr>"

text \<open>Big-endian numbers, and the CRC of the memory of a segment.\<close>

definition read_be32 :: "bytes \<Rightarrow> u32" where
  "read_be32 bs = le32 (bs ! 3) (bs ! 2) (bs ! 1) (bs ! 0)"

definition read_be16 :: "bytes \<Rightarrow> u16" where
  "read_be16 bs = be16 (bs ! 0) (bs ! 1)"

definition memory_crc :: crc_fun where
  "memory_crc m n = sm_CRC_CalculateCRC16 (Ref m) (word_of_int n)"

lemma take_flash_read: "m \<le> n \<Longrightarrow> take m (flash_read ws a n) = flash_read ws a m"
  by (simp add: flash_read_def take_map)

interpretation flash: loader_device flash_env read_be32 read_be16 memory_crc fl_written flash_crc
    fl_line flash_put flash_clear addr for addr
proof
  fix x :: u32 and y :: u16
  show "read_be32 (be32_bytes x) = x" using le32_split [of x] by (simp add: read_be32_def be32_bytes_def)
  show "read_be16 (be16_bytes y) = y" by (simp add: read_be16_def be16_bytes_def be16_split)
next
  fix n :: nat and m :: bytes
  assume n: "n \<le> length m" "n \<le> SM_SEGMENT_FW_SIZE"
  then have "unat (word_of_int (int n) :: u32) = n" by (simp add: unat_of_nat_u32)
  with n show "memory_crc m (int n) = Some (crc16 (take n m))" by (simp add: memory_crc_def sm_crc16_eq)
next
  fix st a w and k :: u32
  have "unat k \<le> address_space" unfolding address_space_def by transfer (simp add: take_bit_eq_mod nat_le_iff less_imp_le)
  then show "e_crc flash_env (e_storage_read flash_env st a w) k = Some (flash_crc (fl_written w) a k)"
    by (simp add: flash_env_def flash_crc_def take_flash_read sm_crc16_eq) (simp add: flash_read_def)
qed (auto simp: flash_put_def flash_clear_def flash_env_def)

end
