(* ===== verification/Upgrade_Wire.thy ===== *)
theory Upgrade_Wire
  imports Boot_Device Boot_Input_File Host_Exchange
begin

section \<open>An upgrade over the wire\<close>

text \<open>
  The whole upgrade, from the HEX file to the flash: the boot slave with the file input and the output over
  the host protocol, a serial line, and the device of \<open>Boot_Device\<close>. The line takes a frame to the
  device at once, keeps the bytes of its answer until they are read, one each millisecond, and forgets
  what was not read when a frame is sent. This theory shows that the three contracts of
  \<open>Boot_Transfer\<close> hold for these parts, so that its theorem holds for them.
\<close>

record 'w wire =
  wr_now :: int
  wr_inbox :: bytes
  wr_device :: "'w device"
  wr_file :: file_input

subsection \<open>The line\<close>

definition wire_tick :: "('cb, 'w wire) link_state \<Rightarrow> int \<times> ('cb, 'w wire) link_state" where
  "wire_tick st = ((case st of None \<Rightarrow> 0 | Some l \<Rightarrow> wr_now (lk_ext l)), st)"

definition wire_inbox :: "('cb, 'w wire) link_state \<Rightarrow> bytes" where
  "wire_inbox st = (case st of None \<Rightarrow> [] | Some l \<Rightarrow> wr_inbox (lk_ext l))"

definition wire_pop :: "('cb, 'w wire) link_state \<Rightarrow> ('cb, 'w wire) link_state" where
  "wire_pop = map_option (\<lambda>l. l\<lparr>lk_ext := (lk_ext l)\<lparr>wr_inbox := tl (wr_inbox (lk_ext l)), wr_now := wr_now (lk_ext l) + 1\<rparr>\<rparr>)"

definition wire_recv :: "('cb, 'w wire) link_state sm_host_recv_if" where
  "wire_recv n t a st = (case wire_inbox st of [] \<Rightarrow> (0, [], wire_pop st) | b # _ \<Rightarrow> (1, [b], wire_pop st))"

definition wire_time :: "('cb, 'w wire) link_state \<Rightarrow> int" where
  "wire_time st = fst (wire_tick st)"

definition deliver_frame_to :: "('w \<Rightarrow> bytes) \<Rightarrow> ('w \<Rightarrow> 'w) \<Rightarrow> bytes \<Rightarrow> 'w wire \<Rightarrow> 'w wire" where
  "deliver_frame_to out clear F x =
     (case device_take F (wr_device x) of
        None \<Rightarrow> x\<lparr>wr_inbox := []\<rparr>
      | Some (rx, v) \<Rightarrow> x\<lparr>wr_inbox := out (dv_world v), wr_device := (rx, v\<lparr>dv_world := clear (dv_world v)\<rparr>)\<rparr>)"

definition wire_send :: "('w \<Rightarrow> bytes) \<Rightarrow> ('w \<Rightarrow> 'w) \<Rightarrow> ('cb, 'w wire) link_state sm_host_send_if" where
  "wire_send out clear F t a st =
     (int (length F), map_option (\<lambda>l. l\<lparr>lk_ext := deliver_frame_to out clear F (lk_ext l)\<rparr>) st)"

lemma byte_wire_line: "byte_wire wire_tick wire_recv a wire_inbox wire_pop wire_time"
  by (auto simp: byte_wire_def wire_tick_def wire_recv_def wire_pop_def wire_time_def wire_inbox_def split: option.split)

text \<open>Reading \<open>n\<close> bytes takes \<open>n\<close> milliseconds.\<close>

lemma polls_of_line:
  "(poll wire_tick wire_pop ^^ n) (Some l)
     = Some (l\<lparr>lk_ext := (lk_ext l)\<lparr>wr_inbox := drop n (wr_inbox (lk_ext l)), wr_now := wr_now (lk_ext l) + int n\<rparr>\<rparr>)"
  by (induction n) (simp_all add: poll_def wire_tick_def wire_pop_def drop_Suc tl_drop)

subsection \<open>The exchange over the line\<close>

text \<open>The master's host object on the line, and its synchronous command with the time limit of the output.\<close>

definition on_line :: "('w \<Rightarrow> bytes) \<Rightarrow> ('w \<Rightarrow> 'w) \<Rightarrow> ('cb, 'w wire) link_state sm_host \<Rightarrow> bool" where
  "on_line out clear h \<longleftrightarrow> host_wf h \<and> h_packet_index h = 0 \<and> unread h = [] \<and> h_recv_if h = Ref wire_recv
     \<and> h_send_if h = Ref (wire_send out clear) \<and> h_arg_if h = 0"

definition wire_addr :: "u8 \<Rightarrow> 'w sm_host \<Rightarrow> 'w sm_host" where
  "wire_addr addr h = deref (snd (sm_host_set_addr (Ref h) addr))"

abbreviation STATE_SEND_SYNC_TIMEOUT :: int where "STATE_SEND_SYNC_TIMEOUT \<equiv> 1000"

definition wire_request :: "(('cb, 'w wire) link_state sm_host, ('cb, 'w wire) link_state) exchange" where
  "wire_request cmd d cb arg h st = do {
     (r, p, st) \<leftarrow> sm_host_send_cmd_sync wire_tick (Ref h) cmd d (int (length d)) STATE_SEND_SYNC_TIMEOUT (Ref cb) arg st;
     h \<leftarrow> to_ptr p;
     Some (r, h, st) }"

lemma wire_exchange:
  assumes h: "on_line out clear h" "h_addr h = addr" and now: "0 \<le> wr_now (lk_ext l)" "wr_now (lk_ext l) + 1000 < 2 ^ 32"
    and d: "length d \<le> 129" and r: "device_reply out clear addr d (wr_device (lk_ext l)) = Some ([r, sub], f)"
  shows "\<exists>h' x. wire_request SM_CMD_UPGRADE_FW d cb arg h (Some l)
      = Some (1, h', snd (cb SM_CMD_UPGRADE_FW [r, sub] arg (Some (l\<lparr>lk_ext := x\<rparr>))))
    \<and> (on_line out clear h' \<and> h_addr h' = addr) \<and> wr_device x = f \<and> wr_file x = wr_file (lk_ext l)
    \<and> wr_now (lk_ext l) \<le> wr_now x \<and> wr_now x \<le> wr_now (lk_ext l) + 1000"
proof -
  let ?F = "host_frame crc16 addr SM_CMD_UPGRADE_FW d" and ?A = "host_frame crc16 addr SM_CMD_UPGRADE_FW [r, sub]"
  obtain rx v where t: "device_take ?F (wr_device (lk_ext l)) = Some (rx, v)" "out (dv_world v) = ?A"
      "f = (rx, v\<lparr>dv_world := clear (dv_world v)\<rparr>)"
    using r by (auto simp: device_reply_def Let_def bind_eq_Some_conv split: if_splits)
  let ?x = "(lk_ext l)\<lparr>wr_inbox := ?A, wr_device := f\<rparr>"
  have x: "deliver_frame_to out clear ?F (lk_ext l) = ?x" using t by (simp add: deliver_frame_to_def)
  have hs: "host_wf h" "h_packet_index h = 0" "unread h = []" "h_recv_if h = Ref wire_recv" "h_send_if h = Ref (wire_send out clear)"
      "h_arg_if h = 0"
    using h(1) by (simp_all add: on_line_def)
  have sent: "wire_send out clear (host_frame crc16 (h_addr h) SM_CMD_UPGRADE_FW d) SM_HOST_TIMEOUT_IF_DEFAULT 0 (Some l)
      = (int (length ?F), Some (l\<lparr>lk_ext := ?x\<rparr>))"
    using h(2) x by (simp add: wire_send_def)
  have inb: "wire_inbox (Some (l\<lparr>lk_ext := ?x\<rparr>)) = host_frame crc16 (h_addr h) SM_CMD_UPGRADE_FW [r, sub]"
    using h(2) by (simp add: wire_inbox_def)
  have tick: "wire_tick (Some (l\<lparr>lk_ext := ?x\<rparr>)) = (wr_now (lk_ext l), Some (l\<lparr>lk_ext := ?x\<rparr>))"
    by (simp add: wire_tick_def)
  have room: "length d \<le> 248" "length [r, sub] \<le> 248" "0 < int (length ?F)" "0 \<le> STATE_SEND_SYNC_TIMEOUT"
    using d by simp_all
  have lim: "wire_time (Some (l\<lparr>lk_ext := ?x\<rparr>)) + int (length [r, sub]) + 8 \<le> wr_now (lk_ext l) + STATE_SEND_SYNC_TIMEOUT"
    by (simp add: wire_time_def wire_tick_def)
  obtain h' where "sm_host_send_cmd_sync wire_tick (Ref h) SM_CMD_UPGRADE_FW d (int (length d)) STATE_SEND_SYNC_TIMEOUT (Ref cb) arg (Some l)
      = Some (1, Ref h', snd (cb (SM_CMD_UPGRADE_FW mod 256) [r, sub] arg
          ((poll wire_tick wire_pop ^^ (8 + length [r, sub])) (Some (l\<lparr>lk_ext := ?x\<rparr>)))))"
    and h': "host_wf h'" "h_packet_index h' = 0" "unread h' = []" "h_addr h' = h_addr h"
      "h_send_if h' = h_send_if h" "h_recv_if h' = h_recv_if h" "h_arg_if h' = h_arg_if h"
    using sync_exchange [OF hs room(1,2) sent room(3) byte_wire_line inb tick now(1) room(4) now(2) lim] by blast
  then have "wire_request SM_CMD_UPGRADE_FW d cb arg h (Some l) = Some (1, h', snd (cb SM_CMD_UPGRADE_FW [r, sub] arg
      (Some (l\<lparr>lk_ext := ?x\<lparr>wr_inbox := drop 10 ?A, wr_now := wr_now (lk_ext l) + 10\<rparr>\<rparr>))))"
    unfolding wire_request_def polls_of_line by (simp add: to_ptr_def del: funpow.simps)
  moreover have "on_line out clear h'" "h_addr h' = addr" using h' hs h(2) by (simp_all add: on_line_def)
  ultimately show ?thesis
    by (intro exI [of _ h'] exI [of _ "?x\<lparr>wr_inbox := drop 10 ?A, wr_now := wr_now (lk_ext l) + 10\<rparr>"]) simp
qed

subsection \<open>The boot input over the line\<close>

text \<open>
  The environment of the slave: its clock, the procedures of the file input (which has neither
  \<open>seg_upgrade_completed\<close> nor \<open>process\<close>), and \<open>delayMs\<close>. Its output procedures are those of the host output.
\<close>

definition file_env :: "hex_files \<Rightarrow> bytes \<Rightarrow> ('cb, 'w wire) slave_env" where
  "file_env fs buff = \<lparr>sl_tick = (\<lambda>x. (wr_now x, x)),
     in_init = (\<lambda>_ x. case sm_file_init fs buff (wr_file x) of None \<Rightarrow> x | Some (_, g) \<Rightarrow> x\<lparr>wr_file := g\<rparr>),
     in_free = (\<lambda>_ x. x\<lparr>wr_file := snd (sm_file_free (wr_file x))\<rparr>),
     in_get_fw_info = (\<lambda>_ x. case sm_file_get_fw_info (wr_file x) (fb_sign (wr_file x)) of (r, fw) \<Rightarrow> (r, fw, x)),
     in_get_seg_fw = (\<lambda>_ seg x. case sm_file_get_seg_fw (wr_file x) seg of None \<Rightarrow> (-1, seg, x) | Some (r, s) \<Rightarrow> (r, s, x)),
     in_seg_upgrade_completed = (\<lambda>_. NULL), in_process = (\<lambda>_. NULL),
     out_init = (\<lambda>_ x. x), out_free = (\<lambda>_ x. x), out_reg_event = (\<lambda>_ _ _ x. x), out_request_upgrade = (\<lambda>_ _ x. x),
     out_set_fw_info = (\<lambda>_ _ x. x), out_set_seg_fw = (\<lambda>_ _ x. (0, x)), out_process = (\<lambda>_. NULL)\<rparr>"

definition wire_delay :: "int \<Rightarrow> 'w wire \<Rightarrow> 'w wire" where
  "wire_delay ms x = x\<lparr>wr_now := wr_now x + ms\<rparr>"

text \<open>Every firmware that is not empty and smaller than 2 GiB, by its first byte and the rest; its signature.\<close>

definition firmware :: "u8 \<Rightarrow> bytes \<Rightarrow> bytes" where
  "firmware b bs = b # take (2 ^ 31 - 2) bs"

definition file_sign :: "u32 \<Rightarrow> bytes \<Rightarrow> fw_info" where
  "file_sign a buf = \<lparr>fi_version = [1, 0, 2], fi_addr = a, fi_size = of_nat (length buf), fi_crc = crc16 buf,
     fi_data_address_offset = 0, fi_is_valid = 0\<rparr>"

definition file_ready :: "u32 \<Rightarrow> bytes \<Rightarrow> 'w wire \<Rightarrow> bool" where
  "file_ready a buf x \<longleftrightarrow> holds_file a buf (wr_file x) \<and> fi_version (fb_sign (wr_file x)) = [1, 0, 2]"

lemma firmware_fits: "firmware b bs \<noteq> []" "length (firmware b bs) < 2 ^ 31"
  by (simp_all add: firmware_def)

lemma firmware_any: "buf \<noteq> [] \<Longrightarrow> length buf < 2 ^ 31 \<Longrightarrow> firmware (hd buf) (tl buf) = buf"
  by (simp add: firmware_def)

lemma image_holds_segment:
  assumes "sm_file_get_seg_fw g seg = Some (1, s)" "k < length (file_image a buf)" "seg_holds s (snd (file_image a buf ! k))"
    and "seg_info s = (int k, sint (fst (file_image a buf ! k)), int (length (snd (file_image a buf ! k))),
          crc16 (snd (file_image a buf ! k)), if Suc k = length (file_image a buf) then 1 else 0)"
  shows "holds_segment (file_image a buf) k s"
  using assms by (simp add: holds_segment_def seg_holds_def seg_info_def)

interpretation file_input: upgrade_source "file_env fs buff" wire_delay i wr_device wr_now "file_ready a (firmware b bs)"
    "file_image a (firmware b bs)" "file_sign a (firmware b bs)" for fs buff i a b bs
proof
  let ?buf = "firmware b bs"
  show "file_image a ?buf \<noteq> []" using firmware_fits(1) [of b bs] image_shape(1) [of a ?buf] by auto
next
  let ?buf = "firmware b bs"
  fix at d assume "(at, d) \<in> set (file_image a ?buf)"
  then obtain k where k: "k < length (file_image a ?buf)" "file_image a ?buf ! k = (at, d)" by (auto simp: in_set_conv_nth)
  show "d \<noteq> [] \<and> length d \<le> SM_SEGMENT_FW_SIZE"
    using image_shape(2) [OF k(1)] file_image_in [OF k(1)] nth_file_image [OF k(1)] k(2) by auto
next
  fix seg k x r s x'
  assume a: "file_ready a (firmware b bs) x" "sg_index seg = int k" "k < length (file_image a (firmware b bs))"
    "length (sg_data seg) = SM_SEGMENT_FW_SIZE" "in_get_seg_fw (file_env fs buff) i seg x = (r, s, x')"
  have "holds_file a (firmware b bs) (wr_file x)" using a(1) by (simp add: file_ready_def)
  from segment_delivered [OF this firmware_fits(2) a(3,2,4)] obtain s1 where
    s1: "sm_file_get_seg_fw (wr_file x) seg = Some (1, s1)" "holds_segment (file_image a (firmware b bs)) k s1"
    using image_holds_segment [OF _ a(3)] by blast
  with a(5) show "0 < r \<and> holds_segment (file_image a (firmware b bs)) k s \<and> wr_device x' = wr_device x
      \<and> passes wr_now (file_ready a (firmware b bs)) 100 x x'"
    by (auto simp: file_env_def passes_def)
qed (auto simp: file_env_def file_sign_def wire_delay_def passes_def file_ready_def holds_file_def
    sm_file_get_fw_info_def fw_info_clone_def)

interpretation line: command_link wire_request wire_addr addr "on_line out clear" "\<lambda>h. on_line out clear h \<and> h_addr h = addr"
    "device_reply out clear addr" wr_device wr_now "file_ready a buf" for out clear addr a buf
proof
  fix h :: "('a, 'b wire) link_state sm_host"
  assume "on_line out clear h"
  then show "on_line out clear (wire_addr addr h) \<and> h_addr (wire_addr addr h) = addr"
    by (simp add: on_line_def wire_addr_def sm_host_set_addr_def host_wf_def unread_def pending_def)
next
  fix h :: "('a, 'b wire) link_state sm_host" and l :: "('a, 'b wire) link" and d cb arg r sub f
  assume "on_line out clear h \<and> h_addr h = addr" "0 \<le> wr_now (lk_ext l)" "wr_now (lk_ext l) + 1000 < 2 ^ 32" "length d \<le> 129"
    "device_reply out clear addr d (wr_device (lk_ext l)) = Some ([r, sub], f)"
  then obtain h' x where e: "wire_request SM_CMD_UPGRADE_FW d cb arg h (Some l)
        = Some (1, h', snd (cb SM_CMD_UPGRADE_FW [r, sub] arg (Some (l\<lparr>lk_ext := x\<rparr>))))"
      "on_line out clear h' \<and> h_addr h' = addr" "wr_device x = f" "wr_file x = wr_file (lk_ext l)"
      "wr_now (lk_ext l) \<le> wr_now x" "wr_now x \<le> wr_now (lk_ext l) + 1000"
    using wire_exchange [of out clear h addr l d r sub f cb arg] by blast
  have "passes wr_now (file_ready a buf) 1000 (lk_ext l) x" using e(4-6) by (simp add: passes_def file_ready_def)
  with e(1-3) show "\<exists>h' x. wire_request SM_CMD_UPGRADE_FW d cb arg h (Some l)
        = Some (1, h', snd (cb SM_CMD_UPGRADE_FW [r, sub] arg (Some (l\<lparr>lk_ext := x\<rparr>))))
      \<and> (on_line out clear h' \<and> h_addr h' = addr) \<and> wr_device x = f \<and> passes wr_now (file_ready a buf) 1000 (lk_ext l) x"
    by blast
qed

text \<open>What the file's segments leave in the flash is the firmware.\<close>

lemma cell_agrees:
  assumes "(c, e) \<in> set ws" "unat (p - c) < length e"
    and "\<forall>(c, e)\<in>set ws. unat (p - c) < length e \<longrightarrow> e ! unat (p - c) = v"
  shows "cell ws p = v"
  using assms by (induction ws p rule: cell.induct) auto

lemma offset_of:
  assumes "k < 2 ^ 31" "j < 2 ^ 31"
  shows "unat (of_nat k - of_nat j :: u32) = (if j \<le> k then k - j else 2 ^ 32 + k - j)"
proof (cases "j \<le> k")
  case True
  then have eq: "of_nat k - of_nat j = (of_nat (k - j) :: u32)" by (simp add: of_nat_diff)
  have "unat (of_nat (k - j) :: u32) = k - j" using assms by (intro unat_of_nat_u32) simp
  with True show ?thesis by (simp only: eq if_True)
next
  case False
  have "(2 ^ 32 :: u32) = 0" by simp
  then have eq: "of_nat k - of_nat j = (of_nat (2 ^ 32 + k - j) :: u32)" using False assms by (simp add: of_nat_diff)
  have "unat (of_nat (2 ^ 32 + k - j) :: u32) = 2 ^ 32 + k - j" using False assms by (intro unat_of_nat_u32) simp
  with False show ?thesis by (simp only: eq if_False)
qed

lemma flash_holds_image:
  assumes "length buf < 2 ^ 31"
  shows "flash_read (file_image a buf) a (length buf) = buf"
proof (rule nth_equalityI)
  show "length (flash_read (file_image a buf) a (length buf)) = length buf" by (simp add: flash_read_def)
  fix k assume "k < length (flash_read (file_image a buf) a (length buf))"
  then have k: "k < length buf" by (simp add: flash_read_def)
  let ?n = "length (file_image a buf)" and ?p = "a + of_nat k"
  have img: "(c, e) \<in> set (rev (file_image a buf)) \<longleftrightarrow> (\<exists>j<?n. c = a + of_nat (1024 * j) \<and> e = take 1024 (drop (1024 * j) buf))"
    for c e by (auto simp: in_set_conv_nth nth_file_image)
  have off: "unat (?p - (a + of_nat (1024 * j))) = (if 1024 * j \<le> k then k - 1024 * j else 2 ^ 32 + k - 1024 * j)" if "j < ?n" for j
    using offset_of [of k "1024 * j"] file_image_in(1) [OF that] k assms by simp
  have "cell (rev (file_image a buf)) ?p = buf ! k"
  proof (rule cell_agrees)
    let ?j = "k div 1024"
    have j: "1024 * ?j + k mod 1024 = k" "k mod 1024 < 1024" by simp_all
    have jn: "?j < ?n"
    proof (rule ccontr)
      assume "\<not> ?j < ?n"
      then have "1024 * ?n \<le> 1024 * ?j" by simp
      with segment_count(1) [of buf] j(1) k show False unfolding length_file_image by linarith
    qed
    have le: "1024 * ?j \<le> k" using j(1) by linarith
    show "(a + of_nat (1024 * ?j), take 1024 (drop (1024 * ?j) buf)) \<in> set (rev (file_image a buf))"
      unfolding img using jn by blast
    show "unat (?p - (a + of_nat (1024 * ?j))) < length (take 1024 (drop (1024 * ?j) buf))"
    proof -
      have "k - 1024 * ?j = k mod 1024" "k mod 1024 < length buf - 1024 * ?j" using j(1) k by linarith+
      with j(2) le show ?thesis by (simp only: off [OF jn] if_True length_take length_drop min_less_iff_conj)
    qed
    show "\<forall>(c, e)\<in>set (rev (file_image a buf)). unat (?p - c) < length e \<longrightarrow> e ! unat (?p - c) = buf ! k"
    proof clarify
      fix c e assume "(c, e) \<in> set (rev (file_image a buf))" and in_e: "unat (?p - c) < length e"
      then obtain i where i: "i < ?n" "c = a + of_nat (1024 * i)" "e = take 1024 (drop (1024 * i) buf)" using img by blast
      note o = off [OF i(1)] and lt = file_image_in(1) [OF i(1)]
      show "e ! unat (?p - c) = buf ! k"
      proof (cases "1024 * i \<le> k")
        case True
        then have "unat (?p - c) = k - 1024 * i" using o i(2) by simp
        with in_e True i(3) lt show ?thesis by simp
      next
        case False
        then have "unat (?p - c) = 2 ^ 32 + k - 1024 * i" using o i(2) by simp
        moreover have "length e \<le> 1024" using i(3) by simp
        ultimately show ?thesis using in_e lt assms by simp
      qed
    qed
  qed
  with k show "flash_read (file_image a buf) a (length buf) ! k = buf ! k" by (simp add: flash_read_def)
qed

subsection \<open>The system\<close>

text \<open>The device has address \<open>n + 1\<close> for the slave number \<open>n\<close>; the output is at an address that is not \<open>NULL\<close>.\<close>

interpretation upgrade: upgrade_system
    "device_reply fl_line flash_clear (word_of_int (int n + 1))" "flash.takes (word_of_int (int n + 1))" flash.holds flash.expects
    flash.correct flash.accepted wire_request wire_addr "int n" "on_line fl_line flash_clear"
    "\<lambda>h. on_line fl_line flash_clear h \<and> h_addr h = word_of_int (int n + 1)" wr_device wr_now "file_ready a (firmware b bs)"
    "file_env fs buff" wire_delay i "file_image a (firmware b bs)" "file_sign a (firmware b bs)" "Suc self"
  for n a b bs fs buff i self
proof (intro upgrade_system.intro upgrade_system_axioms.intro)
  show "upgrade_device (device_reply fl_line flash_clear (word_of_int (int n + 1))) (flash.takes (word_of_int (int n + 1)))
      flash.holds flash.expects flash.correct flash.accepted"
    using flash.upgrade_device_axioms by (simp only: flash.reply_def)
  show "flash.correct (file_image a (firmware b bs)) (fi_size (file_sign a (firmware b bs))) (fi_addr (file_sign a (firmware b bs)))
      (fi_crc (file_sign a (firmware b bs)))"
    using firmware_fits(2) [of b bs] flash_holds_image [OF firmware_fits(2), of a b bs]
    by (simp add: flash.correct_def flash_crc_def file_sign_def unat_of_nat_u32)
qed (simp_all add: line.command_link_axioms file_input.upgrade_source_axioms)

text \<open>The parties at the start: a new slave with number \<open>n\<close> and input \<open>i\<close>, whose owner has registered the
  event for a finished download; an idle output, whose events are the slave's; and a device of
  address \<open>n + 1\<close> that takes segments and has written none.\<close>

definition slave_starts :: "nat \<Rightarrow> nat \<Rightarrow> int \<Rightarrow> 'cb sm_boot_slave \<Rightarrow> bool" where
  "slave_starts n i time s \<longleftrightarrow> bs_id s = int n \<and> bs_input s = Ref i \<and> \<not> is_null (bs_output s)
     \<and> (\<exists>seg. bs_segment s = Ref seg \<and> length (sg_data seg) = SM_SEGMENT_FW_SIZE \<and> sg_index seg = 0)
     \<and> bs_state s = SLAVE_IDLE \<and> bs_waiting_seg s = 0 \<and> bs_repeat s = 0 \<and> over (bs_timeout s) time
     \<and> length (bs_events s) = SM_BOOT_SLAVE_EVENT_NUMBER \<and> \<not> is_null (bs_events s ! 3)"

definition output_starts :: "int \<Rightarrow> host_output \<Rightarrow> bool" where
  "output_starts time q \<longleftrightarrow> output_ok q \<and> ho_state q = UPGRADE_IDLE \<and> ho_src_id q = -1
     \<and> et_duration (ho_timeout q) \<le> 200 \<and> et_start_time (ho_timeout q) \<le> time"

definition device_starts :: "u8 \<Rightarrow> flash device \<Rightarrow> bool" where
  "device_starts addr f \<longleftrightarrow> (case f of (rx, v) \<Rightarrow>
     host_idle rx \<and> h_addr rx = addr \<and> h_cmd_callback rx = Ref (loader_callback read_be32 read_be16 memory_crc flash_put addr)
     \<and> bound flash_env (dv_if v) \<and> bl_state (dv_loader v) = STT_UPGRADING \<and> \<not> is_null (bl_boot_if_active (dv_loader v))
     \<and> fs_is_first_time_update (bh_fw_signature (dv_if v)) \<noteq> 1 \<and> dv_world v = \<lparr>fl_written = [], fl_line = []\<rparr>
     \<and> (\<exists>g. bh_segment (dv_if v) = Ref g \<and> length (sg_data g) = SM_SEGMENT_FW_SIZE))"

lemma upgrade_of_firmware:
  assumes "slave_starts n i (wr_now x) s" "output_starts (wr_now x) q" "on_line fl_line flash_clear h"
    and "device_starts (word_of_int (int n + 1)) (wr_device x)" "file_ready a (firmware b bs) x"
    and "\<forall>t\<in>set ts. 200 \<le> t \<and> t \<le> 500" "length ts = transfer_calls (file_image a (firmware b bs))"
    and "0 \<le> wr_now x" "wr_now x + 2500 * int (length ts) < 2 ^ 32"
  shows "\<exists>s' w'. slave_calls (host_slave_env wire_request (file_env fs buff) wire_delay wire_addr (Suc self))
        (map (\<lambda>t. on_ext (wire_delay t)) ts) s \<lparr>ow_out = q, ow_host = h, ow_ext = x\<rparr> = Some (s', w', bs_events s ! 3)
     \<and> bs_state s' = SLAVE_FINISH_DOWNLOAD
     \<and> fl_written (dv_world (snd (wr_device (ow_ext w')))) = file_image a (firmware b bs)
     \<and> bl_state (dv_loader (snd (wr_device (ow_ext w')))) = STT_FINISH"
proof -
  let ?w = "\<lparr>ow_out = q, ow_host = h, ow_ext = x\<rparr>"
  have "flash.takes (word_of_int (int n + 1)) (wr_device x)" "flash.holds (wr_device x) = []"
    using assms(4) by (auto simp: device_starts_def flash.takes_def flash.holds_def)
  then have "upgrade.starting n a b bs i SLAVE_IDLE s ?w"
    using assms(1-3,5,8) unfolding upgrade.starting_def upgrade.together_def upgrade.soon_def
    by (auto simp: slave_starts_def output_starts_def)
  moreover have "upgrade.in_time a b bs (map wire_delay ts) s ?w"
    using assms(1,6,9) by (auto simp: upgrade.in_time_def upgrade.pause_def upgrade.waits_def wire_delay_def passes_def
      file_ready_def slave_starts_def)
  moreover have "length (map wire_delay ts) = transfer_calls (file_image a (firmware b bs))" using assms(7) by simp
  ultimately have "upgrade.finishes fs buff a b bs self (map wire_delay ts) s ?w"
    by (rule upgrade.transfer_finishes)
  then show ?thesis
    by (simp add: upgrade.finishes_def upgrade.env_def flash.holds_def flash.accepted_def comp_def)
qed

subsection \<open>Properties\<close>

text \<open>C1: An upgrade reaches the flash. Let the file input have read a firmware from its Intel HEX file, and let a
  slave, its host output and a device that waits for segments start from rest, the clock far from its
  wrap-around. Then calls of the slave every 200 to 500 milliseconds, one for each announcement and each
  data command of the firmware and four more, end the upgrade: the last call asks for the callback of a
  finished download, the slave has state FINISH_DOWNLOAD, the device's bootloader has accepted the
  firmware (state FINISH), and its flash holds exactly the bytes of the HEX file at the address that
  the file gives. Every byte travels in frames of the host protocol and is checked by their CRC.\<close>

theorem hex_file_reaches_flash:
  assumes "line_end nl" and "\<forall>(y, d)\<in>set ((y0, d0) # recs). length d \<le> 32" and "length buff = 50"
    and "length (fb_hex_data g) = 32" and "fi_addr (fb_sign g) = 0" and "fi_data_address_offset (fb_sign g) = -1"
    and "fi_version (fb_sign g) = [1, 0, 2]" and "buf = concat (map snd ((y0, d0) # recs))" and "buf \<noteq> []" and "length buf < 2 ^ 31"
    and "fs = \<lparr>fl_hex = Ref (hex_file nl base ((y0, d0) # recs)), fl_bin_written = True, fl_bin_read = True, fl_alloc = True\<rparr>"
    and "sm_file_init fs buff g = Some (0, wr_file x)" and "a = push_bit 16 (ucast base) + ucast y0"
    and "slave_starts n i (wr_now x) s" and "output_starts (wr_now x) q" and "on_line fl_line flash_clear h"
    and "device_starts (word_of_int (int n + 1)) (wr_device x)"
    and "\<forall>t\<in>set ts. 200 \<le> t \<and> t \<le> 500" and "length ts = transfer_calls (file_image a buf)"
    and "0 \<le> wr_now x" and "wr_now x + 2500 * int (length ts) < 2 ^ 32"
  shows "\<exists>s' w'. slave_calls (host_slave_env wire_request (file_env fs buff) wire_delay wire_addr (Suc self))
        (map (\<lambda>t. on_ext (wire_delay t)) ts) s \<lparr>ow_out = q, ow_host = h, ow_ext = x\<rparr> = Some (s', w', bs_events s ! 3)
     \<and> bs_state s' = SLAVE_FINISH_DOWNLOAD
     \<and> flash_read (fl_written (dv_world (snd (wr_device (ow_ext w'))))) a (length buf) = buf
     \<and> bl_state (dv_loader (snd (wr_device (ow_ext w')))) = STT_FINISH"
proof -
  have "file_ready a buf x"
    using file_loaded [OF assms(1,2,4,5,6,3,8,10), of base] assms(7,11-13) by (auto simp: file_ready_def)
  then have ready: "file_ready a (firmware (hd buf) (tl buf)) x" unfolding firmware_any [OF assms(9,10)] .
  have "length ts = transfer_calls (file_image a (firmware (hd buf) (tl buf)))"
    using assms(19) unfolding firmware_any [OF assms(9,10)] .
  from upgrade_of_firmware [OF assms(14-17) ready assms(18) this assms(20,21), of fs buff self]
  show ?thesis unfolding firmware_any [OF assms(9,10)] using flash_holds_image [OF assms(10), of a] by auto
qed

text \<open>The parties of a small upgrade: slave 3 at address 4.\<close>

definition demo_slave :: "nat sm_boot_slave" where
  "demo_slave = idle_slave\<lparr>bs_input := Ref 1, bs_output := Ref 1, bs_events := [NULL, NULL, NULL, Ref 7, NULL]\<rparr>"

definition demo_output :: host_output where
  "demo_output = \<lparr>ho_src_id = -1, ho_events = [Ref On_ready, Ref On_fw_info, Ref On_seg, Ref On_finish_download, Ref On_abort],
     ho_fw_signature = NULL, ho_segment = NULL, ho_state = UPGRADE_IDLE, ho_seg_offset = 0, ho_last_packet = False,
     ho_timeout = \<lparr>et_duration = 200, et_start_time = 0\<rparr>, ho_retry = 0\<rparr>"

definition demo_master_host :: "(nat, flash wire) link_state sm_host" where
  "demo_master_host = sm_host_create_default undefined SM_HOST_ASYNC_MODE 0 (Ref (wire_send fl_line flash_clear)) (Ref wire_recv) 0"

definition demo_device :: "flash device" where
  "demo_device = ((sm_host_create_default undefined SM_HOST_ASYNC_MODE 4 NULL NULL 0)
       \<lparr>h_cmd_callback := Ref (loader_callback read_be32 read_be16 memory_crc flash_put 4), h_cmd_arg := 0\<rparr>,
     \<lparr>dv_if = demo_host flash_env, dv_loader = demo_bootloader STT_UPGRADING, dv_world = \<lparr>fl_written = [], fl_line = []\<rparr>\<rparr>)"

lemma demo_starts:
  "slave_starts 3 1 0 demo_slave" "output_starts 0 demo_output" "on_line fl_line flash_clear demo_master_host"
  "device_starts 4 demo_device"
proof -
  show "slave_starts 3 1 0 demo_slave"
    by (simp add: slave_starts_def demo_slave_def idle_slave_def sm_seg_create_def over_def)
  show "output_starts 0 demo_output"
    by (simp add: output_starts_def demo_output_def output_ok_def)
  show "on_line fl_line flash_clear demo_master_host"
    by (simp add: on_line_def demo_master_host_def sm_host_create_default_def clear_buffers_def host_wf_def unread_def pending_def)
  show "device_starts 4 demo_device"
    using host_idle_created [where mode = SM_HOST_ASYNC_MODE and recv = NULL and send = NULL and addr = 4 and arg = 0]
    by (simp add: device_starts_def demo_device_def bound_demo_host sm_host_create_default_def clear_buffers_def)
      (simp add: demo_host_def demo_bootloader_def blank_signature_def length_blank_segment)
qed

theorem hex_file_reaches_flash_witness:
  "\<exists>g' s' w'. sm_file_init \<lparr>fl_hex = Ref (hex_file [0x0A] 0x0800 [(0x4000, [1, 2, 3])]), fl_bin_written = True,
        fl_bin_read = True, fl_alloc = True\<rparr> (replicate 50 0) fresh_input = Some (0, g')
     \<and> slave_calls (host_slave_env wire_request (file_env \<lparr>fl_hex = Ref (hex_file [0x0A] 0x0800 [(0x4000, [1, 2, 3])]),
          fl_bin_written = True, fl_bin_read = True, fl_alloc = True\<rparr> (replicate 50 0)) wire_delay wire_addr 1)
        (map (\<lambda>t. on_ext (wire_delay t)) (replicate 6 300)) demo_slave
        \<lparr>ow_out = demo_output, ow_host = demo_master_host,
          ow_ext = \<lparr>wr_now = 0, wr_inbox = [], wr_device = demo_device, wr_file = g'\<rparr>\<rparr> = Some (s', w', Ref 7)
     \<and> flash_read (fl_written (dv_world (snd (wr_device (ow_ext w'))))) 0x08004000 3 = [1, 2, 3]"
proof -
  let ?fs = "\<lparr>fl_hex = Ref (hex_file [0x0A] 0x0800 [(0x4000, [1, 2, 3])]), fl_bin_written = True, fl_bin_read = True, fl_alloc = True\<rparr>"
  have g: "length (fb_hex_data fresh_input) = 32" "fi_addr (fb_sign fresh_input) = 0"
    "fi_data_address_offset (fb_sign fresh_input) = -1" "fi_version (fb_sign fresh_input) = [1, 0, 2]"
    by (simp_all add: fresh_input_def)
  obtain g' where g': "sm_file_init ?fs (replicate 50 0) fresh_input = Some (0, g')"
    using file_loaded [where nl = "[0x0A]" and x = "0x4000" and d = "[1, 2, 3]" and recs = "[]" and g = fresh_input
        and buff = "replicate 50 0" and buf = "[1, 2, 3]" and base = "0x0800"] g by auto
  let ?x = "\<lparr>wr_now = 0, wr_inbox = [], wr_device = demo_device, wr_file = g'\<rparr>"
  have calls: "length (replicate 6 (300 :: int)) = transfer_calls (file_image 0x08004000 [1, 2, 3])"
    by (simp add: transfer_calls_def file_image_def data_commands_def)
  show ?thesis
    using hex_file_reaches_flash [where nl = "[0x0A]" and ?y0.0 = "0x4000" and ?d0.0 = "[1, 2, 3]" and recs = "[]" and g = fresh_input
        and buff = "replicate 50 0" and buf = "[1, 2, 3]" and base = "0x0800" and a = "0x08004000" and fs = ?fs and x = ?x
        and n = 3 and i = 1 and s = demo_slave and q = demo_output and h = demo_master_host and ts = "replicate 6 300" and self = 0]
      g g' demo_starts calls
    by (auto simp: demo_slave_def numeral_3_eq_3)
qed

end
