(* ===== verification/Scheduler.thy ===== *)
theory Scheduler
  imports Timer
begin

section \<open>The task scheduler\<close>

text \<open>
  Models \<^verbatim>\<open>common/schedule/sm_core_sch.c\<close>: a table of 32 tasks, each a function that is called with its argument
  when its interval has passed, a number of times or for ever. Functions and arguments are addresses;
  \<open>run\<close> is what a function does, which may call the scheduler itself, so it acts on the table and on the
  world. The clock is a parameter as in \<open>Timer\<close>.
\<close>

abbreviation SM_SCH_TASK_MAX_SUPPORT :: nat where "SM_SCH_TASK_MAX_SUPPORT \<equiv> 32"
abbreviation SM_SCH_REPEAT_FOREVER :: int where "SM_SCH_REPEAT_FOREVER \<equiv> 0xFFFF"

record sch_task =
  ta_timeout :: elapsed_timer
  ta_count :: int
  ta_repeat_count :: int
  ta_interval :: int
  ta_fn :: "nat ptr"
  ta_arg :: "nat ptr"

type_synonym sm_scheduler = "sch_task list"
type_synonym 'w task_run = "nat \<Rightarrow> nat ptr \<Rightarrow> sm_scheduler \<times> 'w \<Rightarrow> (sm_scheduler \<times> 'w) option"

subsection \<open>Operations\<close>

definition empty_task :: "sch_task \<Rightarrow> sch_task" where
  "empty_task t = t\<lparr>ta_fn := NULL, ta_interval := 0, ta_repeat_count := 0\<rparr>"

text \<open>The initial loop clears the count and argument of the first entry each time.\<close>

definition sch_init :: "sm_scheduler \<Rightarrow> sm_scheduler" where
  "sch_init s = (map empty_task s)[0 := empty_task (s ! 0)\<lparr>ta_count := 0, ta_arg := NULL\<rparr>]"

definition sm_sch_create :: "sm_scheduler ptr \<Rightarrow> sm_scheduler ptr" where
  "sm_sch_create mem = (case mem of NULL \<Rightarrow> NULL | Ref s \<Rightarrow> Ref (sch_init s))"

definition sm_sch_create_default :: "sm_scheduler \<Rightarrow> sm_scheduler" where
  "sm_sch_create_default g = sch_init g"

text \<open>The function ends without a \<open>return\<close>: its value \<open>junk\<close> is indeterminate.\<close>

definition sm_sch_free :: "int \<Rightarrow> sm_scheduler ptr \<Rightarrow> int \<times> sm_scheduler ptr" where
  "sm_sch_free junk p =
     (case p of NULL \<Rightarrow> (-1, NULL) | Ref s \<Rightarrow> (junk, Ref (map (\<lambda>t. (empty_task t)\<lparr>ta_arg := NULL\<rparr>) s)))"

definition drop_task :: "nat ptr \<Rightarrow> sch_task \<Rightarrow> sch_task" where
  "drop_task fn t = (if ta_fn t = fn then t\<lparr>ta_fn := NULL\<rparr> else t)"

text \<open>The first free entry takes the task; entries after it lose the same function.\<close>

definition sm_sch_start_task ::
  "'w clock \<Rightarrow> sm_scheduler ptr \<Rightarrow> int \<Rightarrow> int \<Rightarrow> nat ptr \<Rightarrow> nat ptr \<Rightarrow> 'w \<Rightarrow> int \<times> sm_scheduler ptr \<times> 'w" where
  "sm_sch_start_task tick p interval repeat task arg w =
     (case p of
        NULL \<Rightarrow> (-1, NULL, w)
      | Ref s \<Rightarrow>
          (case find (\<lambda>i. is_null (ta_fn (s ! i))) [0..<SM_SCH_TASK_MAX_SUPPORT] of
             None \<Rightarrow> (-1, Ref s, w)
           | Some i \<Rightarrow>
               (case elapsed_timer_resetz tick (ta_timeout (s ! i)) interval w of (t, w) \<Rightarrow>
                  (int i, Ref (take i s @ (s ! i)\<lparr>ta_arg := arg, ta_fn := task, ta_interval := interval,
                      ta_repeat_count := repeat, ta_count := 0, ta_timeout := t\<rparr> # map (drop_task task) (drop (Suc i) s)), w))))"

definition clear_task :: "sch_task \<Rightarrow> sch_task" where
  "clear_task t = (empty_task t)\<lparr>ta_arg := NULL, ta_count := 0\<rparr>"

text \<open>A negative number is an access before the table.\<close>

definition sm_sch_cancel_task :: "sm_scheduler ptr \<Rightarrow> int \<Rightarrow> (int \<times> sm_scheduler ptr) option" where
  "sm_sch_cancel_task p id' =
     (case p of
        NULL \<Rightarrow> Some (-1, NULL)
      | Ref s \<Rightarrow>
          if int SM_SCH_TASK_MAX_SUPPORT \<le> id' then Some (-1, p)
          else if id' < 0 then None
          else Some (0, Ref (s[nat id' := clear_task (s ! nat id')])))"

definition sm_sch_cancel_taskz :: "sm_scheduler ptr \<Rightarrow> nat ptr \<Rightarrow> int \<times> sm_scheduler ptr" where
  "sm_sch_cancel_taskz p fn =
     (case p of
        NULL \<Rightarrow> (-1, NULL)
      | Ref s \<Rightarrow> if is_null fn then (-1, p) else (0, Ref (map (\<lambda>t. if ta_fn t = fn then clear_task t else t) s)))"

text \<open>One entry in \<open>sm_sch_process\<close>. The entry is read again after its function has run.\<close>

definition sch_repeats :: "sch_task \<Rightarrow> bool" where
  "sch_repeats t \<longleftrightarrow> ta_count t < ta_repeat_count t - 1 \<or> ta_repeat_count t = SM_SCH_REPEAT_FOREVER"

text \<open>The 32 bit numbers of the test and of the count overflow here, which C leaves undefined.\<close>

definition sch_overflow :: "sch_task \<Rightarrow> bool" where
  "sch_overflow t \<longleftrightarrow> ta_repeat_count t = -0x80000000 \<or> sch_repeats t \<and> ta_count t = 0x7FFFFFFF"

definition sch_step :: "'w task_run \<Rightarrow> 'w clock \<Rightarrow> nat \<Rightarrow> sm_scheduler \<times> 'w \<Rightarrow> (sm_scheduler \<times> 'w) option" where
  "sch_step run tick i x =
     (case x of (s, w) \<Rightarrow>
      (case elapsed_timer_get_remain tick (ta_timeout (s ! i)) w of (remain, w) \<Rightarrow>
        (case ta_fn (s ! i) of
           NULL \<Rightarrow> Some (s, w)
         | Ref f \<Rightarrow>
             if remain \<noteq> 0 then Some (s, w)
             else do {
               (s, w) \<leftarrow> run f (ta_arg (s ! i)) (s, w);
               let t = s ! i;
               if sch_overflow t then None
               else if sch_repeats t then
                 (case elapsed_timer_reset tick (ta_timeout t) w of (timer, w) \<Rightarrow>
                    Some (s[i := t\<lparr>ta_count := ta_count t + 1, ta_timeout := timer\<rparr>], w))
               else Some (s[i := t\<lparr>ta_fn := NULL, ta_arg := NULL\<rparr>], w) })))"

fun sch_loop :: "'w task_run \<Rightarrow> 'w clock \<Rightarrow> nat list \<Rightarrow> sm_scheduler \<times> 'w \<Rightarrow> (sm_scheduler \<times> 'w) option" where
  "sch_loop run tick [] x = Some x"
| "sch_loop run tick (i # is) x = Option.bind (sch_step run tick i x) (sch_loop run tick is)"

definition sm_sch_process :: "'w task_run \<Rightarrow> 'w clock \<Rightarrow> sm_scheduler ptr \<Rightarrow> 'w \<Rightarrow> (int \<times> sm_scheduler ptr \<times> 'w) option" where
  "sm_sch_process run tick p w =
     (case p of
        NULL \<Rightarrow> Some (-1, NULL, w)
      | Ref s \<Rightarrow> do {
          (s, w) \<leftarrow> sch_loop run tick [0..<SM_SCH_TASK_MAX_SUPPORT] (s, w);
          Some (0, Ref s, w) })"

subsection \<open>Tasks that leave the scheduler alone\<close>

text \<open>
  The contract of such tasks: a task has an effect \<open>eff\<close> on the world, the clock reads \<open>now\<close>, and no time
  passes while the tasks run.
\<close>

locale plain_tasks =
  fixes run :: "'w task_run" and tick :: "'w clock" and eff :: "nat \<Rightarrow> nat ptr \<Rightarrow> 'w \<Rightarrow> 'w" and now :: "'w \<Rightarrow> int"
  assumes run: "run f a (s, w) = Some (s, eff f a w)"
    and tick: "tick w = (now w, w)"
    and still: "now (eff f a w) = now w"

definition due :: "int \<Rightarrow> sch_task \<Rightarrow> bool" where
  "due time t \<longleftrightarrow> \<not> is_null (ta_fn t) \<and> et_duration (ta_timeout t) \<le> time - et_start_time (ta_timeout t)"

text \<open>What a call of \<open>sm_sch_process\<close> makes of a task, and of the world.\<close>

definition after_call :: "int \<Rightarrow> sch_task \<Rightarrow> sch_task" where
  "after_call time t =
     (if \<not> due time t then t
      else if sch_repeats t then t\<lparr>ta_count := ta_count t + 1, ta_timeout := (ta_timeout t)\<lparr>et_start_time := time\<rparr>\<rparr>
      else t\<lparr>ta_fn := NULL, ta_arg := NULL\<rparr>)"

definition due_tasks :: "int \<Rightarrow> sm_scheduler \<Rightarrow> (nat \<times> nat ptr) list" where
  "due_tasks time s = map (\<lambda>t. (deref (ta_fn t), ta_arg t)) (filter (due time) s)"

context plain_tasks
begin

definition effects :: "(nat \<times> nat ptr) list \<Rightarrow> 'w \<Rightarrow> 'w" where
  "effects = fold (\<lambda>(f, a). eff f a)"

lemma effects_now [simp]: "now (effects fs w) = now w"
  by (induction fs arbitrary: w) (auto simp: effects_def still)

lemma step_plain:
  assumes "\<not> sch_overflow (s ! i)"
  shows "sch_step run tick i (s, w) = Some (s[i := after_call (now w) (s ! i)],
     effects (due_tasks (now w) [s ! i]) w)"
  using assms by (auto simp: sch_step_def elapsed_timer_get_remain_def elapsed_timer_reset_def tick run still Let_def due_def after_call_def
      due_tasks_def effects_def split: ptr.split)

lemma loop_plain:
  assumes "\<forall>t\<in>set zs. \<not> sch_overflow t"
  shows "sch_loop run tick [length ys..<length ys + length zs] (ys @ zs, w)
     = Some (ys @ map (after_call (now w)) zs, effects (due_tasks (now w) zs) w)"
  using assms
proof (induction zs arbitrary: ys w)
  case (Cons z zs)
  then have ov: "\<not> sch_overflow z" "\<forall>t\<in>set zs. \<not> sch_overflow t" by simp_all
  have "sch_loop run tick [length ys..<length ys + length (z # zs)] (ys @ z # zs, w)
      = sch_loop run tick [length (ys @ [after_call (now w) z])..<length (ys @ [after_call (now w) z]) + length zs]
          ((ys @ [after_call (now w) z]) @ zs, effects (due_tasks (now w) [z]) w)"
    by (simp add: upt_conv_Cons step_plain ov del: upt_Suc)
  also have "\<dots> = Some (ys @ map (after_call (now w)) (z # zs), effects (due_tasks (now w) zs) (effects (due_tasks (now w) [z]) w))"
    unfolding Cons.IH [OF ov(2)] by simp
  also have "effects (due_tasks (now w) zs) (effects (due_tasks (now w) [z]) w) = effects (due_tasks (now w) (z # zs)) w"
    by (simp add: effects_def due_tasks_def)
  finally show ?case .
qed (simp add: effects_def due_tasks_def)

lemma process_plain:
  assumes "length s = SM_SCH_TASK_MAX_SUPPORT" "\<forall>t\<in>set s. \<not> sch_overflow t"
  shows "sm_sch_process run tick (Ref s) w
     = Some (0, Ref (map (after_call (now w)) s), effects (due_tasks (now w) s) w)"
  using loop_plain [of s "[]" w] assms by (simp add: sm_sch_process_def)

end

text \<open>Calls at intervals: before each the world changes, as time passes.\<close>

fun sch_calls :: "'w task_run \<Rightarrow> 'w clock \<Rightarrow> ('w \<Rightarrow> 'w) list \<Rightarrow> sm_scheduler ptr \<Rightarrow> 'w \<Rightarrow> (sm_scheduler ptr \<times> 'w) option" where
  "sch_calls run tick [] p w = Some (p, w)"
| "sch_calls run tick (d # ds) p w = do {
     (_, p, w) \<leftarrow> sm_sch_process run tick p (d w);
     sch_calls run tick ds p w }"

subsection \<open>Tasks that are logged\<close>

record sch_world =
  sw_now :: int
  sw_log :: "(nat \<times> nat ptr) list"

definition log_task :: "nat \<Rightarrow> nat ptr \<Rightarrow> sch_world \<Rightarrow> sch_world" where
  "log_task f a w = w\<lparr>sw_log := sw_log w @ [(f, a)]\<rparr>"

definition log_run :: "sch_world task_run" where
  "log_run f a x = Some (fst x, log_task f a (snd x))"

definition log_tick :: "sch_world clock" where
  "log_tick w = (sw_now w, w)"

definition log_wait :: "int \<Rightarrow> sch_world \<Rightarrow> sch_world" where
  "log_wait d w = w\<lparr>sw_now := sw_now w + d\<rparr>"

interpretation logged: plain_tasks log_run log_tick log_task sw_now
  by unfold_locales (simp_all add: log_run_def log_tick_def log_task_def)

subsection \<open>Tasks that take time and use the scheduler\<close>

text \<open>How often a task that asks for \<open>n\<close> repetitions runs in \<open>k\<close> calls.\<close>

definition runs_due :: "int \<Rightarrow> nat \<Rightarrow> nat" where
  "runs_due n k = (if n = SM_SCH_REPEAT_FOREVER then k else min k (nat (max 1 n)))"

text \<open>The clock \<open>tick\<close> reads \<open>now\<close>; a reading may take time. \<open>runs\<close> is how often a function has been called.\<close>

definition reads_clock :: "'w clock \<Rightarrow> ('w \<Rightarrow> int) \<Rightarrow> ('w \<Rightarrow> nat) \<Rightarrow> bool" where
  "reads_clock tick now runs \<longleftrightarrow> (\<forall>w. fst (tick w) = now w \<and> now w \<le> now (snd (tick w)) \<and> runs (snd (tick w)) = runs w)"

lemma reads_clockE:
  assumes "reads_clock tick now runs"
  obtains w' where "tick w = (now w, w')" "now w \<le> now w'" "runs w' = runs w"
  using assms unfolding reads_clock_def by (metis prod.collapse)

text \<open>What a task may do of entry \<open>t\<close>, which \<open>t'\<close> is afterwards: an entry of \<open>f\<close> stays and none becomes one;
  no count grows, and no entry gets the repetitions with which C leaves the test undefined.\<close>

definition spared :: "nat \<Rightarrow> sch_task \<Rightarrow> sch_task \<Rightarrow> bool" where
  "spared f t t' \<longleftrightarrow> (ta_fn t = Ref f \<or> ta_fn t' = Ref f \<longrightarrow> t' = t)
     \<and> (ta_repeat_count t \<noteq> -0x80000000 \<longrightarrow> ta_repeat_count t' \<noteq> -0x80000000) \<and> ta_count t' \<le> max 0 (ta_count t)"

definition spare_task :: "nat \<Rightarrow> 'w task_run \<Rightarrow> ('w \<Rightarrow> int) \<Rightarrow> ('w \<Rightarrow> nat) \<Rightarrow> bool" where
  "spare_task f run now runs \<longleftrightarrow> (\<forall>g a s w. length s = SM_SCH_TASK_MAX_SUPPORT \<longrightarrow>
     (\<exists>s' w'. run g a (s, w) = Some (s', w') \<and> length s' = SM_SCH_TASK_MAX_SUPPORT
       \<and> (\<forall>j<SM_SCH_TASK_MAX_SUPPORT. spared f (s ! j) (s' ! j))
       \<and> now w \<le> now w' \<and> runs w' = runs w + (if g = f then 1 else 0)))"

text \<open>Entry \<open>i\<close> holds the task, which has run \<open>k\<close> times, the last time not after \<open>b\<close>, or holds its function no more
  after the last run; no other entry has its function.\<close>

definition task_at :: "nat \<Rightarrow> nat \<Rightarrow> nat ptr \<Rightarrow> int \<Rightarrow> int \<Rightarrow> int \<Rightarrow> nat \<Rightarrow> sm_scheduler \<Rightarrow> bool" where
  "task_at i f a d n b k s \<longleftrightarrow> length s = SM_SCH_TASK_MAX_SUPPORT \<and> i < SM_SCH_TASK_MAX_SUPPORT
     \<and> (\<forall>j<SM_SCH_TASK_MAX_SUPPORT. j \<noteq> i \<longrightarrow> ta_fn (s ! j) \<noteq> Ref f)
     \<and> (if n = SM_SCH_REPEAT_FOREVER \<or> k < nat (max 1 n)
        then ta_fn (s ! i) = Ref f \<and> ta_arg (s ! i) = a \<and> ta_repeat_count (s ! i) = n \<and> ta_count (s ! i) = int k
          \<and> et_duration (ta_timeout (s ! i)) = d \<and> et_start_time (ta_timeout (s ! i)) \<le> b
        else ta_fn (s ! i) \<noteq> Ref f)"

text \<open>Entry \<open>j\<close> may be counted \<open>c j\<close> times more.\<close>

definition room :: "(nat \<Rightarrow> int) \<Rightarrow> sm_scheduler \<Rightarrow> bool" where
  "room c s \<longleftrightarrow> (\<forall>j<SM_SCH_TASK_MAX_SUPPORT. c j \<le> 0x7FFFFFFF \<and> ta_repeat_count (s ! j) \<noteq> -0x80000000
     \<and> ta_count (s ! j) + c j \<le> 0x7FFFFFFF)"

text \<open>The counts stay in range for \<open>m\<close> more calls.\<close>

definition in_range :: "nat \<Rightarrow> sm_scheduler \<Rightarrow> bool" where
  "in_range m s \<longleftrightarrow> (\<forall>t\<in>set s. ta_repeat_count t \<noteq> -0x80000000 \<and> ta_count t + int m \<le> 0x7FFFFFFF)"

lemma in_range_room: "in_range m s \<Longrightarrow> m \<le> 0x7FFFFFFF \<Longrightarrow> length s = SM_SCH_TASK_MAX_SUPPORT \<Longrightarrow> room (\<lambda>_. int m) s"
  by (auto simp: in_range_def room_def)

lemma room_no_overflow: "room c s \<Longrightarrow> j < SM_SCH_TASK_MAX_SUPPORT \<Longrightarrow> 1 \<le> c j \<Longrightarrow> \<not> sch_overflow (s ! j)"
  unfolding room_def sch_overflow_def by fastforce

lemma room_spared:
  assumes "room c s" "\<forall>j<SM_SCH_TASK_MAX_SUPPORT. spared f (s ! j) (s' ! j)"
  shows "room c s'"
  unfolding room_def
proof (intro allI impI)
  fix j assume j: "j < SM_SCH_TASK_MAX_SUPPORT"
  then have "c j \<le> 0x7FFFFFFF" "ta_repeat_count (s ! j) \<noteq> -0x80000000" "ta_count (s ! j) + c j \<le> 0x7FFFFFFF"
    using assms(1) by (simp_all add: room_def)
  moreover have "spared f (s ! j) (s' ! j)" using assms(2) j by blast
  ultimately show "c j \<le> 0x7FFFFFFF \<and> ta_repeat_count (s' ! j) \<noteq> -0x80000000 \<and> ta_count (s' ! j) + c j \<le> 0x7FFFFFFF"
    by (auto simp: spared_def max_def split: if_splits)
qed

lemma room_less: "room c s \<Longrightarrow> (\<And>j. c' j \<le> c j) \<Longrightarrow> room c' s"
  unfolding room_def by (meson add_left_mono order_trans)

lemma room_count:
  assumes "room c s" "1 \<le> c j" "ta_repeat_count t = ta_repeat_count (s ! j)" "ta_count t \<le> ta_count (s ! j) + 1"
    and "length s = SM_SCH_TASK_MAX_SUPPORT"
  shows "room (c(j := c j - 1)) (s[j := t])"
  unfolding room_def
proof (intro allI impI)
  fix l assume l: "l < SM_SCH_TASK_MAX_SUPPORT"
  then have "c l \<le> 0x7FFFFFFF" "ta_repeat_count (s ! l) \<noteq> -0x80000000" "ta_count (s ! l) + c l \<le> 0x7FFFFFFF"
    using assms(1) by (simp_all add: room_def)
  then show "(c(j := c j - 1)) l \<le> 0x7FFFFFFF \<and> ta_repeat_count (s[j := t] ! l) \<noteq> -0x80000000
      \<and> ta_count (s[j := t] ! l) + (c(j := c j - 1)) l \<le> 0x7FFFFFFF"
    using assms(2-5) l by (cases "l = j") auto
qed

lemma task_at_spared:
  assumes "task_at i f a d n b k s" "\<forall>j<SM_SCH_TASK_MAX_SUPPORT. spared f (s ! j) (s' ! j)" "length s' = SM_SCH_TASK_MAX_SUPPORT"
  shows "task_at i f a d n b k s'"
proof -
  have i: "i < SM_SCH_TASK_MAX_SUPPORT" using assms(1) by (simp add: task_at_def)
  have "ta_fn (s' ! j) \<noteq> Ref f" if "j < SM_SCH_TASK_MAX_SUPPORT" "ta_fn (s ! j) \<noteq> Ref f" for j
    using assms(2) that unfolding spared_def by metis
  moreover have "s' ! i = s ! i" if "ta_fn (s ! i) = Ref f" using assms(2) that i unfolding spared_def by blast
  ultimately show ?thesis using assms(1,3) i by (simp add: task_at_def split: if_splits)
qed

lemma task_at_later:
  assumes "task_at i f a d n b k s" "b \<le> b'"
  shows "task_at i f a d n b' k s"
proof (cases "n = SM_SCH_REPEAT_FOREVER \<or> k < nat (max 1 n)")
  case True
  with assms show ?thesis unfolding task_at_def by simp
next
  case False
  with assms show ?thesis unfolding task_at_def by simp
qed

lemma task_at_other:
  assumes "task_at i f a d n b k s" "j \<noteq> i" "ta_fn t \<noteq> Ref f"
  shows "task_at i f a d n b k (s[j := t])"
proof -
  have "ta_fn (s[j := t] ! l) \<noteq> Ref f" if "l < SM_SCH_TASK_MAX_SUPPORT" "l \<noteq> i" for l
    using assms that by (cases "l = j") (auto simp: task_at_def)
  then show ?thesis using assms by (simp add: task_at_def)
qed

text \<open>One entry whose function does not stop the others: the cases of \<open>sch_step\<close>.\<close>

lemma step_cases:
  assumes "reads_clock tick now runs" "spare_task f run now runs" "length s = SM_SCH_TASK_MAX_SUPPORT"
    and "room c s" "j < SM_SCH_TASK_MAX_SUPPORT" "1 \<le> c j"
  obtains (idle) w' where "\<not> due (now w) (s ! j)" "sch_step run tick j (s, w) = Some (s, w')" "now w \<le> now w'" "runs w' = runs w"
  | (ran) s' t w' where "due (now w) (s ! j)" "length s' = SM_SCH_TASK_MAX_SUPPORT"
      "\<forall>l<SM_SCH_TASK_MAX_SUPPORT. spared f (s ! l) (s' ! l)" "sch_step run tick j (s, w) = Some (s'[j := t], w')"
      "now w \<le> now w'" "runs w' = runs w + (if ta_fn (s ! j) = Ref f then 1 else 0)"
      "if sch_repeats (s' ! j) then \<exists>b\<le>now w'. t = (s' ! j)\<lparr>ta_count := ta_count (s' ! j) + 1,
           ta_timeout := (ta_timeout (s' ! j))\<lparr>et_start_time := b\<rparr>\<rparr>
       else t = (s' ! j)\<lparr>ta_fn := NULL, ta_arg := NULL\<rparr>"
proof (cases "due (now w) (s ! j)")
  case False
  obtain w0 where w0: "tick w = (now w, w0)" "now w \<le> now w0" "runs w0 = runs w" by (rule reads_clockE [OF assms(1)])
  have "sch_step run tick j (s, w) = Some (s, w0)"
    using False by (cases "ta_fn (s ! j)") (auto simp: sch_step_def elapsed_timer_get_remain_def w0(1) due_def Let_def)
  then show ?thesis using idle False w0(2,3) by blast
next
  case True
  obtain w0 where w0: "tick w = (now w, w0)" "now w \<le> now w0" "runs w0 = runs w" by (rule reads_clockE [OF assms(1)])
  obtain g where g: "ta_fn (s ! j) = Ref g" using True by (cases "ta_fn (s ! j)") (auto simp: due_def)
  obtain s' w1 where r: "run g (ta_arg (s ! j)) (s, w0) = Some (s', w1)" "length s' = SM_SCH_TASK_MAX_SUPPORT"
      "\<forall>l<SM_SCH_TASK_MAX_SUPPORT. spared f (s ! l) (s' ! l)" "now w0 \<le> now w1" "runs w1 = runs w0 + (if g = f then 1 else 0)"
    using assms(2,3) unfolding spare_task_def by blast
  have ov: "\<not> sch_overflow (s' ! j)" using room_no_overflow [OF room_spared [OF assms(4) r(3)] assms(5,6)] .
  obtain w2 where w2: "tick w1 = (now w1, w2)" "now w1 \<le> now w2" "runs w2 = runs w1" by (rule reads_clockE [OF assms(1)])
  let ?again = "(s' ! j)\<lparr>ta_count := ta_count (s' ! j) + 1, ta_timeout := (ta_timeout (s' ! j))\<lparr>et_start_time := now w1\<rparr>\<rparr>"
  let ?last = "(s' ! j)\<lparr>ta_fn := NULL, ta_arg := NULL\<rparr>"
  have step: "sch_step run tick j (s, w) = (if sch_repeats (s' ! j) then Some (s'[j := ?again], w2) else Some (s'[j := ?last], w1))"
    using True by (simp add: sch_step_def elapsed_timer_get_remain_def elapsed_timer_reset_def w0(1) w2(1) g r(1) ov due_def Let_def)
  have runs: "runs w1 = runs w + (if ta_fn (s ! j) = Ref f then 1 else 0)" using g r(5) w0(3) by simp
  show ?thesis
  proof (cases "sch_repeats (s' ! j)")
    case rep: True
    have "\<exists>b\<le>now w2. ?again = (s' ! j)\<lparr>ta_count := ta_count (s' ! j) + 1, ta_timeout := (ta_timeout (s' ! j))\<lparr>et_start_time := b\<rparr>\<rparr>"
      using w2(2) by blast
    with ran [OF True r(2,3), of ?again w2] step rep w0(2) w2(2,3) r(4) runs show ?thesis by simp
  next
    case rep: False
    with ran [OF True r(2,3), of ?last w1] step w0(2) r(4) runs show ?thesis by simp
  qed
qed

lemma step_room:
  assumes "room c s" "\<forall>l<SM_SCH_TASK_MAX_SUPPORT. spared f (s ! l) (s' ! l)" "length s' = SM_SCH_TASK_MAX_SUPPORT" "1 \<le> c j"
    and "if sch_repeats (s' ! j) then \<exists>b\<le>e. t = (s' ! j)\<lparr>ta_count := ta_count (s' ! j) + 1,
           ta_timeout := (ta_timeout (s' ! j))\<lparr>et_start_time := b\<rparr>\<rparr>
       else t = (s' ! j)\<lparr>ta_fn := NULL, ta_arg := NULL\<rparr>"
  shows "room (c(j := c j - 1)) (s'[j := t])"
proof -
  have "ta_repeat_count t = ta_repeat_count (s' ! j)" "ta_count t \<le> ta_count (s' ! j) + 1"
    using assms(5) by (auto split: if_splits)
  then show ?thesis using room_count [OF room_spared [OF assms(1,2)] assms(4)] assms(3) by blast
qed

text \<open>Another entry does not matter; the entry of the task runs it when its interval has passed.\<close>

lemma step_other:
  assumes "reads_clock tick now runs" "spare_task f run now runs" "task_at i f a d n b k s" "room c s"
    and "j < SM_SCH_TASK_MAX_SUPPORT" "1 \<le> c j" "j \<noteq> i"
  shows "\<exists>s' w'. sch_step run tick j (s, w) = Some (s', w') \<and> task_at i f a d n b k s' \<and> room (c(j := c j - 1)) s'
    \<and> now w \<le> now w' \<and> runs w' = runs w"
proof -
  have len: "length s = SM_SCH_TASK_MAX_SUPPORT" using assms(3) by (simp add: task_at_def)
  show ?thesis
  proof (cases rule: step_cases [OF assms(1,2) len assms(4,5,6), where w = w, case_names idle ran])
    case (idle w')
    have "room (c(j := c j - 1)) s" by (rule room_less [OF assms(4)]) simp
    with idle assms(3) show ?thesis by blast
  next
    case (ran s' t w')
    have at: "task_at i f a d n b k s'" by (rule task_at_spared [OF assms(3) ran(3,2)])
    have nf: "ta_fn (s ! j) \<noteq> Ref f" "ta_fn (s' ! j) \<noteq> Ref f" using assms(3,5,7) at by (auto simp: task_at_def)
    have "ta_fn t \<noteq> Ref f" using ran(7) nf(2) by (auto split: if_splits)
    from task_at_other [OF at assms(7) this] step_room [OF assms(4) ran(3,2) assms(6) ran(7)] ran(4,5,6) nf(1)
    show ?thesis by auto
  qed
qed

lemma step_own:
  assumes "reads_clock tick now runs" "spare_task f run now runs" "task_at i f a d n b k s" "room c s"
    and "1 \<le> c i" "b + d \<le> now w"
  shows "\<exists>s' w'. sch_step run tick i (s, w) = Some (s', w') \<and> task_at i f a d n (now w') (Suc k) s' \<and> room (c(i := c i - 1)) s'
    \<and> now w \<le> now w' \<and> runs w' = runs w + (runs_due n (Suc k) - runs_due n k)"
proof -
  let ?live = "n = SM_SCH_REPEAT_FOREVER \<or> k < nat (max 1 n)"
  have i: "i < SM_SCH_TASK_MAX_SUPPORT" and len: "length s = SM_SCH_TASK_MAX_SUPPORT" using assms(3) by (simp_all add: task_at_def)
  have rd: "runs_due n (Suc k) - runs_due n k = (if ?live then 1 else 0)" by (auto simp: runs_due_def min_def)
  have own: "ta_fn (s ! i) = Ref f \<longleftrightarrow> ?live" using assms(3) by (auto simp: task_at_def)
  have due: "due (now w) (s ! i)" if ?live using that assms(3,6) by (simp add: task_at_def due_def)
  show ?thesis
  proof (cases rule: step_cases [OF assms(1,2) len assms(4) i assms(5), where w = w, case_names idle ran])
    case (idle w')
    then have "\<not> ?live" using due by blast
    then have "task_at i f a d n (now w') (Suc k) s" using assms(3) by (auto simp: task_at_def)
    moreover have "room (c(i := c i - 1)) s" by (rule room_less [OF assms(4)]) simp
    ultimately show ?thesis using idle \<open>\<not> ?live\<close> rd by auto
  next
    case (ran s' t w')
    have at: "task_at i f a d n b k s'" by (rule task_at_spared [OF assms(3) ran(3,2)])
    have reps: "sch_repeats (s' ! i) \<longleftrightarrow> n = SM_SCH_REPEAT_FOREVER \<or> Suc k < nat (max 1 n)" if ?live
      using that at by (auto simp: task_at_def sch_repeats_def)
    have "task_at i f a d n (now w') (Suc k) (s'[i := t])"
      using at ran(2,7) reps i by (auto simp: task_at_def split: if_splits)
    with step_room [OF assms(4) ran(3,2) assms(5) ran(7)] ran(4,5,6) rd own show ?thesis by auto
  qed
qed

lemma loop_others:
  assumes "reads_clock tick now runs" "spare_task f run now runs" "task_at i f a d n b k s" "room c s"
    and "\<forall>j\<in>set js. j < SM_SCH_TASK_MAX_SUPPORT \<and> 1 \<le> c j \<and> j \<noteq> i" "distinct js"
  shows "\<exists>s' w'. sch_loop run tick js (s, w) = Some (s', w') \<and> task_at i f a d n b k s'
    \<and> room (\<lambda>j. if j \<in> set js then c j - 1 else c j) s' \<and> now w \<le> now w' \<and> runs w' = runs w"
  using assms(3-6)
proof (induction js arbitrary: s w c)
  case (Cons j js)
  have j: "j < SM_SCH_TASK_MAX_SUPPORT" "1 \<le> c j" "j \<noteq> i" using Cons.prems(3) by simp_all
  obtain s1 w1 where 1: "sch_step run tick j (s, w) = Some (s1, w1)" "task_at i f a d n b k s1" "room (c(j := c j - 1)) s1"
      "now w \<le> now w1" "runs w1 = runs w"
    using step_other [OF assms(1,2) Cons.prems(1,2) j, of w] by blast
  have "\<forall>l\<in>set js. l < SM_SCH_TASK_MAX_SUPPORT \<and> 1 \<le> (c(j := c j - 1)) l \<and> l \<noteq> i" "distinct js"
    using Cons.prems(3,4) by auto
  from Cons.IH [OF 1(2,3) this, of w1] obtain s' w' where 2: "sch_loop run tick js (s1, w1) = Some (s', w')"
      "task_at i f a d n b k s'" "room (\<lambda>l. if l \<in> set js then (c(j := c j - 1)) l - 1 else (c(j := c j - 1)) l) s'"
      "now w1 \<le> now w'" "runs w' = runs w1" by blast
  have "room (\<lambda>l. if l \<in> set (j # js) then c l - 1 else c l) s'"
    by (rule room_less [OF 2(3)]) (use Cons.prems(4) in auto)
  with 1 2 show ?case by (intro exI [of _ s'] exI [of _ w']) auto
qed simp

lemma loop_append: "sch_loop run tick (is @ js) x = Option.bind (sch_loop run tick is x) (sch_loop run tick js)"
  by (induction "is" arbitrary: x) (simp_all split: Option.bind_split)

lemma process_task:
  assumes "reads_clock tick now runs" "spare_task f run now runs" "task_at i f a d n b k s" "room (\<lambda>_. int (Suc m)) s" "b + d \<le> now w"
  shows "\<exists>s' w'. sm_sch_process run tick (Ref s) w = Some (0, Ref s', w') \<and> task_at i f a d n (now w') (Suc k) s'
    \<and> room (\<lambda>_. int m) s' \<and> runs w' = runs w + (runs_due n (Suc k) - runs_due n k)"
proof -
  let ?c = "\<lambda>j. if j \<in> set [0..<i] then int (Suc m) - 1 else int (Suc m)"
  have i: "i < SM_SCH_TASK_MAX_SUPPORT" using assms(3) by (simp add: task_at_def)
  obtain s1 w1 where 1: "sch_loop run tick [0..<i] (s, w) = Some (s1, w1)" "task_at i f a d n b k s1" "room ?c s1"
      "now w \<le> now w1" "runs w1 = runs w"
    using loop_others [OF assms(1-4), of "[0..<i]" w] i by auto
  have "b + d \<le> now w1" "1 \<le> ?c i" using 1(4) assms(5) by simp_all
  from step_own [OF assms(1,2) 1(2,3) this(2,1)] obtain s2 w2 where 2: "sch_step run tick i (s1, w1) = Some (s2, w2)"
      "task_at i f a d n (now w2) (Suc k) s2" "room (?c(i := ?c i - 1)) s2" "runs w2 = runs w1 + (runs_due n (Suc k) - runs_due n k)" by blast
  have "\<forall>j\<in>set [Suc i..<SM_SCH_TASK_MAX_SUPPORT]. j < SM_SCH_TASK_MAX_SUPPORT \<and> 1 \<le> (?c(i := ?c i - 1)) j \<and> j \<noteq> i" by auto
  from loop_others [OF assms(1,2) 2(2,3) this distinct_upt, of w2] obtain s3 w3 where
    3: "sch_loop run tick [Suc i..<SM_SCH_TASK_MAX_SUPPORT] (s2, w2) = Some (s3, w3)" "task_at i f a d n (now w2) (Suc k) s3"
      "room (\<lambda>j. if j \<in> set [Suc i..<SM_SCH_TASK_MAX_SUPPORT] then (?c(i := ?c i - 1)) j - 1 else (?c(i := ?c i - 1)) j) s3"
      "now w2 \<le> now w3" "runs w3 = runs w2" by blast
  have "[0..<SM_SCH_TASK_MAX_SUPPORT] = [0..<i] @ i # [Suc i..<SM_SCH_TASK_MAX_SUPPORT]"
    using i upt_add_eq_append [of 0 i "SM_SCH_TASK_MAX_SUPPORT - i"] by (simp add: upt_conv_Cons del: upt_Suc)
  then have "sm_sch_process run tick (Ref s) w = Some (0, Ref s3, w3)"
    using 1(1) 2(1) 3(1) by (simp add: sm_sch_process_def loop_append del: upt_Suc)
  moreover have "task_at i f a d n (now w3) (Suc k) s3" using 3(2,4) by (rule task_at_later)
  moreover have "room (\<lambda>_. int m) s3" using 3(3) unfolding room_def by (auto split: if_splits)
  ultimately show ?thesis using 1(5) 2(4) 3(5) by auto
qed

lemma spared_calls:
  assumes "reads_clock tick now runs" "spare_task f run now runs"
    and "task_at i f a d n (now w) k s" "\<forall>g\<in>set gs. \<forall>w. now w + d \<le> now (g w) \<and> runs (g w) = runs w" "room (\<lambda>_. int (length gs)) s"
  shows "\<exists>s' w'. sch_calls run tick gs (Ref s) w = Some (Ref s', w') \<and> task_at i f a d n (now w') (k + length gs) s'
     \<and> runs w' = runs w + (runs_due n (k + length gs) - runs_due n k)"
  using assms(3-5)
proof (induction gs arbitrary: s w k)
  case (Cons g gs)
  have g: "now w + d \<le> now (g w)" "runs (g w) = runs w" using Cons.prems(2) by simp_all
  have "room (\<lambda>_. int (Suc (length gs))) s" using Cons.prems(3) by simp
  from process_task [OF assms(1,2) Cons.prems(1) this g(1)] obtain s1 w1 where
    1: "sm_sch_process run tick (Ref s) (g w) = Some (0, Ref s1, w1)" "task_at i f a d n (now w1) (Suc k) s1"
      "room (\<lambda>_. int (length gs)) s1" "runs w1 = runs (g w) + (runs_due n (Suc k) - runs_due n k)" by blast
  have "\<forall>g\<in>set gs. \<forall>w. now w + d \<le> now (g w) \<and> runs (g w) = runs w" using Cons.prems(2) by simp
  from Cons.IH [OF 1(2) this 1(3)] obtain s' w' where 2: "sch_calls run tick gs (Ref s1) w1 = Some (Ref s', w')"
      "task_at i f a d n (now w') (Suc k + length gs) s'"
      "runs w' = runs w1 + (runs_due n (Suc k + length gs) - runs_due n (Suc k))" by blast
  have "runs_due n k \<le> runs_due n (Suc k)" "runs_due n (Suc k) \<le> runs_due n (Suc k + length gs)" by (auto simp: runs_due_def)
  then have "runs w' = runs w + (runs_due n (k + length (g # gs)) - runs_due n k)" using 1(4) 2(3) g(2) by simp
  with 1(1) 2(1,2) show ?case by (intro exI [of _ s'] exI [of _ w']) simp
qed simp

lemma start_task_at:
  assumes "reads_clock tick now runs" "length s = SM_SCH_TASK_MAX_SUPPORT"
    and "sm_sch_start_task tick (Ref s) d n (Ref f) a w = (int i, Ref s', w')" "\<forall>j<i. ta_fn (s ! j) \<noteq> Ref f"
  shows "task_at i f a d n (now w') 0 s'" "runs w' = runs w"
    "in_range m s \<Longrightarrow> n \<noteq> -0x80000000 \<Longrightarrow> m \<le> 0x7FFFFFFF \<Longrightarrow> in_range m s'"
proof -
  obtain w0 where tw: "tick w = (now w, w0)" "now w \<le> now w0" "runs w0 = runs w" by (rule reads_clockE [OF assms(1)])
  obtain j where j: "find (\<lambda>i. is_null (ta_fn (s ! i))) [0..<SM_SCH_TASK_MAX_SUPPORT] = Some j"
    using assms(3) by (auto simp: sm_sch_start_task_def split: option.splits)
  then have lt: "j < SM_SCH_TASK_MAX_SUPPORT" by (auto simp: find_Some_iff)
  have "sm_sch_start_task tick (Ref s) d n (Ref f) a w = (int j, Ref (take j s @ (s ! j)\<lparr>ta_arg := a, ta_fn := Ref f, ta_interval := d,
      ta_repeat_count := n, ta_count := 0, ta_timeout := (ta_timeout (s ! j))\<lparr>et_duration := d, et_start_time := now w\<rparr>\<rparr>
      # map (drop_task (Ref f)) (drop (Suc j) s)), w0)"
    by (simp add: sm_sch_start_task_def elapsed_timer_resetz_def j tw(1))
  note eq = trans [OF this [symmetric] assms(3)]
  from eq have "j = i" "w' = w0" by simp_all
  have s': "s' = take i s @ (s ! i)\<lparr>ta_arg := a, ta_fn := Ref f, ta_interval := d,
      ta_repeat_count := n, ta_count := 0, ta_timeout := (ta_timeout (s ! i))\<lparr>et_duration := d, et_start_time := now w\<rparr>\<rparr>
      # map (drop_task (Ref f)) (drop (Suc i) s)"
    using eq unfolding \<open>j = i\<close> by simp
  show "runs w' = runs w" using tw \<open>w' = w0\<close> by simp
  show "task_at i f a d n (now w') 0 s'"
    using assms(2,4) lt tw(2) \<open>j = i\<close> \<open>w' = w0\<close> unfolding s'
    by (auto simp: task_at_def nth_append nth_Cons' drop_task_def)
  show "in_range m s'" if "in_range m s" "n \<noteq> -0x80000000" "m \<le> 0x7FFFFFFF"
    using that unfolding s' by (auto simp: in_range_def drop_task_def dest: in_set_takeD in_set_dropD)
qed

subsection \<open>Properties\<close>

text \<open>C21: One call of \<open>sm_sch_process\<close>, for tasks \<open>run\<close> that have an effect \<open>eff\<close> on the world only and take no time:
  the tasks that are due - a function is set and the interval has passed since the last run - run in the order of the
  table and no others do; a task that has repetitions left is counted and starts its interval anew, one that has run
  for the last time leaves its entry, and every other entry stays as it is.\<close>

theorem scheduler_runs_due_tasks:
  assumes "\<forall>f a s w. run f a (s, w) = Some (s, eff f a w)"
    and "\<forall>w. tick w = (now w, w)" "\<forall>f a w. now (eff f a w) = now w"
    and "length s = SM_SCH_TASK_MAX_SUPPORT" "\<forall>t\<in>set s. \<not> sch_overflow t"
  shows "sm_sch_process run tick (Ref s) w
     = Some (0, Ref (map (after_call (now w)) s), fold (\<lambda>(f, a). eff f a) (due_tasks (now w) s) w)"
proof -
  have p: "plain_tasks run tick eff now" using assms by unfold_locales simp_all
  show ?thesis using plain_tasks.process_plain [OF p assms(4,5)] by (simp add: plain_tasks.effects_def [OF p])
qed

definition sample_task :: "nat ptr \<Rightarrow> int \<Rightarrow> int \<Rightarrow> sch_task" where
  "sample_task f d n = \<lparr>ta_timeout = \<lparr>et_duration = d, et_start_time = 0\<rparr>, ta_count = 0, ta_repeat_count = n,
     ta_interval = d, ta_fn = f, ta_arg = NULL\<rparr>"

definition sample_table :: sm_scheduler where
  "sample_table = sample_task (Ref 1) 10 2 # sample_task (Ref 2) 50 1 # sample_task (Ref 3) 20 1
     # replicate 29 (sample_task NULL 0 0)"

lemma scheduler_runs_due_tasks_witness:
  "\<exists>s'. sm_sch_process log_run log_tick (Ref sample_table) \<lparr>sw_now = 30, sw_log = []\<rparr>
     = Some (0, Ref s', \<lparr>sw_now = 30, sw_log = [(1, NULL), (3, NULL)]\<rparr>)
     \<and> map ta_fn (take 3 s') = [Ref 1, Ref 2, NULL] \<and> map ta_count (take 3 s') = [1, 0, 0]"
proof -
  let ?w = "\<lparr>sw_now = 30, sw_log = []\<rparr>"
  have "sm_sch_process log_run log_tick (Ref sample_table) ?w
     = Some (0, Ref (map (after_call (sw_now ?w)) sample_table), fold (\<lambda>(f, a). log_task f a) (due_tasks (sw_now ?w) sample_table) ?w)"
    by (rule scheduler_runs_due_tasks) (simp_all add: log_run_def log_tick_def log_task_def sample_table_def sample_task_def sch_overflow_def sch_repeats_def)
  then show ?thesis
    by (simp add: sample_table_def sample_task_def due_tasks_def due_def after_call_def sch_repeats_def log_task_def)
qed

text \<open>C20: A task with function \<open>f\<close> that has been given to the scheduler with an interval and a number of repetitions,
  in a table that does not hold \<open>f\<close> in an earlier entry, runs once in each of the following calls of
  \<open>sm_sch_process\<close> that are at least its interval apart, until it has run as often as asked - at least once, and
  for ever when asked so; the calls return, and afterwards \<open>f\<close> is in the table exactly while runs are left, in the
  entry it was given. All tasks return and may take time, and may use the scheduler to start and cancel tasks, as
  long as no task touches the entry of \<open>f\<close> or enters \<open>f\<close> again, raises the count of an entry, or starts one with
  \<open>INT_MIN\<close> repetitions; the others may be due or not. No count of runs may leave the 32 bit range in these calls.
  The clock never runs backwards, and \<open>runs\<close> is any count of the calls of \<open>f\<close>.\<close>

theorem task_runs_as_often_as_asked:
  assumes "reads_clock tick now runs" "spare_task f run now runs"
    and "length s = SM_SCH_TASK_MAX_SUPPORT" "sm_sch_start_task tick (Ref s) d n (Ref f) a w = (int i, Ref s', w')"
    and "\<forall>j<i. ta_fn (s ! j) \<noteq> Ref f" "\<forall>g\<in>set gs. \<forall>w. now w + d \<le> now (g w) \<and> runs (g w) = runs w"
    and "in_range (length gs) s" "n \<noteq> -0x80000000" "length gs \<le> 0x7FFFFFFF"
  shows "\<exists>s'' w''. sch_calls run tick gs (Ref s') w' = Some (Ref s'', w'')
     \<and> runs w'' = runs w + (if n = SM_SCH_REPEAT_FOREVER then length gs else min (length gs) (nat (max 1 n)))
     \<and> (\<forall>j<SM_SCH_TASK_MAX_SUPPORT. ta_fn (s'' ! j) = Ref f \<longleftrightarrow> j = i \<and> (n = SM_SCH_REPEAT_FOREVER \<or> length gs < nat (max 1 n)))"
proof -
  note st = start_task_at [OF assms(1,3,4,5)]
  have "length s' = SM_SCH_TASK_MAX_SUPPORT" using st(1) by (simp add: task_at_def)
  from spared_calls [OF assms(1,2) st(1) assms(6) in_range_room [OF st(3) [OF assms(7-9)] assms(9) this]] obtain s'' w'' where
    "sch_calls run tick gs (Ref s') w' = Some (Ref s'', w'')" "task_at i f a d n (now w'') (length gs) s''"
    "runs w'' = runs w + runs_due n (length gs)"
    using st(2) by (auto simp: runs_due_def)
  then show ?thesis by (intro exI [of _ s''] exI [of _ w'']) (auto simp: task_at_def runs_due_def split: if_splits)
qed

text \<open>Tasks that take a unit of time each; the first of them cancels the second.\<close>

definition busy_run :: "sch_world task_run" where
  "busy_run f a x = (case x of (s, w) \<Rightarrow>
     Some (if f = 1 then map (\<lambda>t. if ta_fn t = Ref 2 then clear_task t else t) s else s, log_wait 1 (log_task f a w)))"

definition runs_of :: "nat \<Rightarrow> (nat \<times> nat ptr) list \<Rightarrow> nat" where
  "runs_of f fs = length (filter (\<lambda>(g, _). g = f) fs)"

lemma task_runs_as_often_as_asked_witness:
  "\<exists>s' s'' w''. sm_sch_start_task log_tick (Ref sample_table) 25 3 (Ref 7) NULL \<lparr>sw_now = 0, sw_log = []\<rparr>
       = (3, Ref s', \<lparr>sw_now = 0, sw_log = []\<rparr>)
     \<and> sch_calls busy_run log_tick (map log_wait [25, 30, 25, 40]) (Ref s') \<lparr>sw_now = 0, sw_log = []\<rparr> = Some (Ref s'', w'')
     \<and> runs_of 7 (sw_log w'') = 3 \<and> ta_fn (s'' ! 3) \<noteq> Ref 7"
proof -
  let ?w = "\<lparr>sw_now = 0, sw_log = []\<rparr>" and ?runs = "\<lambda>w. runs_of 7 (sw_log w)"
  have clock: "reads_clock log_tick sw_now ?runs" by (simp add: reads_clock_def log_tick_def)
  have tasks: "spare_task 7 busy_run sw_now ?runs"
    by (auto simp: spare_task_def busy_run_def log_wait_def log_task_def runs_of_def spared_def clear_task_def empty_task_def)
  have len: "length sample_table = SM_SCH_TASK_MAX_SUPPORT" by (simp add: sample_table_def)
  have "\<exists>s'. sm_sch_start_task log_tick (Ref sample_table) 25 3 (Ref 7) NULL ?w = (int 3, Ref s', ?w)"
    by (simp add: sm_sch_start_task_def sample_table_def sample_task_def upt_rec elapsed_timer_resetz_def log_tick_def)
  then obtain s' where s': "sm_sch_start_task log_tick (Ref sample_table) 25 3 (Ref 7) NULL ?w = (int 3, Ref s', ?w)" by blast
  have free: "\<forall>j<3. ta_fn (sample_table ! j) \<noteq> Ref 7"
    by (auto simp: sample_table_def sample_task_def less_Suc_eq numeral_3_eq_3)
  have wait: "\<forall>g\<in>set (map log_wait [25, 30, 25, 40]). \<forall>w. sw_now w + 25 \<le> sw_now (g w) \<and> ?runs (g w) = ?runs w"
    by (simp add: log_wait_def)
  have "in_range (length (map log_wait [25, 30, 25, 40])) sample_table"
    by (simp add: in_range_def sample_table_def sample_task_def)
  from task_runs_as_often_as_asked [OF clock tasks len s' free wait this] s' show ?thesis
    by (fastforce simp: runs_of_def)
qed

end
