(* ===== verification/W25q.thy ===== *)
theory W25q
  imports Prelude
begin

section \<open>The serial flash driver\<close>

text \<open>
  Models \<^verbatim>\<open>driver/winbond/sm_w25qxx.c\<close>, the driver of the W25Q flash chips. The SPI port, the select pin and
  the delay are \<^verbatim>\<open>sm_hal\<close>, which is not in the repository: a record of functions over a world. A wait for the
  lock never ends, as nothing else gives it back. A pointer into a buffer is a list from the pointer on when
  it is read, and a buffer with a position when it is written.
\<close>

record 'w spi_hal =
  hal_spi_open :: "'w \<Rightarrow> 'w"
  hal_spi_write_read :: "bytes \<Rightarrow> 'w \<Rightarrow> bytes \<times> 'w"
  hal_spi_write :: "bytes \<Rightarrow> 'w \<Rightarrow> 'w"
  hal_spi_read :: "nat \<Rightarrow> 'w \<Rightarrow> bytes \<times> 'w"
  hal_io_set_value :: "nat \<Rightarrow> 'w \<Rightarrow> 'w"
  hal_delay_us :: "nat \<Rightarrow> 'w \<Rightarrow> 'w"

datatype w25qxx_id = W25Q10 | W25Q20 | W25Q40 | W25Q80 | W25Q16 | W25Q32 | W25Q64 | W25Q128 | W25Q256 | W25Q512

record w25qxx =
  wf_id :: w25qxx_id
  wf_uniq_id :: bytes
  wf_page_size :: u16
  wf_page_count :: u32
  wf_sector_size :: u32
  wf_sector_count :: u32
  wf_block_size :: u32
  wf_block_count :: u32
  wf_capacity :: u32
  wf_status1 :: u8
  wf_status2 :: u8
  wf_status3 :: u8
  wf_lock :: u8

abbreviation W25QXX_DUMMY_BYTE :: u8 where "W25QXX_DUMMY_BYTE \<equiv> 0xA5"

text \<open>The page size as the arithmetic of the code reads it, and the test \<^verbatim>\<open>flash->ID >= W25Q256\<close>.\<close>

definition page_size :: "w25qxx \<Rightarrow> u32" where
  "page_size f = ucast (wf_page_size f)"

definition four_bytes :: "w25qxx \<Rightarrow> bool" where
  "four_bytes f \<longleftrightarrow> wf_id f = W25Q256 \<or> wf_id f = W25Q512"

subsection \<open>Bytes on the port\<close>

definition w25qxx_read_bytes :: "'w spi_hal \<Rightarrow> u32 \<Rightarrow> 'w \<Rightarrow> bytes \<times> 'w" where
  "w25qxx_read_bytes hal n w = hal_spi_read hal (unat (ucast n :: u16)) w"

definition w25qxx_write_bytes :: "'w spi_hal \<Rightarrow> bytes \<Rightarrow> u32 \<Rightarrow> 'w \<Rightarrow> 'w option" where
  "w25qxx_write_bytes hal buf n w = do { bs \<leftarrow> mem_read buf 0 (unat (ucast n :: u16)); Some (hal_spi_write hal bs w) }"

definition w25qxx_writeread :: "'w spi_hal \<Rightarrow> bytes \<Rightarrow> u32 \<Rightarrow> 'w \<Rightarrow> bytes \<times> 'w" where
  "w25qxx_writeread hal src n w = hal_spi_write_read hal (take (unat (ucast n :: u16)) src) w"

definition w25qxx_cs_assert :: "'w spi_hal \<Rightarrow> 'w \<Rightarrow> 'w" where
  "w25qxx_cs_assert hal w = hal_io_set_value hal 0 w"

definition w25qxx_cs_unassert :: "'w spi_hal \<Rightarrow> 'w \<Rightarrow> 'w" where
  "w25qxx_cs_unassert hal w = hal_io_set_value hal 1 w"

definition w25qxx_Delay :: "'w spi_hal \<Rightarrow> nat \<Rightarrow> 'w \<Rightarrow> 'w" where
  "w25qxx_Delay hal x w = hal_delay_us hal x w"

definition w25qxx_Spi :: "'w spi_hal \<Rightarrow> u8 \<Rightarrow> 'w \<Rightarrow> u8 \<times> 'w" where
  "w25qxx_Spi hal data w = (case w25qxx_writeread hal [data] 1 w of (ret, w) \<Rightarrow> (ret ! 0, w))"

definition spi_send :: "'w spi_hal \<Rightarrow> u8 \<Rightarrow> 'w \<Rightarrow> 'w" where
  "spi_send hal data w = snd (w25qxx_Spi hal data w)"

text \<open>A command with an address: four bytes of it for the large chips.\<close>

definition send_address :: "'w spi_hal \<Rightarrow> w25qxx \<Rightarrow> u8 \<Rightarrow> u8 \<Rightarrow> u32 \<Rightarrow> 'w \<Rightarrow> 'w" where
  "send_address hal f short long a w =
     (let w = (if four_bytes f then spi_send hal (ucast (drop_bit 24 (a AND 0xFF000000))) (spi_send hal long w)
               else spi_send hal short w);
          w = spi_send hal (ucast (drop_bit 16 (a AND 0xFF0000))) w;
          w = spi_send hal (ucast (drop_bit 8 (a AND 0xFF00))) w
      in spi_send hal (ucast (a AND 0xFF)) w)"

subsection \<open>Registers\<close>

definition w25qxx_ReadID :: "'w spi_hal \<Rightarrow> 'w \<Rightarrow> u32 \<times> 'w" where
  "w25qxx_ReadID hal w =
     (let w = spi_send hal 0x9F (w25qxx_cs_assert hal w) in
      case w25qxx_Spi hal W25QXX_DUMMY_BYTE w of (t0, w) \<Rightarrow>
      case w25qxx_Spi hal W25QXX_DUMMY_BYTE w of (t1, w) \<Rightarrow>
      case w25qxx_Spi hal W25QXX_DUMMY_BYTE w of (t2, w) \<Rightarrow>
        (push_bit 16 (ucast t0) OR push_bit 8 (ucast t1) OR ucast t2, w25qxx_cs_unassert hal w))"

fun spi_collect :: "'w spi_hal \<Rightarrow> nat \<Rightarrow> 'w \<Rightarrow> bytes \<times> 'w" where
  "spi_collect hal 0 w = ([], w)"
| "spi_collect hal (Suc n) w =
     (case w25qxx_Spi hal W25QXX_DUMMY_BYTE w of (b, w) \<Rightarrow> case spi_collect hal n w of (bs, w) \<Rightarrow> (b # bs, w))"

definition w25qxx_ReadUniqID :: "'w spi_hal \<Rightarrow> w25qxx \<Rightarrow> 'w \<Rightarrow> w25qxx \<times> 'w" where
  "w25qxx_ReadUniqID hal f w =
     (let w = spi_send hal 0x4B (w25qxx_cs_assert hal w);
          w = snd (spi_collect hal 4 w)
      in case spi_collect hal 8 w of (bs, w) \<Rightarrow> (f\<lparr>wf_uniq_id := bs\<rparr>, w25qxx_cs_unassert hal w))"

definition w25qxx_WriteEnable :: "'w spi_hal \<Rightarrow> 'w \<Rightarrow> 'w" where
  "w25qxx_WriteEnable hal w =
     w25qxx_Delay hal 1 (w25qxx_cs_unassert hal (spi_send hal 0x06 (w25qxx_cs_assert hal w)))"

definition w25qxx_WriteDisable :: "'w spi_hal \<Rightarrow> 'w \<Rightarrow> 'w" where
  "w25qxx_WriteDisable hal w =
     w25qxx_Delay hal 1 (w25qxx_cs_unassert hal (spi_send hal 0x04 (w25qxx_cs_assert hal w)))"

definition w25qxx_ReadStatusRegister :: "'w spi_hal \<Rightarrow> w25qxx \<Rightarrow> u8 \<Rightarrow> 'w \<Rightarrow> u8 \<times> w25qxx \<times> 'w" where
  "w25qxx_ReadStatusRegister hal f sel w =
     (let w = w25qxx_cs_assert hal w;
          w = spi_send hal (if sel = 1 then 0x05 else if sel = 2 then 0x35 else 0x15) w
      in case w25qxx_Spi hal W25QXX_DUMMY_BYTE w of (status, w) \<Rightarrow>
        (status,
         if sel = 1 then f\<lparr>wf_status1 := status\<rparr> else if sel = 2 then f\<lparr>wf_status2 := status\<rparr> else f\<lparr>wf_status3 := status\<rparr>,
         w25qxx_cs_unassert hal w))"

definition w25qxx_WriteStatusRegister :: "'w spi_hal \<Rightarrow> w25qxx \<Rightarrow> u8 \<Rightarrow> u8 \<Rightarrow> 'w \<Rightarrow> w25qxx \<times> 'w" where
  "w25qxx_WriteStatusRegister hal f sel data w =
     (let w = w25qxx_cs_assert hal w;
          w = spi_send hal (if sel = 1 then 0x01 else if sel = 2 then 0x31 else 0x11) w
      in (if sel = 1 then f\<lparr>wf_status1 := data\<rparr> else if sel = 2 then f\<lparr>wf_status2 := data\<rparr> else f\<lparr>wf_status3 := data\<rparr>,
          w25qxx_cs_unassert hal (spi_send hal data w)))"

partial_function (option) write_end_loop :: "'w spi_hal \<Rightarrow> w25qxx \<Rightarrow> 'w \<Rightarrow> (w25qxx \<times> 'w) option" where
  "write_end_loop hal f w =
     (case w25qxx_Spi hal W25QXX_DUMMY_BYTE w of (status, w) \<Rightarrow>
        if status AND 1 = 1 then write_end_loop hal (f\<lparr>wf_status1 := status\<rparr>) (w25qxx_Delay hal 1 w)
        else Some (f\<lparr>wf_status1 := status\<rparr>, w25qxx_Delay hal 1 w))"

definition w25qxx_WaitForWriteEnd :: "'w spi_hal \<Rightarrow> w25qxx \<Rightarrow> 'w \<Rightarrow> (w25qxx \<times> 'w) option" where
  "w25qxx_WaitForWriteEnd hal f w = do {
     (f, w) \<leftarrow> write_end_loop hal f (spi_send hal 0x05 (w25qxx_cs_assert hal (w25qxx_Delay hal 1 w)));
     Some (f, w25qxx_cs_unassert hal w) }"

definition w25qxx_Begin :: "'w spi_hal \<Rightarrow> 'w \<Rightarrow> 'w" where
  "w25qxx_Begin hal w = hal_spi_open hal w"

definition w25qxx_chip :: "u8 \<Rightarrow> (w25qxx_id \<times> u32) option" where
  "w25qxx_chip code =
     (if code = 0x20 then Some (W25Q512, 1024)
      else if code = 0x19 then Some (W25Q256, 512)
      else if code = 0x18 then Some (W25Q128, 256)
      else if code = 0x17 then Some (W25Q64, 128)
      else if code = 0x16 then Some (W25Q32, 64)
      else if code = 0x15 then Some (W25Q16, 32)
      else if code = 0x14 then Some (W25Q80, 16)
      else if code = 0x13 then Some (W25Q40, 8)
      else if code = 0x12 then Some (W25Q20, 4)
      else if code = 0x11 then Some (W25Q10, 2)
      else None)"

definition w25qxx_geometry :: "w25qxx \<Rightarrow> w25qxx_id \<Rightarrow> u32 \<Rightarrow> w25qxx" where
  "w25qxx_geometry f chip blocks =
     f\<lparr>wf_id := chip, wf_block_count := blocks, wf_page_size := 256, wf_sector_size := 0x1000, wf_sector_count := blocks * 16,
       wf_page_count := blocks * 16 * 0x1000 div 256, wf_block_size := 0x1000 * 16,
       wf_capacity := blocks * 16 * 0x1000 div 1024\<rparr>"

definition w25qxx_Init :: "'w spi_hal \<Rightarrow> w25qxx \<Rightarrow> 'w \<Rightarrow> bool \<times> w25qxx \<times> 'w" where
  "w25qxx_Init hal f w =
     (case w25qxx_ReadID hal (w25qxx_Delay hal 1 w) of (i, w) \<Rightarrow>
      case w25qxx_chip (ucast (i AND 0xFF)) of
        None \<Rightarrow> (False, f\<lparr>wf_lock := 0\<rparr>, w)
      | Some (chip, blocks) \<Rightarrow>
          (case w25qxx_ReadUniqID hal (w25qxx_geometry (f\<lparr>wf_lock := 1\<rparr>) chip blocks) w of (f, w) \<Rightarrow>
           case w25qxx_ReadStatusRegister hal f 1 w of (_, f, w) \<Rightarrow>
           case w25qxx_ReadStatusRegister hal f 2 w of (_, f, w) \<Rightarrow>
           case w25qxx_ReadStatusRegister hal f 3 w of (_, f, w) \<Rightarrow> (True, f\<lparr>wf_lock := 0\<rparr>, w)))"

subsection \<open>Erasing\<close>

text \<open>Taking the lock: the wait for it never ends when it is held.\<close>

definition locked :: "w25qxx \<Rightarrow> (w25qxx \<Rightarrow> 'a option) \<Rightarrow> 'a option" where
  "locked f body = (if wf_lock f = 1 then None else body (f\<lparr>wf_lock := 1\<rparr>))"

definition w25qxx_EraseChip :: "'w spi_hal \<Rightarrow> w25qxx \<Rightarrow> 'w \<Rightarrow> (w25qxx \<times> 'w) option" where
  "w25qxx_EraseChip hal f w = locked f (\<lambda>f. do {
     let w = w25qxx_WriteEnable hal w;
     let w = w25qxx_cs_unassert hal (spi_send hal 0xC7 (w25qxx_cs_assert hal w));
     (f, w) \<leftarrow> w25qxx_WaitForWriteEnd hal f w;
     Some (f\<lparr>wf_lock := 0\<rparr>, w25qxx_Delay hal 10 w) })"

definition w25qxx_EraseSector :: "'w spi_hal \<Rightarrow> u32 \<Rightarrow> w25qxx \<Rightarrow> 'w \<Rightarrow> (w25qxx \<times> 'w) option" where
  "w25qxx_EraseSector hal sector f w = locked f (\<lambda>f. do {
     (f, w) \<leftarrow> w25qxx_WaitForWriteEnd hal f w;
     let a = sector * wf_sector_size f;
     let w = w25qxx_cs_assert hal (w25qxx_WriteEnable hal w);
     let w = w25qxx_cs_unassert hal (send_address hal f 0x20 0x21 a w);
     (f, w) \<leftarrow> w25qxx_WaitForWriteEnd hal f w;
     Some (f\<lparr>wf_lock := 0\<rparr>, w25qxx_Delay hal 1 w) })"

definition w25qxx_EraseBlock :: "'w spi_hal \<Rightarrow> u32 \<Rightarrow> w25qxx \<Rightarrow> 'w \<Rightarrow> (w25qxx \<times> 'w) option" where
  "w25qxx_EraseBlock hal block f w = locked f (\<lambda>f. do {
     (f, w) \<leftarrow> w25qxx_WaitForWriteEnd hal f w;
     let a = block * wf_sector_size f * 16;
     let w = w25qxx_cs_assert hal (w25qxx_WriteEnable hal w);
     let w = w25qxx_cs_unassert hal (send_address hal f 0xD8 0xDC a w);
     (f, w) \<leftarrow> w25qxx_WaitForWriteEnd hal f w;
     Some (f\<lparr>wf_lock := 0\<rparr>, w25qxx_Delay hal 1 w) })"

subsection \<open>Addresses\<close>

definition scale :: "u32 \<Rightarrow> u32 \<Rightarrow> u32 \<Rightarrow> u32 option" where
  "scale x num den = (if den = 0 then None else Some (x * num div den))"

definition w25qxx_PageToSector :: "w25qxx \<Rightarrow> u32 \<Rightarrow> u32 option" where
  "w25qxx_PageToSector f page = scale page (page_size f) (wf_sector_size f)"

definition w25qxx_PageToBlock :: "w25qxx \<Rightarrow> u32 \<Rightarrow> u32 option" where
  "w25qxx_PageToBlock f page = scale page (page_size f) (wf_block_size f)"

definition w25qxx_SectorToBlock :: "w25qxx \<Rightarrow> u32 \<Rightarrow> u32 option" where
  "w25qxx_SectorToBlock f sector = scale sector (wf_sector_size f) (wf_block_size f)"

definition w25qxx_SectorToPage :: "w25qxx \<Rightarrow> u32 \<Rightarrow> u32 option" where
  "w25qxx_SectorToPage f sector = scale sector (wf_sector_size f) (page_size f)"

definition w25qxx_BlockToPage :: "w25qxx \<Rightarrow> u32 \<Rightarrow> u32 option" where
  "w25qxx_BlockToPage f block = scale block (wf_block_size f) (page_size f)"

subsection \<open>Writing\<close>

definition w25qxx_WriteByte :: "'w spi_hal \<Rightarrow> u8 \<Rightarrow> u32 \<Rightarrow> w25qxx \<Rightarrow> 'w \<Rightarrow> (w25qxx \<times> 'w) option" where
  "w25qxx_WriteByte hal b a f w = locked f (\<lambda>f. do {
     (f, w) \<leftarrow> w25qxx_WaitForWriteEnd hal f w;
     let w = w25qxx_cs_assert hal (w25qxx_WriteEnable hal w);
     let w = w25qxx_cs_unassert hal (spi_send hal b (send_address hal f 0x02 0x12 a w));
     (f, w) \<leftarrow> w25qxx_WaitForWriteEnd hal f w;
     Some (f\<lparr>wf_lock := 0\<rparr>, w) })"

definition write_page_len :: "w25qxx \<Rightarrow> u32 \<Rightarrow> u32 \<Rightarrow> u32" where
  "write_page_len f off n =
     (let n = (if n + off > page_size f \<or> n = 0 then page_size f - off else n)
      in if off + n > page_size f then page_size f - off else n)"

definition w25qxx_WritePage :: "'w spi_hal \<Rightarrow> bytes \<Rightarrow> u32 \<Rightarrow> u32 \<Rightarrow> u32 \<Rightarrow> w25qxx \<Rightarrow> 'w \<Rightarrow> (w25qxx \<times> 'w) option" where
  "w25qxx_WritePage hal buf page off n f w = locked f (\<lambda>f. do {
     let n = write_page_len f off n;
     (f, w) \<leftarrow> w25qxx_WaitForWriteEnd hal f w;
     let w = w25qxx_cs_assert hal (w25qxx_WriteEnable hal w);
     let a = page * page_size f + off;
     w \<leftarrow> w25qxx_write_bytes hal buf n (send_address hal f 0x02 0x12 a w);
     (f, w) \<leftarrow> w25qxx_WaitForWriteEnd hal f (w25qxx_cs_unassert hal w);
     Some (f\<lparr>wf_lock := 0\<rparr>, w25qxx_Delay hal 1 w) })"

text \<open>The loop over pages that sectors and blocks share, and the number of bytes they clamp to their size.\<close>

partial_function (option) write_pages ::
    "'w spi_hal \<Rightarrow> bytes \<Rightarrow> u32 \<Rightarrow> int \<Rightarrow> u32 \<Rightarrow> w25qxx \<Rightarrow> 'w \<Rightarrow> (w25qxx \<times> 'w) option" where
  "write_pages hal buf page n off f w = do {
     (f, w) \<leftarrow> w25qxx_WritePage hal buf page off (word_of_int n) f w;
     let n = n - (sint (page_size f) - sint off);
     let buf = drop (unat (page_size f - off)) buf;
     if 0 < n then write_pages hal buf (page + 1) n 0 f w else Some (f, w) }"

definition area_len :: "u32 \<Rightarrow> u32 \<Rightarrow> u32" where
  "area_len lim n = (if n > lim \<or> n = 0 then lim else n)"

definition area_bytes :: "u32 \<Rightarrow> u32 \<Rightarrow> u32 \<Rightarrow> int" where
  "area_bytes lim off n = (if off + n > lim then sint lim - sint off else sint n)"

definition w25qxx_WriteSector ::
    "'w spi_hal \<Rightarrow> bytes \<Rightarrow> u32 \<Rightarrow> u32 \<Rightarrow> u32 \<Rightarrow> w25qxx \<Rightarrow> 'w \<Rightarrow> (w25qxx \<times> 'w) option" where
  "w25qxx_WriteSector hal buf sector off n f w =
     (let n = area_len (wf_sector_size f) n in
      if off \<ge> wf_sector_size f then Some (f, w)
      else do {
        page \<leftarrow> w25qxx_SectorToPage f sector;
        write_pages hal buf (page + off div page_size f) (area_bytes (wf_sector_size f) off n) (off mod page_size f) f w })"

definition w25qxx_WriteBlock ::
    "'w spi_hal \<Rightarrow> bytes \<Rightarrow> u32 \<Rightarrow> u32 \<Rightarrow> u32 \<Rightarrow> w25qxx \<Rightarrow> 'w \<Rightarrow> (w25qxx \<times> 'w) option" where
  "w25qxx_WriteBlock hal buf block off n f w =
     (let n = area_len (wf_block_size f) n in
      if off \<ge> wf_block_size f then Some (f, w)
      else do {
        page \<leftarrow> w25qxx_BlockToPage f block;
        write_pages hal buf (page + off div page_size f) (area_bytes (wf_block_size f) off n) (off mod page_size f) f w })"

partial_function (option) write_sectors ::
    "'w spi_hal \<Rightarrow> u32 \<Rightarrow> bytes \<Rightarrow> u32 \<Rightarrow> u32 \<Rightarrow> w25qxx \<Rightarrow> 'w \<Rightarrow> (w25qxx \<times> 'w) option" where
  "write_sectors hal a buf len remain f w = do {
     (f, w) \<leftarrow> w25qxx_WriteSector hal buf (a div 4096) (a mod 4096) remain f w;
     if len = remain then Some (f, w)
     else write_sectors hal (a + remain) (drop (unat remain) buf) (len - remain)
            (if len - remain > 4096 then 4096 else len - remain) f w }"

definition first_part :: "u32 \<Rightarrow> u32 \<Rightarrow> u32" where
  "first_part a len = (let remain = 4096 - a mod 4096 in if len \<le> remain then len else remain)"

definition w25qxx_write :: "'w spi_hal \<Rightarrow> u32 \<Rightarrow> bytes \<Rightarrow> u32 \<Rightarrow> w25qxx \<Rightarrow> 'w \<Rightarrow> (w25qxx \<times> 'w) option" where
  "w25qxx_write hal a buf len f w = write_sectors hal a buf len (first_part a len) f w"

subsection \<open>Reading\<close>

definition w25qxx_ReadByte :: "'w spi_hal \<Rightarrow> u32 \<Rightarrow> w25qxx \<Rightarrow> 'w \<Rightarrow> (u8 \<times> w25qxx \<times> 'w) option" where
  "w25qxx_ReadByte hal a f w = locked f (\<lambda>f.
     case w25qxx_Spi hal W25QXX_DUMMY_BYTE (send_address hal f 0x03 0x0C a (w25qxx_cs_assert hal w)) of (b, w) \<Rightarrow>
       Some (b, f\<lparr>wf_lock := 0\<rparr>, w25qxx_cs_unassert hal w))"

definition w25qxx_ReadBytes ::
    "'w spi_hal \<Rightarrow> bytes \<Rightarrow> nat \<Rightarrow> u32 \<Rightarrow> u32 \<Rightarrow> w25qxx \<Rightarrow> 'w \<Rightarrow> (bytes \<times> w25qxx \<times> 'w) option" where
  "w25qxx_ReadBytes hal buf pos a n f w = locked f (\<lambda>f.
     case w25qxx_read_bytes hal n (send_address hal f 0x03 0x0C a (w25qxx_cs_assert hal w)) of (bs, w) \<Rightarrow> do {
       buf \<leftarrow> mem_write buf pos bs;
       Some (buf, f\<lparr>wf_lock := 0\<rparr>, w25qxx_Delay hal 1 (w25qxx_cs_unassert hal w)) })"

definition read_page_len :: "w25qxx \<Rightarrow> u32 \<Rightarrow> u32 \<Rightarrow> u32" where
  "read_page_len f off n =
     (let n = (if n > page_size f \<or> n = 0 then page_size f else n)
      in if off + n > page_size f then page_size f - off else n)"

definition w25qxx_ReadPage ::
    "'w spi_hal \<Rightarrow> bytes \<Rightarrow> nat \<Rightarrow> u32 \<Rightarrow> u32 \<Rightarrow> u32 \<Rightarrow> w25qxx \<Rightarrow> 'w \<Rightarrow> (bytes \<times> w25qxx \<times> 'w) option" where
  "w25qxx_ReadPage hal buf pos page off n f w = locked f (\<lambda>f.
     let n = read_page_len f off n;
         w = spi_send hal 0 (send_address hal f 0x0B 0x0C (page * page_size f + off) (w25qxx_cs_assert hal w))
     in case w25qxx_read_bytes hal n w of (bs, w) \<Rightarrow> do {
       buf \<leftarrow> mem_write buf pos bs;
       Some (buf, f\<lparr>wf_lock := 0\<rparr>, w25qxx_Delay hal 1 (w25qxx_cs_unassert hal w)) })"

partial_function (option) read_pages ::
    "'w spi_hal \<Rightarrow> bytes \<Rightarrow> nat \<Rightarrow> u32 \<Rightarrow> int \<Rightarrow> u32 \<Rightarrow> w25qxx \<Rightarrow> 'w \<Rightarrow> (bytes \<times> w25qxx \<times> 'w) option" where
  "read_pages hal buf pos page n off f w = do {
     (buf, f, w) \<leftarrow> w25qxx_ReadPage hal buf pos page off (word_of_int n) f w;
     let n = n - (sint (page_size f) - sint off);
     let pos = pos + unat (page_size f - off);
     if 0 < n then read_pages hal buf pos (page + 1) n 0 f w else Some (buf, f, w) }"

definition w25qxx_ReadSector ::
    "'w spi_hal \<Rightarrow> bytes \<Rightarrow> nat \<Rightarrow> u32 \<Rightarrow> u32 \<Rightarrow> u32 \<Rightarrow> w25qxx \<Rightarrow> 'w \<Rightarrow> (bytes \<times> w25qxx \<times> 'w) option" where
  "w25qxx_ReadSector hal buf pos sector off n f w =
     (let n = area_len (wf_sector_size f) n in
      if off \<ge> wf_sector_size f then Some (buf, f, w)
      else do {
        page \<leftarrow> w25qxx_SectorToPage f sector;
        read_pages hal buf pos (page + off div page_size f) (area_bytes (wf_sector_size f) off n) (off mod page_size f) f w })"

definition w25qxx_ReadBlock ::
    "'w spi_hal \<Rightarrow> bytes \<Rightarrow> nat \<Rightarrow> u32 \<Rightarrow> u32 \<Rightarrow> u32 \<Rightarrow> w25qxx \<Rightarrow> 'w \<Rightarrow> (bytes \<times> w25qxx \<times> 'w) option" where
  "w25qxx_ReadBlock hal buf pos block off n f w =
     (let n = area_len (wf_block_size f) n in
      if off \<ge> wf_block_size f then Some (buf, f, w)
      else do {
        page \<leftarrow> w25qxx_BlockToPage f block;
        read_pages hal buf pos (page + off div page_size f) (area_bytes (wf_block_size f) off n) (off mod page_size f) f w })"

partial_function (option) read_sectors ::
    "'w spi_hal \<Rightarrow> u32 \<Rightarrow> bytes \<Rightarrow> nat \<Rightarrow> u32 \<Rightarrow> u32 \<Rightarrow> w25qxx \<Rightarrow> 'w \<Rightarrow> (bytes \<times> w25qxx \<times> 'w) option" where
  "read_sectors hal a buf pos len remain f w = do {
     (buf, f, w) \<leftarrow> w25qxx_ReadSector hal buf pos (a div 4096) (a mod 4096) remain f w;
     if len = remain then Some (buf, f, w)
     else read_sectors hal (a + remain) buf (pos + unat remain) (len - remain)
            (if len - remain > 4096 then 4096 else len - remain) f w }"

definition w25qxx_read :: "'w spi_hal \<Rightarrow> u32 \<Rightarrow> bytes \<Rightarrow> nat \<Rightarrow> u32 \<Rightarrow> w25qxx \<Rightarrow> 'w \<Rightarrow> (bytes \<times> w25qxx \<times> 'w) option" where
  "w25qxx_read hal a buf pos len f w = read_sectors hal a buf pos len (first_part a len) f w"

subsection \<open>Looking for an empty area\<close>

text \<open>
  \<open>read_at\<close> is the exchange for one address, \<open>step\<close> the distance of the next one. The result is \<open>None\<close> when a
  byte is not empty, otherwise the index at which the loop ended. The number of bytes that the caller asks for
  is brought into range by the code but never used.
\<close>

partial_function (option) empty_scan ::
    "(u32 \<Rightarrow> 'w \<Rightarrow> bytes \<times> 'w) \<Rightarrow> u32 \<Rightarrow> u32 \<Rightarrow> u32 \<Rightarrow> u32 \<Rightarrow> 'w \<Rightarrow> (u32 option \<times> 'w) option" where
  "empty_scan read_at step base lim i w =
     (if i < lim then
        (case read_at (i + base) w of (bs, w) \<Rightarrow>
           if list_all (\<lambda>b. b = 0xFF) bs then empty_scan read_at step base lim (i + step) w else Some (None, w))
      else Some (Some i, w))"

definition empty_area ::
    "(u32 \<Rightarrow> 'w \<Rightarrow> bytes \<times> 'w) \<Rightarrow> (u32 \<Rightarrow> 'w \<Rightarrow> bytes \<times> 'w) \<Rightarrow> u32 \<Rightarrow> u32 \<Rightarrow> u32 \<Rightarrow> w25qxx \<Rightarrow> 'w \<Rightarrow> (bool \<times> w25qxx \<times> 'w) option" where
  "empty_area read32 read1 base lim off f w = do {
     (i, w) \<leftarrow> empty_scan read32 32 base lim off w;
     (case i of
        None \<Rightarrow> Some (False, f\<lparr>wf_lock := 0\<rparr>, w)
      | Some i \<Rightarrow>
          if (lim + off) mod 32 \<noteq> 0 then do {
            (j, w) \<leftarrow> empty_scan read1 1 base lim (i - 32) w;
            Some (j \<noteq> None, f\<lparr>wf_lock := 0\<rparr>, w) }
          else Some (True, f\<lparr>wf_lock := 0\<rparr>, w)) }"

fun spi_read_each :: "'w spi_hal \<Rightarrow> nat \<Rightarrow> 'w \<Rightarrow> bytes \<times> 'w" where
  "spi_read_each hal 0 w = ([], w)"
| "spi_read_each hal (Suc n) w =
     (case w25qxx_read_bytes hal 1 w of (b, w) \<Rightarrow> case spi_read_each hal n w of (bs, w) \<Rightarrow> (b @ bs, w))"

definition fast_read_at :: "'w spi_hal \<Rightarrow> w25qxx \<Rightarrow> u32 \<Rightarrow> 'w \<Rightarrow> 'w" where
  "fast_read_at hal f a w = spi_send hal 0 (send_address hal f 0x0B 0x0C a w)"

text \<open>The code of a page selects the chip again where the others release it, and sends the command twice when it reads
  single bytes.\<close>

definition w25qxx_IsEmptyPage :: "'w spi_hal \<Rightarrow> u32 \<Rightarrow> u32 \<Rightarrow> u32 \<Rightarrow> w25qxx \<Rightarrow> 'w \<Rightarrow> (bool \<times> w25qxx \<times> 'w) option" where
  "w25qxx_IsEmptyPage hal page off n f w = locked f (\<lambda>f.
     empty_area
       (\<lambda>a w. case spi_read_each hal 32 (fast_read_at hal f a (w25qxx_cs_assert hal w)) of (bs, w) \<Rightarrow>
          (bs, w25qxx_cs_assert hal w))
       (\<lambda>a w. case w25qxx_read_bytes hal 1 (fast_read_at hal f a (spi_send hal 0x0B (w25qxx_cs_assert hal w))) of (bs, w) \<Rightarrow>
          (bs, w25qxx_cs_unassert hal w))
       (page * page_size f) (page_size f) off f w)"

definition read_1 :: "'w spi_hal \<Rightarrow> w25qxx \<Rightarrow> u32 \<Rightarrow> 'w \<Rightarrow> bytes \<times> 'w" where
  "read_1 hal f a w =
     (case w25qxx_read_bytes hal 1 (fast_read_at hal f a (w25qxx_cs_assert hal w)) of (bs, w) \<Rightarrow> (bs, w25qxx_cs_unassert hal w))"

definition w25qxx_IsEmptySector :: "'w spi_hal \<Rightarrow> u32 \<Rightarrow> u32 \<Rightarrow> u32 \<Rightarrow> w25qxx \<Rightarrow> 'w \<Rightarrow> (bool \<times> w25qxx \<times> 'w) option" where
  "w25qxx_IsEmptySector hal sector off n f w = locked f (\<lambda>f.
     empty_area
       (\<lambda>a w. case spi_read_each hal 32 (fast_read_at hal f a (w25qxx_cs_assert hal w)) of (bs, w) \<Rightarrow>
          (bs, w25qxx_cs_unassert hal w))
       (read_1 hal f) (sector * wf_sector_size f) (wf_sector_size f) off f w)"

definition w25qxx_IsEmptyBlock :: "'w spi_hal \<Rightarrow> u32 \<Rightarrow> u32 \<Rightarrow> u32 \<Rightarrow> w25qxx \<Rightarrow> 'w \<Rightarrow> (bool \<times> w25qxx \<times> 'w) option" where
  "w25qxx_IsEmptyBlock hal block off n f w = locked f (\<lambda>f.
     empty_area
       (\<lambda>a w. case w25qxx_read_bytes hal 32 (fast_read_at hal f a (w25qxx_cs_assert hal w)) of (bs, w) \<Rightarrow>
          (bs, w25qxx_cs_unassert hal w))
       (read_1 hal f) (block * wf_block_size f) (wf_block_size f) off f w)"

end
