(* ===== verification/W25q_Chip.thy ===== *)
theory W25q_Chip
  imports W25q
begin

section \<open>The driver on a flash chip\<close>

text \<open>
  What the W25Q chips do with the bytes on their port, after their data sheet: a command starts when the chip is
  selected and programming and erasing take effect when it is released; they need the write enable latch, and
  while they go on the chip only answers reads of the status. \<open>w25q_bus\<close> is the contract of a port with such
  a chip: the operations of the port act on the chip, seen through \<open>view\<close>, as given here.
\<close>

record w25q_chip =
  ch_id :: bytes
  ch_cells :: "nat \<Rightarrow> u8"
  ch_wel :: bool
  ch_busy :: nat
  ch_time :: nat
  ch_input :: "bytes option"

definition be_address :: "bytes \<Rightarrow> nat" where
  "be_address bs = foldl (\<lambda>a b. a * 256 + unat b) 0 bs"

text \<open>Programming clears bits, within a page: past its end it goes on at its start.\<close>

definition program_page :: "nat \<Rightarrow> bytes \<Rightarrow> (nat \<Rightarrow> u8) \<Rightarrow> nat \<Rightarrow> u8" where
  "program_page a bs cells =
     fold (\<lambda>i c. let x = a div 256 * 256 + (a + i) mod 256 in c(x := c x AND bs ! i)) [length bs - 256..<length bs] cells"

definition erase :: "nat \<Rightarrow> nat \<Rightarrow> (nat \<Rightarrow> u8) \<Rightarrow> nat \<Rightarrow> u8" where
  "erase a n cells = (\<lambda>x. if a \<le> x \<and> x < a + n then 0xFF else cells x)"

definition chip_changed :: "(nat \<Rightarrow> u8) \<Rightarrow> w25q_chip \<Rightarrow> w25q_chip" where
  "chip_changed cells c = c\<lparr>ch_cells := cells, ch_wel := False, ch_busy := ch_time c\<rparr>"

definition chip_write :: "u8 \<Rightarrow> bytes \<Rightarrow> w25q_chip \<Rightarrow> w25q_chip" where
  "chip_write cmd args c =
     (let addr = (if cmd \<in> {0x12, 0x21, 0xDC} then 4 else 3); a = be_address (take addr args) in
      if cmd = 0xC7 then chip_changed (\<lambda>_. 0xFF) c
      else if length args < addr then c
      else if cmd \<in> {0x02, 0x12} \<and> addr < length args then chip_changed (program_page a (drop addr args) (ch_cells c)) c
      else if cmd \<in> {0x20, 0x21} then chip_changed (erase (a div 4096 * 4096) 4096 (ch_cells c)) c
      else if cmd \<in> {0xD8, 0xDC} then chip_changed (erase (a div 65536 * 65536) 65536 (ch_cells c)) c
      else c)"

definition chip_execute :: "bytes \<Rightarrow> w25q_chip \<Rightarrow> w25q_chip" where
  "chip_execute s c =
     (case s of
        [] \<Rightarrow> c
      | cmd # args \<Rightarrow>
          if ch_busy c \<noteq> 0 then c
          else if cmd = 0x06 then c\<lparr>ch_wel := True\<rparr>
          else if cmd = 0x04 then c\<lparr>ch_wel := False\<rparr>
          else if ch_wel c then chip_write cmd args c else c)"

definition chip_select :: "nat \<Rightarrow> w25q_chip \<Rightarrow> w25q_chip" where
  "chip_select v c =
     (case ch_input c of
        None \<Rightarrow> if v = 0 then c\<lparr>ch_input := Some []\<rparr> else c
      | Some s \<Rightarrow> if v = 0 then c else (chip_execute s c)\<lparr>ch_input := None\<rparr>)"

definition chip_output :: "w25q_chip \<Rightarrow> bytes \<Rightarrow> u8" where
  "chip_output c s =
     (case s of
        [] \<Rightarrow> 0xFF
      | cmd # args \<Rightarrow>
          if cmd = 0x05 then (if ch_busy c \<noteq> 0 then 1 else 0) OR (if ch_wel c then 2 else 0)
          else if ch_busy c \<noteq> 0 then 0xFF
          else if cmd = 0x9F \<and> length args < length (ch_id c) then ch_id c ! length args
          else if cmd = 0x03 \<and> 3 \<le> length args then ch_cells c (be_address (take 3 args) + (length args - 3))
          else if cmd = 0x0B \<and> 4 \<le> length args then ch_cells c (be_address (take 3 args) + (length args - 4))
          else if cmd = 0x0C \<and> 5 \<le> length args then ch_cells c (be_address (take 4 args) + (length args - 5))
          else 0xFF)"

definition chip_transfer :: "u8 \<Rightarrow> w25q_chip \<Rightarrow> u8 \<times> w25q_chip" where
  "chip_transfer b c =
     (case ch_input c of
        None \<Rightarrow> (0xFF, c)
      | Some s \<Rightarrow>
          (chip_output c s,
           c\<lparr>ch_input := Some (s @ [b]), ch_busy := if take 1 s = [0x05] then ch_busy c - 1 else ch_busy c\<rparr>))"

fun chip_transfers :: "bytes \<Rightarrow> w25q_chip \<Rightarrow> bytes \<times> w25q_chip" where
  "chip_transfers [] c = ([], c)"
| "chip_transfers (b # bs) c =
     (case chip_transfer b c of (r, c) \<Rightarrow> case chip_transfers bs c of (rs, c) \<Rightarrow> (r # rs, c))"

locale w25q_bus =
  fixes hal :: "'w spi_hal" and view :: "'w \<Rightarrow> w25q_chip" and fill :: u8
  assumes select: "view (hal_io_set_value hal v w) = chip_select v (view w)"
    and delay: "\<exists>k\<le>ch_busy (view w). view (hal_delay_us hal n w) = (view w)\<lparr>ch_busy := k\<rparr>"
    and write_read: "fst (hal_spi_write_read hal bs w) = fst (chip_transfers bs (view w))"
      "view (snd (hal_spi_write_read hal bs w)) = snd (chip_transfers bs (view w))"
    and send: "view (hal_spi_write hal bs w) = snd (chip_transfers bs (view w))"
    and read: "fst (hal_spi_read hal n w) = fst (chip_transfers (replicate n fill) (view w))"
      "view (snd (hal_spi_read hal n w)) = snd (chip_transfers (replicate n fill) (view w))"

subsection \<open>Addresses and cells\<close>

text \<open>The bytes of an address with its command.\<close>

definition command :: "w25qxx \<Rightarrow> u8 \<Rightarrow> u8 \<Rightarrow> u32 \<Rightarrow> bytes" where
  "command f short long a =
     (if four_bytes f then [long, le32_byte 3 a] else [short]) @ [le32_byte 2 a, le32_byte 1 a, le32_byte 0 a]"

definition address_space :: "w25qxx \<Rightarrow> nat" where
  "address_space f = (if four_bytes f then 2 ^ 32 else 2 ^ 24)"

definition flash_program :: "nat \<Rightarrow> bytes \<Rightarrow> (nat \<Rightarrow> u8) \<Rightarrow> nat \<Rightarrow> u8" where
  "flash_program a bs cells = (\<lambda>x. if a \<le> x \<and> x < a + length bs then cells x AND bs ! (x - a) else cells x)"

lemma flash_program_Nil [simp]: "flash_program a [] cells = cells"
  by (auto simp: flash_program_def fun_eq_iff)

lemma flash_program_append:
  "flash_program (a + length xs) ys (flash_program a xs cells) = flash_program a (xs @ ys) cells"
  by (rule ext) (auto simp: flash_program_def nth_append)

lemma program_page_within:
  assumes "a mod 256 + length bs \<le> 256"
  shows "program_page a bs cells = flash_program a bs cells"
  using assms
proof (induction bs rule: rev_induct)
  case (snoc b bs)
  have e: "a div 256 * 256 + (a + length bs) mod 256 = a + length bs"
  proof -
    have "(a + length bs) mod 256 = a mod 256 + length bs"
      using snoc.prems by (simp add: mod_add_left_eq [symmetric, of a])
    then show ?thesis by (simp add: div_mult_mod_eq)
  qed
  have "length (bs @ [b]) - 256 = 0" "length bs - 256 = 0" using snoc.prems by auto
  moreover have "fold (\<lambda>i c. let x = a div 256 * 256 + (a + i) mod 256 in c(x := c x AND (bs @ [b]) ! i)) [0..<length bs] cells
      = fold (\<lambda>i c. let x = a div 256 * 256 + (a + i) mod 256 in c(x := c x AND bs ! i)) [0..<length bs] cells"
    by (rule fold_cong) (auto simp: nth_append)
  ultimately have "program_page a (bs @ [b]) cells
      = (let x = a + length bs; c = program_page a bs cells in c(x := c x AND b))"
    by (simp add: program_page_def e Let_def)
  also have "\<dots> = flash_program a (bs @ [b]) cells"
    using snoc by (auto simp: flash_program_def Let_def nth_append fun_eq_iff)
  finally show ?case .
qed (simp add: program_page_def)

lemma unat_le32_byte: "unat (le32_byte k a) = unat a div 2 ^ (8 * k) mod 256"
  by (simp add: le32_byte_def unsigned_ucast_eq unsigned_drop_bit_eq take_bit_eq_mod drop_bit_eq_div [where ?'a = nat])

lemma base_256_digits:
  "x div 16777216 * 16777216 + x div 65536 mod 256 * 65536 + x div 256 mod 256 * 256 + x mod 256 = (x :: nat)"
proof -
  define q r s where q_def: "q = x div 256" and r_def: "r = q div 256" and s_def: "s = r div 256"
  have "x = q * 256 + x mod 256" "q = r * 256 + q mod 256" "r = s * 256 + r mod 256"
    unfolding q_def r_def s_def by presburger+
  moreover have "x div 65536 = r" "x div 16777216 = s"
    unfolding q_def r_def s_def by (simp_all add: div_mult2_eq [symmetric])
  ultimately show ?thesis unfolding q_def [symmetric] by simp
qed

lemma be_address_bytes:
  "be_address [le32_byte 3 a, le32_byte 2 a, le32_byte 1 a, le32_byte 0 a] = unat a"
  "unat a < 2 ^ 24 \<Longrightarrow> be_address [le32_byte 2 a, le32_byte 1 a, le32_byte 0 a] = unat a"
proof -
  have h: "unat a div 16777216 mod 256 = unat a div 16777216"
    using unat_u32_less [of a] by (intro mod_less) (simp add: less_mult_imp_div_less)
  show "be_address [le32_byte 3 a, le32_byte 2 a, le32_byte 1 a, le32_byte 0 a] = unat a"
    using base_256_digits [of "unat a"] by (simp add: be_address_def unat_le32_byte h mult.commute)
  assume "unat a < 2 ^ 24"
  then have "unat a div 16777216 = 0" "unat a div 65536 mod 256 = unat a div 65536"
    by (simp_all add: less_mult_imp_div_less)
  then show "be_address [le32_byte 2 a, le32_byte 1 a, le32_byte 0 a] = unat a"
    using base_256_digits [of "unat a"] by (simp add: be_address_def unat_le32_byte mult.commute)
qed

lemma send_address_bytes:
  "ucast (drop_bit 24 (a AND 0xFF000000)) = le32_byte 3 a" "ucast (drop_bit 16 (a AND 0xFF0000)) = le32_byte 2 a"
  "ucast (drop_bit 8 (a AND 0xFF00)) = le32_byte 1 a" "ucast (a AND 0xFF) = le32_byte 0 a" for a :: u32
proof -
  have m: "(0xFF000000 :: u32) = push_bit 24 (mask 8)" "(0xFF0000 :: u32) = push_bit 16 (mask 8)"
      "(0xFF00 :: u32) = push_bit 8 (mask 8)" "(0xFF :: u32) = mask 8"
    by (simp_all add: mask_eq_exp_minus_1)
  show "ucast (drop_bit 24 (a AND 0xFF000000)) = le32_byte 3 a" "ucast (drop_bit 16 (a AND 0xFF0000)) = le32_byte 2 a"
      "ucast (drop_bit 8 (a AND 0xFF00)) = le32_byte 1 a" "ucast (a AND 0xFF) = le32_byte 0 a"
    unfolding m by (rule bit_word_eqI, force simp: le32_byte_def bit_simps)+
qed

subsection \<open>The driver's exchanges\<close>

definition ready :: "w25q_chip \<Rightarrow> bool" where
  "ready c \<longleftrightarrow> ch_input c = None \<and> ch_busy c = 0"

lemma chip_execute_input: "chip_execute s (c\<lparr>ch_input := x\<rparr>) = (chip_execute s c)\<lparr>ch_input := x\<rparr>"
  by (auto simp: chip_execute_def chip_write_def chip_changed_def Let_def split: list.split)

lemma chip_transfer_ready:
  "ch_input c = Some s \<Longrightarrow> ch_busy c = 0 \<Longrightarrow>
     chip_transfer b c = (chip_output c s, c\<lparr>ch_input := Some (s @ [b])\<rparr>)"
  by (cases c) (simp add: chip_transfer_def)

lemma chip_transfers_end:
  "ch_input c = Some s \<Longrightarrow> ch_busy c = 0 \<Longrightarrow> snd (chip_transfers bs c) = c\<lparr>ch_input := Some (s @ bs)\<rparr>"
  by (induction bs arbitrary: c s) (simp_all add: chip_transfer_ready case_prod_beta)

lemma chip_output_input [simp]: "chip_output (c\<lparr>ch_input := x\<rparr>) s = chip_output c s"
  by (simp add: chip_output_def split: list.split)

lemma chip_transfers_out:
  "ch_input c = Some s \<Longrightarrow> ch_busy c = 0 \<Longrightarrow>
     fst (chip_transfers bs c) = map (\<lambda>i. chip_output c (s @ take i bs)) [0..<length bs]"
proof (induction bs arbitrary: c s)
  case (Cons b bs)
  have "fst (chip_transfers (b # bs) c) = chip_output c s # fst (chip_transfers bs (c\<lparr>ch_input := Some (s @ [b])\<rparr>))"
    using Cons.prems by (simp add: chip_transfer_ready case_prod_beta)
  also have "\<dots> = chip_output c s # map (\<lambda>i. chip_output c (s @ take (Suc i) (b # bs))) [0..<length bs]"
    using Cons.IH [of "c\<lparr>ch_input := Some (s @ [b])\<rparr>" "s @ [b]"] Cons.prems by simp
  also have "\<dots> = map (\<lambda>i. chip_output c (s @ take i (b # bs))) [0..<length (b # bs)]"
    by (simp add: map_upt_Suc del: upt_Suc)
  finally show ?case .
qed simp

text \<open>What the chip makes of the commands with an address.\<close>

lemma execute_program:
  assumes "ch_wel c" "ch_busy c = 0" "unat a < address_space f" "d \<noteq> []"
  shows "chip_execute (command f 0x02 0x12 a @ d) c = chip_changed (program_page (unat a) d (ch_cells c)) c"
  using assms by (cases d) (auto simp: chip_execute_def chip_write_def command_def address_space_def be_address_bytes [unfolded One_nat_def])

lemma execute_erase_sector:
  assumes "ch_wel c" "ch_busy c = 0" "unat a < address_space f"
  shows "chip_execute (command f 0x20 0x21 a) c = chip_changed (erase (unat a div 4096 * 4096) 4096 (ch_cells c)) c"
  using assms by (auto simp: chip_execute_def chip_write_def command_def address_space_def be_address_bytes [unfolded One_nat_def])

lemma execute_erase_block:
  assumes "ch_wel c" "ch_busy c = 0" "unat a < address_space f"
  shows "chip_execute (command f 0xD8 0xDC a) c = chip_changed (erase (unat a div 65536 * 65536) 65536 (ch_cells c)) c"
  using assms by (auto simp: chip_execute_def chip_write_def command_def address_space_def be_address_bytes [unfolded One_nat_def])

lemma output_fast_read:
  assumes "ch_busy c = 0" "unat a < address_space f"
  shows "chip_output c (command f 0x0B 0x0C a @ x # d) = ch_cells c (unat a + length d)"
  using assms by (auto simp: chip_output_def command_def address_space_def be_address_bytes [unfolded One_nat_def])

text \<open>The state of the driver once it has recognised the chip.\<close>

definition usable :: "w25qxx \<Rightarrow> bool" where
  "usable f \<longleftrightarrow> wf_lock f \<noteq> 1 \<and> wf_page_size f = 256 \<and> wf_sector_size f = 0x1000 \<and> wf_block_size f = 0x10000"

text \<open>The numbers of the driver, without overflow.\<close>

lemma unat_add_u32: "unat a + unat b < 2 ^ 32 \<Longrightarrow> unat (a + b) = unat a + unat (b :: u32)"
  by (simp add: unat_word_ariths)

lemma unat_mult_u32: "unat a * unat b < 2 ^ 32 \<Longrightarrow> unat (a * b) = unat a * unat (b :: u32)"
  by (simp add: unat_word_ariths)

lemma page_address: "unat p * 256 + 256 \<le> 2 ^ 32 \<Longrightarrow> unat off < 256 \<Longrightarrow> unat (p * 256 + off :: u32) = unat p * 256 + unat off"
  by (simp add: unat_word_ariths)

lemma unat_of_int_u32: "0 \<le> i \<Longrightarrow> i < 2 ^ 32 \<Longrightarrow> unat (word_of_int i :: u32) = nat i"
  by (simp add: unsigned_of_int take_bit_int_eq_self)

lemma rest_of_pages:
  assumes "0 < n - (256 - int k)" "k < 256"
  shows "min (nat n) (256 - k) = 256 - k" "nat (n - (256 - int k)) = nat n - (256 - k)" "nat (n - (256 - int k)) < nat n"
  using assms by auto

lemma last_page: "\<not> 0 < n - (256 - int k) \<Longrightarrow> min (nat n) (256 - k) = nat n"
  by auto

text \<open>A piece of a sector, in the numbers of the code.\<close>

lemma sector_numbers:
  assumes "usable f" "unat (a mod 4096) + unat n \<le> 4096" "n \<noteq> 0"
  shows "area_len (wf_sector_size f) n = n" "\<not> wf_sector_size f \<le> a mod 4096"
    "area_bytes (wf_sector_size f) (a mod 4096) n = int (unat n)"
    "w25qxx_SectorToPage f (a div 4096) = Some (a div 4096 * 16)"
    "unat (a div 4096 * 16 + a mod 4096 div page_size f) * 256 + unat (a mod 4096 mod page_size f) = unat a"
    "unat (a mod 4096 mod page_size f) < 256"
proof -
  have s: "wf_sector_size f = 4096" "page_size f = 256" using assms(1) by (simp_all add: usable_def page_size_def)
  have n: "unat n \<le> 4096" "0 < unat n" using assms(2,3) unat_gt_0 [of n] by simp_all
  show "area_len (wf_sector_size f) n = n" using n(1) assms(3) by (simp add: area_len_def s word_less_nat_alt)
  show "\<not> wf_sector_size f \<le> a mod 4096" by (simp add: s word_le_nat_alt unat_mod)
  have "unat (a mod 4096 + n) = unat (a mod 4096) + unat n" using assms(2) by (intro unat_add_u32) simp
  then show "area_bytes (wf_sector_size f) (a mod 4096) n = int (unat n)"
    using assms(2) n(1) by (simp add: area_bytes_def s word_less_nat_alt sint_u32_small)
  have d: "unat (a div 4096) = unat a div 4096" by (simp add: unat_div)
  have b: "unat a div 4096 < 1048576" using unat_u32_less [of a] by (intro less_mult_imp_div_less) simp
  have m: "unat (a div 4096 * 4096) = unat a div 4096 * 4096" "unat (a div 4096 * 16) = unat a div 4096 * 16"
    using unat_mult_u32 [of "a div 4096" 4096] unat_mult_u32 [of "a div 4096" 16] b by (simp_all add: d)
  have "a div 4096 * 4096 div 256 = a div 4096 * 16"
    by (rule word_unat_eq_iff [THEN iffD2]) (simp add: unat_div m)
  then show "w25qxx_SectorToPage f (a div 4096) = Some (a div 4096 * 16)"
    by (simp add: w25qxx_SectorToPage_def scale_def s)
  have "unat (a div 4096 * 16 + a mod 4096 div 256) = unat a div 4096 * 16 + unat a mod 4096 div 256"
  proof -
    have "unat a mod 4096 div 256 < 16" by (simp add: less_mult_imp_div_less)
    then show ?thesis using b by (subst unat_add_u32) (simp_all add: m unat_div unat_mod)
  qed
  then show "unat (a div 4096 * 16 + a mod 4096 div page_size f) * 256 + unat (a mod 4096 mod page_size f) = unat a"
    unfolding s by (simp add: unat_mod)
  show "unat (a mod 4096 mod page_size f) < 256" by (simp add: s unat_mod)
qed

lemma write_page_len_min:
  assumes "page_size f = 256" "unat off < 256" "n \<noteq> 0" "unat n < 2 ^ 31"
  shows "unat (write_page_len f off n) = min (unat n) (256 - unat off)"
proof -
  have s: "unat (n + off) = unat n + unat off" "unat (off + n) = unat off + unat n" "unat (256 - off) = 256 - unat off"
    using assms(2,4) by (simp_all add: unat_add_u32 unat_sub word_le_nat_alt)
  show ?thesis using s assms(2,3) unat_add_u32 [of off "256 - off"]
    by (auto simp: write_page_len_def assms(1) Let_def word_less_nat_alt)
qed

context w25q_bus
begin

lemma Spi_view:
  "fst (w25qxx_Spi hal b w) = fst (chip_transfer b (view w))"
  "view (snd (w25qxx_Spi hal b w)) = snd (chip_transfer b (view w))"
  using write_read [of "[b]" w] by (auto simp: w25qxx_Spi_def w25qxx_writeread_def split: prod.split)

lemma spi_send_view:
  assumes "view w = c\<lparr>ch_input := Some s\<rparr>" "ch_busy c = 0"
  shows "view (spi_send hal b w) = c\<lparr>ch_input := Some (s @ [b])\<rparr>"
  using assms by (simp add: spi_send_def Spi_view chip_transfer_ready)

lemma assert_view: "ready (view w) \<Longrightarrow> view (w25qxx_cs_assert hal w) = (view w)\<lparr>ch_input := Some []\<rparr>"
  by (simp add: w25qxx_cs_assert_def select chip_select_def ready_def)

lemma unassert_view:
  assumes "view w = c\<lparr>ch_input := Some s\<rparr>"
  shows "view (w25qxx_cs_unassert hal w) = (chip_execute s c)\<lparr>ch_input := None\<rparr>"
  using assms by (simp add: w25qxx_cs_unassert_def select chip_select_def chip_execute_input)

lemma delay_view: "ch_busy (view w) = 0 \<Longrightarrow> view (w25qxx_Delay hal n w) = view w"
  using delay [of w n] by (auto simp: w25qxx_Delay_def)

lemma send_address_view:
  assumes "view w = c\<lparr>ch_input := Some []\<rparr>" "ch_busy c = 0"
  shows "view (send_address hal f short long a w) = c\<lparr>ch_input := Some (command f short long a)\<rparr>"
proof -
  note st = spi_send_view [OF _ assms(2)]
  show ?thesis
    unfolding send_address_def Let_def send_address_bytes command_def
    using st [OF st [OF st [OF st [OF assms(1), of short], of "le32_byte 2 a"], of "le32_byte 1 a"], of "le32_byte 0 a"]
      st [OF st [OF st [OF st [OF st [OF assms(1), of long], of "le32_byte 3 a"], of "le32_byte 2 a"], of "le32_byte 1 a"], of "le32_byte 0 a"]
    by simp
qed

lemma write_enable_view:
  assumes "ready (view w)"
  shows "view (w25qxx_WriteEnable hal w) = (view w)\<lparr>ch_wel := True\<rparr>"
proof -
  have "view (w25qxx_cs_unassert hal (spi_send hal 0x06 (w25qxx_cs_assert hal w))) = (view w)\<lparr>ch_wel := True\<rparr>"
    using unassert_view [OF spi_send_view [OF assert_view [OF assms]]] assms
    by (simp add: ready_def chip_execute_def)
  then show ?thesis using assms by (simp add: w25qxx_WriteEnable_def delay_view ready_def)
qed

lemma write_end_loop_view:
  assumes "view w = c\<lparr>ch_input := Some (0x05 # s), ch_busy := n\<rparr>"
  shows "\<exists>t s' w'. write_end_loop hal f w = Some (f\<lparr>wf_status1 := t\<rparr>, w')
     \<and> view w' = c\<lparr>ch_input := Some (0x05 # s'), ch_busy := 0\<rparr>"
  using assms
proof (induction n arbitrary: w f s rule: less_induct)
  case (less n)
  let ?w = "snd (w25qxx_Spi hal W25QXX_DUMMY_BYTE w)" and ?st = "fst (w25qxx_Spi hal W25QXX_DUMMY_BYTE w)"
  have v: "view ?w = c\<lparr>ch_input := Some (0x05 # s @ [W25QXX_DUMMY_BYTE]), ch_busy := n - 1\<rparr>"
    and st: "?st = (if n \<noteq> 0 then 1 else 0) OR (if ch_wel c then 2 else 0)"
    using less.prems by (simp_all add: Spi_view chip_transfer_def chip_output_def)
  from delay [of ?w 1] v obtain k where k: "k \<le> n - 1"
    "view (w25qxx_Delay hal 1 ?w) = c\<lparr>ch_input := Some (0x05 # s @ [W25QXX_DUMMY_BYTE]), ch_busy := k\<rparr>"
    by (auto simp: w25qxx_Delay_def)
  have step: "write_end_loop hal f w = (if ?st AND 1 = 1 then write_end_loop hal (f\<lparr>wf_status1 := ?st\<rparr>) (w25qxx_Delay hal 1 ?w)
      else Some (f\<lparr>wf_status1 := ?st\<rparr>, w25qxx_Delay hal 1 ?w))"
    by (subst write_end_loop.simps) (simp add: case_prod_beta)
  have busy: "?st AND 1 = 1 \<longleftrightarrow> n \<noteq> 0" unfolding st by simp
  show ?case
  proof (cases "n = 0")
    case True
    with step busy have "write_end_loop hal f w = Some (f\<lparr>wf_status1 := ?st\<rparr>, w25qxx_Delay hal 1 ?w)" by simp
    with k True show ?thesis by fastforce
  next
    case False
    then have "k < n" using k(1) by simp
    from less.IH [OF this k(2), of "f\<lparr>wf_status1 := ?st\<rparr>"] step busy False show ?thesis by simp
  qed
qed

lemma wait_view:
  assumes "ch_input (view w) = None"
  shows "\<exists>t w'. w25qxx_WaitForWriteEnd hal f w = Some (f\<lparr>wf_status1 := t\<rparr>, w') \<and> view w' = (view w)\<lparr>ch_busy := 0\<rparr>"
proof -
  from delay [of w 1] obtain k where k: "view (w25qxx_Delay hal 1 w) = (view w)\<lparr>ch_busy := k\<rparr>"
    by (auto simp: w25qxx_Delay_def)
  let ?w = "spi_send hal 0x05 (w25qxx_cs_assert hal (w25qxx_Delay hal 1 w))"
  have "view ?w = (view w)\<lparr>ch_input := Some (0x05 # []), ch_busy := k\<rparr>"
    using k assms by (simp add: spi_send_def Spi_view chip_transfer_def w25qxx_cs_assert_def select chip_select_def)
  from write_end_loop_view [OF this, of f] obtain t s' w' where
    e: "write_end_loop hal f ?w = Some (f\<lparr>wf_status1 := t\<rparr>, w')" "view w' = (view w)\<lparr>ch_input := Some (0x05 # s'), ch_busy := 0\<rparr>"
    by blast
  from e(2) have "view w' = ((view w)\<lparr>ch_busy := 0\<rparr>)\<lparr>ch_input := Some (0x05 # s')\<rparr>" by (cases "view w") simp
  from unassert_view [OF this] assms have "view (w25qxx_cs_unassert hal w') = (view w)\<lparr>ch_busy := 0\<rparr>"
    by (cases "view w") (simp add: chip_execute_def chip_write_def Let_def)
  with e(1) show ?thesis by (auto simp: w25qxx_WaitForWriteEnd_def)
qed

end

context w25q_bus
begin

text \<open>An operation ends with a usable driver for the same chip, which is then as given.\<close>

definition ends :: "(w25qxx \<times> 'w) option \<Rightarrow> w25qxx \<Rightarrow> w25q_chip \<Rightarrow> bool" where
  "ends r f c \<longleftrightarrow> (\<exists>f' w'. r = Some (f', w') \<and> usable f' \<and> wf_id f' = wf_id f \<and> view w' = c)"

lemma ends_bind:
  assumes "ends r f c" "\<And>f' w'. usable f' \<Longrightarrow> wf_id f' = wf_id f \<Longrightarrow> view w' = c \<Longrightarrow> ends (k f' w') f' c'"
  shows "ends (Option.bind r (\<lambda>(f, w). k f w)) f c'"
proof -
  from assms(1) obtain f' w' where r: "r = Some (f', w')" "usable f'" "wf_id f' = wf_id f" "view w' = c"
    by (auto simp: ends_def)
  from assms(2) [OF r(2-4)] have "ends (k f' w') f c'" using r(3) by (simp add: ends_def)
  then show ?thesis using r(1) by simp
qed

text \<open>The frame of every operation that writes: the command goes out between two waits, with the latch set.\<close>

lemma write_frame:
  assumes "ready (view w)"
  shows "\<exists>t w1. w25qxx_WaitForWriteEnd hal f w = Some (f\<lparr>wf_status1 := t\<rparr>, w1)
     \<and> view (w25qxx_cs_assert hal (w25qxx_WriteEnable hal w1)) = (view w)\<lparr>ch_wel := True\<rparr>\<lparr>ch_input := Some []\<rparr>"
proof -
  from assms have n: "ch_input (view w) = None" by (simp add: ready_def)
  from wait_view [OF n, of f] obtain t w1 where
    w1: "w25qxx_WaitForWriteEnd hal f w = Some (f\<lparr>wf_status1 := t\<rparr>, w1)" "view w1 = (view w)\<lparr>ch_busy := 0\<rparr>" by blast
  have v: "view w1 = view w" using w1(2) assms by (cases "view w") (simp add: ready_def)
  then have e: "view (w25qxx_WriteEnable hal w1) = (view w)\<lparr>ch_wel := True\<rparr>"
    using write_enable_view [of w1] assms by simp
  then have "ready (view (w25qxx_WriteEnable hal w1))" using assms by (simp add: ready_def)
  from assert_view [OF this] w1(1) show ?thesis unfolding e by blast
qed

lemma write_finish:
  assumes "view w = c\<lparr>ch_input := Some s\<rparr>" "chip_execute s c = chip_changed cells c" "ch_input c = None"
  shows "\<exists>t w'. w25qxx_WaitForWriteEnd hal f (w25qxx_cs_unassert hal w) = Some (f\<lparr>wf_status1 := t\<rparr>, w')
     \<and> view w' = c\<lparr>ch_cells := cells, ch_wel := False, ch_busy := 0\<rparr>"
proof -
  have v: "view (w25qxx_cs_unassert hal w) = c\<lparr>ch_cells := cells, ch_wel := False, ch_busy := ch_time c, ch_input := None\<rparr>"
    unfolding unassert_view [OF assms(1)] assms(2) by (simp add: chip_changed_def)
  then have "ch_input (view (w25qxx_cs_unassert hal w)) = None" by simp
  from wait_view [OF this, of f] v assms(3) show ?thesis by (cases c) auto
qed

lemma write_bytes_view:
  assumes "view w = c\<lparr>ch_input := Some s\<rparr>" "ch_busy c = 0" "unat n \<le> length buf" "unat n < 65536"
  shows "\<exists>w'. w25qxx_write_bytes hal buf n w = Some w' \<and> view w' = c\<lparr>ch_input := Some (s @ take (unat n) buf)\<rparr>"
proof -
  have "unat (ucast n :: u16) = unat n" using assms(4) by (simp add: unsigned_ucast_eq take_bit_nat_eq_self)
  then show ?thesis
    using assms send [of "take (unat n) buf" w] by (auto simp: w25qxx_write_bytes_def mem_simps chip_transfers_end)
qed

lemma WritePage_view:
  assumes "usable f" "ready (view w)" "unat off < 256" "n \<noteq> 0" "unat n < 2 ^ 31"
    and "min (unat n) (256 - unat off) \<le> length buf" "unat page * 256 + 256 \<le> address_space f"
  shows "ends (w25qxx_WritePage hal buf page off n f w) f ((view w)\<lparr>ch_wel := False,
     ch_cells := flash_program (unat page * 256 + unat off) (take (min (unat n) (256 - unat off)) buf) (ch_cells (view w))\<rparr>)"
proof -
  let ?n = "write_page_len f off n" and ?a = "page * page_size f + off" and ?f = "f\<lparr>wf_lock := 1\<rparr>"
  let ?c = "(view w)\<lparr>ch_wel := True\<rparr>"
  have ps: "page_size f = 256" "page_size (f\<lparr>wf_lock := x, wf_status1 := t\<rparr>) = 256" for x t
    using assms(1) by (simp_all add: page_size_def usable_def)
  have n: "unat ?n = min (unat n) (256 - unat off)" using write_page_len_min ps(1) assms(3-5) by blast
  have a: "unat ?a = unat page * 256 + unat off"
    unfolding ps(1) by (rule page_address) (use assms(3,7) in \<open>auto simp: address_space_def split: if_splits\<close>)
  from write_frame [OF assms(2), of ?f] obtain t w1 where
    w1: "w25qxx_WaitForWriteEnd hal ?f w = Some (?f\<lparr>wf_status1 := t\<rparr>, w1)"
      "view (w25qxx_cs_assert hal (w25qxx_WriteEnable hal w1)) = ?c\<lparr>ch_input := Some []\<rparr>" by blast
  have c: "ch_busy ?c = 0" "ch_wel ?c" "ch_input ?c = None" using assms(2) by (simp_all add: ready_def)
  let ?f1 = "?f\<lparr>wf_status1 := t\<rparr>"
  let ?s = "command ?f1 0x02 0x12 ?a @ take (unat ?n) buf"
  have "unat ?n \<le> length buf" "unat ?n < 65536" using n assms(6) by auto
  from write_bytes_view [OF send_address_view [OF w1(2) c(1)] c(1) this] obtain w2 where
    w2: "w25qxx_write_bytes hal buf ?n (send_address hal ?f1 0x02 0x12 ?a (w25qxx_cs_assert hal (w25qxx_WriteEnable hal w1))) = Some w2"
      "view w2 = ?c\<lparr>ch_input := Some ?s\<rparr>" by blast
  have "unat ?a < address_space ?f1" using a assms(3,7) by (simp add: address_space_def four_bytes_def)
  moreover have "0 < unat ?n" using n assms(3) unat_gt_0 [THEN iffD2, OF assms(4)] by (simp add: min_def)
  then have "take (unat ?n) buf \<noteq> []" using n assms(6) by auto
  ultimately have "chip_execute ?s ?c = chip_changed (program_page (unat ?a) (take (unat ?n) buf) (ch_cells ?c)) ?c"
    by (intro execute_program c)
  also have "program_page (unat ?a) (take (unat ?n) buf) (ch_cells ?c) = flash_program (unat ?a) (take (unat ?n) buf) (ch_cells ?c)"
    using n a assms(3) by (intro program_page_within) auto
  finally have x: "chip_execute ?s ?c = chip_changed (flash_program (unat ?a) (take (unat ?n) buf) (ch_cells ?c)) ?c" .
  from write_finish [OF w2(2) x c(3), of ?f1] obtain t' w3 where
    w3: "w25qxx_WaitForWriteEnd hal ?f1 (w25qxx_cs_unassert hal w2) = Some (?f1\<lparr>wf_status1 := t'\<rparr>, w3)"
      "view w3 = ?c\<lparr>ch_cells := flash_program (unat ?a) (take (unat ?n) buf) (ch_cells ?c), ch_wel := False, ch_busy := 0\<rparr>"
    by blast
  have v: "view (w25qxx_Delay hal 1 w3) = (view w)\<lparr>ch_wel := False,
      ch_cells := flash_program (unat page * 256 + unat off) (take (min (unat n) (256 - unat off)) buf) (ch_cells (view w))\<rparr>"
    using w3(2) assms(2) n a by (cases "view w") (simp add: delay_view ready_def)
  have len: "write_page_len ?f off n = ?n" by (simp add: write_page_len_def page_size_def)
  show ?thesis
    unfolding ends_def w25qxx_WritePage_def locked_def Let_def len
    using assms(1) w1(1) w2(1) w3(1) v by (auto simp: usable_def page_size_def)
qed

end

context w25q_bus
begin

lemma write_pages_view:
  assumes "usable f" "ready (view w)" "unat off < 256" "0 < n" "n < 2 ^ 31" "nat n \<le> length buf"
    and "unat page * 256 + unat off + nat n \<le> address_space f"
  shows "ends (write_pages hal buf page n off f w) f ((view w)\<lparr>ch_wel := False,
     ch_cells := flash_program (unat page * 256 + unat off) (take (nat n) buf) (ch_cells (view w))\<rparr>)"
  using assms
proof (induction "nat n" arbitrary: n page off buf f w rule: less_induct)
  case less
  note p = less.prems
  let ?k = "min (nat n) (256 - unat off)" and ?a = "unat page * 256 + unat off"
  have ps: "page_size f = 256" using p(1) by (simp add: page_size_def usable_def)
  have un: "unat (word_of_int n :: u32) = nat n" using p(4,5) by (intro unat_of_int_u32) auto
  then have n0: "(word_of_int n :: u32) \<noteq> 0" using p(4) by (metis unsigned_0 zero_less_nat_eq less_irrefl)
  have pg: "unat page * 256 + 256 \<le> address_space f" using p(3,4,7) by (auto simp: address_space_def split: if_splits)
  have so: "sint off = int (unat off)" "sint (256 :: u32) = 256" "unat (256 - off) = 256 - unat off"
    using p(3) by (simp_all add: sint_u32_small unat_sub word_le_nat_alt)
  have e1: "ends (w25qxx_WritePage hal buf page off (word_of_int n) f w) f ((view w)\<lparr>ch_wel := False,
      ch_cells := flash_program ?a (take ?k buf) (ch_cells (view w))\<rparr>)"
    using WritePage_view [OF p(1-3) n0 _ _ pg] un p(5,6) by simp
  show ?case
  proof (subst write_pages.simps, rule ends_bind [OF e1], goal_cases)
    case 2: (1 f' w')
    let ?n = "n - (256 - int (unat off))"
    have ps': "page_size f' = 256" using 2(1) by (simp add: page_size_def usable_def)
    show ?case
    proof (cases "0 < ?n")
      case True
      then have k: "?k = 256 - unat off" "nat ?n = nat n - (256 - unat off)" "nat ?n < nat n"
        using rest_of_pages [of n "unat off"] p(3) by simp_all
      have pg1: "unat (page + 1) = unat page + 1"
        using p(7) pg by (intro trans [OF unat_add_u32]) (auto simp: address_space_def split: if_splits)
      have "ends (write_pages hal (drop (256 - unat off) buf) (page + 1) ?n 0 f' w') f' ((view w')\<lparr>ch_wel := False,
          ch_cells := flash_program (unat (page + 1) * 256 + unat (0 :: u32)) (take (nat ?n) (drop (256 - unat off) buf)) (ch_cells (view w'))\<rparr>)"
      proof (rule less.hyps)
        show "nat ?n \<le> length (drop (256 - unat off) buf)" unfolding k(2) using p(6) by (simp add: diff_le_mono)
        show "unat (page + 1) * 256 + unat (0 :: u32) + nat ?n \<le> address_space f'"
          using p(3,7) 2(2) k(1,2) True pg1 by (simp add: address_space_def four_bytes_def)
      qed (use k(3) p(2,5) True 2 in \<open>auto simp: ready_def\<close>)
      also have "unat (page + 1) * 256 + unat (0 :: u32) = ?a + length (take ?k buf)"
      proof -
        have "256 - unat off \<le> nat n" using k(1) by (metis min.cobounded1)
        then have "length (take ?k buf) = 256 - unat off" unfolding k(1) using p(6) by simp
        then show ?thesis using pg1 p(3) by simp
      qed
      also have "flash_program (?a + length (take ?k buf)) (take (nat ?n) (drop (256 - unat off) buf)) (ch_cells (view w'))
          = flash_program ?a (take (nat n) buf) (ch_cells (view w))"
      proof -
        have "take ?k buf @ take (nat ?n) (drop (256 - unat off) buf) = take (nat n) buf"
          unfolding k(1) k(2) by (metis add_diff_inverse_nat k(2,3) less_imp_le_nat not_less take_add zero_less_diff zero_less_nat_eq True)
        then show ?thesis using flash_program_append [of ?a "take ?k buf"] 2(3) by simp
      qed
      finally show ?thesis using True ps' so 2(3) by simp
    next
      case False
      then have "?k = nat n" by (rule last_page)
      then have "view w' = (view w)\<lparr>ch_wel := False, ch_cells := flash_program ?a (take (nat n) buf) (ch_cells (view w))\<rparr>"
        using 2(3) by (simp only:)
      then show ?thesis using False ps' so 2(1,2) by (simp add: ends_def)
    qed
  qed
qed

end

context w25q_bus
begin

lemma WriteSector_view:
  assumes "usable f" "ready (view w)" "n \<noteq> 0" "unat (a mod 4096) + unat n \<le> 4096" "unat n \<le> length buf"
    and "unat a + unat n \<le> address_space f"
  shows "ends (w25qxx_WriteSector hal buf (a div 4096) (a mod 4096) n f w) f ((view w)\<lparr>ch_wel := False,
     ch_cells := flash_program (unat a) (take (unat n) buf) (ch_cells (view w))\<rparr>)"
proof -
  note s = sector_numbers [OF assms(1,4,3)]
  let ?page = "a div 4096 * 16 + a mod 4096 div page_size f" and ?off = "a mod 4096 mod page_size f"
  have "ends (write_pages hal buf ?page (int (unat n)) ?off f w) f ((view w)\<lparr>ch_wel := False,
      ch_cells := flash_program (unat ?page * 256 + unat ?off) (take (nat (int (unat n))) buf) (ch_cells (view w))\<rparr>)"
  proof (rule write_pages_view [OF assms(1,2) s(6)])
    show "0 < int (unat n)" using assms(3) unat_gt_0 [of n] by linarith
    have "int (unat n) < 2147483648" using assms(4) by linarith
    then show "int (unat n) < 2 ^ 31" by simp
  qed (use assms s(5) in simp_all)
  then show ?thesis using s by (simp add: w25qxx_WriteSector_def)
qed

end

text \<open>The pieces in which an area is written: to the end of its sector first, then whole sectors.\<close>

definition piece :: "u32 \<Rightarrow> u32 \<Rightarrow> u32 \<Rightarrow> bool" where
  "piece a len remain \<longleftrightarrow> remain \<noteq> 0 \<and> remain \<le> len \<and> unat (a mod 4096) + unat remain \<le> 4096
     \<and> (remain = len \<or> (a + remain) mod 4096 = 0)"

lemma fill_sector: "(x + (4096 - x mod 4096)) mod 4096 = (0 :: nat)"
proof -
  define q m where "q = x div 4096" and "m = x mod 4096"
  have "x = q * 4096 + m" "m < 4096" by (simp_all add: q_def m_def)
  then have "x + (4096 - m) = (q + 1) * 4096" by simp
  then show ?thesis unfolding m_def [symmetric] by simp
qed

lemma piece_first:
  assumes "len \<noteq> 0" "unat a + unat len \<le> 2 ^ 32"
  shows "piece a len (first_part a len)"
proof -
  define r where "r = 4096 - a mod 4096"
  have m: "unat (a mod 4096) = unat a mod 4096" by (simp add: unat_mod)
  have r: "unat r = 4096 - unat a mod 4096" by (simp add: r_def unat_sub word_le_nat_alt m)
  have f: "first_part a len = (if len \<le> r then len else r)" by (simp add: first_part_def r_def)
  show ?thesis
  proof (cases "len \<le> r")
    case True
    then show ?thesis using assms(1) r m by (simp add: piece_def f word_le_nat_alt)
  next
    case False
    then have l: "unat r < unat len" by (simp add: word_le_nat_alt)
    then have "unat (a + r) = unat a + (4096 - unat a mod 4096)" using assms(2) r by (intro trans [OF unat_add_u32]) auto
    then have "unat ((a + r) mod 4096) = 0" using fill_sector [of "unat a"] by (simp add: unat_mod)
    then have "(a + r) mod 4096 = 0" by (simp only: unat_eq_0)
    moreover have "0 < unat r" using r by simp
    then have "r \<noteq> 0" by (metis unsigned_0 less_irrefl)
    moreover have "first_part a len = r" using f False by simp
    ultimately show ?thesis using l r m by (simp only: piece_def word_le_nat_alt) simp
  qed
qed

lemma piece_next:
  assumes "piece a len remain" "remain \<noteq> len" "unat a + unat len \<le> 2 ^ 32"
  shows "piece (a + remain) (len - remain) (if len - remain > 4096 then 4096 else len - remain)"
    "unat (a + remain) = unat a + unat remain" "unat (len - remain) = unat len - unat remain"
proof -
  have p: "remain \<noteq> 0" "unat remain < unat len" "(a + remain) mod 4096 = 0"
    using assms(1,2) by (auto simp: piece_def word_le_nat_alt word_unat_eq_iff)
  show u: "unat (a + remain) = unat a + unat remain" using p(2) assms(3) by (intro unat_add_u32) simp
  show l: "unat (len - remain) = unat len - unat remain" using p(2) by (simp add: unat_sub word_le_nat_alt)
  then have n: "len - remain \<noteq> 0" using p(2) by auto
  have "(a + remain + 4096) mod 4096 = 0" if "4096 < len - remain"
  proof -
    have "unat (a + remain + 4096) = unat (a + remain) + 4096"
      using that l u assms(3) by (intro trans [OF unat_add_u32]) (auto simp: word_less_nat_alt)
    moreover have "unat (a + remain) mod 4096 = 0" using arg_cong [OF p(3), of unat] by (simp add: unat_mod)
    ultimately have "unat ((a + remain + 4096) mod 4096) = 0" by (simp add: unat_mod)
    then show ?thesis by (simp add: unat_eq_0)
  qed
  then show "piece (a + remain) (len - remain) (if len - remain > 4096 then 4096 else len - remain)"
    using n p(3) by (auto simp: piece_def word_le_nat_alt word_less_nat_alt)
qed

context w25q_bus
begin

lemma write_sectors_view:
  assumes "usable f" "ready (view w)" "piece a len remain" "unat len \<le> length buf" "unat a + unat len \<le> address_space f"
  shows "ends (write_sectors hal a buf len remain f w) f ((view w)\<lparr>ch_wel := False,
     ch_cells := flash_program (unat a) (take (unat len) buf) (ch_cells (view w))\<rparr>)"
  using assms
proof (induction "unat len" arbitrary: a buf len remain f w rule: less_induct)
  case less
  note p = less.prems
  have r: "remain \<noteq> 0" "unat remain \<le> unat len" "unat (a mod 4096) + unat remain \<le> 4096"
    using p(3) by (simp_all add: piece_def word_le_nat_alt)
  have a32: "unat a + unat len \<le> 2 ^ 32" using p(5) by (auto simp: address_space_def split: if_splits)
  have e1: "ends (w25qxx_WriteSector hal buf (a div 4096) (a mod 4096) remain f w) f ((view w)\<lparr>ch_wel := False,
      ch_cells := flash_program (unat a) (take (unat remain) buf) (ch_cells (view w))\<rparr>)"
    using p r by (intro WriteSector_view) auto
  show ?case
  proof (subst write_sectors.simps, rule ends_bind [OF e1], goal_cases)
    case s: (1 f' w')
    show ?case
    proof (cases "len = remain")
      case True
      then show ?thesis using s by (simp add: ends_def)
    next
      case False
      note nx = piece_next [OF p(3) False [symmetric] a32]
      let ?remain = "if len - remain > 4096 then 4096 else len - remain"
      have "ends (write_sectors hal (a + remain) (drop (unat remain) buf) (len - remain) ?remain f' w') f' ((view w')\<lparr>ch_wel := False,
          ch_cells := flash_program (unat (a + remain)) (take (unat (len - remain)) (drop (unat remain) buf)) (ch_cells (view w'))\<rparr>)"
      proof (rule less.hyps)
        show "unat (len - remain) < unat len" using nx(3) r unat_gt_0 [of remain] by simp
        show "ready (view w')" using s(3) p(2) by (simp add: ready_def)
        show "unat (a + remain) + unat (len - remain) \<le> address_space f'"
          using nx(2,3) r(2) p(5) s(2) by (simp add: address_space_def four_bytes_def)
      qed (use s nx p r in auto)
      also have "unat (a + remain) = unat a + length (take (unat remain) buf)" using nx(2) p(4) r(2) by simp
      also have "take (unat (len - remain)) (drop (unat remain) buf) = drop (unat remain) (take (unat len) buf)"
        using nx(3) by (simp add: drop_take)
      also have "flash_program (unat a + length (take (unat remain) buf)) (drop (unat remain) (take (unat len) buf)) (ch_cells (view w'))
          = flash_program (unat a) (take (unat len) buf) (ch_cells (view w))"
      proof -
        have "take (unat remain) buf @ drop (unat remain) (take (unat len) buf) = take (unat len) buf"
          using r(2) by (metis append_take_drop_id min.absorb1 take_take)
        then show ?thesis using flash_program_append [of "unat a" "take (unat remain) buf"] unfolding s(3) by simp
      qed
      finally show ?thesis using False s(3) by simp
    qed
  qed
qed

lemma write_view:
  assumes "usable f" "ready (view w)" "len \<noteq> 0" "unat len \<le> length buf" "unat a + unat len \<le> address_space f"
  shows "ends (w25qxx_write hal a buf len f w) f ((view w)\<lparr>ch_wel := False,
     ch_cells := flash_program (unat a) (take (unat len) buf) (ch_cells (view w))\<rparr>)"
  unfolding w25qxx_write_def
  using assms by (intro write_sectors_view piece_first) (auto simp: address_space_def split: if_splits)

end

end
