(* ===== verification/W25q_Flash.thy ===== *)
theory W25q_Flash
  imports W25q_Chip
begin

section \<open>What the flash driver achieves\<close>

text \<open>
  Reading, erasing, recognising the chip and looking for empty areas on a port that keeps the contract \<open>w25q_bus\<close>,
  its interpretation for a port with nothing but the chip, and the properties of the driver.
\<close>

subsection \<open>Reading\<close>

definition cells_at :: "nat \<Rightarrow> nat \<Rightarrow> (nat \<Rightarrow> u8) \<Rightarrow> bytes" where
  "cells_at a n cells = map (\<lambda>i. cells (a + i)) [0..<n]"

definition put_at :: "nat \<Rightarrow> bytes \<Rightarrow> bytes \<Rightarrow> bytes" where
  "put_at pos bs buf = take pos buf @ bs @ drop (pos + length bs) buf"

lemma length_cells_at [simp]: "length (cells_at a n cells) = n"
  by (simp add: cells_at_def)

lemma length_put_at [simp]: "pos + length bs \<le> length buf \<Longrightarrow> length (put_at pos bs buf) = length buf"
  by (simp add: put_at_def)

lemma all_cells: "list_all P (cells_at a n cells) \<longleftrightarrow> (\<forall>x. a \<le> x \<and> x < a + n \<longrightarrow> P (cells x))"
  by (auto simp: list_all_iff cells_at_def le_iff_add)

lemma cells_at_append: "cells_at a (m + n) cells = cells_at a m cells @ cells_at (a + m) n cells"
  by (rule nth_equalityI) (auto simp: cells_at_def nth_append)

lemma put_at_append:
  assumes "pos + length xs + length ys \<le> length buf"
  shows "put_at (pos + length xs) ys (put_at pos xs buf) = put_at pos (xs @ ys) buf"
  using assms by (simp add: put_at_def add.commute add.left_commute)

lemma read_page_len_min:
  assumes "page_size f = 256" "unat off < 256" "n \<noteq> 0"
  shows "unat (read_page_len f off n) = min (unat n) (256 - unat off)"
proof -
  have s: "unat (256 - off) = 256 - unat off" "unat (off + 256) = unat off + 256"
    "unat n \<le> 256 \<Longrightarrow> unat (off + n) = unat off + unat n"
    using assms(2) by (simp_all add: unat_add_u32 unat_sub word_le_nat_alt)
  show ?thesis using s assms(2,3) by (auto simp: read_page_len_def assms(1) Let_def word_less_nat_alt)
qed

lemma execute_read: "chip_execute (command f 0x0B 0x0C a @ d) c = c"
  by (auto simp: chip_execute_def chip_write_def command_def Let_def)

context w25q_bus
begin

definition reads :: "(bytes \<times> w25qxx \<times> 'w) option \<Rightarrow> w25qxx \<Rightarrow> w25q_chip \<Rightarrow> bytes \<Rightarrow> bool" where
  "reads r f c buf \<longleftrightarrow> (\<exists>f' w'. r = Some (buf, f', w') \<and> usable f' \<and> wf_id f' = wf_id f \<and> view w' = c)"

lemma reads_bind:
  assumes "reads r f c buf" "\<And>f' w'. usable f' \<Longrightarrow> wf_id f' = wf_id f \<Longrightarrow> view w' = c \<Longrightarrow> reads (k buf f' w') f' c' buf'"
  shows "reads (Option.bind r (\<lambda>(buf, f, w). k buf f w)) f c' buf'"
proof -
  from assms(1) obtain f' w' where r: "r = Some (buf, f', w')" "usable f'" "wf_id f' = wf_id f" "view w' = c"
    by (auto simp: reads_def)
  from assms(2) [OF r(2-4)] have "reads (k buf f' w') f c' buf'" using r(3) by (simp add: reads_def)
  then show ?thesis using r(1) by simp
qed

lemma read_bytes_view:
  assumes "view w = c\<lparr>ch_input := Some s\<rparr>" "ch_busy c = 0" "unat n < 65536"
  shows "fst (w25qxx_read_bytes hal n w) = map (\<lambda>i. chip_output c (s @ replicate i fill)) [0..<unat n]"
    "view (snd (w25qxx_read_bytes hal n w)) = c\<lparr>ch_input := Some (s @ replicate (unat n) fill)\<rparr>"
proof -
  have "unat (ucast n :: u16) = unat n" using assms(3) by (simp add: unsigned_ucast_eq take_bit_nat_eq_self)
  then show "fst (w25qxx_read_bytes hal n w) = map (\<lambda>i. chip_output c (s @ replicate i fill)) [0..<unat n]"
    "view (snd (w25qxx_read_bytes hal n w)) = c\<lparr>ch_input := Some (s @ replicate (unat n) fill)\<rparr>"
    using assms by (simp_all add: w25qxx_read_bytes_def read chip_transfers_out chip_transfers_end min_def)
qed

lemma ReadPage_view:
  assumes "usable f" "ready (view w)" "unat off < 256" "n \<noteq> 0"
    and "pos + min (unat n) (256 - unat off) \<le> length buf" "unat page * 256 + 256 \<le> address_space f"
  shows "reads (w25qxx_ReadPage hal buf pos page off n f w) f (view w)
     (put_at pos (cells_at (unat page * 256 + unat off) (min (unat n) (256 - unat off)) (ch_cells (view w))) buf)"
proof -
  let ?n = "read_page_len f off n" and ?a = "page * page_size f + off" and ?f = "f\<lparr>wf_lock := 1\<rparr>"
  let ?w = "spi_send hal 0 (send_address hal ?f 0x0B 0x0C ?a (w25qxx_cs_assert hal w))"
  have c: "ch_busy (view w) = 0" "ch_input (view w) = None" using assms(2) by (simp_all add: ready_def)
  have ps: "page_size f = 256" using assms(1) by (simp add: page_size_def usable_def)
  have n: "unat ?n = min (unat n) (256 - unat off)" using read_page_len_min ps assms(3,4) by blast
  then have n16: "unat ?n < 65536" by linarith
  have a: "unat ?a = unat page * 256 + unat off"
    unfolding ps by (rule page_address) (use assms(3,6) in \<open>auto simp: address_space_def split: if_splits\<close>)
  then have sp: "unat ?a < address_space ?f" using assms(3,6) by (simp add: address_space_def four_bytes_def)
  have v: "view ?w = (view w)\<lparr>ch_input := Some (command ?f 0x0B 0x0C ?a @ [0])\<rparr>"
    using spi_send_view [OF send_address_view [OF assert_view [OF assms(2)] c(1)] c(1)] .
  note b = read_bytes_view [OF v c(1) n16]
  have out: "fst (w25qxx_read_bytes hal ?n ?w) = cells_at (unat ?a) (unat ?n) (ch_cells (view w))"
    unfolding b(1) cells_at_def using output_fast_read [OF c(1) sp] by simp
  have w': "view (w25qxx_Delay hal 1 (w25qxx_cs_unassert hal (snd (w25qxx_read_bytes hal ?n ?w)))) = view w"
    using unassert_view [OF b(2)] execute_read [of ?f ?a "0 # replicate (unat ?n) fill" "view w"] c
    by (cases "view w") (simp add: delay_view)
  have len: "read_page_len ?f off n = ?n" "page_size ?f = page_size f" by (simp_all add: read_page_len_def page_size_def Let_def)
  have wr: "mem_write buf pos (fst (w25qxx_read_bytes hal ?n ?w))
      = Some (put_at pos (cells_at (unat page * 256 + unat off) (min (unat n) (256 - unat off)) (ch_cells (view w))) buf)"
    unfolding out a n using assms(5) by (simp add: mem_simps put_at_def)
  show ?thesis
    unfolding reads_def w25qxx_ReadPage_def locked_def Let_def len case_prod_beta wr
    using assms(1) w' by (auto simp: usable_def)
qed

end

context w25q_bus
begin

lemma read_pages_view:
  assumes "usable f" "ready (view w)" "unat off < 256" "0 < n" "n < 2 ^ 31" "pos + nat n \<le> length buf"
    and "unat page * 256 + unat off + nat n \<le> address_space f"
  shows "reads (read_pages hal buf pos page n off f w) f (view w)
     (put_at pos (cells_at (unat page * 256 + unat off) (nat n) (ch_cells (view w))) buf)"
  using assms
proof (induction "nat n" arbitrary: n page off buf pos f w rule: less_induct)
  case less
  note p = less.prems
  let ?k = "min (nat n) (256 - unat off)" and ?a = "unat page * 256 + unat off"
  let ?buf = "put_at pos (cells_at ?a ?k (ch_cells (view w))) buf"
  have ps: "page_size f = 256" using p(1) by (simp add: page_size_def usable_def)
  have un: "unat (word_of_int n :: u32) = nat n" using p(4,5) by (intro unat_of_int_u32) auto
  then have n0: "(word_of_int n :: u32) \<noteq> 0" using p(4) by (metis unsigned_0 zero_less_nat_eq less_irrefl)
  have pg: "unat page * 256 + 256 \<le> address_space f" using p(3,4,7) by (auto simp: address_space_def split: if_splits)
  have so: "sint off = int (unat off)" "sint (256 :: u32) = 256" "unat (256 - off) = 256 - unat off"
    using p(3) by (simp_all add: sint_u32_small unat_sub word_le_nat_alt)
  have kl: "pos + ?k \<le> length buf" using p(6) by simp
  have e1: "reads (w25qxx_ReadPage hal buf pos page off (word_of_int n) f w) f (view w) ?buf"
    using ReadPage_view [OF p(1-3) n0 _ pg] un kl by simp
  show ?case
  proof (subst read_pages.simps, rule reads_bind [OF e1], goal_cases)
    case s: (1 f' w')
    let ?n = "n - (256 - int (unat off))"
    have ps': "page_size f' = 256" using s(1) by (simp add: page_size_def usable_def)
    show ?case
    proof (cases "0 < ?n")
      case True
      then have k: "?k = 256 - unat off" "nat ?n = nat n - (256 - unat off)" "nat ?n < nat n"
        using rest_of_pages [of n "unat off"] p(3) by simp_all
      then have kn: "256 - unat off \<le> nat n" by (metis min.cobounded1)
      have pg1: "unat (page + 1) = unat page + 1"
        using p(7) pg by (intro trans [OF unat_add_u32]) (auto simp: address_space_def split: if_splits)
      have "reads (read_pages hal ?buf (pos + (256 - unat off)) (page + 1) ?n 0 f' w') f' (view w')
          (put_at (pos + (256 - unat off)) (cells_at (unat (page + 1) * 256 + unat (0 :: u32)) (nat ?n) (ch_cells (view w'))) ?buf)"
      proof (rule less.hyps)
        show "pos + (256 - unat off) + nat ?n \<le> length ?buf" using k(2) kn p(6) kl by simp
        show "unat (page + 1) * 256 + unat (0 :: u32) + nat ?n \<le> address_space f'"
          using p(3,7) s(2) k(2) kn pg1 by (simp add: address_space_def four_bytes_def)
      qed (use k(3) p(2,5) True s in auto)
      also have "unat (page + 1) * 256 + unat (0 :: u32) = ?a + ?k" using pg1 p(3) unfolding k(1) by simp
      also have "put_at (pos + (256 - unat off)) (cells_at (?a + ?k) (nat ?n) (ch_cells (view w'))) ?buf
          = put_at pos (cells_at ?a (nat n) (ch_cells (view w))) buf"
      proof -
        have "nat n = ?k + nat ?n" unfolding k(1,2) using kn by simp
        then show ?thesis
          using put_at_append [of pos "cells_at ?a ?k (ch_cells (view w))" "cells_at (?a + ?k) (nat ?n) (ch_cells (view w))" buf]
            cells_at_append [of ?a ?k "nat ?n"] k(1) p(6) s(3) by (metis length_cells_at add.assoc)
      qed
      finally have "reads (read_pages hal ?buf (pos + (256 - unat off)) (page + 1) ?n 0 f' w') f' (view w)
          (put_at pos (cells_at ?a (nat n) (ch_cells (view w))) buf)"
        using s(2,3) unfolding reads_def by simp
      then show ?thesis using True unfolding k(1) ps' so by simp
    next
      case False
      then have "?k = nat n" by (rule last_page)
      then have k: "?buf = put_at pos (cells_at ?a (nat n) (ch_cells (view w))) buf" by (simp only:)
      show ?thesis unfolding k using False ps' so s by (simp add: reads_def)
    qed
  qed
qed

lemma ReadSector_view:
  assumes "usable f" "ready (view w)" "n \<noteq> 0" "unat (a mod 4096) + unat n \<le> 4096" "pos + unat n \<le> length buf"
    and "unat a + unat n \<le> address_space f"
  shows "reads (w25qxx_ReadSector hal buf pos (a div 4096) (a mod 4096) n f w) f (view w)
     (put_at pos (cells_at (unat a) (unat n) (ch_cells (view w))) buf)"
proof -
  note s = sector_numbers [OF assms(1,4,3)]
  let ?page = "a div 4096 * 16 + a mod 4096 div page_size f" and ?off = "a mod 4096 mod page_size f"
  have "reads (read_pages hal buf pos ?page (int (unat n)) ?off f w) f (view w)
      (put_at pos (cells_at (unat ?page * 256 + unat ?off) (nat (int (unat n))) (ch_cells (view w))) buf)"
  proof (rule read_pages_view [OF assms(1,2) s(6)])
    show "0 < int (unat n)" using assms(3) unat_gt_0 [of n] by linarith
    have "int (unat n) < 2147483648" using assms(4) by linarith
    then show "int (unat n) < 2 ^ 31" by simp
  qed (use assms s(5) in simp_all)
  then show ?thesis using s by (simp add: w25qxx_ReadSector_def)
qed

lemma read_sectors_view:
  assumes "usable f" "ready (view w)" "piece a len remain" "pos + unat len \<le> length buf" "unat a + unat len \<le> address_space f"
  shows "reads (read_sectors hal a buf pos len remain f w) f (view w)
     (put_at pos (cells_at (unat a) (unat len) (ch_cells (view w))) buf)"
  using assms
proof (induction "unat len" arbitrary: a buf pos len remain f w rule: less_induct)
  case less
  note p = less.prems
  have r: "remain \<noteq> 0" "unat remain \<le> unat len" "unat (a mod 4096) + unat remain \<le> 4096"
    using p(3) by (simp_all add: piece_def word_le_nat_alt)
  have a32: "unat a + unat len \<le> 2 ^ 32" using p(5) by (auto simp: address_space_def split: if_splits)
  let ?buf = "put_at pos (cells_at (unat a) (unat remain) (ch_cells (view w))) buf"
  have e1: "reads (w25qxx_ReadSector hal buf pos (a div 4096) (a mod 4096) remain f w) f (view w) ?buf"
    using p r by (intro ReadSector_view) auto
  show ?case
  proof (subst read_sectors.simps, rule reads_bind [OF e1], goal_cases)
    case s: (1 f' w')
    show ?case
    proof (cases "len = remain")
      case True
      then show ?thesis using s by (simp add: reads_def)
    next
      case False
      note nx = piece_next [OF p(3) False [symmetric] a32]
      let ?remain = "if len - remain > 4096 then 4096 else len - remain"
      have "reads (read_sectors hal (a + remain) ?buf (pos + unat remain) (len - remain) ?remain f' w') f' (view w')
          (put_at (pos + unat remain) (cells_at (unat (a + remain)) (unat (len - remain)) (ch_cells (view w'))) ?buf)"
      proof (rule less.hyps)
        show "unat (len - remain) < unat len" using nx(3) r unat_gt_0 [of remain] by simp
        show "pos + unat remain + unat (len - remain) \<le> length ?buf" using nx(3) r(2) p(4) by simp
        show "unat (a + remain) + unat (len - remain) \<le> address_space f'"
          using nx(2,3) r(2) p(5) s(2) by (simp add: address_space_def four_bytes_def)
      qed (use s nx p r in auto)
      also have "put_at (pos + unat remain) (cells_at (unat (a + remain)) (unat (len - remain)) (ch_cells (view w'))) ?buf
          = put_at pos (cells_at (unat a) (unat len) (ch_cells (view w))) buf"
      proof -
        have "unat len = unat remain + unat (len - remain)" using nx(3) r(2) by simp
        then show ?thesis
          using put_at_append [of pos "cells_at (unat a) (unat remain) (ch_cells (view w))"
              "cells_at (unat a + unat remain) (unat (len - remain)) (ch_cells (view w))" buf]
            cells_at_append [of "unat a" "unat remain" "unat (len - remain)"] nx(2) p(4) s(3)
          by (metis length_cells_at add.assoc)
      qed
      finally show ?thesis using False s(2,3) by (simp add: reads_def)
    qed
  qed
qed

lemma read_view:
  assumes "usable f" "ready (view w)" "len \<noteq> 0" "pos + unat len \<le> length buf" "unat a + unat len \<le> address_space f"
  shows "reads (w25qxx_read hal a buf pos len f w) f (view w)
     (put_at pos (cells_at (unat a) (unat len) (ch_cells (view w))) buf)"
  unfolding w25qxx_read_def
  using assms by (intro read_sectors_view piece_first) (auto simp: address_space_def split: if_splits)

end

subsection \<open>Erasing\<close>

context w25q_bus
begin

lemma erase_frame:
  assumes "ready (view w)"
    and "\<And>t. chip_execute (command (f\<lparr>wf_status1 := t\<rparr>) short long a) ((view w)\<lparr>ch_wel := True\<rparr>)
      = chip_changed cells ((view w)\<lparr>ch_wel := True\<rparr>)"
  shows "\<exists>t w1 t' w3. w25qxx_WaitForWriteEnd hal f w = Some (f\<lparr>wf_status1 := t\<rparr>, w1)
     \<and> w25qxx_WaitForWriteEnd hal (f\<lparr>wf_status1 := t\<rparr>) (w25qxx_cs_unassert hal (send_address hal (f\<lparr>wf_status1 := t\<rparr>) short long a
           (w25qxx_cs_assert hal (w25qxx_WriteEnable hal w1)))) = Some (f\<lparr>wf_status1 := t'\<rparr>, w3)
     \<and> view (w25qxx_Delay hal 1 w3) = (view w)\<lparr>ch_wel := False, ch_cells := cells\<rparr>"
proof -
  let ?c = "(view w)\<lparr>ch_wel := True\<rparr>"
  from write_frame [OF assms(1), of f] obtain t w1 where
    w1: "w25qxx_WaitForWriteEnd hal f w = Some (f\<lparr>wf_status1 := t\<rparr>, w1)"
      "view (w25qxx_cs_assert hal (w25qxx_WriteEnable hal w1)) = ?c\<lparr>ch_input := Some []\<rparr>" by blast
  have c: "ch_busy ?c = 0" "ch_input ?c = None" using assms(1) by (simp_all add: ready_def)
  from write_finish [OF send_address_view [OF w1(2) c(1)] assms(2) c(2), of "f\<lparr>wf_status1 := t\<rparr>"] obtain t' w3 where
    w3: "w25qxx_WaitForWriteEnd hal (f\<lparr>wf_status1 := t\<rparr>) (w25qxx_cs_unassert hal (send_address hal (f\<lparr>wf_status1 := t\<rparr>) short long a
           (w25qxx_cs_assert hal (w25qxx_WriteEnable hal w1)))) = Some (f\<lparr>wf_status1 := t\<rparr>\<lparr>wf_status1 := t'\<rparr>, w3)"
      "view w3 = ?c\<lparr>ch_cells := cells, ch_wel := False, ch_busy := 0\<rparr>" by blast
  have "view (w25qxx_Delay hal 1 w3) = (view w)\<lparr>ch_wel := False, ch_cells := cells\<rparr>"
    using w3(2) assms(1) by (cases "view w") (simp add: delay_view ready_def)
  with w1(1) w3(1) show ?thesis by auto
qed

lemma EraseSector_view:
  assumes "usable f" "ready (view w)" "unat sector * 4096 < address_space f"
  shows "ends (w25qxx_EraseSector hal sector f w) f ((view w)\<lparr>ch_wel := False,
     ch_cells := erase (unat sector * 4096) 4096 (ch_cells (view w))\<rparr>)"
proof -
  let ?f = "f\<lparr>wf_lock := 1\<rparr>" and ?c = "(view w)\<lparr>ch_wel := True\<rparr>" and ?a = "sector * 4096"
  have a: "unat ?a = unat sector * 4096"
    using unat_mult_u32 [of sector 4096] assms(3) by (simp add: address_space_def split: if_splits)
  have "chip_execute (command (?f\<lparr>wf_status1 := t\<rparr>) 0x20 0x21 ?a) ?c = chip_changed (erase (unat sector * 4096) 4096 (ch_cells ?c)) ?c" for t
    using execute_erase_sector [of ?c ?a "?f\<lparr>wf_status1 := t\<rparr>"] assms(2,3) a
    by (simp add: ready_def address_space_def four_bytes_def)
  from erase_frame [OF assms(2) this] show ?thesis
    unfolding ends_def w25qxx_EraseSector_def locked_def Let_def using assms(1) by (auto simp: usable_def)
qed

lemma EraseBlock_view:
  assumes "usable f" "ready (view w)" "unat block * 65536 < address_space f"
  shows "ends (w25qxx_EraseBlock hal block f w) f ((view w)\<lparr>ch_wel := False,
     ch_cells := erase (unat block * 65536) 65536 (ch_cells (view w))\<rparr>)"
proof -
  let ?f = "f\<lparr>wf_lock := 1\<rparr>" and ?c = "(view w)\<lparr>ch_wel := True\<rparr>" and ?a = "block * 4096 * 16"
  have a: "unat ?a = unat block * 65536"
    using unat_mult_u32 [of block 4096] unat_mult_u32 [of "block * 4096" 16] assms(3) by (simp add: address_space_def split: if_splits)
  have "chip_execute (command (?f\<lparr>wf_status1 := t\<rparr>) 0xD8 0xDC ?a) ?c = chip_changed (erase (unat block * 65536) 65536 (ch_cells ?c)) ?c" for t
    using execute_erase_block [of ?c ?a "?f\<lparr>wf_status1 := t\<rparr>"] assms(2,3) unfolding a
    by (simp add: ready_def address_space_def four_bytes_def)
  from erase_frame [OF assms(2) this] show ?thesis
    unfolding ends_def w25qxx_EraseBlock_def locked_def Let_def using assms(1) by (auto simp: usable_def)
qed

end

subsection \<open>Recognising the chip\<close>

text \<open>Reading the registers leaves what the driver knows of the chip.\<close>

definition same_setup :: "w25qxx \<Rightarrow> w25qxx \<Rightarrow> bool" where
  "same_setup f f' \<longleftrightarrow> wf_id f' = wf_id f \<and> wf_page_size f' = wf_page_size f \<and> wf_sector_size f' = wf_sector_size f
     \<and> wf_block_size f' = wf_block_size f \<and> wf_block_count f' = wf_block_count f"

lemma execute_nothing:
  assumes "cmd \<notin> {0x06, 0x04, 0xC7, 0x02, 0x12, 0x20, 0x21, 0xD8, 0xDC}"
  shows "chip_execute (cmd # args) c = c"
  using assms by (simp add: chip_execute_def chip_write_def Let_def)

lemma jedec_code: "(ucast ((push_bit 16 (ucast a) OR push_bit 8 (ucast b) OR ucast d :: u32) AND 0xFF) :: u8) = d" for a b d :: u8
proof -
  have m: "(0xFF :: u32) = mask 8" by (simp add: mask_eq_exp_minus_1)
  show ?thesis unfolding m by (rule bit_word_eqI) (auto simp: bit_simps)
qed

context w25q_bus
begin

lemma Spi_ready:
  assumes "view w = c\<lparr>ch_input := Some s\<rparr>" "ch_busy c = 0"
  shows "fst (w25qxx_Spi hal b w) = chip_output c s" "view (snd (w25qxx_Spi hal b w)) = c\<lparr>ch_input := Some (s @ [b])\<rparr>"
  using assms by (simp_all add: Spi_view chip_transfer_ready)

lemma leave_view:
  assumes "view w = c\<lparr>ch_input := Some (cmd # s)\<rparr>" "ready c" "cmd \<notin> {0x06, 0x04, 0xC7, 0x02, 0x12, 0x20, 0x21, 0xD8, 0xDC}"
  shows "view (w25qxx_cs_unassert hal w) = c"
  using unassert_view [OF assms(1)] execute_nothing [OF assms(3)] assms(2) by (cases c) (simp add: ready_def)

lemma ReadID_view:
  assumes "ready (view w)" "ch_id (view w) = [m, t, d]"
  shows "ucast (fst (w25qxx_ReadID hal w) AND 0xFF) = d" "view (snd (w25qxx_ReadID hal w)) = view w"
proof -
  let ?c = "view w"
  have c: "ch_busy ?c = 0" using assms(1) by (simp add: ready_def)
  let ?w0 = "spi_send hal 0x9F (w25qxx_cs_assert hal w)"
  note v0 = spi_send_view [OF assert_view [OF assms(1)] c, of "0x9F"]
  note s1 = Spi_ready [OF v0 c, of W25QXX_DUMMY_BYTE]
  note s2 = Spi_ready [OF s1(2) c, of W25QXX_DUMMY_BYTE]
  note s3 = Spi_ready [OF s2(2) c, of W25QXX_DUMMY_BYTE]
  show "ucast (fst (w25qxx_ReadID hal w) AND 0xFF) = d"
    using s3(1) assms(2) c by (simp add: w25qxx_ReadID_def Let_def case_prod_beta jedec_code chip_output_def)
  show "view (snd (w25qxx_ReadID hal w)) = view w"
    using leave_view [where cmd = "0x9F" and c = ?c, OF _ assms(1)] s3(2) by (simp add: w25qxx_ReadID_def Let_def case_prod_beta)
qed

lemma spi_collect_view:
  assumes "view w = c\<lparr>ch_input := Some s\<rparr>" "ch_busy c = 0"
  shows "\<exists>s'. view (snd (spi_collect hal n w)) = c\<lparr>ch_input := Some (s @ s')\<rparr>"
  using assms(1)
proof (induction n arbitrary: w s)
  case (Suc n)
  from Suc.IH [OF Spi_ready(2) [OF Suc.prems assms(2)]] obtain s' where
    "view (snd (spi_collect hal n (snd (w25qxx_Spi hal W25QXX_DUMMY_BYTE w)))) = c\<lparr>ch_input := Some (s @ W25QXX_DUMMY_BYTE # s')\<rparr>"
    by auto
  then show ?case by (auto simp: case_prod_beta)
qed (auto intro: exI [of _ "[]"])

lemma ReadUniqID_view:
  assumes "ready (view w)"
  shows "\<exists>u w'. w25qxx_ReadUniqID hal f w = (f\<lparr>wf_uniq_id := u\<rparr>, w') \<and> view w' = view w"
proof -
  have c: "ch_busy (view w) = 0" using assms(1) by (simp add: ready_def)
  let ?w = "spi_send hal 0x4B (w25qxx_cs_assert hal w)"
  from spi_collect_view [OF spi_send_view [OF assert_view [OF assms] c] c, of 4 "0x4B"] obtain s where
    "view (snd (spi_collect hal 4 ?w)) = (view w)\<lparr>ch_input := Some (([] @ [0x4B]) @ s)\<rparr>" by blast
  from spi_collect_view [OF this c, of 8] obtain s' where
    "view (snd (spi_collect hal 8 (snd (spi_collect hal 4 ?w)))) = (view w)\<lparr>ch_input := Some (0x4B # s @ s')\<rparr>" by auto
  from leave_view [OF this assms] show ?thesis by (auto simp: w25qxx_ReadUniqID_def Let_def case_prod_beta)
qed

lemma ReadStatus_view:
  assumes "ready (view w)"
  shows "\<exists>t f' w'. w25qxx_ReadStatusRegister hal f sel w = (t, f', w') \<and> view w' = view w \<and> same_setup f f'"
proof -
  have c: "ch_busy (view w) = 0" using assms(1) by (simp add: ready_def)
  let ?cmd = "if sel = 1 then 0x05 else if sel = 2 then 0x35 else 0x15 :: u8"
  note v = spi_send_view [OF assert_view [OF assms] c, of ?cmd]
  have l: "view (w25qxx_cs_unassert hal (snd (w25qxx_Spi hal W25QXX_DUMMY_BYTE (spi_send hal ?cmd (w25qxx_cs_assert hal w))))) = view w"
    using leave_view [where cmd = ?cmd and c = "view w" and s = "[W25QXX_DUMMY_BYTE]", OF _ assms] Spi_ready(2) [OF v c] by simp
  then show ?thesis by (simp add: w25qxx_ReadStatusRegister_def Let_def case_prod_beta same_setup_def)
qed

lemma Init_view:
  assumes "ready (view w)" "ch_id (view w) = [m, t, code]"
  shows "\<exists>f' w'. w25qxx_Init hal f w = (w25qxx_chip code \<noteq> None, f', w') \<and> view w' = view w
     \<and> (\<forall>chip blocks. w25qxx_chip code = Some (chip, blocks) \<longrightarrow> usable f' \<and> wf_id f' = chip \<and> wf_block_count f' = blocks)"
proof -
  let ?w = "w25qxx_Delay hal 1 w"
  have d: "view ?w = view w" using assms(1) by (simp add: delay_view ready_def)
  note r = ReadID_view [of ?w, unfolded d, OF assms]
  let ?w1 = "snd (w25qxx_ReadID hal ?w)"
  show ?thesis
  proof (cases "w25qxx_chip code")
    case None
    then show ?thesis using r by (simp add: w25qxx_Init_def case_prod_beta)
  next
    case (Some x)
    obtain chip blocks where x: "x = (chip, blocks)" by force
    let ?g = "w25qxx_geometry (f\<lparr>wf_lock := 1\<rparr>) chip blocks"
    from ReadUniqID_view [of ?w1 ?g] r(2) assms(1) obtain u w2 where
      w2: "w25qxx_ReadUniqID hal ?g ?w1 = (?g\<lparr>wf_uniq_id := u\<rparr>, w2)" "view w2 = view w" by auto
    from ReadStatus_view [of w2 "?g\<lparr>wf_uniq_id := u\<rparr>" 1] w2(2) assms(1) obtain t1 f3 w3 where
      w3: "w25qxx_ReadStatusRegister hal (?g\<lparr>wf_uniq_id := u\<rparr>) 1 w2 = (t1, f3, w3)" "view w3 = view w"
        "same_setup (?g\<lparr>wf_uniq_id := u\<rparr>) f3" by auto
    from ReadStatus_view [of w3 f3 2] w3(2) assms(1) obtain t2 f4 w4 where
      w4: "w25qxx_ReadStatusRegister hal f3 2 w3 = (t2, f4, w4)" "view w4 = view w"
        "same_setup f3 f4" by auto
    from ReadStatus_view [of w4 f4 3] w4(2) assms(1) obtain t3 f5 w5 where
      w5: "w25qxx_ReadStatusRegister hal f4 3 w4 = (t3, f5, w5)" "view w5 = view w"
        "same_setup f4 f5" by auto
    have "usable (f5\<lparr>wf_lock := 0\<rparr>) \<and> wf_id f5 = chip \<and> wf_block_count f5 = blocks"
      using w3(3) w4(3) w5(3) by (simp add: same_setup_def usable_def w25qxx_geometry_def)
    then show ?thesis using r(1) Some x w2 w3 w4 w5 by (simp add: w25qxx_Init_def case_prod_beta)
  qed
qed

end

subsection \<open>A port with nothing but the chip\<close>

definition chip_hal :: "w25q_chip spi_hal" where
  "chip_hal = \<lparr>hal_spi_open = id, hal_spi_write_read = chip_transfers, hal_spi_write = (\<lambda>bs c. snd (chip_transfers bs c)),
     hal_spi_read = (\<lambda>n. chip_transfers (replicate n 0)), hal_io_set_value = chip_select,
     hal_delay_us = (\<lambda>n c. c\<lparr>ch_busy := ch_busy c - n\<rparr>)\<rparr>"

interpretation chip_port: w25q_bus chip_hal "\<lambda>c. c" 0
  by unfold_locales (simp_all add: chip_hal_def, metis diff_le_self)

lemma chip_port_bus: "w25q_bus chip_hal (\<lambda>c. c) 0"
  by (rule chip_port.w25q_bus_axioms)

subsection \<open>Properties\<close>

lemma and_erased: "(0xFF :: u8) AND b = b"
proof -
  have m: "(0xFF :: u8) = mask 8" by (simp add: mask_eq_exp_minus_1)
  show ?thesis unfolding m by (rule bit_word_eqI) (auto simp: bit_simps)
qed

text \<open>C25: On a port with a flash chip that is ready, \<open>w25qxx_write\<close> of one or more bytes to erased cells at any address,
  across pages and sectors, returns and stores exactly these bytes: every cell of the area holds its byte and no
  other cell changes. \<open>w25qxx_read\<close> then returns and gives the bytes back, placed in the buffer as asked, the
  rest of the buffer untouched, with the chip as before and the driver unlocked. The port is any one that keeps
  the contract \<open>w25q_bus\<close>; the area has to be in the range of the chip's commands, the data and the buffer to be as long as
  asked. A length of 0 is excluded: the code passes it on to functions that take 0 for the rest of the sector.\<close>

theorem flash_write_read_back:
  assumes "w25q_bus hal view fill" "usable f" "ready (view w)"
    and "len \<noteq> 0" "unat len \<le> length data" "unat a + unat len \<le> address_space f"
    and "\<forall>x. unat a \<le> x \<and> x < unat a + unat len \<longrightarrow> ch_cells (view w) x = 0xFF"
    and "pos + unat len \<le> length buf"
  shows "\<exists>f' w' f'' w''. w25qxx_write hal a data len f w = Some (f', w')
     \<and> ch_cells (view w') = (\<lambda>x. if unat a \<le> x \<and> x < unat a + unat len then data ! (x - unat a) else ch_cells (view w) x)
     \<and> w25qxx_read hal a buf pos len f' w' = Some (take pos buf @ take (unat len) data @ drop (pos + unat len) buf, f'', w'')
     \<and> view w'' = view w' \<and> ready (view w'') \<and> usable f'' \<and> wf_id f'' = wf_id f"
proof -
  let ?data = "take (unat len) data"
  let ?cells = "\<lambda>x. if unat a \<le> x \<and> x < unat a + unat len then data ! (x - unat a) else ch_cells (view w) x"
  have p: "flash_program (unat a) ?data (ch_cells (view w)) = ?cells"
    using assms(5,7) by (auto simp: flash_program_def fun_eq_iff and_erased)
  from w25q_bus.write_view [OF assms(1-6)] obtain f' w' where w':
    "w25qxx_write hal a data len f w = Some (f', w')" "usable f'" "wf_id f' = wf_id f"
    "view w' = (view w)\<lparr>ch_wel := False, ch_cells := ?cells\<rparr>"
    unfolding w25q_bus.ends_def [OF assms(1)] p by blast
  have r: "ready (view w')" using w'(4) assms(3) by (simp add: ready_def)
  have s: "unat a + unat len \<le> address_space f'" using assms(6) w'(3) by (simp add: address_space_def four_bytes_def)
  have c: "cells_at (unat a) (unat len) (ch_cells (view w')) = ?data"
    using w'(4) assms(5) by (intro nth_equalityI) (auto simp: cells_at_def)
  have b: "put_at pos ?data buf = take pos buf @ ?data @ drop (pos + unat len) buf" using assms(5) by (simp add: put_at_def)
  from w25q_bus.read_view [OF assms(1) w'(2) r assms(4,8) s] obtain f'' w'' where
    "w25qxx_read hal a buf pos len f' w' = Some (take pos buf @ ?data @ drop (pos + unat len) buf, f'', w'')" "usable f''" "wf_id f'' = wf_id f'" "view w'' = view w'"
    unfolding w25q_bus.reads_def [OF assms(1)] c b by blast
  then show ?thesis using w' r by (intro exI [of _ f'] exI [of _ w'] exI [of _ f''] exI [of _ w''] conjI) simp_all
qed

definition sample_flash :: w25qxx where
  "sample_flash = w25qxx_geometry \<lparr>wf_id = W25Q10, wf_uniq_id = [], wf_page_size = 0, wf_page_count = 0, wf_sector_size = 0,
     wf_sector_count = 0, wf_block_size = 0, wf_block_count = 0, wf_capacity = 0, wf_status1 = 0, wf_status2 = 0, wf_status3 = 0,
     wf_lock = 0\<rparr> W25Q128 256"

definition sample_chip :: w25q_chip where
  "sample_chip = \<lparr>ch_id = [0xEF, 0x40, 0x18], ch_cells = (\<lambda>x. if x < 4000 then 0 else 0xFF), ch_wel = False, ch_busy = 0, ch_time = 7,
     ch_input = None\<rparr>"

lemma sample_flash_usable: "usable sample_flash" "address_space sample_flash = 2 ^ 24"
  by (simp_all add: sample_flash_def w25qxx_geometry_def usable_def address_space_def four_bytes_def)

lemma flash_write_read_back_witness:
  "\<exists>f' w' f'' w''. w25qxx_write chip_hal 4090 [1, 2, 3, 4, 5, 6, 7, 8, 9, 10] 10 sample_flash sample_chip = Some (f', w')
     \<and> ch_cells w' 4096 = 7
     \<and> w25qxx_read chip_hal 4090 (replicate 12 0) 1 10 f' w' = Some ([0, 1, 2, 3, 4, 5, 6, 7, 8, 9, 10, 0], f'', w'')"
proof -
  have "\<exists>f' w' f'' w''. w25qxx_write chip_hal 4090 [1, 2, 3, 4, 5, 6, 7, 8, 9, 10] 10 sample_flash sample_chip = Some (f', w')
     \<and> ch_cells w' = (\<lambda>x. if unat (4090 :: u32) \<le> x \<and> x < unat (4090 :: u32) + unat (10 :: u32)
         then [1, 2, 3, 4, 5, 6, 7, 8, 9, 10] ! (x - unat (4090 :: u32)) else ch_cells sample_chip x)
     \<and> w25qxx_read chip_hal 4090 (replicate 12 0) 1 10 f' w'
       = Some (take 1 (replicate 12 0) @ take (unat (10 :: u32)) [1, 2, 3, 4, 5, 6, 7, 8, 9, 10]
           @ drop (1 + unat (10 :: u32)) (replicate 12 0), f'', w'')
     \<and> w'' = w' \<and> ready w'' \<and> usable f'' \<and> wf_id f'' = wf_id sample_flash"
    by (rule flash_write_read_back [OF chip_port_bus])
      (auto simp: sample_flash_usable sample_chip_def ready_def)
  then obtain f' w' f'' w'' where
    "w25qxx_write chip_hal 4090 [1, 2, 3, 4, 5, 6, 7, 8, 9, 10] 10 sample_flash sample_chip = Some (f', w')"
    "ch_cells w' 4096 = [1, 2, 3, 4, 5, 6, 7, 8, 9, 10] ! 6"
    "w25qxx_read chip_hal 4090 (replicate 12 0) 1 10 f' w' = Some ([0, 1, 2, 3, 4, 5, 6, 7, 8, 9, 10, 0], f'', w'')"
    by force
  moreover have "[1, 2, 3, 4, 5, 6, 7, 8, 9, 10 :: u8] ! 6 = 7" by simp
  ultimately show ?thesis by (metis (no_types))
qed

text \<open>C26: On such a port \<open>w25qxx_EraseSector\<close> and \<open>w25qxx_EraseBlock\<close> return, and clear the 4096 cells of the sector, or the
  65536 cells of the block, to 0xFF and no others; afterwards the driver is unlocked and the chip ready.\<close>

theorem flash_erases_exactly:
  assumes "w25q_bus hal view fill" "usable f" "ready (view w)"
  shows "unat sector * 4096 < address_space f \<longrightarrow> (\<exists>f' w'. w25qxx_EraseSector hal sector f w = Some (f', w')
       \<and> usable f' \<and> ready (view w')
       \<and> ch_cells (view w') = (\<lambda>x. if x div 4096 = unat sector then 0xFF else ch_cells (view w) x))
     \<and> (unat block * 65536 < address_space f \<longrightarrow> (\<exists>f' w'. w25qxx_EraseBlock hal block f w = Some (f', w')
       \<and> usable f' \<and> ready (view w')
       \<and> ch_cells (view w') = (\<lambda>x. if x div 65536 = unat block then 0xFF else ch_cells (view w) x)))"
proof -
  have e: "erase (n * k) k cells = (\<lambda>x. if x div k = n then 0xFF else cells x)" if "0 < k" for n k cells
  proof -
    have "n * k \<le> x \<and> x < n * k + k \<longleftrightarrow> x div k = n" for x
      using that by (auto intro!: div_nat_eqI simp: ac_simps) (use dividend_less_div_times [of k x] in \<open>simp add: ac_simps\<close>)
    then show ?thesis by (simp add: erase_def)
  qed
  show ?thesis
    using w25q_bus.EraseSector_view [OF assms, of sector] w25q_bus.EraseBlock_view [OF assms, of block] assms(3)
    unfolding w25q_bus.ends_def [OF assms(1)] by (auto simp: e ready_def)
qed

lemma flash_erases_exactly_witness:
  "\<exists>f' w'. w25qxx_EraseSector chip_hal 0 sample_flash sample_chip = Some (f', w')
     \<and> ch_cells w' = (\<lambda>x. if x div 4096 = 0 then 0xFF else ch_cells sample_chip x) \<and> ch_cells w' 17 = 0xFF"
proof -
  have "ready sample_chip" by (simp add: sample_chip_def ready_def)
  from flash_erases_exactly [OF chip_port_bus sample_flash_usable(1) this, of 0 0] show ?thesis
    by (fastforce simp: sample_flash_usable(2))
qed

lemma output_read_bytes:
  assumes "ch_busy c = 0" "unat a < address_space f"
  shows "\<not> four_bytes f \<Longrightarrow> chip_output c (command f 0x03 0x0C a @ d) = ch_cells c (unat a + length d)"
    "four_bytes f \<Longrightarrow> chip_output c (command f 0x03 0x0C a @ d) = (if d = [] then 0xFF else ch_cells c (unat a + (length d - 1)))"
  using assms by (auto simp: chip_output_def command_def address_space_def be_address_bytes [unfolded One_nat_def] Suc_le_eq)

text \<open> \<open>w25qxx_ReadBytes\<close> and \<open>w25qxx_ReadByte\<close> deliver the cells from the address on for the chips with three byte
  addresses. For the large chips they send the fast read command without its dummy byte, so the first byte is
  not a cell at all and every other is that of the cell before.\<close>

theorem flash_read_bytes_shifted:
  assumes "w25q_bus hal view fill" "usable f" "ready (view w)"
    and "unat n < 65536" "0 < unat n" "pos + unat n \<le> length buf" "unat a < address_space f"
  shows "\<exists>f' w' f'' w''. w25qxx_ReadBytes hal buf pos a n f w
       = Some (take pos buf @ (if four_bytes f then 0xFF # cells_at (unat a) (unat n - 1) (ch_cells (view w))
           else cells_at (unat a) (unat n) (ch_cells (view w))) @ drop (pos + unat n) buf, f', w')
     \<and> w25qxx_ReadByte hal a f w = Some (if four_bytes f then 0xFF else ch_cells (view w) (unat a), f'', w'')"
proof -
  let ?f = "f\<lparr>wf_lock := 1\<rparr>" and ?c = "view w"
  let ?w = "send_address hal ?f 0x03 0x0C a (w25qxx_cs_assert hal w)"
  have c: "ch_busy ?c = 0" using assms(3) by (simp add: ready_def)
  have fb: "four_bytes ?f = four_bytes f" "unat a < address_space ?f" using assms(7) by (simp_all add: four_bytes_def address_space_def)
  note v = w25q_bus.send_address_view [OF assms(1) w25q_bus.assert_view [OF assms(1,3)] c]
  note out = output_read_bytes [OF c fb(2)]
  have "fst (w25qxx_read_bytes hal n ?w) = map (\<lambda>i. chip_output ?c (command ?f 0x03 0x0C a @ replicate i fill)) [0..<unat n]"
    using w25q_bus.read_bytes_view(1) [OF assms(1) v c assms(4)] .
  also have "\<dots> = (if four_bytes f then 0xFF # cells_at (unat a) (unat n - 1) (ch_cells ?c) else cells_at (unat a) (unat n) (ch_cells ?c))"
    using out fb(1) assms(5) by (intro nth_equalityI) (auto simp: cells_at_def nth_Cons')
  finally have b: "fst (w25qxx_read_bytes hal n ?w)
      = (if four_bytes f then 0xFF # cells_at (unat a) (unat n - 1) (ch_cells ?c) else cells_at (unat a) (unat n) (ch_cells ?c))" .
  then have wr: "mem_write buf pos (fst (w25qxx_read_bytes hal n ?w)) = Some (take pos buf
      @ (if four_bytes f then 0xFF # cells_at (unat a) (unat n - 1) (ch_cells ?c) else cells_at (unat a) (unat n) (ch_cells ?c))
      @ drop (pos + unat n) buf)"
    using assms(5,6) by (auto simp: mem_simps)
  have "fst (w25qxx_Spi hal W25QXX_DUMMY_BYTE ?w) = chip_output ?c (command ?f 0x03 0x0C a @ [])"
    using w25q_bus.Spi_ready(1) [OF assms(1) v c] by simp
  also have "\<dots> = (if four_bytes f then 0xFF else ch_cells ?c (unat a))" using out [of "[]"] fb(1) by simp
  finally have "fst (w25qxx_Spi hal W25QXX_DUMMY_BYTE ?w) = (if four_bytes f then 0xFF else ch_cells ?c (unat a))" .
  then show ?thesis
    unfolding w25qxx_ReadBytes_def w25qxx_ReadByte_def locked_def case_prod_beta wr using assms(2) by (simp add: usable_def)
qed

lemma flash_read_bytes_shifted_witness:
  "\<exists>f' w'. w25qxx_ReadByte chip_hal 3999 (sample_flash\<lparr>wf_id := W25Q256\<rparr>) sample_chip = Some (0xFF, f', w')"
proof -
  have u: "usable (sample_flash\<lparr>wf_id := W25Q256\<rparr>)" using sample_flash_usable(1) by (simp add: usable_def)
  have "ready sample_chip" by (simp add: sample_chip_def ready_def)
  from flash_read_bytes_shifted [OF chip_port_bus u this, of 2 0 "[0, 0]" 3999] show ?thesis
    by (auto simp: address_space_def four_bytes_def)
qed

subsection \<open>Empty areas\<close>

context w25q_bus
begin

lemma read_each_view:
  assumes "view w = c\<lparr>ch_input := Some s\<rparr>" "ch_busy c = 0"
  shows "fst (spi_read_each hal n w) = map (\<lambda>i. chip_output c (s @ replicate i fill)) [0..<n]"
    "view (snd (spi_read_each hal n w)) = c\<lparr>ch_input := Some (s @ replicate n fill)\<rparr>"
proof -
  have "fst (spi_read_each hal n w) = map (\<lambda>i. chip_output c (s @ replicate i fill)) [0..<n]
      \<and> view (snd (spi_read_each hal n w)) = c\<lparr>ch_input := Some (s @ replicate n fill)\<rparr>"
    using assms(1)
  proof (induction n arbitrary: w s)
    case (Suc n)
    note r = read_bytes_view [OF Suc.prems assms(2), of 1]
    have "view (snd (w25qxx_read_bytes hal 1 w)) = c\<lparr>ch_input := Some (s @ [fill])\<rparr>" using r(2) by simp
    from Suc.IH [OF this] r(1) show ?case
      by (simp add: case_prod_beta upt_conv_Cons map_Suc_upt [symmetric] del: upt_Suc)
  qed simp
  then show "fst (spi_read_each hal n w) = map (\<lambda>i. chip_output c (s @ replicate i fill)) [0..<n]"
    "view (snd (spi_read_each hal n w)) = c\<lparr>ch_input := Some (s @ replicate n fill)\<rparr>" by simp_all
qed

lemma fast_read_view:
  assumes "ready (view w)" "unat a < address_space f"
  shows "view (fast_read_at hal f a (w25qxx_cs_assert hal w)) = (view w)\<lparr>ch_input := Some (command f 0x0B 0x0C a @ [0])\<rparr>"
    "chip_output (view w) ((command f 0x0B 0x0C a @ [0]) @ replicate i fill) = ch_cells (view w) (unat a + i)"
proof -
  have c: "ch_busy (view w) = 0" using assms(1) by (simp add: ready_def)
  show "view (fast_read_at hal f a (w25qxx_cs_assert hal w)) = (view w)\<lparr>ch_input := Some (command f 0x0B 0x0C a @ [0])\<rparr>"
    unfolding fast_read_at_def using spi_send_view [OF send_address_view [OF assert_view [OF assms(1)] c] c] .
  show "chip_output (view w) ((command f 0x0B 0x0C a @ [0]) @ replicate i fill) = ch_cells (view w) (unat a + i)"
    using output_fast_read [OF c assms(2), of 0 "replicate i fill"] by simp
qed

lemma after_fast_read:
  assumes "view w = c\<lparr>ch_input := Some ((command f 0x0B 0x0C a @ [0]) @ d)\<rparr>" "ready c"
  shows "view (w25qxx_cs_unassert hal w) = c"
  using unassert_view [OF assms(1)] execute_read [of f a "0 # d" c] assms(2) by (cases c) (simp add: ready_def)

text \<open>The two ways in which 32 bytes are read.\<close>

definition good_reader :: "(u32 \<Rightarrow> 'w \<Rightarrow> bytes \<times> 'w) \<Rightarrow> w25qxx \<Rightarrow> w25q_chip \<Rightarrow> bool" where
  "good_reader rd f c \<longleftrightarrow> (\<forall>a w. view w = c \<longrightarrow> unat a < address_space f \<longrightarrow>
     fst (rd a w) = cells_at (unat a) 32 (ch_cells c) \<and> view (snd (rd a w)) = c)"

lemma good_readers:
  assumes "ready c"
  shows "good_reader (\<lambda>a w. case spi_read_each hal 32 (fast_read_at hal f a (w25qxx_cs_assert hal w)) of (bs, w) \<Rightarrow>
      (bs, w25qxx_cs_unassert hal w)) f c"
    "good_reader (\<lambda>a w. case w25qxx_read_bytes hal 32 (fast_read_at hal f a (w25qxx_cs_assert hal w)) of (bs, w) \<Rightarrow>
      (bs, w25qxx_cs_unassert hal w)) f c"
proof -
  have c: "ch_busy c = 0" using assms by (simp add: ready_def)
  have *: "fst (spi_read_each hal 32 (fast_read_at hal f a (w25qxx_cs_assert hal w))) = cells_at (unat a) 32 (ch_cells c)
      \<and> view (w25qxx_cs_unassert hal (snd (spi_read_each hal 32 (fast_read_at hal f a (w25qxx_cs_assert hal w))))) = c
      \<and> fst (w25qxx_read_bytes hal 32 (fast_read_at hal f a (w25qxx_cs_assert hal w))) = cells_at (unat a) 32 (ch_cells c)
      \<and> view (w25qxx_cs_unassert hal (snd (w25qxx_read_bytes hal 32 (fast_read_at hal f a (w25qxx_cs_assert hal w))))) = c"
    if w: "view w = c" and a: "unat a < address_space f" for a w
  proof -
    have r: "ready (view w)" using w assms by simp
    note v = fast_read_view(1) [OF r a, unfolded w] and out = fast_read_view(2) [OF r a, unfolded w]
    note e = read_each_view [OF v c, of 32] and b = read_bytes_view [OF v c, of 32]
    show ?thesis
      using e b after_fast_read [OF e(2) assms] after_fast_read [OF b(2) assms] out
      by (simp add: cells_at_def del: append_assoc)
  qed
  show "good_reader (\<lambda>a w. case spi_read_each hal 32 (fast_read_at hal f a (w25qxx_cs_assert hal w)) of (bs, w) \<Rightarrow>
      (bs, w25qxx_cs_unassert hal w)) f c"
    "good_reader (\<lambda>a w. case w25qxx_read_bytes hal 32 (fast_read_at hal f a (w25qxx_cs_assert hal w)) of (bs, w) \<Rightarrow>
      (bs, w25qxx_cs_unassert hal w)) f c"
    unfolding good_reader_def case_prod_beta using * by simp_all
qed

lemma empty_scan_view:
  assumes "good_reader rd f c" "view w = c" "unat i \<le> unat lim" "(unat lim - unat i) mod 32 = 0"
    and "unat base + unat lim \<le> address_space f" "unat lim \<le> 2 ^ 31"
  shows "\<exists>w'. empty_scan rd 32 base lim i w
     = Some (if \<forall>x. unat base + unat i \<le> x \<and> x < unat base + unat lim \<longrightarrow> ch_cells c x = 0xFF then Some lim else None, w') \<and> view w' = c"
  using assms(2-4)
proof (induction "unat lim - unat i" arbitrary: i w rule: less_induct)
  case less
  show ?case
  proof (cases "i < lim")
    case False
    then have "i = lim" using less.prems(2) by (simp add: word_less_nat_alt word_unat_eq_iff)
    then show ?thesis using less.prems by (subst empty_scan.simps) auto
  next
    case True
    then have l: "unat i + 32 \<le> unat lim"
      using dvd_imp_le [of 32 "unat lim - unat i"] less.prems(3) by (simp add: word_less_nat_alt dvd_eq_mod_eq_0)
    have u: "unat (i + base) = unat base + unat i" "unat (i + 32) = unat i + 32"
      using l assms(5,6) by (simp_all add: unat_add_u32 address_space_def split: if_splits)
    then have r: "fst (rd (i + base) w) = cells_at (unat base + unat i) 32 (ch_cells c)" "view (snd (rd (i + base) w)) = c"
      using assms(1) less.prems(1) l assms(5) by (simp_all add: good_reader_def)
    have all: "list_all (\<lambda>b. b = 0xFF) (fst (rd (i + base) w))
        \<longleftrightarrow> (\<forall>x. unat base + unat i \<le> x \<and> x < unat base + unat i + 32 \<longrightarrow> ch_cells c x = 0xFF)"
      unfolding r(1) all_cells by (simp add: add.assoc)
    show ?thesis
    proof (cases "list_all (\<lambda>b. b = 0xFF) (fst (rd (i + base) w))")
      case True
      have m: "(unat lim - unat (i + 32)) mod 32 = 0" using less.prems(3) l u(2) le_mod_geq [of 32 "unat lim - unat i"] by simp
      have s: "unat lim - unat (i + 32) < unat lim - unat i" "unat (i + 32) \<le> unat lim" using l u(2) by simp_all
      obtain w' where w': "empty_scan rd 32 base lim (i + 32) (snd (rd (i + base) w))
          = Some (if \<forall>x. unat base + unat (i + 32) \<le> x \<and> x < unat base + unat lim \<longrightarrow> ch_cells c x = 0xFF then Some lim else None, w')"
          "view w' = c"
        using less.hyps [OF s(1) r(2) s(2) m] by blast
      have "(\<forall>x. unat base + unat (i + 32) \<le> x \<and> x < unat base + unat lim \<longrightarrow> ch_cells c x = 0xFF)
          \<longleftrightarrow> (\<forall>x. unat base + unat i \<le> x \<and> x < unat base + unat lim \<longrightarrow> ch_cells c x = 0xFF)"
        using all [THEN iffD1, OF True] u(2) by (auto simp: not_le) (metis add.assoc not_le)
      then show ?thesis using w' True \<open>i < lim\<close> by (subst empty_scan.simps) (simp add: case_prod_beta)
    next
      case False
      then have "\<not> (\<forall>x. unat base + unat i \<le> x \<and> x < unat base + unat lim \<longrightarrow> ch_cells c x = 0xFF)"
      proof -
        from False all obtain x where "unat base + unat i \<le> x" "x < unat base + unat i + 32" "ch_cells c x \<noteq> 0xFF" by blast
        moreover from this(2) l have "x < unat base + unat lim" by linarith
        ultimately show ?thesis by blast
      qed
      then show ?thesis using False r(2) \<open>i < lim\<close> by (subst empty_scan.simps) (simp add: case_prod_beta)
    qed
  qed
qed

end

context w25q_bus
begin

lemma empty_area_view:
  assumes "\<And>f. good_reader (rd f) f (view w)" "unat off \<le> unat lim" "unat off mod 32 = 0" "unat lim mod 32 = 0"
    and "unat base + unat lim \<le> address_space f" "unat lim < 2 ^ 31"
  shows "\<exists>w'. empty_area (rd f) rd1 base lim off f w
     = Some (\<forall>x. unat base + unat off \<le> x \<and> x < unat base + unat lim \<longrightarrow> ch_cells (view w) x = 0xFF, f\<lparr>wf_lock := 0\<rparr>, w')
     \<and> view w' = view w"
proof -
  have "(unat lim - unat off) mod 32 = 0" using assms(3,4) dvd_diff_nat [of 32 "unat lim" "unat off"] by (simp add: dvd_eq_mod_eq_0)
  from empty_scan_view [OF assms(1) refl assms(2) this assms(5)] assms(6) obtain w' where
    w': "empty_scan (rd f) 32 base lim off w
      = Some (if \<forall>x. unat base + unat off \<le> x \<and> x < unat base + unat lim \<longrightarrow> ch_cells (view w) x = 0xFF then Some lim else None, w')"
      "view w' = view w" by auto
  have "unat (lim + off) = unat lim + unat off" using assms(2,6) by (intro unat_add_u32) simp
  then have "unat ((lim + off) mod 32) = 0" using assms(3,4) by (simp add: unat_mod mod_add_eq [symmetric])
  then have "(lim + off) mod 32 = 0" by (simp only: unat_eq_0)
  then show ?thesis using w' by (auto simp: empty_area_def)
qed

lemma IsEmptySector_view:
  assumes "usable f" "ready (view w)" "unat off \<le> 4096" "unat off mod 32 = 0" "unat sector * 4096 + 4096 \<le> address_space f"
  shows "\<exists>f' w'. w25qxx_IsEmptySector hal sector off n f w
     = Some (\<forall>x. unat sector * 4096 + unat off \<le> x \<and> x < unat sector * 4096 + 4096 \<longrightarrow> ch_cells (view w) x = 0xFF, f', w')
     \<and> usable f' \<and> view w' = view w"
proof -
  let ?f = "f\<lparr>wf_lock := 1\<rparr>" and ?lim = "wf_sector_size f" and ?base = "sector * wf_sector_size f"
  have s: "?lim = 4096" using assms(1) by (simp add: usable_def)
  have b: "unat ?base = unat sector * 4096"
    unfolding s using unat_mult_u32 [of sector 4096] assms(5) by (simp add: address_space_def split: if_splits)
  let ?rd = "\<lambda>f a w. case spi_read_each hal 32 (fast_read_at hal f a (w25qxx_cs_assert hal w)) of (bs, w) \<Rightarrow>
      (bs, w25qxx_cs_unassert hal w)"
  have "\<exists>w'. empty_area (?rd ?f) (read_1 hal ?f) ?base ?lim off ?f w
     = Some (\<forall>x. unat ?base + unat off \<le> x \<and> x < unat ?base + unat ?lim \<longrightarrow> ch_cells (view w) x = 0xFF, ?f\<lparr>wf_lock := 0\<rparr>, w')
     \<and> view w' = view w"
    using assms(3-5) by (intro empty_area_view good_readers(1) [OF assms(2)])
      (simp_all add: s b [unfolded s] address_space_def four_bytes_def)
  then show ?thesis using assms(1) unfolding b by (auto simp: w25qxx_IsEmptySector_def locked_def usable_def)
qed

lemma IsEmptyBlock_view:
  assumes "usable f" "ready (view w)" "unat off \<le> 65536" "unat off mod 32 = 0" "unat block * 65536 + 65536 \<le> address_space f"
  shows "\<exists>f' w'. w25qxx_IsEmptyBlock hal block off n f w
     = Some (\<forall>x. unat block * 65536 + unat off \<le> x \<and> x < unat block * 65536 + 65536 \<longrightarrow> ch_cells (view w) x = 0xFF, f', w')
     \<and> usable f' \<and> view w' = view w"
proof -
  let ?f = "f\<lparr>wf_lock := 1\<rparr>" and ?lim = "wf_block_size f" and ?base = "block * wf_block_size f"
  have s: "?lim = 65536" using assms(1) by (simp add: usable_def)
  have b: "unat ?base = unat block * 65536"
    unfolding s using unat_mult_u32 [of block 65536] assms(5) by (simp add: address_space_def split: if_splits)
  let ?rd = "\<lambda>f a w. case w25qxx_read_bytes hal 32 (fast_read_at hal f a (w25qxx_cs_assert hal w)) of (bs, w) \<Rightarrow>
      (bs, w25qxx_cs_unassert hal w)"
  have "\<exists>w'. empty_area (?rd ?f) (read_1 hal ?f) ?base ?lim off ?f w
     = Some (\<forall>x. unat ?base + unat off \<le> x \<and> x < unat ?base + unat ?lim \<longrightarrow> ch_cells (view w) x = 0xFF, ?f\<lparr>wf_lock := 0\<rparr>, w')
     \<and> view w' = view w"
    using assms(3-5) by (intro empty_area_view good_readers(2) [OF assms(2)])
      (simp_all add: s b [unfolded s] address_space_def four_bytes_def)
  then show ?thesis using assms(1) unfolding b by (auto simp: w25qxx_IsEmptyBlock_def locked_def usable_def)
qed

end

text \<open> For an offset that is a multiple of 32, \<open>w25qxx_IsEmptySector\<close> and \<open>w25qxx_IsEmptyBlock\<close> return, and answer whether
  all cells from the offset to the end of the sector or block are erased - whatever number of bytes they are asked
  to look at -, and leave the chip as it is.\<close>

theorem flash_finds_empty_areas:
  assumes "w25q_bus hal view fill" "usable f" "ready (view w)" "unat off mod 32 = 0"
    and "unat k * 65536 + 65536 \<le> address_space f" "unat off \<le> 4096"
  shows "(\<exists>f' w'. w25qxx_IsEmptySector hal k off n f w
       = Some (\<forall>x. unat k * 4096 + unat off \<le> x \<and> x < unat k * 4096 + 4096 \<longrightarrow> ch_cells (view w) x = 0xFF, f', w') \<and> view w' = view w)
     \<and> (\<exists>f' w'. w25qxx_IsEmptyBlock hal k off n f w
       = Some (\<forall>x. unat k * 65536 + unat off \<le> x \<and> x < unat k * 65536 + 65536 \<longrightarrow> ch_cells (view w) x = 0xFF, f', w') \<and> view w' = view w)"
  using w25q_bus.IsEmptySector_view [OF assms(1-3), of off k n] w25q_bus.IsEmptyBlock_view [OF assms(1-3), of off k n] assms(4-6)
  by fastforce

lemma flash_finds_empty_areas_witness:
  "\<exists>f' w'. w25qxx_IsEmptySector chip_hal 0 0 1 sample_flash sample_chip = Some (False, f', w')"
proof -
  have "ready sample_chip" by (simp add: sample_chip_def ready_def)
  note e = flash_finds_empty_areas [OF chip_port_bus sample_flash_usable(1) this, of 0 0 1]
  have "\<not> (\<forall>x. unat (0 :: u32) * 4096 + unat (0 :: u32) \<le> x \<and> x < unat (0 :: u32) * 4096 + 4096 \<longrightarrow> ch_cells sample_chip x = 0xFF)"
    by (simp add: sample_chip_def) (intro exI [of _ 0], simp)
  with e show ?thesis by (auto simp: sample_flash_usable(2))
qed

end
