(* ===== verification/Co_Storage.thy ===== *)
theory Co_Storage
  imports Co_Od Crc
begin

section \<open>Parameters of the dictionary in flash\<close>

text \<open>
  Models \<^verbatim>\<open>CO_FLASH.c\<close>, \<^verbatim>\<open>CO_OD_sign.c\<close> and \<^verbatim>\<open>CO_OD_storage.c\<close> of
  \<^verbatim>\<open>common/upgrade/loader/libs/canopen\<close>: at start the parameters are loaded from an image in flash, or the defaults
  are saved to it. The code passes addresses between RAM and memory mapped flash, so memory here is one map
  from addresses to bytes; the signature lies in it as the compiler lays out its struct, 12 bytes, little endian.
  The build configured by \<^verbatim>\<open>CO_config.h\<close> is modelled. The procedure that erases and writes flash is a
  parameter, and so are the sizes of two structs of the dictionary. A loop that waits for ever is
  \<^term>\<open>None\<close>.
\<close>

type_synonym store = "u32 \<Rightarrow> u8"
type_synonym flash_write = "u32 \<Rightarrow> u32 \<Rightarrow> u32 \<Rightarrow> store \<Rightarrow> int \<times> store"

definition load_bytes :: "store \<Rightarrow> u32 \<Rightarrow> nat \<Rightarrow> bytes" where
  "load_bytes m a n = map (\<lambda>i. m (a + of_nat i)) [0..<n]"

definition store_memcpy :: "u32 \<Rightarrow> u32 \<Rightarrow> u16 \<Rightarrow> store \<Rightarrow> store" where
  "store_memcpy dst src n m = fold (\<lambda>i m. m(dst + of_nat i := m (src + of_nat i))) [0..<unat n] m"

definition store_memcmp :: "u32 \<Rightarrow> u32 \<Rightarrow> u32 \<Rightarrow> store \<Rightarrow> bool" where
  "store_memcmp a b n m \<longleftrightarrow> list_all (\<lambda>i. m (a + of_nat i) = m (b + of_nat i)) [0..<unat n]"

subsection \<open>The flash object\<close>

datatype CO_FLASH_Status =
  CO_FLASH_STATUS_idle | CO_FLASH_STATUS_busy | CO_FLASH_STATUS_success | CO_FLASH_STATUS_fail

record CO_FLASH =
  fl_status :: CO_FLASH_Status
  fl_addr_dst :: u32
  fl_addr_src :: u32
  fl_len :: u32

definition CO_FLASH_init :: "CO_FLASH \<Rightarrow> CO_FLASH" where
  "CO_FLASH_init fl = fl\<lparr>fl_status := CO_FLASH_STATUS_idle, fl_addr_dst := 0, fl_addr_src := 0, fl_len := 0\<rparr>"

definition CO_FLASH_erase_and_write_to_flash ::
    "flash_write \<Rightarrow> CO_FLASH \<Rightarrow> u32 \<Rightarrow> u32 \<Rightarrow> u32 \<Rightarrow> store \<Rightarrow> int \<times> CO_FLASH \<times> store" where
  "CO_FLASH_erase_and_write_to_flash ew fl dst src len m =
     (if fl_status fl = CO_FLASH_STATUS_idle then
        (case ew dst src len m of (r, m) \<Rightarrow>
           (if r = 0 then if store_memcmp dst src len m then 0 else -1 else -1,
            fl\<lparr>fl_status := CO_FLASH_STATUS_idle\<rparr>, m))
      else (1, fl, m))"

definition CO_FLASH_read :: "CO_FLASH \<Rightarrow> u32 \<Rightarrow> u32 \<Rightarrow> u32 \<Rightarrow> store \<Rightarrow> int \<times> store" where
  "CO_FLASH_read fl dst src n m =
     (if fl_status fl = CO_FLASH_STATUS_idle then (0, store_memcpy dst src (ucast n) m) else (1, m))"

text \<open>The loops around both, which wait for a busy flash.\<close>

partial_function (option) read_from_flash :: "CO_FLASH \<Rightarrow> u32 \<Rightarrow> u32 \<Rightarrow> u32 \<Rightarrow> store \<Rightarrow> store option" where
  "read_from_flash fl dst src n m =
     (case CO_FLASH_read fl dst src n m of (rt, m) \<Rightarrow> if rt = 1 then read_from_flash fl dst src n m else Some m)"

partial_function (option) write_to_flash ::
    "flash_write \<Rightarrow> CO_FLASH \<Rightarrow> u32 \<Rightarrow> u32 \<Rightarrow> u32 \<Rightarrow> store \<Rightarrow> (int \<times> CO_FLASH \<times> store) option" where
  "write_to_flash ew fl dst src len m =
     (case CO_FLASH_erase_and_write_to_flash ew fl dst src len m of (rt, fl, m) \<Rightarrow>
        if rt = 1 then write_to_flash ew fl dst src len m else Some (rt, fl, m))"

subsection \<open>The signature\<close>

datatype CO_Func_Code_Group = CO_FCG_COMM_PARA | CO_FCG_APP_PARA

abbreviation CO_OD_SIGN_FUNC_CODE_COMMAND_NO_ACTION :: u8 where "CO_OD_SIGN_FUNC_CODE_COMMAND_NO_ACTION \<equiv> 0x00"
abbreviation CO_OD_SIGN_FUNC_CODE_COMMAND_STORE_PARA :: u8 where "CO_OD_SIGN_FUNC_CODE_COMMAND_STORE_PARA \<equiv> 0x01"
abbreviation CO_OD_SIGN_FUNC_CODE_COMMAND_RESTORE_PARA :: u8 where "CO_OD_SIGN_FUNC_CODE_COMMAND_RESTORE_PARA \<equiv> 0x02"

definition SIZEOF_CO_OD_Sign :: u32 where
  "SIZEOF_CO_OD_Sign = 12"

definition CO_OD_SIGN_set_func :: "u32 \<Rightarrow> CO_Func_Code_Group \<Rightarrow> u8 \<Rightarrow> store \<Rightarrow> store" where
  "CO_OD_SIGN_set_func s grp command m =
     (if grp = CO_FCG_COMM_PARA then m(s := m s AND 0xFC OR command) else m(s := m s AND 0xF3 OR push_bit 2 command))"

definition CO_OD_SIGN_get_func :: "u32 \<Rightarrow> CO_Func_Code_Group \<Rightarrow> store \<Rightarrow> u8" where
  "CO_OD_SIGN_get_func s grp m =
     (if grp = CO_FCG_COMM_PARA then m s AND 0x03 else drop_bit 2 (m s AND 0x0C))"

definition CO_OD_SIGN_set_sw_ver :: "u32 \<Rightarrow> u32 \<Rightarrow> store \<Rightarrow> store" where
  "CO_OD_SIGN_set_sw_ver s v m = m(s + 4 := le32_byte 0 v, s + 5 := le32_byte 1 v, s + 6 := le32_byte 2 v, s + 7 := le32_byte 3 v)"

definition CO_OD_SIGN_get_sw_ver :: "u32 \<Rightarrow> store \<Rightarrow> u32" where
  "CO_OD_SIGN_get_sw_ver s m = le32 (m (s + 4)) (m (s + 5)) (m (s + 6)) (m (s + 7))"

definition CO_OD_SIGN_set_crc16_comm_para :: "u32 \<Rightarrow> u16 \<Rightarrow> store \<Rightarrow> store" where
  "CO_OD_SIGN_set_crc16_comm_para s v m = m(s + 8 := byte_lo v, s + 9 := byte_hi v)"

definition CO_OD_SIGN_get_crc16_comm_para :: "u32 \<Rightarrow> store \<Rightarrow> u16" where
  "CO_OD_SIGN_get_crc16_comm_para s m = be16 (m (s + 9)) (m (s + 8))"

definition CO_OD_SIGN_set_crc16_app_para :: "u32 \<Rightarrow> u16 \<Rightarrow> store \<Rightarrow> store" where
  "CO_OD_SIGN_set_crc16_app_para s v m = m(s + 10 := byte_lo v, s + 11 := byte_hi v)"

definition CO_OD_SIGN_get_crc16_app_para :: "u32 \<Rightarrow> store \<Rightarrow> u16" where
  "CO_OD_SIGN_get_crc16_app_para s m = be16 (m (s + 11)) (m (s + 10))"

subsection \<open>The storage\<close>

text \<open>A sub-object with the addresses of its data, and of its value in the loaded parameters.\<close>

record od_value =
  ov_data :: u32
  ov_temp :: "u32 ptr"
  ov_len :: u16

record CO_OD_Storage =
  os_sign :: u32
  os_image_addr :: u32
  os_image_size :: u16
  os_comm_addr :: u32
  os_comm_size :: u32
  os_app_addr :: u32
  os_app_size :: u32
  os_boot_setting_size :: u32
  os_sign_addr :: u32
  os_sign_size :: u32
  os_comm_data :: u32
  os_comm_len :: u16
  os_app_data :: u32
  os_app_len :: u16
  os_flash :: CO_FLASH
  os_od :: "od_value list list"

definition co_crc16_at :: "u32 \<Rightarrow> u32 \<Rightarrow> store \<Rightarrow> u16 option" where
  "co_crc16_at a n m = CO_CRC_CalculateCRC16 (if a = 0 then NULL else Ref (load_bytes m a (unat n))) n"

definition co_load_sign_from_flash :: "CO_OD_Storage \<Rightarrow> store \<Rightarrow> store option" where
  "co_load_sign_from_flash st m = read_from_flash (os_flash st) (os_sign st) (os_sign_addr st) (os_sign_size st) m"

definition co_check_crc16_from_data_in_flash_is_valid :: "CO_OD_Storage \<Rightarrow> store \<Rightarrow> bool option" where
  "co_check_crc16_from_data_in_flash_is_valid st m = do {
     comm \<leftarrow> co_crc16_at (os_comm_addr st) (os_comm_size st) m;
     app \<leftarrow> co_crc16_at (os_app_addr st + os_boot_setting_size st) (os_app_size st - os_boot_setting_size st) m;
     Some (CO_OD_SIGN_get_crc16_comm_para (os_sign st) m = comm \<and> CO_OD_SIGN_get_crc16_app_para (os_sign st) m = app) }"

definition co_check_sign_is_valid :: "CO_OD_Storage \<Rightarrow> u32 \<Rightarrow> store \<Rightarrow> bool option" where
  "co_check_sign_is_valid st cur_ver m = co_check_crc16_from_data_in_flash_is_valid st m"

definition co_load_comm_para_from_flash :: "CO_OD_Storage \<Rightarrow> store \<Rightarrow> store option" where
  "co_load_comm_para_from_flash st m =
     read_from_flash (os_flash st) (os_comm_data st) (os_comm_addr st) (ucast (os_comm_len st)) m"

definition co_load_app_para_from_flash :: "CO_OD_Storage \<Rightarrow> store \<Rightarrow> store option" where
  "co_load_app_para_from_flash st m =
     read_from_flash (os_flash st) (os_app_data st) (os_app_addr st) (ucast (os_app_len st)) m"

definition copy_value :: "od_value \<Rightarrow> store \<Rightarrow> store" where
  "copy_value v m = (case ov_temp v of NULL \<Rightarrow> m | Ref t \<Rightarrow> store_memcpy (ov_data v) t (ov_len v) m)"

definition co_copy_temp_data_to_operating_data :: "CO_OD_Storage \<Rightarrow> store \<Rightarrow> store" where
  "co_copy_temp_data_to_operating_data st m = fold (fold copy_value) (os_od st) m"

definition CO_OD_STORAGE_save_sign_to_flash :: "flash_write \<Rightarrow> CO_OD_Storage \<Rightarrow> store \<Rightarrow> (int \<times> CO_OD_Storage \<times> store) option" where
  "CO_OD_STORAGE_save_sign_to_flash ew st m = do {
     (rt, fl, m) \<leftarrow> write_to_flash ew (os_flash st) (os_sign_addr st) (os_sign st) (os_sign_size st) m;
     Some (rt, st\<lparr>os_flash := fl\<rparr>, m) }"

definition CO_OD_STORAGE_save_comm_para_to_flash :: "flash_write \<Rightarrow> CO_OD_Storage \<Rightarrow> store \<Rightarrow> (int \<times> CO_OD_Storage \<times> store) option" where
  "CO_OD_STORAGE_save_comm_para_to_flash ew st m = do {
     (rt, fl, m) \<leftarrow> write_to_flash ew (os_flash st) (os_comm_addr st) (os_comm_data st) (ucast (os_comm_len st)) m;
     Some (rt, st\<lparr>os_flash := fl\<rparr>, m) }"

definition CO_OD_STORAGE_save_app_para_to_flash :: "flash_write \<Rightarrow> CO_OD_Storage \<Rightarrow> store \<Rightarrow> (int \<times> CO_OD_Storage \<times> store) option" where
  "CO_OD_STORAGE_save_app_para_to_flash ew st m = do {
     (rt, fl, m) \<leftarrow> write_to_flash ew (os_flash st) (os_app_addr st + os_boot_setting_size st)
       (os_app_data st + os_boot_setting_size st) (ucast (os_app_len st) - os_boot_setting_size st) m;
     Some (rt, st\<lparr>os_flash := fl\<rparr>, m) }"

definition CO_OD_STORAGE_update_crc16_comm_from_data_in_ram :: "CO_OD_Storage \<Rightarrow> store \<Rightarrow> store option" where
  "CO_OD_STORAGE_update_crc16_comm_from_data_in_ram st m = do {
     crc \<leftarrow> co_crc16_at (os_comm_data st) (ucast (os_comm_len st)) m;
     Some (CO_OD_SIGN_set_crc16_comm_para (os_sign st) crc m) }"

definition CO_OD_STORAGE_update_crc16_app_from_data_in_ram :: "CO_OD_Storage \<Rightarrow> store \<Rightarrow> store option" where
  "CO_OD_STORAGE_update_crc16_app_from_data_in_ram st m = do {
     crc \<leftarrow> co_crc16_at (os_app_data st + os_boot_setting_size st) (ucast (os_app_len st) - os_boot_setting_size st) m;
     Some (CO_OD_SIGN_set_crc16_app_para (os_sign st) crc m) }"

text \<open>
  One half of \<open>co_process_when_reset\<close> for a valid signature: a group of parameters is loaded, or its defaults are
  saved. \<open>sum_err\<close> counts the failures, \<open>outdated\<close> tells that the signature has to be written.
\<close>

definition process_group ::
    "u8 \<Rightarrow> bool \<Rightarrow> (store \<Rightarrow> store option) \<Rightarrow> (CO_OD_Storage \<Rightarrow> store \<Rightarrow> (int \<times> CO_OD_Storage \<times> store) option)
     \<Rightarrow> int \<times> bool \<times> CO_OD_Storage \<times> store \<Rightarrow> (int \<times> bool \<times> CO_OD_Storage \<times> store) option" where
  "process_group cmd is_restore_valid load save x =
     (case x of (sum_err, outdated, st, m) \<Rightarrow>
        if cmd = CO_OD_SIGN_FUNC_CODE_COMMAND_NO_ACTION \<or> \<not> is_restore_valid then do {
          m \<leftarrow> load m; Some (sum_err, outdated, st, m) }
        else if CO_OD_SIGN_FUNC_CODE_COMMAND_RESTORE_PARA AND cmd \<noteq> 0 then do {
          (rt, st, m) \<leftarrow> save st m; Some (sum_err - rt, True, st, m) }
        else Some x)"

definition update_sign :: "flash_write \<Rightarrow> u32 \<Rightarrow> CO_OD_Storage \<Rightarrow> store \<Rightarrow> (int \<times> CO_OD_Storage \<times> store) option" where
  "update_sign ew cur_sw_ver st m = do {
     m \<leftarrow> CO_OD_STORAGE_update_crc16_comm_from_data_in_ram st m;
     m \<leftarrow> CO_OD_STORAGE_update_crc16_app_from_data_in_ram st m;
     let m = CO_OD_SIGN_set_func (os_sign st) CO_FCG_COMM_PARA CO_OD_SIGN_FUNC_CODE_COMMAND_NO_ACTION m;
     let m = CO_OD_SIGN_set_func (os_sign st) CO_FCG_APP_PARA CO_OD_SIGN_FUNC_CODE_COMMAND_NO_ACTION m;
     let m = CO_OD_SIGN_set_sw_ver (os_sign st) cur_sw_ver m;
     CO_OD_STORAGE_save_sign_to_flash ew st m }"

definition co_process_when_reset ::
    "flash_write \<Rightarrow> bool \<Rightarrow> u32 \<Rightarrow> bool \<Rightarrow> CO_OD_Storage \<Rightarrow> store \<Rightarrow> (CO_OD_Storage \<times> store) option" where
  "co_process_when_reset ew sign_is_valid cur_sw_ver is_restore_valid st m = do {
     (sum_err, outdated, st, m) \<leftarrow>
       (if sign_is_valid then do {
          (sum_err, outdated, st, m) \<leftarrow> process_group (CO_OD_SIGN_get_func (os_sign st) CO_FCG_COMM_PARA m) is_restore_valid
            (co_load_comm_para_from_flash st) (CO_OD_STORAGE_save_comm_para_to_flash ew) (0, False, st, m);
          process_group (CO_OD_SIGN_get_func (os_sign st) CO_FCG_APP_PARA m) is_restore_valid
            (co_load_app_para_from_flash st) (CO_OD_STORAGE_save_app_para_to_flash ew) (sum_err, outdated, st, m) }
        else if is_restore_valid then do {
          (rt, st, m) \<leftarrow> CO_OD_STORAGE_save_comm_para_to_flash ew st m;
          (rt', st, m) \<leftarrow> CO_OD_STORAGE_save_app_para_to_flash ew st m;
          Some (0 - rt - rt', True, st, m) }
        else Some (0, False, st, m));
     if sum_err \<noteq> 0 then None
     else do {
       (sum_err, st, m) \<leftarrow>
         (if outdated then do { (rt, st, m) \<leftarrow> update_sign ew cur_sw_ver st m; Some (sum_err - rt, st, m) }
          else Some (sum_err, st, m));
       if sum_err \<noteq> 0 then None else Some (st, co_copy_temp_data_to_operating_data st m) } }"

text \<open>The fields that \<open>CO_OD_STORAGE_init\<close> sets. The size of the image is kept in 16 bits.\<close>

definition storage_setup ::
    "u32 \<Rightarrow> u32 \<Rightarrow> u32 \<Rightarrow> u32 \<Rightarrow> u32 \<Rightarrow> u32 \<Rightarrow> u32 \<Rightarrow> CO_FLASH \<Rightarrow> od_value list list \<Rightarrow> CO_OD_Storage \<Rightarrow> CO_OD_Storage" where
  "storage_setup comm_size boot_size image_addr image_size temp_comm temp_app app_size fl od st =
     st\<lparr>os_od := od, os_image_addr := image_addr, os_image_size := ucast image_size,
        os_sign_addr := image_addr, os_sign_size := SIZEOF_CO_OD_Sign,
        os_comm_addr := image_addr + SIZEOF_CO_OD_Sign, os_comm_size := comm_size,
        os_app_addr := image_addr + SIZEOF_CO_OD_Sign + comm_size, os_app_size := app_size, os_boot_setting_size := boot_size * 2,
        os_comm_data := temp_comm, os_comm_len := ucast comm_size, os_app_data := temp_app, os_app_len := ucast app_size,
        os_flash := fl\<rparr>"

definition CO_OD_STORAGE_init ::
    "flash_write \<Rightarrow> u32 \<Rightarrow> u32 \<Rightarrow> CO_OD_Storage \<Rightarrow> u32 \<Rightarrow> u32 \<Rightarrow> u32 \<Rightarrow> u32 \<Rightarrow> u32 \<Rightarrow> CO_FLASH \<Rightarrow> od_value list list
     \<Rightarrow> u32 \<Rightarrow> bool \<Rightarrow> store \<Rightarrow> (CO_OD_Storage \<times> store) option" where
  "CO_OD_STORAGE_init ew comm_size boot_size st image_addr image_size temp_comm temp_app app_size fl od sw_ver is_main_app m =
     (let st = storage_setup comm_size boot_size image_addr image_size temp_comm temp_app app_size fl od st
      in if os_sign_size st + os_comm_size st + app_size > ucast (os_image_size st) then None
         else do {
           m \<leftarrow> co_load_sign_from_flash st m;
           sign_is_valid \<leftarrow> co_check_sign_is_valid st sw_ver m;
           co_process_when_reset ew sign_is_valid sw_ver is_main_app st m })"

subsection \<open>Areas of memory\<close>

definition span :: "u32 \<Rightarrow> nat \<Rightarrow> u32 set" where
  "span a n = {x. unat a \<le> unat x \<and> unat x < unat a + n}"

definition fits :: "u32 \<Rightarrow> nat \<Rightarrow> bool" where
  "fits a n \<longleftrightarrow> unat a + n \<le> 2 ^ 32"

definition put_bytes :: "u32 \<Rightarrow> bytes \<Rightarrow> store \<Rightarrow> store" where
  "put_bytes a bs m = (\<lambda>x. if x \<in> span a (length bs) then bs ! (unat x - unat a) else m x)"

lemma unat_offset: "fits a n \<Longrightarrow> i < n \<Longrightarrow> unat (a + of_nat i) = unat a + i"
  by (simp add: fits_def unat_word_ariths unat_of_nat_u32)

lemma offset_in_span: "fits a n \<Longrightarrow> i < n \<Longrightarrow> a + of_nat i \<in> span a n"
  by (simp add: span_def unat_offset)

lemma span_offset: "x \<in> span a n \<Longrightarrow> x = a + of_nat (unat x - unat a)"
  by (simp add: span_def)

lemma fits_less: "fits a n \<Longrightarrow> k \<le> n \<Longrightarrow> fits a k"
  by (simp add: fits_def)

lemma span_mono: "k \<le> n \<Longrightarrow> span a k \<subseteq> span a n"
  by (auto simp: span_def)

lemma fits_part: "fits a n \<Longrightarrow> unat k + l \<le> n \<Longrightarrow> 0 < l \<Longrightarrow> fits (a + k) l"
  by (simp add: fits_def unat_word_ariths)

lemma span_part: "fits a n \<Longrightarrow> unat k + l \<le> n \<Longrightarrow> 0 < l \<Longrightarrow> span (a + k) l \<subseteq> span a n"
  by (auto simp: fits_def span_def unat_word_ariths)

lemma length_load_bytes [simp]: "length (load_bytes m a n) = n"
  by (simp add: load_bytes_def)

lemma nth_load_bytes [simp]: "i < n \<Longrightarrow> load_bytes m a n ! i = m (a + of_nat i)"
  by (simp add: load_bytes_def)

lemma load_frame: "fits a n \<Longrightarrow> (\<And>x. x \<in> span a n \<Longrightarrow> m' x = m x) \<Longrightarrow> load_bytes m' a n = load_bytes m a n"
  by (simp add: load_bytes_def offset_in_span)

lemma load_eq_iff: "fits a n \<Longrightarrow> load_bytes m' a n = load_bytes m a n \<longleftrightarrow> (\<forall>x\<in>span a n. m' x = m x)"
proof
  assume e: "load_bytes m' a n = load_bytes m a n"
  show "\<forall>x\<in>span a n. m' x = m x"
  proof
    fix x assume x: "x \<in> span a n"
    then have "unat x - unat a < n" by (auto simp: span_def)
    with arg_cong [OF e, of "\<lambda>bs. bs ! (unat x - unat a)"] span_offset [OF x] show "m' x = m x" by simp
  qed
qed (rule load_frame, auto)

lemma load_drop: "load_bytes m (a + of_nat k) (n - k) = drop k (load_bytes m a n)"
  by (rule nth_equalityI) (auto simp: add.assoc)

lemma put_outside [simp]: "x \<notin> span a (length bs) \<Longrightarrow> put_bytes a bs m x = m x"
  by (simp add: put_bytes_def)

lemma put_inside: "fits a (length bs) \<Longrightarrow> i < length bs \<Longrightarrow> put_bytes a bs m (a + of_nat i) = bs ! i"
  by (simp add: put_bytes_def offset_in_span unat_offset)

lemma load_put: "fits a (length bs) \<Longrightarrow> load_bytes (put_bytes a bs m) a (length bs) = bs"
  by (intro nth_equalityI) (simp_all add: put_inside)

lemma put_snoc: "fits a (Suc (length bs)) \<Longrightarrow> put_bytes a (bs @ [b]) m = (put_bytes a bs m)(a + of_nat (length bs) := b)"
proof (rule ext)
  fix x assume f: "fits a (Suc (length bs))"
  then have "x = a + of_nat (length bs) \<longleftrightarrow> unat x = unat a + length bs"
    using unat_offset [OF f, of "length bs"] by (metis lessI word_unat_eq_iff)
  then show "put_bytes a (bs @ [b]) m x = ((put_bytes a bs m)(a + of_nat (length bs) := b)) x"
    by (auto simp: put_bytes_def span_def nth_append)
qed

lemma store_memcpy_put:
  assumes "fits dst (unat n)" "fits src (unat n)" "span dst (unat n) \<inter> span src (unat n) = {}"
  shows "store_memcpy dst src n m = put_bytes dst (load_bytes m src (unat n)) m"
proof -
  define g where "g k = fold (\<lambda>i m. m(dst + of_nat i := m (src + of_nat i))) [0..<k] m" for k
  have g: "g 0 = m" "g (Suc k) = (g k)(dst + of_nat k := g k (src + of_nat k))" for k by (simp_all add: g_def)
  have "g k = put_bytes dst (load_bytes m src k) m" if "k \<le> unat n" for k
    using that
  proof (induction k)
    case 0
    then show ?case by (auto simp: g put_bytes_def span_def load_bytes_def fun_eq_iff)
  next
    case (Suc k)
    have "src + of_nat k \<notin> span dst k"
      using assms(3) offset_in_span [OF assms(2), of k] span_mono [of k "unat n" dst] Suc.prems by auto
    moreover have "load_bytes m src (Suc k) = load_bytes m src k @ [m (src + of_nat k)]" by (simp add: load_bytes_def)
    ultimately show ?case using Suc fits_less [OF assms(1), of "Suc k"] by (simp add: g put_snoc)
  qed
  then show ?thesis by (simp add: store_memcpy_def g_def)
qed

lemma store_memcpy_frame:
  assumes "fits dst (unat n)" "x \<notin> span dst (unat n)"
  shows "store_memcpy dst src n m x = m x"
proof -
  have "fold (\<lambda>i m. m(dst + of_nat i := m (src + of_nat i))) [0..<k] m x = m x" if "k \<le> unat n" for k
    using that offset_in_span [OF assms(1)] assms(2) by (induction k) auto
  then show ?thesis by (simp add: store_memcpy_def)
qed

lemma store_memcmp_load:
  "fits a (unat n) \<Longrightarrow> fits b (unat n) \<Longrightarrow> store_memcmp a b n m \<longleftrightarrow> load_bytes m a (unat n) = load_bytes m b (unat n)"
  by (auto simp: store_memcmp_def load_bytes_def list_all_iff)

subsection \<open>A flash that can be written\<close>

text \<open>The contract of the procedure that erases and writes: it stores the bytes where they belong and nothing else.\<close>

locale co_flash_driver =
  fixes ew :: flash_write
  assumes stores: "fits dst (unat len) \<Longrightarrow> fits src (unat len) \<Longrightarrow> span dst (unat len) \<inter> span src (unat len) = {} \<Longrightarrow>
    ew dst src len m = (0, put_bytes dst (load_bytes m src (unat len)) m)"

lemma read_from_flash_idle:
  assumes "fl_status fl = CO_FLASH_STATUS_idle" "unat n < 65536"
    and "fits dst (unat n)" "fits src (unat n)" "span dst (unat n) \<inter> span src (unat n) = {}"
  shows "read_from_flash fl dst src n m = Some (put_bytes dst (load_bytes m src (unat n)) m)"
proof -
  have "unat (ucast n :: u16) = unat n" using assms(2) by (simp add: unsigned_ucast_eq take_bit_nat_eq_self)
  then have "CO_FLASH_read fl dst src n m = (0, put_bytes dst (load_bytes m src (unat n)) m)"
    using assms by (simp add: CO_FLASH_read_def store_memcpy_put)
  then show ?thesis by (subst read_from_flash.simps) simp
qed

context co_flash_driver
begin

lemma write_to_flash_idle:
  assumes "fl_status fl = CO_FLASH_STATUS_idle"
    and "fits dst (unat n)" "fits src (unat n)" "span dst (unat n) \<inter> span src (unat n) = {}"
  shows "write_to_flash ew fl dst src n m = Some (0, fl, put_bytes dst (load_bytes m src (unat n)) m)"
proof -
  let ?m = "put_bytes dst (load_bytes m src (unat n)) m"
  have "load_bytes ?m dst (unat n) = load_bytes m src (unat n)"
    using load_put [of dst "load_bytes m src (unat n)" m] assms(2) by simp
  also have "\<dots> = load_bytes ?m src (unat n)" using assms(3,4) by (intro load_frame [symmetric]) (auto simp: put_bytes_def)
  finally have "store_memcmp dst src n ?m" using assms(2,3) by (simp add: store_memcmp_load)
  then have "CO_FLASH_erase_and_write_to_flash ew fl dst src n m = (0, fl, ?m)"
    using assms by (cases fl) (simp add: CO_FLASH_erase_and_write_to_flash_def stores)
  then show ?thesis by (subst write_to_flash.simps) simp
qed

end

subsection \<open>The layout of the parameters\<close>

abbreviation comm_n :: "CO_OD_Storage \<Rightarrow> nat" where "comm_n st \<equiv> unat (os_comm_size st)"
abbreviation app_n :: "CO_OD_Storage \<Rightarrow> nat" where "app_n st \<equiv> unat (os_app_size st)"
abbreviation boot_n :: "CO_OD_Storage \<Rightarrow> nat" where "boot_n st \<equiv> unat (os_boot_setting_size st)"

definition image_area :: "CO_OD_Storage \<Rightarrow> u32 set" where
  "image_area st = span (os_sign_addr st) (12 + comm_n st + app_n st)"

definition value_area :: "od_value \<Rightarrow> u32 set" where
  "value_area v = span (ov_data v) (unat (ov_len v))"

text \<open>
  The storage as \<open>CO_OD_STORAGE_init\<close> sets it up, with the image, the signature, the two groups of parameters in RAM
  and the values of the dictionary in disjoint memory.
\<close>

definition storage_ok :: "CO_OD_Storage \<Rightarrow> bool" where
  "storage_ok st \<longleftrightarrow> fl_status (os_flash st) = CO_FLASH_STATUS_idle \<and> os_sign_size st = 12
     \<and> os_comm_addr st = os_sign_addr st + 12 \<and> os_app_addr st = os_sign_addr st + 12 + os_comm_size st
     \<and> unat (os_comm_len st) = comm_n st \<and> unat (os_app_len st) = app_n st
     \<and> 0 < comm_n st \<and> boot_n st < app_n st
     \<and> fits (os_sign_addr st) (12 + comm_n st + app_n st) \<and> fits (os_sign st) 12
     \<and> fits (os_comm_data st) (comm_n st) \<and> fits (os_app_data st) (app_n st)
     \<and> os_comm_data st \<noteq> 0 \<and> os_app_data st \<noteq> 0
     \<and> sorted_wrt (\<lambda>A B. A \<inter> B = {}) ([image_area st, span (os_sign st) 12, span (os_comm_data st) (comm_n st),
         span (os_app_data st) (app_n st)] @ map value_area (concat (os_od st)))
     \<and> (\<forall>v\<in>set (concat (os_od st)). fits (ov_data v) (unat (ov_len v))
         \<and> (\<forall>t. ov_temp v = Ref t \<longrightarrow> fits t (unat (ov_len v))
             \<and> (span t (unat (ov_len v)) \<subseteq> span (os_comm_data st) (comm_n st)
               \<or> span t (unat (ov_len v)) \<subseteq> span (os_app_data st) (app_n st))))"

text \<open>The check of the code, on the bytes of the image, and its pending commands.\<close>

definition image_valid :: "CO_OD_Storage \<Rightarrow> store \<Rightarrow> bool" where
  "image_valid st m \<longleftrightarrow>
     CO_OD_SIGN_get_crc16_comm_para (os_sign_addr st) m = crc16 (load_bytes m (os_comm_addr st) (comm_n st))
     \<and> CO_OD_SIGN_get_crc16_app_para (os_sign_addr st) m
       = crc16 (load_bytes m (os_app_addr st + os_boot_setting_size st) (app_n st - boot_n st))"

definition image_idle :: "CO_OD_Storage \<Rightarrow> store \<Rightarrow> bool" where
  "image_idle st m \<longleftrightarrow> CO_OD_SIGN_get_func (os_sign_addr st) CO_FCG_COMM_PARA m = 0
     \<and> CO_OD_SIGN_get_func (os_sign_addr st) CO_FCG_APP_PARA m = 0"

lemma storage_parts:
  assumes "storage_ok st"
  shows "fits (os_sign_addr st) 12" "span (os_sign_addr st) 12 \<subseteq> image_area st"
    "fits (os_comm_addr st) (comm_n st)" "span (os_comm_addr st) (comm_n st) \<subseteq> image_area st"
    "fits (os_app_addr st) (app_n st)" "span (os_app_addr st) (app_n st) \<subseteq> image_area st"
    "fits (os_app_addr st + os_boot_setting_size st) (app_n st - boot_n st)"
    "span (os_app_addr st + os_boot_setting_size st) (app_n st - boot_n st) \<subseteq> span (os_app_addr st) (app_n st)"
    "fits (os_app_data st + os_boot_setting_size st) (app_n st - boot_n st)"
    "span (os_app_data st + os_boot_setting_size st) (app_n st - boot_n st) \<subseteq> span (os_app_data st) (app_n st)"
    "unat (os_app_size st - os_boot_setting_size st) = app_n st - boot_n st"
    "unat (ucast (os_app_len st) - os_boot_setting_size st :: u32) = app_n st - boot_n st"
    "unat (ucast (os_comm_len st) :: u32) = comm_n st" "unat (ucast (os_app_len st) :: u32) = app_n st"
proof -
  let ?i = "os_sign_addr st"
  note ok = assms [unfolded storage_ok_def]
  from ok have f: "fits ?i (12 + comm_n st + app_n st)" and c: "os_comm_addr st = ?i + 12" "os_app_addr st = ?i + (12 + os_comm_size st)"
    and n: "0 < comm_n st" "boot_n st < app_n st" by (simp_all add: add.assoc)
  have u: "unat (12 + os_comm_size st) = 12 + comm_n st"
    using f n by (simp add: fits_def unat_word_ariths)
  show "fits ?i 12" using f by (rule fits_less) simp
  show "span ?i 12 \<subseteq> image_area st" unfolding image_area_def by (rule span_mono) simp
  show "fits (os_comm_addr st) (comm_n st)" "span (os_comm_addr st) (comm_n st) \<subseteq> image_area st"
    unfolding c image_area_def using fits_part [OF f, of 12 "comm_n st"] span_part [OF f, of 12 "comm_n st"] n by simp_all
  show a: "fits (os_app_addr st) (app_n st)" "span (os_app_addr st) (app_n st) \<subseteq> image_area st"
    unfolding c image_area_def
    using fits_part [OF f, of "12 + os_comm_size st" "app_n st"] span_part [OF f, of "12 + os_comm_size st" "app_n st"] n u by simp_all
  show "fits (os_app_addr st + os_boot_setting_size st) (app_n st - boot_n st)"
    "span (os_app_addr st + os_boot_setting_size st) (app_n st - boot_n st) \<subseteq> span (os_app_addr st) (app_n st)"
    using fits_part [OF a(1), of "os_boot_setting_size st" "app_n st - boot_n st"]
      span_part [OF a(1), of "os_boot_setting_size st" "app_n st - boot_n st"] n by simp_all
  have d: "fits (os_app_data st) (app_n st)" using ok by simp
  show "fits (os_app_data st + os_boot_setting_size st) (app_n st - boot_n st)"
    "span (os_app_data st + os_boot_setting_size st) (app_n st - boot_n st) \<subseteq> span (os_app_data st) (app_n st)"
    using fits_part [OF d, of "os_boot_setting_size st" "app_n st - boot_n st"]
      span_part [OF d, of "os_boot_setting_size st" "app_n st - boot_n st"] n by simp_all
  show "unat (os_app_size st - os_boot_setting_size st) = app_n st - boot_n st" using n by (simp add: unat_sub word_le_nat_alt)
  show "unat (ucast (os_comm_len st) :: u32) = comm_n st" "unat (ucast (os_app_len st) :: u32) = app_n st"
    using ok by simp_all
  then show "unat (ucast (os_app_len st) - os_boot_setting_size st :: u32) = app_n st - boot_n st"
    using n by (simp add: unat_sub word_le_nat_alt)
qed

lemma storage_disjoint:
  assumes "storage_ok st"
  shows "image_area st \<inter> span (os_sign st) 12 = {}" "image_area st \<inter> span (os_comm_data st) (comm_n st) = {}"
    "image_area st \<inter> span (os_app_data st) (app_n st) = {}"
    "span (os_sign st) 12 \<inter> span (os_comm_data st) (comm_n st) = {}"
    "span (os_sign st) 12 \<inter> span (os_app_data st) (app_n st) = {}"
    "span (os_comm_data st) (comm_n st) \<inter> span (os_app_data st) (app_n st) = {}"
    "v \<in> set (concat (os_od st)) \<Longrightarrow> value_area v \<inter> image_area st = {} \<and> value_area v \<inter> span (os_sign st) 12 = {}
       \<and> value_area v \<inter> span (os_comm_data st) (comm_n st) = {} \<and> value_area v \<inter> span (os_app_data st) (app_n st) = {}"
proof -
  let ?vs = "set (concat (os_od st))"
  have d: "image_area st \<inter> span (os_sign st) 12 = {} \<and> image_area st \<inter> span (os_comm_data st) (comm_n st) = {}
      \<and> image_area st \<inter> span (os_app_data st) (app_n st) = {} \<and> span (os_sign st) 12 \<inter> span (os_comm_data st) (comm_n st) = {}
      \<and> span (os_sign st) 12 \<inter> span (os_app_data st) (app_n st) = {}
      \<and> span (os_comm_data st) (comm_n st) \<inter> span (os_app_data st) (app_n st) = {}
      \<and> (\<forall>v\<in>?vs. image_area st \<inter> value_area v = {}) \<and> (\<forall>v\<in>?vs. span (os_sign st) 12 \<inter> value_area v = {})
      \<and> (\<forall>v\<in>?vs. span (os_comm_data st) (comm_n st) \<inter> value_area v = {})
      \<and> (\<forall>v\<in>?vs. span (os_app_data st) (app_n st) \<inter> value_area v = {})"
    using assms by (simp add: storage_ok_def)
  then show "image_area st \<inter> span (os_sign st) 12 = {}" "image_area st \<inter> span (os_comm_data st) (comm_n st) = {}"
    "image_area st \<inter> span (os_app_data st) (app_n st) = {}"
    "span (os_sign st) 12 \<inter> span (os_comm_data st) (comm_n st) = {}"
    "span (os_sign st) 12 \<inter> span (os_app_data st) (app_n st) = {}"
    "span (os_comm_data st) (comm_n st) \<inter> span (os_app_data st) (app_n st) = {}"
    by simp_all
  show "value_area v \<inter> image_area st = {} \<and> value_area v \<inter> span (os_sign st) 12 = {}
       \<and> value_area v \<inter> span (os_comm_data st) (comm_n st) = {} \<and> value_area v \<inter> span (os_app_data st) (app_n st) = {}"
    if "v \<in> ?vs"
    using d that by (simp only: Int_commute [of "value_area v"])
qed

lemma unat_within: "fits a n \<Longrightarrow> unat k < n \<Longrightarrow> unat (a + k) = unat a + unat k"
  by (simp add: fits_def unat_word_ariths)

lemma image_disjoint:
  assumes "storage_ok st"
  shows "span (os_comm_addr st) (comm_n st) \<inter> span (os_app_addr st) (app_n st) = {}"
    "span (os_sign_addr st) 12 \<inter> span (os_comm_addr st) (comm_n st) = {}"
    "span (os_sign_addr st) 12 \<inter> span (os_app_addr st) (app_n st) = {}"
proof -
  note ok = assms [unfolded storage_ok_def]
  have f: "fits (os_sign_addr st) (12 + comm_n st + app_n st)" using ok by simp
  have "unat (12 + os_comm_size st) = 12 + comm_n st" using f ok by (simp add: fits_def unat_word_ariths)
  then have "unat (os_app_addr st) = unat (os_sign_addr st) + 12 + comm_n st"
    using ok unat_within [OF f, of "12 + os_comm_size st"] by (simp add: add.assoc)
  moreover have "unat (os_comm_addr st) = unat (os_sign_addr st) + 12" using ok unat_within [OF f, of 12] by simp
  ultimately show "span (os_comm_addr st) (comm_n st) \<inter> span (os_app_addr st) (app_n st) = {}"
    "span (os_sign_addr st) 12 \<inter> span (os_comm_addr st) (comm_n st) = {}"
    "span (os_sign_addr st) 12 \<inter> span (os_app_addr st) (app_n st) = {}"
    by (auto simp: span_def)
qed

subsection \<open>The steps of a start\<close>

lemma within_nonzero: "fits a n \<Longrightarrow> unat k < n \<Longrightarrow> a \<noteq> 0 \<or> k \<noteq> 0 \<Longrightarrow> a + k \<noteq> 0"
  by (metis add_is_0 unat_within unsigned_0 word_unat_eq_iff)

lemma co_crc16_at_load: "a \<noteq> 0 \<Longrightarrow> co_crc16_at a n m = Some (crc16 (load_bytes m a (unat n)))"
  by (simp add: co_crc16_at_def CO_crc16_eq)

lemma storage_addresses:
  assumes "storage_ok st"
  shows "os_comm_addr st \<noteq> 0" "os_app_addr st + os_boot_setting_size st \<noteq> 0" "os_comm_data st \<noteq> 0"
    "os_app_data st + os_boot_setting_size st \<noteq> 0"
proof -
  note ok = assms [unfolded storage_ok_def]
  have f: "fits (os_sign_addr st) (12 + comm_n st + app_n st)" using ok by simp
  have "unat (os_comm_addr st) = unat (os_sign_addr st) + 12"
    using ok unat_within [OF f, of 12] by simp
  then show "os_comm_addr st \<noteq> 0" by auto
  have c: "unat (12 + os_comm_size st) = 12 + comm_n st" using f ok by (simp add: fits_def unat_word_ariths)
  then have "unat (os_app_addr st) = unat (os_sign_addr st) + 12 + comm_n st"
    using ok unat_within [OF f, of "12 + os_comm_size st"] by (simp add: add.assoc)
  then have "os_app_addr st \<noteq> 0" by auto
  then show "os_app_addr st + os_boot_setting_size st \<noteq> 0"
    using within_nonzero [OF storage_parts(5) [OF assms], of "os_boot_setting_size st"] ok by simp
  show "os_comm_data st \<noteq> 0" using ok by simp
  show "os_app_data st + os_boot_setting_size st \<noteq> 0"
    using within_nonzero [of "os_app_data st" "app_n st" "os_boot_setting_size st"] ok by simp
qed

lemma load_sign:
  assumes "storage_ok st"
  shows "co_load_sign_from_flash st m = Some (put_bytes (os_sign st) (load_bytes m (os_sign_addr st) 12) m)"
proof -
  have x: "span (os_sign st) 12 \<inter> span (os_sign_addr st) 12 = {}"
    using storage_parts(2) [OF assms] storage_disjoint(1) [OF assms] by blast
  have ok: "fl_status (os_flash st) = CO_FLASH_STATUS_idle" "fits (os_sign st) 12" "os_sign_size st = 12"
    using assms by (simp_all add: storage_ok_def)
  show ?thesis
    using read_from_flash_idle [of "os_flash st" "os_sign_size st" "os_sign st" "os_sign_addr st" m] storage_parts(1) [OF assms] ok x
    by (simp add: co_load_sign_from_flash_def)
qed

lemma sign_fields:
  assumes "fits s 12" "fits s' 12" "m' = put_bytes s (load_bytes m s' 12) m''"
  shows "CO_OD_SIGN_get_crc16_comm_para s m' = CO_OD_SIGN_get_crc16_comm_para s' m"
    "CO_OD_SIGN_get_crc16_app_para s m' = CO_OD_SIGN_get_crc16_app_para s' m"
    "CO_OD_SIGN_get_func s grp m' = CO_OD_SIGN_get_func s' grp m"
proof -
  have b: "m' (s + of_nat i) = m (s' + of_nat i)" if "i < 12" for i
    using put_inside [of s "load_bytes m s' 12" i m''] assms(1,3) that by simp
  show "CO_OD_SIGN_get_crc16_comm_para s m' = CO_OD_SIGN_get_crc16_comm_para s' m"
    using b [of 8] b [of 9] by (simp add: CO_OD_SIGN_get_crc16_comm_para_def)
  show "CO_OD_SIGN_get_crc16_app_para s m' = CO_OD_SIGN_get_crc16_app_para s' m"
    using b [of 10] b [of 11] by (simp add: CO_OD_SIGN_get_crc16_app_para_def)
  show "CO_OD_SIGN_get_func s grp m' = CO_OD_SIGN_get_func s' grp m"
    using b [of 0] by (simp add: CO_OD_SIGN_get_func_def)
qed

lemma sign_frame:
  assumes "fits s 12" "\<And>x. x \<in> span s 12 \<Longrightarrow> m' x = m x"
  shows "CO_OD_SIGN_get_crc16_comm_para s m' = CO_OD_SIGN_get_crc16_comm_para s m"
    "CO_OD_SIGN_get_crc16_app_para s m' = CO_OD_SIGN_get_crc16_app_para s m"
    "CO_OD_SIGN_get_func s grp m' = CO_OD_SIGN_get_func s grp m"
proof -
  have "m' = put_bytes s (load_bytes m s 12) m'"
  proof
    fix x show "m' x = put_bytes s (load_bytes m s 12) m' x"
      using assms(2) [of x] span_offset [of x s 12] by (auto simp: put_bytes_def span_def)
  qed
  from sign_fields [OF assms(1,1) this]
  show "CO_OD_SIGN_get_crc16_comm_para s m' = CO_OD_SIGN_get_crc16_comm_para s m"
    "CO_OD_SIGN_get_crc16_app_para s m' = CO_OD_SIGN_get_crc16_app_para s m"
    "CO_OD_SIGN_get_func s grp m' = CO_OD_SIGN_get_func s grp m" .
qed

lemma check_sign:
  assumes "storage_ok st" "m' = put_bytes (os_sign st) (load_bytes m (os_sign_addr st) 12) m"
  shows "co_check_sign_is_valid st v m' = Some (image_valid st m)"
proof -
  note p = storage_parts [OF assms(1)]
  have same: "m' x = m x" if "x \<in> image_area st" for x
    using storage_disjoint(1) [OF assms(1)] that unfolding assms(2) by (intro put_outside) auto
  have c: "load_bytes m' (os_comm_addr st) (comm_n st) = load_bytes m (os_comm_addr st) (comm_n st)"
    using p(3,4) same by (intro load_frame) auto
  have a: "load_bytes m' (os_app_addr st + os_boot_setting_size st) (app_n st - boot_n st)
      = load_bytes m (os_app_addr st + os_boot_setting_size st) (app_n st - boot_n st)"
    using p(6,7,8) same by (intro load_frame) auto
  have s: "fits (os_sign st) 12" using assms(1) by (simp add: storage_ok_def)
  show ?thesis
    using sign_fields(1,2) [OF s p(1) assms(2)]
    by (simp add: co_check_sign_is_valid_def co_check_crc16_from_data_in_flash_is_valid_def image_valid_def
        co_crc16_at_load storage_addresses [OF assms(1)] p(11) c a)
qed

lemma load_paras:
  assumes "storage_ok st"
  shows "co_load_comm_para_from_flash st m = Some (put_bytes (os_comm_data st) (load_bytes m (os_comm_addr st) (comm_n st)) m)"
    "co_load_app_para_from_flash st m = Some (put_bytes (os_app_data st) (load_bytes m (os_app_addr st) (app_n st)) m)"
proof -
  note p = storage_parts [OF assms] and d = storage_disjoint [OF assms]
  have s: "unat (os_comm_len st) < 65536" "unat (os_app_len st) < 65536" by simp_all
  have ok: "fl_status (os_flash st) = CO_FLASH_STATUS_idle" "fits (os_comm_data st) (comm_n st)" "fits (os_app_data st) (app_n st)"
    using assms by (simp_all add: storage_ok_def)
  have x: "span (os_comm_data st) (comm_n st) \<inter> span (os_comm_addr st) (comm_n st) = {}"
    "span (os_app_data st) (app_n st) \<inter> span (os_app_addr st) (app_n st) = {}"
    using p(4,6) d(2,3) by blast+
  show "co_load_comm_para_from_flash st m = Some (put_bytes (os_comm_data st) (load_bytes m (os_comm_addr st) (comm_n st)) m)"
    "co_load_app_para_from_flash st m = Some (put_bytes (os_app_data st) (load_bytes m (os_app_addr st) (app_n st)) m)"
    using read_from_flash_idle [of "os_flash st" "ucast (os_comm_len st)" "os_comm_data st" "os_comm_addr st" m]
      read_from_flash_idle [of "os_flash st" "ucast (os_app_len st)" "os_app_data st" "os_app_addr st" m]
      p(3,5,13,14) ok x s
    by (simp_all add: co_load_comm_para_from_flash_def co_load_app_para_from_flash_def)
qed

context co_flash_driver
begin

lemma save_paras:
  assumes "storage_ok st"
  shows "CO_OD_STORAGE_save_comm_para_to_flash ew st m
      = Some (0, st, put_bytes (os_comm_addr st) (load_bytes m (os_comm_data st) (comm_n st)) m)"
    "CO_OD_STORAGE_save_app_para_to_flash ew st m
      = Some (0, st, put_bytes (os_app_addr st + os_boot_setting_size st)
          (load_bytes m (os_app_data st + os_boot_setting_size st) (app_n st - boot_n st)) m)"
    "CO_OD_STORAGE_save_sign_to_flash ew st m
      = Some (0, st, put_bytes (os_sign_addr st) (load_bytes m (os_sign st) 12) m)"
proof -
  note p = storage_parts [OF assms] and d = storage_disjoint [OF assms]
  have ok: "fl_status (os_flash st) = CO_FLASH_STATUS_idle" "fits (os_comm_data st) (comm_n st)" "fits (os_app_data st) (app_n st)"
    "fits (os_sign st) 12" "os_sign_size st = 12" using assms by (simp_all add: storage_ok_def)
  have x: "span (os_comm_addr st) (comm_n st) \<inter> span (os_comm_data st) (comm_n st) = {}"
    "span (os_app_addr st + os_boot_setting_size st) (app_n st - boot_n st)
       \<inter> span (os_app_data st + os_boot_setting_size st) (app_n st - boot_n st) = {}"
    "span (os_sign_addr st) 12 \<inter> span (os_sign st) 12 = {}"
    using p(2,4,6,8,10) d(1-3) by blast+
  show "CO_OD_STORAGE_save_comm_para_to_flash ew st m
      = Some (0, st, put_bytes (os_comm_addr st) (load_bytes m (os_comm_data st) (comm_n st)) m)"
    using write_to_flash_idle [of "os_flash st" "os_comm_addr st" "ucast (os_comm_len st)" "os_comm_data st" m] p(3,13) ok x
    by (cases st) (simp add: CO_OD_STORAGE_save_comm_para_to_flash_def)
  show "CO_OD_STORAGE_save_app_para_to_flash ew st m
      = Some (0, st, put_bytes (os_app_addr st + os_boot_setting_size st)
          (load_bytes m (os_app_data st + os_boot_setting_size st) (app_n st - boot_n st)) m)"
    using write_to_flash_idle [of "os_flash st" "os_app_addr st + os_boot_setting_size st" "ucast (os_app_len st) - os_boot_setting_size st"
        "os_app_data st + os_boot_setting_size st" m] p(7,9,12) ok x
    by (cases st) (simp add: CO_OD_STORAGE_save_app_para_to_flash_def)
  show "CO_OD_STORAGE_save_sign_to_flash ew st m
      = Some (0, st, put_bytes (os_sign_addr st) (load_bytes m (os_sign st) 12) m)"
    using write_to_flash_idle [of "os_flash st" "os_sign_addr st" "os_sign_size st" "os_sign st" m] p(1) ok x
    by (cases st) (simp add: CO_OD_STORAGE_save_sign_to_flash_def)
qed

end

context co_flash_driver
begin

lemma update_sign_view:
  assumes "storage_ok st"
  shows "\<exists>m'. update_sign ew v st m = Some (0, st, m')
     \<and> (\<forall>x. x \<notin> span (os_sign st) 12 \<longrightarrow> x \<notin> span (os_sign_addr st) 12 \<longrightarrow> m' x = m x)
     \<and> CO_OD_SIGN_get_crc16_comm_para (os_sign_addr st) m' = crc16 (load_bytes m (os_comm_data st) (comm_n st))
     \<and> CO_OD_SIGN_get_crc16_app_para (os_sign_addr st) m'
       = crc16 (load_bytes m (os_app_data st + os_boot_setting_size st) (app_n st - boot_n st))
     \<and> (\<forall>grp. CO_OD_SIGN_get_func (os_sign_addr st) grp m' = 0)"
proof -
  let ?s = "os_sign st"
  let ?c = "crc16 (load_bytes m (os_comm_data st) (comm_n st))"
  let ?a = "crc16 (load_bytes m (os_app_data st + os_boot_setting_size st) (app_n st - boot_n st))"
  define m1 where "m1 = CO_OD_SIGN_set_crc16_comm_para ?s ?c m"
  define m5 where "m5 = CO_OD_SIGN_set_sw_ver ?s v (CO_OD_SIGN_set_func ?s CO_FCG_APP_PARA 0
    (CO_OD_SIGN_set_func ?s CO_FCG_COMM_PARA 0 (CO_OD_SIGN_set_crc16_app_para ?s ?a m1)))"
  note p = storage_parts [OF assms] and d = storage_disjoint [OF assms] and ad = storage_addresses [OF assms]
  have f: "fits ?s 12" and len: "unat (os_comm_len st) = comm_n st" using assms by (simp_all add: storage_ok_def)
  have i: "?s \<in> span ?s 12" "?s + 4 \<in> span ?s 12" "?s + 5 \<in> span ?s 12" "?s + 6 \<in> span ?s 12" "?s + 7 \<in> span ?s 12"
    "?s + 8 \<in> span ?s 12" "?s + 9 \<in> span ?s 12" "?s + 10 \<in> span ?s 12" "?s + 11 \<in> span ?s 12"
    using offset_in_span [OF f, of 0] offset_in_span [OF f, of 4] offset_in_span [OF f, of 5] offset_in_span [OF f, of 6]
      offset_in_span [OF f, of 7] offset_in_span [OF f, of 8] offset_in_span [OF f, of 9] offset_in_span [OF f, of 10]
      offset_in_span [OF f, of 11] by simp_all
  have o1: "m1 x = m x" if "x \<notin> span ?s 12" for x
    using that i by (auto simp: m1_def CO_OD_SIGN_set_crc16_comm_para_def)
  have o5: "m5 x = m x" if "x \<notin> span ?s 12" for x
    using that i o1 [OF that] by (auto simp: m5_def CO_OD_SIGN_set_sw_ver_def CO_OD_SIGN_set_func_def CO_OD_SIGN_set_crc16_app_para_def)
  have l: "load_bytes m1 (os_app_data st + os_boot_setting_size st) (app_n st - boot_n st)
      = load_bytes m (os_app_data st + os_boot_setting_size st) (app_n st - boot_n st)"
    using p(9,10) d(5) by (intro load_frame o1) auto
  let ?m' = "put_bytes (os_sign_addr st) (load_bytes m5 ?s 12) m5"
  have u: "update_sign ew v st m = Some (0, st, ?m')"
    using save_paras(3) [OF assms, of m5] l
    by (simp add: update_sign_def CO_OD_STORAGE_update_crc16_comm_from_data_in_ram_def CO_OD_STORAGE_update_crc16_app_from_data_in_ram_def
        co_crc16_at_load ad p(12) len m1_def [symmetric] m5_def [symmetric])
  note fl = sign_fields [where m = m5 and m'' = m5, OF p(1) f refl]
  have "CO_OD_SIGN_get_crc16_comm_para ?s m5 = ?c" "CO_OD_SIGN_get_crc16_app_para ?s m5 = ?a"
    by (simp_all add: m5_def m1_def CO_OD_SIGN_get_crc16_comm_para_def CO_OD_SIGN_get_crc16_app_para_def CO_OD_SIGN_set_sw_ver_def
        CO_OD_SIGN_set_func_def CO_OD_SIGN_set_crc16_app_para_def CO_OD_SIGN_set_crc16_comm_para_def layout_simps)
  moreover have "CO_OD_SIGN_get_func ?s grp m5 = 0" for grp
    by (simp add: m5_def CO_OD_SIGN_get_func_def CO_OD_SIGN_set_sw_ver_def CO_OD_SIGN_set_func_def and.assoc)
  ultimately show ?thesis using u fl o5 by auto
qed

end

lemma fold_fold_concat: "fold (fold f) xss x = fold f (concat xss) x"
  by (induction xss arbitrary: x) auto

lemma copy_value_frame: "fits (ov_data v) (unat (ov_len v)) \<Longrightarrow> x \<notin> value_area v \<Longrightarrow> copy_value v m x = m x"
  by (simp add: copy_value_def value_area_def store_memcpy_frame split: ptr.split)

lemma copy_values_frame:
  "\<forall>v\<in>set vs. fits (ov_data v) (unat (ov_len v)) \<Longrightarrow> \<forall>v\<in>set vs. x \<notin> value_area v \<Longrightarrow> fold copy_value vs m x = m x"
  by (induction vs arbitrary: m) (auto simp: copy_value_frame)

lemma copy_values:
  assumes "sorted_wrt (\<lambda>A B. A \<inter> B = {}) (map value_area vs)" "\<forall>v\<in>set vs. fits (ov_data v) (unat (ov_len v))"
    and "v \<in> set vs" "ov_temp v = Ref t" "fits t (unat (ov_len v))" "\<forall>u\<in>set vs. value_area u \<inter> span t (unat (ov_len v)) = {}"
  shows "load_bytes (fold copy_value vs m) (ov_data v) (unat (ov_len v)) = load_bytes m t (unat (ov_len v))"
  using assms
proof (induction vs arbitrary: m)
  case (Cons u vs)
  show ?case
  proof (cases "u = v")
    case True
    have f: "fits (ov_data v) (unat (ov_len v))" using Cons.prems True by simp
    have "span (ov_data v) (unat (ov_len v)) \<inter> span t (unat (ov_len v)) = {}"
      using Cons.prems(6) True by (simp add: value_area_def)
    then have c: "copy_value v m = put_bytes (ov_data v) (load_bytes m t (unat (ov_len v))) m"
      using f Cons.prems(4,5) by (simp add: copy_value_def store_memcpy_put)
    have "load_bytes (fold copy_value vs (copy_value v m)) (ov_data v) (unat (ov_len v))
        = load_bytes (copy_value v m) (ov_data v) (unat (ov_len v))"
      using Cons.prems(1,2) True by (intro load_frame [OF f] copy_values_frame) (auto simp: value_area_def)
    also have "\<dots> = load_bytes m t (unat (ov_len v))" unfolding c using load_put [of "ov_data v" "load_bytes m t (unat (ov_len v))" m] f by simp
    finally show ?thesis using True by simp
  next
    case False
    then have "load_bytes (fold copy_value vs (copy_value u m)) (ov_data v) (unat (ov_len v)) = load_bytes (copy_value u m) t (unat (ov_len v))"
      using Cons.prems by (intro Cons.IH) auto
    also have "\<dots> = load_bytes m t (unat (ov_len v))"
      using Cons.prems(2,5,6) by (intro load_frame copy_value_frame) auto
    finally show ?thesis by simp
  qed
qed simp

text \<open>What the last step leaves: the parameters in RAM, the image and the signature, and the values of the dictionary.\<close>

lemma copy_temp:
  assumes "storage_ok st" "m' = co_copy_temp_data_to_operating_data st m"
  shows "x \<in> image_area st \<union> span (os_comm_data st) (comm_n st) \<union> span (os_app_data st) (app_n st) \<Longrightarrow> m' x = m x"
    "v \<in> set (concat (os_od st)) \<Longrightarrow> ov_temp v = Ref t \<Longrightarrow>
       load_bytes m' (ov_data v) (unat (ov_len v)) = load_bytes m' t (unat (ov_len v))"
proof -
  let ?vs = "concat (os_od st)"
  have m': "m' = fold copy_value ?vs m" by (simp add: assms(2) co_copy_temp_data_to_operating_data_def fold_fold_concat)
  have f: "\<forall>v\<in>set ?vs. fits (ov_data v) (unat (ov_len v))" using assms(1) by (simp add: storage_ok_def)
  have d: "sorted_wrt (\<lambda>A B. A \<inter> B = {}) (map value_area ?vs)" using assms(1) by (simp add: storage_ok_def)
  show same: "m' x = m x" if "x \<in> image_area st \<union> span (os_comm_data st) (comm_n st) \<union> span (os_app_data st) (app_n st)" for x
    unfolding m' using storage_disjoint(7) [OF assms(1)] that by (intro copy_values_frame [OF f]) blast
  assume v: "v \<in> set ?vs" and t: "ov_temp v = Ref t"
  have "\<forall>v\<in>set ?vs. \<forall>t. ov_temp v = Ref t \<longrightarrow> fits t (unat (ov_len v))
      \<and> (span t (unat (ov_len v)) \<subseteq> span (os_comm_data st) (comm_n st) \<or> span t (unat (ov_len v)) \<subseteq> span (os_app_data st) (app_n st))"
    using assms(1) by (simp add: storage_ok_def)
  with v t have tf: "fits t (unat (ov_len v))" and ts: "span t (unat (ov_len v)) \<subseteq> span (os_comm_data st) (comm_n st)
      \<or> span t (unat (ov_len v)) \<subseteq> span (os_app_data st) (app_n st)"
    by blast+
  have "\<forall>u\<in>set ?vs. value_area u \<inter> span t (unat (ov_len v)) = {}"
    using storage_disjoint(7) [OF assms(1)] ts by blast
  from copy_values [OF d f v t tf this, of m]
  have "load_bytes m' (ov_data v) (unat (ov_len v)) = load_bytes m t (unat (ov_len v))" by (simp add: m')
  also have "\<dots> = load_bytes m' t (unat (ov_len v))" using ts by (intro load_frame [OF tf] same [symmetric]) auto
  finally show "load_bytes m' (ov_data v) (unat (ov_len v)) = load_bytes m' t (unat (ov_len v))" .
qed

subsection \<open>A start\<close>

text \<open>What every start leaves: the values of the dictionary are those of the parameters in RAM.\<close>

definition values_taken :: "CO_OD_Storage \<Rightarrow> store \<Rightarrow> bool" where
  "values_taken st m \<longleftrightarrow> (\<forall>v\<in>set (concat (os_od st)). \<forall>t. ov_temp v = Ref t \<longrightarrow>
     load_bytes m (ov_data v) (unat (ov_len v)) = load_bytes m t (unat (ov_len v)))"

lemma image_frame:
  assumes "storage_ok st" "\<forall>x\<in>image_area st. m' x = m x"
  shows "load_bytes m' (os_comm_addr st) (comm_n st) = load_bytes m (os_comm_addr st) (comm_n st)"
    "load_bytes m' (os_app_addr st) (app_n st) = load_bytes m (os_app_addr st) (app_n st)"
    "load_bytes m' (os_app_addr st + os_boot_setting_size st) (app_n st - boot_n st)
      = load_bytes m (os_app_addr st + os_boot_setting_size st) (app_n st - boot_n st)"
    "image_valid st m' = image_valid st m" "image_idle st m' = image_idle st m"
proof -
  note p = storage_parts [OF assms(1)]
  show c: "load_bytes m' (os_comm_addr st) (comm_n st) = load_bytes m (os_comm_addr st) (comm_n st)"
    using p(3,4) assms(2) by (intro load_frame) auto
  show "load_bytes m' (os_app_addr st) (app_n st) = load_bytes m (os_app_addr st) (app_n st)"
    using p(5,6) assms(2) by (intro load_frame) auto
  show a: "load_bytes m' (os_app_addr st + os_boot_setting_size st) (app_n st - boot_n st)
      = load_bytes m (os_app_addr st + os_boot_setting_size st) (app_n st - boot_n st)"
    using p(6-8) assms(2) by (intro load_frame) auto
  have s: "m' x = m x" if "x \<in> span (os_sign_addr st) 12" for x using p(2) assms(2) that by auto
  show "image_valid st m' = image_valid st m" "image_idle st m' = image_idle st m"
    using sign_frame [OF p(1) s] c a by (simp_all add: image_valid_def image_idle_def)
qed

lemma start_valid:
  assumes "storage_ok st" "image_idle st m" "m1 = put_bytes (os_sign st) (load_bytes m (os_sign_addr st) 12) m"
  shows "\<exists>m'. co_process_when_reset ew True v main st m1 = Some (st, m') \<and> (\<forall>x\<in>image_area st. m' x = m x)
     \<and> load_bytes m' (os_comm_data st) (comm_n st) = load_bytes m (os_comm_addr st) (comm_n st)
     \<and> load_bytes m' (os_app_data st) (app_n st) = load_bytes m (os_app_addr st) (app_n st) \<and> values_taken st m'"
proof -
  note p = storage_parts [OF assms(1)] and d = storage_disjoint [OF assms(1)]
  have ok: "fits (os_sign st) 12" "fits (os_comm_data st) (comm_n st)" "fits (os_app_data st) (app_n st)"
    using assms(1) by (simp_all add: storage_ok_def)
  define m2 where "m2 = put_bytes (os_comm_data st) (load_bytes m1 (os_comm_addr st) (comm_n st)) m1"
  define m3 where "m3 = put_bytes (os_app_data st) (load_bytes m2 (os_app_addr st) (app_n st)) m2"
  define m4 where "m4 = co_copy_temp_data_to_operating_data st m3"
  have f1: "CO_OD_SIGN_get_func (os_sign st) grp m1 = 0" for grp
    using sign_fields(3) [OF ok(1) p(1) assms(3)] assms(2) by (cases grp) (simp_all add: image_idle_def)
  have "m2 x = m1 x" if "x \<in> span (os_sign st) 12" for x
    using d(4) that unfolding m2_def by (intro put_outside) auto
  from sign_frame(3) [OF ok(1) this] f1 have f2: "CO_OD_SIGN_get_func (os_sign st) grp m2 = 0" for grp by simp
  have r: "co_process_when_reset ew True v main st m1 = Some (st, m4)"
    by (simp add: co_process_when_reset_def process_group_def f1 f2 load_paras [OF assms(1)] m2_def [symmetric] m3_def [symmetric] m4_def)
  have i1: "m1 x = m x" "m2 x = m1 x" "m3 x = m2 x" if "x \<in> image_area st" for x
    using d(1-3) that unfolding assms(3) m2_def m3_def by (auto intro!: put_outside)
  note cp = copy_temp [OF assms(1) m4_def]
  have i4: "\<forall>x\<in>image_area st. m4 x = m x" using cp(1) i1 by simp
  have i12: "\<forall>x\<in>image_area st. m1 x = m x" "\<forall>x\<in>image_area st. m2 x = m x" using i1 by simp_all
  have "load_bytes m4 (os_comm_data st) (comm_n st) = load_bytes m3 (os_comm_data st) (comm_n st)"
    by (intro load_frame [OF ok(2)] cp(1)) simp
  also have "\<dots> = load_bytes m2 (os_comm_data st) (comm_n st)"
    using d(6) unfolding m3_def by (intro load_frame [OF ok(2)] put_outside) auto
  also have "\<dots> = load_bytes m1 (os_comm_addr st) (comm_n st)"
    unfolding m2_def using load_put [of "os_comm_data st" "load_bytes m1 (os_comm_addr st) (comm_n st)" m1] ok(2) by simp
  also have "\<dots> = load_bytes m (os_comm_addr st) (comm_n st)" by (rule image_frame(1) [OF assms(1) i12(1)])
  finally have c: "load_bytes m4 (os_comm_data st) (comm_n st) = load_bytes m (os_comm_addr st) (comm_n st)" .
  have "load_bytes m4 (os_app_data st) (app_n st) = load_bytes m3 (os_app_data st) (app_n st)"
    by (intro load_frame [OF ok(3)] cp(1)) simp
  also have "\<dots> = load_bytes m2 (os_app_addr st) (app_n st)"
    unfolding m3_def using load_put [of "os_app_data st" "load_bytes m2 (os_app_addr st) (app_n st)" m2] ok(3) by simp
  also have "\<dots> = load_bytes m (os_app_addr st) (app_n st)" by (rule image_frame(2) [OF assms(1) i12(2)])
  finally have "load_bytes m4 (os_app_data st) (app_n st) = load_bytes m (os_app_addr st) (app_n st)" .
  with r i4 c cp(2) show ?thesis unfolding values_taken_def by blast
qed

lemma start_not_main:
  assumes "storage_ok st" "m1 = put_bytes (os_sign st) (load_bytes m (os_sign_addr st) 12) m"
  shows "\<exists>m'. co_process_when_reset ew False v False st m1 = Some (st, m') \<and> (\<forall>x\<in>image_area st. m' x = m x)
     \<and> load_bytes m' (os_comm_data st) (comm_n st) = load_bytes m (os_comm_data st) (comm_n st)
     \<and> load_bytes m' (os_app_data st) (app_n st) = load_bytes m (os_app_data st) (app_n st) \<and> values_taken st m'"
proof -
  note d = storage_disjoint [OF assms(1)]
  have ok: "fits (os_comm_data st) (comm_n st)" "fits (os_app_data st) (app_n st)" using assms(1) by (simp_all add: storage_ok_def)
  note cp = copy_temp [where m = m1, OF assms(1) refl]
  have i: "m1 x = m x" if "x \<notin> span (os_sign st) 12" for x using that unfolding assms(2) by (intro put_outside) simp
  have "co_copy_temp_data_to_operating_data st m1 x = m x"
    if "x \<in> image_area st \<union> span (os_comm_data st) (comm_n st) \<union> span (os_app_data st) (app_n st)" for x
  proof -
    have "x \<notin> span (os_sign st) 12" using that d(1,4,5) by blast
    then show ?thesis using cp(1) [OF that] i by simp
  qed
  then have "\<forall>x\<in>image_area st. co_copy_temp_data_to_operating_data st m1 x = m x"
    "load_bytes (co_copy_temp_data_to_operating_data st m1) (os_comm_data st) (comm_n st) = load_bytes m (os_comm_data st) (comm_n st)"
    "load_bytes (co_copy_temp_data_to_operating_data st m1) (os_app_data st) (app_n st) = load_bytes m (os_app_data st) (app_n st)"
    by (auto intro!: load_frame [OF ok(1)] load_frame [OF ok(2)])
  moreover have "values_taken st (co_copy_temp_data_to_operating_data st m1)" using cp(2) unfolding values_taken_def by blast
  ultimately show ?thesis by (simp add: co_process_when_reset_def)
qed

context co_flash_driver
begin

lemma start_invalid:
  assumes "storage_ok st" "m1 = put_bytes (os_sign st) (load_bytes m (os_sign_addr st) 12) m"
  shows "\<exists>m'. co_process_when_reset ew False v True st m1 = Some (st, m') \<and> image_valid st m' \<and> image_idle st m'
     \<and> load_bytes m' (os_comm_addr st) (comm_n st) = load_bytes m (os_comm_data st) (comm_n st)
     \<and> load_bytes m' (os_app_addr st + os_boot_setting_size st) (app_n st - boot_n st)
       = load_bytes m (os_app_data st + os_boot_setting_size st) (app_n st - boot_n st)
     \<and> load_bytes m' (os_comm_data st) (comm_n st) = load_bytes m (os_comm_data st) (comm_n st)
     \<and> load_bytes m' (os_app_data st) (app_n st) = load_bytes m (os_app_data st) (app_n st) \<and> values_taken st m'"
proof -
  note p = storage_parts [OF assms(1)] and d = storage_disjoint [OF assms(1)]
  let ?B = "os_app_addr st + os_boot_setting_size st" and ?k = "app_n st - boot_n st"
  let ?A = "os_app_data st + os_boot_setting_size st"
  have ok: "fits (os_sign st) 12" "fits (os_comm_data st) (comm_n st)" "fits (os_app_data st) (app_n st)"
    using assms(1) by (simp_all add: storage_ok_def)
  have ca: "span (os_comm_addr st) (comm_n st) \<inter> span (os_app_addr st) (app_n st) = {}"
    "span (os_sign_addr st) 12 \<inter> span (os_comm_addr st) (comm_n st) = {}"
    "span (os_sign_addr st) 12 \<inter> span (os_app_addr st) (app_n st) = {}"
    using image_disjoint [OF assms(1)] by simp_all
  define m2 where "m2 = put_bytes (os_comm_addr st) (load_bytes m1 (os_comm_data st) (comm_n st)) m1"
  define m3 where "m3 = put_bytes ?B (load_bytes m2 ?A ?k) m2"
  from update_sign_view [OF assms(1), of v m3] obtain m4 where m4: "update_sign ew v st m3 = Some (0, st, m4)"
    "\<And>x. x \<notin> span (os_sign st) 12 \<Longrightarrow> x \<notin> span (os_sign_addr st) 12 \<Longrightarrow> m4 x = m3 x"
    "CO_OD_SIGN_get_crc16_comm_para (os_sign_addr st) m4 = crc16 (load_bytes m3 (os_comm_data st) (comm_n st))"
    "CO_OD_SIGN_get_crc16_app_para (os_sign_addr st) m4 = crc16 (load_bytes m3 ?A ?k)"
    "\<And>grp. CO_OD_SIGN_get_func (os_sign_addr st) grp m4 = 0" by blast
  define m5 where "m5 = co_copy_temp_data_to_operating_data st m4"
  have r: "co_process_when_reset ew False v True st m1 = Some (st, m5)"
    using m4(1) by (simp add: co_process_when_reset_def save_paras [OF assms(1)] m2_def [symmetric] m3_def [symmetric] m5_def)
  note cp = copy_temp [OF assms(1) m5_def]
  \<comment> \<open>the parameters in RAM do not change\<close>
  have ram: "m5 x = m x" "m3 x = m x" "m1 x = m x" "m2 x = m x"
    if x: "x \<in> span (os_comm_data st) (comm_n st) \<union> span (os_app_data st) (app_n st)" for x
  proof -
    have n: "x \<notin> image_area st" "x \<notin> span (os_sign st) 12" using x d(2-5) by auto
    then show "m1 x = m x" unfolding assms(2) by (intro put_outside) simp
    moreover have "m2 x = m1 x" unfolding m2_def using n p(4) by (intro put_outside) auto
    moreover have "m3 x = m2 x" unfolding m3_def using n p(6,8) by (intro put_outside) auto
    moreover have "m4 x = m3 x" using n p(2) by (intro m4(2)) auto
    ultimately show "m5 x = m x" "m3 x = m x" "m2 x = m x" using cp(1) [of x] x by auto
  qed
  have rc: "load_bytes m1 (os_comm_data st) (comm_n st) = load_bytes m (os_comm_data st) (comm_n st)"
    "load_bytes m3 (os_comm_data st) (comm_n st) = load_bytes m (os_comm_data st) (comm_n st)"
    "load_bytes m5 (os_comm_data st) (comm_n st) = load_bytes m (os_comm_data st) (comm_n st)"
    "load_bytes m5 (os_app_data st) (app_n st) = load_bytes m (os_app_data st) (app_n st)"
    using ram by (auto intro!: load_frame [OF ok(2)] load_frame [OF ok(3)])
  have ra: "load_bytes m2 ?A ?k = load_bytes m ?A ?k" "load_bytes m3 ?A ?k = load_bytes m ?A ?k"
    using ram p(10) by (auto intro!: load_frame [OF p(9)])
  \<comment> \<open>the image\<close>
  have im: "m5 x = m4 x" if "x \<in> image_area st" for x using cp(1) that by simp
  have c4: "m5 x = m2 x" if x: "x \<in> span (os_comm_addr st) (comm_n st)" for x
  proof -
    have "m4 x = m3 x" using x p(4) d(1) ca(2) by (intro m4(2)) auto
    moreover have "m3 x = m2 x" unfolding m3_def using x p(8) ca(1) by (intro put_outside) auto
    ultimately show ?thesis using im p(4) x by auto
  qed
  have c: "load_bytes m5 (os_comm_addr st) (comm_n st) = load_bytes m (os_comm_data st) (comm_n st)"
    using load_frame [OF p(3) c4] load_put [of "os_comm_addr st" "load_bytes m1 (os_comm_data st) (comm_n st)" m1] p(3) rc(1)
    by (simp add: m2_def)
  have a4: "m5 x = m3 x" if x: "x \<in> span ?B ?k" for x
  proof -
    have "m4 x = m3 x" using x p(6,8) d(1) ca(3) by (intro m4(2)) auto
    then show ?thesis using im p(6,8) x by auto
  qed
  have a: "load_bytes m5 ?B ?k = load_bytes m ?A ?k"
    using load_frame [OF p(7) a4] load_put [of ?B "load_bytes m2 ?A ?k" m2] p(7) ra(1) by (simp add: m3_def)
  have s: "m5 x = m4 x" if "x \<in> span (os_sign_addr st) 12" for x using im p(2) that by auto
  have "image_valid st m5" "image_idle st m5"
    using sign_frame [OF p(1) s] m4(3-5) c a rc(2) ra(2) by (simp_all add: image_valid_def image_idle_def)
  with r c a rc(3,4) cp(2) show ?thesis unfolding values_taken_def by blast
qed

end

text \<open>A flash that stores the bytes at once.\<close>

definition plain_write :: flash_write where
  "plain_write dst src len m = (0, put_bytes dst (load_bytes m src (unat len)) m)"

interpretation plain_flash: co_flash_driver plain_write
  by unfold_locales (simp add: plain_write_def)

subsection \<open>Properties\<close>

lemma init_steps:
  assumes "st = storage_setup comm_size boot_size image_addr image_size temp_comm temp_app app_size fl od st0" "storage_ok st"
    and "12 + unat comm_size + unat app_size \<le> unat (ucast image_size :: u16)"
  shows "CO_OD_STORAGE_init ew comm_size boot_size st0 image_addr image_size temp_comm temp_app app_size fl od v main m
     = co_process_when_reset ew (image_valid st m) v main st (put_bytes (os_sign st) (load_bytes m (os_sign_addr st) 12) m)"
proof -
  let ?lim = "ucast (ucast image_size :: u16) :: u32"
  have "unat (ucast image_size :: u16) < 65536" by simp
  with assms(3) have "12 + unat comm_size + unat app_size < 65536" by linarith
  then have "unat (12 + comm_size) = 12 + unat comm_size" "unat (12 + comm_size + app_size) = 12 + unat comm_size + unat app_size"
    by (simp_all add: unat_word_ariths)
  then have "\<not> 12 + comm_size + app_size > ?lim" using assms(3) by (simp add: word_less_nat_alt)
  then have s: "\<not> os_sign_size st + os_comm_size st + app_size > ucast (os_image_size st)"
    unfolding assms(1) by (simp add: storage_setup_def SIZEOF_CO_OD_Sign_def)
  show ?thesis
    unfolding CO_OD_STORAGE_init_def Let_def assms(1) [symmetric] using s load_sign [OF assms(2)] check_sign [OF assms(2) refl]
    by simp
qed

text \<open>C27: The first start of a main application, on flash whose image is not valid, writes the default parameters that are in
  RAM to the image, with a signature that is valid and has no pending command, takes the values of the
  dictionary from them, and returns. Every later start of either program, from any memory in which only the image
  is as it was left, returns with these parameters in RAM - of the application's, those behind the boot
  settings -, the values of the dictionary taken from them and the image unchanged. This holds for any
  procedure \<open>ew\<close> that writes flash as promised and any layout of areas that do not overlap.\<close>

theorem parameters_survive_restart:
  assumes "co_flash_driver ew" "storage_ok st" "\<not> image_valid st m"
    and "st = storage_setup comm_size boot_size image_addr image_size temp_comm temp_app app_size fl od st0"
    and "12 + unat comm_size + unat app_size \<le> unat (ucast image_size :: u16)"
  shows "\<exists>m1. CO_OD_STORAGE_init ew comm_size boot_size st0 image_addr image_size temp_comm temp_app app_size fl od v True m = Some (st, m1)
     \<and> image_valid st m1 \<and> image_idle st m1 \<and> values_taken st m1
     \<and> load_bytes m1 temp_comm (comm_n st) = load_bytes m temp_comm (comm_n st)
     \<and> load_bytes m1 temp_app (app_n st) = load_bytes m temp_app (app_n st)
     \<and> (\<forall>m2 v' main. (\<forall>x\<in>image_area st. m2 x = m1 x) \<longrightarrow>
         (\<exists>m3. CO_OD_STORAGE_init ew comm_size boot_size st0 image_addr image_size temp_comm temp_app app_size fl od v' main m2 = Some (st, m3)
           \<and> load_bytes m3 temp_comm (comm_n st) = load_bytes m temp_comm (comm_n st)
           \<and> load_bytes m3 (temp_app + os_boot_setting_size st) (app_n st - boot_n st)
             = load_bytes m (temp_app + os_boot_setting_size st) (app_n st - boot_n st)
           \<and> values_taken st m3 \<and> (\<forall>x\<in>image_area st. m3 x = m1 x)))"
proof -
  have f: "os_comm_data st = temp_comm" "os_app_data st = temp_app" using assms(4) by (simp_all add: storage_setup_def)
  note steps = init_steps [OF assms(4,2,5)] and p = storage_parts [OF assms(2)]
  from co_flash_driver.start_invalid [OF assms(1,2) refl, of v m] steps [of ew v True m] assms(3) f obtain m1 where m1:
    "CO_OD_STORAGE_init ew comm_size boot_size st0 image_addr image_size temp_comm temp_app app_size fl od v True m = Some (st, m1)"
    "image_valid st m1" "image_idle st m1" "values_taken st m1"
    "load_bytes m1 (os_comm_addr st) (comm_n st) = load_bytes m temp_comm (comm_n st)"
    "load_bytes m1 (os_app_addr st + os_boot_setting_size st) (app_n st - boot_n st)
       = load_bytes m (temp_app + os_boot_setting_size st) (app_n st - boot_n st)"
    "load_bytes m1 temp_comm (comm_n st) = load_bytes m temp_comm (comm_n st)"
    "load_bytes m1 temp_app (app_n st) = load_bytes m temp_app (app_n st)" by auto
  have later: "\<exists>m3. CO_OD_STORAGE_init ew comm_size boot_size st0 image_addr image_size temp_comm temp_app app_size fl od v' main m2 = Some (st, m3)
      \<and> load_bytes m3 temp_comm (comm_n st) = load_bytes m temp_comm (comm_n st)
      \<and> load_bytes m3 (temp_app + os_boot_setting_size st) (app_n st - boot_n st)
        = load_bytes m (temp_app + os_boot_setting_size st) (app_n st - boot_n st)
      \<and> values_taken st m3 \<and> (\<forall>x\<in>image_area st. m3 x = m1 x)"
    if same: "\<forall>x\<in>image_area st. m2 x = m1 x" for m2 v' main
  proof -
    note i = image_frame [OF assms(2) same]
    have "image_idle st m2" using i(5) m1(3) by simp
    from start_valid [OF assms(2) this refl, of ew v' main] steps [of ew v' main m2] i(4) m1(2) f obtain m3 where m3:
      "CO_OD_STORAGE_init ew comm_size boot_size st0 image_addr image_size temp_comm temp_app app_size fl od v' main m2 = Some (st, m3)"
      "\<forall>x\<in>image_area st. m3 x = m2 x"
      "load_bytes m3 temp_comm (comm_n st) = load_bytes m2 (os_comm_addr st) (comm_n st)"
      "load_bytes m3 temp_app (app_n st) = load_bytes m2 (os_app_addr st) (app_n st)" "values_taken st m3" by auto
    have "load_bytes m3 (temp_app + os_boot_setting_size st) (app_n st - boot_n st)
        = load_bytes m2 (os_app_addr st + os_boot_setting_size st) (app_n st - boot_n st)"
      using m3(4) load_drop [of m3 temp_app "boot_n st" "app_n st"] load_drop [of m2 "os_app_addr st" "boot_n st" "app_n st"]
      by simp
    with m3 i m1(5,6) same show ?thesis by auto
  qed
  show ?thesis using m1 later by blast
qed

definition sample_fl :: CO_FLASH where
  "sample_fl = CO_FLASH_init \<lparr>fl_status = CO_FLASH_STATUS_busy, fl_addr_dst = 1, fl_addr_src = 1, fl_len = 1\<rparr>"

definition sample_storage :: CO_OD_Storage where
  "sample_storage = \<lparr>os_sign = 2000, os_image_addr = 0, os_image_size = 0, os_comm_addr = 0, os_comm_size = 0, os_app_addr = 0,
     os_app_size = 0, os_boot_setting_size = 0, os_sign_addr = 0, os_sign_size = 0, os_comm_data = 0, os_comm_len = 0, os_app_data = 0,
     os_app_len = 0, os_flash = sample_fl, os_od = []\<rparr>"

definition sample_values :: "od_value list list" where
  "sample_values = [[\<lparr>ov_data = 5000, ov_temp = Ref 3000, ov_len = 4\<rparr>, \<lparr>ov_data = 6000, ov_temp = NULL, ov_len = 2\<rparr>]]"

definition sample_setup :: CO_OD_Storage where
  "sample_setup = storage_setup 4 1 1000 4096 3000 4000 6 sample_fl sample_values sample_storage"

definition sample_memory :: store where
  "sample_memory x = (if x = 3001 then 77 else 0)"

lemma sample_setup_ok: "storage_ok sample_setup"
  by (auto simp: storage_ok_def sample_setup_def storage_setup_def sample_storage_def sample_fl_def CO_FLASH_init_def
      sample_values_def SIZEOF_CO_OD_Sign_def fits_def image_area_def value_area_def span_def)

lemma sample_image_invalid: "\<not> image_valid sample_setup sample_memory"
proof -
  have "load_bytes sample_memory 1012 4 = [0, 0, 0, 0]"
    by (simp add: load_bytes_def sample_memory_def upt_rec)
  moreover have "crc16 [0, 0, 0, 0] \<noteq> 0" by code_simp
  ultimately show ?thesis
    by (simp add: image_valid_def sample_setup_def storage_setup_def sample_storage_def SIZEOF_CO_OD_Sign_def
        CO_OD_SIGN_get_crc16_comm_para_def sample_memory_def be16_def)
qed

lemma parameters_survive_restart_witness:
  "\<exists>m1. CO_OD_STORAGE_init plain_write 4 1 sample_storage 1000 4096 3000 4000 6 sample_fl sample_values 9 True sample_memory
      = Some (sample_setup, m1) \<and> image_valid sample_setup m1
     \<and> (\<exists>m3. CO_OD_STORAGE_init plain_write 4 1 sample_storage 1000 4096 3000 4000 6 sample_fl sample_values 10 False m1
         = Some (sample_setup, m3) \<and> load_bytes m3 3000 4 = load_bytes sample_memory 3000 4)"
proof -
  have n: "comm_n sample_setup = 4" by (simp add: sample_setup_def storage_setup_def)
  have s: "12 + unat (4 :: u32) + unat (6 :: u32) \<le> unat (ucast (4096 :: u32) :: u16)" by simp
  show ?thesis
    using parameters_survive_restart [OF plain_flash.co_flash_driver_axioms sample_setup_ok sample_image_invalid sample_setup_def s, of 9]
    unfolding n by blast
qed

text \<open> A start from a valid image without a pending command returns, with the parameters in RAM and the values of the
  dictionary taken from the image, and writes nothing to it. A program that is not the main application and finds
  no valid image keeps the parameters that are in RAM, takes the values from them and leaves the flash alone. No
  property of the procedure that writes flash is needed.\<close>

theorem start_leaves_flash_alone:
  assumes "storage_ok st"
    and "st = storage_setup comm_size boot_size image_addr image_size temp_comm temp_app app_size fl od st0"
    and "12 + unat comm_size + unat app_size \<le> unat (ucast image_size :: u16)"
    and "image_valid st m \<and> image_idle st m \<or> \<not> image_valid st m \<and> \<not> main"
  shows "\<exists>m'. CO_OD_STORAGE_init ew comm_size boot_size st0 image_addr image_size temp_comm temp_app app_size fl od v main m = Some (st, m')
     \<and> (\<forall>x\<in>image_area st. m' x = m x) \<and> values_taken st m'
     \<and> load_bytes m' temp_comm (comm_n st) = load_bytes m (if image_valid st m then os_comm_addr st else temp_comm) (comm_n st)
     \<and> load_bytes m' temp_app (app_n st) = load_bytes m (if image_valid st m then os_app_addr st else temp_app) (app_n st)"
proof -
  have f: "os_comm_data st = temp_comm" "os_app_data st = temp_app" using assms(2) by (simp_all add: storage_setup_def)
  note steps = init_steps [OF assms(2,1,3), of ew v main m]
  show ?thesis
  proof (cases "image_valid st m")
    case True
    then have "image_idle st m" using assms(4) by simp
    from start_valid [OF assms(1) this refl, of ew v main] steps True f show ?thesis by auto
  next
    case False
    then have "\<not> main" using assms(4) by simp
    with start_not_main [OF assms(1) refl, of ew v m] steps False f show ?thesis by auto
  qed
qed

lemma start_leaves_flash_alone_witness:
  "\<exists>m'. CO_OD_STORAGE_init plain_write 4 1 sample_storage 1000 4096 3000 4000 6 sample_fl sample_values 9 False sample_memory
      = Some (sample_setup, m') \<and> load_bytes m' 3000 4 = load_bytes sample_memory 3000 4"
proof -
  have n: "comm_n sample_setup = 4" by (simp add: sample_setup_def storage_setup_def)
  have s: "12 + unat (4 :: u32) + unat (6 :: u32) \<le> unat (ucast (4096 :: u32) :: u16)" by simp
  show ?thesis
    using start_leaves_flash_alone [OF sample_setup_ok sample_setup_def s, of sample_memory False plain_write 9] sample_image_invalid
    unfolding n by auto
qed

end
