(* ===== verification/Stm.thy ===== *)
theory Stm
  imports Prelude
begin

section \<open>The state machine library\<close>

text \<open>
  Models \<^verbatim>\<open>common/stm/sm_stm.c\<close> and \<^verbatim>\<open>sm_stm.h\<close>: states with callbacks, and a table of transitions whose handlers
  give the next state. Callbacks are addresses; \<open>run\<close> is what a callback does and returns, which may call
  the machine itself. The pointer to the current state is the index of the state it points to.
\<close>

abbreviation SM_STM_STATE_NUMBER_SUPPORT :: nat where "SM_STM_STATE_NUMBER_SUPPORT \<equiv> 100"
abbreviation SM_STM_EVENT_NUMBER_SUPPORT :: nat where "SM_STM_EVENT_NUMBER_SUPPORT \<equiv> 100"

record sm_stm_state =
  ss_state :: int
  ss_entry :: "nat ptr"
  ss_process :: "nat ptr"
  ss_exit :: "nat ptr"
  ss_arg :: "nat ptr"

record sm_stm_event =
  se_id :: int
  se_handler :: "nat ptr"
  se_arg :: "nat ptr"

record sm_stm =
  stm_new_event :: int
  stm_state_number :: int
  stm_event_number :: int
  stm_states :: "sm_stm_state list"
  stm_current :: "nat ptr"
  stm_transitions :: "sm_stm_event list list"

type_synonym 'w stm_run = "nat \<Rightarrow> nat ptr \<Rightarrow> sm_stm \<times> 'w \<Rightarrow> (int \<times> sm_stm \<times> 'w) option"

subsection \<open>Operations\<close>

definition empty_state :: sm_stm_state where
  "empty_state = \<lparr>ss_state = int SM_STM_STATE_NUMBER_SUPPORT, ss_entry = NULL, ss_process = NULL, ss_exit = NULL, ss_arg = NULL\<rparr>"

definition empty_event :: sm_stm_event where
  "empty_event = \<lparr>se_id = int SM_STM_EVENT_NUMBER_SUPPORT, se_handler = NULL, se_arg = NULL\<rparr>"

definition sm_stm_create :: "bool \<Rightarrow> int \<Rightarrow> int \<Rightarrow> sm_stm ptr" where
  "sm_stm_create alloc states events =
     (if alloc then Ref \<lparr>stm_new_event = int SM_STM_EVENT_NUMBER_SUPPORT, stm_state_number = states, stm_event_number = events,
        stm_states = replicate SM_STM_STATE_NUMBER_SUPPORT empty_state, stm_current = NULL,
        stm_transitions = replicate SM_STM_STATE_NUMBER_SUPPORT (replicate SM_STM_EVENT_NUMBER_SUPPORT empty_event)\<rparr>
      else NULL)"

definition sm_stm_destroy :: "sm_stm ptr \<Rightarrow> int \<times> sm_stm ptr" where
  "sm_stm_destroy p = (case p of NULL \<Rightarrow> (-1, NULL) | Ref m \<Rightarrow> (0, NULL))"

text \<open>The copies set every field.\<close>

definition sm_stm_clone_state :: "sm_stm_state \<Rightarrow> sm_stm_state ptr \<Rightarrow> int \<times> sm_stm_state" where
  "sm_stm_clone_state dst src = (case src of NULL \<Rightarrow> (-1, dst) | Ref s \<Rightarrow>
     (0, dst\<lparr>ss_state := ss_state s, ss_entry := ss_entry s, ss_process := ss_process s, ss_exit := ss_exit s, ss_arg := ss_arg s\<rparr>))"

definition sm_stm_clone_event :: "sm_stm_event \<Rightarrow> sm_stm_event ptr \<Rightarrow> int \<times> sm_stm_event" where
  "sm_stm_clone_event dst src = (case src of NULL \<Rightarrow> (-1, dst) | Ref e \<Rightarrow>
     (0, dst\<lparr>se_id := se_id e, se_handler := se_handler e, se_arg := se_arg e\<rparr>))"

text \<open>An index of the tables as C reads it: a negative one, or one past the end, is a fault.\<close>

definition stm_index :: "int \<Rightarrow> nat option" where
  "stm_index i = (if 0 \<le> i \<and> i < int SM_STM_STATE_NUMBER_SUPPORT then Some (nat i) else None)"

definition sm_stm_add_state :: "sm_stm ptr \<Rightarrow> sm_stm_state ptr \<Rightarrow> (int \<times> sm_stm ptr) option" where
  "sm_stm_add_state p state =
     (case p of
        NULL \<Rightarrow> Some (-1, NULL)
      | Ref m \<Rightarrow>
          (case state of
             NULL \<Rightarrow> Some (-1, p)
           | Ref s \<Rightarrow>
               if ss_state s < stm_state_number m then do {
                 i \<leftarrow> stm_index (ss_state s);
                 let (r, x) = sm_stm_clone_state (stm_states m ! i) state;
                 Some (r, Ref (m\<lparr>stm_states := (stm_states m)[i := x]\<rparr>)) }
               else Some (-1, p)))"

definition sm_stm_remove_state :: "sm_stm ptr \<Rightarrow> int \<Rightarrow> (int \<times> sm_stm ptr) option" where
  "sm_stm_remove_state p state =
     (case p of
        NULL \<Rightarrow> Some (-1, NULL)
      | Ref m \<Rightarrow>
          if state < stm_state_number m then do {
            i \<leftarrow> stm_index state;
            Some (0, Ref (m\<lparr>stm_states := (stm_states m)[i := empty_state]\<rparr>)) }
          else Some (-1, p))"

definition sm_stm_config_transition :: "sm_stm ptr \<Rightarrow> int \<Rightarrow> sm_stm_event ptr \<Rightarrow> (int \<times> sm_stm ptr) option" where
  "sm_stm_config_transition p state event =
     (case p of
        NULL \<Rightarrow> Some (-1, NULL)
      | Ref m \<Rightarrow>
          if state \<ge> stm_state_number m then Some (-1, p)
          else
            (case event of
               NULL \<Rightarrow> None
             | Ref e \<Rightarrow>
                 if se_id e \<ge> stm_event_number m then Some (-1, p)
                 else do {
                   i \<leftarrow> stm_index state;
                   j \<leftarrow> stm_index (se_id e);
                   let (r, x) = sm_stm_clone_event (stm_transitions m ! i ! j) event;
                   Some (r, Ref (m\<lparr>stm_transitions := (stm_transitions m)[i := (stm_transitions m ! i)[j := x]]\<rparr>)) }))"

definition sm_stm_set_event :: "sm_stm ptr \<Rightarrow> int \<Rightarrow> int \<times> sm_stm ptr" where
  "sm_stm_set_event p event = (case p of NULL \<Rightarrow> (-1, NULL) | Ref m \<Rightarrow> (0, Ref (m\<lparr>stm_new_event := event\<rparr>)))"

definition sm_stm_get_current_state :: "sm_stm ptr \<Rightarrow> int option" where
  "sm_stm_get_current_state p =
     (case p of
        NULL \<Rightarrow> Some (-1)
      | Ref m \<Rightarrow> (case stm_current m of NULL \<Rightarrow> None | Ref i \<Rightarrow> Some (ss_state (stm_states m ! i))))"

definition stm_call :: "'w stm_run \<Rightarrow> nat ptr \<Rightarrow> nat ptr \<Rightarrow> int \<Rightarrow> sm_stm \<times> 'w \<Rightarrow> (int \<times> sm_stm \<times> 'w) option" where
  "stm_call run f a r x = (case f of NULL \<Rightarrow> Some (r, x) | Ref f \<Rightarrow> run f a x)"

text \<open>A pending event is handled first; the event is cleared after its handler has run.\<close>

definition stm_handle_event :: "'w stm_run \<Rightarrow> int \<Rightarrow> sm_stm \<Rightarrow> 'w \<Rightarrow> (int \<times> sm_stm \<times> 'w) option" where
  "stm_handle_event run state m w =
     (if stm_new_event m < stm_event_number m then do {
        i \<leftarrow> stm_index state;
        j \<leftarrow> stm_index (stm_new_event m);
        let t = stm_transitions m ! i ! j;
        (state, m, w) \<leftarrow> stm_call run (se_handler t) (se_arg t) state (m, w);
        Some (state, m\<lparr>stm_new_event := int SM_STM_EVENT_NUMBER_SUPPORT\<rparr>, w) }
      else Some (state, m, w))"

definition sm_stm_process :: "'w stm_run \<Rightarrow> sm_stm ptr \<Rightarrow> 'w \<Rightarrow> (int \<times> sm_stm ptr \<times> 'w) option" where
  "sm_stm_process run p w =
     (case p of
        NULL \<Rightarrow> Some (-1, NULL, w)
      | Ref m \<Rightarrow>
          (case stm_current m of
             NULL \<Rightarrow> Some (-1, p, w)
           | Ref c \<Rightarrow> do {
               (state, m, w) \<leftarrow> stm_handle_event run (ss_state (stm_states m ! c)) m w;
               i \<leftarrow> stm_index state;
               let m = m\<lparr>stm_current := Ref i\<rparr>;
               let s = stm_states m ! i;
               (_, m, w) \<leftarrow> stm_call run (ss_process s) (ss_arg s) 0 (m, w);
               Some (0, Ref m, w) }))"

subsection \<open>A machine never gets a state\<close>

text \<open>The machines that the operations make of a new one, for any arguments and callbacks.\<close>

inductive stm_reachable :: "'w stm_run \<Rightarrow> sm_stm ptr \<Rightarrow> bool" for run where
  create: "stm_reachable run (sm_stm_create alloc states events)"
| destroy: "stm_reachable run p \<Longrightarrow> stm_reachable run (snd (sm_stm_destroy p))"
| add_state: "stm_reachable run p \<Longrightarrow> sm_stm_add_state p s = Some (r, p') \<Longrightarrow> stm_reachable run p'"
| remove_state: "stm_reachable run p \<Longrightarrow> sm_stm_remove_state p i = Some (r, p') \<Longrightarrow> stm_reachable run p'"
| config: "stm_reachable run p \<Longrightarrow> sm_stm_config_transition p i e = Some (r, p') \<Longrightarrow> stm_reachable run p'"
| set_event: "stm_reachable run p \<Longrightarrow> stm_reachable run (snd (sm_stm_set_event p e))"
| process: "stm_reachable run p \<Longrightarrow> sm_stm_process run p w = Some (r, p', w') \<Longrightarrow> stm_reachable run p'"

definition stm_stateless :: "sm_stm ptr \<Rightarrow> bool" where
  "stm_stateless p = (case p of NULL \<Rightarrow> True | Ref m \<Rightarrow> is_null (stm_current m))"

lemma process_stateless: "stm_stateless p \<Longrightarrow> sm_stm_process run p w = Some (-1, p, w)"
  by (auto simp: stm_stateless_def sm_stm_process_def is_null_def split: ptr.splits)

lemma reachable_stateless:
  assumes "stm_reachable run p"
  shows "stm_stateless p"
  using assms
proof induction
  case (add_state p s r p')
  then show ?case
    by (auto simp: stm_stateless_def sm_stm_add_state_def bind_eq_Some_conv case_prod_beta Let_def split: ptr.splits if_splits)
next
  case (remove_state p i r p')
  then show ?case
    by (auto simp: stm_stateless_def sm_stm_remove_state_def bind_eq_Some_conv split: ptr.splits if_splits)
next
  case (config p i e r p')
  then show ?case
    by (auto simp: stm_stateless_def sm_stm_config_transition_def bind_eq_Some_conv case_prod_beta Let_def split: ptr.splits if_splits)
next
  case (process p w r p' w')
  then show ?case using process_stateless [of p run w] by simp
qed (auto simp: stm_stateless_def sm_stm_create_def sm_stm_destroy_def sm_stm_set_event_def split: ptr.splits)

text \<open>C37: Whatever states, transitions and events a machine is given by the operations of the library, in any order,
  \<open>sm_stm_process\<close> fails with -1 and changes nothing, so no handler and no process function ever runs, and
  \<open>sm_stm_get_current_state\<close> on a machine that exists reads through \<open>NULL\<close>: no operation sets the first state.\<close>

theorem state_machine_never_starts:
  assumes "stm_reachable run p"
  shows "sm_stm_process run p w = Some (-1, p, w) \<and> (p = NULL \<or> sm_stm_get_current_state p = None)"
  using reachable_stateless [OF assms] process_stateless [of p run w]
  by (auto simp: stm_stateless_def sm_stm_get_current_state_def is_null_def split: ptr.splits)

lemma state_machine_never_starts_witness:
  "let p = snd (sm_stm_set_event (sm_stm_create True 2 2) 0)
   in p \<noteq> NULL \<and> sm_stm_process (\<lambda>f a x. Some (0, x)) p () = Some (-1, p, ()) \<and> sm_stm_get_current_state p = None"
proof -
  let ?p = "snd (sm_stm_set_event (sm_stm_create True 2 2) 0)"
  have "stm_reachable (\<lambda>f a x. Some (0, x)) ?p" by (rule stm_reachable.set_event [OF stm_reachable.create])
  from state_machine_never_starts [OF this, of "()"] have "sm_stm_process (\<lambda>f a x. Some (0, x)) ?p () = Some (-1, ?p, ())
      \<and> (?p = NULL \<or> sm_stm_get_current_state ?p = None)" .
  moreover have "?p \<noteq> NULL" by (simp add: sm_stm_set_event_def sm_stm_create_def)
  ultimately show ?thesis by (simp add: Let_def)
qed

end
