(* ===== verification/Spec2Isabelle.thy ===== *)
theory Spec2Isabelle
  imports Prelude Timer Crc Host Items Queue Stack Vector Link_List Segment Bootloader Boot_Host
    Co_Od Co_Sync Co_Sdo Co_Sdo_Server Co_Sdo_Client Co_Sdo_Link Co_Sdo_Errors Co_Sdo_Safety
    Co_Emcy Co_Pdo Co_Device Boot_Slave Boot_Master Boot_Output Boot_Transfer
    Host_Exchange Intel_Hex Boot_Input_File Boot_Device Upgrade_Wire
    Scheduler W25q W25q_Chip W25q_Flash Co_Storage Stm
begin

text \<open>
  A verification development for the embedded C library \<^verbatim>\<open>my_library\<close>: the protocol stacks,
  the firmware upgrade and the containers of a family of microcontroller programs. Paths below are
  relative to the repository's root.

  \<^bold>\<open>The program.\<close> A \<^emph>\<open>master\<close> upgrades the firmware of \<^emph>\<open>devices\<close>. On the master, the boot
  master keeps a table of boot slaves, one per device; a slave takes segments of the image from a
  boot input and gives them to a boot output, which sends them as commands of the framed host
  protocol and reports the answers as events. On the device, the loader's boot interface takes the
  commands from the host protocol, collects segments and raises events of the bootloader state
  machine, which writes them to flash, checks the image and starts it. Independently, a device has a
  CANopen stack: an object dictionary, an SDO server and client, SYNC, PDO and emergency objects, run
  in one cycle. CRC routines and containers serve all of them.

  \<^bold>\<open>Theories and sources.\<close>
  \<^item> \<open>Prelude\<close>: the C memory model (blocks as byte lists; an access out of bounds is \<^term>\<open>None\<close>),
    pointers that may be \<open>NULL\<close>, bytes of integers, and the collections \<open>mem_simps\<close> and
    \<open>layout_simps\<close>. \<open>Timer\<close>: \<^verbatim>\<open>utils/code_c/timing/elapsed_timer.h\<close>.
  \<^item> \<open>Crc\<close>: \<^verbatim>\<open>utils/code_c/algorithms/sm_crc.c\<close> and \<^verbatim>\<open>CO_CRC.c\<close>.
  \<^item> \<open>Host\<close>: \<^verbatim>\<open>libs/host/sm_host.c\<close>, the framed protocol with its ring buffer, state machine and
    synchronous exchange.
  \<^item> \<open>Items\<close>, \<open>Queue\<close>, \<open>Stack\<close>, \<open>Vector\<close>, \<open>Link_List\<close>: \<^verbatim>\<open>utils/code_c/containers\<close>. \<open>Items\<close> holds the
    contracts of the containers as locales, which the three containers of items interpret.
  \<^item> \<open>Segment\<close>, \<open>Bootloader\<close>, \<open>Boot_Host\<close>: \<^verbatim>\<open>common/upgrade/loader\<close>, i.e. \<^verbatim>\<open>fw/sm_segment.c\<close>,
    \<^verbatim>\<open>fw/sm_fw.c\<close> and \<^verbatim>\<open>sm_bootloader.c\<close>, and \<^verbatim>\<open>boot_interface/sm_boot_host.c\<close>.
  \<^item> \<open>Boot_Slave\<close>, \<open>Boot_Master\<close>, \<open>Boot_Output\<close>: \<^verbatim>\<open>common/upgrade/master\<close>, i.e.
    \<^verbatim>\<open>sm_boot_slave.c\<close>, \<^verbatim>\<open>sm_boot_master.c\<close> and \<^verbatim>\<open>output/sm_host_485_boot_output.c\<close>.
  \<^item> \<open>Intel_Hex\<close>: \<^verbatim>\<open>utils/code_c/algorithms/sm_intel_hex.c\<close>. \<open>Boot_Input_File\<close>: the boot input from a HEX file,
    \<^verbatim>\<open>input/sm_file_boot_input.c\<close>.
  \<^item> \<open>Boot_Transfer\<close>: what slave, output and device achieve together, under three contracts stated as locales
    (a device that takes the upgrade commands, a link that exchanges a command for its answer, a boot
    input that delivers an image): calls at a sensible pace finish the upgrade and the image is stored.
    \<open>Host_Exchange\<close> shows what the synchronous exchange of \<open>Host\<close> does when the answer arrives;
    \<open>Boot_Device\<close> joins the host object, the boot interface and the bootloader to a device and shows that it
    keeps the first contract; \<open>Upgrade_Wire\<close> joins all of them over a serial line, interprets the other
    contracts and ends in the theorem about the whole way from a HEX file to the flash.
  \<^item> \<open>Co_Od\<close> (dictionary), \<open>Co_Sync\<close>, \<open>Co_Sdo\<close>, \<open>Co_Sdo_Server\<close>, \<open>Co_Sdo_Client\<close>, \<open>Co_Emcy\<close>, \<open>Co_Pdo\<close>,
    \<open>Co_Device\<close>: the files of \<^verbatim>\<open>common/upgrade/loader/libs/canopen\<close>. \<open>Co_Sdo_Link\<close>, \<open>Co_Sdo_Errors\<close>
    and \<open>Co_Sdo_Safety\<close> hold properties of client and server together, of the server's answers to bad
    requests and of its memory accesses.
  \<^item> \<open>Scheduler\<close>: \<^verbatim>\<open>common/schedule/sm_core_sch.c\<close>, the table of periodic tasks.
  \<^item> \<open>W25q\<close>: \<^verbatim>\<open>driver/winbond/sm_w25qxx.c\<close>, the driver of a serial flash. \<open>W25q_Chip\<close> holds the contract of its
    port as a locale, with a model of the chip's data sheet, and what writing does on it; \<open>W25q_Flash\<close> does the rest
    of the operations and holds the properties.
  \<^item> \<open>Co_Storage\<close>: \<^verbatim>\<open>CO_FLASH.c\<close>, \<^verbatim>\<open>CO_OD_sign.c\<close> and \<^verbatim>\<open>CO_OD_storage.c\<close>, the parameters of the dictionary in flash,
    over a contract of the procedure that writes it.
  \<^item> \<open>Stm\<close>: \<^verbatim>\<open>common/stm/sm_stm.c\<close>, state machines given by a table of transitions; no operation gives
    a machine its first state, so none ever starts.

  \<^bold>\<open>How the code is rendered.\<close> A struct is a record with the source's fields, an enum a datatype, an
  unsigned integer a word of its width; an \<open>int32_t\<close> that the code only compares and counts is an
  \<open>int\<close>. An operation is a function on the explicit state; where C has undefined behaviour (an access
  out of bounds, a use of \<open>NULL\<close>, a loop that never ends) its value is \<^term>\<open>None\<close>, so a theorem
  that gives \<open>Some\<close> includes memory safety and termination. What is outside the repository (clock,
  flash, transport, application callbacks, \<open>malloc\<close>) is a parameter: a function, or a record of
  functions, over a world that the caller chooses. Polling loops are \<open>partial_function (option)\<close> or
  recursive functions on a bound that the code itself has (table sizes, lengths); no fuel is chosen
  freely. The busy wait of the synchronous exchange, \<open>sync_poll\<close>, is proved to return under a
  millisecond clock of a real time that advances at every look at it, by as little as one likes.

  \<^bold>\<open>What is shown.\<close> Per component: the invariant of its state and that every operation keeps it; the
  result of each operation on every branch; refinement of an abstract object (a sequence, a FIFO, a
  finite map, a specification of the CRC as a polynomial remainder). Across components: what a sender
  frames, a receiver delivers; a segment written through the commands of the host protocol is stored
  exactly once; the loader starts an image only when it is intact; an SDO transfer copies the object
  between client and server, byte for byte; a value written by SDO leaves the device in the next PDO;
  a boot slave gives up on a silent device; the table of the boot master stays consistent.
  A firmware that is read from a HEX file reaches the flash of the device, byte for byte at its address,
  after a number of calls of the slave that its length determines. A scheduled task runs as often as asked,
  whatever time the tasks take and whatever else they do with the scheduler. What
  the flash driver writes to erased cells, across pages and sectors, it reads back. The
  parameters that a first start saves are those that every later start loads.
  Where the code fails to do what it means to, a theorem shows the failing case; the manifest lists
  these findings.

  \<^bold>\<open>Assumptions.\<close> The named hypotheses of the theorems: sizes within the buffers of the code, callbacks
  that do not re-enter the object that calls them, a clock that changes nothing a theorem counts,
  and storage procedures that do what their names say where a theorem is about stored bytes. The 16 bit
  CRC of the loader, \<^verbatim>\<open>CRC.h\<close>, is not in the repository: it is a parameter.

  \<^bold>\<open>Not modelled.\<close> Vendored code (\<^verbatim>\<open>libs/nanoModbus\<close>, \<^verbatim>\<open>libs/MQTT-C\<close>, \<^verbatim>\<open>libs/tiny-json\<close>,
  \<^verbatim>\<open>libs/json-maker\<close>); wrappers of the operating system, serial ports, sockets, modems and HTTP
  (\<^verbatim>\<open>platform\<close>, \<^verbatim>\<open>interface\<close>, \<^verbatim>\<open>common/modem\<close>, \<^verbatim>\<open>common/mqtt\<close>, \<^verbatim>\<open>common/http\<close>, \<^verbatim>\<open>common/modbus\<close>),
  whose behaviour is that of the calls they make; example programs; C++ utilities; logging.
  Not modelled either: the other boot inputs and outputs, the other drivers under \<^verbatim>\<open>driver\<close>, and strings.
\<close>

end
